(* ===== verification/Tas_Prelude.thy ===== *)
theory Tas_Prelude
  imports Main "HOL-Library.Word"
begin

text \<open>
  Shared vocabulary of the development: the C integer types of the TAS sources as
  words of their width, the result type of code that can abort, and the generic
  facts on words, circular positions and byte memories that the component theories
  share.
\<close>

unbundle bit_operations_syntax

section \<open>C integers and results\<close>

type_synonym u8 = "8 word"
type_synonym u16 = "16 word"
type_synonym u32 = "32 word"
type_synonym u64 = "64 word"

text \<open>
  \<open>Abort\<close> is a call of \<^verbatim>\<open>abort()\<close>, \<open>Assert_Failed\<close> a failed \<^verbatim>\<open>assert\<close>,
  \<open>Div_By_Zero\<close> the trap of an integer division by zero, \<open>Out_Of_Bounds\<close> an access
  behind the end of an array, \<open>Null_Pointer\<close> one through \<^verbatim>\<open>NULL\<close>, which C leaves undefined.
\<close>

datatype fault = Abort | Assert_Failed | Div_By_Zero | Out_Of_Bounds | Null_Pointer

type_synonym 'a result = "fault + 'a"

text \<open>
  A run of code that may also loop for ever, which is \<open>None\<close>.  \<open>bind_run\<close> is sequencing:
  it stops at the first fault.
\<close>

type_synonym 'a run = "'a result option"

definition bind_run :: "'a run \<Rightarrow> ('a \<Rightarrow> 'b run) \<Rightarrow> 'b run" where
  "bind_run m f = (case m of None \<Rightarrow> None | Some (Inl e) \<Rightarrow> Some (Inl e) | Some (Inr x) \<Rightarrow> f x)"

definition bind_res :: "'a result \<Rightarrow> ('a \<Rightarrow> 'b result) \<Rightarrow> 'b result" where
  "bind_res m f = (case m of Inl e \<Rightarrow> Inl e | Inr x \<Rightarrow> f x)"

lemma bind_run_simps [simp]:
  "bind_run None f = None" "bind_run (Some (Inl e)) f = Some (Inl e)" "bind_run (Some (Inr x)) f = f x"
  by (simp_all add: bind_run_def)

lemma bind_res_simps [simp]: "bind_res (Inl e) f = Inl e" "bind_res (Inr x) f = f x"
  by (simp_all add: bind_res_def)

lemma bind_run_Inr:
  "bind_run m f = Some (Inr y) \<longleftrightarrow> (\<exists>x. m = Some (Inr x) \<and> f x = Some (Inr y))"
  by (auto simp: bind_run_def split: option.splits sum.splits)

lemma bind_res_Inr: "bind_res m f = Inr y \<longleftrightarrow> (\<exists>x. m = Inr x \<and> f x = Inr y)"
  by (auto simp: bind_res_def split: sum.splits)

named_theorems u32_arith \<open>rewrites 32-bit word comparisons and sums to natural numbers\<close>
named_theorems u64_arith \<open>rewrites 64-bit word comparisons and sums to natural numbers\<close>

section \<open>Words as natural numbers\<close>

lemma unat_u8_bound: "unat (x::u8) < 256"
  using unsigned_less [of x, where ?'a = nat] by simp

lemma unat_u16_bound: "unat (x::u16) < 65536"
  using unsigned_less [of x, where ?'a = nat] by simp

lemma unat_u32_bound: "unat (x::u32) < 4294967296"
  using unsigned_less [of x, where ?'a = nat] by simp

lemma unat_u64_bound: "unat (x::u64) < 18446744073709551616"
  using unsigned_less [of x, where ?'a = nat] by simp

lemma unat_u32_add:
  "unat ((x::u32) + y) =
    (if unat x + unat y < 4294967296 then unat x + unat y else unat x + unat y - 4294967296)"
  by (simp add: unat_plus_if')

lemma unat_u32_sub:
  "unat ((x::u32) - y) =
    (if unat y \<le> unat x then unat x - unat y else unat x + 4294967296 - unat y)"
  by (simp add: unat_sub_if' word_le_nat_alt)

lemma unat_u64_add:
  "unat ((x::u64) + y) =
    (if unat x + unat y < 18446744073709551616 then unat x + unat y
     else unat x + unat y - 18446744073709551616)"
  by (simp add: unat_plus_if')

lemma unat_u64_sub:
  "unat ((x::u64) - y) =
    (if unat y \<le> unat x then unat x - unat y
     else unat x + 18446744073709551616 - unat y)"
  by (simp add: unat_sub_if' word_le_nat_alt)

lemma u32_eq_iff: "(x::u32) = y \<longleftrightarrow> unat x = unat y"
  by (simp add: word_unat_eq_iff)

lemma u64_eq_iff: "(x::u64) = y \<longleftrightarrow> unat x = unat y"
  by (simp add: word_unat_eq_iff)

lemma unat_ucast_u16_u32: "unat (ucast (x::u16) :: u32) = unat x"
  by (simp add: unsigned_ucast_eq take_bit_eq_mod order.strict_trans [OF unat_u16_bound])

lemma unat_ucast_u32_u16: "unat (ucast (x::u32) :: u16) = unat x mod 65536"
  by (simp add: unsigned_ucast_eq take_bit_eq_mod)

lemma unat_ucast_u32_u64: "unat (ucast (x::u32) :: u64) = unat x"
  by (simp add: unsigned_ucast_eq take_bit_eq_mod order.strict_trans [OF unat_u32_bound])

lemma u32_add_cases:
  "unat (x + y :: u32) = unat x + unat y \<or> unat (x + y) + 4294967296 = unat x + unat y"
  using unat_u32_add [of x y] by auto

text \<open>
  The rewrites of comparisons and differences of sequence numbers.  Sums are left
  alone: proofs name them with \<open>u32_add_cases\<close>, which keeps the goals linear.
\<close>

lemmas seq_simps = word_le_nat_alt [where 'a = 32] word_less_nat_alt [where 'a = 32]
  if_distrib [of unat] unat_u32_sub unat_ucast_u32_u16 unat_ucast_u16_u32

lemmas [u32_arith] =
  word_le_nat_alt [where 'a = 32] word_less_nat_alt [where 'a = 32] u32_eq_iff
  unat_u32_add unat_u32_sub unat_ucast_u16_u32 unat_ucast_u32_u16

lemmas [u64_arith] =
  word_le_nat_alt [where 'a = 64] word_less_nat_alt [where 'a = 64] u64_eq_iff
  unat_u64_add unat_u64_sub unat_ucast_u32_u64

section \<open>64-bit words and integers\<close>

lemma u64_of_u32: "(ucast (x::u32) :: u64) = word_of_int (uint x)"
  by (rule ucast_eq)

lemma uint_u32_range: "0 \<le> uint (x::u32)" "uint x < 4294967296"
  using uint_lt2p [of x] by simp_all

lemma sint_u64_of_int:
  assumes "- 9223372036854775808 \<le> k" "k < 9223372036854775808"
  shows "sint (word_of_int k :: u64) = k"
  using assms by (simp add: int_word_sint mod_pos_pos_trivial)

lemma u64_of_int_less:
  assumes "0 \<le> a" "a < 18446744073709551616" "0 \<le> b" "b < 18446744073709551616"
  shows "(word_of_int a :: u64) < word_of_int b \<longleftrightarrow> a < b"
    "(word_of_int a :: u64) \<le> word_of_int b \<longleftrightarrow> a \<le> b"
    "(word_of_int a :: u64) = word_of_int b \<longleftrightarrow> a = b"
  using assms by (simp_all add: word_less_def word_le_def word_uint_eq_iff uint_word_of_int)

lemma u64_mask32: "(word_of_int k :: u64) AND 0xFFFFFFFF = word_of_int (k mod 4294967296)"
proof -
  have "(0xFFFFFFFF :: u64) = mask 32"
    by (simp add: mask_eq_exp_minus_1)
  then show ?thesis
    by (simp only: and_mask_wi take_bit_eq_mod) simp
qed

lemma uint_ucast_u32_u64: "uint (ucast (x::u32) :: u64) = uint x"
  by (simp only: uint_nat unat_ucast_u32_u64)

lemma uint_ucast_u16_u32: "uint (ucast (x::u16) :: u32) = uint x"
  by (simp only: uint_nat unat_ucast_u16_u32)

lemma uint_u64_mult: "uint (a * b :: u64) = uint a * uint b mod 18446744073709551616"
  by (simp add: uint_word_ariths)

lemma uint_u64_add: "uint (a + b :: u64) = (uint a + uint b) mod 18446744073709551616"
  by (simp add: uint_word_ariths)

lemma uint_ucast_u64_u32: "uint (ucast (x::u64) :: u32) = uint x mod 4294967296"
  by (simp add: unsigned_ucast_eq take_bit_eq_mod)

end
