(* ===== verification/Packet_Defs.thy ===== *)
theory Packet_Defs
  imports Tas_Prelude
begin

text \<open>
  Big-endian integers (\<^verbatim>\<open>include/utils.h\<close>) and the packet headers of
  \<^verbatim>\<open>include/packet_defs.h\<close>.  A big-endian integer is a one-field struct in C, so that
  the compiler tells it from a host integer; here it is a datatype with one
  constructor.  The host is little endian (x86), so the conversions swap bytes.
\<close>

unbundle bit_operations_syntax

section \<open>Byte order\<close>

definition bswap16 :: "u16 \<Rightarrow> u16" where
  "bswap16 x = push_bit 8 x OR drop_bit 8 x"

definition bswap32 :: "u32 \<Rightarrow> u32" where
  "bswap32 x = push_bit 24 x OR push_bit 8 (x AND 0xFF00) OR
     drop_bit 8 (x AND 0xFF0000) OR drop_bit 24 x"

datatype beui16 = Beui16 (beui16_x: u16)
datatype beui32 = Beui32 (beui32_x: u32)

definition f_beui16 :: "beui16 \<Rightarrow> u16" where
  "f_beui16 b = bswap16 (beui16_x b)"

definition f_beui32 :: "beui32 \<Rightarrow> u32" where
  "f_beui32 b = bswap32 (beui32_x b)"

definition t_beui16 :: "u16 \<Rightarrow> beui16" where
  "t_beui16 x = Beui16 (bswap16 x)"

definition t_beui32 :: "u32 \<Rightarrow> beui32" where
  "t_beui32 x = Beui32 (bswap32 x)"

section \<open>Headers\<close>

abbreviation (input) ETH_TYPE_IP :: u16 where "ETH_TYPE_IP \<equiv> 0x0800"
abbreviation (input) IP_PROTO_TCP :: u8 where "IP_PROTO_TCP \<equiv> 6"
abbreviation (input) IP_ECN_NONE :: u8 where "IP_ECN_NONE \<equiv> 0"
abbreviation (input) IP_ECN_ECT0 :: u8 where "IP_ECN_ECT0 \<equiv> 2"
abbreviation (input) IP_ECN_CE :: u8 where "IP_ECN_CE \<equiv> 3"

record eth_hdr =
  eth_dest :: "u8 list"
  eth_src :: "u8 list"
  eth_type :: beui16

record ip_hdr =
  v_hl :: u8
  tos :: u8
  ip_len :: beui16
  ip_id :: beui16
  ip_offset :: beui16
  ttl :: u8
  proto :: u8
  ip_chksum :: u16
  ip_src :: beui32
  ip_dest :: beui32

record tcp_hdr =
  tcp_src :: beui16
  tcp_dest :: beui16
  seqno :: beui32
  ackno :: beui32
  hdrlen_rsvd_flags :: u16
  wnd :: beui16
  tcp_chksum :: u16
  urgp :: beui16

text \<open>
  A TCP packet buffer: the three packed headers of \<^verbatim>\<open>struct pkt_tcp\<close> and the bytes of
  the buffer that follow them (TCP options, then payload), addressed from \<^verbatim>\<open>p + 1\<close>.
\<close>

record pkt_tcp =
  eth :: eth_hdr
  ip :: ip_hdr
  tcp :: tcp_hdr
  rest :: "nat \<Rightarrow> u8"

abbreviation (input) sizeof_eth :: nat where "sizeof_eth \<equiv> 14"
abbreviation (input) sizeof_ip :: nat where "sizeof_ip \<equiv> 20"
abbreviation (input) sizeof_tcp :: nat where "sizeof_tcp \<equiv> 20"
abbreviation (input) sizeof_pkt_tcp :: nat where "sizeof_pkt_tcp \<equiv> 54"
abbreviation (input) sizeof_timestamp_opt :: nat where "sizeof_timestamp_opt \<equiv> 10"

abbreviation (input) TCP_FIN :: u16 where "TCP_FIN \<equiv> 0x01"
abbreviation (input) TCP_SYN :: u16 where "TCP_SYN \<equiv> 0x02"
abbreviation (input) TCP_RST :: u16 where "TCP_RST \<equiv> 0x04"
abbreviation (input) TCP_PSH :: u16 where "TCP_PSH \<equiv> 0x08"
abbreviation (input) TCP_ACK :: u16 where "TCP_ACK \<equiv> 0x10"
abbreviation (input) TCP_URG :: u16 where "TCP_URG \<equiv> 0x20"
abbreviation (input) TCP_ECE :: u16 where "TCP_ECE \<equiv> 0x40"
abbreviation (input) TCP_CWR :: u16 where "TCP_CWR \<equiv> 0x80"
abbreviation (input) TCP_NS :: u16 where "TCP_NS \<equiv> 0x100"
abbreviation (input) TCP_FLAGS :: u16 where "TCP_FLAGS \<equiv> 0x1ff"

definition IPH_V :: "ip_hdr \<Rightarrow> u8" where
  "IPH_V h = drop_bit 4 (v_hl h)"

definition IPH_HL :: "ip_hdr \<Rightarrow> u8" where
  "IPH_HL h = v_hl h AND 0x0f"

definition IPH_ECN :: "ip_hdr \<Rightarrow> u8" where
  "IPH_ECN h = tos h AND 0x3"

text \<open>\<^verbatim>\<open>IPH_ECN_SET\<close> masks with \<^verbatim>\<open>0xffc\<close>, which on a byte is \<^verbatim>\<open>0xfc\<close>.\<close>

definition IPH_ECN_SET :: "ip_hdr \<Rightarrow> u8 \<Rightarrow> ip_hdr" where
  "IPH_ECN_SET h e = h\<lparr>tos := (tos h AND 0xfc) OR e\<rparr>"

definition TCPH_HDRLEN :: "tcp_hdr \<Rightarrow> u16" where
  "TCPH_HDRLEN h = drop_bit 12 (bswap16 (hdrlen_rsvd_flags h))"

definition TCPH_FLAGS :: "tcp_hdr \<Rightarrow> u16" where
  "TCPH_FLAGS h = bswap16 (hdrlen_rsvd_flags h) AND TCP_FLAGS"

definition TCPH_HDRLEN_FLAGS_SET :: "tcp_hdr \<Rightarrow> u16 \<Rightarrow> u16 \<Rightarrow> tcp_hdr" where
  "TCPH_HDRLEN_FLAGS_SET h len flags =
     h\<lparr>hdrlen_rsvd_flags := bswap16 (push_bit 12 len OR flags)\<rparr>"

text \<open>A plain ACK segment with cleared numbers and 12 bytes of options.\<close>

definition pkt_zero :: pkt_tcp where
  "pkt_zero =
    \<lparr>eth = \<lparr>eth_dest = replicate 6 0, eth_src = replicate 6 0, eth_type = t_beui16 ETH_TYPE_IP\<rparr>,
     ip = \<lparr>v_hl = 0x45, tos = 0, ip_len = t_beui16 52, ip_id = Beui16 0, ip_offset = Beui16 0,
           ttl = 64, proto = IP_PROTO_TCP, ip_chksum = 0, ip_src = Beui32 0, ip_dest = Beui32 0\<rparr>,
     tcp = \<lparr>tcp_src = Beui16 0, tcp_dest = Beui16 0, seqno = Beui32 0, ackno = Beui32 0,
            hdrlen_rsvd_flags = bswap16 0x8010, wnd = Beui16 0, tcp_chksum = 0, urgp = Beui16 0\<rparr>,
     rest = (\<lambda>_. 0)\<rparr>"

section \<open>Properties\<close>

lemma bswap16_bswap16 [simp]: "bswap16 (bswap16 x) = x"
  by (rule bit_word_eqI) (auto simp: bswap16_def bit_simps)

lemma bswap32_masks: "(0xFF00::u32) = push_bit 8 (mask 8)" "(0xFF0000::u32) = push_bit 16 (mask 8)"
  by (simp_all add: mask_eq_exp_minus_1 push_bit_eq_mult)

lemma bit_bswap32:
  "bit (bswap32 x) n \<longleftrightarrow>
    (if n < 8 then bit x (24 + n) else if n < 16 then bit x (8 + n)
     else if n < 24 then bit x (n - 8) else if n < 32 then bit x (n - 24) else False)"
  unfolding bswap32_def bswap32_masks by (auto simp: bit_simps dest: bit_imp_le_length)

lemma bswap32_bswap32 [simp]: "bswap32 (bswap32 x) = x"
  by (rule bit_word_eqI) (auto simp: bit_bswap32)

lemma f_t_beui16 [simp]: "f_beui16 (t_beui16 x) = x"
  by (simp add: f_beui16_def t_beui16_def)

lemma f_t_beui32 [simp]: "f_beui32 (t_beui32 x) = x"
  by (simp add: f_beui32_def t_beui32_def)

lemma t_f_beui32 [simp]: "t_beui32 (f_beui32 b) = b"
  by (simp add: f_beui32_def t_beui32_def)

end
