(* ===== verification/Tas_Memif.thy ===== *)
theory Tas_Memif
  imports Packet_Defs
begin

text \<open>
  The memory interface between fast path, slow path and applications,
  \<^verbatim>\<open>include/tas_memif.h\<close>: the per-flow state registers with their flag bits and the
  queue entries exchanged with applications.
\<close>

abbreviation (input) FLEXNIC_PL_FLOWST_SLOWPATH :: u64 where "FLEXNIC_PL_FLOWST_SLOWPATH \<equiv> 1"
abbreviation (input) FLEXNIC_PL_FLOWST_ECN :: u64 where "FLEXNIC_PL_FLOWST_ECN \<equiv> 8"
abbreviation (input) FLEXNIC_PL_FLOWST_TXFIN :: u64 where "FLEXNIC_PL_FLOWST_TXFIN \<equiv> 16"
abbreviation (input) FLEXNIC_PL_FLOWST_RXFIN :: u64 where "FLEXNIC_PL_FLOWST_RXFIN \<equiv> 32"
abbreviation (input) FLEXNIC_PL_FLOWST_RX_MASK :: u64 where "FLEXNIC_PL_FLOWST_RX_MASK \<equiv> NOT 63"

abbreviation (input) FLEXTCP_PL_ARX_CONNUPDATE :: u16 where "FLEXTCP_PL_ARX_CONNUPDATE \<equiv> 1"
abbreviation (input) FLEXTCP_PL_ARX_FLRXDONE :: u16 where "FLEXTCP_PL_ARX_FLRXDONE \<equiv> 1"
abbreviation (input) FLEXTCP_PL_ATX_FLTXDONE :: u8 where "FLEXTCP_PL_ATX_FLTXDONE \<equiv> 1"

abbreviation (input) FLEXNIC_PL_FLOWST_NUM :: nat where "FLEXNIC_PL_FLOWST_NUM \<equiv> 131072"
abbreviation (input) FLEXNIC_PL_FLOWHT_ENTRIES :: nat where "FLEXNIC_PL_FLOWHT_ENTRIES \<equiv> 262144"
abbreviation (input) FLEXNIC_PL_FLOWHT_NBSZ :: nat where "FLEXNIC_PL_FLOWHT_NBSZ \<equiv> 4"

record flextcp_pl_flowst =
  opaque :: u64
  rx_base_sp :: u64
  tx_base :: u64
  rx_len :: u32
  tx_len :: u32
  local_ip :: beui32
  remote_ip :: beui32
  local_port :: beui16
  remote_port :: beui16
  remote_mac :: "u8 list"
  db_id :: u16
  flow_group :: u16
  bump_seq :: u16
  lock :: u32
  rx_avail :: u32
  rx_next_pos :: u32
  rx_next_seq :: u32
  rx_remote_avail :: u32
  rx_dupack_cnt :: u32
  rx_ooo_start :: u32
  rx_ooo_len :: u32
  tx_avail :: u32
  tx_sent :: u32
  tx_next_pos :: u32
  tx_next_seq :: u32
  tx_next_ts :: u32
  tx_rate :: u32
  cnt_tx_drops :: u16
  cnt_rx_acks :: u16
  cnt_rx_ack_bytes :: u32
  cnt_rx_ecn_bytes :: u32
  rtt_est :: u32

text \<open>Update of a flow's buffers, sent to the application.\<close>

record flextcp_pl_arx =
  arx_type :: u8
  arx_opaque :: u64
  arx_rx_bump :: u32
  arx_rx_pos :: u32
  arx_tx_bump :: u32
  arx_flags :: u8

text \<open>Cleared flow state registers, as the shared memory holds them at start-up.\<close>

definition flowst_zero :: flextcp_pl_flowst where
  "flowst_zero =
    \<lparr>opaque = 0, rx_base_sp = 0, tx_base = 0, rx_len = 0, tx_len = 0,
     local_ip = Beui32 0, remote_ip = Beui32 0, local_port = Beui16 0, remote_port = Beui16 0,
     remote_mac = replicate 6 0, db_id = 0, flow_group = 0, bump_seq = 0, lock = 0,
     rx_avail = 0, rx_next_pos = 0, rx_next_seq = 0, rx_remote_avail = 0, rx_dupack_cnt = 0,
     rx_ooo_start = 0, rx_ooo_len = 0, tx_avail = 0, tx_sent = 0, tx_next_pos = 0,
     tx_next_seq = 0, tx_next_ts = 0, tx_rate = 0, cnt_tx_drops = 0, cnt_rx_acks = 0,
     cnt_rx_ack_bytes = 0, cnt_rx_ecn_bytes = 0, rtt_est = 0\<rparr>"

text \<open>A flag of \<^verbatim>\<open>rx_base_sp\<close> is set.\<close>

definition fs_flag :: "flextcp_pl_flowst \<Rightarrow> u64 \<Rightarrow> bool" where
  "fs_flag fs f \<longleftrightarrow> rx_base_sp fs AND f = f"

end
