(* ===== verification/Tcp_Common.thy ===== *)
theory Tcp_Common
  imports Tas_Memif
begin

text \<open>
  The sequence number and window arithmetic of the fast path,
  \<^verbatim>\<open>tas/fast/tcp_common.h\<close>: which part of a segment fits into the receive buffer,
  which acknowledgements are valid, how much may be sent, and the TCP option parser.
  An \<^verbatim>\<open>int\<close> result with output parameters is an option: \<open>None\<close> is the drop (-1),
  \<open>Some\<close> carries the outputs.  The reference definitions \<open>rx_window_trim\<close> and
  \<open>ack_in_flight\<close> say what the code means to compute, in distances from the
  start of the window instead of in comparisons of wrapped sequence numbers.
\<close>

section \<open>Model\<close>

definition tcp_valid_rxseq :: "flextcp_pl_flowst \<Rightarrow> u32 \<Rightarrow> u16 \<Rightarrow> (u16 \<times> u16) option" where
  "tcp_valid_rxseq fs pkt_seq pkt_bytes =
    (let pseq_a = pkt_seq; pseq_b = pkt_seq + ucast pkt_bytes;
         sseq_a = rx_next_seq fs; sseq_b = rx_next_seq fs + rx_avail fs in
     if pseq_a \<le> pseq_b \<and> sseq_a \<le> sseq_b then
       if pseq_b < sseq_a then None
       else if pseq_a > sseq_a then None
       else Some (ucast (sseq_a - pseq_a), ucast (if pseq_b > sseq_b then pseq_b - sseq_b else 0))
     else if pseq_a \<le> pseq_b \<and> sseq_a > sseq_b then
       if pseq_a \<ge> sseq_b \<and> pseq_b < sseq_a then None
       else if pseq_a > sseq_a \<or> pseq_a < sseq_b then None
       else Some (ucast (sseq_a - pseq_a), 0)
     else if pseq_a > pseq_b \<and> sseq_a \<le> sseq_b then
       if pseq_b < sseq_a then None
       else if pseq_a > sseq_a then None
       else Some (ucast (sseq_a - pseq_a), ucast (if pseq_b > sseq_b then pseq_b - sseq_b else 0))
     else
       if pseq_a > sseq_a then None
       else Some (ucast (sseq_a - pseq_a), ucast (if pseq_b > sseq_b then pseq_b - sseq_b else 0)))"

definition tcp_trim_rxbuf :: "flextcp_pl_flowst \<Rightarrow> u32 \<Rightarrow> u16 \<Rightarrow> (u16 \<times> u16) option" where
  "tcp_trim_rxbuf fs pkt_seq pkt_bytes =
    (let pseq_a = pkt_seq; pseq_b = pkt_seq + ucast pkt_bytes;
         sseq_a = rx_next_seq fs; sseq_b = rx_next_seq fs + rx_avail fs in
     if pseq_a \<le> pseq_b \<and> sseq_a \<le> sseq_b then
       if pseq_b < sseq_a then None
       else if pseq_a > sseq_b then None
       else Some (ucast (if pseq_a < sseq_a then sseq_a - pseq_a else 0),
                  ucast (if pseq_b > sseq_b then pseq_b - sseq_b else 0))
     else if pseq_a \<le> pseq_b \<and> sseq_a > sseq_b then
       if pseq_a > sseq_b \<and> pseq_b < sseq_a then None
       else Some (ucast (if pseq_a > sseq_b \<and> pseq_a < sseq_a then sseq_a - pseq_a else 0),
                  ucast (if pseq_b \<ge> sseq_b \<and> pseq_b < sseq_a then pseq_b - sseq_b else 0))
     else if pseq_a > pseq_b \<and> sseq_a \<le> sseq_b then
       if pseq_a > sseq_b \<and> pseq_b < sseq_a then None
       else Some (ucast (if sseq_a \<le> pseq_b \<or> sseq_a > pseq_a then sseq_a - pseq_a else 0),
                  ucast (if pseq_b > sseq_b \<or> sseq_a \<ge> pseq_a then pseq_b - sseq_b else 0))
     else
       Some (ucast (if pseq_a < sseq_a then sseq_a - pseq_a else 0),
             ucast (if pseq_b > sseq_b then pseq_b - sseq_b else 0)))"

text \<open>\<^verbatim>\<open>ALLOW_FUTURE_ACKS\<close> is defined, so unsent bytes of the buffer may be acknowledged.\<close>

definition tcp_valid_rxack :: "flextcp_pl_flowst \<Rightarrow> u32 \<Rightarrow> u32 option" where
  "tcp_valid_rxack fs ack =
    (let fsack_a = tx_next_seq fs - tx_sent fs; fsack_b = tx_next_seq fs + tx_avail fs in
     if fsack_a \<le> fsack_b then
       if ack < fsack_a \<or> ack > fsack_b then None else Some (ack - fsack_a)
     else
       if fsack_a > ack \<and> ack > fsack_b then None else Some (ack - fsack_a))"

text \<open>
  The upper 8 bits of \<^verbatim>\<open>rx_remote_avail\<close> are the window scale of the peer.  C defines
  the shift for scales below 32 only; the model is meant for those.
\<close>

definition remote_window :: "flextcp_pl_flowst \<Rightarrow> u32" where
  "remote_window fs =
     push_bit (unat (drop_bit 24 (rx_remote_avail fs))) (rx_remote_avail fs AND 0xFFFFFF)"

definition tcp_txavail :: "flextcp_pl_flowst \<Rightarrow> u32 option \<Rightarrow> u32" where
  "tcp_txavail fs pavail =
    (let buf_avail = (case pavail of Some a \<Rightarrow> a | None \<Rightarrow> tx_avail fs);
         fc_avail = remote_window fs - tx_sent fs in
     if fc_avail < buf_avail then fc_avail else buf_avail)"

text \<open>
  The option parser.  \<^verbatim>\<open>opt\<close> is the memory behind the TCP header; the parsed
  timestamp option is the offset it starts at.  The loop is a partial function:
  \<open>None\<close> is a loop that never ends, \<open>Some (Inl ())\<close> the error return.
\<close>

record tcp_opts =
  opts_ts :: "nat option"

abbreviation (input) TCP_OPT_END_OF_OPTIONS :: u8 where "TCP_OPT_END_OF_OPTIONS \<equiv> 0"
abbreviation (input) TCP_OPT_NO_OP :: u8 where "TCP_OPT_NO_OP \<equiv> 1"
abbreviation (input) TCP_OPT_TIMESTAMP :: u8 where "TCP_OPT_TIMESTAMP \<equiv> 8"

partial_function (option) tcp_parse_options_loop ::
  "(nat \<Rightarrow> u8) \<Rightarrow> nat \<Rightarrow> nat \<Rightarrow> tcp_opts \<Rightarrow> (unit + tcp_opts) option"
where
  "tcp_parse_options_loop opt opts_len off opts =
    (if \<not> off < opts_len then Some (Inr opts)
     else if opt off = TCP_OPT_END_OF_OPTIONS then Some (Inr opts)
     else if opt off = TCP_OPT_NO_OP then tcp_parse_options_loop opt opts_len (off + 1) opts
     else if opts_len - off < 2 then Some (Inl ())
     else if opt off = TCP_OPT_TIMESTAMP then
       if unat (opt (off + 1)) \<noteq> sizeof_timestamp_opt then Some (Inl ())
       else tcp_parse_options_loop opt opts_len (off + unat (opt (off + 1))) (opts\<lparr>opts_ts := Some off\<rparr>)
     else tcp_parse_options_loop opt opts_len (off + unat (opt (off + 1))) opts)"

text \<open>
  \<^verbatim>\<open>len - sizeof(*p)\<close> is computed in \<^verbatim>\<open>size_t\<close>, so for a length below the header size it
  is a huge number and the check passes.  \<^verbatim>\<open>opts_len\<close> is read only behind the test
  \<^verbatim>\<open>TCPH_HDRLEN < 5\<close>, where it does not wrap.
\<close>

definition tcp_parse_options :: "pkt_tcp \<Rightarrow> u16 \<Rightarrow> (unit + tcp_opts) option" where
  "tcp_parse_options p len =
    (let hl = unat (TCPH_HDRLEN (tcp p)); opts_len = hl * 4 - 20 in
     if hl < 5 \<or> (sizeof_pkt_tcp \<le> unat len \<and> opts_len > unat len - sizeof_pkt_tcp)
     then Some (Inl ())
     else tcp_parse_options_loop (rest p) opts_len 0 \<lparr>opts_ts = None\<rparr>)"

section \<open>Reference definitions\<close>

text \<open>
  What trimming means: a segment of \<open>n\<close> bytes that starts \<open>before\<close> bytes before the
  window of \<open>avail\<close> bytes and reaches it loses those bytes, one that starts
  \<open>after\<close> bytes into the window loses none, and both lose what lies beyond its end.
\<close>

definition rx_window_trim :: "u32 \<Rightarrow> u32 \<Rightarrow> u32 \<Rightarrow> u16 \<Rightarrow> (nat \<times> nat) option" where
  "rx_window_trim next_seq avail seq n =
    (let before = unat (next_seq - seq); after = unat (seq - next_seq) in
     if before \<le> unat n then Some (before, unat n - before - unat avail)
     else if after \<le> unat avail then Some (0, after + unat n - unat avail)
     else None)"

text \<open>
  The one case the code gets wrong: the segment's end wraps past \<^verbatim>\<open>2^32\<close>, the end of
  the window does not, and the segment starts strictly inside the window.
\<close>

definition trim_wrap_gap :: "flextcp_pl_flowst \<Rightarrow> u32 \<Rightarrow> u16 \<Rightarrow> bool" where
  "trim_wrap_gap fs seq n \<longleftrightarrow>
     seq + ucast n < seq \<and> rx_next_seq fs < seq \<and> seq \<le> rx_next_seq fs + rx_avail fs"

text \<open>An acknowledgement number covers bytes sent or, at most, bytes in the send buffer.\<close>

definition ack_in_flight :: "flextcp_pl_flowst \<Rightarrow> u32 \<Rightarrow> bool" where
  "ack_in_flight fs ack \<longleftrightarrow>
     unat (ack - (tx_next_seq fs - tx_sent fs)) \<le> unat (tx_sent fs) + unat (tx_avail fs)"

text \<open>
  Conditions on an option area: every option that carries a length moves the parser
  on; the parser stands at an option of an unknown kind with length 0; a timestamp
  option was found where the option area holds its kind and its length.
\<close>

definition opt_advances :: "(nat \<Rightarrow> u8) \<Rightarrow> nat \<Rightarrow> bool" where
  "opt_advances opt opts_len \<longleftrightarrow>
     (\<forall>i < opts_len. opt i \<noteq> 0 \<longrightarrow> opt i \<noteq> 1 \<longrightarrow> opt (i + 1) \<noteq> 0)"

definition opt_hangs :: "(nat \<Rightarrow> u8) \<Rightarrow> nat \<Rightarrow> nat \<Rightarrow> bool" where
  "opt_hangs opt opts_len off \<longleftrightarrow>
     off + 1 < opts_len \<and> opt off \<notin> {0, 1, 8} \<and> opt (off + 1) = 0"

definition ts_located :: "(nat \<Rightarrow> u8) \<Rightarrow> nat \<Rightarrow> tcp_opts \<Rightarrow> bool" where
  "ts_located opt opts_len opts \<longleftrightarrow>
     (\<forall>k. opts_ts opts = Some k \<longrightarrow> k + 1 < opts_len \<and> opt k = TCP_OPT_TIMESTAMP \<and> opt (k + 1) = 10)"

section \<open>Sequence number geometry\<close>

text \<open>
  Segment and window as natural numbers: start and end of the segment (\<open>A\<close>, \<open>pb\<close>) and
  of the window (\<open>S\<close>, \<open>sb\<close>), each end wrapped at most once.
\<close>

lemma rx_geometry:
  fixes fs :: flextcp_pl_flowst and seq :: u32 and n :: u16
  assumes "unat (rx_avail fs) + 65536 \<le> 2 ^ 32"
  obtains A S v pb sb N :: nat where
    "unat seq = A" "unat (rx_next_seq fs) = S" "unat (rx_avail fs) = v"
    "unat (seq + ucast n) = pb" "unat (rx_next_seq fs + rx_avail fs) = sb" "unat n = N"
    "unat (ucast (rx_next_seq fs - seq) :: u16) =
       (if A \<le> S then S - A else S + 4294967296 - A) mod 65536"
    "unat (ucast (seq + ucast n - (rx_next_seq fs + rx_avail fs)) :: u16) =
       (if sb \<le> pb then pb - sb else pb + 4294967296 - sb) mod 65536"
    "N < 65536" "S < 4294967296" "A < 4294967296" "pb < 4294967296" "sb < 4294967296"
    "v + 65536 \<le> 4294967296"
    "pb = A + N \<or> pb + 4294967296 = A + N" "sb = S + v \<or> sb + 4294967296 = S + v"
  using assms u32_add_cases [of seq "ucast n"] u32_add_cases [of "rx_next_seq fs" "rx_avail fs"]
    unat_u16_bound [of n] unat_u32_bound
  by (simp add: unat_ucast_u32_u16 unat_u32_sub unat_ucast_u16_u32)

section \<open>Properties of the window arithmetic\<close>

lemma trim_rxbuf_window:
  assumes "unat (rx_avail fs) + 65536 \<le> 2 ^ 32"
    and "\<not> trim_wrap_gap fs seq n"
  shows "map_option (map_prod unat unat) (tcp_trim_rxbuf fs seq n) =
    rx_window_trim (rx_next_seq fs) (rx_avail fs) seq n"
proof (rule rx_geometry [OF assms(1), of seq n], goal_cases)
  case (1 A S v pb sb N)
  note geo = 1(1-8) and bounds = 1(9-14) and ends = 1(15-16)
  have gap: "\<not> (pb < A \<and> S < A \<and> A \<le> sb)"
    using assms(2) by (simp add: trim_wrap_gap_def seq_simps geo)
  show ?case
    unfolding tcp_trim_rxbuf_def rx_window_trim_def Let_def
    apply (simp add: seq_simps geo(1-6) cong: if_cong split del: if_split)
    using ends
    apply (elim disjE; use bounds gap in \<open>auto simp: geo(7,8)\<close>)
    done
qed

text \<open>
  C21: Outside the one case named by \<open>trim_wrap_gap\<close>, \<^verbatim>\<open>tcp_trim_rxbuf\<close> agrees with the
  reference for all sequence numbers, wrap-around included: it drops exactly the
  segments that do not touch the window and trims exactly the bytes outside of it.
\<close>

theorem tcp_trim_rxbuf_spec:
  assumes "unat (rx_avail fs) + 65536 \<le> 2 ^ 32"
    and "\<not> trim_wrap_gap fs seq n"
  shows "map_option (map_prod unat unat) (tcp_trim_rxbuf fs seq n) =
    rx_window_trim (rx_next_seq fs) (rx_avail fs) seq n"
  using assms by (rule trim_rxbuf_window)

text \<open>A segment that straddles the start of a window which itself wraps around.\<close>

theorem tcp_trim_rxbuf_spec_witness:
  "tcp_trim_rxbuf (flowst_zero\<lparr>rx_next_seq := 4294966784, rx_avail := 1000\<rparr>) 4294966700 1400
     = Some (84, 316)"
proof -
  let ?fs = "flowst_zero\<lparr>rx_next_seq := 4294966784, rx_avail := 1000\<rparr>"
  have "map_option (map_prod unat unat) (tcp_trim_rxbuf ?fs 4294966700 1400) = Some (84, 316)"
    using tcp_trim_rxbuf_spec [of ?fs 4294966700 1400]
    by (simp add: trim_wrap_gap_def rx_window_trim_def)
  then show ?thesis
    by (auto simp: map_prod_def word_unat_eq_iff [where 'a = 16] split: prod.splits)
qed

text \<open>
  In the remaining case \<^verbatim>\<open>tcp_trim_rxbuf\<close> is wrong: a segment that starts inside the
  window, crosses \<^verbatim>\<open>2^32\<close> and runs past the end of a window that does not cross it is
  accepted untrimmed, although bytes beyond the free part of the receive buffer
  should be cut off.
\<close>

theorem tcp_trim_rxbuf_wrap_gap:
  assumes gap: "trim_wrap_gap fs seq n"
    and over: "rx_next_seq fs + rx_avail fs - seq < ucast n"
    and av: "unat (rx_avail fs) + 65536 \<le> 2 ^ 32"
  shows "tcp_trim_rxbuf fs seq n = Some (0, 0) \<and>
    rx_window_trim (rx_next_seq fs) (rx_avail fs) seq n =
      Some (0, unat (seq - rx_next_seq fs) + unat n - unat (rx_avail fs)) \<and>
    unat (rx_avail fs) < unat (seq - rx_next_seq fs) + unat n"
proof (rule rx_geometry [OF av, of seq n], goal_cases)
  case (1 A S v pb sb N)
  note geo = 1(1-8) and bounds = 1(9-14) and ends = 1(15-16)
  have starts: "pb < A" "S < A" "A \<le> sb"
    using gap by (simp_all add: trim_wrap_gap_def seq_simps geo)
  moreover have "sb - A < N"
    using over starts by (simp add: seq_simps geo)
  ultimately show ?case
    using bounds ends unfolding tcp_trim_rxbuf_def rx_window_trim_def Let_def
    by (auto simp add: seq_simps geo)
qed

theorem tcp_trim_rxbuf_wrap_gap_witness:
  "tcp_trim_rxbuf (flowst_zero\<lparr>rx_next_seq := 4294967040, rx_avail := 128\<rparr>) 4294967104 256
     = Some (0, 0) \<and>
   rx_window_trim 4294967040 128 4294967104 256 = Some (0, 192)"
  using tcp_trim_rxbuf_wrap_gap
    [of "flowst_zero\<lparr>rx_next_seq := 4294967040, rx_avail := 128\<rparr>" 4294967104 256]
  by (simp add: trim_wrap_gap_def)

text \<open>
  Whatever \<^verbatim>\<open>tcp_valid_rxseq\<close> accepts starts at or before the next expected byte, and
  the trims it returns are the reference ones, wrap-around included.
\<close>

theorem tcp_valid_rxseq_sound:
  assumes acc: "tcp_valid_rxseq fs seq n = Some (ts, te)"
    and av: "unat (rx_avail fs) + 65536 \<le> 2 ^ 32"
  shows "unat (rx_next_seq fs - seq) \<le> unat n \<and>
    rx_window_trim (rx_next_seq fs) (rx_avail fs) seq n = Some (unat ts, unat te)"
proof (rule rx_geometry [OF av, of seq n], goal_cases)
  case (1 A S v pb sb N)
  note geo = 1(1-8) and bounds = 1(9-14) and ends = 1(15-16)
  show ?case
    using acc unfolding tcp_valid_rxseq_def rx_window_trim_def Let_def
    apply (simp add: seq_simps geo(1-6) cong: if_cong split del: if_split)
    using ends
    apply (elim disjE; use bounds in \<open>auto simp: geo(7,8) split: if_splits\<close>)
    done
qed

theorem tcp_valid_rxseq_sound_witness:
  "rx_window_trim 4294966784 1000 4294966700 1400 = Some (84, 316)"
  using tcp_valid_rxseq_sound
    [of "flowst_zero\<lparr>rx_next_seq := 4294966784, rx_avail := 1000\<rparr>" 4294966700 1400 84 316]
  by (simp add: tcp_valid_rxseq_def)

lemma valid_rxack_in_flight:
  assumes "unat (tx_sent fs) + unat (tx_avail fs) < 2 ^ 32"
  shows "tcp_valid_rxack fs ack =
    (if ack_in_flight fs ack then Some (ack - (tx_next_seq fs - tx_sent fs)) else None)"
proof -
  let ?una = "tx_next_seq fs - tx_sent fs" and ?M = "4294967296 :: nat"
  let ?w = "unat (tx_sent fs) + unat (tx_avail fs)"
  define a b k where d: "a = unat ?una" "b = unat (tx_next_seq fs + tx_avail fs)" "k = unat ack"
  have eq: "?una + (tx_sent fs + tx_avail fs) = tx_next_seq fs + tx_avail fs"
    by simp
  have sum: "unat (tx_sent fs + tx_avail fs) = ?w"
    using assms by (simp add: unat_u32_add)
  have ab: "b = a + ?w \<or> b + ?M = a + ?w"
    using u32_add_cases [of ?una "tx_sent fs + tx_avail fs"] unfolding eq sum d .
  have "a < ?M" "b < ?M" "k < ?M"
    using unat_u32_bound by (auto simp: d)
  with ab assms show ?thesis
    unfolding tcp_valid_rxack_def ack_in_flight_def Let_def seq_simps(1,2) unat_u32_sub [of ack]
      d [symmetric]
    by auto
qed

text \<open>
  \<^verbatim>\<open>tcp_valid_rxack\<close> accepts exactly the acknowledgement numbers between the first
  unacknowledged byte and the end of the data in the send buffer, and then returns
  how many bytes are newly acknowledged, wherever the numbers wrap.
\<close>

theorem tcp_valid_rxack_spec:
  assumes "unat (tx_sent fs) + unat (tx_avail fs) < 2 ^ 32"
  shows "tcp_valid_rxack fs ack =
    (if ack_in_flight fs ack then Some (ack - (tx_next_seq fs - tx_sent fs)) else None)"
  using assms by (rule valid_rxack_in_flight)

theorem tcp_valid_rxack_spec_witness:
  "tcp_valid_rxack (flowst_zero\<lparr>tx_next_seq := 100, tx_sent := 1000, tx_avail := 50\<rparr>) 120
     = Some 1020"
  using tcp_valid_rxack_spec
    [of "flowst_zero\<lparr>tx_next_seq := 100, tx_sent := 1000, tx_avail := 50\<rparr>" 120]
  by (simp add: ack_in_flight_def flowst_zero_def)

text \<open>
  As long as the bytes in flight fit the window the peer advertised, \<^verbatim>\<open>tcp_txavail\<close>
  is the smaller of the data in the buffer and the rest of that window.
\<close>

theorem tcp_txavail_window:
  assumes "tx_sent fs \<le> remote_window fs"
  shows "unat (tcp_txavail fs pavail) =
    min (unat (case pavail of Some a \<Rightarrow> a | None \<Rightarrow> tx_avail fs))
        (unat (remote_window fs) - unat (tx_sent fs))"
  using assms by (simp add: tcp_txavail_def Let_def seq_simps min_def)

theorem tcp_txavail_window_witness:
  "unat (tcp_txavail (flowst_zero\<lparr>rx_remote_avail := 0x02000010, tx_sent := 60, tx_avail := 50\<rparr>) None)
     = 4"
  using tcp_txavail_window
    [of "flowst_zero\<lparr>rx_remote_avail := 0x02000010, tx_sent := 60, tx_avail := 50\<rparr>" None]
  by (simp add: remote_window_def flowst_zero_def)

text \<open>
  When the peer shrinks its window below the bytes in flight, the difference in
  \<^verbatim>\<open>tcp_txavail\<close> underflows and flow control is switched off: everything in the send
  buffer is reported as sendable, although the window is exhausted.
\<close>

theorem tcp_txavail_shrunk_window:
  assumes "remote_window fs < tx_sent fs"
    and "unat (tx_avail fs) + unat (tx_sent fs) \<le> 2 ^ 32"
  shows "tcp_txavail fs None = tx_avail fs"
  using assms by (auto simp: tcp_txavail_def Let_def seq_simps)

theorem tcp_txavail_shrunk_window_witness:
  "tcp_txavail (flowst_zero\<lparr>rx_remote_avail := 0, tx_sent := 1448, tx_avail := 5000\<rparr>) None = 5000"
  using tcp_txavail_shrunk_window
    [of "flowst_zero\<lparr>rx_remote_avail := 0, tx_sent := 1448, tx_avail := 5000\<rparr>"]
  by (simp add: remote_window_def flowst_zero_def)

section \<open>Properties of the option parser\<close>

lemma tcp_parse_options_loop_returns:
  "opt_advances opt opts_len \<Longrightarrow> \<exists>r. tcp_parse_options_loop opt opts_len off opts = Some r"
proof (induction "opts_len - off" arbitrary: off opts rule: less_induct)
  case less
  have step: "\<exists>r. tcp_parse_options_loop opt opts_len (off + k) o' = Some r" if "0 < k" "off < opts_len" for k o'
    using less that by force
  have adv: "off < opts_len \<Longrightarrow> opt off \<noteq> 0 \<Longrightarrow> opt off \<noteq> 1 \<Longrightarrow> 0 < unat (opt (off + 1))"
    using less.prems by (auto simp: opt_advances_def unat_gt_0)
  show ?case
    using step [of 1] step adv by (subst tcp_parse_options_loop.simps) auto
qed

lemma tcp_parse_options_loop_hangs:
  assumes "opt_hangs opt opts_len off"
  shows "tcp_parse_options_loop opt opts_len off opts = None"
proof (rule ccontr)
  assume "tcp_parse_options_loop opt opts_len off opts \<noteq> None"
  then obtain r where r: "tcp_parse_options_loop opt opts_len off opts = Some r" by blast
  have "\<not> opt_hangs opt opts_len off"
  proof (rule tcp_parse_options_loop.raw_induct
      [where P = "\<lambda>opt opts_len off opts r. \<not> opt_hangs opt opts_len off", OF _ r], goal_cases)
    case (1 f opt opts_len off opts r)
    from 1(2) 1(1) [of opt opts_len off opts r] show ?case
      by (auto simp: opt_hangs_def split: if_splits)
  qed
  with assms show False by blast
qed

lemma tcp_parse_options_loop_ts:
  assumes "tcp_parse_options_loop opt opts_len off opts = Some r"
  shows "ts_located opt opts_len opts \<Longrightarrow> r = Inr opts' \<Longrightarrow> ts_located opt opts_len opts'"
proof (rule tcp_parse_options_loop.raw_induct [where P = "\<lambda>opt opts_len off opts r.
    ts_located opt opts_len opts \<longrightarrow> r = Inr opts' \<longrightarrow> ts_located opt opts_len opts'", OF _ assms,
    THEN mp, THEN mp], goal_cases)
  case (1 f opt opts_len off opts r)
  have "ts_located opt opts_len (opts\<lparr>opts_ts := Some off\<rparr>)"
    if "off < opts_len" "\<not> opts_len - off < 2" "opt off = 8" "unat (opt (off + 1)) = 10"
    using that by (auto simp: ts_located_def word_unat_eq_iff [where 'a = 8])
  with 1 show ?case
    by (auto split: if_splits)
qed

text \<open>
  The option parser returns whenever no option with a length byte has length 0, and
  if it succeeds with a timestamp option, kind and length byte of that option lie
  inside the option area of the header.
\<close>

theorem tcp_parse_options_returns:
  assumes "opt_advances (rest p) (unat (TCPH_HDRLEN (tcp p)) * 4 - 20)"
  shows "\<exists>r. tcp_parse_options p len = Some r \<and>
    (\<forall>opts. r = Inr opts \<longrightarrow> ts_located (rest p) (unat (TCPH_HDRLEN (tcp p)) * 4 - 20) opts)"
proof -
  let ?n = "unat (TCPH_HDRLEN (tcp p)) * 4 - 20"
  obtain r where r: "tcp_parse_options_loop (rest p) ?n 0 \<lparr>opts_ts = None\<rparr> = Some r"
    using tcp_parse_options_loop_returns [OF assms] by blast
  have "ts_located (rest p) ?n \<lparr>opts_ts = None\<rparr>"
    by (simp add: ts_located_def)
  then show ?thesis
    using tcp_parse_options_loop_ts [OF r] by (auto simp: tcp_parse_options_def Let_def r)
qed

theorem tcp_parse_options_returns_witness:
  "\<exists>r. tcp_parse_options (pkt_zero\<lparr>rest := (\<lambda>_. 0)(0 := 8, 1 := 10, 2 := 1)\<rparr>) 66 = Some r"
proof -
  let ?p = "pkt_zero\<lparr>rest := (\<lambda>_. 0)(0 := 8, 1 := 10, 2 := 1)\<rparr>"
  have "opt_advances (rest ?p) (unat (TCPH_HDRLEN (tcp ?p)) * 4 - 20)"
    by (auto simp: opt_advances_def)
  from tcp_parse_options_returns [OF this] show ?thesis
    by blast
qed

text \<open>
  A packet whose first option has an unknown kind and length 0 keeps the parser in
  its loop for ever: the fast path core that receives it never returns.
\<close>

theorem tcp_parse_options_hangs:
  assumes "5 < unat (TCPH_HDRLEN (tcp p))"
    and "unat (TCPH_HDRLEN (tcp p)) * 4 + 34 \<le> unat len"
    and "rest p 0 \<notin> {0, 1, 8}" and "rest p 1 = 0"
  shows "tcp_parse_options p len = None"
  using assms by (simp add: tcp_parse_options_def Let_def opt_hangs_def tcp_parse_options_loop_hangs)

theorem tcp_parse_options_hangs_witness:
  "tcp_parse_options (pkt_zero\<lparr>rest := (\<lambda>_. 0)(0 := 5)\<rparr>) 66 = None"
  using tcp_parse_options_hangs [of "pkt_zero\<lparr>rest := (\<lambda>_. 0)(0 := 5)\<rparr>" 66]
  by (simp add: pkt_zero_def TCPH_HDRLEN_def)

end
