(* ===== verification/Wrap_Clock.thy ===== *)
theory Wrap_Clock
  imports Tas_Prelude
begin

text \<open>
  The contract of a clock that wraps around: time stamps are numbers modulo
  \<open>2 * half\<close>, and \<open>rel c t\<close> is the signed time from \<open>c\<close> to \<open>t\<close>, taken the short way
  round.  The queue manager (32-bit nanoseconds) and the timeout manager (28-bit
  microseconds) both order their lists by such a function, and both rely on the order
  staying the same while the clock advances.
\<close>

locale wrap_clock =
  fixes rel :: "'t \<Rightarrow> 't \<Rightarrow> int"
    and val :: "'t \<Rightarrow> int"
    and half :: int
  assumes half_pos: "0 < half"
    and rel_cong: "2 * half dvd rel c t - (val t - val c)"
    and rel_range: "- half \<le> rel c t \<and> rel c t \<le> half"
begin

lemma rel_unique:
  assumes "2 * half dvd d - (val t - val c)" and "\<bar>d\<bar> < half"
  shows "rel c t = d"
proof -
  have "2 * half dvd (rel c t - (val t - val c)) - (d - (val t - val c))"
    by (rule dvd_diff [OF rel_cong assms(1)])
  moreover have "(rel c t - (val t - val c)) - (d - (val t - val c)) = rel c t - d"
    by simp
  ultimately have dvd: "2 * half dvd rel c t - d"
    by simp
  have "\<bar>rel c t - d\<bar> < 2 * half"
    using rel_range [of c t] assms(2) by arith
  with dvd show ?thesis
    using zdvd_not_zless [of "\<bar>rel c t - d\<bar>" "2 * half"] by (cases "rel c t = d") auto
qed

lemma rel_self: "rel c c = 0"
  by (rule rel_unique) (use half_pos in auto)

text \<open>Moving the reference point shifts all distances that stay within half the range.\<close>

lemma rel_shift:
  assumes "\<bar>rel c t - rel c c'\<bar> < half"
  shows "rel c' t = rel c t - rel c c'"
proof (rule rel_unique [OF _ assms])
  have "2 * half dvd (rel c t - (val t - val c)) - (rel c c' - (val c' - val c))"
    by (rule dvd_diff [OF rel_cong rel_cong])
  moreover have "(rel c t - (val t - val c)) - (rel c c' - (val c' - val c)) =
      rel c t - rel c c' - (val t - val c')"
    by simp
  ultimately show "2 * half dvd rel c t - rel c c' - (val t - val c')"
    by simp
qed

lemma rel_le_shift:
  assumes "\<bar>rel c a - rel c c'\<bar> < half" and "\<bar>rel c b - rel c c'\<bar> < half"
  shows "rel c' a \<le> rel c' b \<longleftrightarrow> rel c a \<le> rel c b"
  using rel_shift [OF assms(1)] rel_shift [OF assms(2)] by simp

end

end
