(* ===== verification/Utils_Rng.thy ===== *)
theory Utils_Rng
  imports Tas_Prelude
begin

text \<open>
  The linear congruential generator of \<^verbatim>\<open>lib/utils/rng.c\<close>, used by the queue manager
  to choose skip list levels and by the slow path to randomise timeouts.
\<close>

unbundle bit_operations_syntax

record utils_rng =
  seed :: u64

abbreviation (input) rng_a :: u64 where "rng_a \<equiv> 0x5deece66d"
abbreviation (input) rng_c :: u64 where "rng_c \<equiv> 0xb"
abbreviation (input) rng_m :: u64 where "rng_m \<equiv> 0x1000000000000"

definition utils_rng_init :: "u64 \<Rightarrow> utils_rng" where
  "utils_rng_init s = \<lparr>seed = (s XOR rng_a) mod rng_m\<rparr>"

definition utils_rng_gen32 :: "utils_rng \<Rightarrow> u32 \<times> utils_rng" where
  "utils_rng_gen32 rng =
    (let nxt = (rng_a * seed rng + rng_c) mod rng_m in (ucast (drop_bit 16 nxt), rng\<lparr>seed := nxt\<rparr>))"

lemma utils_rng_seed_bound:
  "seed (utils_rng_init s) < rng_m" "seed (snd (utils_rng_gen32 rng)) < rng_m"
  by (simp_all add: utils_rng_init_def utils_rng_gen32_def Let_def word_mod_less_divisor)

end
