(* ===== verification/Qman.thy ===== *)
theory Qman
  imports Wrap_Clock Utils_Rng
begin

text \<open>
  The queue manager of the fast path, \<^verbatim>\<open>tas/fast/qman.c\<close>: every flow has a queue with
  a number of bytes to send and a rate; queues without a rate limit are polled in
  order from a list, rate-limited ones from a skip list ordered by the time they may
  send next.  Arrays of fixed size are functions of their index; the lists are linked
  through the \<^verbatim>\<open>next_idxs\<close> of the queues, as in the code.  The clock is an argument.
\<close>

unbundle bit_operations_syntax

section \<open>Model\<close>

abbreviation (input) FLAG_INSKIPLIST :: u16 where "FLAG_INSKIPLIST \<equiv> 1"
abbreviation (input) FLAG_INNOLIMITL :: u16 where "FLAG_INNOLIMITL \<equiv> 2"
abbreviation (input) SKIPLIST_BITS :: int where "SKIPLIST_BITS \<equiv> 3"
abbreviation (input) IDXLIST_INVAL :: u32 where "IDXLIST_INVAL \<equiv> 0xFFFFFFFF"
abbreviation (input) QMAN_SKIPLIST_LEVELS :: nat where "QMAN_SKIPLIST_LEVELS \<equiv> 4"
abbreviation (input) FLEXNIC_NUM_QMQUEUES :: u32 where "FLEXNIC_NUM_QMQUEUES \<equiv> 131072"
abbreviation (input) RNG_SEED :: u32 where "RNG_SEED \<equiv> 0x12345678"

abbreviation (input) QMAN_SET_RATE :: u8 where "QMAN_SET_RATE \<equiv> 1"
abbreviation (input) QMAN_SET_MAXCHUNK :: u8 where "QMAN_SET_MAXCHUNK \<equiv> 2"
abbreviation (input) QMAN_SET_AVAIL :: u8 where "QMAN_SET_AVAIL \<equiv> 8"
abbreviation (input) QMAN_ADD_AVAIL :: u8 where "QMAN_ADD_AVAIL \<equiv> 16"

record queue =
  next_idxs :: "nat \<Rightarrow> u32"
  next_ts :: u32
  rate :: u32
  avail :: u32
  max_chunk :: u16
  qflags :: u16

record qman_thread =
  queues :: "u32 \<Rightarrow> queue"
  head_idx :: "nat \<Rightarrow> u32"
  nolimit_head_idx :: u32
  nolimit_tail_idx :: u32
  ts_real :: u32
  ts_virtual :: u32
  rng :: utils_rng
  nolimit_first :: bool

text \<open>Writing through a queue pointer.\<close>

definition upd_queue :: "qman_thread \<Rightarrow> u32 \<Rightarrow> (queue \<Rightarrow> queue) \<Rightarrow> qman_thread" where
  "upd_queue t idx f = t\<lparr>queues := (queues t)(idx := f (queues t idx))\<rparr>"

definition queue_zero :: queue where
  "queue_zero = \<lparr>next_idxs = (\<lambda>_. 0), next_ts = 0, rate = 0, avail = 0, max_chunk = 0, qflags = 0\<rparr>"

text \<open>
  The memory for the queues is cleared by \<^verbatim>\<open>calloc\<close>, whose success is an argument.
  The seed is computed in \<^verbatim>\<open>int\<close> and extended to 64 bits; \<^verbatim>\<open>nolimit_first\<close> is not
  initialised by the code and is an argument.
\<close>

definition qman_thread_init :: "bool \<Rightarrow> u16 \<Rightarrow> u32 \<Rightarrow> bool \<Rightarrow> qman_thread option" where
  "qman_thread_init calloc_ok ctx_id timestamp first =
    (if \<not> calloc_ok then None
     else Some \<lparr>queues = (\<lambda>_. queue_zero), head_idx = (\<lambda>_. IDXLIST_INVAL),
                nolimit_head_idx = IDXLIST_INVAL, nolimit_tail_idx = IDXLIST_INVAL,
                ts_real = timestamp, ts_virtual = 0,
                rng = utils_rng_init (scast (RNG_SEED * ucast ctx_id + ucast ctx_id :: u32)),
                nolimit_first = first\<rparr>)"

text \<open>
  The clocks, as functions of the cycle counter and its frequency; both products wrap.
\<close>

definition timestamp :: "u64 \<Rightarrow> u64 \<Rightarrow> u32" where
  "timestamp cycles freq = ucast (cycles * 1000000000 div freq)"

definition qman_timestamp :: "u64 \<Rightarrow> u64 \<Rightarrow> u32" where
  "qman_timestamp cycles freq = ucast (cycles * 1000000 div freq)"

text \<open>
  Relative time ignoring wrap-arounds: computed in \<^verbatim>\<open>uint64_t\<close>, returned as \<^verbatim>\<open>int64_t\<close>.
\<close>

definition rel_time :: "u32 \<Rightarrow> u32 \<Rightarrow> int" where
  "rel_time cur_ts ts_in =
    (let ts = ucast ts_in :: u64; cur = ucast cur_ts :: u64; middle = 0x80000000 :: u64 in
     if cur < middle then
       let start = (cur - middle) AND 0xFFFFFFFF; stop = 0x100000000 in
       if start \<le> ts \<and> ts < stop then sint (ts - start - middle) else sint (ts - cur)
     else if cur = middle then sint (ts - cur)
     else
       let start = 0; stop = ((cur + middle) AND 0xFFFFFFFF) + 1 in
       if start \<le> cur \<and> ts < stop then sint (ts + (0x100000000 - cur)) else sint (ts - cur))"

definition timestamp_lessthaneq :: "qman_thread \<Rightarrow> u32 \<Rightarrow> u32 \<Rightarrow> bool" where
  "timestamp_lessthaneq t a b \<longleftrightarrow> rel_time (ts_virtual t) a \<le> rel_time (ts_virtual t) b"

text \<open>Callers have checked that the rate is not 0.\<close>

definition queue_new_ts :: "qman_thread \<Rightarrow> queue \<Rightarrow> u32 \<Rightarrow> u32" where
  "queue_new_ts t q bytes =
     ucast (ucast (ts_virtual t) + (ucast bytes * 8 * 1000000) div ucast (rate q) :: u64)"

text \<open>\<^verbatim>\<open>__builtin_ffs\<close>: one plus the index of the lowest bit set, 0 for 0.\<close>

definition builtin_ffs :: "u32 \<Rightarrow> int" where
  "builtin_ffs x = (case find (bit x) [0..<32] of None \<Rightarrow> 0 | Some i \<Rightarrow> int i + 1)"

text \<open>
  The division truncates, so \<^verbatim>\<open>-1 / 3\<close> is 0 for the random number 0.
\<close>

definition queue_level :: "qman_thread \<Rightarrow> nat \<times> qman_thread" where
  "queue_level t =
    (let (r, rng') = utils_rng_gen32 (rng t); y = builtin_ffs r - 1;
         x = (if y < 0 then 0 else nat (y div SKIPLIST_BITS)) in
     (if x < QMAN_SKIPLIST_LEVELS then x else QMAN_SKIPLIST_LEVELS - 1, t\<lparr>rng := rng'\<rparr>))"

subsection \<open>The list of queues without a rate limit\<close>

definition queue_activate_nolimit :: "qman_thread \<Rightarrow> u32 \<Rightarrow> qman_thread result" where
  "queue_activate_nolimit t idx =
    (if qflags (queues t idx) AND (FLAG_INSKIPLIST OR FLAG_INNOLIMITL) \<noteq> 0 then Inl Assert_Failed
     else
       let t = upd_queue t idx (\<lambda>q. q\<lparr>qflags := qflags q OR FLAG_INNOLIMITL,
                                     next_idxs := (next_idxs q)(0 := IDXLIST_INVAL)\<rparr>) in
       if nolimit_tail_idx t = IDXLIST_INVAL then
         Inr (t\<lparr>nolimit_head_idx := idx, nolimit_tail_idx := idx\<rparr>)
       else
         let t = upd_queue t (nolimit_tail_idx t)
                   (\<lambda>q. q\<lparr>next_idxs := (next_idxs q)(0 := idx)\<rparr>) in
         Inr (t\<lparr>nolimit_tail_idx := idx\<rparr>))"

subsection \<open>The skip list of rate-limited queues\<close>

text \<open>
  The walk along one level from \<^verbatim>\<open>idx\<close>; the result is the last \<^verbatim>\<open>pred\<close>.  A walk
  along a cyclic list would not end, which is \<open>None\<close>.
\<close>

partial_function (option) skiplist_walk ::
  "qman_thread \<Rightarrow> u32 \<Rightarrow> nat \<Rightarrow> u32 \<Rightarrow> u32 \<Rightarrow> u32 option"
where
  "skiplist_walk t ts l idx pred =
    (if idx \<noteq> IDXLIST_INVAL \<and> timestamp_lessthaneq t (next_ts (queues t idx)) ts
     then skiplist_walk t ts l (next_idxs (queues t idx) l) idx
     else Some pred)"

text \<open>Predecessors at all levels, top-down; \<^verbatim>\<open>preds\<close> is filled for the levels below \<open>n\<close>.\<close>

fun skiplist_preds ::
  "qman_thread \<Rightarrow> u32 \<Rightarrow> nat \<Rightarrow> u32 \<Rightarrow> (nat \<Rightarrow> u32) \<Rightarrow> (nat \<Rightarrow> u32) option"
where
  "skiplist_preds t ts 0 pred preds = Some preds"
| "skiplist_preds t ts (Suc l) pred preds =
    (case skiplist_walk t ts l (if pred \<noteq> IDXLIST_INVAL then pred else head_idx t l) pred of
       None \<Rightarrow> None
     | Some pred' \<Rightarrow> skiplist_preds t ts l pred' (preds(l := pred')))"

fun skiplist_insert :: "nat \<Rightarrow> nat \<Rightarrow> u32 \<Rightarrow> (nat \<Rightarrow> u32) \<Rightarrow> qman_thread \<Rightarrow> qman_thread" where
  "skiplist_insert 0 level q_idx preds t = t"
| "skiplist_insert (Suc l) level q_idx preds t =
    skiplist_insert l level q_idx preds
     (if l > level then
        upd_queue t q_idx (\<lambda>q. q\<lparr>next_idxs := (next_idxs q)(l := IDXLIST_INVAL)\<rparr>)
      else if preds l \<noteq> IDXLIST_INVAL then
        let t = upd_queue t q_idx
                  (\<lambda>q. q\<lparr>next_idxs := (next_idxs q)(l := next_idxs (queues t (preds l)) l)\<rparr>) in
        upd_queue t (preds l) (\<lambda>q. q\<lparr>next_idxs := (next_idxs q)(l := q_idx)\<rparr>)
      else
        let t = upd_queue t q_idx (\<lambda>q. q\<lparr>next_idxs := (next_idxs q)(l := head_idx t l)\<rparr>) in
        t\<lparr>head_idx := (head_idx t)(l := q_idx)\<rparr>)"

text \<open>The \<^verbatim>\<open>next_ts\<close> a queue gets when it enters the skip list.\<close>

definition skiplist_ts :: "qman_thread \<Rightarrow> queue \<Rightarrow> u32" where
  "skiplist_ts t q =
    (let ts = next_ts q; max_ts = queue_new_ts t q (ucast (max_chunk q)) in
     if timestamp_lessthaneq t ts (ts_virtual t) then ts_virtual t
     else if \<not> timestamp_lessthaneq t ts max_ts then max_ts
     else ts)"

definition queue_activate_skiplist :: "qman_thread \<Rightarrow> u32 \<Rightarrow> qman_thread result option" where
  "queue_activate_skiplist t q_idx =
    (if qflags (queues t q_idx) AND (FLAG_INSKIPLIST OR FLAG_INNOLIMITL) \<noteq> 0
     then Some (Inl Assert_Failed)
     else
       let ts = skiplist_ts t (queues t q_idx);
           t = upd_queue t q_idx (\<lambda>q. q\<lparr>next_ts := ts\<rparr>) in
       case skiplist_preds t ts QMAN_SKIPLIST_LEVELS IDXLIST_INVAL (\<lambda>_. IDXLIST_INVAL) of
         None \<Rightarrow> None
       | Some preds \<Rightarrow>
           let (level, t) = queue_level t;
               t = skiplist_insert QMAN_SKIPLIST_LEVELS level q_idx preds t in
           Some (Inr (upd_queue t q_idx (\<lambda>q. q\<lparr>qflags := qflags q OR FLAG_INSKIPLIST\<rparr>))))"

subsection \<open>Activating, firing and setting queues\<close>

definition queue_activate :: "qman_thread \<Rightarrow> u32 \<Rightarrow> qman_thread result option" where
  "queue_activate t idx =
    (if rate (queues t idx) = 0 then Some (queue_activate_nolimit t idx)
     else queue_activate_skiplist t idx)"

text \<open>The result is the number of bytes granted and the new state.\<close>

definition queue_fire :: "qman_thread \<Rightarrow> u32 \<Rightarrow> (u16 \<times> qman_thread) result option" where
  "queue_fire t idx =
    (let q = queues t idx in
     if \<not> avail q > 0 then Some (Inl Assert_Failed)
     else
       let bytes = (if avail q \<le> ucast (max_chunk q) then avail q else ucast (max_chunk q));
           t = upd_queue t idx (\<lambda>q. q\<lparr>avail := avail q - bytes\<rparr>);
           t = (if rate q > 0 then upd_queue t idx (\<lambda>q. q\<lparr>next_ts := queue_new_ts t q bytes\<rparr>) else t)
       in
       if avail (queues t idx) > 0 then
         case queue_activate t idx of
           None \<Rightarrow> None
         | Some (Inl e) \<Rightarrow> Some (Inl e)
         | Some (Inr t) \<Rightarrow> Some (Inr (ucast bytes, t))
       else Some (Inr (ucast bytes, t)))"

definition set_impl ::
  "qman_thread \<Rightarrow> u32 \<Rightarrow> u32 \<Rightarrow> u32 \<Rightarrow> u16 \<Rightarrow> u8 \<Rightarrow> qman_thread result option"
where
  "set_impl t idx r a chunk flags =
    (let q = queues t idx;
         q = (if flags AND QMAN_SET_RATE \<noteq> 0 then q\<lparr>rate := r\<rparr> else q);
         q = (if flags AND QMAN_SET_MAXCHUNK \<noteq> 0 then q\<lparr>max_chunk := chunk\<rparr> else q);
         (q, new_avail) =
           (if flags AND QMAN_SET_AVAIL \<noteq> 0 then (q\<lparr>avail := a\<rparr>, True)
            else if flags AND QMAN_ADD_AVAIL \<noteq> 0 then (q\<lparr>avail := avail q + a\<rparr>, True)
            else (q, False));
         t = upd_queue t idx (\<lambda>_. q) in
     if new_avail \<and> avail q > 0 \<and> qflags q AND (FLAG_INSKIPLIST OR FLAG_INNOLIMITL) = 0
     then queue_activate t idx
     else Some (Inr t))"

text \<open>\<open>Some (Inr None)\<close> is the error return for an invalid queue id.\<close>

definition qman_set ::
  "qman_thread \<Rightarrow> u32 \<Rightarrow> u32 \<Rightarrow> u32 \<Rightarrow> u16 \<Rightarrow> u8 \<Rightarrow> qman_thread option result option"
where
  "qman_set t qid r a chunk flags =
    (if qid \<ge> FLEXNIC_NUM_QMQUEUES then Some (Inr None)
     else map_option (map_sum (\<lambda>e. e) Some) (set_impl t qid r a chunk flags))"

subsection \<open>Polling\<close>

type_synonym polled = "(u32 \<times> u16) list"

text \<open>
  The granted queues are accumulated in order; \<^verbatim>\<open>cnt\<close> is their number.
\<close>

partial_function (option) poll_nolimit_loop ::
  "nat \<Rightarrow> polled \<Rightarrow> qman_thread \<Rightarrow> (polled \<times> qman_thread) result option"
where
  "poll_nolimit_loop num out t =
    (if length out < num \<and> nolimit_head_idx t \<noteq> IDXLIST_INVAL then
       let idx = nolimit_head_idx t; nxt = next_idxs (queues t idx) 0;
           t = t\<lparr>nolimit_head_idx := nxt\<rparr>;
           t = (if nxt = IDXLIST_INVAL then t\<lparr>nolimit_tail_idx := IDXLIST_INVAL\<rparr> else t);
           t = upd_queue t idx (\<lambda>q. q\<lparr>qflags := qflags q AND NOT FLAG_INNOLIMITL\<rparr>) in
       if avail (queues t idx) > 0 then
         case queue_fire t idx of
           None \<Rightarrow> None
         | Some (Inl e) \<Rightarrow> Some (Inl e)
         | Some (Inr (bytes, t)) \<Rightarrow> poll_nolimit_loop num (out @ [(idx, bytes)]) t
       else poll_nolimit_loop num out t
     else Some (Inr (out, t)))"

definition poll_nolimit ::
  "qman_thread \<Rightarrow> u32 \<Rightarrow> nat \<Rightarrow> (polled \<times> qman_thread) result option"
where
  "poll_nolimit t cur_ts num = poll_nolimit_loop num [] t"

text \<open>Unlinking the first queue of the skip list from every level it heads.\<close>

fun skiplist_unlink :: "nat \<Rightarrow> u32 \<Rightarrow> nat \<Rightarrow> qman_thread \<Rightarrow> qman_thread" where
  "skiplist_unlink 0 idx l t = t"
| "skiplist_unlink (Suc n) idx l t =
    (if head_idx t l = idx
     then skiplist_unlink n idx (Suc l)
            (t\<lparr>head_idx := (head_idx t)(l := next_idxs (queues t idx) l)\<rparr>)
     else t)"

partial_function (option) poll_skiplist_loop ::
  "u32 \<Rightarrow> nat \<Rightarrow> polled \<Rightarrow> qman_thread \<Rightarrow> (polled \<times> qman_thread) result option"
where
  "poll_skiplist_loop max_vts num out t =
    (if \<not> length out < num then Some (Inr (out, t))
     else
       let idx = head_idx t 0 in
       if idx = IDXLIST_INVAL then Some (Inr (out, t\<lparr>ts_virtual := max_vts\<rparr>))
       else if \<not> timestamp_lessthaneq t (next_ts (queues t idx)) max_vts then
         Some (Inr (out, t\<lparr>ts_virtual := max_vts\<rparr>))
       else
         let t = skiplist_unlink QMAN_SKIPLIST_LEVELS idx 0 t in
         if qflags (queues t idx) AND FLAG_INSKIPLIST = 0 then Some (Inl Assert_Failed)
         else
           let t = upd_queue t idx (\<lambda>q. q\<lparr>qflags := qflags q AND NOT FLAG_INSKIPLIST\<rparr>);
               t = t\<lparr>ts_virtual := next_ts (queues t idx)\<rparr> in
           if avail (queues t idx) > 0 then
             case queue_fire t idx of
               None \<Rightarrow> None
             | Some (Inl e) \<Rightarrow> Some (Inl e)
             | Some (Inr (bytes, t)) \<Rightarrow> poll_skiplist_loop max_vts num (out @ [(idx, bytes)]) t
           else poll_skiplist_loop max_vts num out t)"

definition poll_skiplist ::
  "qman_thread \<Rightarrow> u32 \<Rightarrow> nat \<Rightarrow> (polled \<times> qman_thread) result option"
where
  "poll_skiplist t cur_ts num =
    (let max_vts = ts_virtual t + (cur_ts - ts_real t) in
     case poll_skiplist_loop max_vts num [] t of
       None \<Rightarrow> None
     | Some (Inl e) \<Rightarrow> Some (Inl e)
     | Some (Inr (out, t)) \<Rightarrow>
         let t = (if length out = num then
                    let idx = head_idx t 0 in
                    if idx \<noteq> IDXLIST_INVAL \<and> timestamp_lessthaneq t (next_ts (queues t idx)) max_vts
                    then t\<lparr>ts_virtual := next_ts (queues t idx)\<rparr>
                    else t\<lparr>ts_virtual := max_vts\<rparr>
                  else t) in
         Some (Inr (out, t\<lparr>ts_real := cur_ts\<rparr>)))"

definition qman_poll ::
  "qman_thread \<Rightarrow> u32 \<Rightarrow> nat \<Rightarrow> (polled \<times> qman_thread) result option"
where
  "qman_poll t ts num =
    (case (if nolimit_first t then poll_nolimit t ts num else poll_skiplist t ts num) of
       None \<Rightarrow> None
     | Some (Inl e) \<Rightarrow> Some (Inl e)
     | Some (Inr (x, t')) \<Rightarrow>
         (case (if nolimit_first t then poll_skiplist t' ts (num - length x)
                else poll_nolimit t' ts (num - length x)) of
            None \<Rightarrow> None
          | Some (Inl e) \<Rightarrow> Some (Inl e)
          | Some (Inr (y, t'')) \<Rightarrow>
              Some (Inr (x @ y, t''\<lparr>nolimit_first := \<not> nolimit_first t''\<rparr>))))"

text \<open>\<^verbatim>\<open>qman_next_ts\<close>: time until the next queue is due, \<^verbatim>\<open>-1\<close> when there is none.\<close>

definition qman_next_ts :: "qman_thread \<Rightarrow> u32 \<Rightarrow> u32" where
  "qman_next_ts t ts =
    (let ret_ts = ts_virtual t + (ts - ts_real t) in
     if nolimit_head_idx t \<noteq> IDXLIST_INVAL then 0
     else
       let idx = head_idx t 0 in
       if idx \<noteq> IDXLIST_INVAL then
         if timestamp_lessthaneq t (next_ts (queues t idx)) ret_ts then 0
         else word_of_int (rel_time ret_ts (next_ts (queues t idx)) div 1000)
       else 0xFFFFFFFF)"

end
