(* ===== verification/Linked_List.thy ===== *)
theory Linked_List
  imports Main "HOL-Library.Sublist"
begin

text \<open>
  Lists threaded through arrays or heaps: a next function, a head and an end marker.
  The queue manager's index lists and the timeout manager's list are instances.
\<close>

section \<open>Linked lists\<close>

text \<open>The list \<open>xs\<close> is linked from \<open>h\<close> through \<open>nxt\<close> and ended by \<open>nil\<close>.\<close>

fun path :: "'a \<Rightarrow> ('a \<Rightarrow> 'a) \<Rightarrow> 'a \<Rightarrow> 'a list \<Rightarrow> bool" where
  "path nil nxt h [] \<longleftrightarrow> h = nil"
| "path nil nxt h (x # xs) \<longleftrightarrow> h = x \<and> x \<noteq> nil \<and> path nil nxt (nxt x) xs"

lemma path_cong:
  "(\<And>i. i \<in> set xs \<Longrightarrow> nxt i = nxt' i) \<Longrightarrow> path nil nxt h xs \<longleftrightarrow> path nil nxt' h xs"
  by (induction xs arbitrary: h) auto

lemma path_upd_outside: "q \<notin> set xs \<Longrightarrow> path nil (nxt(q := v)) h xs \<longleftrightarrow> path nil nxt h xs"
  by (rule path_cong) auto

lemma path_inval: "path nil nxt h xs \<Longrightarrow> nil \<notin> set xs"
  by (induction xs arbitrary: h) auto

lemma path_head: "path nil nxt h xs \<Longrightarrow> h = (if xs = [] then nil else hd xs)"
  by (cases xs) auto

lemma path_suffix: "path nil nxt h (xs @ p # ys) \<Longrightarrow> path nil nxt p (p # ys)"
  by (induction xs arbitrary: h) auto

lemma path_last: "path nil nxt h xs \<Longrightarrow> xs \<noteq> [] \<Longrightarrow> nxt (last xs) = nil"
  by (induction xs arbitrary: h) auto

lemma path_insert_head:
  "path nil nxt h ys \<Longrightarrow> q \<notin> set ys \<Longrightarrow> q \<noteq> nil \<Longrightarrow> path nil (nxt(q := h)) q (q # ys)"
  by (simp add: path_upd_outside)

lemma path_insert_after:
  assumes "path nil nxt h (xs @ ys)" "xs \<noteq> []" "distinct (xs @ ys)" "q \<notin> set (xs @ ys)"
    "q \<noteq> nil"
  shows "path nil (nxt(q := nxt (last xs), last xs := q)) h (xs @ q # ys)"
  using assms
proof (induction xs arbitrary: h)
  case (Cons x xs)
  show ?case
  proof (cases "xs = []")
    case True
    with Cons.prems show ?thesis
      by (auto simp: path_upd_outside intro: path_cong [THEN iffD1, rotated])
  next
    case False
    then have "last xs \<in> set xs"
      by simp
    with Cons False show ?thesis
      by (auto simp: path_upd_outside)
  qed
qed simp

text \<open>On a list where \<open>P\<close> holds of a prefix, taking the prefix is filtering.\<close>

lemma takeWhile_dropWhile_filter:
  assumes "sorted_wrt (\<lambda>x y. P y \<longrightarrow> P x) xs"
  shows "takeWhile P xs = filter P xs \<and> dropWhile P xs = filter (\<lambda>x. \<not> P x) xs"
  using assms
proof (induction xs)
  case (Cons x xs)
  show ?case
  proof (cases "P x")
    case False
    with Cons.prems have "\<forall>y\<in>set xs. \<not> P y"
      by auto
    with False show ?thesis
      by (auto simp: filter_empty_conv filter_id_conv)
  qed (use Cons in auto)
qed simp

section \<open>Sorted insertion\<close>

lemma sorted_wrt_subseq: "subseq xs ys \<Longrightarrow> sorted_wrt R ys \<Longrightarrow> sorted_wrt R xs"
  by (induction xs ys rule: list_emb.induct) (auto dest: list_emb_set)

lemma distinct_subseq: "subseq xs ys \<Longrightarrow> distinct ys \<Longrightarrow> distinct xs"
  by (induction xs ys rule: list_emb.induct) (auto dest: list_emb_set)

lemma chain_subseq: "\<forall>l. subseq (S (Suc l)) (S l) \<Longrightarrow> subseq (S l) (S 0)"
  by (induction l) (auto intro: subseq_order.trans)

lemma subseq_head:
  assumes "subseq ys (x # L)" "x \<notin> set L"
  shows "ys = x # filter (\<lambda>i. i \<noteq> x) ys \<or> x \<notin> set ys"
proof (cases ys)
  case (Cons y zs)
  show ?thesis
  proof (cases "y = x")
    case True
    with assms(1) Cons have "subseq zs L"
      by (simp add: subseq_Cons2_iff)
    with assms(2) have "x \<notin> set zs"
      using list_emb_set by force
    then have "filter (\<lambda>i. i \<noteq> x) zs = zs"
      by (auto simp: filter_id_conv)
    with True Cons show ?thesis
      by simp
  next
    case False
    with assms(1) Cons have "subseq ys L"
      by (simp add: subseq_Cons2_iff)
    with assms(2) show ?thesis
      using list_emb_set by force
  qed
qed simp

definition ins_sorted :: "('a \<Rightarrow> bool) \<Rightarrow> 'a \<Rightarrow> 'a list \<Rightarrow> 'a list" where
  "ins_sorted P q xs = takeWhile P xs @ q # dropWhile P xs"

lemma set_ins_sorted [simp]: "set (ins_sorted P q xs) = insert q (set xs)"
  unfolding ins_sorted_def
  by (metis Un_insert_right list.simps(15) set_append takeWhile_dropWhile_id)

lemma distinct_ins_sorted: "distinct xs \<Longrightarrow> q \<notin> set xs \<Longrightarrow> distinct (ins_sorted P q xs)"
  unfolding ins_sorted_def
  by (metis (no_types, opaque_lifting) distinct_append distinct.simps(2) takeWhile_dropWhile_id
      not_distinct_conv_prefix UnE distinct_takeWhile distinct_dropWhile disjoint_insert(1) set_append Un_iff list.simps(15))

lemma subseq_ins_sorted:
  assumes "subseq xs ys" "sorted_wrt (\<lambda>x y. P y \<longrightarrow> P x) ys"
  shows "subseq (ins_sorted P q xs) (ins_sorted P q ys)" and "subseq xs (ins_sorted P q ys)"
proof -
  have xs: "sorted_wrt (\<lambda>x y. P y \<longrightarrow> P x) xs"
    using sorted_wrt_subseq [OF assms] .
  note tw = takeWhile_dropWhile_filter [OF xs] takeWhile_dropWhile_filter [OF assms(2)]
  have f: "subseq (filter P xs) (filter P ys)" "subseq (filter (\<lambda>x. \<not> P x) xs) (filter (\<lambda>x. \<not> P x) ys)"
    using assms(1) by (auto intro: subseq_filter)
  then show "subseq (ins_sorted P q xs) (ins_sorted P q ys)"
    by (simp add: ins_sorted_def tw list_emb_append_mono)
  have "subseq (takeWhile P xs @ dropWhile P xs) (ins_sorted P q ys)"
    using f by (simp add: ins_sorted_def tw list_emb_append_mono list_emb_Cons del: takeWhile_dropWhile_id)
  then show "subseq xs (ins_sorted P q ys)"
    by simp
qed

lemma sorted_ins_sorted:
  assumes "sorted_wrt (\<lambda>x y. f x \<le> f y) xs"
  shows "sorted_wrt (\<lambda>x y. f x \<le> (f y :: int)) (ins_sorted (\<lambda>x. f x \<le> f q) q xs)"
proof -
  have "sorted_wrt (\<lambda>x y. f y \<le> f q \<longrightarrow> f x \<le> f q) xs"
    using assms by (rule sorted_wrt_mono_rel [rotated]) auto
  note tw = takeWhile_dropWhile_filter [OF this]
  show ?thesis
    using assms by (auto simp: ins_sorted_def tw sorted_wrt_append sorted_wrt_filter)
qed

end
