(* ===== verification/Qman_Inv.thy ===== *)
theory Qman_Inv
  imports Qman Linked_List
begin

text \<open>
  The invariant of the queue manager: the relative time of \<^verbatim>\<open>rel_time\<close> is a wrapping
  clock; the linked lists threaded through the queues represent a FIFO of unlimited
  queues and a skip list sorted by time; activating and firing a queue keep them, so no
  assertion fails and no walk runs forever.
\<close>

unbundle bit_operations_syntax

section \<open>The virtual clock\<close>

text \<open>The code's three cases, over the integers.\<close>

lemma rel_time_cases:
  assumes "x = uint t" "y = uint c"
  shows "rel_time c t =
    (if y < 2147483648 then if y + 2147483648 \<le> x then x - y - 4294967296 else x - y
     else if y = 2147483648 then x - y
     else if x \<le> y - 2147483648 then x - y + 4294967296 else x - y)"
proof -
  have r: "0 \<le> x" "x < 4294967296" "0 \<le> y" "y < 4294967296"
    using uint_u32_range [of t] uint_u32_range [of c] by (simp_all only: assms)
  have w: "ucast t = (word_of_int x :: u64)" "ucast c = (word_of_int y :: u64)"
    by (simp_all only: assms u64_of_u32)
  have m1: "y < 2147483648 \<Longrightarrow> (y - 2147483648) mod 4294967296 = y + 2147483648"
    using r mod_add_self2 [of "y - 2147483648" 4294967296]
      mod_pos_pos_trivial [of "y + 2147483648" 4294967296] by simp
  have m2: "y > 2147483648 \<Longrightarrow> (y + 2147483648) mod 4294967296 = y - 2147483648"
    using r mod_add_self2 [of "y - 2147483648" 4294967296]
      mod_pos_pos_trivial [of "y - 2147483648" 4294967296]
    by (simp add: add.commute)
  have cmp: "(word_of_int y :: u64) < 0x80000000 \<longleftrightarrow> y < 2147483648"
    "(word_of_int y :: u64) = 0x80000000 \<longleftrightarrow> y = 2147483648"
    "(word_of_int x :: u64) < 0x100000000" "(0 :: u64) \<le> word_of_int y"
    using r u64_of_int_less [of y 2147483648] u64_of_int_less [of x 4294967296] by simp_all
  have diff: "(word_of_int x :: u64) - word_of_int y = word_of_int (x - y)"
    "(word_of_int x :: u64) - word_of_int (y + 2147483648) - 0x80000000 = word_of_int (x - y - 4294967296)"
    "(word_of_int x :: u64) + (0x100000000 - word_of_int y) = word_of_int (x - y + 4294967296)"
    "(word_of_int y :: u64) - 0x80000000 = word_of_int (y - 2147483648)"
    "(word_of_int y :: u64) + 0x80000000 = word_of_int (y + 2147483648)"
    "(word_of_int (y - 2147483648) :: u64) + 1 = word_of_int (y - 2147483648 + 1)"
    by simp_all
  consider "y < 2147483648" | "y = 2147483648" | "y > 2147483648"
    by linarith
  then show ?thesis
  proof cases
    case 1
    then show ?thesis
      unfolding rel_time_def Let_def w diff(4,5) u64_mask32
      using r by (simp add: cmp m1 diff(1,2) u64_of_int_less sint_u64_of_int del: of_int_add of_int_diff)
  next
    case 2
    then show ?thesis
      unfolding rel_time_def Let_def w
      using r sint_u64_of_int [of "x - 2147483648"] by (simp add: cmp)
  next
    case 3
    then show ?thesis
      unfolding rel_time_def Let_def w diff(4,5) u64_mask32
      using r by (simp add: cmp m2 diff(1,3,6) u64_of_int_less sint_u64_of_int del: of_int_add of_int_diff)
  qed
qed

interpretation qclock: wrap_clock rel_time "uint :: u32 \<Rightarrow> int" 2147483648
proof
  fix c t :: u32
  show "2 * 2147483648 dvd rel_time c t - (uint t - uint c)"
    by (simp add: rel_time_cases [OF refl refl])
  show "- 2147483648 \<le> rel_time c t \<and> rel_time c t \<le> 2147483648"
    using uint_u32_range [of t] uint_u32_range [of c] by (simp only: rel_time_cases [OF refl refl] split: if_split) arith
qed simp

section \<open>The invariant\<close>

abbreviation qpath :: "(u32 \<Rightarrow> u32) \<Rightarrow> u32 \<Rightarrow> u32 list \<Rightarrow> bool" where
  "qpath \<equiv> path IDXLIST_INVAL"

definition level_next :: "qman_thread \<Rightarrow> nat \<Rightarrow> u32 \<Rightarrow> u32" where
  "level_next t l i = next_idxs (queues t i) l"

text \<open>Time until queue \<open>i\<close> is due, and the time its largest chunk takes at its rate.\<close>

definition due :: "qman_thread \<Rightarrow> u32 \<Rightarrow> int" where
  "due t i = rel_time (ts_virtual t) (next_ts (queues t i))"

definition chunk_time :: "queue \<Rightarrow> int" where
  "chunk_time q = uint (max_chunk q) * 8000000 div uint (rate q)"

definition nolimit_inv :: "qman_thread \<Rightarrow> u32 list \<Rightarrow> bool" where
  "nolimit_inv t N \<longleftrightarrow> qpath (level_next t 0) (nolimit_head_idx t) N \<and>
     nolimit_tail_idx t = (if N = [] then IDXLIST_INVAL else last N) \<and> distinct N"

definition skiplist_inv :: "int \<Rightarrow> qman_thread \<Rightarrow> (nat \<Rightarrow> u32 list) \<Rightarrow> bool" where
  "skiplist_inv D t S \<longleftrightarrow>
     (\<forall>l<QMAN_SKIPLIST_LEVELS. qpath (level_next t l) (head_idx t l) (S l)) \<and>
     (\<forall>l. subseq (S (Suc l)) (S l)) \<and> distinct (S 0) \<and>
     sorted_wrt (\<lambda>i j. due t i \<le> due t j) (S 0) \<and>
     (\<forall>i\<in>set (S 0). 0 \<le> due t i \<and> due t i \<le> D)"

definition flags_inv :: "qman_thread \<Rightarrow> u32 list \<Rightarrow> u32 list \<Rightarrow> bool" where
  "flags_inv t N L \<longleftrightarrow> set N \<inter> set L = {} \<and> (\<forall>i\<in>set N \<union> set L. i < FLEXNIC_NUM_QMQUEUES) \<and>
     (\<forall>i. qflags (queues t i) =
        (if i \<in> set L then FLAG_INSKIPLIST else if i \<in> set N then FLAG_INNOLIMITL else 0))"

definition rates_ok :: "int \<Rightarrow> qman_thread \<Rightarrow> bool" where
  "rates_ok D t \<longleftrightarrow> 0 \<le> D \<and> D < 1073741824 \<and>
     (\<forall>i. rate (queues t i) \<noteq> 0 \<longrightarrow> chunk_time (queues t i) \<le> D)"

definition qman_inv :: "int \<Rightarrow> qman_thread \<Rightarrow> u32 list \<Rightarrow> (nat \<Rightarrow> u32 list) \<Rightarrow> bool" where
  "qman_inv D t N S \<longleftrightarrow>
     nolimit_inv t N \<and> skiplist_inv D t S \<and> flags_inv t N (S 0) \<and> rates_ok D t"

lemma upd_queue_simps [simp]:
  "queues (upd_queue t i f) = (queues t)(i := f (queues t i))"
  "head_idx (upd_queue t i f) = head_idx t"
  "nolimit_head_idx (upd_queue t i f) = nolimit_head_idx t"
  "nolimit_tail_idx (upd_queue t i f) = nolimit_tail_idx t"
  "ts_real (upd_queue t i f) = ts_real t"
  "ts_virtual (upd_queue t i f) = ts_virtual t"
  "rng (upd_queue t i f) = rng t"
  "nolimit_first (upd_queue t i f) = nolimit_first t"
  by (simp_all add: upd_queue_def)

section \<open>Walking and inserting\<close>

definition due_by :: "qman_thread \<Rightarrow> u32 \<Rightarrow> u32 \<Rightarrow> bool" where
  "due_by t ts i \<longleftrightarrow> timestamp_lessthaneq t (next_ts (queues t i)) ts"

lemma walk_path:
  assumes "qpath (level_next t l) h xs"
  shows "skiplist_walk t ts l h pred =
    Some (if takeWhile (due_by t ts) xs = [] then pred else last (takeWhile (due_by t ts) xs))"
  using assms(1)
proof (induction xs arbitrary: h pred)
  case Nil
  then show ?case
    by (simp add: skiplist_walk.simps)
next
  case (Cons x xs)
  then show ?case
    by (subst skiplist_walk.simps) (simp add: due_by_def [symmetric] level_next_def [symmetric])
qed

text \<open>The predecessor at a level, for the queues that are due no later than \<open>ts\<close>.\<close>

definition level_pred :: "(u32 \<Rightarrow> bool) \<Rightarrow> u32 list \<Rightarrow> u32" where
  "level_pred P xs = (if takeWhile P xs = [] then IDXLIST_INVAL else last (takeWhile P xs))"

lemma level_pred_member:
  "level_pred P xs \<noteq> IDXLIST_INVAL \<Longrightarrow> level_pred P xs \<in> set xs \<and> P (level_pred P xs)"
  unfolding level_pred_def by (auto split: if_splits dest: set_takeWhileD [OF last_in_set])

lemma walk_from_pred:
  assumes "qpath (level_next t l) h xs" "p \<in> set xs"
    and "due_by t ts p" "sorted_wrt (\<lambda>x y. (due_by t ts) y \<longrightarrow> (due_by t ts) x) xs"
  shows "skiplist_walk t ts l p p = Some (level_pred (due_by t ts) xs)"
proof -
  obtain as bs where xs: "xs = as @ p # bs"
    using assms(2) by (auto simp: in_set_conv_decomp)
  with assms(4) \<open>due_by t ts p\<close> have "takeWhile (due_by t ts) xs = as @ p # takeWhile (due_by t ts) bs"
    by (auto simp: sorted_wrt_append takeWhile_append2)
  then show ?thesis
    using walk_path [of t l p "p # bs" ts p] path_suffix [OF assms(1) [unfolded xs]] \<open>due_by t ts p\<close>
    by (auto simp: level_pred_def due_by_def)
qed

lemma skiplist_preds_path:
  assumes "\<forall>l<n. qpath (level_next t l) (head_idx t l) (S l)"
    and "\<forall>l. subseq (S (Suc l)) (S l)" and "\<forall>l. sorted_wrt (\<lambda>x y. (due_by t ts) y \<longrightarrow> (due_by t ts) x) (S l)"
    and "pred \<noteq> IDXLIST_INVAL \<Longrightarrow> pred \<in> set (S n) \<and> (due_by t ts) pred"
  shows "skiplist_preds t ts n pred preds =
    Some (\<lambda>l. if l < n then level_pred (due_by t ts) (S l) else preds l)"
  using assms(1,4)
proof (induction n arbitrary: pred preds)
  case (Suc n)
  have path: "qpath (level_next t n) (head_idx t n) (S n)"
    using Suc.prems(1) by blast
  have sub: "set (S (Suc n)) \<subseteq> set (S n)"
    using assms(2) [THEN spec, of n] by (auto dest: list_emb_set)
  have "skiplist_walk t ts n (if pred \<noteq> IDXLIST_INVAL then pred else head_idx t n) pred =
      Some (level_pred (due_by t ts) (S n))"
  proof (cases "pred = IDXLIST_INVAL")
    case True
    then show ?thesis
      using walk_path [OF path, of ts pred] by (auto simp: level_pred_def due_by_def)
  next
    case False
    then show ?thesis
      using walk_from_pred [OF path, of pred ts] Suc.prems(2) assms(3) sub by (auto simp: due_by_def)
  qed
  moreover have "skiplist_preds t ts n (level_pred (due_by t ts) (S n)) (preds(n := level_pred (due_by t ts) (S n))) =
      Some (\<lambda>l. if l < n then level_pred (due_by t ts) (S l) else (preds(n := level_pred (due_by t ts) (S n))) l)"
    using Suc.prems(1) level_pred_member [of "due_by t ts" "S n"] by (intro Suc.IH) auto
  ultimately show ?case
    by (auto simp: fun_eq_iff less_Suc_eq)
qed simp

text \<open>What linking a queue in at all levels changes.\<close>

lemma skiplist_insert_same [simp]:
  "next_ts (queues (skiplist_insert n level q preds t) i) = next_ts (queues t i)"
  "rate (queues (skiplist_insert n level q preds t) i) = rate (queues t i)"
  "avail (queues (skiplist_insert n level q preds t) i) = avail (queues t i)"
  "max_chunk (queues (skiplist_insert n level q preds t) i) = max_chunk (queues t i)"
  "qflags (queues (skiplist_insert n level q preds t) i) = qflags (queues t i)"
  "nolimit_head_idx (skiplist_insert n level q preds t) = nolimit_head_idx t"
  "nolimit_tail_idx (skiplist_insert n level q preds t) = nolimit_tail_idx t"
  "ts_real (skiplist_insert n level q preds t) = ts_real t"
  "ts_virtual (skiplist_insert n level q preds t) = ts_virtual t"
  "nolimit_first (skiplist_insert n level q preds t) = nolimit_first t"
  by (induction n arbitrary: t) (simp_all add: Let_def)

lemma skiplist_insert_levels:
  assumes "\<forall>l. preds l \<noteq> q"
  shows "level_next (skiplist_insert n level q preds t) l =
    (if l < n then
       if l > level then (level_next t l)(q := IDXLIST_INVAL)
       else if preds l \<noteq> IDXLIST_INVAL
         then (level_next t l)(q := level_next t l (preds l), preds l := q)
       else (level_next t l)(q := head_idx t l)
     else level_next t l)"
  and "head_idx (skiplist_insert n level q preds t) l =
    (if l < n \<and> l \<le> level \<and> preds l = IDXLIST_INVAL then q else head_idx t l)"
  using assms
  by (induction n arbitrary: t) (auto simp: Let_def level_next_def fun_eq_iff less_Suc_eq)

lemma insert_level:
  assumes "qpath (level_next t l) (head_idx t l) xs" "distinct xs" "q \<notin> set xs" "q \<noteq> IDXLIST_INVAL"
    and "\<forall>l. preds l \<noteq> q" and "preds l = level_pred P xs" "l < n"
    and t'_def: "t' = skiplist_insert n level q preds t"
  shows "qpath (level_next t' l) (head_idx t' l) (if l \<le> level then ins_sorted P q xs else xs)"
proof (cases "takeWhile P xs = []")
  case True
  then have "dropWhile P xs = xs"
    by (metis append_Nil takeWhile_dropWhile_id)
  with True assms show ?thesis
    by (auto simp: t'_def skiplist_insert_levels level_pred_def path_upd_outside ins_sorted_def)
next
  case False
  have w: "xs = takeWhile P xs @ dropWhile P xs"
    by simp
  have "last (takeWhile P xs) \<in> set xs"
    using False by (meson last_in_set set_takeWhileD)
  with assms(1) have nz: "last (takeWhile P xs) \<noteq> IDXLIST_INVAL"
    using path_inval by metis
  have "qpath ((level_next t l)(q := level_next t l (last (takeWhile P xs)), last (takeWhile P xs) := q))
      (head_idx t l) (takeWhile P xs @ q # dropWhile P xs)"
    using assms False by (intro path_insert_after) (simp_all flip: w)
  with False nz assms show ?thesis
    by (auto simp: t'_def skiplist_insert_levels level_pred_def path_upd_outside ins_sorted_def)
qed

lemma timestamp_lessthaneq_due: "due_by t ts i \<longleftrightarrow> due t i \<le> rel_time (ts_virtual t) ts"
  by (simp add: due_by_def due_def timestamp_lessthaneq_def)

lemma send_time_nonneg: "0 \<le> uint a * 8000000 div uint b"
  by (simp add: div_int_pos_iff)

lemma uint_queue_new_ts:
  "uint (queue_new_ts t q bytes) =
    (uint (ts_virtual t) + uint bytes * 8000000 div uint (rate q)) mod 4294967296"
proof -
  have b: "uint bytes * 8 < 18446744073709551616" "uint bytes * 8 * 1000000 < 18446744073709551616"
    using uint_u32_range [of bytes] by simp_all
  have "uint (ucast bytes * 8 * 1000000 :: u64) = uint bytes * 8 * 1000000"
    using b uint_u32_range [of bytes]
    by (simp add: uint_u64_mult uint_ucast_u32_u64 mod_pos_pos_trivial)
  then have d: "uint ((ucast bytes * 8 * 1000000 :: u64) div ucast (rate q)) =
      uint bytes * 8000000 div uint (rate q)"
    by (simp add: uint_div uint_ucast_u32_u64 mult.commute)
  have m: "(x mod 18446744073709551616) mod 4294967296 = x mod (4294967296::int)" for x
    by (rule mod_mod_cancel) simp
  show ?thesis
    unfolding queue_new_ts_def uint_ucast_u64_u32 uint_u64_add d uint_ucast_u32_u64 m ..
qed

lemma rel_time_queue_new_ts:
  assumes "uint bytes * 8000000 div uint (rate q) < 2147483648"
  shows "rel_time (ts_virtual t) (queue_new_ts t q bytes) = uint bytes * 8000000 div uint (rate q)"
proof (rule qclock.rel_unique)
  show "\<bar>uint bytes * 8000000 div uint (rate q)\<bar> < 2147483648"
    using assms send_time_nonneg [of bytes "rate q"] by simp
  show "2 * 2147483648 dvd uint bytes * 8000000 div uint (rate q) -
      (uint (queue_new_ts t q bytes) - uint (ts_virtual t))"
    by (simp add: uint_queue_new_ts mod_eq_dvd_iff [symmetric] mod_simps)
qed

lemma skiplist_ts_range:
  assumes "chunk_time q \<le> D" "0 \<le> D" "D < 1073741824"
  shows "0 \<le> rel_time (ts_virtual t) (skiplist_ts t q)" "rel_time (ts_virtual t) (skiplist_ts t q) \<le> D"
proof -
  have "rel_time (ts_virtual t) (queue_new_ts t q (ucast (max_chunk q))) = chunk_time q"
    using rel_time_queue_new_ts [of "ucast (max_chunk q)" q t] assms by (simp add: chunk_time_def uint_ucast_u16_u32)
  then show "0 \<le> rel_time (ts_virtual t) (skiplist_ts t q)"
    "rel_time (ts_virtual t) (skiplist_ts t q) \<le> D"
    using assms send_time_nonneg [of "max_chunk q" "rate q"]
    by (auto simp: chunk_time_def skiplist_ts_def Let_def timestamp_lessthaneq_def qclock.rel_self)
qed

lemma queue_level_same:
  "queue_level t = (level, t') \<Longrightarrow> level < QMAN_SKIPLIST_LEVELS \<and> t' = t\<lparr>rng := snd (utils_rng_gen32 (rng t))\<rparr>"
  by (auto simp: queue_level_def Let_def split: prod.splits if_splits)

text \<open>What activating a queue keeps of the state.\<close>

definition same_work :: "qman_thread \<Rightarrow> qman_thread \<Rightarrow> bool" where
  "same_work t t' \<longleftrightarrow> ts_virtual t' = ts_virtual t \<and> ts_real t' = ts_real t \<and>
     nolimit_first t' = nolimit_first t \<and>
     (\<forall>i. rate (queues t' i) = rate (queues t i) \<and> avail (queues t' i) = avail (queues t i) \<and>
          max_chunk (queues t' i) = max_chunk (queues t i))"

lemma nolimit_inv_cong:
  assumes "nolimit_inv t N" "\<And>i. i \<in> set N \<Longrightarrow> level_next t' 0 i = level_next t 0 i"
    "nolimit_head_idx t' = nolimit_head_idx t" "nolimit_tail_idx t' = nolimit_tail_idx t"
  shows "nolimit_inv t' N"
  using assms path_cong [of N "level_next t' 0" "level_next t 0"] by (simp add: nolimit_inv_def)

lemma skiplist_inv_members:
  assumes "skiplist_inv D t S" "x \<in> set (S l)"
  shows "x \<in> set (S 0)"
  using assms chain_subseq [of S l] by (auto simp: skiplist_inv_def dest: list_emb_set)

lemma skiplist_inv_insert:
  assumes inv: "skiplist_inv D t S" and q: "q \<notin> set (S 0)" "q \<noteq> IDXLIST_INVAL"
    and preds: "preds = (\<lambda>l. if l < QMAN_SKIPLIST_LEVELS then level_pred (due_by t ts) (S l) else IDXLIST_INVAL)"
    and ts: "next_ts (queues t q) = ts" "0 \<le> due t q" "due t q \<le> D"
    and t': "t' = skiplist_insert QMAN_SKIPLIST_LEVELS level q preds t"
    and S': "S' = (\<lambda>l. if l \<le> level then ins_sorted (due_by t ts) q (S l) else S l)"
  shows "skiplist_inv D t' S'"
proof -
  have due: "due t' i = due t i" for i
    by (simp add: due_def t')
  have P: "due_by t ts = (\<lambda>i. due t i \<le> due t q)"
    using ts(1) by (auto simp: timestamp_lessthaneq_due due_def)
  have sub: "subseq (S (Suc l)) (S l)" "subseq (S l) (S 0)" for l
    using inv chain_subseq by (auto simp: skiplist_inv_def)
  have sorted: "sorted_wrt (\<lambda>x y. due t y \<le> due t q \<longrightarrow> due t x \<le> due t q) (S l)" for l
    using inv sorted_wrt_subseq [OF sub(2)] unfolding skiplist_inv_def
    by (blast intro: sorted_wrt_mono_rel [rotated] order_trans)
  have nq: "\<forall>l. preds l \<noteq> q"
    using q level_pred_member skiplist_inv_members [OF inv] by (auto simp: preds)
  show ?thesis
    unfolding skiplist_inv_def
  proof (intro conjI allI impI)
    fix l assume "l < QMAN_SKIPLIST_LEVELS"
    then show "qpath (level_next t' l) (head_idx t' l) (S' l)"
      unfolding S' using inv q nq skiplist_inv_members [OF inv, of q l]
        distinct_subseq [OF sub(2) [of l]]
      by (intro insert_level [OF _ _ _ _ _ _ _ t']) (auto simp: skiplist_inv_def preds)
  next
    fix l
    show "subseq (S' (Suc l)) (S' l)"
      unfolding S' P using subseq_ins_sorted [OF sub(1) sorted] sub(1) by auto
  next
    show "distinct (S' 0)"
      using inv q by (simp add: S' skiplist_inv_def distinct_ins_sorted)
    show "sorted_wrt (\<lambda>i j. due t' i \<le> due t' j) (S' 0)"
      using inv by (simp add: S' P due skiplist_inv_def sorted_ins_sorted)
    show "\<forall>i\<in>set (S' 0). 0 \<le> due t' i \<and> due t' i \<le> D"
      using inv ts by (simp add: S' due skiplist_inv_def)
  qed
qed

lemma skiplist_inv_cong:
  assumes "skiplist_inv D t S" "ts_virtual t' = ts_virtual t" "head_idx t' = head_idx t"
    "\<And>i. i \<in> set (S 0) \<Longrightarrow> next_ts (queues t' i) = next_ts (queues t i)"
    "\<And>i l. i \<in> set (S 0) \<Longrightarrow> level_next t' l i = level_next t l i"
  shows "skiplist_inv D t' S"
proof -
  have d: "due t' i = due t i" if "i \<in> set (S 0)" for i
    using that assms by (simp add: due_def)
  have p: "qpath (level_next t' l) h (S l) \<longleftrightarrow> qpath (level_next t l) h (S l)" for l h
    using assms(5) skiplist_inv_members [OF assms(1)] by (intro path_cong) blast
  have "sorted_wrt (\<lambda>i j. due t' i \<le> due t' j) (S 0)"
    by (rule sorted_wrt_mono_rel [of _ "\<lambda>i j. due t i \<le> due t j"])
      (use assms(1) d in \<open>auto simp: skiplist_inv_def\<close>)
  with assms d p show ?thesis
    by (simp add: skiplist_inv_def)
qed

lemma flags_inv_inactive:
  assumes "flags_inv t N L"
  shows "qflags (queues t q) AND (FLAG_INSKIPLIST OR FLAG_INNOLIMITL) = 0 \<longleftrightarrow> q \<notin> set N \<union> set L"
proof -
  have "qflags (queues t q) =
      (if q \<in> set L then FLAG_INSKIPLIST else if q \<in> set N then FLAG_INNOLIMITL else 0)"
    using assms by (simp add: flags_inv_def)
  then show ?thesis
    by (auto split: if_splits)
qed

lemma flags_inv_update:
  assumes "flags_inv t N L" "q < FLEXNIC_NUM_QMQUEUES" "q \<notin> set N \<union> set L"
    and "\<And>i. qflags (queues t' i) = (if i = q then qflags (queues t i) OR f else qflags (queues t i))"
    and "f = FLAG_INSKIPLIST \<and> set N' = set N \<and> set L' = insert q (set L) \<or>
         f = FLAG_INNOLIMITL \<and> set N' = insert q (set N) \<and> set L' = set L"
  shows "flags_inv t' N' L'"
proof -
  have "qflags (queues t q) = 0"
    using assms(1,3) by (simp add: flags_inv_def)
  with assms show ?thesis
    by (auto simp: flags_inv_def)
qed

lemma skiplist_preds_inv:
  assumes "skiplist_inv D t S"
  shows "skiplist_preds t ts QMAN_SKIPLIST_LEVELS IDXLIST_INVAL (\<lambda>_. IDXLIST_INVAL) =
    Some (\<lambda>l. if l < QMAN_SKIPLIST_LEVELS then level_pred (due_by t ts) (S l) else IDXLIST_INVAL)"
proof (rule skiplist_preds_path)
  have "sorted_wrt (\<lambda>x y. due t x \<le> due t y) (S l)" for l
    using assms sorted_wrt_subseq [OF chain_subseq] unfolding skiplist_inv_def by blast
  then show "\<forall>l. sorted_wrt (\<lambda>x y. due_by t ts y \<longrightarrow> due_by t ts x) (S l)"
    unfolding timestamp_lessthaneq_due by (blast intro: sorted_wrt_mono_rel [rotated] order_trans)
qed (use assms in \<open>simp_all add: skiplist_inv_def\<close>)

lemma level_next_upd: "(\<And>q. next_idxs (f q) = next_idxs q) \<Longrightarrow> level_next (upd_queue t i f) = level_next t"
  by (simp add: level_next_def fun_eq_iff)

lemma skiplist_link_inv:
  assumes inv: "qman_inv D t N S" and q: "q \<notin> set N \<union> set (S 0)" "q < FLEXNIC_NUM_QMQUEUES"
    and range: "0 \<le> due t q" "due t q \<le> D"
    and t': "t' = skiplist_insert QMAN_SKIPLIST_LEVELS level q
      (\<lambda>l. if l < QMAN_SKIPLIST_LEVELS then level_pred (due_by t (next_ts (queues t q))) (S l)
           else IDXLIST_INVAL) t"
    and S': "S' = (\<lambda>l. if l \<le> level then ins_sorted (due_by t (next_ts (queues t q))) q (S l) else S l)"
  shows "qman_inv D (upd_queue t' q (\<lambda>q. q\<lparr>qflags := qflags q OR FLAG_INSKIPLIST\<rparr>)) N S'"
    (is "qman_inv D ?t N S'")
proof -
  have skip: "skiplist_inv D t S" and nol: "nolimit_inv t N" and fl: "flags_inv t N (S 0)"
    and ro: "rates_ok D t"
    using inv by (simp_all add: qman_inv_def)
  have qn: "q \<noteq> IDXLIST_INVAL"
    using q(2) by auto
  have np: "level_pred P (S l) \<noteq> q \<and> level_pred P (S l) \<notin> set N" for P l
    using level_pred_member [of P "S l"] q qn fl path_inval nol skiplist_inv_members [OF skip, of _ l]
    by (metis UnCI disjoint_iff flags_inv_def nolimit_inv_def)
  have "skiplist_inv D t' S'"
    by (rule skiplist_inv_insert [OF skip _ qn refl refl range t' S']) (use q in simp)
  then have "skiplist_inv D ?t S'"
    by (rule skiplist_inv_cong) (auto simp: level_next_def)
  moreover have "nolimit_inv ?t N"
    by (rule nolimit_inv_cong [OF nol])
      (use np q qn in \<open>auto simp: t' level_next_def [symmetric] level_next_upd skiplist_insert_levels\<close>)
  moreover have "flags_inv ?t N (S' 0)"
    by (rule flags_inv_update [OF fl q(2,1)]) (auto simp: t' S')
  moreover have "rates_ok D ?t"
    using ro by (auto simp: t' rates_ok_def chunk_time_def)
  ultimately show ?thesis
    by (simp add: qman_inv_def)
qed

lemma queue_activate_skiplist_inv:
  assumes inv: "qman_inv D t N S" and q: "q \<notin> set N \<union> set (S 0)" "q < FLEXNIC_NUM_QMQUEUES"
    and rate: "rate (queues t q) \<noteq> 0"
  obtains t' S' where "queue_activate_skiplist t q = Some (Inr t')" "qman_inv D t' N S'"
    "same_work t t'" "set (S' 0) = insert q (set (S 0))"
    "\<And>i. next_ts (queues t' i) = (if i = q then skiplist_ts t (queues t q) else next_ts (queues t i))"
proof -
  define ts where "ts = skiplist_ts t (queues t q)"
  define t1 where "t1 = upd_queue t q (\<lambda>q. q\<lparr>next_ts := ts\<rparr>)"
  obtain level t2 where lev: "queue_level t1 = (level, t2)"
    by fastforce
  have t2: "t2 = t1\<lparr>rng := snd (utils_rng_gen32 (rng t1))\<rparr>"
    using queue_level_same [OF lev] by simp
  have inv2: "qman_inv D t2 N S"
    using inv q unfolding qman_inv_def
    by (auto simp: t2 t1_def level_next_def flags_inv_def rates_ok_def chunk_time_def
        intro: skiplist_inv_cong nolimit_inv_cong)
  have range: "0 \<le> due t2 q" "due t2 q \<le> D"
    using inv rate skiplist_ts_range [of "queues t q" D t]
    by (auto simp: qman_inv_def rates_ok_def due_def t2 t1_def ts_def)
  have same: "due_by t2 (next_ts (queues t2 q)) = due_by t1 ts"
    by (simp add: t2 t1_def due_by_def timestamp_lessthaneq_def fun_eq_iff)
  have inact: "qflags (queues t q) AND (FLAG_INSKIPLIST OR FLAG_INNOLIMITL) = 0"
    using flags_inv_inactive inv q unfolding qman_inv_def by metis
  have "skiplist_inv D t1 S"
    using inv2 by (auto simp: qman_inv_def t2 level_next_def intro: skiplist_inv_cong)
  note preds = skiplist_preds_inv [OF this, of ts]
  note fin = skiplist_link_inv [OF inv2 q range refl refl, of level, unfolded same]
  show thesis
    by (rule that [OF _ fin])
      (use inact in \<open>simp_all add: queue_activate_skiplist_def Let_def ts_def [symmetric] t1_def [symmetric]
        preds lev same_work_def\<close>, simp_all add: t2 t1_def)
qed

section \<open>Activating, firing and setting\<close>

lemma nolimit_inv_append:
  assumes inv: "nolimit_inv t N" and q: "q \<notin> set N" "q \<noteq> IDXLIST_INVAL"
    and nxt: "level_next t' 0 = (if N = [] then (level_next t 0)(q := IDXLIST_INVAL)
      else (level_next t 0)(q := IDXLIST_INVAL, last N := q))"
    and ptr: "nolimit_head_idx t' = (if N = [] then q else nolimit_head_idx t)" "nolimit_tail_idx t' = q"
  shows "nolimit_inv t' (N @ [q])"
proof (cases "N = []")
  case False
  have path: "qpath (level_next t 0) (nolimit_head_idx t) N"
    using inv by (simp add: nolimit_inv_def)
  have "qpath ((level_next t 0)(q := level_next t 0 (last N), last N := q)) (nolimit_head_idx t) (N @ [q])"
    using inv path False q
      path_insert_after [of IDXLIST_INVAL "level_next t 0" "nolimit_head_idx t" N "[]" q]
    by (simp add: nolimit_inv_def)
  then show ?thesis
    using inv False q nxt ptr path_last [OF path False] by (simp add: nolimit_inv_def)
qed (use q nxt ptr in \<open>simp add: nolimit_inv_def\<close>)

lemma queue_activate_nolimit_inv:
  assumes inv: "qman_inv D t N S" and q: "q \<notin> set N \<union> set (S 0)" "q < FLEXNIC_NUM_QMQUEUES"
  obtains t' where "queue_activate_nolimit t q = Inr t'" "qman_inv D t' (N @ [q]) S"
    "same_work t t'" "\<And>i. next_ts (queues t' i) = next_ts (queues t i)"
proof -
  have inact: "qflags (queues t q) AND (FLAG_INSKIPLIST OR FLAG_INNOLIMITL) = 0"
    using flags_inv_inactive inv q unfolding qman_inv_def by metis
  have qn: "q \<noteq> IDXLIST_INVAL"
    using q(2) by auto
  define t1 where "t1 = upd_queue t q (\<lambda>q. q\<lparr>qflags := qflags q OR FLAG_INNOLIMITL,
                                     next_idxs := (next_idxs q)(0 := IDXLIST_INVAL)\<rparr>)"
  define t2 where "t2 = (if N = [] then t1\<lparr>nolimit_head_idx := q, nolimit_tail_idx := q\<rparr>
    else (upd_queue t1 (last N) (\<lambda>p. p\<lparr>next_idxs := (next_idxs p)(0 := q)\<rparr>))\<lparr>nolimit_tail_idx := q\<rparr>)"
  have nol: "nolimit_inv t N" and tail: "nolimit_tail_idx t = (if N = [] then IDXLIST_INVAL else last N)"
    and d: "distinct N" and path: "qpath (level_next t 0) (nolimit_head_idx t) N"
    using inv by (simp_all add: qman_inv_def nolimit_inv_def)
  have lm: "N \<noteq> [] \<Longrightarrow> last N \<in> set N" and ni: "N \<noteq> [] \<Longrightarrow> last N \<noteq> IDXLIST_INVAL"
    using path_inval [OF path] last_in_set [of N] by (auto simp del: last_in_set)
  have run: "queue_activate_nolimit t q = Inr t2"
    using inact tail lm ni
    by (auto simp: queue_activate_nolimit_def Let_def t1_def [symmetric] t2_def) (auto simp: t1_def)
  have out: "level_next t2 l i = level_next t l i" if "i \<noteq> q" "N = [] \<or> i \<noteq> last N" for i l
    using that by (auto simp: t2_def t1_def level_next_def)
  have other: "last N \<notin> set (S 0) \<or> N = []" "next_ts (queues t2 i) = next_ts (queues t i)"
    "ts_virtual t2 = ts_virtual t" "head_idx t2 = head_idx t" for i
    using inv lm by (auto simp: t2_def t1_def qman_inv_def flags_inv_def disjoint_iff)
  have "nolimit_inv t2 (N @ [q])"
    using nol q qn lm by (intro nolimit_inv_append [of t N q t2]) (auto simp: t2_def t1_def level_next_def)
  moreover have "skiplist_inv D t2 S"
    by (rule skiplist_inv_cong [of D t S]) (use inv q other in \<open>auto simp: qman_inv_def intro!: out\<close>)
  moreover have "flags_inv t2 (N @ [q]) (S 0)"
    using inv q by (intro flags_inv_update [of t N "S 0" q t2]) (auto simp: qman_inv_def t2_def t1_def)
  moreover have "rates_ok D t2"
    using inv by (auto simp: qman_inv_def rates_ok_def chunk_time_def t2_def t1_def)
  ultimately show thesis
    using run other(2) by (intro that [of t2]) (auto simp: qman_inv_def same_work_def t2_def t1_def)
qed

lemma queue_activate_inv:
  assumes inv: "qman_inv D t N S" and q: "q \<notin> set N \<union> set (S 0)" "q < FLEXNIC_NUM_QMQUEUES"
  obtains t' N' S' where "queue_activate t q = Some (Inr t')" "qman_inv D t' N' S'" "same_work t t'"
    "if rate (queues t q) = 0 then N' = N @ [q] \<and> S' = S else N' = N \<and> set (S' 0) = insert q (set (S 0))"
    "\<And>i. next_ts (queues t' i) =
       (if i = q \<and> rate (queues t q) \<noteq> 0 then skiplist_ts t (queues t q) else next_ts (queues t i))"
proof (cases "rate (queues t q) = 0")
  case True
  obtain t' where "queue_activate_nolimit t q = Inr t'" "qman_inv D t' (N @ [q]) S"
    "same_work t t'" "\<And>i. next_ts (queues t' i) = next_ts (queues t i)"
    using queue_activate_nolimit_inv [OF inv q] by blast
  with True show thesis
    by (intro that [of t' "N @ [q]" S]) (simp_all add: queue_activate_def)
next
  case False
  obtain t' S' where "queue_activate_skiplist t q = Some (Inr t')" "qman_inv D t' N S'"
    "same_work t t'" "set (S' 0) = insert q (set (S 0))"
    "\<And>i. next_ts (queues t' i) = (if i = q then skiplist_ts t (queues t q) else next_ts (queues t i))"
    using queue_activate_skiplist_inv [OF inv q False] by blast
  with False show thesis
    by (intro that [of t' N S']) (simp_all add: queue_activate_def)
qed

text \<open>Changes of queues that no list refers to, and of the amount of work, keep the lists.\<close>

lemma qman_inv_upd_work:
  assumes inv: "qman_inv D t N S"
    and f: "next_idxs (f (queues t q)) = next_idxs (queues t q)" "qflags (f (queues t q)) = qflags (queues t q)"
      "q \<in> set (S 0) \<Longrightarrow> next_ts (f (queues t q)) = next_ts (queues t q)"
      "rate (f (queues t q)) \<noteq> 0 \<Longrightarrow> chunk_time (f (queues t q)) \<le> D"
  shows "qman_inv D (upd_queue t q f) N S" (is "qman_inv D ?t N S")
proof -
  have l: "level_next ?t = level_next t"
    using f(1) by (simp add: level_next_def fun_eq_iff)
  have "skiplist_inv D ?t S"
    using inv f(3) by (intro skiplist_inv_cong [of D t S ?t]) (auto simp: qman_inv_def l)
  moreover have "nolimit_inv ?t N"
    using inv by (intro nolimit_inv_cong [of t N ?t]) (auto simp: qman_inv_def l)
  ultimately show ?thesis
    using inv f by (auto simp: qman_inv_def flags_inv_def rates_ok_def)
qed

definition fire_bytes :: "queue \<Rightarrow> nat" where
  "fire_bytes q = min (unat (avail q)) (unat (max_chunk q))"

text \<open>The time a number of bytes takes at a rate.\<close>

definition send_time :: "u32 \<Rightarrow> nat \<Rightarrow> int" where
  "send_time r n = int n * 8000000 div uint r"

lemma skiplist_ts_after_fire:
  assumes "next_ts q = queue_new_ts t' q b" "ts_virtual t' = ts_virtual t"
    and "uint b \<le> uint (max_chunk q)" "chunk_time q < 1073741824"
  shows "rel_time (ts_virtual t) (skiplist_ts t q) = uint b * 8000000 div uint (rate q)"
    and "rel_time (ts_virtual t) (next_ts q) = uint b * 8000000 div uint (rate q)"
proof -
  have le: "uint b * 8000000 div uint (rate q) \<le> chunk_time q"
    unfolding chunk_time_def using assms(3) by (cases "uint (rate q) = 0") (auto intro!: zdiv_mono1 simp: order_less_le)
  have "rel_time (ts_virtual t) (queue_new_ts t q b) = uint b * 8000000 div uint (rate q)"
    using le assms(4) by (intro rel_time_queue_new_ts) simp
  then show r: "rel_time (ts_virtual t) (next_ts q) = uint b * 8000000 div uint (rate q)"
    using assms(1,2) by (simp add: queue_new_ts_def)
  have "rel_time (ts_virtual t) (queue_new_ts t q (ucast (max_chunk q))) = chunk_time q"
    using rel_time_queue_new_ts [of "ucast (max_chunk q)" q t] assms
    by (simp add: chunk_time_def uint_ucast_u16_u32)
  with r le show "rel_time (ts_virtual t) (skiplist_ts t q) = uint b * 8000000 div uint (rate q)"
    using send_time_nonneg [of b "rate q"]
    by (auto simp: skiplist_ts_def Let_def timestamp_lessthaneq_def qclock.rel_self)
qed

text \<open>The queue after it has fired, before it is activated again.\<close>

definition fired :: "qman_thread \<Rightarrow> queue \<Rightarrow> u32 \<Rightarrow> queue" where
  "fired t q b = q\<lparr>avail := avail q - b,
     next_ts := if rate q > 0 then queue_new_ts t q b else next_ts q\<rparr>"

lemma queue_fire_unfold:
  assumes "avail (queues t i) > 0"
    and b: "b = (if avail (queues t i) \<le> ucast (max_chunk (queues t i)) then avail (queues t i)
      else ucast (max_chunk (queues t i)))"
    and t1: "t1 = upd_queue t i (\<lambda>q. fired t q b)"
  shows "queue_fire t i = (if avail (queues t1 i) > 0 then
     case queue_activate t1 i of None \<Rightarrow> None | Some (Inl e) \<Rightarrow> Some (Inl e)
     | Some (Inr t) \<Rightarrow> Some (Inr (ucast b, t)) else Some (Inr (ucast b, t1)))"
proof -
  have "(if rate (queues t i) > 0 then
      upd_queue (upd_queue t i (\<lambda>q. q\<lparr>avail := avail q - b\<rparr>)) i
        (\<lambda>q. q\<lparr>next_ts := queue_new_ts (upd_queue t i (\<lambda>q. q\<lparr>avail := avail q - b\<rparr>)) q b\<rparr>)
    else upd_queue t i (\<lambda>q. q\<lparr>avail := avail q - b\<rparr>)) = t1"
    by (simp add: t1 fired_def upd_queue_def queue_new_ts_def)
  with assms(1) show ?thesis
    unfolding queue_fire_def Let_def b [symmetric] by simp
qed

definition fire_frame :: "qman_thread \<Rightarrow> u32 \<Rightarrow> u16 \<Rightarrow> qman_thread \<Rightarrow> bool" where
  "fire_frame t q b t' \<longleftrightarrow>
     unat b = fire_bytes (queues t q) \<and>
     unat (avail (queues t' q)) + unat b = unat (avail (queues t q)) \<and>
     ts_virtual t' = ts_virtual t \<and> ts_real t' = ts_real t \<and> nolimit_first t' = nolimit_first t \<and>
     (\<forall>i. i \<noteq> q \<longrightarrow> next_ts (queues t' i) = next_ts (queues t i) \<and> avail (queues t' i) = avail (queues t i)) \<and>
     (\<forall>i. rate (queues t' i) = rate (queues t i) \<and> max_chunk (queues t' i) = max_chunk (queues t i)) \<and>
     (rate (queues t q) \<noteq> 0 \<longrightarrow> due t' q = send_time (rate (queues t q)) (unat b))"

lemma fire_amount:
  fixes q :: queue
  defines "b \<equiv> (if avail q \<le> ucast (max_chunk q) then avail q else ucast (max_chunk q))"
  shows "unat b = fire_bytes q" "unat (ucast b :: u16) = fire_bytes q" "uint b \<le> uint (max_chunk q)"
    "unat (avail q - b) + fire_bytes q = unat (avail q)"
proof -
  show u: "unat b = fire_bytes q"
    by (simp add: b_def fire_bytes_def word_le_nat_alt unat_ucast_u16_u32)
  then have "unat b < 65536"
    using unat_u16_bound [of "max_chunk q"] by (simp add: fire_bytes_def)
  then show "unat (ucast b :: u16) = fire_bytes q"
    using u by (simp add: unat_ucast_u32_u16)
  show "uint b \<le> uint (max_chunk q)"
    using u by (simp only: uint_nat of_nat_le_iff fire_bytes_def)
  show "unat (avail q - b) + fire_bytes q = unat (avail q)"
    using u by (simp add: unat_u32_sub fire_bytes_def)
qed

lemma queue_fire_inv:
  assumes inv: "qman_inv D t N S" and q: "q \<notin> set N \<union> set (S 0)" "q < FLEXNIC_NUM_QMQUEUES"
    and av: "avail (queues t q) > 0"
  obtains b t' N' S' where "queue_fire t q = Some (Inr (b, t'))" "qman_inv D t' N' S'"
    "fire_frame t q b t'" "N' = N \<or> N' = N @ [q] \<and> avail (queues t' q) > 0" "set (S 0) \<subseteq> set (S' 0)"
    "set (S' 0) \<subseteq> insert q (set (S 0))"
proof -
  define b where "b = (if avail (queues t q) \<le> ucast (max_chunk (queues t q)) then avail (queues t q)
      else ucast (max_chunk (queues t q)))"
  define t1 where "t1 = upd_queue t q (\<lambda>q. fired t q b)"
  note run = queue_fire_unfold [OF av b_def t1_def]
  note amount = fire_amount [of "queues t q", folded b_def]
  have ct: "rate (queues t q) \<noteq> 0 \<Longrightarrow> chunk_time (queues t q) < 1073741824"
    using inv by (fastforce simp: qman_inv_def rates_ok_def)
  have inv1: "qman_inv D t1 N S"
    unfolding t1_def using inv q
    by (intro qman_inv_upd_work) (auto simp: fired_def qman_inv_def rates_ok_def chunk_time_def)
  have q1: "queues t1 q = fired t (queues t q) b" "ts_virtual t1 = ts_virtual t"
    by (simp_all add: t1_def)
  have due: "rate (queues t q) \<noteq> 0 \<Longrightarrow>
      rel_time (ts_virtual t1) (next_ts (queues t1 q)) = send_time (rate (queues t q)) (unat b) \<and>
      rel_time (ts_virtual t1) (skiplist_ts t1 (queues t1 q)) = send_time (rate (queues t q)) (unat b)"
  proof -
    assume r: "rate (queues t q) \<noteq> 0"
    have "next_ts (queues t1 q) = queue_new_ts t (queues t1 q) b" "rate (queues t1 q) = rate (queues t q)"
      "chunk_time (queues t1 q) = chunk_time (queues t q)" "max_chunk (queues t1 q) = max_chunk (queues t q)"
      using r by (simp_all add: q1 fired_def queue_new_ts_def word_gt_0 chunk_time_def)
    then show ?thesis
      using skiplist_ts_after_fire [of "queues t1 q" t b t1] amount(3) ct [OF r] q1(2)
      by (simp add: send_time_def)
  qed
  show thesis
  proof (cases "avail (queues t1 q) > 0")
    case True
    obtain t' N' S' where act: "queue_activate t1 q = Some (Inr t')" "qman_inv D t' N' S'" "same_work t1 t'"
      "if rate (queues t1 q) = 0 then N' = N @ [q] \<and> S' = S else N' = N \<and> set (S' 0) = insert q (set (S 0))"
      "\<And>i. next_ts (queues t' i) =
         (if i = q \<and> rate (queues t1 q) \<noteq> 0 then skiplist_ts t1 (queues t1 q) else next_ts (queues t1 i))"
      using queue_activate_inv [OF inv1 q] by blast
    have "fire_frame t q (ucast b) t'"
      using act(3,5) amount due unfolding fire_frame_def same_work_def
      by (auto simp: due_def t1_def fired_def)
    with True act run show thesis
      by (intro that [of "ucast b" t' N' S']) (auto simp: same_work_def split: if_splits)
  next
    case False
    have "fire_frame t q (ucast b) t1"
      using amount due unfolding fire_frame_def by (auto simp: due_def t1_def fired_def)
    with False inv1 run show thesis
      by (intro that [of "ucast b" t1 N S]) auto
  qed
qed
end
