(* ===== verification/Qman_Poll.thy ===== *)
theory Qman_Poll
  imports Qman_Inv
begin

text \<open>
  Polling the queue manager: both polling loops return and keep the invariant of
  \<^verbatim>\<open>Qman_Inv\<close>, so every reachable state has it; the bytes handed out are accounted for
  exactly, the skip list enforces the rates and the no-limit list is served round robin.
\<close>

unbundle bit_operations_syntax

section \<open>Polling\<close>

text \<open>Bytes and sending time granted to a queue.\<close>

definition granted :: "u32 \<Rightarrow> polled \<Rightarrow> nat" where
  "granted i out = sum_list (map (\<lambda>(j, b). if j = i then unat b else 0) out)"

definition granted_time :: "u32 \<Rightarrow> u32 \<Rightarrow> polled \<Rightarrow> int" where
  "granted_time r i out = sum_list (map (\<lambda>(j, b). if j = i then send_time r (unat b) else 0) out)"

definition poll_frame :: "qman_thread \<Rightarrow> polled \<Rightarrow> qman_thread \<Rightarrow> bool" where
  "poll_frame t out t' \<longleftrightarrow>
     nolimit_first t' = nolimit_first t \<and>
     (\<forall>i. unat (avail (queues t' i)) + granted i out = unat (avail (queues t i)) \<and>
          rate (queues t' i) = rate (queues t i) \<and> max_chunk (queues t' i) = max_chunk (queues t i)) \<and>
     (\<forall>(i, b)\<in>set out. i < FLEXNIC_NUM_QMQUEUES \<and> unat b \<le> unat (max_chunk (queues t i)))"

lemma poll_frame_Nil:
  "nolimit_first t' = nolimit_first t \<Longrightarrow> (\<And>i. avail (queues t' i) = avail (queues t i)) \<Longrightarrow>
   (\<And>i. rate (queues t' i) = rate (queues t i)) \<Longrightarrow> (\<And>i. max_chunk (queues t' i) = max_chunk (queues t i)) \<Longrightarrow>
   poll_frame t [] t'"
  by (simp add: poll_frame_def granted_def)

lemma poll_frame_append:
  assumes "poll_frame t out t'" "poll_frame t' out' t''"
  shows "poll_frame t (out @ out') t''"
proof -
  have "unat (avail (queues t'' i)) + granted i (out @ out') = unat (avail (queues t i))" for i
  proof -
    have "unat (avail (queues t'' i)) + granted i out' = unat (avail (queues t' i))"
      "unat (avail (queues t' i)) + granted i out = unat (avail (queues t i))"
      using assms by (simp_all add: poll_frame_def)
    then show ?thesis
      by (simp add: granted_def)
  qed
  then show ?thesis
    using assms by (auto simp: poll_frame_def)
qed

lemma poll_frame_fire:
  "fire_frame t q b t' \<Longrightarrow> q < FLEXNIC_NUM_QMQUEUES \<Longrightarrow> poll_frame t [(q, b)] t'"
  by (auto simp: poll_frame_def fire_frame_def granted_def fire_bytes_def)

lemma queues_upd_flags:
  "avail ((queues (upd_queue t q (\<lambda>q. q\<lparr>qflags := f q\<rparr>))) i) = avail (queues t i)"
  "rate ((queues (upd_queue t q (\<lambda>q. q\<lparr>qflags := f q\<rparr>))) i) = rate (queues t i)"
  "max_chunk ((queues (upd_queue t q (\<lambda>q. q\<lparr>qflags := f q\<rparr>))) i) = max_chunk (queues t i)"
  "next_ts ((queues (upd_queue t q (\<lambda>q. q\<lparr>qflags := f q\<rparr>))) i) = next_ts (queues t i)"
  "level_next (upd_queue t q (\<lambda>q. q\<lparr>qflags := f q\<rparr>)) = level_next t"
  by (simp_all add: level_next_def fun_eq_iff)

definition nolimit_pop :: "qman_thread \<Rightarrow> qman_thread" where
  "nolimit_pop t = (let idx = nolimit_head_idx t; nxt = next_idxs (queues t idx) 0;
           t = t\<lparr>nolimit_head_idx := nxt\<rparr>;
           t = (if nxt = IDXLIST_INVAL then t\<lparr>nolimit_tail_idx := IDXLIST_INVAL\<rparr> else t) in
       upd_queue t idx (\<lambda>q. q\<lparr>qflags := qflags q AND NOT FLAG_INNOLIMITL\<rparr>))"

lemma nolimit_pop_frame:
  "avail (queues (nolimit_pop t) i) = avail (queues t i)"
  "rate (queues (nolimit_pop t) i) = rate (queues t i)"
  "max_chunk (queues (nolimit_pop t) i) = max_chunk (queues t i)"
  "next_ts (queues (nolimit_pop t) i) = next_ts (queues t i)"
  "next_idxs (queues (nolimit_pop t) i) = next_idxs (queues t i)"
  "ts_virtual (nolimit_pop t) = ts_virtual t" "ts_real (nolimit_pop t) = ts_real t"
  "nolimit_first (nolimit_pop t) = nolimit_first t" "head_idx (nolimit_pop t) = head_idx t"
  by (simp_all add: nolimit_pop_def Let_def)

lemma nolimit_pop_inv:
  assumes inv: "qman_inv D t (x # N) S"
  shows "nolimit_head_idx t = x" "x \<noteq> IDXLIST_INVAL" "x < FLEXNIC_NUM_QMQUEUES"
    "x \<notin> set N \<union> set (S 0)" "qman_inv D (nolimit_pop t) N S"
proof -
  have p: "qpath (level_next t 0) (nolimit_head_idx t) (x # N)" "distinct (x # N)"
    and fl: "flags_inv t (x # N) (S 0)"
    using inv by (simp_all add: qman_inv_def nolimit_inv_def)
  then show x: "nolimit_head_idx t = x" "x \<noteq> IDXLIST_INVAL" "x < FLEXNIC_NUM_QMQUEUES"
    "x \<notin> set N \<union> set (S 0)"
    by (auto simp: flags_inv_def)
  have hd: "next_idxs (queues t x) 0 = IDXLIST_INVAL \<longleftrightarrow> N = []"
    using p by (cases N) (auto simp: level_next_def)
  have l: "level_next (nolimit_pop t) = level_next t"
    by (simp add: level_next_def nolimit_pop_frame fun_eq_iff)
  have ptr: "nolimit_head_idx (nolimit_pop t) = level_next t 0 x"
    "nolimit_tail_idx (nolimit_pop t) = (if N = [] then IDXLIST_INVAL else nolimit_tail_idx t)"
    using hd by (simp_all add: nolimit_pop_def Let_def level_next_def x(1))
  have "nolimit_inv (nolimit_pop t) N"
    using inv p by (simp add: nolimit_inv_def qman_inv_def l ptr)
  moreover have "skiplist_inv D (nolimit_pop t) S"
    by (rule skiplist_inv_cong [of D t S]) (use inv in \<open>simp_all add: qman_inv_def nolimit_pop_frame l\<close>)
  moreover have "flags_inv (nolimit_pop t) N (S 0)"
    using fl x p by (auto simp: flags_inv_def nolimit_pop_def Let_def)
  moreover have "rates_ok D (nolimit_pop t)"
    using inv by (auto simp: qman_inv_def rates_ok_def chunk_time_def nolimit_pop_frame)
  ultimately show "qman_inv D (nolimit_pop t) N S"
    by (simp add: qman_inv_def)
qed

lemma poll_nolimit_loop_unfold:
  "poll_nolimit_loop num out t =
    (if length out < num \<and> nolimit_head_idx t \<noteq> IDXLIST_INVAL then
       if avail (queues t (nolimit_head_idx t)) > 0 then
         case queue_fire (nolimit_pop t) (nolimit_head_idx t) of
           None \<Rightarrow> None
         | Some (Inl e) \<Rightarrow> Some (Inl e)
         | Some (Inr (bytes, t')) \<Rightarrow> poll_nolimit_loop num (out @ [(nolimit_head_idx t, bytes)]) t'
       else poll_nolimit_loop num out (nolimit_pop t)
     else Some (Inr (out, t)))"
  by (subst poll_nolimit_loop.simps)
    (simp only: Let_def nolimit_pop_def [unfolded Let_def, symmetric] nolimit_pop_frame)


lemma take_shorter: "take n xs = take m (N @ ys) \<Longrightarrow> length N \<le> n \<Longrightarrow> take (length N) xs = take m N"
  by (metis append_eq_conv_conj min.absorb1 take_append take_take min.commute)

lemma poll_nolimit_fire:
  assumes inv: "qman_inv D t (x # N) S" and av: "avail (queues t x) > 0" and num: "length out < num"
  obtains b t1 N1 S1 where "poll_nolimit_loop num out t = poll_nolimit_loop num (out @ [(x, b)]) t1"
    "qman_inv D t1 N1 S1" "poll_frame t [(x, b)] t1"
    "N1 = N \<or> N1 = N @ [x] \<and> avail (queues t1 x) > 0"
    "\<forall>i\<in>set N. avail (queues t1 i) = avail (queues t i)"
    "ts_virtual t1 = ts_virtual t" "ts_real t1 = ts_real t"
proof -
  note pop = nolimit_pop_inv [OF inv]
  have av': "avail (queues (nolimit_pop t) x) > 0"
    using av by (simp add: nolimit_pop_frame)
  obtain b t1 N1 S1 where f: "queue_fire (nolimit_pop t) x = Some (Inr (b, t1))" "qman_inv D t1 N1 S1"
    "fire_frame (nolimit_pop t) x b t1" "N1 = N \<or> N1 = N @ [x] \<and> avail (queues t1 x) > 0"
    by (rule queue_fire_inv [OF pop(5,4,3) av'])
  have "poll_nolimit_loop num out t = poll_nolimit_loop num (out @ [(x, b)]) t1"
    using num av pop(1,2) f by (subst poll_nolimit_loop_unfold) simp
  moreover have "poll_frame t [(x, b)] t1"
    using poll_frame_fire [OF f(3) pop(3)] by (simp add: poll_frame_def nolimit_pop_frame)
  ultimately show thesis
    using f pop(4) by (intro that [of b t1 N1 S1]) (auto simp: fire_frame_def nolimit_pop_frame)
qed

lemma poll_nolimit_loop_inv:
  assumes "qman_inv D t N S"
  shows "\<exists>out' t' N' S'. poll_nolimit_loop num out t = Some (Inr (out @ out', t')) \<and>
    qman_inv D t' N' S' \<and> poll_frame t out' t' \<and> length out' \<le> num - length out \<and>
    ts_virtual t' = ts_virtual t \<and> ts_real t' = ts_real t \<and>
    ((\<forall>i\<in>set N. avail (queues t i) > 0) \<longrightarrow>
       take (length N) (map fst out') = take (num - length out) N)"
  using assms
proof (induction "num - length out + length N" arbitrary: t out N S rule: less_induct)
  case less
  show ?case
  proof (cases "length out < num \<and> N \<noteq> []")
    case False
    then have "poll_nolimit_loop num out t = Some (Inr (out, t))"
      using less.prems by (subst poll_nolimit_loop.simps) (auto simp: qman_inv_def nolimit_inv_def)
    with False less.prems show ?thesis
      by (intro exI [of _ "[]"] exI [of _ t] exI [of _ N] exI [of _ S]) (auto simp: poll_frame_Nil)
  next
    case True
    then obtain x N0 where N: "N = x # N0" by (cases N) auto
    note pop = nolimit_pop_inv [OF less.prems [unfolded N]]
    show ?thesis
    proof (cases "avail (queues t x) > 0")
      case False
      have run: "poll_nolimit_loop num out t = poll_nolimit_loop num out (nolimit_pop t)"
        using True False pop(1,2) by (subst poll_nolimit_loop_unfold) simp
      have fr: "poll_frame t [] (nolimit_pop t)"
        by (simp add: poll_frame_Nil nolimit_pop_frame)
      show ?thesis
        using less.hyps [OF _ pop(5), of out] False poll_frame_append [OF fr]
        unfolding run by (simp add: N nolimit_pop_frame) blast
    next
      case av: True
      obtain b t1 N1 S1 where run: "poll_nolimit_loop num out t = poll_nolimit_loop num (out @ [(x, b)]) t1"
        and f: "qman_inv D t1 N1 S1" "poll_frame t [(x, b)] t1"
          "N1 = N0 \<or> N1 = N0 @ [x] \<and> avail (queues t1 x) > 0"
        and same: "\<forall>i\<in>set N0. avail (queues t1 i) = avail (queues t i)"
          "ts_virtual t1 = ts_virtual t" "ts_real t1 = ts_real t"
        using poll_nolimit_fire [OF less.prems [unfolded N] av] True by blast
      have "num - length (out @ [(x, b)]) + length N1 < num - length out + length N"
        using True f(3) N by auto
      then obtain out' t' N' S' where IH: "poll_nolimit_loop num (out @ [(x, b)]) t1 = Some (Inr ((out @ [(x, b)]) @ out', t'))"
        "qman_inv D t' N' S'" "poll_frame t1 out' t'" "length out' \<le> num - length (out @ [(x, b)])"
        "ts_virtual t' = ts_virtual t1" "ts_real t' = ts_real t1"
        "(\<forall>i\<in>set N1. avail (queues t1 i) > 0) \<longrightarrow>
           take (length N1) (map fst out') = take (num - length (out @ [(x, b)])) N1"
        using less.hyps [OF _ f(1)] by blast
      have "take (length N) (map fst ((x, b) # out')) = take (num - length out) N"
        if "\<forall>i\<in>set N. avail (queues t i) > 0"
      proof -
        have "\<forall>i\<in>set N1. avail (queues t1 i) > 0"
          using f(3) same(1) that N by auto
        with IH(7) have "take (length N1) (map fst out') = take (num - length (out @ [(x, b)])) N1"
          by blast
        then have "take (length N0) (map fst out') = take (num - length (out @ [(x, b)])) N0"
          using f(3) by (elim disjE) (simp, rule take_shorter [of "length N1" _ _ N0 "[x]"], simp_all)
        moreover have "num - length out = Suc (num - Suc (length out))"
          using True by linarith
        ultimately show ?thesis
          by (simp add: N)
      qed
      moreover have "length ((x, b) # out') \<le> num - length out"
        using IH(4) True by (simp only: length_append length_Cons list.size) linarith
      ultimately show ?thesis
        unfolding run IH(1) using IH(2,5,6) same(2,3) poll_frame_append [OF f(2) IH(3)]
        by (intro exI [of _ "(x, b) # out'"] exI [of _ t'] exI [of _ N'] exI [of _ S'] conjI) simp_all
    qed
  qed
qed

lemma skiplist_inv_advance:
  assumes inv: "skiplist_inv D t S" and D: "D < 1073741824"
    and v: "0 \<le> rel_time (ts_virtual t) v" "rel_time (ts_virtual t) v < 1073741824"
    and later: "\<forall>i\<in>set (S 0). rel_time (ts_virtual t) v \<le> due t i"
  shows "\<forall>i\<in>set (S 0). due (t\<lparr>ts_virtual := v\<rparr>) i = due t i - rel_time (ts_virtual t) v"
    and "skiplist_inv D (t\<lparr>ts_virtual := v\<rparr>) S"
proof -
  show d: "\<forall>i\<in>set (S 0). due (t\<lparr>ts_virtual := v\<rparr>) i = due t i - rel_time (ts_virtual t) v"
  proof
    fix i assume i: "i \<in> set (S 0)"
    have "0 \<le> due t i \<and> due t i \<le> D"
      using inv i by (simp add: skiplist_inv_def)
    then have "\<bar>rel_time (ts_virtual t) (next_ts (queues t i)) - rel_time (ts_virtual t) v\<bar> < 2147483648"
      using D v unfolding due_def by linarith
    from qclock.rel_shift [OF this] show "due (t\<lparr>ts_virtual := v\<rparr>) i = due t i - rel_time (ts_virtual t) v"
      by (simp add: due_def)
  qed
  have l: "level_next (t\<lparr>ts_virtual := v\<rparr>) = level_next t"
    by (simp add: level_next_def fun_eq_iff)
  have "sorted_wrt (\<lambda>i j. due (t\<lparr>ts_virtual := v\<rparr>) i \<le> due (t\<lparr>ts_virtual := v\<rparr>) j) (S 0)"
    by (rule sorted_wrt_mono_rel [of _ "\<lambda>i j. due t i \<le> due t j"])
      (use inv d in \<open>auto simp: skiplist_inv_def\<close>)
  moreover have "\<forall>i\<in>set (S 0). 0 \<le> due (t\<lparr>ts_virtual := v\<rparr>) i \<and> due (t\<lparr>ts_virtual := v\<rparr>) i \<le> D"
  proof
    fix i assume "i \<in> set (S 0)"
    then show "0 \<le> due (t\<lparr>ts_virtual := v\<rparr>) i \<and> due (t\<lparr>ts_virtual := v\<rparr>) i \<le> D"
      using d later v(1) inv unfolding skiplist_inv_def by fastforce
  qed
  ultimately show "skiplist_inv D (t\<lparr>ts_virtual := v\<rparr>) S"
    using inv by (simp add: skiplist_inv_def l)
qed

lemma qman_inv_advance:
  assumes inv: "qman_inv D t N S" and v: "0 \<le> rel_time (ts_virtual t) v" "rel_time (ts_virtual t) v < 1073741824"
    and later: "\<forall>i\<in>set (S 0). rel_time (ts_virtual t) v \<le> due t i"
  shows "qman_inv D (t\<lparr>ts_virtual := v\<rparr>) N S"
proof -
  have "skiplist_inv D (t\<lparr>ts_virtual := v\<rparr>) S"
    using inv v later by (intro skiplist_inv_advance(2)) (auto simp: qman_inv_def rates_ok_def)
  moreover have "nolimit_inv (t\<lparr>ts_virtual := v\<rparr>) N"
    by (rule nolimit_inv_cong [of t]) (use inv in \<open>simp_all add: qman_inv_def level_next_def\<close>)
  ultimately show ?thesis
    using inv by (simp add: qman_inv_def flags_inv_def rates_ok_def)
qed

lemma skiplist_unlink_eq:
  assumes "\<forall>k. l \<le> k \<longrightarrow> Suc k < l + n \<longrightarrow> head_idx t (Suc k) = x \<longrightarrow> head_idx t k = x"
  shows "skiplist_unlink n x l t = t\<lparr>head_idx := (\<lambda>k. if l \<le> k \<and> k < l + n \<and> head_idx t k = x
     then next_idxs (queues t x) k else head_idx t k)\<rparr>"
  using assms
proof (induction n arbitrary: l t)
  case 0
  have "(\<lambda>k. if l \<le> k \<and> k < l + 0 \<and> head_idx t k = x then next_idxs (queues t x) k
      else head_idx t k) = head_idx t"
    by (auto simp: fun_eq_iff)
  then show ?case
    by (simp only: skiplist_unlink.simps) simp
next
  case (Suc n)
  show ?case
  proof (cases "head_idx t l = x")
    case True
    then show ?thesis
      using Suc.prems by (simp add: Suc.IH) (auto simp: fun_eq_iff le_less Suc_le_eq)
  next
    case False
    have ne: "head_idx t (l + k) \<noteq> x" if "k < Suc n" for k
      using that by (induction k) (use False Suc.prems in auto)
    have "(\<lambda>k. if l \<le> k \<and> k < l + Suc n \<and> head_idx t k = x then next_idxs (queues t x) k
        else head_idx t k) = head_idx t"
      using ne unfolding fun_eq_iff le_iff_add by (metis nat_add_left_cancel_less)
    with False show ?thesis
      by simp
  qed
qed

definition skip_pop :: "qman_thread \<Rightarrow> u32 \<Rightarrow> qman_thread" where
  "skip_pop t idx =
    (let t = skiplist_unlink QMAN_SKIPLIST_LEVELS idx 0 t;
         t = upd_queue t idx (\<lambda>q. q\<lparr>qflags := qflags q AND NOT FLAG_INSKIPLIST\<rparr>) in
     t\<lparr>ts_virtual := next_ts (queues t idx)\<rparr>)"

lemma skiplist_unlink_same [simp]:
  "queues (skiplist_unlink n x l t) = queues t"
  "nolimit_head_idx (skiplist_unlink n x l t) = nolimit_head_idx t"
  "nolimit_tail_idx (skiplist_unlink n x l t) = nolimit_tail_idx t"
  "ts_real (skiplist_unlink n x l t) = ts_real t"
  "ts_virtual (skiplist_unlink n x l t) = ts_virtual t"
  "nolimit_first (skiplist_unlink n x l t) = nolimit_first t"
  by (induction n arbitrary: l t) simp_all

lemma skip_pop_frame:
  "avail (queues (skip_pop t x) i) = avail (queues t i)"
  "rate (queues (skip_pop t x) i) = rate (queues t i)"
  "max_chunk (queues (skip_pop t x) i) = max_chunk (queues t i)"
  "next_ts (queues (skip_pop t x) i) = next_ts (queues t i)"
  "next_idxs (queues (skip_pop t x) i) = next_idxs (queues t i)"
  "ts_virtual (skip_pop t x) = next_ts (queues t x)" "ts_real (skip_pop t x) = ts_real t"
  "nolimit_first (skip_pop t x) = nolimit_first t"
  by (simp_all add: skip_pop_def Let_def)

lemma poll_skiplist_loop_unfold:
  "poll_skiplist_loop max_vts num out t =
    (if \<not> length out < num then Some (Inr (out, t))
     else if head_idx t 0 = IDXLIST_INVAL then Some (Inr (out, t\<lparr>ts_virtual := max_vts\<rparr>))
     else if \<not> due_by t max_vts (head_idx t 0) then Some (Inr (out, t\<lparr>ts_virtual := max_vts\<rparr>))
     else if qflags (queues t (head_idx t 0)) AND FLAG_INSKIPLIST = 0 then Some (Inl Assert_Failed)
     else if avail (queues t (head_idx t 0)) > 0 then
       case queue_fire (skip_pop t (head_idx t 0)) (head_idx t 0) of
         None \<Rightarrow> None
       | Some (Inl e) \<Rightarrow> Some (Inl e)
       | Some (Inr (bytes, t')) \<Rightarrow> poll_skiplist_loop max_vts num (out @ [(head_idx t 0, bytes)]) t'
     else poll_skiplist_loop max_vts num out (skip_pop t (head_idx t 0)))"
  by (subst poll_skiplist_loop.simps)
    (simp only: Let_def skip_pop_def [unfolded Let_def, symmetric] skip_pop_frame skiplist_unlink_same
      due_by_def)

text \<open>Removing the first queue from the levels that start with it.\<close>

lemma skiplist_inv_unlink:
  assumes inv: "skiplist_inv D t S" and S: "S 0 = x # L"
  shows "skiplist_inv D (skiplist_unlink QMAN_SKIPLIST_LEVELS x 0 t) (\<lambda>l. filter (\<lambda>i. i \<noteq> x) (S l))"
    (is "skiplist_inv D ?t ?S")
proof -
  have sub: "subseq (S (Suc l)) (S l)" "subseq (S l) (x # L)" for l
    using inv chain_subseq [of S l] S by (auto simp: skiplist_inv_def)
  have dist: "distinct (x # L)"
    using inv S by (simp add: skiplist_inv_def)
  have path: "qpath (level_next t l) (head_idx t l) (S l)" if "l < QMAN_SKIPLIST_LEVELS" for l
    using inv that by (simp add: skiplist_inv_def)
  have starts: "S l = x # filter (\<lambda>i. i \<noteq> x) (S l) \<or> x \<notin> set (S l)" for l
    using subseq_head [OF sub(2)] dist by simp
  have head: "head_idx t l = x \<longleftrightarrow> x \<in> set (S l)" if "l < QMAN_SKIPLIST_LEVELS" for l
    using path [OF that] starts [of l] path_inval [OF path [of 0]] S by (cases "S l") auto
  have unl: "?t = t\<lparr>head_idx := (\<lambda>k. if k < QMAN_SKIPLIST_LEVELS \<and> head_idx t k = x
     then next_idxs (queues t x) k else head_idx t k)\<rparr>"
    using head sub(1) by (subst skiplist_unlink_eq) (auto dest: list_emb_set)
  have l: "level_next ?t = level_next t" and d: "due ?t = due t"
    by (simp_all add: level_next_def due_def fun_eq_iff)
  have "qpath (level_next t l) (head_idx ?t l) (?S l)" if "l < QMAN_SKIPLIST_LEVELS" for l
  proof (cases "x \<in> set (S l)")
    case True
    then have "S l = x # ?S l"
      using starts [of l] by auto
    then have "qpath (level_next t l) (level_next t l x) (?S l)"
      using path [OF that] by (metis path.simps(2))
    then show ?thesis
      using head [OF that] True that by (simp add: unl level_next_def)
  next
    case False
    then have "?S l = S l"
      by (auto simp: filter_id_conv)
    then show ?thesis
      using path [OF that] head [OF that] False by (simp add: unl)
  qed
  then show ?thesis
    using inv S by (auto simp: skiplist_inv_def l d subseq_filter sorted_wrt_filter)
qed

lemma skip_pop_inv:
  assumes inv: "qman_inv D t N S" and S: "S 0 = x # L"
  obtains S' where "qman_inv D (skip_pop t x) N S'" "S' 0 = L"
    "\<forall>i\<in>set L. due (skip_pop t x) i = due t i - due t x"
    "head_idx t 0 = x" "x \<noteq> IDXLIST_INVAL" "x < FLEXNIC_NUM_QMQUEUES" "x \<notin> set N \<union> set L"
    "qflags (queues t x) AND FLAG_INSKIPLIST \<noteq> 0" "0 \<le> due t x" "due t x \<le> D"
proof -
  define S' where "S' l = filter (\<lambda>i. i \<noteq> x) (S l)" for l
  define t1 where "t1 = upd_queue (skiplist_unlink QMAN_SKIPLIST_LEVELS x 0 t) x
    (\<lambda>q. q\<lparr>qflags := qflags q AND NOT FLAG_INSKIPLIST\<rparr>)"
  have skip: "skiplist_inv D t S" and fl: "flags_inv t N (S 0)" and ro: "rates_ok D t"
    using inv by (simp_all add: qman_inv_def)
  have "qpath (level_next t 0) (head_idx t 0) (S 0)"
    using skip by (simp add: skiplist_inv_def)
  then have path: "qpath (level_next t 0) (head_idx t 0) (x # L)"
    by (simp only: S)
  have dist: "distinct (x # L)" and later: "\<forall>i\<in>set L. due t x \<le> due t i"
    and x: "0 \<le> due t x" "due t x \<le> D"
    using skip S by (auto simp: skiplist_inv_def)
  have L: "S' 0 = L"
    using S dist by (auto simp: S'_def filter_id_conv)
  have dt1: "due t1 = due t" and l1: "level_next t1 = level_next t"
    by (simp_all add: t1_def due_def level_next_def fun_eq_iff)
  have "skiplist_inv D t1 S'"
    by (rule skiplist_inv_cong [OF skiplist_inv_unlink [OF skip S, folded S'_def]])
      (simp_all add: t1_def level_next_def)
  moreover have "nolimit_inv t1 N"
    by (rule nolimit_inv_cong [of t]) (use inv in \<open>simp_all add: qman_inv_def l1\<close>, simp_all add: t1_def)
  moreover have "flags_inv t1 N (S' 0)"
    using fl S dist unfolding L by (auto simp: t1_def flags_inv_def)
  moreover have "rates_ok D t1"
    using ro by (auto simp: rates_ok_def chunk_time_def t1_def)
  ultimately have inv1: "qman_inv D t1 N S'"
    by (simp add: qman_inv_def)
  have pop: "skip_pop t x = t1\<lparr>ts_virtual := next_ts (queues t x)\<rparr>"
    by (simp add: skip_pop_def Let_def t1_def)
  have rx: "rel_time (ts_virtual t1) (next_ts (queues t x)) = due t x"
    by (simp add: due_def t1_def)
  have bound: "due t x < 1073741824" "D < 1073741824"
    using x ro by (simp_all add: rates_ok_def)
  have "qman_inv D (skip_pop t x) N S'"
    unfolding pop using inv1 x(1) bound later by (intro qman_inv_advance) (simp_all add: rx dt1 L)
  moreover have "\<forall>i\<in>set L. due (skip_pop t x) i = due t i - due t x"
    unfolding pop using skiplist_inv_advance(1) [of D t1 S' "next_ts (queues t x)"] inv1 x(1) bound later
    by (simp add: rx dt1 L qman_inv_def)
  ultimately show thesis
    using L x path fl dist S by (intro that [of S']) (auto simp: flags_inv_def)
qed


text \<open>
  One poll of the skip list: it returns, keeps the lists, reaches the time limit unless it
  hands out as many queues as it was asked for, and no queue with a rate gets more sending
  time than has passed since it was due, plus one chunk.
\<close>

lemma send_time_bounds:
  assumes "fire_frame t q b t'"
  shows "0 \<le> send_time r (unat b)" "send_time (rate (queues t q)) (unat b) \<le> chunk_time (queues t q)"
proof -
  show "0 \<le> send_time r (unat b)"
    by (simp add: send_time_def div_int_pos_iff)
  have "uint b \<le> uint (max_chunk (queues t q))"
    using assms by (simp only: fire_frame_def fire_bytes_def uint_nat of_nat_le_iff)
  then show "send_time (rate (queues t q)) (unat b) \<le> chunk_time (queues t q)"
    by (cases "uint (rate (queues t q)) = 0")
      (auto simp: send_time_def chunk_time_def order_less_le intro!: zdiv_mono1)
qed

lemma chunk_time_nonneg: "0 \<le> chunk_time q"
  by (simp add: chunk_time_def div_int_pos_iff)

definition time_budget :: "int \<Rightarrow> qman_thread \<Rightarrow> u32 list \<Rightarrow> u32 \<Rightarrow> int" where
  "time_budget A t L i =
     (if i \<in> set L \<and> due t i \<le> A then A - due t i + chunk_time (queues t i) else 0)"

lemma time_budget_nonneg: "0 \<le> time_budget A t L i"
  using chunk_time_nonneg [of "queues t i"] by (simp add: time_budget_def)

lemma poll_skiplist_fire:
  assumes inv: "qman_inv D t N S" and S: "S 0 = x # L" and num: "length out < num"
    and due: "due_by t max_vts x" and av: "avail (queues t x) > 0"
    and A: "rel_time (ts_virtual t) max_vts < 1073741824"
  obtains b t1 N1 S1 where
    "poll_skiplist_loop max_vts num out t = poll_skiplist_loop max_vts num (out @ [(x, b)]) t1"
    "qman_inv D t1 N1 S1" "poll_frame t [(x, b)] t1" "ts_real t1 = ts_real t"
    "card (set (S1 0)) \<le> card (set (S 0))"
    "rel_time (ts_virtual t1) max_vts = rel_time (ts_virtual t) max_vts - due t x" "0 \<le> due t x"
    "\<And>i. rate (queues t i) \<noteq> 0 \<Longrightarrow>
       granted_time (rate (queues t i)) i [(x, b)] +
       time_budget (rel_time (ts_virtual t1) max_vts) t1 (S1 0) i \<le>
       time_budget (rel_time (ts_virtual t) max_vts) t (S 0) i"
proof -
  let ?A = "rel_time (ts_virtual t) max_vts"
  obtain S' where pop: "qman_inv D (skip_pop t x) N S'" "S' 0 = L"
    "\<forall>i\<in>set L. due (skip_pop t x) i = due t i - due t x"
    "head_idx t 0 = x" "x \<noteq> IDXLIST_INVAL" "x < FLEXNIC_NUM_QMQUEUES" "x \<notin> set N \<union> set L"
    "qflags (queues t x) AND FLAG_INSKIPLIST \<noteq> 0" "0 \<le> due t x" "due t x \<le> D"
    by (rule skip_pop_inv [OF inv S])
  have q': "x \<notin> set N \<union> set (S' 0)" and av': "avail (queues (skip_pop t x) x) > 0"
    using pop(2,7) av by (simp_all add: skip_pop_frame)
  obtain b t1 N1 S1 where f: "queue_fire (skip_pop t x) x = Some (Inr (b, t1))" "qman_inv D t1 N1 S1"
    "fire_frame (skip_pop t x) x b t1" "N1 = N \<or> N1 = N @ [x] \<and> avail (queues t1 x) > 0"
    "set (S' 0) \<subseteq> set (S1 0)" "set (S1 0) \<subseteq> insert x (set (S' 0))"
    by (rule queue_fire_inv [OF pop(1) q' pop(6) av'])
  have le: "due t x \<le> ?A"
    using due by (simp add: timestamp_lessthaneq_due)
  have same: "rate (queues t1 i) = rate (queues t i)" "chunk_time (queues t1 i) = chunk_time (queues t i)"
    "ts_virtual t1 = next_ts (queues t x)" "ts_real t1 = ts_real t" for i
    using f(3) by (auto simp: fire_frame_def skip_pop_frame chunk_time_def)
  have A1: "rel_time (ts_virtual t1) max_vts = ?A - due t x"
    using le A pop(9) qclock.rel_shift [of "ts_virtual t" max_vts "next_ts (queues t x)"]
    by (simp add: same due_def)
  have other: "due t1 i = due t i - due t x" if "i \<in> set L" for i
    using f(3) pop(3) that pop(7) by (auto simp: fire_frame_def due_def)
  have self: "rate (queues t x) \<noteq> 0 \<Longrightarrow> due t1 x = send_time (rate (queues t x)) (unat b)"
    and st: "0 \<le> send_time (rate (queues t x)) (unat b)"
      "send_time (rate (queues t x)) (unat b) \<le> chunk_time (queues t x)"
    using f(3) send_time_bounds [OF f(3)] by (auto simp: fire_frame_def skip_pop_frame chunk_time_def)
  have budget: "granted_time (rate (queues t i)) i [(x, b)] + time_budget (?A - due t x) t1 (S1 0) i
      \<le> time_budget ?A t (S 0) i" if "rate (queues t i) \<noteq> 0" for i
  proof (cases "i = x")
    case True
    then show ?thesis
      using self st le that chunk_time_nonneg [of "queues t x"]
      by (auto simp: granted_time_def time_budget_def S same)
  next
    case False
    then have "i \<in> set (S1 0) \<longleftrightarrow> i \<in> set L"
      using f(5,6) pop(2) by auto
    with False show ?thesis
      using other [of i] by (auto simp: granted_time_def time_budget_def S same)
  qed
  have "card (set (S1 0)) \<le> card (insert x (set L))"
    using f(6) pop(2) by (intro card_mono) auto
  moreover have "poll_skiplist_loop max_vts num out t = poll_skiplist_loop max_vts num (out @ [(x, b)]) t1"
    using num pop(4,5,8) due av f(1) by (subst poll_skiplist_loop_unfold) simp
  moreover have "poll_frame t [(x, b)] t1"
    using poll_frame_fire [OF f(3) pop(6)] by (simp add: poll_frame_def skip_pop_frame)
  ultimately show thesis
    using f(2) same(4) A1 pop(9) budget by (intro that [of b t1 N1 S1]) (simp_all add: S)
qed

lemma granted_time_Cons:
  "granted_time r i ((x, b) # out) = granted_time r i [(x, b)] + granted_time r i out"
  by (simp add: granted_time_def)

text \<open>A queue that is due but has nothing to send is only removed.\<close>

lemma poll_skiplist_idle:
  assumes inv: "qman_inv D t N S" and S: "S 0 = x # L" and num: "length out < num"
    and due: "due_by t max_vts x" and av: "\<not> avail (queues t x) > 0"
    and A: "rel_time (ts_virtual t) max_vts < 1073741824"
  obtains t1 S1 where "poll_skiplist_loop max_vts num out t = poll_skiplist_loop max_vts num out t1"
    "qman_inv D t1 N S1" "poll_frame t [] t1" "ts_real t1 = ts_real t" "card (set (S1 0)) < card (set (S 0))"
    "rel_time (ts_virtual t1) max_vts = rel_time (ts_virtual t) max_vts - due t x" "0 \<le> due t x"
    "\<And>i. time_budget (rel_time (ts_virtual t1) max_vts) t1 (S1 0) i \<le>
       time_budget (rel_time (ts_virtual t) max_vts) t (S 0) i"
proof -
  let ?A = "rel_time (ts_virtual t) max_vts"
  obtain S' where pop: "qman_inv D (skip_pop t x) N S'" "S' 0 = L"
    "\<forall>i\<in>set L. due (skip_pop t x) i = due t i - due t x"
    "head_idx t 0 = x" "x \<noteq> IDXLIST_INVAL" "x < FLEXNIC_NUM_QMQUEUES" "x \<notin> set N \<union> set L"
    "qflags (queues t x) AND FLAG_INSKIPLIST \<noteq> 0" "0 \<le> due t x" "due t x \<le> D"
    by (rule skip_pop_inv [OF inv S])
  have le: "due t x \<le> ?A"
    using due by (simp add: timestamp_lessthaneq_due)
  have A1: "rel_time (ts_virtual (skip_pop t x)) max_vts = ?A - due t x"
    using le A pop(9) qclock.rel_shift [of "ts_virtual t" max_vts "next_ts (queues t x)"]
    by (simp add: skip_pop_frame due_def)
  have "time_budget (?A - due t x) (skip_pop t x) L i \<le> time_budget ?A t (S 0) i" for i
    using pop(3) le chunk_time_nonneg [of "queues t i"]
    by (auto simp: time_budget_def S chunk_time_def skip_pop_frame)
  moreover have "poll_skiplist_loop max_vts num out t = poll_skiplist_loop max_vts num out (skip_pop t x)"
    using num pop(4,5,8) due av by (subst poll_skiplist_loop_unfold) simp
  ultimately show thesis
    using pop A1 by (intro that [of "skip_pop t x" S']) (simp_all add: S poll_frame_Nil skip_pop_frame)
qed

lemma poll_beyond_inv:
  assumes inv: "qman_inv D t N S"
    and A: "0 \<le> rel_time (ts_virtual t) max_vts" "rel_time (ts_virtual t) max_vts < 1073741824"
    and "\<not> (S 0 \<noteq> [] \<and> due_by t max_vts (hd (S 0)))"
  shows "qman_inv D (t\<lparr>ts_virtual := max_vts\<rparr>) N S"
proof (rule qman_inv_advance [OF inv A])
  have "sorted_wrt (\<lambda>i j. due t i \<le> due t j) (S 0)"
    using inv by (simp add: qman_inv_def skiplist_inv_def)
  then show "\<forall>i\<in>set (S 0). rel_time (ts_virtual t) max_vts \<le> due t i"
    using assms(4) by (cases "S 0") (auto simp: timestamp_lessthaneq_due)
qed

definition skip_result :: "u32 \<Rightarrow> nat \<Rightarrow> qman_thread \<Rightarrow> polled \<Rightarrow> u32 list \<Rightarrow> polled \<Rightarrow> qman_thread \<Rightarrow> bool" where
  "skip_result max_vts num t out L out' t' \<longleftrightarrow>
    poll_frame t out' t' \<and> length out' \<le> num - length out \<and> ts_real t' = ts_real t \<and>
    0 \<le> rel_time (ts_virtual t') max_vts \<and> rel_time (ts_virtual t') max_vts < 1073741824 \<and>
    (length out' < num - length out \<longrightarrow> ts_virtual t' = max_vts) \<and>
    (\<forall>i. rate (queues t i) \<noteq> 0 \<longrightarrow> granted_time (rate (queues t i)) i out' \<le>
       time_budget (rel_time (ts_virtual t) max_vts) t L i)"

lemma skip_result_step:
  assumes "poll_frame t o1 t1" "ts_real t1 = ts_real t" "length (out @ o1) \<le> num"
    and "\<And>i. rate (queues t i) \<noteq> 0 \<Longrightarrow> granted_time (rate (queues t i)) i o1 +
       time_budget (rel_time (ts_virtual t1) max_vts) t1 L1 i \<le>
       time_budget (rel_time (ts_virtual t) max_vts) t L i"
    and "skip_result max_vts num t1 (out @ o1) L1 out' t'"
  shows "skip_result max_vts num t out L (o1 @ out') t'"
proof -
  have "granted_time (rate (queues t i)) i (o1 @ out') \<le> time_budget (rel_time (ts_virtual t) max_vts) t L i"
    if "rate (queues t i) \<noteq> 0" for i
  proof -
    have "rate (queues t1 i) = rate (queues t i)"
      using assms(1) by (simp add: poll_frame_def)
    then have "granted_time (rate (queues t i)) i out' \<le>
        time_budget (rel_time (ts_virtual t1) max_vts) t1 L1 i"
      using assms(5) that unfolding skip_result_def by metis
    with assms(4) [OF that] show ?thesis
      by (simp add: granted_time_def)
  qed
  moreover have "poll_frame t (o1 @ out') t'"
    using assms(1,5) poll_frame_append by (auto simp: skip_result_def)
  ultimately show ?thesis
    using assms(2,3,5) unfolding skip_result_def by (simp del: of_nat_diff) linarith
qed

lemma poll_skiplist_due:
  assumes inv: "qman_inv D t N S" and S: "S 0 = x # L" and num: "length out < num"
    and due: "due_by t max_vts x" and A: "rel_time (ts_virtual t) max_vts < 1073741824"
  obtains o1 t1 N1 S1 where
    "poll_skiplist_loop max_vts num out t = poll_skiplist_loop max_vts num (out @ o1) t1"
    "qman_inv D t1 N1 S1" "poll_frame t o1 t1" "ts_real t1 = ts_real t" "length (out @ o1) \<le> num"
    "num - length (out @ o1) + card (set (S1 0)) < num - length out + card (set (S 0))"
    "rel_time (ts_virtual t1) max_vts = rel_time (ts_virtual t) max_vts - due t x" "0 \<le> due t x"
    "\<And>i. rate (queues t i) \<noteq> 0 \<Longrightarrow> granted_time (rate (queues t i)) i o1 +
       time_budget (rel_time (ts_virtual t1) max_vts) t1 (S1 0) i \<le>
       time_budget (rel_time (ts_virtual t) max_vts) t (S 0) i"
proof (cases "avail (queues t x) > 0")
  case True
  show thesis
  proof (rule poll_skiplist_fire [OF inv S num due True A])
    fix b t1 N1 and S1 :: "nat \<Rightarrow> u32 list"
    assume "card (set (S1 0)) \<le> card (set (S 0))"
    then have "num - length (out @ [(x, b)]) + card (set (S1 0)) < num - length out + card (set (S 0))"
      using num by simp
    then show "\<lbrakk>poll_skiplist_loop max_vts num out t = poll_skiplist_loop max_vts num (out @ [(x, b)]) t1;
        qman_inv D t1 N1 S1; poll_frame t [(x, b)] t1; ts_real t1 = ts_real t;
        rel_time (ts_virtual t1) max_vts = rel_time (ts_virtual t) max_vts - due t x; 0 \<le> due t x;
        \<And>i. rate (queues t i) \<noteq> 0 \<Longrightarrow> granted_time (rate (queues t i)) i [(x, b)] +
          time_budget (rel_time (ts_virtual t1) max_vts) t1 (S1 0) i \<le>
          time_budget (rel_time (ts_virtual t) max_vts) t (S 0) i\<rbrakk> \<Longrightarrow> thesis"
      using num by (intro that [of "[(x, b)]" t1 N1 S1]) simp_all
  qed
next
  case False
  show thesis
    by (rule poll_skiplist_idle [OF inv S num due False A])
      (use num in \<open>auto intro!: that [of "[]"] simp: granted_time_def\<close>)
qed

lemma poll_skiplist_loop_inv:
  assumes "qman_inv D t N S"
    and "0 \<le> rel_time (ts_virtual t) max_vts" "rel_time (ts_virtual t) max_vts < 1073741824"
  shows "\<exists>out' t' N' S'. poll_skiplist_loop max_vts num out t = Some (Inr (out @ out', t')) \<and>
    qman_inv D t' N' S' \<and> skip_result max_vts num t out (S 0) out' t'"
  using assms
proof (induction "num - length out + card (set (S 0))" arbitrary: t out N S rule: less_induct)
  case less
  note inv = less.prems(1)
  have hd: "head_idx t 0 = (if S 0 = [] then IDXLIST_INVAL else hd (S 0))"
    using inv path_head [of IDXLIST_INVAL "level_next t 0" "head_idx t 0" "S 0"]
    by (simp add: qman_inv_def skiplist_inv_def)
  consider (full) "\<not> length out < num"
    | (beyond) "length out < num" "\<not> (S 0 \<noteq> [] \<and> due_by t max_vts (hd (S 0)))"
    | (due) x L where "length out < num" "S 0 = x # L" "due_by t max_vts x"
    by (cases "S 0") auto
  then show ?case
  proof cases
    case full
    then have "poll_skiplist_loop max_vts num out t = Some (Inr (out @ [], t))"
      by (subst poll_skiplist_loop_unfold) simp
    moreover have "skip_result max_vts num t out (S 0) [] t"
      using full less.prems time_budget_nonneg by (simp add: skip_result_def poll_frame_Nil granted_time_def)
    ultimately show ?thesis
      using inv by blast
  next
    case beyond
    let ?t = "t\<lparr>ts_virtual := max_vts\<rparr>"
    have "poll_skiplist_loop max_vts num out t = Some (Inr (out @ [], ?t))"
      using beyond hd by (subst poll_skiplist_loop_unfold) auto
    moreover have "qman_inv D ?t N S"
      using poll_beyond_inv [OF inv less.prems(2,3) beyond(2)] .
    moreover have "skip_result max_vts num t out (S 0) [] ?t"
      using time_budget_nonneg by (simp add: skip_result_def poll_frame_Nil granted_time_def qclock.rel_self)
    ultimately show ?thesis
      by blast
  next
    case (due x L)
    obtain o1 t1 N1 S1 where st:
        "poll_skiplist_loop max_vts num out t = poll_skiplist_loop max_vts num (out @ o1) t1"
        "qman_inv D t1 N1 S1" "poll_frame t o1 t1" "ts_real t1 = ts_real t" "length (out @ o1) \<le> num"
        "num - length (out @ o1) + card (set (S1 0)) < num - length out + card (set (S 0))"
        "rel_time (ts_virtual t1) max_vts = rel_time (ts_virtual t) max_vts - due t x" "0 \<le> due t x"
        and bud: "\<And>i. rate (queues t i) \<noteq> 0 \<Longrightarrow> granted_time (rate (queues t i)) i o1 +
           time_budget (rel_time (ts_virtual t1) max_vts) t1 (S1 0) i \<le>
           time_budget (rel_time (ts_virtual t) max_vts) t (S 0) i"
      by (rule poll_skiplist_due [OF inv due(2,1,3) less.prems(3)]) blast
    have "due t x \<le> rel_time (ts_virtual t) max_vts"
      using due(3) by (simp add: timestamp_lessthaneq_due)
    then obtain out' t' N' S' where IH:
        "poll_skiplist_loop max_vts num (out @ o1) t1 = Some (Inr ((out @ o1) @ out', t'))"
        "qman_inv D t' N' S'" "skip_result max_vts num t1 (out @ o1) (S1 0) out' t'"
      using less.hyps [OF st(6,2)] st(7,8) less.prems(3) by auto
    show ?thesis
      using st(1) IH(1,2) skip_result_step [OF st(3,4,5) bud IH(3)] by auto
  qed
qed

lemma rel_time_add:
  assumes "uint (d::u32) < 2147483648"
  shows "rel_time v (v + d) = uint d"
proof (rule qclock.rel_unique)
  show "\<bar>uint d\<bar> < 2147483648"
    using assms by simp
  have "uint (v + d) = (uint v + uint d) mod 4294967296"
    by (simp add: uint_word_ariths)
  then show "2 * 2147483648 dvd uint d - (uint (v + d) - uint v)"
    by (simp add: mod_eq_dvd_iff [symmetric] mod_simps)
qed

lemma poll_frame_ts: "poll_frame t out t' \<Longrightarrow> poll_frame t out (t'\<lparr>ts_virtual := v\<rparr>)"
  "poll_frame t out t' \<Longrightarrow> poll_frame t out (t'\<lparr>ts_real := r\<rparr>)"
  by (simp_all add: poll_frame_def)

lemma qman_inv_ts_real: "qman_inv D (t\<lparr>ts_real := v\<rparr>) N S = qman_inv D t N S"
  "qman_inv D (t\<lparr>nolimit_first := f\<rparr>) N S = qman_inv D t N S"
proof -
  have "level_next (t\<lparr>ts_real := v\<rparr>) = level_next t" "due (t\<lparr>ts_real := v\<rparr>) = due t"
    "level_next (t\<lparr>nolimit_first := f\<rparr>) = level_next t" "due (t\<lparr>nolimit_first := f\<rparr>) = due t"
    by (simp_all add: level_next_def due_def fun_eq_iff)
  then show "qman_inv D (t\<lparr>ts_real := v\<rparr>) N S = qman_inv D t N S"
    "qman_inv D (t\<lparr>nolimit_first := f\<rparr>) N S = qman_inv D t N S"
    by (simp_all add: qman_inv_def nolimit_inv_def skiplist_inv_def flags_inv_def rates_ok_def)
qed

lemma poll_skiplist_inv:
  assumes inv: "qman_inv D t N S" and el: "uint (cur_ts - ts_real t) < 1073741824"
  obtains out t' N' S' where "poll_skiplist t cur_ts num = Some (Inr (out, t'))" "qman_inv D t' N' S'"
    "poll_frame t out t'" "length out \<le> num" "ts_real t' = cur_ts"
    "\<And>i. rate (queues t i) \<noteq> 0 \<Longrightarrow>
       granted_time (rate (queues t i)) i out \<le> time_budget (uint (cur_ts - ts_real t)) t (S 0) i"
proof -
  define max_vts where "max_vts = ts_virtual t + (cur_ts - ts_real t)"
  have A: "rel_time (ts_virtual t) max_vts = uint (cur_ts - ts_real t)"
    unfolding max_vts_def using el by (intro rel_time_add) simp
  obtain out t1 N1 S1 where l: "poll_skiplist_loop max_vts num [] t = Some (Inr (out, t1))"
    "qman_inv D t1 N1 S1" and r: "skip_result max_vts num t [] (S 0) out t1"
    using poll_skiplist_loop_inv [OF inv, of max_vts num "[]"] el by (auto simp: A)
  define t2 where "t2 = (if length out = num then
      let idx = head_idx t1 0 in
      if idx \<noteq> IDXLIST_INVAL \<and> timestamp_lessthaneq t1 (next_ts (queues t1 idx)) max_vts
      then t1\<lparr>ts_virtual := next_ts (queues t1 idx)\<rparr> else t1\<lparr>ts_virtual := max_vts\<rparr> else t1)"
  have hd: "head_idx t1 0 = (if S1 0 = [] then IDXLIST_INVAL else hd (S1 0))"
    using l(2) path_head [of IDXLIST_INVAL "level_next t1 0" "head_idx t1 0" "S1 0"]
    by (simp add: qman_inv_def skiplist_inv_def)
  have b: "0 \<le> rel_time (ts_virtual t1) max_vts" "rel_time (ts_virtual t1) max_vts < 1073741824"
    using r by (simp_all add: skip_result_def)
  have "qman_inv D t2 N1 S1"
  proof (cases "S1 0 \<noteq> [] \<and> due_by t1 max_vts (hd (S1 0))")
    case True
    then obtain x L where S1: "S1 0 = x # L" by (cases "S1 0") auto
    have x: "0 \<le> due t1 x" "due t1 x \<le> D" "\<forall>i\<in>set (S1 0). due t1 x \<le> due t1 i" "D < 1073741824"
      using l(2) S1 by (auto simp: qman_inv_def skiplist_inv_def rates_ok_def)
    have "qman_inv D (t1\<lparr>ts_virtual := next_ts (queues t1 x)\<rparr>) N1 S1"
      using x by (intro qman_inv_advance [OF l(2)]) (simp_all flip: due_def)
    moreover have "x \<noteq> IDXLIST_INVAL"
      using l(2) S1 by (auto simp: qman_inv_def flags_inv_def)
    ultimately show ?thesis
      using True l(2) S1 hd by (simp add: t2_def due_by_def Let_def)
  next
    case False
    then show ?thesis
      using poll_beyond_inv [OF l(2) b False] l(2) hd by (auto simp: t2_def due_by_def Let_def)
  qed
  moreover have "poll_skiplist t cur_ts num = Some (Inr (out, t2\<lparr>ts_real := cur_ts\<rparr>))"
    unfolding poll_skiplist_def Let_def max_vts_def [symmetric] l(1) by (simp add: t2_def Let_def)
  moreover have "poll_frame t out (t2\<lparr>ts_real := cur_ts\<rparr>)"
    using r by (auto simp: t2_def skip_result_def Let_def intro: poll_frame_ts)
  ultimately show thesis
    using r by (intro that [of out _ N1 S1]) (auto simp: qman_inv_ts_real skip_result_def A)
qed

lemma qman_poll_inv:
  assumes inv: "qman_inv D t N S" and el: "uint (ts - ts_real t) < 1073741824"
  obtains out t' N' S' where "qman_poll t ts num = Some (Inr (out, t'))" "qman_inv D t' N' S'"
    "poll_frame (t\<lparr>nolimit_first := \<not> nolimit_first t\<rparr>) out t'" "length out \<le> num" "ts_real t' = ts"
proof (cases "nolimit_first t")
  case True
  obtain x t1 N1 S1 where x: "poll_nolimit t ts num = Some (Inr (x, t1))" "qman_inv D t1 N1 S1"
    "poll_frame t x t1" "length x \<le> num" "ts_real t1 = ts_real t"
    using poll_nolimit_loop_inv [OF inv, of num "[]"] by (auto simp: poll_nolimit_def)
  obtain y t2 N2 S2 where y: "poll_skiplist t1 ts (num - length x) = Some (Inr (y, t2))" "qman_inv D t2 N2 S2"
    "poll_frame t1 y t2" "length y \<le> num - length x" "ts_real t2 = ts"
    by (rule poll_skiplist_inv [OF x(2), of ts "num - length x"]) (use el x(5) in auto)
  show thesis
    using True x y poll_frame_append [OF x(3) y(3)]
    by (intro that [of "x @ y" "t2\<lparr>nolimit_first := \<not> nolimit_first t2\<rparr>" N2 S2])
      (auto simp: qman_poll_def qman_inv_ts_real poll_frame_def)
next
  case False
  obtain x t1 N1 S1 where x: "poll_skiplist t ts num = Some (Inr (x, t1))" "qman_inv D t1 N1 S1"
    "poll_frame t x t1" "length x \<le> num" "ts_real t1 = ts"
    by (rule poll_skiplist_inv [OF inv el, of num]) auto
  obtain y t2 N2 S2 where y: "poll_nolimit t1 ts (num - length x) = Some (Inr (y, t2))" "qman_inv D t2 N2 S2"
    "poll_frame t1 y t2" "length y \<le> num - length x" "ts_real t2 = ts_real t1"
    using poll_nolimit_loop_inv [OF x(2), of "num - length x" "[]"] by (auto simp: poll_nolimit_def)
  show thesis
    using False x y poll_frame_append [OF x(3) y(3)]
    by (intro that [of "x @ y" "t2\<lparr>nolimit_first := \<not> nolimit_first t2\<rparr>" N2 S2])
      (auto simp: qman_poll_def qman_inv_ts_real poll_frame_def)
qed

section \<open>Setting queue parameters\<close>

text \<open>The queue that \<^verbatim>\<open>set_impl\<close> leaves, before it is activated.\<close>

definition set_queue :: "queue \<Rightarrow> u32 \<Rightarrow> u32 \<Rightarrow> u16 \<Rightarrow> u8 \<Rightarrow> queue" where
  "set_queue q r a chunk flags = q\<lparr>
     rate := if flags AND QMAN_SET_RATE \<noteq> 0 then r else rate q,
     max_chunk := if flags AND QMAN_SET_MAXCHUNK \<noteq> 0 then chunk else max_chunk q,
     avail := if flags AND QMAN_SET_AVAIL \<noteq> 0 then a
              else if flags AND QMAN_ADD_AVAIL \<noteq> 0 then avail q + a else avail q\<rparr>"

lemma set_impl_unfold:
  "set_impl t idx r a chunk flags =
    (let q = set_queue (queues t idx) r a chunk flags; t' = upd_queue t idx (\<lambda>_. q) in
     if (flags AND QMAN_SET_AVAIL \<noteq> 0 \<or> flags AND QMAN_ADD_AVAIL \<noteq> 0) \<and> avail q > 0 \<and>
        qflags q AND (FLAG_INSKIPLIST OR FLAG_INNOLIMITL) = 0
     then queue_activate t' idx else Some (Inr t'))"
  by (cases "flags AND QMAN_SET_RATE = 0"; cases "flags AND QMAN_SET_MAXCHUNK = 0";
      cases "flags AND QMAN_SET_AVAIL = 0"; cases "flags AND QMAN_ADD_AVAIL = 0")
    (simp_all add: set_impl_def set_queue_def Let_def)

text \<open>The rate and chunk given to a queue let it send a chunk within the horizon \<open>D\<close>.\<close>

definition set_ok :: "int \<Rightarrow> qman_thread \<Rightarrow> u32 \<Rightarrow> u32 \<Rightarrow> u16 \<Rightarrow> u8 \<Rightarrow> bool" where
  "set_ok D t qid r chunk flags \<longleftrightarrow>
     (let q = set_queue (queues t qid) r 0 chunk flags in rate q \<noteq> 0 \<longrightarrow> chunk_time q \<le> D)"

lemma qman_set_inv:
  assumes inv: "qman_inv D t N S" and ok: "set_ok D t qid r chunk flags" and qid: "qid < FLEXNIC_NUM_QMQUEUES"
  obtains t' N' S' where "qman_set t qid r a chunk flags = Some (Inr (Some t'))" "qman_inv D t' N' S'"
    "\<And>i. (rate (queues t' i), max_chunk (queues t' i), avail (queues t' i)) =
       (let q = (if i = qid then set_queue (queues t qid) r a chunk flags else queues t i)
        in (rate q, max_chunk q, avail q))"
    "ts_virtual t' = ts_virtual t" "ts_real t' = ts_real t" "nolimit_first t' = nolimit_first t"
proof -
  define q where "q = set_queue (queues t qid) r a chunk flags"
  define t1 where "t1 = upd_queue t qid (\<lambda>_. q)"
  have inv1: "qman_inv D t1 N S"
    unfolding t1_def using ok
    by (intro qman_inv_upd_work [OF inv]) (auto simp: q_def set_queue_def set_ok_def Let_def chunk_time_def)
  have fl: "qflags q AND (FLAG_INSKIPLIST OR FLAG_INNOLIMITL) = 0 \<longleftrightarrow> qid \<notin> set N \<union> set (S 0)"
    using flags_inv_inactive [of t1 N "S 0" qid] inv1 by (simp add: qman_inv_def t1_def)
  have vals: "(rate (queues t1 i), max_chunk (queues t1 i), avail (queues t1 i)) =
       (let q = (if i = qid then set_queue (queues t qid) r a chunk flags else queues t i)
        in (rate q, max_chunk q, avail q))" "ts_virtual t1 = ts_virtual t" "ts_real t1 = ts_real t"
      "nolimit_first t1 = nolimit_first t" for i
    by (simp_all add: t1_def q_def Let_def)
  have run: "qman_set t qid r a chunk flags = map_option (map_sum (\<lambda>e. e) Some)
     (if (flags AND QMAN_SET_AVAIL \<noteq> 0 \<or> flags AND QMAN_ADD_AVAIL \<noteq> 0) \<and> avail q > 0 \<and>
        qid \<notin> set N \<union> set (S 0) then queue_activate t1 qid else Some (Inr t1))"
    using qid by (simp only: qman_set_def set_impl_unfold Let_def q_def [symmetric] t1_def [symmetric] fl
      linorder_not_less [symmetric] not_True_eq_False if_False)
  show thesis
  proof (cases "(flags AND QMAN_SET_AVAIL \<noteq> 0 \<or> flags AND QMAN_ADD_AVAIL \<noteq> 0) \<and> avail q > 0 \<and>
        qid \<notin> set N \<union> set (S 0)")
    case True
    then have q: "qid \<notin> set N \<union> set (S 0)" by blast
    obtain t' N' S' where
      act: "queue_activate t1 qid = Some (Inr t')" "qman_inv D t' N' S'" "same_work t1 t'"
      by (rule queue_activate_inv [OF inv1 q qid])
    with True run vals show thesis
      by (intro that [of t' N' S']) (simp_all add: same_work_def)
  next
    case False
    show thesis
      using run [unfolded if_not_P [OF False]] inv1 vals by (intro that [of t1 N S]) simp_all
  qed
qed

lemma qman_init_inv:
  assumes "qman_thread_init ok ctx_id ts first = Some t" "0 \<le> D" "D < 1073741824"
  shows "qman_inv D t [] (\<lambda>_. [])"
  using assms
  by (auto simp: qman_thread_init_def qman_inv_def nolimit_inv_def skiplist_inv_def flags_inv_def
      rates_ok_def queue_zero_def split: if_splits)

section \<open>Reachable states and the properties\<close>

text \<open>
  The states of a queue manager whose polls are less than \<open>2^30\<close> ns apart and whose queues
  can send a chunk within \<open>D\<close> ns at their rate.
\<close>

inductive qman_reach :: "int \<Rightarrow> qman_thread \<Rightarrow> bool" for D where
  init: "qman_thread_init ok ctx_id ts first = Some t \<Longrightarrow> qman_reach D t"
| set: "qman_reach D t \<Longrightarrow> set_ok D t qid r chunk flags \<Longrightarrow>
    qman_set t qid r a chunk flags = Some (Inr (Some t')) \<Longrightarrow> qman_reach D t'"
| poll: "qman_reach D t \<Longrightarrow> uint (ts - ts_real t) < 1073741824 \<Longrightarrow>
    qman_poll t ts num = Some (Inr (out, t')) \<Longrightarrow> qman_reach D t'"

lemma qman_reach_inv:
  assumes "qman_reach D t" "0 \<le> D" "D < 1073741824"
  shows "\<exists>N S. qman_inv D t N S"
  using assms(1)
proof induction
  case (init ok ctx_id ts first t)
  with assms show ?case using qman_init_inv by blast
next
  case (set t qid r chunk flags a t')
  then obtain N S where inv: "qman_inv D t N S" by blast
  from set(3) have "qid < FLEXNIC_NUM_QMQUEUES"
    by (auto simp: qman_set_def not_le split: if_splits)
  from qman_set_inv [OF inv set(2) this, of a] set(3) show ?case by fastforce
next
  case (poll t ts num out t')
  then obtain N S where inv: "qman_inv D t N S" by blast
  from qman_poll_inv [OF inv poll(2), of num] poll(3) show ?case by fastforce
qed


text \<open>Concrete states for the witnesses: one queue with 3000 bytes at rate \<open>r\<close>, two unlimited queues.\<close>

definition qman_demo0 :: qman_thread where
  "qman_demo0 = the (qman_thread_init True 0 0 True)"

definition qman_demo :: "u32 \<Rightarrow> qman_thread" where
  "qman_demo r = (case qman_set qman_demo0 7 r 3000 1448 11 of Some (Inr (Some t)) \<Rightarrow> t | _ \<Rightarrow> qman_demo0)"

definition qman_demo2 :: qman_thread where
  "qman_demo2 = qman_demo0\<lparr>
     queues := (\<lambda>_. queue_zero)
       (7 := queue_zero\<lparr>next_idxs := (\<lambda>_. 9), avail := 3000, max_chunk := 1448, qflags := FLAG_INNOLIMITL\<rparr>,
        9 := queue_zero\<lparr>next_idxs := (\<lambda>_. IDXLIST_INVAL), avail := 10, max_chunk := 1448, qflags := FLAG_INNOLIMITL\<rparr>),
     nolimit_head_idx := 7, nolimit_tail_idx := 9\<rparr>"

lemma qman_demo_reach:
  "qman_reach 100000 (qman_demo 1000000)" "rate (queues (qman_demo 1000000) 7) = 1000000"
  "ts_real (qman_demo 1000000) = 0" "avail (queues (qman_demo 1000000) 7) = 3000"
proof -
  have r0: "qman_thread_init True 0 0 True = Some qman_demo0"
    by (simp add: qman_demo0_def qman_thread_init_def)
  have inv: "qman_inv 100000 qman_demo0 [] (\<lambda>_. [])"
    by (rule qman_init_inv [OF r0]) simp_all
  have q0: "queues qman_demo0 = (\<lambda>_. queue_zero)" "ts_real qman_demo0 = 0"
    by (simp_all add: qman_demo0_def qman_thread_init_def)
  have ok: "set_ok 100000 qman_demo0 7 1000000 1448 11"
    by (simp add: set_ok_def set_queue_def q0 chunk_time_def)
  obtain t' where t': "qman_set qman_demo0 7 1000000 3000 1448 11 = Some (Inr (Some t'))"
    and vals: "\<And>i. (rate (queues t' i), max_chunk (queues t' i), avail (queues t' i)) =
       (let q = (if i = 7 then set_queue (queues qman_demo0 7) 1000000 3000 1448 11 else queues qman_demo0 i)
        in (rate q, max_chunk q, avail q))" and ts: "ts_real t' = ts_real qman_demo0"
    by (rule qman_set_inv [OF inv ok, of 3000]) auto
  have "qman_demo 1000000 = t'"
    by (simp add: qman_demo_def t')
  moreover have "qman_reach 100000 t'"
    by (rule qman_reach.set [OF qman_reach.init [OF r0] ok t'])
  ultimately show "qman_reach 100000 (qman_demo 1000000)" "rate (queues (qman_demo 1000000) 7) = 1000000"
    "ts_real (qman_demo 1000000) = 0" "avail (queues (qman_demo 1000000) 7) = 3000"
    using vals [of 7] ts q0 by (simp_all add: set_queue_def)
qed

lemma qman_demo2_inv: "qman_inv 0 qman_demo2 [7, 9] (\<lambda>_. [])"
  by (simp add: qman_demo2_def qman_demo0_def qman_thread_init_def qman_inv_def nolimit_inv_def
      skiplist_inv_def flags_inv_def rates_ok_def level_next_def queue_zero_def)

text \<open>
  C34: In every state the queue manager reaches when polls are less than \<open>2^30\<close> ns apart and a chunk of each queue takes at
  most \<open>D < 2^30\<close> ns at its rate, the no-limit list and the four levels of
  the skip list are well linked and without duplicates, each level is a subsequence of the
  one below, the bottom level is sorted by the time its queues are due, and the flags of a
  queue tell exactly which list it is in.  The clock of the program can break the condition: it jumps when its 64-bit
  product wraps.
\<close>

theorem qman_reachable_inv:
  assumes "qman_reach D t" and "0 \<le> D" and "D < 1073741824"
  shows "\<exists>N S. qman_inv D t N S"
  using qman_reach_inv [OF assms] .

theorem qman_reachable_inv_witness:
  "qman_reach 100000 (qman_demo 1000000) \<and> (\<exists>N S. qman_inv 100000 (qman_demo 1000000) N S)"
  using qman_reachable_inv [OF qman_demo_reach(1)] qman_demo_reach(1) by simp

text \<open>
  C36: In a state the queue manager reaches as in the invariant above, a poll less than \<open>2^30\<close> ns after
  the last returns: no assertion fails and no list walk runs forever.  It hands out
  at most as many queues as asked for, never more than a queue's chunk size at once, and every
  byte it hands out is taken from that queue's available bytes exactly once.
\<close>

theorem qman_poll_conserves:
  assumes "qman_reach D t" and "0 \<le> D" and "D < 1073741824" and "uint (ts - ts_real t) < 1073741824"
  shows "\<exists>out t'. qman_poll t ts num = Some (Inr (out, t')) \<and> length out \<le> num \<and>
    (\<forall>i. unat (avail (queues t' i)) + granted i out = unat (avail (queues t i))) \<and>
    (\<forall>(i, b)\<in>set out. i < FLEXNIC_NUM_QMQUEUES \<and> unat b \<le> unat (max_chunk (queues t i)))"
proof -
  obtain N S where inv: "qman_inv D t N S"
    using qman_reach_inv [OF assms(1-3)] by blast
  obtain out t' where "qman_poll t ts num = Some (Inr (out, t'))" "length out \<le> num"
    "poll_frame (t\<lparr>nolimit_first := \<not> nolimit_first t\<rparr>) out t'"
    by (rule qman_poll_inv [OF inv assms(4)])
  then show ?thesis
    by (auto simp: poll_frame_def)
qed

theorem qman_poll_conserves_witness:
  "avail (queues (qman_demo 1000000) 7) = 3000 \<and>
   (\<exists>out t'. qman_poll (qman_demo 1000000) 5000 4 = Some (Inr (out, t')) \<and>
      unat (avail (queues t' 7)) + granted 7 out = 3000)"
proof -
  have "uint (5000 - ts_real (qman_demo 1000000)) < 1073741824"
    by (simp add: qman_demo_reach(3))
  from qman_poll_conserves [OF qman_demo_reach(1) _ _ this, of 4] obtain out t' where
    "qman_poll (qman_demo 1000000) 5000 4 = Some (Inr (out, t'))"
    "unat (avail (queues t' 7)) + granted 7 out = unat (avail (queues (qman_demo 1000000) 7))"
    by auto
  then show ?thesis
    by (auto simp: qman_demo_reach(4))
qed

text \<open>
  Setting the parameters of a valid queue always returns, changes exactly the parameters
  the flags select, of that queue only; an invalid queue id is refused.
\<close>

theorem qman_set_spec:
  assumes "qman_reach D t" and "0 \<le> D" and "D < 1073741824" and "set_ok D t qid r chunk flags"
  shows "if qid < FLEXNIC_NUM_QMQUEUES
    then \<exists>t'. qman_set t qid r a chunk flags = Some (Inr (Some t')) \<and>
      (\<forall>i. rate (queues t' i) = (if i = qid \<and> flags AND QMAN_SET_RATE \<noteq> 0 then r else rate (queues t i)) \<and>
         max_chunk (queues t' i) =
           (if i = qid \<and> flags AND QMAN_SET_MAXCHUNK \<noteq> 0 then chunk else max_chunk (queues t i)) \<and>
         avail (queues t' i) =
           (if i \<noteq> qid then avail (queues t i) else if flags AND QMAN_SET_AVAIL \<noteq> 0 then a
            else if flags AND QMAN_ADD_AVAIL \<noteq> 0 then avail (queues t i) + a else avail (queues t i)))
    else qman_set t qid r a chunk flags = Some (Inr None)"
proof (cases "qid < FLEXNIC_NUM_QMQUEUES")
  case True
  obtain N S where inv: "qman_inv D t N S"
    using qman_reach_inv [OF assms(1-3)] by blast
  obtain t' where t': "qman_set t qid r a chunk flags = Some (Inr (Some t'))"
    and vals: "\<And>i. (rate (queues t' i), max_chunk (queues t' i), avail (queues t' i)) =
       (let q = (if i = qid then set_queue (queues t qid) r a chunk flags else queues t i)
        in (rate q, max_chunk q, avail q))"
    by (rule qman_set_inv [OF inv assms(4) True, of a]) blast
  have "rate (queues t' i) = (if i = qid \<and> flags AND QMAN_SET_RATE \<noteq> 0 then r else rate (queues t i))"
    "max_chunk (queues t' i) =
       (if i = qid \<and> flags AND QMAN_SET_MAXCHUNK \<noteq> 0 then chunk else max_chunk (queues t i))"
    "avail (queues t' i) = (if i \<noteq> qid then avail (queues t i) else if flags AND QMAN_SET_AVAIL \<noteq> 0 then a
       else if flags AND QMAN_ADD_AVAIL \<noteq> 0 then avail (queues t i) + a else avail (queues t i))" for i
    using vals [of i] by (simp_all add: Let_def set_queue_def split: if_splits)
  with t' True show ?thesis
    by auto
qed (simp add: qman_set_def linorder_not_less)

theorem qman_set_spec_witness:
  "set_ok 100000 (qman_demo 1000000) 7 0 0 16 \<and>
   (\<exists>t'. qman_set (qman_demo 1000000) 7 0 500 0 16 = Some (Inr (Some t')) \<and> avail (queues t' 7) = 3500)"
proof -
  obtain N S where "qman_inv 100000 (qman_demo 1000000) N S"
    using qman_reach_inv [OF qman_demo_reach(1)] by auto
  then have ok: "set_ok 100000 (qman_demo 1000000) 7 0 0 16"
    by (simp add: set_ok_def set_queue_def Let_def qman_inv_def rates_ok_def chunk_time_def)
  from qman_set_spec [OF qman_demo_reach(1) _ _ this, of 500] obtain t' where
    t': "qman_set (qman_demo 1000000) 7 0 500 0 16 = Some (Inr (Some t'))"
    "avail (queues t' 7) = avail (queues (qman_demo 1000000) 7) + 500"
    by auto
  have "avail (queues t' 7) = 3500"
    by (simp add: t'(2) qman_demo_reach(4))
  with ok t'(1) show ?thesis by blast
qed

text \<open>
  C35: The skip list enforces the rates, as long as polls are less than \<open>2^30\<close> ns apart: in one poll, a queue with a rate gets at most the
  sending time that has passed since the last poll, less the time until it was due, plus the
  time of one chunk; a queue that is not due gets nothing.
\<close>

theorem poll_skiplist_rate_limit:
  assumes "qman_reach D t" and "0 \<le> D" and "D < 1073741824" and "uint (ts - ts_real t) < 1073741824"
    and "rate (queues t i) \<noteq> 0"
  shows "\<exists>out t'. poll_skiplist t ts num = Some (Inr (out, t')) \<and>
    granted_time (rate (queues t i)) i out \<le>
      (if qflags (queues t i) AND FLAG_INSKIPLIST \<noteq> 0 \<and> due t i \<le> uint (ts - ts_real t)
       then uint (ts - ts_real t) - due t i + chunk_time (queues t i) else 0)"
proof -
  obtain N S where inv: "qman_inv D t N S"
    using qman_reach_inv [OF assms(1-3)] by blast
  have fl: "qflags (queues t i) AND FLAG_INSKIPLIST \<noteq> 0 \<longleftrightarrow> i \<in> set (S 0)"
    using inv by (simp add: qman_inv_def flags_inv_def)
  obtain out t' where "poll_skiplist t ts num = Some (Inr (out, t'))"
    and bud: "\<And>i. rate (queues t i) \<noteq> 0 \<Longrightarrow>
       granted_time (rate (queues t i)) i out \<le> time_budget (uint (ts - ts_real t)) t (S 0) i"
    by (rule poll_skiplist_inv [OF inv assms(4), of num]) blast
  with bud [OF assms(5)] show ?thesis
    unfolding fl time_budget_def by blast
qed

theorem poll_skiplist_rate_limit_witness:
  "rate (queues (qman_demo 1000000) 7) \<noteq> 0 \<and>
   (\<exists>out t'. poll_skiplist (qman_demo 1000000) 5000 4 = Some (Inr (out, t')) \<and>
      granted_time 1000000 7 out \<le>
        (if qflags (queues (qman_demo 1000000) 7) AND FLAG_INSKIPLIST \<noteq> 0 \<and> due (qman_demo 1000000) 7 \<le> 5000
         then 5000 - due (qman_demo 1000000) 7 + chunk_time (queues (qman_demo 1000000) 7) else 0))"
proof -
  have u: "uint (5000 - ts_real (qman_demo 1000000)) = 5000"
    by (simp add: qman_demo_reach)
  have h: "(0::int) \<le> 100000" "(100000::int) < 1073741824"
    "uint (5000 - ts_real (qman_demo 1000000)) < 1073741824" "rate (queues (qman_demo 1000000) 7) \<noteq> 0"
    by (simp_all add: qman_demo_reach)
  show ?thesis
    using poll_skiplist_rate_limit [OF qman_demo_reach(1) h, of 4, unfolded u] h(4)
    by (simp only: qman_demo_reach(2)) blast
qed

text \<open>
  The no-limit list is served round robin: when all its queues have bytes to send, a poll
  for at most as many queues as it holds serves a prefix of it in order.
\<close>

theorem poll_nolimit_round_robin:
  assumes "qman_inv D t N S" and "\<forall>i\<in>set N. avail (queues t i) > 0" and "num \<le> length N"
  shows "\<exists>out t'. poll_nolimit t ts num = Some (Inr (out, t')) \<and> map fst out = take num N"
proof -
  obtain out t' where l: "poll_nolimit_loop num [] t = Some (Inr (out, t'))" "length out \<le> num"
    "take (length N) (map fst out) = take num N"
    using poll_nolimit_loop_inv [OF assms(1), of num "[]"] assms(2) by auto
  with assms(3) have "map fst out = take num N"
    by simp
  with l show ?thesis
    by (auto simp: poll_nolimit_def)
qed

theorem poll_nolimit_round_robin_witness:
  "\<exists>out t'. poll_nolimit qman_demo2 0 2 = Some (Inr (out, t')) \<and> map fst out = [7, 9]"
proof -
  have "\<forall>i\<in>set [7, 9]. avail (queues qman_demo2 i) > 0"
    by (simp add: qman_demo2_def)
  from poll_nolimit_round_robin [OF qman_demo2_inv this, of 2 0] show ?thesis
    by simp
qed

text \<open>
  The clock of the queue manager multiplies the cycle counter by \<open>10^9\<close> in 64 bits, so
  after \<open>2^64 / 10^9\<close> cycles (9.2 s at 2 GHz) it jumps back to 0 in the middle of its range:
  the next poll sees 3.66 s pass within one cycle.
\<close>

theorem timestamp_jump:
  "timestamp 18446744073 2000000000 = 633437444 \<and> timestamp 18446744074 2000000000 = 0 \<and>
   timestamp 18446744074 2000000000 - timestamp 18446744073 2000000000 = 3661529852"
  by (simp add: timestamp_def)

end
