(* ===== verification/Dma.thy ===== *)
theory Dma
  imports Tas_Prelude
begin

text \<open>
  Access to the shared packet memory, \<^verbatim>\<open>tas/fast/dma.h\<close>.  The memory and the buffers the
  code copies from and to are functions from addresses, or offsets, to bytes; every access
  checks that its range lies in the shared memory and fails the assertion otherwise.
\<close>

section \<open>Model\<close>

type_synonym mem = "u64 \<Rightarrow> u8"
type_synonym buf = "nat \<Rightarrow> u8"

definition dma_ok :: "u64 \<Rightarrow> u64 \<Rightarrow> u64 \<Rightarrow> bool" where
  "dma_ok shm_len addr len \<longleftrightarrow> addr + len \<ge> addr \<and> addr + len \<le> shm_len"

text \<open>\<^verbatim>\<open>off\<close> is where in the buffer the copied bytes start.\<close>

definition dma_read :: "u64 \<Rightarrow> mem \<Rightarrow> u64 \<Rightarrow> u64 \<Rightarrow> buf \<Rightarrow> nat \<Rightarrow> buf result" where
  "dma_read shm_len m addr len buf off =
    (if dma_ok shm_len addr len
     then Inr (\<lambda>i. if off \<le> i \<and> i < off + unat len then m (addr + of_nat (i - off)) else buf i)
     else Inl Assert_Failed)"

definition dma_write :: "u64 \<Rightarrow> mem \<Rightarrow> u64 \<Rightarrow> u64 \<Rightarrow> buf \<Rightarrow> nat \<Rightarrow> mem result" where
  "dma_write shm_len m addr len buf off =
    (if dma_ok shm_len addr len
     then Inr (\<lambda>a. if unat (a - addr) < unat len then buf (off + unat (a - addr)) else m a)
     else Inl Assert_Failed)"

definition dma_pointer :: "u64 \<Rightarrow> u64 \<Rightarrow> u64 \<Rightarrow> u64 result" where
  "dma_pointer shm_len addr len = (if dma_ok shm_len addr len then Inr addr else Inl Assert_Failed)"

section \<open>Circular buffers in the shared memory\<close>

text \<open>
  Reading and writing a circular buffer of \<open>len\<close> bytes at \<open>base\<close> in at most two pieces, the
  way the flow code does it; the address of the byte \<open>i\<close> after position \<open>pos\<close>.
\<close>

definition ring_addr :: "u64 \<Rightarrow> nat \<Rightarrow> nat \<Rightarrow> nat \<Rightarrow> u64" where
  "ring_addr base len pos i = base + of_nat ((pos + i) mod len)"

lemma dma_ok_nat:
  "dma_ok shm_len addr len \<longleftrightarrow> unat addr + unat len < 18446744073709551616 \<and>
     unat addr + unat len \<le> unat shm_len \<or> len = 0 \<and> addr \<le> shm_len"
  using unat_u64_bound [of addr] unat_u64_bound [of len] unat_u64_bound [of shm_len]
  by (auto simp: dma_ok_def u64_arith)

text \<open>Addresses inside a range below \<open>2^64\<close>.\<close>

lemma unat_addr_diff:
  assumes "unat (base::u64) + n < 18446744073709551616" "i \<le> n"
  shows "unat (base + of_nat i) = unat base + i"
  using assms by (simp add: unat_word_ariths unat_of_nat)

lemma add_mod_inj_nat:
  assumes "((p::nat) + i) mod n = (p + j) mod n" "i < n" "j < n"
  shows "i = j"
proof -
  have eq: "a = b" if "a \<le> b" "(p + a) mod n = (p + b) mod n" "b < n" for a b
  proof -
    have "n dvd (p + b) - (p + a)"
      using that by (subst mod_eq_dvd_iff_nat [symmetric]) auto
    with that show ?thesis
      using nat_dvd_not_less [of "b - a" n] by fastforce
  qed
  show ?thesis
    using assms eq [of i j] eq [of j i] by (cases "i \<le> j") auto
qed

lemma unat_ring_addr:
  assumes "unat base + len < 18446744073709551616" "0 < len"
  shows "unat (ring_addr base len pos i) = unat base + (pos + i) mod len"
  unfolding ring_addr_def using assms by (intro unat_addr_diff) (auto intro: less_imp_le)

lemma ring_addr_inj:
  assumes "unat base + len < 18446744073709551616" "i < len" "j < len"
    and "ring_addr base len pos i = ring_addr base len pos j"
  shows "i = j"
proof -
  have "(pos + i) mod len = (pos + j) mod len"
    using unat_ring_addr [OF assms(1), of pos i] unat_ring_addr [OF assms(1), of pos j] assms(2,4) by simp
  with assms(2,3) show ?thesis
    using add_mod_inj_nat by blast
qed

end
