(* ===== verification/Fast_Ctx.thy ===== *)
theory Fast_Ctx
  imports Tcp_Common Qman_Poll Dma
begin

text \<open>
  The state a fast path core works on and its small helpers: network buffers and checksums
  (\<^verbatim>\<open>tas/fast/network.h\<close>), the transmit buffer and the cache of application notifications
  (\<^verbatim>\<open>tas/fast/fastemu.h\<close>).  Code of DPDK is a field of the environment \<open>fp_env\<close>: the
  checksum functions, the hash instructions, the forwarding ring and the notification of
  another core.  The flow locks make the operations on one flow atomic, so they are steps
  of one core on the shared state.
\<close>

unbundle bit_operations_syntax

abbreviation (input) BATCH_SIZE :: nat where "BATCH_SIZE \<equiv> 16"
abbreviation (input) TXBUF_SIZE :: nat where "TXBUF_SIZE \<equiv> 32"

text \<open>Flow lookup table entry.\<close>

record flextcp_pl_flowhte =
  hte_flow_id :: u32
  hte_flow_hash :: u32

text \<open>
  A network buffer: offset and length of its data, the packet that starts there, and the
  transmit offload fields of the mbuf.
\<close>

record nbuf =
  nb_off :: u16
  nb_len :: u16
  nb_pkt :: pkt_tcp
  nb_tx_offload :: u64
  nb_ol_flags :: u64

record fp_env =
  shm_len :: u64
  fp_xsumoffload :: bool
  eth_addr :: "u8 list"
  tx_cksum_flags :: u64
  ipv4_cksum :: "ip_hdr \<Rightarrow> u16"
  ipv4_udptcp_cksum :: "ip_hdr \<Rightarrow> pkt_tcp \<Rightarrow> u16"
  crc32c_u32 :: "u32 \<Rightarrow> u32 \<Rightarrow> u32"
  crc32c_u64 :: "u64 \<Rightarrow> u32 \<Rightarrow> u32"
  ring_enqueue :: "u32 list \<Rightarrow> u32 \<Rightarrow> u32 list option"

text \<open>
  The state: the internal memory shared by all cores, the shared packet memory, the
  forwarding rings (of flow numbers instead of pointers), the cores notified so far; then
  the fields of this core's \<^verbatim>\<open>struct dataplane_context\<close>.
\<close>

record fastpath =
  flowst :: "u32 \<Rightarrow> flextcp_pl_flowst"
  flowht :: "u32 \<Rightarrow> flextcp_pl_flowhte"
  flow_group_steering :: "u16 \<Rightarrow> u8"
  fp_shm :: mem
  qman_fwd_ring :: "u16 \<Rightarrow> u32 list"
  notified :: "u16 list"
  core_id :: u16
  qman :: qman_thread
  arx_cache :: "(u16 \<times> flextcp_pl_arx) list"
  tx_handles :: "nbuf list"

definition upd_flow :: "fastpath \<Rightarrow> u32 \<Rightarrow> flextcp_pl_flowst \<Rightarrow> fastpath" where
  "upd_flow st fid fs = st\<lparr>flowst := (flowst st)(fid := fs)\<rparr>"

section \<open>Big-endian fields of packet memory\<close>

definition get_beui32 :: "buf \<Rightarrow> nat \<Rightarrow> beui32" where
  "get_beui32 b k = Beui32 (ucast (b k) OR push_bit 8 (ucast (b (k + 1))) OR
     push_bit 16 (ucast (b (k + 2))) OR push_bit 24 (ucast (b (k + 3))))"

definition put_beui32 :: "buf \<Rightarrow> nat \<Rightarrow> beui32 \<Rightarrow> buf" where
  "put_beui32 b k v =
     b(k := ucast (beui32_x v), k + 1 := ucast (drop_bit 8 (beui32_x v)),
       k + 2 := ucast (drop_bit 16 (beui32_x v)), k + 3 := ucast (drop_bit 24 (beui32_x v)))"

section \<open>Checksums\<close>

definition network_ip_phdr_xsum :: "beui32 \<Rightarrow> beui32 \<Rightarrow> u8 \<Rightarrow> u16 \<Rightarrow> u16" where
  "network_ip_phdr_xsum ip_s ip_d p l3_paylen =
    (let sum = (beui32_x ip_s AND 0xffff) + (drop_bit 16 (beui32_x ip_s) AND 0xffff) +
               (beui32_x ip_d AND 0xffff) + (drop_bit 16 (beui32_x ip_d) AND 0xffff) +
               push_bit 8 (ucast p) + ucast (beui16_x (t_beui16 l3_paylen)) :: u32;
         sum = drop_bit 16 (sum AND 0xffff0000) + (sum AND 0xffff);
         sum = drop_bit 16 (sum AND 0xffff0000) + (sum AND 0xffff) in
     ucast sum)"

definition network_buf_tcpxsums ::
  "fp_env \<Rightarrow> nbuf \<Rightarrow> u8 \<Rightarrow> u8 \<Rightarrow> beui32 \<Rightarrow> beui32 \<Rightarrow> u8 \<Rightarrow> u16 \<Rightarrow> u16 \<times> nbuf"
where
  "network_buf_tcpxsums env bh l2l l3l ip_s ip_d ip_proto l3_paylen =
    (network_ip_phdr_xsum ip_s ip_d ip_proto l3_paylen,
     bh\<lparr>nb_tx_offload := ucast l2l OR push_bit 7 (ucast l3l), nb_ol_flags := tx_cksum_flags env\<rparr>)"

definition tx_xsum_enable :: "fp_env \<Rightarrow> nbuf \<Rightarrow> beui32 \<Rightarrow> beui32 \<Rightarrow> u16 \<Rightarrow> u16 \<times> nbuf" where
  "tx_xsum_enable env nbh ip_s ip_d l3_paylen =
     network_buf_tcpxsums env nbh 14 20 ip_s ip_d IP_PROTO_TCP l3_paylen"

text \<open>The packet is passed apart from its buffer while it is being built.\<close>

definition tcp_checksums :: "fp_env \<Rightarrow> nbuf \<Rightarrow> pkt_tcp \<Rightarrow> beui32 \<Rightarrow> beui32 \<Rightarrow> u16 \<Rightarrow> pkt_tcp \<times> nbuf" where
  "tcp_checksums env nbh p ip_s ip_d l3_paylen =
    (let p = p\<lparr>ip := (ip p)\<lparr>ip_chksum := 0\<rparr>\<rparr> in
     if fp_xsumoffload env then
       let (x, nbh) = tx_xsum_enable env nbh ip_s ip_d l3_paylen in
       (p\<lparr>tcp := (tcp p)\<lparr>tcp_chksum := x\<rparr>\<rparr>, nbh)
     else
       let p = p\<lparr>tcp := (tcp p)\<lparr>tcp_chksum := 0\<rparr>\<rparr>;
           p = p\<lparr>ip := (ip p)\<lparr>ip_chksum := ipv4_cksum env (ip p)\<rparr>\<rparr>;
           p = p\<lparr>tcp := (tcp p)\<lparr>tcp_chksum := ipv4_udptcp_cksum env (ip p) p\<rparr>\<rparr> in
       (p, nbh))"

definition fast_flows_kernelxsums :: "fp_env \<Rightarrow> nbuf \<Rightarrow> pkt_tcp \<Rightarrow> pkt_tcp \<times> nbuf" where
  "fast_flows_kernelxsums env nbh p =
     tcp_checksums env nbh p (ip_src (ip p)) (ip_dest (ip p)) (f_beui16 (ip_len (ip p)) - 20)"

section \<open>Transmit buffer and notifications\<close>

definition tx_send :: "fastpath \<Rightarrow> nbuf \<Rightarrow> u16 \<Rightarrow> u16 \<Rightarrow> fastpath result" where
  "tx_send st nbh off len =
    (if length (tx_handles st) \<ge> TXBUF_SIZE then Inl Abort
     else Inr (st\<lparr>tx_handles := tx_handles st @ [nbh\<lparr>nb_off := off, nb_len := len\<rparr>]\<rparr>))"

definition arx_cache_add ::
  "fastpath \<Rightarrow> u16 \<Rightarrow> u64 \<Rightarrow> u32 \<Rightarrow> u32 \<Rightarrow> u32 \<Rightarrow> u16 \<Rightarrow> fastpath result"
where
  "arx_cache_add st ctx_id opq rx_bump rx_pos tx_bump type_flags =
    (if length (arx_cache st) \<ge> BATCH_SIZE then Inl Out_Of_Bounds
     else Inr (st\<lparr>arx_cache := arx_cache st @
       [(ctx_id, \<lparr>arx_type = ucast (type_flags AND 0xff), arx_opaque = opq, arx_rx_bump = rx_bump,
                  arx_rx_pos = rx_pos, arx_tx_bump = tx_bump,
                  arx_flags = ucast (drop_bit 8 type_flags)\<rparr>)]\<rparr>))"

section \<open>Properties\<close>

lemma get_put_beui32 [simp]: "get_beui32 (put_beui32 b k v) k = v"
proof -
  have "beui32_x (get_beui32 (put_beui32 b k v) k) = beui32_x v"
  proof (rule bit_word_eqI)
    fix n
    assume "n < LENGTH(32)"
    then consider "n < 8" | "8 \<le> n \<and> n < 16" | "16 \<le> n \<and> n < 24" | "24 \<le> n \<and> n < 32"
      by fastforce
    then show "bit (beui32_x (get_beui32 (put_beui32 b k v) k)) n \<longleftrightarrow> bit (beui32_x v) n"
      by cases (auto simp: get_beui32_def put_beui32_def bit_simps)
  qed
  then show ?thesis
    by (metis beui32.collapse)
qed

lemma upd_flow_simps [simp]:
  "flowst (upd_flow st fid fs) = (flowst st)(fid := fs)"
  "fp_shm (upd_flow st fid fs) = fp_shm st" "qman (upd_flow st fid fs) = qman st"
  "arx_cache (upd_flow st fid fs) = arx_cache st" "tx_handles (upd_flow st fid fs) = tx_handles st"
  "core_id (upd_flow st fid fs) = core_id st"
  "flow_group_steering (upd_flow st fid fs) = flow_group_steering st"
  "qman_fwd_ring (upd_flow st fid fs) = qman_fwd_ring st"
  by (simp_all add: upd_flow_def)

end
