(* ===== verification/Wire.thy ===== *)
theory Wire
  imports Fast_Ctx
begin

text \<open>
  The memory layout of the packed packet structures of \<^verbatim>\<open>include/packet_defs.h\<close>: a TCP packet
  as the bytes that start at its address, and the packet that a byte memory holds.  Fields
  of two and four bytes stand in memory in the order of a little-endian machine; the
  big-endian fields are kept swapped.
\<close>

unbundle bit_operations_syntax

section \<open>Model\<close>

definition get_u16 :: "buf \<Rightarrow> nat \<Rightarrow> u16" where
  "get_u16 b k = ucast (b k) OR push_bit 8 (ucast (b (k + 1)))"

definition u16_bytes :: "u16 \<Rightarrow> u8 list" where
  "u16_bytes x = [ucast x, ucast (drop_bit 8 x)]"

definition u32_bytes :: "u32 \<Rightarrow> u8 list" where
  "u32_bytes x = [ucast x, ucast (drop_bit 8 x), ucast (drop_bit 16 x), ucast (drop_bit 24 x)]"

definition eth_bytes :: "eth_hdr \<Rightarrow> u8 list" where
  "eth_bytes h = eth_dest h @ eth_src h @ u16_bytes (beui16_x (eth_type h))"

definition ip_bytes :: "ip_hdr \<Rightarrow> u8 list" where
  "ip_bytes h = [v_hl h, tos h] @ u16_bytes (beui16_x (ip_len h)) @ u16_bytes (beui16_x (ip_id h)) @
     u16_bytes (beui16_x (ip_offset h)) @ [ttl h, proto h] @ u16_bytes (ip_chksum h) @
     u32_bytes (beui32_x (ip_src h)) @ u32_bytes (beui32_x (ip_dest h))"

definition tcp_bytes :: "tcp_hdr \<Rightarrow> u8 list" where
  "tcp_bytes h = u16_bytes (beui16_x (tcp_src h)) @ u16_bytes (beui16_x (tcp_dest h)) @
     u32_bytes (beui32_x (seqno h)) @ u32_bytes (beui32_x (ackno h)) @ u16_bytes (hdrlen_rsvd_flags h) @
     u16_bytes (beui16_x (wnd h)) @ u16_bytes (tcp_chksum h) @ u16_bytes (beui16_x (urgp h))"

definition hdr_bytes :: "pkt_tcp \<Rightarrow> u8 list" where
  "hdr_bytes p = eth_bytes (eth p) @ ip_bytes (ip p) @ tcp_bytes (tcp p)"

definition bytes_of_pkt :: "pkt_tcp \<Rightarrow> buf" where
  "bytes_of_pkt p i = (if i < sizeof_pkt_tcp then hdr_bytes p ! i else rest p (i - sizeof_pkt_tcp))"

definition pkt_of_bytes :: "buf \<Rightarrow> pkt_tcp" where
  "pkt_of_bytes b =
    \<lparr>eth = \<lparr>eth_dest = map b [0..<6], eth_src = map b [6..<12], eth_type = Beui16 (get_u16 b 12)\<rparr>,
     ip = \<lparr>v_hl = b 14, tos = b 15, ip_len = Beui16 (get_u16 b 16), ip_id = Beui16 (get_u16 b 18),
           ip_offset = Beui16 (get_u16 b 20), ttl = b 22, proto = b 23, ip_chksum = get_u16 b 24,
           ip_src = get_beui32 b 26, ip_dest = get_beui32 b 30\<rparr>,
     tcp = \<lparr>tcp_src = Beui16 (get_u16 b 34), tcp_dest = Beui16 (get_u16 b 36), seqno = get_beui32 b 38,
            ackno = get_beui32 b 42, hdrlen_rsvd_flags = get_u16 b 46, wnd = Beui16 (get_u16 b 48),
            tcp_chksum = get_u16 b 50, urgp = Beui16 (get_u16 b 52)\<rparr>,
     rest = (\<lambda>i. b (i + sizeof_pkt_tcp))\<rparr>"

section \<open>Round trips\<close>

text \<open>Fields of a byte memory that starts with given bytes.\<close>

definition has_bytes :: "buf \<Rightarrow> nat \<Rightarrow> u8 list \<Rightarrow> bool" where
  "has_bytes b k xs \<longleftrightarrow> (\<forall>i < length xs. b (k + i) = xs ! i)"

lemma has_bytes_append:
  "has_bytes b k (xs @ ys) \<longleftrightarrow> has_bytes b k xs \<and> has_bytes b (k + length xs) ys"
proof (intro iffI conjI)
  assume "has_bytes b k xs \<and> has_bytes b (k + length xs) ys"
  then show "has_bytes b k (xs @ ys)"
    unfolding has_bytes_def by (auto simp: nth_append) (metis add.assoc add_diff_inverse_nat nat_add_left_cancel_less)
qed (auto simp: has_bytes_def nth_append add.assoc)

lemma has_bytes_Cons: "has_bytes b k (x # xs) \<longleftrightarrow> b k = x \<and> has_bytes b (k + 1) xs"
  using has_bytes_append [of b k "[x]" xs] by (simp add: has_bytes_def)

lemma has_bytes_Nil [simp]: "has_bytes b k []"
  by (simp add: has_bytes_def)

lemma has_bytes_map: "has_bytes b k xs \<Longrightarrow> length xs = n \<Longrightarrow> map b [k..<k + n] = xs"
  by (auto simp: has_bytes_def intro!: nth_equalityI)

lemma u16_of_bytes: "ucast (ucast (x::u16) :: u8) OR push_bit 8 (ucast (ucast (drop_bit 8 x) :: u8)) = (x::u16)"
proof (rule bit_word_eqI)
  fix n
  assume "n < LENGTH(16)"
  then consider "n < 8" | "8 \<le> n \<and> n < 16"
    by fastforce
  then show "bit (ucast (ucast x :: u8) OR push_bit 8 (ucast (ucast (drop_bit 8 x) :: u8)) :: u16) n \<longleftrightarrow> bit x n"
    by cases (auto simp: bit_simps)
qed

lemma get_u16_bytes: "has_bytes b k (u16_bytes x) \<Longrightarrow> get_u16 b k = x"
  by (simp add: get_u16_def u16_bytes_def has_bytes_Cons u16_of_bytes)

lemma get_beui32_bytes: "has_bytes b k (u32_bytes (beui32_x x)) \<Longrightarrow> get_beui32 b k = x"
proof -
  assume h: "has_bytes b k (u32_bytes (beui32_x x))"
  have "b (k + 3) = b (Suc (Suc (Suc k)))"
    by (simp add: numeral_3_eq_3)
  with h have "get_beui32 b k = get_beui32 (put_beui32 b k x) k"
    by (simp add: get_beui32_def put_beui32_def u32_bytes_def has_bytes_Cons)
  then show ?thesis by simp
qed

lemma length_bytes [simp]: "length (u16_bytes x) = 2" "length (u32_bytes y) = 4"
  "length (ip_bytes h) = 20" "length (tcp_bytes t) = 20"
  by (simp_all add: u16_bytes_def u32_bytes_def ip_bytes_def tcp_bytes_def)

lemma pkt_of_bytes_fields:
  assumes "length (eth_dest (eth p)) = 6" "length (eth_src (eth p)) = 6" "has_bytes b 0 (hdr_bytes p)"
    "\<And>i. b (i + sizeof_pkt_tcp) = rest p i"
  shows "pkt_of_bytes b = p"
proof -
  have 1: "has_bytes b 0 (eth_dest (eth p))" "has_bytes b 6 (eth_src (eth p))"
    "has_bytes b 12 (u16_bytes (beui16_x (eth_type (eth p))))" "has_bytes b 14 (ip_bytes (ip p))"
    "has_bytes b 34 (tcp_bytes (tcp p))"
    using assms(1-3) by (simp_all add: hdr_bytes_def eth_bytes_def has_bytes_append)
  have ip: "\<lparr>v_hl = b 14, tos = b 15, ip_len = Beui16 (get_u16 b 16), ip_id = Beui16 (get_u16 b 18),
      ip_offset = Beui16 (get_u16 b 20), ttl = b 22, proto = b 23, ip_chksum = get_u16 b 24,
      ip_src = get_beui32 b 26, ip_dest = get_beui32 b 30\<rparr> = ip p"
    using 1(4) by (cases "ip p") (auto simp: ip_bytes_def has_bytes_append has_bytes_Cons dest!: get_u16_bytes get_beui32_bytes)
  have tcp: "\<lparr>tcp_src = Beui16 (get_u16 b 34), tcp_dest = Beui16 (get_u16 b 36), seqno = get_beui32 b 38,
      ackno = get_beui32 b 42, hdrlen_rsvd_flags = get_u16 b 46, wnd = Beui16 (get_u16 b 48),
      tcp_chksum = get_u16 b 50, urgp = Beui16 (get_u16 b 52)\<rparr> = tcp p"
    using 1(5) by (cases "tcp p") (auto simp: tcp_bytes_def has_bytes_append dest!: get_u16_bytes get_beui32_bytes)
  have eth: "map b [0..<6] = eth_dest (eth p)" "map b [6..<12] = eth_src (eth p)" "get_u16 b 12 = beui16_x (eth_type (eth p))"
    using has_bytes_map [OF 1(1)] has_bytes_map [OF 1(2)] get_u16_bytes [OF 1(3)] assms(1,2) by simp_all
  show ?thesis
    unfolding pkt_of_bytes_def ip tcp eth using assms(4) by simp
qed

text \<open>The other way round: every field is the bytes at its place.\<close>

lemma bytes_of_u16: "u16_bytes (ucast a OR push_bit 8 (ucast b)) = [a, b]"
proof -
  have "bit (ucast (ucast a OR push_bit 8 (ucast b) :: u16) :: u8) n = bit a n" for n
    by (cases "n < 8") (auto simp: bit_simps dest: bit_imp_le_length)
  moreover have "bit (ucast (drop_bit 8 (ucast a OR push_bit 8 (ucast b) :: u16)) :: u8) n = bit b n" for n
    by (cases "n < 8") (auto simp: bit_simps dest: bit_imp_le_length)
  ultimately show ?thesis
    by (simp add: u16_bytes_def bit_eq_iff)
qed

lemma bytes_of_u32:
  "u32_bytes (ucast a OR push_bit 8 (ucast b) OR push_bit 16 (ucast c) OR push_bit 24 (ucast d)) = [a, b, c, d]"
proof -
  define x :: u32 where "x = ucast a OR push_bit 8 (ucast b) OR push_bit 16 (ucast c) OR push_bit 24 (ucast d)"
  have "(ucast x :: u8) = a"
    by (rule bit_word_eqI) (auto simp: x_def bit_simps dest: bit_imp_le_length)
  moreover have "(ucast (drop_bit 8 x) :: u8) = b"
    by (rule bit_word_eqI) (auto simp: x_def bit_simps dest: bit_imp_le_length)
  moreover have "(ucast (drop_bit 16 x) :: u8) = c"
    by (rule bit_word_eqI) (auto simp: x_def bit_simps dest: bit_imp_le_length)
  moreover have "(ucast (drop_bit 24 x) :: u8) = d"
    by (rule bit_word_eqI) (auto simp: x_def bit_simps dest: bit_imp_le_length)
  ultimately show ?thesis
    unfolding x_def [symmetric] u32_bytes_def by simp
qed

lemma hdr_bytes_of_bytes: "hdr_bytes (pkt_of_bytes b) = map b [0..<54]"
  by (simp add: hdr_bytes_def eth_bytes_def ip_bytes_def tcp_bytes_def pkt_of_bytes_def get_u16_def get_beui32_def
        bytes_of_u16 bytes_of_u32 upt_rec [of 0] upt_rec [of "Suc 0"] numeral_2_eq_2 [symmetric])

lemma bytes_pkt_bytes: "bytes_of_pkt (pkt_of_bytes b) = b"
proof
  fix i
  show "bytes_of_pkt (pkt_of_bytes b) i = b i"
    by (cases "i < 54") (simp_all add: bytes_of_pkt_def hdr_bytes_of_bytes, simp add: pkt_of_bytes_def)
qed

text \<open>
  Packet structures and their bytes in memory determine each other: reading back the bytes of
  a packet gives the packet, and the packet read from any memory has exactly the bytes of it.
\<close>

theorem pkt_bytes_roundtrip:
  assumes "length (eth_dest (eth p)) = 6" "length (eth_src (eth p)) = 6"
  shows "pkt_of_bytes (bytes_of_pkt p) = p \<and> bytes_of_pkt (pkt_of_bytes b) = b"
proof -
  have "length (hdr_bytes p) = 54"
    using assms by (simp add: hdr_bytes_def eth_bytes_def)
  then have "has_bytes (bytes_of_pkt p) 0 (hdr_bytes p)"
    by (simp add: has_bytes_def bytes_of_pkt_def)
  then show ?thesis
    using pkt_of_bytes_fields [OF assms] bytes_pkt_bytes by (simp add: bytes_of_pkt_def)
qed

theorem pkt_bytes_roundtrip_witness:
  "pkt_of_bytes (bytes_of_pkt pkt_zero) = pkt_zero \<and> bytes_of_pkt (pkt_of_bytes of_nat) = of_nat"
  by (rule pkt_bytes_roundtrip) (simp_all add: pkt_zero_def)

end
