(* ===== verification/Shm_Queues.thy ===== *)
theory Shm_Queues
  imports Wire
begin

text \<open>
  Queues in the shared memory (\<^verbatim>\<open>include/tas_memif.h\<close>): arrays of packed entries whose last byte
  says whether the entry is in use.  The producer fills the entry at its own position when it
  is free and then sets the type; the consumer handles the entry at its own position and clears
  the type.  Entries are byte sequences of the shared memory, so the members of their unions
  overlap as in C.
\<close>

unbundle bit_operations_syntax

section \<open>Fields in memory\<close>

definition mem_view :: "mem \<Rightarrow> u64 \<Rightarrow> buf" where
  "mem_view m a k = m (a + of_nat k)"

text \<open>Writing bytes \<open>k\<close> places behind an address.\<close>

definition mem_put :: "mem \<Rightarrow> u64 \<Rightarrow> nat \<Rightarrow> u8 list \<Rightarrow> mem" where
  "mem_put m a k xs = (\<lambda>x. let d = unat (x - a) in if k \<le> d \<and> d < k + length xs then xs ! (d - k) else m x)"

definition get_u32 :: "buf \<Rightarrow> nat \<Rightarrow> u32" where
  "get_u32 b k = beui32_x (get_beui32 b k)"

definition get_u64 :: "buf \<Rightarrow> nat \<Rightarrow> u64" where
  "get_u64 b k = ucast (get_u32 b k) OR push_bit 32 (ucast (get_u32 b (k + 4)))"

definition u64_bytes :: "u64 \<Rightarrow> u8 list" where
  "u64_bytes x = u32_bytes (ucast x) @ u32_bytes (ucast (drop_bit 32 x))"

text \<open>Entry \<open>i\<close> of an array of structures of \<open>sz\<close> bytes.\<close>

definition entry_addr :: "nat \<Rightarrow> u64 \<Rightarrow> nat \<Rightarrow> u64" where
  "entry_addr sz base i = base + of_nat (sz * i)"

lemma length_u64_bytes [simp]: "length (u64_bytes x) = 8"
  by (simp add: u64_bytes_def)

lemma mem_view_put:
  assumes "j < 18446744073709551616"
  shows "mem_view (mem_put m a k xs) a j = (if k \<le> j \<and> j < k + length xs then xs ! (j - k) else mem_view m a j)"
  using assms by (simp add: mem_view_def mem_put_def unat_of_nat)

lemma get_u32_bytes: "has_bytes b k (u32_bytes x) \<Longrightarrow> get_u32 b k = x"
  using get_beui32_bytes [of b k "Beui32 x"] by (simp add: get_u32_def)

lemma u64_halves: "ucast (ucast (x::u64) :: u32) OR push_bit 32 (ucast (ucast (drop_bit 32 x) :: u32)) = (x::u64)"
proof (rule bit_word_eqI)
  fix n
  assume "n < LENGTH(64)"
  then show "bit (ucast (ucast x :: u32) OR push_bit 32 (ucast (ucast (drop_bit 32 x) :: u32)) :: u64) n \<longleftrightarrow> bit x n"
    by (cases "n < 32") (auto simp: bit_simps)
qed

lemma get_u64_bytes: "has_bytes b k (u64_bytes x) \<Longrightarrow> get_u64 b k = x"
  using u64_halves [of x] by (auto simp: get_u64_def u64_bytes_def has_bytes_append dest!: get_u32_bytes)

lemma has_bytes_put [simp]: "k + length xs < 18446744073709551616 \<Longrightarrow> has_bytes (mem_view (mem_put m a k xs) a) k xs"
  by (simp add: has_bytes_def mem_view_put)

lemma has_bytes_put_other:
  assumes "has_bytes (mem_view m a) j ys" "j + length ys \<le> k \<or> k + length xs \<le> j" "j + length ys < 18446744073709551616"
  shows "has_bytes (mem_view (mem_put m a k xs) a) j ys"
  using assms by (auto simp: has_bytes_def mem_view_put)

text \<open>Bytes of other entries of the array are left alone.\<close>

lemma mem_view_other:
  assumes "i \<noteq> j" "i < 4294967296" "j < 4294967296" "k + length xs \<le> sz" "n < sz" "sz \<le> 64"
  shows "mem_view (mem_put m (entry_addr sz base i) k xs) (entry_addr sz base j) n = mem_view m (entry_addr sz base j) n"
proof -
  define D where "D = base + of_nat (sz * j) + of_nat n - (base + of_nat (sz * i) :: u64)"
  define I where "I = int (sz * j) + int n - int (sz * i)"
  have lt: "sz * i \<le> 64 * 4294967296" "sz * j \<le> 64 * 4294967296"
    using assms mult_le_mono [of sz 64 i 4294967296] mult_le_mono [of sz 64 j 4294967296] by simp_all
  have "D = word_of_int I"
    by (simp add: D_def I_def of_nat_diff algebra_simps)
  then have d: "uint D = I mod 18446744073709551616"
    by (simp add: uint_word_of_int)
  have "int sz \<le> uint D"
  proof (cases "i < j")
    case True
    then have "sz * i + sz \<le> sz * j"
      using mult_le_mono2 [of "Suc i" j sz] by simp
    then have "int sz \<le> I" "I < 18446744073709551616"
      unfolding I_def using lt assms by linarith+
    then show ?thesis
      unfolding d by simp
  next
    case False
    then have "sz * j + sz \<le> sz * i"
      using assms(1) mult_le_mono2 [of "Suc j" i sz] by simp
    then have neg: "I < 0" "- 18446744073709551616 + int sz \<le> I"
      unfolding I_def using lt assms by linarith+
    have "I mod 18446744073709551616 = (I + 18446744073709551616) mod 18446744073709551616"
      by simp
    also have "\<dots> = I + 18446744073709551616"
      using neg by (intro mod_pos_pos_trivial) linarith+
    finally show ?thesis
      unfolding d using neg(2) by linarith
  qed
  then have "sz \<le> unat D"
    by (metis nat_int nat_mono unat_eq_nat_uint)
  then show ?thesis
    using assms(4) by (simp add: mem_view_def mem_put_def entry_addr_def Let_def D_def)
qed

section \<open>Rings of entries in use\<close>

text \<open>
  \<open>get m i\<close> is the message of entry \<open>i\<close>, \<open>None\<close> if it is free.  The ring holds a list of messages:
  they stand from the consumer's position on, up to the producer's, and all other entries are free.
\<close>

definition ring_holds :: "nat \<Rightarrow> ('m \<Rightarrow> nat \<Rightarrow> 'e option) \<Rightarrow> 'm \<Rightarrow> nat \<Rightarrow> nat \<Rightarrow> 'e list \<Rightarrow> bool" where
  "ring_holds len get m h t xs \<longleftrightarrow> h < len \<and> length xs \<le> len \<and> t = (h + length xs) mod len \<and>
     (\<forall>i < len. get m ((h + i) mod len) = (if i < length xs then Some (xs ! i) else None))"

lemma ring_index: "h < len \<Longrightarrow> j < len \<Longrightarrow> \<exists>i < len. j = (h + i) mod (len::nat)"
  by (rule exI [of _ "(len - h + j) mod len"]) (simp add: mod_add_right_eq)

lemma ring_holds_cong:
  "(\<And>j. j < len \<Longrightarrow> get m' j = get m j) \<Longrightarrow> ring_holds len get m' h t xs = ring_holds len get m h t xs"
  unfolding ring_holds_def by (metis gr_implies_not0 mod_less_divisor neq0_conv)

locale flag_ring =
  fixes len :: nat
    and get :: "'m \<Rightarrow> nat \<Rightarrow> 'e option"
    and put :: "'m \<Rightarrow> nat \<Rightarrow> 'e \<Rightarrow> 'm"
    and clr :: "'m \<Rightarrow> nat \<Rightarrow> 'm"
    and wf :: "'e \<Rightarrow> bool"
  assumes get_put: "i < len \<Longrightarrow> j < len \<Longrightarrow> wf e \<Longrightarrow> get (put m i e) j = (if j = i then Some e else get m j)"
    and get_clr: "i < len \<Longrightarrow> j < len \<Longrightarrow> get (clr m i) j = (if j = i then None else get m j)"
begin

lemma tail_free:
  assumes "ring_holds len get m h t xs"
  shows "get m t = None \<longleftrightarrow> length xs < len"
proof (cases "length xs < len")
  case True
  then show ?thesis
    using assms by (simp add: ring_holds_def)
next
  case False
  then have "t = (h + 0) mod len" "0 < len" "xs \<noteq> []"
    using assms by (auto simp: ring_holds_def)
  with assms False show ?thesis
    unfolding ring_holds_def by (metis length_greater_0_conv option.distinct(1))
qed

lemma head_used:
  assumes "ring_holds len get m h t xs"
  shows "get m h = (case xs of [] \<Rightarrow> None | x # _ \<Rightarrow> Some x)"
proof -
  have "h < len" "get m ((h + 0) mod len) = (if 0 < length xs then Some (xs ! 0) else None)"
    using assms unfolding ring_holds_def by auto
  then show ?thesis
    by (cases xs) simp_all
qed

lemma tail_lt: "ring_holds len get m h t xs \<Longrightarrow> t < len"
  by (auto simp: ring_holds_def)

lemma enqueue:
  assumes r: "ring_holds len get m h t xs" and "get m t = None" "wf e"
  shows "ring_holds len get (put m t e) h (Suc t mod len) (xs @ [e])"
proof -
  have l: "length xs < len"
    using assms tail_free by blast
  have t: "t = (h + length xs) mod len" and h: "h < len"
    using r by (simp_all add: ring_holds_def)
  have "get (put m t e) ((h + i) mod len) = (if i < length (xs @ [e]) then Some ((xs @ [e]) ! i) else None)"
    if i: "i < len" for i
  proof -
    have "(h + i) mod len = t \<longleftrightarrow> i = length xs"
      using add_mod_inj_nat [of h i len "length xs"] i l unfolding t by auto
    moreover have "get (put m t e) ((h + i) mod len) = (if (h + i) mod len = t then Some e else get m ((h + i) mod len))"
      using get_put [OF tail_lt [OF r] _ assms(3)] h by simp
    ultimately show ?thesis
      using r i by (auto simp: ring_holds_def nth_append)
  qed
  moreover have "Suc t mod len = (h + length (xs @ [e])) mod len"
    unfolding t by (simp add: mod_Suc_eq)
  ultimately show ?thesis
    using h l by (simp add: ring_holds_def)
qed

lemma dequeue:
  assumes r: "ring_holds len get m h t (x # xs)"
  shows "ring_holds len get (clr m h) (Suc h mod len) t xs"
proof -
  have h: "h < len" and l: "length xs < len" and t: "t = (h + Suc (length xs)) mod len"
    and g: "\<And>i. i < len \<Longrightarrow> get m ((h + i) mod len) = (if i < Suc (length xs) then Some ((x # xs) ! i) else None)"
    using r by (auto simp: ring_holds_def)
  have "get (clr m h) ((Suc h mod len + i) mod len) = (if i < length xs then Some (xs ! i) else None)" if i: "i < len" for i
  proof -
    have pos: "(Suc h mod len + i) mod len = (h + Suc i) mod len"
      by (simp add: mod_add_left_eq)
    show ?thesis
    proof (cases "Suc i < len")
      case True
      then have "(h + Suc i) mod len \<noteq> h"
        using add_mod_inj_nat [of h "Suc i" len 0] h by auto
      then have "get (clr m h) ((h + Suc i) mod len) = get m ((h + Suc i) mod len)"
        using get_clr [OF h] h by simp
      then show ?thesis
        unfolding pos using g [OF True] by simp
    next
      case False
      then have "Suc i = len" "\<not> i < length xs"
        using i l by simp_all
      then have "(h + Suc i) mod len = h" "\<not> i < length xs"
        using h by (simp_all only: mod_add_self2 mod_less not_False_eq_True)
      then show ?thesis
        unfolding pos using get_clr [OF h h] by simp
    qed
  qed
  moreover have "t = (Suc h mod len + length xs) mod len"
    unfolding t by (simp add: mod_add_left_eq)
  ultimately show ?thesis
    using h l by (simp add: ring_holds_def)
qed

end

end
