(* ===== verification/Notify.thy ===== *)
theory Notify
  imports Tas_Prelude
begin

text \<open>
  Waking up blocked threads, \<^verbatim>\<open>tas/blocking.c\<close>: a thread that finds no work for
  \<^verbatim>\<open>poll_cycle_tas\<close> cycles blocks, and whoever hands it work writes to its event descriptor
  if it has not done so for that long.  The time stamp counter and the success of \<^verbatim>\<open>write\<close>
  are arguments.
\<close>

section \<open>Model\<close>

text \<open>The descriptors written to, and the new value of \<^verbatim>\<open>*last_ts\<close>.\<close>

definition notify_core :: "bool \<Rightarrow> int \<Rightarrow> u64 \<Rightarrow> u64 \<Rightarrow> u64 \<Rightarrow> (int list \<times> u64) result" where
  "notify_core write_ok cfd last_ts tsc delta =
    (if delta = - 1 then Inr ([], last_ts)
     else if tsc - last_ts > delta then
       if write_ok then Inr ([cfd], tsc) else Inl Abort
     else Inr ([], tsc))"

record notify_blockstate =
  last_active_ts :: u64
  can_block :: bool
  second_bar :: bool

definition notify_canblock :: "u64 \<Rightarrow> notify_blockstate \<Rightarrow> bool \<Rightarrow> u64 \<Rightarrow> bool \<times> notify_blockstate" where
  "notify_canblock poll_cycle nbs had_data tsc =
    (if poll_cycle = - 1 then (False, nbs)
     else if had_data then (False, nbs\<lparr>can_block := False, second_bar := False, last_active_ts := tsc\<rparr>)
     else if second_bar nbs then (True, nbs\<lparr>can_block := False, second_bar := False, last_active_ts := tsc\<rparr>)
     else if can_block nbs \<and> tsc - last_active_ts nbs > poll_cycle then (False, nbs\<lparr>second_bar := True\<rparr>)
     else (False, nbs\<lparr>can_block := True\<rparr>))"

definition notify_canblock_reset :: "notify_blockstate \<Rightarrow> notify_blockstate" where
  "notify_canblock_reset nbs = nbs\<lparr>can_block := False, second_bar := False\<rparr>"

section \<open>When a thread blocks\<close>

text \<open>The results of successive calls.\<close>

fun canblock_trace :: "u64 \<Rightarrow> notify_blockstate \<Rightarrow> (bool \<times> u64) list \<Rightarrow> bool list" where
  "canblock_trace cyc nbs [] = []"
| "canblock_trace cyc nbs ((had_data, tsc) # calls) =
    (let (r, nbs) = notify_canblock cyc nbs had_data tsc in r # canblock_trace cyc nbs calls)"

lemma canblock_wait:
  assumes "cyc \<noteq> - 1" "\<not> second_bar nbs" "can_block nbs" "\<forall>k < length ts. \<not> ts ! k - last_active_ts nbs > cyc"
    "t - last_active_ts nbs > cyc"
  shows "canblock_trace cyc nbs (map (Pair False) (ts @ t # u # us)) =
    replicate (Suc (length ts)) False @
      True # canblock_trace cyc (nbs\<lparr>can_block := False, second_bar := False, last_active_ts := u\<rparr>) (map (Pair False) us)"
  using assms
proof (induction ts)
  case Nil
  then show ?case
    by (simp add: notify_canblock_def)
next
  case (Cons x ts)
  have "nbs\<lparr>can_block := True\<rparr> = nbs"
    using Cons.prems(3) by simp
  moreover have "\<not> x - last_active_ts nbs > cyc"
    using Cons.prems(4) [rule_format, of 0] by simp
  ultimately have "notify_canblock cyc nbs False x = (False, nbs)"
    using Cons.prems(1-3) unfolding notify_canblock_def by presburger
  moreover have "\<forall>k < length ts. \<not> ts ! k - last_active_ts nbs > cyc"
    using Cons.prems(4) [rule_format, of "Suc _"] by simp
  ultimately show ?case
    using Cons by simp
qed

text \<open>
  A thread that has just been active at \<open>t0\<close> and then finds no work blocks as soon as the
  polling interval is over, and not before: the first call leaves a mark, the calls within the
  interval return 0, the first later one beyond the interval too, but the one after it returns 1,
  so that there is one more poll between the end of the interval and blocking.
\<close>

theorem notify_canblock_blocks:
  assumes "cyc \<noteq> - 1" "\<forall>k < length ts. \<not> ts ! k - t0 > cyc" "t - t0 > cyc"
  shows "canblock_trace cyc nbs ((True, t0) # map (Pair False) (t1 # ts @ [t, u])) =
    False # False # replicate (Suc (length ts)) False @ [True]"
proof -
  let ?n = "nbs\<lparr>can_block := False, second_bar := False, last_active_ts := t0\<rparr>"
  have "canblock_trace cyc nbs ((True, t0) # map (Pair False) (t1 # ts @ [t, u])) =
      False # False # canblock_trace cyc (?n\<lparr>can_block := True\<rparr>) (map (Pair False) (ts @ [t, u]))"
    using assms(1) by (simp add: notify_canblock_def)
  then show ?thesis
    using canblock_wait [of cyc "?n\<lparr>can_block := True\<rparr>" ts t u "[]"] assms by simp
qed

theorem notify_canblock_blocks_witness:
  "canblock_trace 100 \<lparr>last_active_ts = 0, can_block = True, second_bar = True\<rparr>
     [(True, 1000), (False, 1200), (False, 1050), (False, 1101), (False, 1102)] = [False, False, False, False, True]"
  using notify_canblock_blocks [of 100 "[1050]" 1000 1101 "\<lparr>last_active_ts = 0, can_block = True, second_bar = True\<rparr>" 1200 1102]
  by simp

end
