(* ===== verification/Fast_Flows.thy ===== *)
theory Fast_Flows
  imports Fast_Ctx
begin

text \<open>
  The fast path operations on flows, \<^verbatim>\<open>tas/fast/fast_flows.c\<close>: sending a segment when the
  queue manager grants a flow bytes, receiving a packet, updates from the application,
  retransmission, and the flow lookup.  The receive handler is split where the code jumps
  to its labels.  \<^verbatim>\<open>FLEXNIC_PL_OOO_RECV\<close> and \<^verbatim>\<open>ALLOW_FUTURE_ACKS\<close> are defined.
\<close>

unbundle bit_operations_syntax

abbreviation (input) TCP_MSS :: u32 where "TCP_MSS \<equiv> 1448"
abbreviation (input) TCP_MAX_RTT :: u32 where "TCP_MAX_RTT \<equiv> 100000"
abbreviation (input) QMAN_SET_ALL :: u8 where
  "QMAN_SET_ALL \<equiv> QMAN_SET_RATE OR QMAN_SET_MAXCHUNK OR QMAN_SET_AVAIL"
abbreviation (input) QMAN_ADD_ALL :: u8 where
  "QMAN_ADD_ALL \<equiv> QMAN_SET_RATE OR QMAN_SET_MAXCHUNK OR QMAN_ADD_AVAIL"

section \<open>Buffer access\<close>

definition flow_tx_read :: "fp_env \<Rightarrow> mem \<Rightarrow> flextcp_pl_flowst \<Rightarrow> u32 \<Rightarrow> u16 \<Rightarrow> buf \<Rightarrow> nat \<Rightarrow> buf result" where
  "flow_tx_read env m fs pos len dst off =
    (if pos + ucast len \<le> tx_len fs then
       dma_read (shm_len env) m (tx_base fs + ucast pos) (ucast len) dst off
     else
       let part = tx_len fs - pos in
       bind_res (dma_read (shm_len env) m (tx_base fs + ucast pos) (ucast part) dst off) (\<lambda>dst.
       dma_read (shm_len env) m (tx_base fs) (ucast (ucast len - part)) dst (off + unat part)))"

definition rx_base :: "flextcp_pl_flowst \<Rightarrow> u64" where
  "rx_base fs = rx_base_sp fs AND FLEXNIC_PL_FLOWST_RX_MASK"

definition flow_rx_write :: "fp_env \<Rightarrow> mem \<Rightarrow> flextcp_pl_flowst \<Rightarrow> u32 \<Rightarrow> u16 \<Rightarrow> buf \<Rightarrow> nat \<Rightarrow> mem result" where
  "flow_rx_write env m fs pos len src off =
    (if pos + ucast len \<le> rx_len fs then
       dma_write (shm_len env) m (rx_base fs + ucast pos) (ucast len) src off
     else
       let part = rx_len fs - pos in
       bind_res (dma_write (shm_len env) m (rx_base fs + ucast pos) (ucast part) src off) (\<lambda>m.
       dma_write (shm_len env) m (rx_base fs) (ucast (ucast len - part)) src (off + unat part)))"

definition flow_rx_seq_write ::
  "fp_env \<Rightarrow> mem \<Rightarrow> flextcp_pl_flowst \<Rightarrow> u32 \<Rightarrow> u16 \<Rightarrow> buf \<Rightarrow> nat \<Rightarrow> mem result"
where
  "flow_rx_seq_write env m fs seq len src off =
    (let diff = seq - rx_next_seq fs; pos = rx_next_pos fs + diff;
         pos = (if pos \<ge> rx_len fs then pos - rx_len fs else pos) in
     if \<not> pos < rx_len fs then Inl Assert_Failed
     else flow_rx_write env m fs pos len src off)"

section \<open>Building segments\<close>

text \<open>\<^verbatim>\<open>MIN(0xFFFF, rxwnd)\<close> in the 16-bit window field.\<close>

definition wnd_field :: "u32 \<Rightarrow> beui16" where
  "wnd_field rxwnd = t_beui16 (ucast (if rxwnd < 0xFFFF then rxwnd else 0xFFFF))"

text \<open>The headers of a data segment, with the 12 bytes of options behind them.\<close>

definition tx_segment_headers ::
  "fp_env \<Rightarrow> flextcp_pl_flowst \<Rightarrow> u32 \<Rightarrow> u32 \<Rightarrow> u32 \<Rightarrow> u16 \<Rightarrow> u32 \<Rightarrow> u32 \<Rightarrow> bool \<Rightarrow> buf \<Rightarrow> pkt_tcp"
where
  "tx_segment_headers env fs seq ack rxwnd payload ts_echo ts_my fin old =
    (let iph = \<lparr>v_hl = 0x45, tos = 0, ip_len = t_beui16 (66 - 14 + payload), ip_id = t_beui16 3,
                ip_offset = t_beui16 0, ttl = 0xff, proto = IP_PROTO_TCP, ip_chksum = 0,
                ip_src = local_ip fs, ip_dest = remote_ip fs\<rparr>;
         iph = (if fs_flag fs FLEXNIC_PL_FLOWST_ECN then IPH_ECN_SET iph IP_ECN_ECT0 else iph);
         fin_fl = (if fin then TCP_FIN else 0);
         tcph = TCPH_HDRLEN_FLAGS_SET
           \<lparr>tcp_src = local_port fs, tcp_dest = remote_port fs, seqno = t_beui32 seq,
            ackno = t_beui32 ack, hdrlen_rsvd_flags = 0, wnd = wnd_field rxwnd, tcp_chksum = 0,
            urgp = t_beui16 0\<rparr> 8 (TCP_PSH OR TCP_ACK OR fin_fl);
         opt = (\<lambda>i. if i < 12 then 0 else old i);
         opt = opt(0 := TCP_OPT_TIMESTAMP, 1 := 10);
         opt = put_beui32 (put_beui32 opt 2 (t_beui32 ts_my)) 6 (t_beui32 ts_echo) in
     \<lparr>eth = \<lparr>eth_dest = remote_mac fs, eth_src = eth_addr env, eth_type = t_beui16 ETH_TYPE_IP\<rparr>,
      ip = iph, tcp = tcph, rest = opt\<rparr>)"

text \<open>
  The packet is built at the start of the buffer; what the buffer held there before shows
  only behind the end of the packet.
\<close>

definition flow_tx_segment ::
  "fp_env \<Rightarrow> fastpath \<Rightarrow> nbuf \<Rightarrow> flextcp_pl_flowst \<Rightarrow> u32 \<Rightarrow> u32 \<Rightarrow> u32 \<Rightarrow> u16 \<Rightarrow> u32 \<Rightarrow> u32 \<Rightarrow> u32 \<Rightarrow> bool
     \<Rightarrow> fastpath result"
where
  "flow_tx_segment env st nbh fs seq ack rxwnd payload payload_pos ts_echo ts_my fin =
    (let p = tx_segment_headers env fs seq ack rxwnd payload ts_echo ts_my fin (rest (nb_pkt nbh)) in
     bind_res (if payload > 0 then flow_tx_read env (fp_shm st) fs payload_pos payload (rest p) 12
               else Inr (rest p)) (\<lambda>r.
     let p = p\<lparr>rest := r\<rparr>;
         (p, nbh) = tcp_checksums env nbh p (local_ip fs) (remote_ip fs) (66 - 34 + payload) in
     tx_send st (nbh\<lparr>nb_pkt := p\<rparr>) 0 (66 + payload)))"

text \<open>The acknowledgement is built in the received packet; \<^verbatim>\<open>ts_opt\<close> is the offset of its timestamp option.\<close>

definition tx_ack_headers :: "pkt_tcp \<Rightarrow> u32 \<Rightarrow> u32 \<Rightarrow> u32 \<Rightarrow> u32 \<Rightarrow> u32 \<Rightarrow> nat \<Rightarrow> pkt_tcp" where
  "tx_ack_headers p seq ack rxwnd echots myts ts_opt =
    (let hdrlen = 54 + (TCPH_HDRLEN (tcp p) - 5) * 4;
         ecn_flags = (if IPH_ECN (ip p) = IP_ECN_CE then TCP_ECE else 0);
         iph = IPH_ECN_SET ((ip p)\<lparr>ip_src := ip_dest (ip p), ip_dest := ip_src (ip p)\<rparr>) IP_ECN_NONE;
         tcph = (tcp p)\<lparr>tcp_src := tcp_dest (tcp p), tcp_dest := tcp_src (tcp p),
                        seqno := t_beui32 seq, ackno := t_beui32 ack\<rparr>;
         tcph = TCPH_HDRLEN_FLAGS_SET tcph (TCPH_HDRLEN tcph) (TCP_ACK OR ecn_flags);
         tcph = tcph\<lparr>wnd := wnd_field rxwnd, urgp := t_beui16 0\<rparr> in
     p\<lparr>eth := (eth p)\<lparr>eth_src := eth_dest (eth p), eth_dest := eth_src (eth p)\<rparr>,
       ip := iph\<lparr>ip_len := t_beui16 (hdrlen - 14), ttl := 0xff\<rparr>,
       tcp := tcph,
       rest := put_beui32 (put_beui32 (rest p) (ts_opt + 2) (t_beui32 myts)) (ts_opt + 6) (t_beui32 echots)\<rparr>)"

definition flow_tx_ack ::
  "fp_env \<Rightarrow> fastpath \<Rightarrow> u32 \<Rightarrow> u32 \<Rightarrow> u32 \<Rightarrow> u32 \<Rightarrow> u32 \<Rightarrow> nbuf \<Rightarrow> nat \<Rightarrow> fastpath result"
where
  "flow_tx_ack env st seq ack rxwnd echots myts nbh ts_opt =
    (let hdrlen = 54 + (TCPH_HDRLEN (tcp (nb_pkt nbh)) - 5) * 4;
         p = tx_ack_headers (nb_pkt nbh) seq ack rxwnd echots myts ts_opt;
         (p, nbh) = tcp_checksums env nbh p (ip_src (ip p)) (ip_dest (ip p)) (hdrlen - 34) in
     tx_send st (nbh\<lparr>nb_pkt := p\<rparr>) (nb_off nbh) hdrlen)"

section \<open>Retransmission state\<close>

definition flow_reset_retransmit :: "flextcp_pl_flowst \<Rightarrow> flextcp_pl_flowst" where
  "flow_reset_retransmit fs =
    (let sent = tx_sent fs;
         fs = fs\<lparr>rx_dupack_cnt := 0, tx_next_seq := tx_next_seq fs - sent,
                 tx_next_pos := if tx_next_pos fs \<ge> sent then tx_next_pos fs - sent
                                else tx_len fs - (sent - tx_next_pos fs),
                 tx_avail := tx_avail fs + sent, rx_remote_avail := rx_remote_avail fs + sent,
                 tx_sent := 0\<rparr>;
         fs = (if cnt_tx_drops fs = 0 then fs\<lparr>tx_rate := tx_rate fs div 2\<rparr> else fs) in
     fs\<lparr>cnt_tx_drops := cnt_tx_drops fs + 1\<rparr>)"

text \<open>A call of \<^verbatim>\<open>qman_set\<close> whose failure aborts.\<close>

definition qman_set_or_abort ::
  "fastpath \<Rightarrow> u32 \<Rightarrow> u32 \<Rightarrow> u32 \<Rightarrow> u16 \<Rightarrow> u8 \<Rightarrow> fastpath run"
where
  "qman_set_or_abort st fid r a chunk flags =
     bind_run (qman_set (qman st) fid r a chunk flags)
       (\<lambda>res. case res of None \<Rightarrow> Some (Inl Abort) | Some q \<Rightarrow> Some (Inr (st\<lparr>qman := q\<rparr>)))"

section \<open>Transmit path\<close>

text \<open>The state update for a segment of \<^verbatim>\<open>len\<close> bytes; \<^verbatim>\<open>FIN\<close> goes out with the last byte.\<close>

definition tx_advance :: "flextcp_pl_flowst \<Rightarrow> u32 \<Rightarrow> flextcp_pl_flowst" where
  "tx_advance fs len =
    (let pos = tx_next_pos fs + len in
     fs\<lparr>tx_next_seq := tx_next_seq fs + len,
        tx_next_pos := if pos \<ge> tx_len fs then pos - tx_len fs else pos,
        tx_sent := tx_sent fs + len, tx_avail := tx_avail fs - len\<rparr>)"

definition fast_flows_qman :: "fp_env \<Rightarrow> fastpath \<Rightarrow> u32 \<Rightarrow> nbuf \<Rightarrow> u32 \<Rightarrow> (int \<times> fastpath) run" where
  "fast_flows_qman env st queue nbh ts =
    (let flow_id = queue; fs = flowst st flow_id;
         new_core = ucast (flow_group_steering st (flow_group fs)) :: u16 in
     if new_core \<noteq> core_id st then
       case ring_enqueue env (qman_fwd_ring st new_core) flow_id of
         None \<Rightarrow> Some (Inl Abort)
       | Some r \<Rightarrow>
           bind_run (qman_set_or_abort
               (st\<lparr>qman_fwd_ring := (qman_fwd_ring st)(new_core := r)\<rparr>) flow_id 0 0 0 QMAN_SET_ALL)
             (\<lambda>st. Some (Inr (-1, st\<lparr>notified := notified st @ [new_core]\<rparr>)))
     else
       let av = tcp_txavail fs None in
       if av = 0 then Some (Inr (-1, st))
       else
         let len = (if TCP_MSS < av then TCP_MSS else av);
             tx_seq = tx_next_seq fs; tx_pos = tx_next_pos fs; rx_wnd = rx_avail fs;
             ack = rx_next_seq fs; fs = tx_advance fs len;
             fin = (fs_flag fs FLEXNIC_PL_FLOWST_TXFIN \<and> tx_avail fs = 0) in
         if fin \<and> \<not> len > 0 then Some (Inl Assert_Failed)
         else
           let len = (if fin then len - 1 else len) in
           Some (bind_res (flow_tx_segment env (upd_flow st flow_id fs) nbh fs tx_seq ack rx_wnd
                   (ucast len) tx_pos (tx_next_ts fs) ts fin) (\<lambda>st. Inr (0, st))))"

text \<open>\<^verbatim>\<open>flow_id\<close> is a \<^verbatim>\<open>uint16_t\<close> here, so flow numbers of 65536 and more are cut off.\<close>

definition fast_flows_qman_fwd :: "fastpath \<Rightarrow> u32 \<Rightarrow> (int \<times> fastpath) run" where
  "fast_flows_qman_fwd st fid =
    (let fs = flowst st fid; flow_id = ucast (ucast fid :: u16) :: u32; av = tcp_txavail fs None in
     bind_run (qman_set_or_abort st flow_id (tx_rate fs) av 1448 QMAN_SET_ALL) (\<lambda>st. Some (Inr (0, st))))"

section \<open>Receive path\<close>

text \<open>
  The checks of \<^verbatim>\<open>fast_flows_packet_parse\<close> for one packet.  They are joined by \<^verbatim>\<open>|\<close>, so the
  options are parsed whatever the other checks say.  \<open>None\<close> clears the flow pointer.
\<close>

definition fast_flows_packet_parse1 :: "nbuf \<Rightarrow> nat option option" where
  "fast_flows_packet_parse1 nbh =
    (let p = nb_pkt nbh; len = nb_len nbh in
     case tcp_parse_options p len of
       None \<Rightarrow> None
     | Some res \<Rightarrow>
         Some (if unat len < sizeof_pkt_tcp \<or> f_beui16 (eth_type (eth p)) \<noteq> ETH_TYPE_IP \<or>
             proto (ip p) \<noteq> IP_PROTO_TCP \<or> IPH_V (ip p) \<noteq> 4 \<or> IPH_HL (ip p) \<noteq> 5 \<or>
             TCPH_HDRLEN (tcp p) < 5 \<or> unat len < unat (f_beui16 (ip_len (ip p))) + sizeof_eth
           then None
           else case res of Inl _ \<Rightarrow> None | Inr opts \<Rightarrow> opts_ts opts))"

text \<open>
  Acknowledgement processing: the new flow state, the bytes acknowledged, and whether the
  third duplicate acknowledgement has reset the flow, which ends the processing of the packet.
\<close>

definition packet_ack :: "flextcp_pl_flowst \<Rightarrow> u16 \<Rightarrow> u32 \<Rightarrow> u32 \<Rightarrow> flextcp_pl_flowst \<times> u32 \<times> bool" where
  "packet_ack fs flags ack orig_payload =
    (if flags AND TCP_ACK \<noteq> TCP_ACK then (fs, 0, False)
     else
       let fs = fs\<lparr>cnt_rx_acks := cnt_rx_acks fs + 1\<rparr> in
       case tcp_valid_rxack fs ack of
         None \<Rightarrow> (fs, 0, False)
       | Some tx_bump \<Rightarrow>
           let fs = fs\<lparr>cnt_rx_ack_bytes := cnt_rx_ack_bytes fs + tx_bump\<rparr>;
               fs = (if flags AND TCP_ECE = TCP_ECE
                     then fs\<lparr>cnt_rx_ecn_bytes := cnt_rx_ecn_bytes fs + tx_bump\<rparr> else fs);
               fs = (if tx_bump \<le> tx_sent fs then fs\<lparr>tx_sent := tx_sent fs - tx_bump\<rparr>
                     else
                       let x = tx_bump - tx_sent fs; pos = tx_next_pos fs + x in
                       fs\<lparr>tx_next_seq := tx_next_seq fs + x,
                          tx_next_pos := if pos \<ge> tx_len fs then pos - tx_len fs else pos,
                          tx_avail := tx_avail fs - x, tx_sent := 0\<rparr>) in
           if tx_bump \<noteq> 0 then (fs\<lparr>rx_dupack_cnt := 0\<rparr>, tx_bump, False)
           else if orig_payload = 0 then
             let fs = fs\<lparr>rx_dupack_cnt := rx_dupack_cnt fs + 1\<rparr> in
             if rx_dupack_cnt fs \<ge> 3 then (flow_reset_retransmit fs, tx_bump, True)
             else (fs, tx_bump, False)
           else (fs, tx_bump, False))"

text \<open>
  Placing the payload: an out-of-order segment is kept if it extends the one interval the
  flow remembers, and ends the processing (\<open>None\<close>); otherwise the result is the payload
  that is next in order, its offset from the start of the packet and its length.
\<close>

definition packet_ooo ::
  "fp_env \<Rightarrow> mem \<Rightarrow> flextcp_pl_flowst \<Rightarrow> u32 \<Rightarrow> u32 \<Rightarrow> buf \<Rightarrow> nat \<Rightarrow> (flextcp_pl_flowst \<times> mem) result"
where
  "packet_ooo env m fs seq payload_bytes src off =
    (let fs' = (if rx_ooo_len fs = 0 then Some (fs\<lparr>rx_ooo_start := seq, rx_ooo_len := payload_bytes\<rparr>)
                else if seq + payload_bytes = rx_ooo_start fs then
                  Some (fs\<lparr>rx_ooo_start := seq, rx_ooo_len := rx_ooo_len fs + payload_bytes\<rparr>)
                else if rx_ooo_start fs + rx_ooo_len fs = seq then
                  Some (fs\<lparr>rx_ooo_len := rx_ooo_len fs + payload_bytes\<rparr>)
                else None) in
     case fs' of
       None \<Rightarrow> Inr (fs, m)
     | Some fs \<Rightarrow> bind_res (flow_rx_seq_write env m fs seq (ucast payload_bytes) src off)
                    (\<lambda>m. Inr (fs, m)))"

definition packet_seq ::
  "fp_env \<Rightarrow> mem \<Rightarrow> flextcp_pl_flowst \<Rightarrow> u32 \<Rightarrow> u32 \<Rightarrow> u32 \<Rightarrow> buf
     \<Rightarrow> (flextcp_pl_flowst \<times> mem \<times> (u32 \<times> u32) option) result"
where
  "packet_seq env m fs seq payload_bytes payload_off src =
    (case tcp_trim_rxbuf fs seq (ucast payload_bytes) of
       None \<Rightarrow> Inr (fs, m, None)
     | Some (trim_start, trim_end) \<Rightarrow>
         let payload_bytes = payload_bytes - (ucast trim_start + ucast trim_end);
             payload_off = payload_off + ucast trim_start;
             seq = seq + ucast trim_start in
         if seq \<noteq> rx_next_seq fs then
           if payload_bytes = 0 then Inr (fs, m, None)
           else bind_res (packet_ooo env m fs seq payload_bytes src (unat payload_off))
                  (\<lambda>(fs, m). Inr (fs, m, None))
         else Inr (fs, m, Some (payload_bytes, payload_off)))"

text \<open>Round-trip time estimate and peer window from a packet that is next in order.\<close>

definition packet_rtt :: "flextcp_pl_flowst \<Rightarrow> pkt_tcp \<Rightarrow> nat \<Rightarrow> u32 \<Rightarrow> flextcp_pl_flowst" where
  "packet_rtt fs p ts_opt ts =
    (let fs = fs\<lparr>tx_next_ts := f_beui32 (get_beui32 (rest p) (ts_opt + 2))\<rparr>;
         ecr = f_beui32 (get_beui32 (rest p) (ts_opt + 6));
         rtt = ts - ecr in
     if TCPH_FLAGS (tcp p) AND TCP_ACK = TCP_ACK \<and> ecr \<noteq> 0 \<and> rtt < TCP_MAX_RTT then
       fs\<lparr>rtt_est := if rtt_est fs \<noteq> 0 then (rtt_est fs * 7 + rtt) div 8 else rtt\<rparr>
     else fs)"

definition packet_window :: "flextcp_pl_flowst \<Rightarrow> pkt_tcp \<Rightarrow> flextcp_pl_flowst" where
  "packet_window fs p =
     fs\<lparr>rx_remote_avail := (rx_remote_avail fs AND 0xFF000000) OR ucast (f_beui16 (wnd (tcp p)))\<rparr>"

text \<open>Advancing the receive buffer by \<^verbatim>\<open>n\<close> bytes, with the assertion on the position.\<close>

definition rx_advance :: "flextcp_pl_flowst \<Rightarrow> u32 \<Rightarrow> flextcp_pl_flowst result" where
  "rx_advance fs n =
    (let pos = rx_next_pos fs + n; pos = (if pos \<ge> rx_len fs then pos - rx_len fs else pos) in
     if \<not> pos < rx_len fs then Inl Assert_Failed
     else Inr (fs\<lparr>rx_avail := rx_avail fs - n, rx_next_pos := pos, rx_next_seq := rx_next_seq fs + n\<rparr>))"

text \<open>After new data: drop, trim or take over the out-of-order interval.\<close>

definition packet_merge_ooo :: "flextcp_pl_flowst \<Rightarrow> u32 \<Rightarrow> (flextcp_pl_flowst \<times> u32) result" where
  "packet_merge_ooo fs rx_bump =
    (if rx_ooo_len fs = 0 then Inr (fs, rx_bump)
     else
       case tcp_trim_rxbuf fs (rx_ooo_start fs) (ucast (rx_ooo_len fs)) of
         None \<Rightarrow> Inr (fs\<lparr>rx_ooo_len := 0\<rparr>, rx_bump)
       | Some (trim_start, trim_end) \<Rightarrow>
           let fs = fs\<lparr>rx_ooo_start := rx_ooo_start fs + ucast trim_start,
                       rx_ooo_len := rx_ooo_len fs - (ucast trim_start + ucast trim_end)\<rparr> in
           if rx_ooo_len fs > 0 \<and> rx_ooo_start fs = rx_next_seq fs then
             let rx_bump = rx_bump + rx_ooo_len fs in
             bind_res (rx_advance fs (rx_ooo_len fs)) (\<lambda>fs. Inr (fs\<lparr>rx_ooo_len := 0\<rparr>, rx_bump))
           else Inr (fs, rx_bump))"

definition packet_payload ::
  "fp_env \<Rightarrow> mem \<Rightarrow> flextcp_pl_flowst \<Rightarrow> u32 \<Rightarrow> buf \<Rightarrow> nat \<Rightarrow> (flextcp_pl_flowst \<times> mem \<times> u32) result"
where
  "packet_payload env m fs payload_bytes src off =
    (if \<not> payload_bytes > 0 then Inr (fs, m, 0)
     else
       bind_res (flow_rx_write env m fs (rx_next_pos fs) (ucast payload_bytes) src off) (\<lambda>m.
       bind_res (rx_advance fs payload_bytes) (\<lambda>fs.
       bind_res (packet_merge_ooo fs payload_bytes) (\<lambda>(fs, rx_bump). Inr (fs, m, rx_bump)))))"

text \<open>A \<^verbatim>\<open>FIN\<close> counts if everything before it has arrived; the result says whether it did.\<close>

definition packet_fin :: "flextcp_pl_flowst \<Rightarrow> pkt_tcp \<Rightarrow> u32 \<Rightarrow> flextcp_pl_flowst \<times> bool" where
  "packet_fin fs p orig_payload =
    (if TCPH_FLAGS (tcp p) AND TCP_FIN = TCP_FIN \<and> rx_base_sp fs AND FLEXNIC_PL_FLOWST_RXFIN = 0 \<and>
        rx_next_seq fs = f_beui32 (seqno (tcp p)) + orig_payload \<and> rx_ooo_len fs = 0
     then (fs\<lparr>rx_base_sp := rx_base_sp fs OR FLEXNIC_PL_FLOWST_RXFIN, rx_next_seq := rx_next_seq fs + 1\<rparr>,
           True)
     else (fs, False))"

text \<open>The part behind the label \<^verbatim>\<open>unlock\<close>: notify the application, re-arm the queue, acknowledge.\<close>

definition packet_unlock ::
  "fp_env \<Rightarrow> fastpath \<Rightarrow> u32 \<Rightarrow> nbuf \<Rightarrow> nat \<Rightarrow> u32 \<Rightarrow> u32 \<Rightarrow> u32 \<Rightarrow> u32 \<Rightarrow> u32 \<Rightarrow> bool \<Rightarrow> bool \<Rightarrow> (int \<times> fastpath) run"
where
  "packet_unlock env st fid nbh ts_opt ts old_avail rx_pos rx_bump tx_bump fin_bump trigger_ack =
    (let fs = flowst st fid; flow_id = ucast (ucast fid :: u16) :: u32;
         type = FLEXTCP_PL_ARX_CONNUPDATE OR (if fin_bump then push_bit 8 FLEXTCP_PL_ARX_FLRXDONE else 0) in
     bind_run (Some (if rx_bump \<noteq> 0 \<or> tx_bump \<noteq> 0 \<or> fin_bump
                     then arx_cache_add st (db_id fs) (opaque fs) rx_bump rx_pos tx_bump type
                     else Inr st)) (\<lambda>st.
     let new_avail = tcp_txavail fs None in
     bind_run (if new_avail > old_avail
               then qman_set_or_abort st flow_id (tx_rate fs) (new_avail - old_avail) 1448 QMAN_ADD_ALL
               else Some (Inr st)) (\<lambda>st.
     bind_run (Some (if trigger_ack
                     then flow_tx_ack env st (tx_next_seq fs) (rx_next_seq fs) (rx_avail fs)
                            (tx_next_ts fs) ts nbh ts_opt
                     else Inr st)) (\<lambda>st.
     Some (Inr (if trigger_ack then 1 else 0, st))))))"

text \<open>Everything between acknowledgement processing and the label.\<close>

definition packet_data ::
  "fp_env \<Rightarrow> mem \<Rightarrow> flextcp_pl_flowst \<Rightarrow> pkt_tcp \<Rightarrow> nat \<Rightarrow> u32 \<Rightarrow> u32 \<Rightarrow> u32
     \<Rightarrow> (flextcp_pl_flowst \<times> mem \<times> u32 \<times> bool \<times> bool) result"
where
  "packet_data env m fs p ts_opt ts payload_bytes payload_off =
    (let orig_payload = payload_bytes; src = (\<lambda>i. rest p (i - sizeof_pkt_tcp)) in
     bind_res (packet_seq env m fs (f_beui32 (seqno (tcp p))) payload_bytes payload_off src) (\<lambda>(fs, m, res).
     case res of
       None \<Rightarrow> Inr (fs, m, 0, False, True)
     | Some (payload_bytes, payload_off) \<Rightarrow>
         let fs = packet_window (packet_rtt fs p ts_opt ts) p in
         if fs_flag fs FLEXNIC_PL_FLOWST_RXFIN \<and> payload_bytes > 0
         then Inr (fs, m, 0, False, orig_payload > 0)
         else
           bind_res (packet_payload env m fs payload_bytes src (unat payload_off)) (\<lambda>(fs, m, rx_bump).
           let (fs, fin_bump) = packet_fin fs p orig_payload in
           Inr (fs, m, rx_bump, fin_bump, orig_payload > 0 \<or> payload_bytes > 0 \<or> fin_bump))))"

definition fast_flows_packet ::
  "fp_env \<Rightarrow> fastpath \<Rightarrow> nbuf \<Rightarrow> u32 \<Rightarrow> nat \<Rightarrow> u32 \<Rightarrow> (int \<times> fastpath) run"
where
  "fast_flows_packet env st nbh fid ts_opt ts =
    (let p = nb_pkt nbh; fs = flowst st fid; flags = TCPH_FLAGS (tcp p);
         tcp_extra_hlen = (TCPH_HDRLEN (tcp p) - 5) * 4;
         payload_off = 54 + ucast tcp_extra_hlen :: u32;
         payload_bytes = ucast (f_beui16 (ip_len (ip p))) - (40 + ucast tcp_extra_hlen) :: u32 in
     if rx_base_sp fs AND FLEXNIC_PL_FLOWST_SLOWPATH \<noteq> 0 then
       Some (Inr (-1, upd_flow st fid (fs\<lparr>rx_base_sp := rx_base_sp fs OR FLEXNIC_PL_FLOWST_SLOWPATH\<rparr>)))
     else if flags AND NOT (TCP_ACK OR TCP_PSH OR TCP_ECE OR TCP_CWR OR TCP_FIN) \<noteq> 0 then
       Some (Inr (-1, if flags AND TCP_SYN \<noteq> 0 then st
                      else upd_flow st fid (fs\<lparr>rx_base_sp := rx_base_sp fs OR FLEXNIC_PL_FLOWST_SLOWPATH\<rparr>)))
     else
       let old_avail = tcp_txavail fs None; rx_pos = rx_next_pos fs;
           (fs, tx_bump, rexmit) = packet_ack fs flags (f_beui32 (ackno (tcp p))) payload_bytes in
       if rexmit then
         packet_unlock env (upd_flow st fid fs) fid nbh ts_opt ts old_avail rx_pos 0 tx_bump False
           (payload_bytes > 0)
       else
         bind_run (Some (packet_data env (fp_shm st) fs p ts_opt ts payload_bytes payload_off))
           (\<lambda>(fs, m, rx_bump, fin_bump, trigger_ack).
             packet_unlock env ((upd_flow st fid fs)\<lparr>fp_shm := m\<rparr>) fid nbh ts_opt ts old_avail rx_pos
               rx_bump tx_bump fin_bump trigger_ack))"

section \<open>Updates from the application and retransmission\<close>

text \<open>
  \<^verbatim>\<open>UINT16_MAX / 2\<close> is 32767, \<^verbatim>\<open>UINT16_MAX / 4\<close> 16383.
\<close>

definition bump_out_of_order :: "u16 \<Rightarrow> u16 \<Rightarrow> bool" where
  "bump_out_of_order seq old \<longleftrightarrow>
     (seq \<ge> old \<and> unat seq - unat old > 32767) \<or>
     (seq < old \<and> (unat old < 16383 * 3 \<or> unat seq > 16383))"

definition fast_flows_bump ::
  "fp_env \<Rightarrow> fastpath \<Rightarrow> u32 \<Rightarrow> u16 \<Rightarrow> u32 \<Rightarrow> u32 \<Rightarrow> u8 \<Rightarrow> nbuf \<Rightarrow> u32 \<Rightarrow> (int \<times> fastpath) run"
where
  "fast_flows_bump env st flow_id seq rx_bump tx_bump flags nbh ts =
    (let fs = flowst st flow_id in
     if bump_out_of_order seq (bump_seq fs) then Some (Inr (-1, st))
     else
       let fs = fs\<lparr>bump_seq := seq\<rparr>; closed = fs_flag fs FLEXNIC_PL_FLOWST_TXFIN;
           done = (flags AND FLEXTCP_PL_ATX_FLTXDONE = FLEXTCP_PL_ATX_FLTXDONE \<and>
                   rx_base_sp fs AND FLEXNIC_PL_FLOWST_TXFIN = 0) in
       if \<not> (closed \<and> tx_bump \<noteq> 0) \<and> done \<and> tx_bump = 0 then Some (Inr (-1, upd_flow st flow_id fs))
       else
         let tx_bump = (if closed \<and> tx_bump \<noteq> 0 then 0 else tx_bump); txav = tx_avail fs + tx_bump in
         if tx_bump > tx_len fs \<or> txav > tx_len fs \<or> txav + tx_sent fs > tx_len fs
         then Some (Inr (-1, upd_flow st flow_id fs))
         else if rx_bump > rx_len fs \<or> rx_bump + rx_avail fs > tx_len fs
         then Some (Inr (-1, upd_flow st flow_id fs))
         else
           let old_avail = tcp_txavail fs None; new_avail = tcp_txavail fs (Some txav);
               fs = (if done then fs\<lparr>rx_base_sp := rx_base_sp fs OR FLEXNIC_PL_FLOWST_TXFIN\<rparr> else fs) in
           bind_run (if old_avail < new_avail
                     then qman_set_or_abort st flow_id (tx_rate fs) (new_avail - old_avail) 1448 QMAN_ADD_ALL
                     else Some (Inr st)) (\<lambda>st.
           let rx_avail_prev = rx_avail fs;
               fs = fs\<lparr>tx_avail := txav, rx_avail := rx_avail fs + rx_bump\<rparr>;
               st = upd_flow st flow_id fs in
           if new_avail = 0 \<and> rx_avail_prev = 0 \<and> rx_avail fs \<noteq> 0 then
             Some (bind_res (flow_tx_segment env st nbh fs (tx_next_seq fs) (rx_next_seq fs) (rx_avail fs)
                      0 0 (tx_next_ts fs) ts False) (\<lambda>st. Inr (0, st)))
           else Some (Inr (-1, st))))"

definition fast_flows_retransmit :: "fastpath \<Rightarrow> u32 \<Rightarrow> fastpath run" where
  "fast_flows_retransmit st flow_id =
    (let fs = flowst st flow_id; old_avail = tcp_txavail fs None in
     if tx_sent fs = 0 then Some (Inr st)
     else
       let fs = flow_reset_retransmit fs; new_avail = tcp_txavail fs None;
           st = upd_flow st flow_id fs in
       if new_avail > old_avail
       then qman_set_or_abort st flow_id (tx_rate fs) (new_avail - old_avail) 1448 QMAN_ADD_ALL
       else Some (Inr st))"

section \<open>Flow lookup\<close>

abbreviation (input) FLEXNIC_PL_FLOWHTE_VALID :: u32 where "FLEXNIC_PL_FLOWHTE_VALID \<equiv> 0x80000000"

definition flow_hash :: "fp_env \<Rightarrow> beui32 \<Rightarrow> beui32 \<Rightarrow> beui16 \<Rightarrow> beui16 \<Rightarrow> u32" where
  "flow_hash env lip rip lp rp =
     crc32c_u32 env (ucast (beui16_x lp) OR push_bit 16 (ucast (beui16_x rp)))
       (crc32c_u64 env (ucast (beui32_x lip) OR push_bit 32 (ucast (beui32_x rip))) 0)"

text \<open>The search of the neighbourhood of a bucket; \<open>n\<close> entries are left.\<close>

fun flow_lookup :: "fastpath \<Rightarrow> u32 \<Rightarrow> pkt_tcp \<Rightarrow> nat \<Rightarrow> u32 option" where
  "flow_lookup st h p 0 = None"
| "flow_lookup st h p (Suc n) =
    (let j = of_nat (FLEXNIC_PL_FLOWHT_NBSZ - Suc n);
         e = flowht st ((h + j) mod of_nat FLEXNIC_PL_FLOWHT_ENTRIES); ffid = hte_flow_id e;
         fid = ffid AND (push_bit 29 1 - 1); fs = flowst st fid in
     if ffid AND FLEXNIC_PL_FLOWHTE_VALID = 0 \<or> hte_flow_hash e \<noteq> h then flow_lookup st h p n
     else if local_ip fs = ip_dest (ip p) \<and> remote_ip fs = ip_src (ip p) \<and>
             local_port fs = tcp_dest (tcp p) \<and> remote_port fs = tcp_src (tcp p)
     then Some fid
     else flow_lookup st h p n)"

definition fast_flows_packet_fss1 :: "fp_env \<Rightarrow> fastpath \<Rightarrow> nbuf \<Rightarrow> u32 option" where
  "fast_flows_packet_fss1 env st nbh =
    (let p = nb_pkt nbh;
         h = flow_hash env (ip_dest (ip p)) (ip_src (ip p)) (tcp_dest (tcp p)) (tcp_src (tcp p)) in
     flow_lookup st h p FLEXNIC_PL_FLOWHT_NBSZ)"

end
