(* ===== verification/Flow_Table.thy ===== *)
theory Flow_Table
  imports Fast_Flows
begin

text \<open>
  The slow path's side of the flow lookup table and the flow id allocator,
  \<^verbatim>\<open>tas/slow/nicif.c\<close>: a hopscotch hash table of \<^verbatim>\<open>FLEXNIC_PL_FLOWHT_ENTRIES\<close> slots in which
  a flow stands at most \<^verbatim>\<open>FLEXNIC_PL_FLOWHT_NBSZ - 1\<close> slots behind the one its hash names,
  and a linked list of free flow ids.  The fast path's side is \<open>flow_lookup\<close>.  The loops of
  the C code are partial functions; \<open>None\<close> is a loop that does not end.
\<close>

unbundle bit_operations_syntax

section \<open>The lookup table\<close>

type_synonym flow_table = "u32 \<Rightarrow> flextcp_pl_flowhte"

abbreviation (input) FLOWHT_ENTRIES :: u32 where "FLOWHT_ENTRIES \<equiv> 262144"
abbreviation (input) FLOWHT_NBSZ :: u32 where "FLOWHT_NBSZ \<equiv> 4"
abbreviation (input) FLOWHTE_POSSHIFT :: nat where "FLOWHTE_POSSHIFT \<equiv> 29"

definition hte_valid :: "flextcp_pl_flowhte \<Rightarrow> bool" where
  "hte_valid e \<longleftrightarrow> hte_flow_id e AND FLEXNIC_PL_FLOWHTE_VALID \<noteq> 0"

text \<open>The displacement stored in an entry, and the id of its flow.\<close>

definition hte_disp :: "flextcp_pl_flowhte \<Rightarrow> u32" where
  "hte_disp e = drop_bit FLOWHTE_POSSHIFT (hte_flow_id e) AND (FLOWHT_NBSZ - 1)"

definition hte_fid :: "flextcp_pl_flowhte \<Rightarrow> u32" where
  "hte_fid e = hte_flow_id e AND (push_bit FLOWHTE_POSSHIFT 1 - 1)"

definition mk_flow_id :: "u32 \<Rightarrow> u32 \<Rightarrow> u32" where
  "mk_flow_id d fid = FLEXNIC_PL_FLOWHTE_VALID OR push_bit FLOWHTE_POSSHIFT d OR fid"

text \<open>The two loops that look for an empty slot from \<^verbatim>\<open>i\<close> up to \<^verbatim>\<open>l\<close>, counting in \<^verbatim>\<open>d\<close>.\<close>

partial_function (option) slot_scan :: "flow_table \<Rightarrow> u32 \<Rightarrow> u32 \<Rightarrow> u32 \<Rightarrow> (u32 \<times> u32) option" where
  "slot_scan ht i l d =
    (if i = l \<or> \<not> hte_valid (ht i) then Some (i, d)
     else slot_scan ht ((i + 1) mod FLOWHT_ENTRIES) l (d + 1))"

text \<open>The loop that looks for an element that can be moved to the empty slot \<^verbatim>\<open>k\<close>.\<close>

partial_function (option) swap_scan :: "flow_table \<Rightarrow> u32 \<Rightarrow> u32 \<Rightarrow> u32 run" where
  "swap_scan ht i k =
    (if i = k then Some (Inr i)
     else if \<not> hte_valid (ht i) then Some (Inl Assert_Failed)
     else if (k - i) mod FLOWHT_ENTRIES \<le> FLOWHT_NBSZ - 1 - hte_disp (ht i) then Some (Inr i)
     else swap_scan ht ((i + 1) mod FLOWHT_ENTRIES) k)"

text \<open>Moving an element up: the displacement field is written as it was.\<close>

definition move_entry :: "flow_table \<Rightarrow> u32 \<Rightarrow> u32 \<Rightarrow> flow_table" where
  "move_entry ht i k =
    (let ht = ht(k := \<lparr>hte_flow_id = mk_flow_id (hte_disp (ht i)) (hte_fid (ht i)),
                       hte_flow_hash = hte_flow_hash (ht i)\<rparr>) in
     ht(i := (ht i)\<lparr>hte_flow_id := 0\<rparr>))"

partial_function (option) slot_move :: "flow_table \<Rightarrow> u32 \<Rightarrow> u32 \<Rightarrow> u32 \<Rightarrow> (flow_table \<times> u32 option) run" where
  "slot_move ht j l i =
    (if (j > l \<or> (i < j \<or> i \<ge> l)) \<and> (j < l \<or> (i \<ge> l \<and> i < j)) then
       case swap_scan ht ((i - FLOWHT_NBSZ) mod FLOWHT_ENTRIES) i of
         None \<Rightarrow> None
       | Some (Inl e) \<Rightarrow> Some (Inl e)
       | Some (Inr i') \<Rightarrow>
           if i' = i then Some (Inr (ht, None))
           else if hte_valid (ht i) then Some (Inl Assert_Failed)
           else slot_move (move_entry ht i' i) j l i'
     else Some (Inr (ht, Some i)))"

text \<open>The result is the table and, on success, the free slot and its displacement.\<close>

definition flow_slot_alloc :: "flow_table \<Rightarrow> u32 \<Rightarrow> (flow_table \<times> (u32 \<times> u32) option) run" where
  "flow_slot_alloc ht h =
    (let j = h mod FLOWHT_ENTRIES; l = (j + FLOWHT_NBSZ) mod FLOWHT_ENTRIES in
     case slot_scan ht j l 0 of
       None \<Rightarrow> None
     | Some (i, d) \<Rightarrow>
         if i \<noteq> l then Some (Inr (ht, Some (i, d)))
         else
           let k = (l + 4 * FLOWHT_NBSZ) mod FLOWHT_ENTRIES in
           case slot_scan ht i k 0 of
             None \<Rightarrow> None
           | Some (i, _) \<Rightarrow>
               if i = k then Some (Inr (ht, None))
               else
                 bind_run (slot_move ht j l i) (\<lambda>(ht, r).
                 Some (Inr (ht, case r of None \<Rightarrow> None | Some i \<Rightarrow> Some (i, (i - j) mod FLOWHT_ENTRIES)))))"

fun flow_slot_clear :: "flow_table \<Rightarrow> u32 \<Rightarrow> u32 \<Rightarrow> nat \<Rightarrow> flow_table" where
  "flow_slot_clear ht h f_id 0 = ht"
| "flow_slot_clear ht h f_id (Suc n) =
    (let k = (h + of_nat (FLEXNIC_PL_FLOWHT_NBSZ - Suc n)) mod FLOWHT_ENTRIES; e = ht k in
     if \<not> hte_valid e \<or> hte_flow_hash e \<noteq> h then flow_slot_clear ht h f_id n
     else if hte_fid e = f_id
     then ht(k := e\<lparr>hte_flow_id := hte_flow_id e AND NOT FLEXNIC_PL_FLOWHTE_VALID\<rparr>)
     else flow_slot_clear ht h f_id n)"

section \<open>The flow id allocator\<close>

text \<open>\<^verbatim>\<open>flow_id_items\<close> with their links, and the head of the free list.\<close>

record flow_ids =
  items_next :: "u32 \<Rightarrow> u32 option"
  freelist :: "u32 option"

definition flow_id_init_item :: "nat \<Rightarrow> flow_ids \<times> u32 option \<Rightarrow> flow_ids \<times> u32 option" where
  "flow_id_init_item i = (\<lambda>(st, prev).
    let it = of_nat i; st = st\<lparr>items_next := (items_next st)(it := None)\<rparr> in
    (case prev of None \<Rightarrow> st\<lparr>freelist := Some it\<rparr>
     | Some p \<Rightarrow> st\<lparr>items_next := (items_next st)(p := Some it)\<rparr>, Some it))"

definition flow_id_alloc_init :: "flow_ids \<Rightarrow> flow_ids" where
  "flow_id_alloc_init st = fst (fold flow_id_init_item [0..<FLEXNIC_PL_FLOWST_NUM] (st, None))"

definition flow_id_alloc :: "flow_ids \<Rightarrow> (u32 \<times> flow_ids) option" where
  "flow_id_alloc st = (case freelist st of None \<Rightarrow> None
     | Some it \<Rightarrow> Some (it, st\<lparr>freelist := items_next st it\<rparr>))"

definition flow_id_free :: "flow_ids \<Rightarrow> u32 \<Rightarrow> flow_ids" where
  "flow_id_free st fid = st\<lparr>items_next := (items_next st)(fid := freelist st), freelist := Some fid\<rparr>"

section \<open>Slots\<close>

text \<open>Slots are counted from the home slot of a hash.\<close>

definition slot :: "u32 \<Rightarrow> nat \<Rightarrow> u32" where
  "slot h e = (h + of_nat e) mod FLOWHT_ENTRIES"

definition slot_dist :: "u32 \<Rightarrow> u32 \<Rightarrow> nat" where
  "slot_dist h i = unat ((i - h) mod FLOWHT_ENTRIES)"

lemma uint_mod_entries: "uint (x mod FLOWHT_ENTRIES) = uint x mod 262144"
  by (simp add: uint_mod)

lemma uint_of_nat_u32: "uint (of_nat e :: u32) = int e mod 4294967296"
  by (simp add: unsigned_of_nat take_bit_eq_mod zmod_int)

lemma uint_add_entries: "uint ((x + of_nat e) mod FLOWHT_ENTRIES) = (uint x + int e) mod 262144"
proof -
  have "uint (x + of_nat e) = (uint x + int e) mod 4294967296"
    unfolding uint_word_ariths(1) uint_of_nat_u32 by (simp add: mod_add_right_eq)
  then show ?thesis
    by (simp add: uint_mod_entries mod_mod_cancel)
qed

lemma uint_diff_entries: "uint ((a - b) mod FLOWHT_ENTRIES) = (uint a - uint b) mod 262144"
  by (simp add: uint_mod_entries uint_word_ariths(2) mod_mod_cancel)

lemma uint_slot: "uint (slot h e) = (uint h + int e) mod 262144"
  by (simp add: slot_def uint_add_entries)

lemma slot_lt: "slot h e < FLOWHT_ENTRIES"
  by (simp add: word_less_def uint_slot)

lemma slot_add: "(slot h a + of_nat b) mod FLOWHT_ENTRIES = slot h (a + b)"
  unfolding word_uint_eq_iff uint_add_entries uint_slot by (simp add: mod_add_left_eq add.assoc)

lemma slot_Suc: "(slot h e + 1) mod FLOWHT_ENTRIES = slot h (Suc e)"
  using slot_add [of h e 1] by simp

lemma slot_diff: "x \<le> e \<Longrightarrow> e - x < 262144 \<Longrightarrow> (slot h e - slot h x) mod FLOWHT_ENTRIES = of_nat (e - x)"
proof -
  assume le: "x \<le> e" "e - x < 262144"
  have "(uint (slot h e) - uint (slot h x)) mod 262144 = (int e - int x) mod 262144"
    unfolding uint_slot by (simp add: mod_diff_eq)
  also have "\<dots> = int (e - x) mod 4294967296"
    using le by (simp add: of_nat_diff)
  finally show ?thesis
    unfolding word_uint_eq_iff uint_diff_entries uint_of_nat_u32 .
qed

lemma slot_back: "4 \<le> e \<Longrightarrow> (slot h e - 4) mod FLOWHT_ENTRIES = slot h (e - 4)"
proof -
  assume e: "4 \<le> e"
  have 4: "uint (4 :: u32) = 4"
    by simp
  have "(uint (slot h e) - 4) mod 262144 = (uint h + int e - 4) mod 262144"
    unfolding uint_slot by (simp add: mod_diff_left_eq)
  also have "uint h + int e - 4 = uint h + int (e - 4)"
    using e by (simp add: of_nat_diff)
  finally show ?thesis
    unfolding word_uint_eq_iff uint_diff_entries 4 uint_slot .
qed

lemma slot_dist_slot: "e < 262144 \<Longrightarrow> slot_dist h (slot h e) = e"
proof -
  assume "e < 262144"
  have "(uint (slot h e) - uint h) mod 262144 = int e mod 262144"
    unfolding uint_slot by (simp add: mod_diff_left_eq)
  with \<open>e < 262144\<close> show ?thesis
    by (simp add: slot_dist_def unat_eq_nat_uint uint_diff_entries)
qed

lemma slot_slot_dist: "i < FLOWHT_ENTRIES \<Longrightarrow> slot h (slot_dist h i) = i"
proof -
  assume "i < FLOWHT_ENTRIES"
  then have i: "uint i < 262144" "0 \<le> uint i"
    by (simp_all add: word_less_def)
  have "int (slot_dist h i) = (uint i - uint h) mod 262144"
    by (simp add: slot_dist_def unat_eq_nat_uint uint_diff_entries)
  then have "uint (slot h (slot_dist h i)) = uint i mod 262144"
    by (simp add: uint_slot mod_add_right_eq)
  with i show ?thesis
    by (simp add: word_uint_eq_iff)
qed

lemma slot_eq: "a < 262144 \<Longrightarrow> b < 262144 \<Longrightarrow> slot h a = slot h b \<longleftrightarrow> a = b"
  using slot_dist_slot by metis

lemma slot_dist_lt: "slot_dist h i < 262144"
  using uint_diff_entries [of i h] by (simp add: slot_dist_def unat_eq_nat_uint)

lemma slot_0: "slot h 0 = h mod FLOWHT_ENTRIES"
  by (simp add: slot_def)

text \<open>The test of the moving loop: the slot is not in the neighbourhood yet.\<close>

lemma out_of_range:
  assumes "e < 262144"
  shows "((slot h 0 > slot h 4 \<or> (slot h e < slot h 0 \<or> slot h e \<ge> slot h 4)) \<and>
    (slot h 0 < slot h 4 \<or> (slot h e \<ge> slot h 4 \<and> slot h e < slot h 0))) \<longleftrightarrow> 4 \<le> e"
proof -
  define J where "J = uint h mod 262144"
  have J: "0 \<le> J" "J < 262144"
    by (simp_all add: J_def)
  have s: "uint (slot h x) = (if J + int x < 262144 then J + int x else J + int x - 262144)" if "x < 262144" for x
  proof -
    have "uint (slot h x) = (J + int x) mod 262144"
      by (simp add: uint_slot J_def mod_add_left_eq)
    moreover have "(J + int x) mod 262144 = J + int x - 262144" if "\<not> J + int x < 262144"
    proof -
      have "(J + int x) mod 262144 = (J + int x - 262144) mod 262144"
        by (rule minus_mod_self2 [symmetric])
      also have "\<dots> = J + int x - 262144"
        using J that \<open>x < 262144\<close> by (intro mod_pos_pos_trivial) linarith+
      finally show ?thesis .
    qed
    ultimately show ?thesis
      using J by simp
  qed
  show ?thesis
    unfolding word_less_def word_le_def s [OF assms] s [of 0, simplified] s [of 4, simplified]
    using J assms by auto
qed

section \<open>Entries\<close>

lemma hte_fid_bound: "hte_fid e AND 0x1FFFFFFF = hte_fid e"
  by (simp add: hte_fid_def push_bit_eq_mult and.assoc)

lemma mk_flow_id_parts:
  assumes "d < 4" "f AND 0x1FFFFFFF = f"
  shows "hte_valid \<lparr>hte_flow_id = mk_flow_id d f, hte_flow_hash = h\<rparr>"
    "hte_disp \<lparr>hte_flow_id = mk_flow_id d f, hte_flow_hash = h\<rparr> = d"
    "hte_fid \<lparr>hte_flow_id = mk_flow_id d f, hte_flow_hash = h\<rparr> = f"
proof -
  have "unat d < 4"
    using assms(1) by (simp add: word_less_nat_alt)
  then consider "d = 0" | "d = 1" | "d = 2" | "d = 3"
    by (fastforce simp: word_unat_eq_iff)
  note d = this
  have "f = take_bit 29 f"
    using assms(2) by (simp add: take_bit_eq_mask mask_eq_exp_minus_1)
  then have f: "drop_bit 29 f = 0"
    by (metis drop_bit_take_bit diff_self_eq_0 take_bit_0)
  show "hte_valid \<lparr>hte_flow_id = mk_flow_id d f, hte_flow_hash = h\<rparr>"
    by (simp add: hte_valid_def mk_flow_id_def bit.conj_disj_distrib2)
  show "hte_disp \<lparr>hte_flow_id = mk_flow_id d f, hte_flow_hash = h\<rparr> = d"
    by (cases rule: d) (simp_all add: hte_disp_def mk_flow_id_def f)
  show "hte_fid \<lparr>hte_flow_id = mk_flow_id d f, hte_flow_hash = h\<rparr> = f"
    by (cases rule: d) (simp_all add: hte_fid_def mk_flow_id_def bit.conj_disj_distrib2 assms(2))
qed


text \<open>The flows of a table, where a lookup finds them, and tables whose entries stand and are marked right.\<close>

definition has_entry :: "flow_table \<Rightarrow> u32 \<Rightarrow> u32 \<Rightarrow> bool" where
  "has_entry ht h f \<longleftrightarrow>
     (\<exists>i < FLOWHT_ENTRIES. hte_valid (ht i) \<and> hte_flow_hash (ht i) = h \<and> hte_fid (ht i) = f)"

definition findable :: "flow_table \<Rightarrow> u32 \<Rightarrow> u32 \<Rightarrow> bool" where
  "findable ht h f \<longleftrightarrow>
     (\<exists>j < 4. hte_valid (ht (slot h j)) \<and> hte_flow_hash (ht (slot h j)) = h \<and> hte_fid (ht (slot h j)) = f)"

definition in_neighbourhood :: "flow_table \<Rightarrow> bool" where
  "in_neighbourhood ht \<longleftrightarrow>
     (\<forall>i < FLOWHT_ENTRIES. hte_valid (ht i) \<longrightarrow> slot_dist (hte_flow_hash (ht i)) i < 4)"

definition disp_exact :: "flow_table \<Rightarrow> bool" where
  "disp_exact ht \<longleftrightarrow>
     (\<forall>i < FLOWHT_ENTRIES. hte_valid (ht i) \<longrightarrow> unat (hte_disp (ht i)) = slot_dist (hte_flow_hash (ht i)) i)"

lemma hte_disp_lt: "unat (hte_disp e) < 4"
proof -
  have "hte_disp e \<le> 3"
    by (simp add: hte_disp_def word_and_le1)
  then show ?thesis
    by (simp add: word_le_nat_alt)
qed

lemma exact_in_neighbourhood: "disp_exact ht \<Longrightarrow> in_neighbourhood ht"
  using hte_disp_lt by (auto simp: disp_exact_def in_neighbourhood_def) metis

lemma findable_has_entry: "in_neighbourhood ht \<Longrightarrow> findable ht h f \<longleftrightarrow> has_entry ht h f"
  unfolding findable_def has_entry_def in_neighbourhood_def
  using slot_lt slot_slot_dist by metis

section \<open>The search loops\<close>

lemma slot_scan_ok:
  assumes "a \<le> b" "b < 262144"
  obtains e where "slot_scan ht (slot h a) (slot h b) d = Some (slot h e, d + of_nat (e - a))" "a \<le> e" "e \<le> b"
    "\<And>x. a \<le> x \<Longrightarrow> x < e \<Longrightarrow> hte_valid (ht (slot h x))" "e < b \<Longrightarrow> \<not> hte_valid (ht (slot h e))"
  using assms
proof (induction "b - a" arbitrary: a d thesis)
  case 0
  then have "a = b" by linarith
  then show ?case
    by (intro "0.prems"(1) [of b]) (simp_all add: slot_scan.simps [of ht "slot h b"])
next
  case (Suc n)
  then have ab: "a < b"
    by linarith
  show ?case
  proof (cases "hte_valid (ht (slot h a))")
    case False
    then show ?thesis
      using ab by (intro Suc.prems(1) [of a]) (simp_all add: slot_scan.simps [of ht "slot h a"])
  next
    case True
    have ne: "slot h a \<noteq> slot h b"
      using ab Suc.prems by (simp add: slot_eq)
    obtain e where e: "slot_scan ht (slot h (Suc a)) (slot h b) (d + 1) = Some (slot h e, d + 1 + of_nat (e - Suc a))"
      "Suc a \<le> e" "e \<le> b" "\<And>x. Suc a \<le> x \<Longrightarrow> x < e \<Longrightarrow> hte_valid (ht (slot h x))"
      "e < b \<Longrightarrow> \<not> hte_valid (ht (slot h e))"
      by (rule Suc.hyps(1) [of "Suc a" "d + 1"]) (use Suc.hyps(2) Suc.prems ab in auto)
    have "of_nat (e - a) = (1 + of_nat (e - Suc a) :: u32)"
      using e(2) by (simp add: of_nat_diff)
    then have "slot_scan ht (slot h a) (slot h b) d = Some (slot h e, d + of_nat (e - a))"
      using True ne e(1) by (subst slot_scan.simps) (simp add: slot_Suc)
    moreover have "hte_valid (ht (slot h x))" if "a \<le> x" "x < e" for x
      using that True e(4) by (cases "x = a") auto
    ultimately show ?thesis
      using e by (intro Suc.prems(1) [of e]) auto
  qed
qed

lemma swap_scan_ok:
  assumes "a \<le> e" "e < 262144" "\<And>x. a \<le> x \<Longrightarrow> x < e \<Longrightarrow> hte_valid (ht (slot h x))"
  obtains x where "swap_scan ht (slot h a) (slot h e) = Some (Inr (slot h x))" "a \<le> x" "x \<le> e"
    "x < e \<Longrightarrow> e - x + unat (hte_disp (ht (slot h x))) < 4"
  using assms
proof (induction "e - a" arbitrary: a thesis)
  case 0
  then have "a = e" by linarith
  then show ?case
    by (intro "0.prems"(1) [of e]) (simp_all add: swap_scan.simps [of ht "slot h e"])
next
  case (Suc n)
  then have ae: "a < e"
    by linarith
  have ne: "slot h a \<noteq> slot h e" and v: "hte_valid (ht (slot h a))"
    using ae Suc.prems by (simp_all add: slot_eq)
  let ?d = "hte_disp (ht (slot h a))"
  have "unat (4 - 1 - ?d) = 3 - unat ?d"
    using hte_disp_lt [of "ht (slot h a)"] by (simp add: unat_u32_sub)
  moreover have "unat (of_nat (e - a) :: u32) = e - a"
    using Suc.prems(3) by (simp add: unat_of_nat del: of_nat_diff)
  ultimately have test: "(slot h e - slot h a) mod FLOWHT_ENTRIES \<le> 4 - 1 - ?d \<longleftrightarrow> e - a \<le> 3 - unat ?d"
    using ae Suc.prems by (simp add: slot_diff word_le_nat_alt)
  show ?case
  proof (cases "e - a \<le> 3 - unat ?d")
    case True
    then show ?thesis
      using ae ne v test hte_disp_lt [of "ht (slot h a)"]
      by (intro Suc.prems(1) [of a]) (simp_all add: swap_scan.simps [of ht "slot h a"])
  next
    case False
    obtain x where x: "swap_scan ht (slot h (Suc a)) (slot h e) = Some (Inr (slot h x))" "Suc a \<le> x" "x \<le> e"
      "x < e \<Longrightarrow> e - x + unat (hte_disp (ht (slot h x))) < 4"
      by (rule Suc.hyps(1) [of "Suc a"]) (use Suc.hyps(2) Suc.prems ae in auto)
    have "swap_scan ht (slot h a) (slot h e) = Some (Inr (slot h x))"
      using False ne v test x(1) by (subst swap_scan.simps) (simp add: slot_Suc)
    then show ?thesis
      using x by (intro Suc.prems(1) [of x]) auto
  qed
qed

section \<open>Making room\<close>

lemma slot_dist_shift:
  assumes "x \<le> e" "slot_dist g (slot h x) + (e - x) < 262144"
  shows "slot_dist g (slot h e) = slot_dist g (slot h x) + (e - x)"
proof -
  have "slot h e = (slot h x + of_nat (e - x)) mod FLOWHT_ENTRIES"
    using slot_add [of h x "e - x"] assms(1) by simp
  also have "slot h x = slot g (slot_dist g (slot h x))"
    by (simp add: slot_slot_dist slot_lt)
  finally have "slot h e = slot g (slot_dist g (slot h x) + (e - x))"
    by (simp add: slot_add)
  then show ?thesis
    using assms(2) by (simp add: slot_dist_slot)
qed

lemma move_entry_at:
  assumes "i \<noteq> k"
  shows "move_entry ht i k j = (if j = i then (ht i)\<lparr>hte_flow_id := 0\<rparr>
    else if j = k then \<lparr>hte_flow_id = mk_flow_id (hte_disp (ht i)) (hte_fid (ht i)), hte_flow_hash = hte_flow_hash (ht i)\<rparr>
    else ht j)"
  using assms by (simp add: move_entry_def Let_def)

lemma moved_parts:
  "hte_valid \<lparr>hte_flow_id = mk_flow_id (hte_disp e) (hte_fid e), hte_flow_hash = g\<rparr>"
  "hte_fid \<lparr>hte_flow_id = mk_flow_id (hte_disp e) (hte_fid e), hte_flow_hash = g\<rparr> = hte_fid e"
  "hte_disp \<lparr>hte_flow_id = mk_flow_id (hte_disp e) (hte_fid e), hte_flow_hash = g\<rparr> = hte_disp e"
  using mk_flow_id_parts [of "hte_disp e" "hte_fid e" g] hte_disp_lt [of e] hte_fid_bound [of e]
  by (simp_all add: word_less_nat_alt)

lemma not_valid_0 [simp]: "\<not> hte_valid (e\<lparr>hte_flow_id := 0\<rparr>)"
  by (simp add: hte_valid_def)

lemma move_entry_keeps:
  assumes "i \<noteq> k" "i < FLOWHT_ENTRIES" "k < FLOWHT_ENTRIES" "hte_valid (ht i)" "\<not> hte_valid (ht k)"
  shows "has_entry (move_entry ht i k) h f \<longleftrightarrow> has_entry ht h f"
proof
  assume "has_entry (move_entry ht i k) h f"
  then obtain j where "j < FLOWHT_ENTRIES" "hte_valid (move_entry ht i k j)" "hte_flow_hash (move_entry ht i k j) = h"
    "hte_fid (move_entry ht i k j) = f"
    by (auto simp: has_entry_def)
  then show "has_entry ht h f"
    using assms unfolding has_entry_def
    by (cases "j = k") (auto simp: move_entry_at moved_parts split: if_splits)
next
  assume "has_entry ht h f"
  then obtain j where j: "j < FLOWHT_ENTRIES" "hte_valid (ht j)" "hte_flow_hash (ht j) = h" "hte_fid (ht j) = f"
    by (auto simp: has_entry_def)
  show "has_entry (move_entry ht i k) h f"
    unfolding has_entry_def
    by (rule exI [of _ "if j = i then k else j"]) (use assms j in \<open>auto simp: move_entry_at moved_parts\<close>)
qed

definition ready :: "flow_table \<Rightarrow> u32 \<Rightarrow> nat \<Rightarrow> bool" where
  "ready ht h e \<longleftrightarrow> in_neighbourhood ht \<and> \<not> hte_valid (ht (slot h e)) \<and>
     (\<forall>x<e. hte_valid (ht (slot h x)) \<and>
        unat (hte_disp (ht (slot h x))) = slot_dist (hte_flow_hash (ht (slot h x))) (slot h x))"

lemma ready_step:
  assumes r: "ready ht h e" and x: "x < e" "e < 262144" "e - x + unat (hte_disp (ht (slot h x))) < 4"
  shows "ready (move_entry ht (slot h x) (slot h e)) h x"
    "has_entry (move_entry ht (slot h x) (slot h e)) = has_entry ht"
proof -
  let ?t = "move_entry ht (slot h x) (slot h e)" and ?g = "hte_flow_hash (ht (slot h x))"
  have ne: "slot h x \<noteq> slot h e"
    using x by (simp add: slot_eq)
  note at = move_entry_at [OF ne, of ht]
  have v: "hte_valid (ht (slot h x))" "unat (hte_disp (ht (slot h x))) = slot_dist ?g (slot h x)"
    "\<not> hte_valid (ht (slot h e))"
    using r x(1) by (simp_all add: ready_def)
  have "slot_dist ?g (slot h e) < 4"
    using slot_dist_shift [of x e ?g h] x v(2) by simp
  then have "in_neighbourhood ?t"
    using r by (auto simp: in_neighbourhood_def at ready_def)
  moreover have "?t (slot h y) = ht (slot h y)" if "y < x" for y
    using that x by (simp add: at slot_eq)
  ultimately show "ready ?t h x"
    using r x(1) by (simp add: ready_def at)
  show "has_entry ?t = has_entry ht"
    using move_entry_keeps [OF ne slot_lt slot_lt v(1,3)] by (simp add: fun_eq_iff)
qed

text \<open>A moved entry tells a displacement that is no longer true.\<close>

lemma moved_not_exact:
  assumes r: "ready ht h e" and x: "x < e" "e < 262144" "e - x + unat (hte_disp (ht (slot h x))) < 4"
    and t: "ht' (slot h e) = move_entry ht (slot h x) (slot h e) (slot h e)"
  shows "\<not> disp_exact ht'"
proof
  assume "disp_exact ht'"
  let ?g = "hte_flow_hash (ht (slot h x))"
  have ne: "slot h x \<noteq> slot h e" and d: "unat (hte_disp (ht (slot h x))) = slot_dist ?g (slot h x)"
    using r x by (simp_all add: slot_eq ready_def)
  then have e: "ht' (slot h e) = \<lparr>hte_flow_id = mk_flow_id (hte_disp (ht (slot h x))) (hte_fid (ht (slot h x))), hte_flow_hash = ?g\<rparr>"
    using move_entry_at [OF ne, of ht "slot h e"] by (simp add: t)
  then have "unat (hte_disp (ht (slot h x))) = slot_dist ?g (slot h e)"
    using \<open>disp_exact ht'\<close> moved_parts(1,3) [of "ht (slot h x)" ?g] slot_lt by (metis disp_exact_def flextcp_pl_flowhte.select_convs(2))
  then show False
    using slot_dist_shift [of x e ?g h] x d by simp
qed

lemma slot_move_ok:
  assumes "ready ht h e" "e < 262144"
  obtains ht' r where "slot_move ht (slot h 0) (slot h 4) (slot h e) = Some (Inr (ht', r))"
    "in_neighbourhood ht'" "has_entry ht' = has_entry ht"
    "\<And>i. r = Some i \<Longrightarrow> \<exists>e'<4. i = slot h e' \<and> \<not> hte_valid (ht' i)"
    "\<And>y. e < y \<Longrightarrow> y < 262144 \<Longrightarrow> ht' (slot h y) = ht (slot h y)" "4 \<le> e \<Longrightarrow> ht' = ht \<and> r = None \<or> \<not> disp_exact ht'"
  using assms
proof (induction e arbitrary: ht thesis rule: less_induct)
  case (less e)
  note r = less.prems(2) and e = less.prems(3)
  show ?case
  proof (cases "4 \<le> e")
    case False
    then have "slot_move ht (slot h 0) (slot h 4) (slot h e) = Some (Inr (ht, Some (slot h e)))"
      using out_of_range [OF e, of h] by (subst slot_move.simps) (simp del: de_Morgan_conj de_Morgan_disj)
    then show ?thesis
      using r False by (intro less.prems(1) [of ht "Some (slot h e)"]) (auto simp: ready_def not_le)
  next
    case True
    obtain x where x: "swap_scan ht (slot h (e - 4)) (slot h e) = Some (Inr (slot h x))" "e - 4 \<le> x" "x \<le> e"
      "x < e \<Longrightarrow> e - x + unat (hte_disp (ht (slot h x))) < 4"
      by (rule swap_scan_ok [of "e - 4" e ht h]) (use r e in \<open>auto simp: ready_def\<close>)
    have run: "slot_move ht (slot h 0) (slot h 4) (slot h e) =
      (if slot h x = slot h e then Some (Inr (ht, None))
       else if hte_valid (ht (slot h e)) then Some (Inl Assert_Failed)
       else slot_move (move_entry ht (slot h x) (slot h e)) (slot h 0) (slot h 4) (slot h x))"
      using out_of_range [OF e, of h] True x(1) slot_back [OF True, of h] by (subst slot_move.simps) (simp del: not_less)
    show ?thesis
    proof (cases "x = e")
      case True
      then show ?thesis
        using run r by (intro less.prems(1) [of ht None]) (auto simp: ready_def)
    next
      case False
      then have xe: "x < e" "slot h x \<noteq> slot h e"
        using x(3) e by (simp_all add: slot_eq)
      note step = ready_step [OF r xe(1) e x(4) [OF xe(1)]]
      obtain ht' r' where rec: "slot_move (move_entry ht (slot h x) (slot h e)) (slot h 0) (slot h 4) (slot h x) = Some (Inr (ht', r'))"
        "in_neighbourhood ht'" "has_entry ht' = has_entry ht"
        "\<And>i. r' = Some i \<Longrightarrow> \<exists>e'<4. i = slot h e' \<and> \<not> hte_valid (ht' i)"
        "\<And>y. x < y \<Longrightarrow> y < 262144 \<Longrightarrow> ht' (slot h y) = move_entry ht (slot h x) (slot h e) (slot h y)"
        by (rule less.IH [OF xe(1) _ step(1)]) (use xe e step(2) in auto)
      have "\<not> disp_exact ht'"
        using moved_not_exact [OF r xe(1) e x(4) [OF xe(1)], of ht'] rec(5) [OF xe(1) e] by simp
      moreover have "ht' (slot h y) = ht (slot h y)" if "e < y" "y < 262144" for y
        using that xe(1) e rec(5) [of y] by (simp add: move_entry_at [OF xe(2)] slot_eq)
      moreover
      have "slot_move ht (slot h 0) (slot h 4) (slot h e) = Some (Inr (ht', r'))"
        using run xe(2) rec(1) r by (simp add: ready_def)
      ultimately show ?thesis
        using rec(2-4) by (intro less.prems(1) [of ht' r']) simp_all
    qed
  qed
qed

lemma flow_slot_alloc_ok:
  assumes ex: "disp_exact ht"
  obtains ht' r where "flow_slot_alloc ht h = Some (Inr (ht', r))" "in_neighbourhood ht'" "has_entry ht' = has_entry ht"
    "\<And>i d. r = Some (i, d) \<Longrightarrow> \<exists>e<4. i = slot h e \<and> d = of_nat e \<and> \<not> hte_valid (ht' i)"
    "if \<exists>e<4. \<not> hte_valid (ht (slot h e)) then ht' = ht \<and> r \<noteq> None else r = None \<and> ht' = ht \<or> \<not> disp_exact ht'"
proof -
  have nb: "in_neighbourhood ht"
    using ex by (rule exact_in_neighbourhood)
  have j: "h mod FLOWHT_ENTRIES = slot h 0" "(slot h 0 + 4) mod FLOWHT_ENTRIES = slot h 4"
    "(slot h 4 + 4 * 4) mod FLOWHT_ENTRIES = slot h 20"
    using slot_add [of h 0 4] slot_add [of h 4 16] by (simp_all add: slot_0)
  obtain e where e: "slot_scan ht (slot h 0) (slot h 4) 0 = Some (slot h e, of_nat e)" "e \<le> 4"
    "\<And>x. x < e \<Longrightarrow> hte_valid (ht (slot h x))" "e < 4 \<Longrightarrow> \<not> hte_valid (ht (slot h e))"
    by (rule slot_scan_ok [of 0 4 ht h 0]) auto
  show thesis
  proof (cases "e = 4")
    case False
    then have "slot h e \<noteq> slot h 4" "e < 4"
      using e(2) by (simp_all add: slot_eq)
    then have "flow_slot_alloc ht h = Some (Inr (ht, Some (slot h e, of_nat e)))"
      unfolding flow_slot_alloc_def Let_def j e(1) by simp
    then show thesis
      using nb e(4) \<open>e < 4\<close> by (intro that [of ht "Some (slot h e, of_nat e)"]) auto
  next
    case True
    obtain e2 where e2: "slot_scan ht (slot h 4) (slot h 20) 0 = Some (slot h e2, of_nat (e2 - 4))" "4 \<le> e2" "e2 \<le> 20"
      "\<And>x. 4 \<le> x \<Longrightarrow> x < e2 \<Longrightarrow> hte_valid (ht (slot h x))" "e2 < 20 \<Longrightarrow> \<not> hte_valid (ht (slot h e2))"
      by (rule slot_scan_ok [of 4 20 ht h 0]) auto
    have run: "flow_slot_alloc ht h = (if slot h e2 = slot h 20 then Some (Inr (ht, None))
        else bind_run (slot_move ht (slot h 0) (slot h 4) (slot h e2)) (\<lambda>(ht, r).
          Some (Inr (ht, case r of None \<Rightarrow> None | Some i \<Rightarrow> Some (i, (i - slot h 0) mod FLOWHT_ENTRIES)))))"
      unfolding flow_slot_alloc_def Let_def j e(1) option.case prod.case True if_not_P by (simp add: e2(1) j(3))
    show thesis
    proof (cases "e2 = 20")
      case True
      then show thesis
        using nb run e(3) \<open>e = 4\<close> by (intro that [of ht None]) auto
    next
      case False
      have v: "hte_valid (ht (slot h x))" if "x < e2" for x
        using that e(3) True e2(4) by (cases "x < 4") auto
      have "ready ht h e2"
        using ex nb v e2(5) False e2(3) slot_lt by (auto simp: ready_def disp_exact_def)
      moreover have "e2 < 262144" "slot h e2 \<noteq> slot h 20"
        using False e2(3) by (simp_all add: slot_eq)
      ultimately obtain ht' r where m: "slot_move ht (slot h 0) (slot h 4) (slot h e2) = Some (Inr (ht', r))"
        "in_neighbourhood ht'" "has_entry ht' = has_entry ht"
        "\<And>i. r = Some i \<Longrightarrow> \<exists>e'<4. i = slot h e' \<and> \<not> hte_valid (ht' i)" "ht' = ht \<and> r = None \<or> \<not> disp_exact ht'"
        using slot_move_ok [of ht h e2] e2(2) by metis
      have "\<exists>e<4. i = slot h e \<and> d = of_nat e \<and> \<not> hte_valid (ht' i)"
        if "(case r of None \<Rightarrow> None | Some i \<Rightarrow> Some (i, (i - slot h 0) mod FLOWHT_ENTRIES)) = Some (i, d)" for i d
        using that m(4) slot_diff [of 0 _ h] by (cases r) fastforce+
      moreover have "flow_slot_alloc ht h = Some (Inr (ht', case r of None \<Rightarrow> None | Some i \<Rightarrow> Some (i, (i - slot h 0) mod FLOWHT_ENTRIES)))"
        using run m(1) \<open>slot h e2 \<noteq> slot h 20\<close> by simp
      moreover have "\<not> (\<exists>e<4. \<not> hte_valid (ht (slot h e)))"
        using e(3) True by blast
      ultimately show thesis
        using m(2,3,5) by (intro that [of ht']) auto
    qed
  qed
qed

section \<open>Displacements after a move\<close>

text \<open>Taking a slot for a hash and writing the entry, as for a new connection.\<close>

definition slot_insert :: "flow_table \<Rightarrow> u32 \<Rightarrow> u32 \<Rightarrow> flow_table option" where
  "slot_insert ht h f = (case flow_slot_alloc ht h of
     Some (Inr (ht, Some (i, d))) \<Rightarrow> Some (ht(i := \<lparr>hte_flow_id = mk_flow_id d f, hte_flow_hash = h\<rparr>))
   | _ \<Rightarrow> None)"

text \<open>Slots 0, 2 and 3 hold flows of hash 0, slot 1 flow 21 of hash 1, slots 5 and 6 flows at home.\<close>

definition stale_table :: flow_table where
  "stale_table i =
    (if i < 7 \<and> i \<noteq> 4 then
       \<lparr>hte_flow_id = mk_flow_id (if i = 2 \<or> i = 3 then i else 0) (i + 20),
        hte_flow_hash = (if i = 0 \<or> i = 2 \<or> i = 3 then 0 else i)\<rparr>
     else \<lparr>hte_flow_id = 0, hte_flow_hash = 0\<rparr>)"

declare slot_scan.simps [code] swap_scan.simps [code] slot_move.simps [code]

lemma stale_table_exact: "disp_exact stale_table"
proof -
  have "i \<in> {0, 1, 2, 3, 5, 6}" if "hte_valid (stale_table i)" for i
  proof -
    have "i < 7 \<and> i \<noteq> 4"
      using that by (simp add: stale_table_def hte_valid_def split: if_splits)
    then have "unat i < 7 \<and> unat i \<noteq> 4"
      by (simp add: word_less_nat_alt word_unat_eq_iff)
    then have "unat i \<in> {0, 1, 2, 3, 5, 6}"
      by auto
    then show ?thesis
      by (auto simp: word_unat_eq_iff)
  qed
  moreover have "unat (hte_disp (stale_table i)) = slot_dist (hte_flow_hash (stale_table i)) i"
    if "i \<in> {0, 1, 2, 3, 5, 6}" for i
    using that by (elim insertE emptyE) (simp_all add: stale_table_def hte_disp_def mk_flow_id_def slot_dist_def)
  ultimately show ?thesis
    by (auto simp: disp_exact_def)
qed

text \<open>
  C38: Taking a slot of the flow table for a hash, in a table whose displacements are exact.  The loops end and no
  assertion fails, the table has the same flows as before, each where a lookup looks for it, and a slot that is handed out is
  free and in the neighbourhood of the hash.  If the neighbourhood has a free slot, the allocation succeeds and moves nothing.
  Otherwise it moves entries to make room or fails; whenever it has moved one, and so whenever it succeeds, an entry is
  left with a displacement that is not true, because the code writes the old one.
\<close>

theorem flow_slot_alloc_moves:
  assumes "disp_exact ht"
  shows "\<exists>ht' r. flow_slot_alloc ht h = Some (Inr (ht', r)) \<and> (\<forall>g f. has_entry ht' g f = has_entry ht g f \<and> findable ht' g f = has_entry ht g f) \<and>
    (\<forall>i d. r = Some (i, d) \<longrightarrow> (\<exists>e<4. i = slot h e \<and> d = of_nat e \<and> \<not> hte_valid (ht' i))) \<and>
    (if \<exists>e<4. \<not> hte_valid (ht (slot h e)) then ht' = ht \<and> r \<noteq> None else r = None \<and> ht' = ht \<or> \<not> disp_exact ht')"
proof (rule flow_slot_alloc_ok [OF assms, of h], goal_cases)
  case (1 ht' r)
  moreover have "findable ht' g f = has_entry ht g f" for g f
    using findable_has_entry [OF 1(2)] 1(3) by simp
  ultimately show ?case
    by (intro exI [of _ ht'] exI [of _ r]) simp
qed

theorem flow_slot_alloc_moves_witness:
  "\<exists>ht' e. flow_slot_alloc stale_table 0 = Some (Inr (ht', Some (slot 0 e, of_nat e))) \<and> e < 4 \<and> findable ht' 1 21 \<and> \<not> disp_exact ht'"
proof -
  have e: "has_entry stale_table 1 21"
    unfolding has_entry_def by (rule exI [of _ 1]) (simp add: stale_table_def hte_valid_def hte_fid_def mk_flow_id_def)
  have v: "\<not> (\<exists>e<4. \<not> hte_valid (stale_table (slot 0 e)))"
    by code_simp
  have "case flow_slot_alloc stale_table 0 of Some (Inr (_, Some _)) \<Rightarrow> True | _ \<Rightarrow> False"
    by code_simp
  then obtain ht' i d where "flow_slot_alloc stale_table 0 = Some (Inr (ht', Some (i, d)))"
    by (auto split: option.splits sum.splits)
  then show ?thesis
    using e flow_slot_alloc_moves [OF stale_table_exact, of 0, unfolded if_not_P [OF v]] by auto
qed

text \<open>
  Two such insertions can lose a flow.  Flow 21 of this table with exact displacements can be found; after
  a new flow of hash 0 has pushed it from slot 1 to slot 4 it still can; after one of hash 1 has pushed it
  to slot 7 it is in the table but cannot be found.
\<close>

lemma moved_twice_lost:
  "disp_exact stale_table \<and> findable stale_table 1 21 \<and>
   (case slot_insert stale_table 0 30 of None \<Rightarrow> False
    | Some ht1 \<Rightarrow> findable ht1 1 21 \<and>
       (case slot_insert ht1 1 31 of None \<Rightarrow> False
        | Some ht2 \<Rightarrow> hte_valid (ht2 7) \<and> hte_flow_hash (ht2 7) = 1 \<and> hte_fid (ht2 7) = 21 \<and> \<not> findable ht2 1 21))"
proof -
  have "findable stale_table 1 21"
    by code_simp
  moreover have "case slot_insert stale_table 0 30 of None \<Rightarrow> False
    | Some ht1 \<Rightarrow> findable ht1 1 21 \<and>
       (case slot_insert ht1 1 31 of None \<Rightarrow> False
        | Some ht2 \<Rightarrow> hte_valid (ht2 7) \<and> hte_flow_hash (ht2 7) = 1 \<and> hte_fid (ht2 7) = 21 \<and> \<not> findable ht2 1 21)"
    by code_simp
  ultimately show ?thesis
    using stale_table_exact by blast
qed

end
