(* ===== verification/Flow_Buffers.thy ===== *)
theory Flow_Buffers
  imports Fast_Flows
begin

text \<open>
  Access to the circular payload buffers of a flow: whatever the position, reading and
  writing in at most two pieces moves exactly the bytes at the positions that follow each
  other around the ring, and stays inside the buffer.
\<close>

unbundle bit_operations_syntax

section \<open>Circular buffer access\<close>

lemma unat_of_nat_u64: "n < 18446744073709551616 \<Longrightarrow> unat (of_nat n :: u64) = n"
  by (simp add: unat_of_nat)

lemma ucast_u32_u64_of_nat: "(ucast (x::u32) :: u64) = of_nat (unat x)"
  using unat_u32_bound [of x] by (simp add: u64_eq_iff unat_ucast_u32_u64 unat_of_nat_u64)

lemma ucast_u16_u64_of_nat: "(ucast (x::u16) :: u64) = of_nat (unat x)"
  using unat_u16_bound [of x]
  by (simp add: u64_eq_iff unat_of_nat_u64 unsigned_ucast_eq take_bit_eq_mod)

lemma dma_ok_range:
  assumes "unat base + L \<le> unat shml" "p + n \<le> L"
  shows "dma_ok shml (base + of_nat p) (of_nat n)"
proof -
  have b: "unat base + L < 18446744073709551616"
    using assms unat_u64_bound [of shml] by linarith
  have "unat (base + of_nat p) = unat base + p" "unat (of_nat n :: u64) = n"
    using b assms unat_addr_diff [OF b, of p] by (simp_all add: unat_of_nat)
  then show ?thesis
    using assms b by (auto simp: dma_ok_nat)
qed

text \<open>The pieces of a range of a circular buffer that starts at \<open>p\<close>.\<close>

lemma ring_addr_first: "p + i < L \<Longrightarrow> ring_addr base L p i = base + of_nat p + of_nat i"
  by (simp add: ring_addr_def add.assoc)

lemma ring_addr_second:
  assumes "p < L" "L - p \<le> i" "i < L"
  shows "ring_addr base L p i = base + of_nat (i - (L - p))"
proof -
  have "(p + i) mod L = (p + i - L) mod L"
    using assms by (intro le_mod_geq) linarith
  also have "\<dots> = i - (L - p)"
    using assms by simp
  finally have "(p + i) mod L = i - (L - p)" .
  then show ?thesis
    by (simp add: ring_addr_def)
qed

text \<open>Both parts of the test for the wrap-around, in natural numbers.\<close>

lemma ring_split:
  assumes "pos < (len::u32)" "unat len < 2147483648" "unat (n::u16) \<le> unat len"
  shows "pos + ucast n \<le> len \<longleftrightarrow> unat pos + unat n \<le> unat len"
    and "unat (len - pos) = unat len - unat pos"
    and "unat len < unat pos + unat n \<Longrightarrow>
      unat (ucast n - (len - pos) :: u32) = unat n - (unat len - unat pos)"
proof -
  have p: "unat pos < unat len" and n: "unat (ucast n :: u32) = unat n" "unat n < 65536"
    using assms(1) unat_u16_bound [of n] by (simp_all add: word_less_nat_alt unat_ucast_u16_u32)
  then show "pos + ucast n \<le> len \<longleftrightarrow> unat pos + unat n \<le> unat len"
    using assms by (simp add: word_le_nat_alt unat_u32_add)
  show d: "unat (len - pos) = unat len - unat pos"
    using p by (simp add: unat_u32_sub)
  show "unat (ucast n - (len - pos) :: u32) = unat n - (unat len - unat pos)"
    if "unat len < unat pos + unat n"
    using that n d by (simp add: unat_u32_sub)
qed

text \<open>Two reads that fill adjacent pieces of the buffer.\<close>

lemma dma_read_nat:
  assumes "dma_ok shml addr (of_nat n)" "n < 18446744073709551616"
  shows "dma_read shml m addr (of_nat n) buf off =
    Inr (\<lambda>i. if off \<le> i \<and> i < off + n then m (addr + of_nat (i - off)) else buf i)"
  using assms by (simp add: dma_read_def unat_of_nat_u64)

lemma dma_write_nat:
  assumes "dma_ok shml addr (of_nat n)" "n < 18446744073709551616"
  shows "dma_write shml m addr (of_nat n) buf off =
    Inr (\<lambda>a. if unat (a - addr) < n then buf (off + unat (a - addr)) else m a)"
  using assms by (simp add: dma_write_def unat_of_nat_u64)

lemma dma_read_ring:
  assumes buf: "unat base + L \<le> unat shml" and "p + n \<le> L" "n < 18446744073709551616"
  shows "dma_read shml m (base + of_nat p) (of_nat n) dst off =
    Inr (\<lambda>i. if off \<le> i \<and> i < off + n then m (ring_addr base L p (i - off)) else dst i)"
proof -
  have "m (ring_addr base L p (i - off)) = m (base + of_nat p + of_nat (i - off))"
    if "off \<le> i \<and> i < off + n" for i
    using that assms(2) by (subst ring_addr_first) (linarith, simp only:)
  then show ?thesis
    unfolding dma_read_nat [OF dma_ok_range [OF buf assms(2)] assms(3)] by (simp only: cong: if_cong)
qed

lemma ring_addr_wrap:
  assumes "p < L" "L - p \<le> i" "i < L"
  shows "ring_addr base L p i = ring_addr base L 0 (i - (L - p))"
  using assms ring_addr_second [of p L i base] ring_addr_first [of 0 "i - (L - p)" L base] by simp

lemma flow_tx_read_ring:
  assumes buf: "unat (tx_base fs) + unat (tx_len fs) \<le> unat (shm_len env)"
    and len: "unat (tx_len fs) < 2147483648" "pos < tx_len fs" "unat n \<le> unat (tx_len fs)"
  shows "flow_tx_read env m fs pos n dst off =
    Inr (\<lambda>i. if off \<le> i \<and> i < off + unat n
      then m (ring_addr (tx_base fs) (unat (tx_len fs)) (unat pos) (i - off)) else dst i)"
proof -
  let ?L = "unat (tx_len fs)" and ?P = "unat pos" and ?n = "unat n" and ?b = "tx_base fs"
  have p: "?P < ?L" and nb: "?n < 18446744073709551616"
    using len by (simp_all add: word_less_nat_alt)
  note split = ring_split [OF len(2,1,3)]
  show ?thesis
  proof (cases "?P + ?n \<le> ?L")
    case True
    then show ?thesis
      unfolding flow_tx_read_def ucast_u32_u64_of_nat ucast_u16_u64_of_nat dma_read_ring [OF buf True nb]
      using split(1) by (simp only: if_True)
  next
    case False
    let ?k = "?L - ?P"
    have lt: "?L < ?P + ?n" and kb: "?k < 18446744073709551616" "?n - ?k < 18446744073709551616"
      and pc: "?P + ?k \<le> ?L" "0 + (?n - ?k) \<le> ?L"
      using False nb len p by linarith+
    have run: "flow_tx_read env m fs pos n dst off =
      bind_res (dma_read (shm_len env) m (?b + of_nat ?P) (of_nat ?k) dst off) (\<lambda>dst.
      dma_read (shm_len env) m (?b + of_nat 0) (of_nat (?n - ?k)) dst (off + ?k))"
      unfolding flow_tx_read_def Let_def ucast_u32_u64_of_nat split(2) split(3) [OF lt]
      using False split(1) by (simp only: if_False semiring_1_class.of_nat_0 add_0_right)
    have bounds: "off \<le> i \<and> i < off + ?n" "?k \<le> i - off" "i - off < ?L"
      if "off + ?k \<le> i \<and> i < off + ?k + (?n - ?k)" for i
      using that len(3) lt by linarith+
    have late: "ring_addr ?b ?L 0 (i - (off + ?k)) = ring_addr ?b ?L ?P (i - off)"
      if "off + ?k \<le> i \<and> i < off + ?k + (?n - ?k)" for i
      using ring_addr_wrap [OF p bounds(2,3) [OF that], of ?b] by (simp only: diff_diff_eq)
    have early: "off \<le> i \<and> i < off + ?k" if "\<not> (off + ?k \<le> i \<and> i < off + ?k + (?n - ?k))"
      "off \<le> i \<and> i < off + ?n" for i
      using that lt by linarith
    have "i < off + ?n" if "i < off + ?k" for i
      using that lt by linarith
    then show ?thesis
      unfolding run dma_read_ring [OF buf pc(1) kb(1)] bind_res_simps dma_read_ring [OF buf pc(2) kb(2)] sum.inject
      using late bounds(1) early by (intro ext) (auto simp only: if_True if_False split: if_split)
  qed
qed

text \<open>What writing to a circular buffer does to the memory.\<close>

definition ring_stored :: "u64 \<Rightarrow> nat \<Rightarrow> nat \<Rightarrow> nat \<Rightarrow> buf \<Rightarrow> nat \<Rightarrow> mem \<Rightarrow> mem \<Rightarrow> bool" where
  "ring_stored base L p n src off m m' \<longleftrightarrow>
     (\<forall>i<n. m' (ring_addr base L p i) = src (off + i)) \<and>
     (\<forall>a. (\<forall>i<n. a \<noteq> ring_addr base L p i) \<longrightarrow> m' a = m a)"

lemma addr_split: "(a::u64) = addr + of_nat (unat (a - addr))"
  by simp

text \<open>A write that does not wrap around, and two writes that meet at the wrap-around.\<close>

lemma dma_write_ring:
  assumes buf: "unat base + L \<le> unat shml" and "p + n \<le> L" "n < 18446744073709551616"
  shows "\<exists>m'. dma_write shml m (base + of_nat p) (of_nat n) src off = Inr m' \<and>
    ring_stored base L p n src off m m'"
proof -
  have "dma_ok shml (base + of_nat p) (of_nat n)"
    using dma_ok_range [OF buf assms(2)] .
  note wr = dma_write_nat [OF this assms(3)]
  have ra: "ring_addr base L p i = base + of_nat p + of_nat i" if "i < n" for i
    using that assms(2) by (intro ring_addr_first) linarith
  show ?thesis
    unfolding wr ring_stored_def sum.inject
  proof (intro exI [of _ "\<lambda>a. if unat (a - (base + of_nat p)) < n then src (off + unat (a - (base + of_nat p))) else m a"]
      conjI allI impI refl, goal_cases)
    case (1 i)
    then show ?case
      unfolding ra [OF 1] using assms(3) by (simp add: unat_of_nat_u64)
  next
    case (2 a)
    then have "\<not> unat (a - (base + of_nat p)) < n"
      using ra addr_split [of a "base + of_nat p"] by metis
    then show ?case by simp
  qed
qed

lemma ring_stored_wrap:
  assumes first: "ring_stored base L p (L - p) src off m m1"
    and second: "ring_stored base L 0 (n - (L - p)) src (off + (L - p)) m1 m2"
    and "unat base + L < 18446744073709551616" "p < L" "L - p \<le> n" "n \<le> L"
  shows "ring_stored base L p n src off m m2"
proof -
  let ?k = "L - p"
  have late: "ring_addr base L p i = ring_addr base L 0 (i - ?k)" if "?k \<le> i" "i < n" for i
    using that assms(4-6) ring_addr_second [of p L i base] ring_addr_first [of 0 "i - ?k" L base] by simp
  have early: "ring_addr base L p i \<noteq> ring_addr base L 0 j" if "i < ?k" "j < n - ?k" for i j
  proof -
    have "(p + i) mod L = p + i" "(0 + j) mod L = j" "j < p"
      using that assms(4-6) by auto
    then show ?thesis
      using unat_ring_addr [OF assms(3), of p i] unat_ring_addr [OF assms(3), of 0 j] assms(4) that by auto
  qed
  show ?thesis
    unfolding ring_stored_def
  proof (intro conjI allI impI)
    fix i assume i: "i < n"
    show "m2 (ring_addr base L p i) = src (off + i)"
    proof (cases "i < ?k")
      case True
      then have "m2 (ring_addr base L p i) = m1 (ring_addr base L p i)"
        using second early unfolding ring_stored_def by blast
      with True first show ?thesis
        by (simp add: ring_stored_def)
    next
      case False
      then have "m2 (ring_addr base L 0 (i - ?k)) = src (off + ?k + (i - ?k))"
        using second i unfolding ring_stored_def by (simp only: not_less) 
      with False i late [of i] show ?thesis
        by simp
    qed
  next
    fix a assume a: "\<forall>i<n. a \<noteq> ring_addr base L p i"
    have "\<forall>j<n - ?k. a \<noteq> ring_addr base L 0 j"
    proof (intro allI impI)
      fix j assume "j < n - ?k"
      then have "j + ?k < n" "?k \<le> j + ?k" "j + ?k - ?k = j"
        by linarith+
      then show "a \<noteq> ring_addr base L 0 j"
        using a late [of "j + ?k"] by metis
    qed
    then have "m2 a = m1 a"
      using second unfolding ring_stored_def by blast
    moreover have "m1 a = m a"
      using first a assms(5) unfolding ring_stored_def by (meson order_less_le_trans)
    ultimately show "m2 a = m a" by simp
  qed
qed

lemma flow_rx_write_ring:
  assumes buf: "unat (rx_base fs) + unat (rx_len fs) \<le> unat (shm_len env)"
    and len: "unat (rx_len fs) < 2147483648" "pos < rx_len fs" "unat n \<le> unat (rx_len fs)"
  shows "\<exists>m'. flow_rx_write env m fs pos n src off = Inr m' \<and>
    ring_stored (rx_base fs) (unat (rx_len fs)) (unat pos) (unat n) src off m m'"
proof -
  let ?L = "unat (rx_len fs)" and ?P = "unat pos" and ?n = "unat n" and ?b = "rx_base fs"
  have p: "?P < ?L" and nb: "?n < 18446744073709551616"
    using len by (simp_all add: word_less_nat_alt)
  have bL: "unat ?b + ?L < 18446744073709551616"
    using buf unat_u64_bound [of "shm_len env"] by linarith
  note split = ring_split [OF len(2,1,3)]
  show ?thesis
  proof (cases "?P + ?n \<le> ?L")
    case True
    have "flow_rx_write env m fs pos n src off =
      dma_write (shm_len env) m (?b + of_nat ?P) (of_nat ?n) src off"
      unfolding flow_rx_write_def ucast_u32_u64_of_nat ucast_u16_u64_of_nat
      using True split(1) by (simp only: if_True)
    then show ?thesis
      using dma_write_ring [OF buf True nb] by simp
  next
    case False
    let ?k = "?L - ?P"
    have lt: "unat (rx_len fs) < unat pos + unat n" and kb: "?k < 18446744073709551616"
      "?n - ?k < 18446744073709551616" "?P + ?k \<le> ?L" "0 + (?n - ?k) \<le> ?L" "?k \<le> ?n"
      using False nb len p by linarith+
    have run: "flow_rx_write env m fs pos n src off =
      bind_res (dma_write (shm_len env) m (?b + of_nat ?P) (of_nat ?k) src off) (\<lambda>m.
      dma_write (shm_len env) m (?b + of_nat 0) (of_nat (?n - ?k)) src (off + ?k))"
      unfolding flow_rx_write_def Let_def ucast_u32_u64_of_nat split(2) split(3) [OF lt]
      using False split(1) by (simp only: if_False semiring_1_class.of_nat_0 add_0_right)
    obtain m1 where m1: "dma_write (shm_len env) m (?b + of_nat ?P) (of_nat ?k) src off = Inr m1"
      "ring_stored ?b ?L ?P ?k src off m m1"
      using dma_write_ring [OF buf kb(3,1)] by blast
    obtain m2 where m2: "dma_write (shm_len env) m1 (?b + of_nat 0) (of_nat (?n - ?k)) src (off + ?k) = Inr m2"
      "ring_stored ?b ?L 0 (?n - ?k) src (off + ?k) m1 m2"
      using dma_write_ring [OF buf kb(4,2)] by blast
    show ?thesis
      using ring_stored_wrap [OF m1(2) m2(2) bL p kb(5) len(3)] m2(1) unfolding run m1(1) bind_res_simps by blast
  qed
qed

end
