(* ===== verification/Tx_Queues.thy ===== *)
theory Tx_Queues
  imports Qman_Poll
begin

text \<open>
  The interface the fast path relies on when it arms transmit queues: setting a valid queue
  with an admissible rate returns, keeps the manager's invariant and changes the work of
  that queue only.  The queue manager provides it.
\<close>

unbundle bit_operations_syntax

locale tx_queues =
  fixes qinv :: "'q \<Rightarrow> bool"
    and admissible :: "'q \<Rightarrow> u32 \<Rightarrow> u32 \<Rightarrow> u16 \<Rightarrow> u8 \<Rightarrow> bool"
    and qset :: "'q \<Rightarrow> u32 \<Rightarrow> u32 \<Rightarrow> u32 \<Rightarrow> u16 \<Rightarrow> u8 \<Rightarrow> 'q option run"
    and work :: "'q \<Rightarrow> u32 \<Rightarrow> u32"
  assumes qset_valid:
      "\<lbrakk>qinv q; i < FLEXNIC_NUM_QMQUEUES; admissible q i r c f\<rbrakk> \<Longrightarrow>
       \<exists>q'. qset q i r a c f = Some (Inr (Some q')) \<and> qinv q' \<and>
         (\<forall>j. work q' j = (if j \<noteq> i then work q j
            else if f AND QMAN_SET_AVAIL \<noteq> 0 then a
            else if f AND QMAN_ADD_AVAIL \<noteq> 0 then work q i + a else work q i))"
    and qset_invalid: "\<not> i < FLEXNIC_NUM_QMQUEUES \<Longrightarrow> qset q i r a c f = Some (Inr None)"
begin

text \<open>Arming a queue with the flags the fast path uses: more work, or exactly this work.\<close>

lemma add_work:
  assumes "qinv q" "i < FLEXNIC_NUM_QMQUEUES"
    "admissible q i r c (QMAN_SET_RATE OR QMAN_SET_MAXCHUNK OR QMAN_ADD_AVAIL)"
  obtains q' where "qset q i r a c (QMAN_SET_RATE OR QMAN_SET_MAXCHUNK OR QMAN_ADD_AVAIL) = Some (Inr (Some q'))"
    "qinv q'" "work q' = (work q)(i := work q i + a)"
  using qset_valid [OF assms, of a] by (auto simp: fun_eq_iff)

lemma replace_work:
  assumes "qinv q" "i < FLEXNIC_NUM_QMQUEUES"
    "admissible q i r c (QMAN_SET_RATE OR QMAN_SET_MAXCHUNK OR QMAN_SET_AVAIL)"
  obtains q' where "qset q i r a c (QMAN_SET_RATE OR QMAN_SET_MAXCHUNK OR QMAN_SET_AVAIL) = Some (Inr (Some q'))"
    "qinv q'" "work q' = (work q)(i := a)"
  using qset_valid [OF assms, of a] by (auto simp: fun_eq_iff)

end

text \<open>
  The queue manager is an instance, for rates that let a chunk go out within \<open>2^30\<close> ns.
\<close>

abbreviation (input) qman_horizon :: int where "qman_horizon \<equiv> 1073741823"

lemma qman_set_keeps_reach:
  assumes "qman_reach qman_horizon q" "i < FLEXNIC_NUM_QMQUEUES" "set_ok qman_horizon q i r c f"
  shows "\<exists>q'. qman_set q i r a c f = Some (Inr (Some q')) \<and> qman_reach qman_horizon q' \<and>
    (\<forall>j. avail (queues q' j) = (if j \<noteq> i then avail (queues q j)
       else if f AND QMAN_SET_AVAIL \<noteq> 0 then a
       else if f AND QMAN_ADD_AVAIL \<noteq> 0 then avail (queues q i) + a else avail (queues q i)))"
proof -
  obtain N S where inv: "qman_inv qman_horizon q N S"
    using qman_reach_inv [OF assms(1)] by auto
  obtain q' where q': "qman_set q i r a c f = Some (Inr (Some q'))"
    and vals: "\<And>j. (rate (queues q' j), max_chunk (queues q' j), avail (queues q' j)) =
       (let x = (if j = i then set_queue (queues q i) r a c f else queues q j)
        in (rate x, max_chunk x, avail x))"
    by (rule qman_set_inv [OF inv assms(3,2), of a]) blast
  have "avail (queues q' j) = (if j \<noteq> i then avail (queues q j)
       else if f AND QMAN_SET_AVAIL \<noteq> 0 then a
       else if f AND QMAN_ADD_AVAIL \<noteq> 0 then avail (queues q i) + a else avail (queues q i))" for j
    using vals [of j] by (simp add: Let_def set_queue_def split: if_splits)
  with q' qman_reach.set [OF assms(1,3) q'] show ?thesis
    by blast
qed

interpretation tq: tx_queues "qman_reach qman_horizon" "set_ok qman_horizon" qman_set "\<lambda>q i. avail (queues q i)"
proof (unfold_locales, goal_cases)
  case (1 q i r c f a)
  then show ?case
    by (rule qman_set_keeps_reach)
next
  case (2 i q r a c f)
  then show ?case
    by (simp add: qman_set_def linorder_not_less)
qed

end
