(* ===== verification/Flow_Tx.thy ===== *)
theory Flow_Tx
  imports Flow_Buffers Tx_Queues
begin

text \<open>
  The sending side of a flow.  The transmit registers stand for a sliding window
  (\<open>tx_window\<close>) over a circular buffer; sending, appending, acknowledging and rewinding are
  operations on that window, and the register updates of \<^verbatim>\<open>fast_flows.c\<close> implement them
  (functional refinement along \<open>tx_window_of\<close>).
\<close>

unbundle bit_operations_syntax

section \<open>The send window\<close>

text \<open>
  What the transmit registers of a flow mean: the first unacknowledged byte, its position in
  the buffer, and how many bytes from there on are in flight and how many are waiting.
\<close>

record tx_window =
  una :: u32
  una_pos :: nat
  in_flight :: nat
  queued :: nat

definition tx_window_of :: "flextcp_pl_flowst \<Rightarrow> tx_window" where
  "tx_window_of fs =
    \<lparr>una = tx_next_seq fs - tx_sent fs,
     una_pos = (unat (tx_next_pos fs) + unat (tx_len fs) - unat (tx_sent fs)) mod unat (tx_len fs),
     in_flight = unat (tx_sent fs), queued = unat (tx_avail fs)\<rparr>"

definition tx_inv :: "flextcp_pl_flowst \<Rightarrow> bool" where
  "tx_inv fs \<longleftrightarrow> tx_next_pos fs < tx_len fs \<and> unat (tx_len fs) < 2147483648 \<and>
     unat (tx_sent fs) + unat (tx_avail fs) \<le> unat (tx_len fs)"

text \<open>The operations of a sliding window over a buffer of \<open>L\<close> bytes.\<close>

definition win_send :: "nat \<Rightarrow> tx_window \<Rightarrow> tx_window" where
  "win_send n w = w\<lparr>in_flight := in_flight w + n, queued := queued w - n\<rparr>"

definition win_append :: "nat \<Rightarrow> tx_window \<Rightarrow> tx_window" where
  "win_append n w = w\<lparr>queued := queued w + n\<rparr>"

definition win_reset :: "tx_window \<Rightarrow> tx_window" where
  "win_reset w = w\<lparr>in_flight := 0, queued := in_flight w + queued w\<rparr>"

definition win_ack :: "nat \<Rightarrow> nat \<Rightarrow> tx_window \<Rightarrow> tx_window" where
  "win_ack L n w = w\<lparr>una := una w + of_nat n, una_pos := (una_pos w + n) mod L,
     in_flight := in_flight w - n, queued := queued w - (n - in_flight w)\<rparr>"

lemma mod_once: "a < 2 * L \<Longrightarrow> a mod L = (if a < L then a else a - (L::nat))"
  by (simp add: mod_if)

lemma tx_advance_window:
  assumes inv: "tx_inv fs" and n: "unat n \<le> unat (tx_avail fs)"
  shows "tx_inv (tx_advance fs n)" "tx_window_of (tx_advance fs n) = win_send (unat n) (tx_window_of fs)"
    "tx_len (tx_advance fs n) = tx_len fs"
proof -
  let ?fs = "tx_advance fs n"
  have b: "unat (tx_next_pos fs) < unat (tx_len fs)" "unat (tx_len fs) < 2147483648"
    "unat (tx_sent fs) + unat (tx_avail fs) \<le> unat (tx_len fs)"
    using inv by (simp_all add: tx_inv_def word_less_nat_alt)
  have u: "unat (tx_next_pos fs + n) = unat (tx_next_pos fs) + unat n"
    "unat (tx_sent fs + n) = unat (tx_sent fs) + unat n" "unat (tx_avail fs - n) = unat (tx_avail fs) - unat n"
    using b n by (simp_all add: unat_u32_add unat_u32_sub)
  have pos: "unat (tx_next_pos ?fs) = (if unat (tx_next_pos fs) + unat n < unat (tx_len fs)
      then unat (tx_next_pos fs) + unat n else unat (tx_next_pos fs) + unat n - unat (tx_len fs))"
    using u(1) by (simp add: tx_advance_def Let_def word_le_nat_alt unat_u32_sub not_le)
  show len: "tx_len ?fs = tx_len fs"
    by (simp add: tx_advance_def Let_def)
  have fld: "unat (tx_sent ?fs) = unat (tx_sent fs) + unat n" "unat (tx_avail ?fs) = unat (tx_avail fs) - unat n"
    "tx_next_seq ?fs - tx_sent ?fs = tx_next_seq fs - tx_sent fs"
    using u by (simp_all add: tx_advance_def Let_def)
  show "tx_inv ?fs"
    unfolding tx_inv_def word_less_nat_alt len fld pos using b n by auto
  show "tx_window_of ?fs = win_send (unat n) (tx_window_of fs)"
    unfolding tx_window_of_def win_send_def fld pos len using b n by (simp add: mod_once)
qed

lemma flow_reset_window:
  assumes inv: "tx_inv fs"
  shows "tx_inv (flow_reset_retransmit fs)"
    "tx_window_of (flow_reset_retransmit fs) = win_reset (tx_window_of fs)"
    "tx_len (flow_reset_retransmit fs) = tx_len fs"
proof -
  let ?fs = "flow_reset_retransmit fs"
  have b: "unat (tx_next_pos fs) < unat (tx_len fs)" "unat (tx_len fs) < 2147483648"
    "unat (tx_sent fs) + unat (tx_avail fs) \<le> unat (tx_len fs)"
    using inv by (simp_all add: tx_inv_def word_less_nat_alt)
  have fld: "unat (tx_sent ?fs) = 0" "unat (tx_avail ?fs) = unat (tx_avail fs) + unat (tx_sent fs)"
    "tx_next_seq ?fs - tx_sent ?fs = tx_next_seq fs - tx_sent fs"
    "unat (tx_next_pos ?fs) = (if unat (tx_sent fs) \<le> unat (tx_next_pos fs)
       then unat (tx_next_pos fs) - unat (tx_sent fs)
       else unat (tx_next_pos fs) + unat (tx_len fs) - unat (tx_sent fs))"
    using b by (simp_all add: flow_reset_retransmit_def Let_def unat_u32_add unat_u32_sub word_le_nat_alt) arith
  show len: "tx_len ?fs = tx_len fs"
    by (simp add: flow_reset_retransmit_def Let_def)
  show "tx_inv ?fs"
    unfolding tx_inv_def word_less_nat_alt len fld using b by auto
  show "tx_window_of ?fs = win_reset (tx_window_of fs)"
    unfolding tx_window_of_def win_reset_def fld len using b by (simp add: mod_once)
qed

text \<open>The acknowledged part of the window, after a valid acknowledgement of \<open>k\<close> bytes.\<close>

definition ack_flow :: "flextcp_pl_flowst \<Rightarrow> u32 \<Rightarrow> flextcp_pl_flowst" where
  "ack_flow fs k = (if k \<le> tx_sent fs then fs\<lparr>tx_sent := tx_sent fs - k\<rparr>
     else let x = k - tx_sent fs; pos = tx_next_pos fs + x in
       fs\<lparr>tx_next_seq := tx_next_seq fs + x,
          tx_next_pos := if pos \<ge> tx_len fs then pos - tx_len fs else pos,
          tx_avail := tx_avail fs - x, tx_sent := 0\<rparr>)"

lemma ack_flow_window:
  assumes inv: "tx_inv fs" and k: "unat k \<le> unat (tx_sent fs) + unat (tx_avail fs)"
  shows "tx_inv (ack_flow fs k)"
    "tx_window_of (ack_flow fs k) = win_ack (unat (tx_len fs)) (unat k) (tx_window_of fs)"
    "tx_len (ack_flow fs k) = tx_len fs"
proof -
  let ?fs = "ack_flow fs k"
  have b: "unat (tx_next_pos fs) < unat (tx_len fs)" "unat (tx_len fs) < 2147483648"
    "unat (tx_sent fs) + unat (tx_avail fs) \<le> unat (tx_len fs)"
    using inv by (simp_all add: tx_inv_def word_less_nat_alt)
  have x: "\<not> k \<le> tx_sent fs \<Longrightarrow> unat (k - tx_sent fs) = unat k - unat (tx_sent fs)"
    by (simp add: unat_u32_sub word_le_nat_alt)
  have fld: "unat (tx_sent ?fs) = unat (tx_sent fs) - unat k"
    "unat (tx_avail ?fs) = unat (tx_avail fs) - (unat k - unat (tx_sent fs))"
    "tx_next_seq ?fs - tx_sent ?fs = tx_next_seq fs - tx_sent fs + of_nat (unat k)"
    "unat (tx_next_pos ?fs) =
      (let p = unat (tx_next_pos fs) + (unat k - unat (tx_sent fs)) in
       if p < unat (tx_len fs) then p else p - unat (tx_len fs))"
    using b k x by (auto simp: ack_flow_def Let_def unat_u32_add unat_u32_sub word_le_nat_alt not_le)
  show len: "tx_len ?fs = tx_len fs"
    by (simp add: ack_flow_def Let_def)
  show "tx_inv ?fs"
    unfolding tx_inv_def word_less_nat_alt len fld using b k by (auto simp: Let_def)
  show "tx_window_of ?fs = win_ack (unat (tx_len fs)) (unat k) (tx_window_of fs)"
    unfolding tx_window_of_def win_ack_def fld len Let_def using b k
    by (cases "unat k \<le> unat (tx_sent fs)") (simp_all add: mod_once mod_add_left_eq, arith?)
qed

lemma tcp_txavail_le: "unat (tcp_txavail fs None) \<le> unat (tx_avail fs)"
  by (simp add: tcp_txavail_def Let_def word_less_nat_alt)

lemma next_pos_window:
  assumes "tx_inv fs"
  shows "(una_pos (tx_window_of fs) + in_flight (tx_window_of fs)) mod unat (tx_len fs) = unat (tx_next_pos fs)"
    and "una (tx_window_of fs) + of_nat (in_flight (tx_window_of fs)) = tx_next_seq fs"
proof -
  have b: "unat (tx_next_pos fs) < unat (tx_len fs)" "unat (tx_sent fs) \<le> unat (tx_len fs)"
    using assms by (simp_all add: tx_inv_def word_less_nat_alt)
  have "(una_pos (tx_window_of fs) + in_flight (tx_window_of fs)) mod unat (tx_len fs) =
      (unat (tx_next_pos fs) + unat (tx_len fs)) mod unat (tx_len fs)"
    using b by (simp add: tx_window_of_def mod_add_left_eq)
  then show "(una_pos (tx_window_of fs) + in_flight (tx_window_of fs)) mod unat (tx_len fs) = unat (tx_next_pos fs)"
    using b by simp
  show "una (tx_window_of fs) + of_nat (in_flight (tx_window_of fs)) = tx_next_seq fs"
    by (simp add: tx_window_of_def)
qed

lemma ring_addr_shift:
  "ring_addr base L ((p + k) mod L) i = ring_addr base L p (k + i)"
  by (simp add: ring_addr_def mod_add_left_eq add.assoc)

text \<open>A segment as it is handed to the network: its header fields and its payload.\<close>

definition seg_fields :: "nbuf \<Rightarrow> u32 \<times> u32 \<times> u16 \<times> u16" where
  "seg_fields nb = (f_beui32 (seqno (tcp (nb_pkt nb))), f_beui32 (ackno (tcp (nb_pkt nb))),
     TCPH_FLAGS (tcp (nb_pkt nb)), f_beui16 (wnd (tcp (nb_pkt nb))))"

definition seg_payload :: "nbuf \<Rightarrow> nat \<Rightarrow> u8" where
  "seg_payload nb i = rest (nb_pkt nb) (12 + i)"

lemma tcp_checksums_keeps:
  "tcp_checksums env nbh p s d l = (p', nbh') \<Longrightarrow>
    seqno (tcp p') = seqno (tcp p) \<and> ackno (tcp p') = ackno (tcp p) \<and> wnd (tcp p') = wnd (tcp p) \<and>
    hdrlen_rsvd_flags (tcp p') = hdrlen_rsvd_flags (tcp p) \<and> rest p' = rest p \<and>
    tcp_src (tcp p') = tcp_src (tcp p) \<and> tcp_dest (tcp p') = tcp_dest (tcp p) \<and>
    ip_len (ip p') = ip_len (ip p) \<and> ip_src (ip p') = ip_src (ip p) \<and> ip_dest (ip p') = ip_dest (ip p)"
  by (auto simp: tcp_checksums_def Let_def tx_xsum_enable_def network_buf_tcpxsums_def split: if_splits)

lemma flow_tx_segment_sends:
  assumes buf: "unat (tx_base fs) + unat (tx_len fs) \<le> unat (shm_len env)"
    and len: "unat (tx_len fs) < 2147483648" "pos < tx_len fs" "unat n \<le> unat (tx_len fs)"
    and room: "length (tx_handles st) < TXBUF_SIZE"
  obtains nb where
    "flow_tx_segment env st nbh fs seq ack rxwnd n pos ts_echo ts_my fin =
      Inr (st\<lparr>tx_handles := tx_handles st @ [nb]\<rparr>)"
    "nb_off nb = 0" "nb_len nb = 66 + n"
    "seg_fields nb = (seq, ack, if fin then 0x19 else 0x18, f_beui16 (wnd_field rxwnd))"
    "\<And>i. i < unat n \<Longrightarrow> seg_payload nb i =
       fp_shm st (ring_addr (tx_base fs) (unat (tx_len fs)) (unat pos) i)"
    "tcp_src (tcp (nb_pkt nb)) = local_port fs" "tcp_dest (tcp (nb_pkt nb)) = remote_port fs"
    "ip_src (ip (nb_pkt nb)) = local_ip fs" "ip_dest (ip (nb_pkt nb)) = remote_ip fs"
    "f_beui16 (ip_len (ip (nb_pkt nb))) = 52 + n"
proof -
  define p0 where "p0 = tx_segment_headers env fs seq ack rxwnd n ts_echo ts_my fin (rest (nb_pkt nbh))"
  define r where "r = (\<lambda>i. if 12 \<le> i \<and> i < 12 + unat n
      then fp_shm st (ring_addr (tx_base fs) (unat (tx_len fs)) (unat pos) (i - 12)) else rest p0 i)"
  have rd: "(if n > 0 then flow_tx_read env (fp_shm st) fs pos n (rest p0) 12 else Inr (rest p0)) = Inr r"
    unfolding r_def flow_tx_read_ring [OF buf len] by (auto simp: word_gt_0 fun_eq_iff)
  obtain p1 nbh1 where ck: "tcp_checksums env nbh (p0\<lparr>rest := r\<rparr>) (local_ip fs) (remote_ip fs) (66 - 34 + n) = (p1, nbh1)"
    by fastforce
  note keep = tcp_checksums_keeps [OF ck]
  define nb where "nb = nbh1\<lparr>nb_pkt := p1, nb_off := 0, nb_len := 66 + n\<rparr>"
  have run: "flow_tx_segment env st nbh fs seq ack rxwnd n pos ts_echo ts_my fin =
      Inr (st\<lparr>tx_handles := tx_handles st @ [nb]\<rparr>)"
    unfolding flow_tx_segment_def Let_def p0_def [symmetric] rd bind_res_simps ck
    using room by (simp add: tx_send_def nb_def)
  have hd: "tcp_src (tcp p0) = local_port fs" "tcp_dest (tcp p0) = remote_port fs"
    "seqno (tcp p0) = t_beui32 seq" "ackno (tcp p0) = t_beui32 ack" "wnd (tcp p0) = wnd_field rxwnd"
    "ip_src (ip p0) = local_ip fs" "ip_dest (ip p0) = remote_ip fs" "ip_len (ip p0) = t_beui16 (66 - 14 + n)"
    "TCPH_FLAGS (tcp p0) = (if fin then 0x19 else 0x18)"
    by (simp_all add: p0_def tx_segment_headers_def Let_def IPH_ECN_SET_def TCPH_HDRLEN_FLAGS_SET_def TCPH_FLAGS_def)
  have fl: "TCPH_FLAGS (tcp p1) = TCPH_FLAGS (tcp p0)"
    using keep by (simp add: TCPH_FLAGS_def)
  show thesis
    by (rule that [OF run]) (use keep hd fl in \<open>simp_all add: nb_def seg_fields_def seg_payload_def r_def\<close>)
qed

text \<open>The buffers of a flow lie in the shared memory.\<close>

definition bufs_ok :: "fp_env \<Rightarrow> flextcp_pl_flowst \<Rightarrow> bool" where
  "bufs_ok env fs \<longleftrightarrow> unat (tx_base fs) + unat (tx_len fs) \<le> unat (shm_len env) \<and>
     unat (rx_base fs) + unat (rx_len fs) \<le> unat (shm_len env)"

section \<open>A concrete fast path\<close>

text \<open>
  For the witnesses: a shared memory of 64 KiB, checksum and hash functions that return 0,
  an unbounded forwarding ring, and flows whose data wraps around the end of their buffers.
\<close>

definition demo_env :: fp_env where
  "demo_env = \<lparr>shm_len = 65536, fp_xsumoffload = False, eth_addr = replicate 6 0, tx_cksum_flags = 0,
     ipv4_cksum = (\<lambda>_. 0), ipv4_udptcp_cksum = (\<lambda>_ _. 0), crc32c_u32 = (\<lambda>_ _. 0), crc32c_u64 = (\<lambda>_ _. 0),
     ring_enqueue = (\<lambda>r x. Some (r @ [x]))\<rparr>"

definition demo_flow :: flextcp_pl_flowst where
  "demo_flow = flowst_zero\<lparr>tx_base := 4096, tx_len := 2048, rx_base_sp := 0, rx_len := 2048, rx_avail := 1000,
     rx_next_pos := 2000, rx_next_seq := 4294967290, rx_remote_avail := 1000, tx_avail := 100, tx_sent := 50,
     tx_next_pos := 2000, tx_next_seq := 20\<rparr>"

definition demo_st :: fastpath where
  "demo_st = \<lparr>flowst = (\<lambda>_. demo_flow), flowht = (\<lambda>_. \<lparr>hte_flow_id = 0, hte_flow_hash = 0\<rparr>),
     flow_group_steering = (\<lambda>_. 0), fp_shm = (\<lambda>a. ucast a), qman_fwd_ring = (\<lambda>_. []), notified = [],
     core_id = 0, qman = qman_demo0, arx_cache = [], tx_handles = []\<rparr>"

definition demo_nbuf :: nbuf where
  "demo_nbuf = \<lparr>nb_off = 0, nb_len = 66, nb_pkt = pkt_zero, nb_tx_offload = 0, nb_ol_flags = 0\<rparr>"

lemma demo_simps [simp]:
  "flowst demo_st i = demo_flow" "qman demo_st = qman_demo0" "core_id demo_st = 0"
  "flow_group_steering demo_st g = 0" "tx_handles demo_st = []" "arx_cache demo_st = []"
  "fp_shm demo_st = (\<lambda>a. ucast a)" "nb_pkt demo_nbuf = pkt_zero" "shm_len demo_env = 65536"
  by (simp_all add: demo_st_def demo_nbuf_def demo_env_def)

lemma demo_flow_fin: "\<not> fs_flag demo_flow FLEXNIC_PL_FLOWST_TXFIN"
  by (simp add: demo_flow_def fs_flag_def flowst_zero_def)

lemma demo_reach: "qman_reach qman_horizon qman_demo0"
  by (rule qman_reach.init [of True 0 0 True]) (simp add: qman_demo0_def qman_thread_init_def)

lemma demo_flow_ok:
  "tx_inv demo_flow" "bufs_ok demo_env demo_flow" "tcp_txavail demo_flow None = 100"
  "tx_window_of demo_flow = \<lparr>una = 4294967266, una_pos = 1950, in_flight = 50, queued = 100\<rparr>"
  by (simp_all add: demo_flow_def tx_inv_def bufs_ok_def flowst_zero_def rx_base_def tcp_txavail_def
      remote_window_def tx_window_of_def)

text \<open>
  What \<^verbatim>\<open>tcp_txavail\<close> allows: what is queued and fits the peer's window; if more is in flight than the
  window holds, the subtraction wraps and the window is ignored.
\<close>

lemma tcp_txavail_exact:
  assumes "tx_inv fs"
  shows "unat (tcp_txavail fs None) = (let w = tx_window_of fs in
    if in_flight w \<le> unat (remote_window fs) then min (queued w) (unat (remote_window fs) - in_flight w) else queued w)"
proof (cases "tx_sent fs \<le> remote_window fs")
  case True
  then show ?thesis
    by (simp add: tcp_txavail_def Let_def tx_window_of_def word_le_nat_alt word_less_nat_alt unat_sub_if' min_def)
next
  case False
  have "unat (tx_avail fs) \<le> unat (remote_window fs - tx_sent fs)"
    using False assms by (auto simp: tx_inv_def unat_sub_if' word_le_nat_alt)
  with False show ?thesis
    by (simp add: tcp_txavail_def Let_def tx_window_of_def word_le_nat_alt word_less_nat_alt)
qed

text \<open>
  C31: When the queue manager grants a flow of this core some bytes, \<^verbatim>\<open>fast_flows_qman\<close> sends
  exactly one segment: the next bytes of the send window in order, as many as are queued, fit the window that the peer
  has advertised beside the bytes in flight, and fit \<^verbatim>\<open>TCP_MSS\<close>, read from the positions of the buffer that
  belong to their sequence numbers; the last byte is replaced by the FIN when the
  application has closed the connection.  If the peer has shrunk its window below the bytes in flight,
  the code's subtraction wraps and the segment ignores the window.  The send window moves by what was sent and no other
  flow changes.
\<close>

theorem fast_flows_qman_sends:
  fixes st :: fastpath and q :: u32
  defines "fs \<equiv> flowst st q"
  defines "w \<equiv> tx_window_of fs" and "peer \<equiv> unat (remote_window fs)"
  defines "n \<equiv> min 1448 (if in_flight w \<le> peer then min (queued w) (peer - in_flight w) else queued w)"
  defines "fin \<equiv> fs_flag fs FLEXNIC_PL_FLOWST_TXFIN \<and> n = queued w"
  assumes inv: "tx_inv fs" "bufs_ok env fs" and core: "ucast (flow_group_steering st (flow_group fs)) = core_id st"
    and room: "length (tx_handles st) < TXBUF_SIZE" and pos: "0 < n"
  shows "\<exists>st' nb fs'. fast_flows_qman env st q nbh ts = Some (Inr (0, st')) \<and>
    st' = st\<lparr>flowst := (flowst st)(q := fs'), tx_handles := tx_handles st @ [nb]\<rparr> \<and>
    tx_inv fs' \<and> tx_window_of fs' = win_send n w \<and>
    seg_fields nb = (una w + of_nat (in_flight w), rx_next_seq fs, if fin then 0x19 else 0x18,
      f_beui16 (wnd_field (rx_avail fs))) \<and>
    unat (nb_len nb) = 66 + (if fin then n - 1 else n) \<and>
    (\<forall>i < (if fin then n - 1 else n). seg_payload nb i =
       fp_shm st (ring_addr (tx_base fs) (unat (tx_len fs)) (una_pos w) (in_flight w + i)))"
proof -
  let ?av = "tcp_txavail fs None"
  define l where "l = (if TCP_MSS < ?av then TCP_MSS else ?av)"
  have n: "n = min 1448 (unat ?av)"
    using tcp_txavail_exact [OF inv(1)] by (simp add: n_def w_def peer_def Let_def)
  have l: "unat l = n" "unat l \<le> unat (tx_avail fs)" "unat l < 65536"
    using tcp_txavail_le [of fs] by (auto simp: l_def n word_less_nat_alt)
  have av: "?av \<noteq> 0"
    using pos by (auto simp: n)
  define fs' where "fs' = tx_advance fs l"
  note adv = tx_advance_window [OF inv(1) l(2), folded fs'_def]
  have fl: "fs_flag fs' f = fs_flag fs f" "tx_base fs' = tx_base fs" for f
    by (simp_all add: fs'_def fs_flag_def tx_advance_def Let_def)
  have fin': "fin \<longleftrightarrow> fs_flag fs' FLEXNIC_PL_FLOWST_TXFIN \<and> tx_avail fs' = 0"
  proof -
    have "unat (tx_avail fs') = unat (tx_avail fs) - n" "n \<le> unat (tx_avail fs)"
      using adv(2) l by (simp_all add: tx_window_of_def win_send_def)
    then show ?thesis
      by (auto simp: fin_def w_def tx_window_of_def fl unat_eq_0 [symmetric])
  qed
  define l' where "l' = (if fin then l - 1 else l)"
  define k where "k = (ucast l' :: u16)"
  have k: "unat k = (if fin then n - 1 else n)"
    using l pos by (simp add: k_def l'_def unat_ucast_u32_u16 unat_u32_sub)
  have lens: "unat (tx_len fs') < 2147483648" "tx_next_pos fs < tx_len fs'" "unat k \<le> unat (tx_len fs')"
    using inv(1) k l by (auto simp: tx_inv_def adv(3))
  have buf': "unat (tx_base fs') + unat (tx_len fs') \<le> unat (shm_len env)"
    using inv(2) by (simp add: bufs_ok_def fl adv(3))
  obtain nb where seg: "flow_tx_segment env (upd_flow st q fs') nbh fs' (tx_next_seq fs) (rx_next_seq fs)
      (rx_avail fs) k (tx_next_pos fs) (tx_next_ts fs') ts fin =
      Inr ((upd_flow st q fs')\<lparr>tx_handles := tx_handles (upd_flow st q fs') @ [nb]\<rparr>)"
    "nb_len nb = 66 + k"
    "seg_fields nb = (tx_next_seq fs, rx_next_seq fs, if fin then 0x19 else 0x18, f_beui16 (wnd_field (rx_avail fs)))"
    and pl: "\<And>i. i < unat k \<Longrightarrow> seg_payload nb i =
       fp_shm (upd_flow st q fs') (ring_addr (tx_base fs') (unat (tx_len fs')) (unat (tx_next_pos fs)) i)"
    by (rule flow_tx_segment_sends [OF buf' lens, of "upd_flow st q fs'"]) (use room in auto)
  have run: "fast_flows_qman env st q nbh ts = Some (Inr (0, (upd_flow st q fs')\<lparr>tx_handles := tx_handles st @ [nb]\<rparr>))"
    unfolding fast_flows_qman_def Let_def fs_def [symmetric] l_def [symmetric] fs'_def [symmetric]
      fin' [symmetric] l'_def [symmetric] k_def [symmetric] seg(1)
    using core av l(1) pos by (simp add: word_gt_0 unat_eq_0 [symmetric])
  have k66: "unat (66 + k) = 66 + unat k"
    using k l by (simp add: unat_word_ariths n)
  have seq: "tx_next_seq fs = una w + of_nat (in_flight w)"
    "unat (tx_next_pos fs) = (una_pos w + in_flight w) mod unat (tx_len fs)"
    using next_pos_window [OF inv(1)] by (simp_all add: w_def)
  show ?thesis
    using run adv(1,2) seg(2,3) pl k66 k l(1) unfolding seq
    by (intro exI [of _ "(upd_flow st q fs')\<lparr>tx_handles := tx_handles st @ [nb]\<rparr>"] exI [of _ nb] exI [of _ fs'])
      (simp add: upd_flow_def w_def [symmetric] ring_addr_shift fl adv(3))
qed

theorem fast_flows_qman_sends_witness:
  "\<exists>st' nb. fast_flows_qman demo_env demo_st 3 demo_nbuf 7 = Some (Inr (0, st')) \<and>
     tx_handles st' = [nb] \<and> nb_len nb = 166 \<and> f_beui32 (seqno (tcp (nb_pkt nb))) = 20 \<and>
     seg_payload nb 60 = ucast (4096 + 12 :: u64) \<and> in_flight (tx_window_of (flowst st' 3)) = 150"
proof -
  have flow: "flowst demo_st 3 = demo_flow"
    by simp
  have p100: "(if in_flight (tx_window_of demo_flow) \<le> unat (remote_window demo_flow)
      then min (queued (tx_window_of demo_flow)) (unat (remote_window demo_flow) - in_flight (tx_window_of demo_flow))
      else queued (tx_window_of demo_flow)) = 100"
    using tcp_txavail_exact [OF demo_flow_ok(1)] demo_flow_ok(3) by (simp add: Let_def)
  from fast_flows_qman_sends [of demo_st 3 demo_env demo_nbuf 7, unfolded flow p100] obtain st' nb fs' where
    run: "fast_flows_qman demo_env demo_st 3 demo_nbuf 7 = Some (Inr (0, st'))"
    "st' = demo_st\<lparr>flowst := (flowst demo_st)(3 := fs'), tx_handles := [nb]\<rparr>"
    "tx_window_of fs' = win_send 100 (tx_window_of demo_flow)"
    and seg: "f_beui32 (seqno (tcp (nb_pkt nb))) = 20" "unat (nb_len nb) = 166"
    and pl: "\<forall>i<100. seg_payload nb i =
      ucast (ring_addr (tx_base demo_flow) (unat (tx_len demo_flow)) 1950 (50 + i))"
    using demo_flow_fin by (auto simp: demo_flow_ok seg_fields_def)
  have "seg_payload nb 60 = ucast (4096 + 12 :: u64)"
    using pl by (simp add: demo_flow_def ring_addr_def)
  moreover have "nb_len nb = 166"
    using seg(2) by (simp add: word_unat_eq_iff)
  ultimately show ?thesis
    using run seg(1) by (auto simp: win_send_def demo_flow_ok)
qed

section \<open>Arming the transmit queue\<close>

text \<open>Rates (in Kbps) at which a full segment takes less than \<open>2^30\<close> ns.\<close>

definition rate_ok :: "u32 \<Rightarrow> bool" where
  "rate_ok r \<longleftrightarrow> r = 0 \<or> 11 \<le> r"

lemma rate_ok_set: "rate_ok r \<Longrightarrow> set_ok qman_horizon q i r 1448 QMAN_ADD_ALL"
  "rate_ok r \<Longrightarrow> set_ok qman_horizon q i r 1448 QMAN_SET_ALL"
proof -
  assume r: "rate_ok r"
  have "11584000000 div uint r \<le> 1073741823" if "r \<noteq> 0"
  proof -
    have "11 \<le> uint r"
      using r that by (simp add: rate_ok_def word_le_def)
    then have "11584000000 div uint r \<le> 11584000000 div 11"
      by (intro zdiv_mono2) auto
    then show ?thesis by simp
  qed
  then show "set_ok qman_horizon q i r 1448 QMAN_ADD_ALL" "set_ok qman_horizon q i r 1448 QMAN_SET_ALL"
    by (simp_all add: set_ok_def set_queue_def Let_def chunk_time_def)
qed

lemma qman_add_flow:
  assumes "qman_reach qman_horizon (qman st)" "fid < FLEXNIC_NUM_QMQUEUES" "rate_ok r"
  obtains q' where "qman_set_or_abort st fid r a 1448 QMAN_ADD_ALL = Some (Inr (st\<lparr>qman := q'\<rparr>))"
    "qman_reach qman_horizon q'" "(\<lambda>i. avail (queues q' i)) = (\<lambda>i. avail (queues (qman st) i))(fid := avail (queues (qman st) fid) + a)"
  by (rule tq.add_work [OF assms(1,2) rate_ok_set(1) [OF assms(3)], of a])
    (auto simp: qman_set_or_abort_def)

lemma fast_flows_retransmit_ok:
  assumes inv: "tx_inv (flowst st fid)" and q: "qman_reach qman_horizon (qman st)" "fid < FLEXNIC_NUM_QMQUEUES"
    and r: "rate_ok (tx_rate (flow_reset_retransmit (flowst st fid)))"
  shows "\<exists>st'. fast_flows_retransmit st fid = Some (Inr st') \<and> tx_inv (flowst st' fid) \<and>
    tx_window_of (flowst st' fid) = win_reset (tx_window_of (flowst st fid)) \<and>
    (\<forall>i. i \<noteq> fid \<longrightarrow> flowst st' i = flowst st i) \<and> qman_reach qman_horizon (qman st') \<and> fp_shm st' = fp_shm st"
proof (cases "tx_sent (flowst st fid) = 0")
  case True
  then have "tx_window_of (flowst st fid) = win_reset (tx_window_of (flowst st fid))"
    by (simp add: tx_window_of_def win_reset_def)
  with True show ?thesis
    using inv q by (auto simp: fast_flows_retransmit_def Let_def)
next
  case False
  define fs where "fs = flow_reset_retransmit (flowst st fid)"
  note win = flow_reset_window [OF inv, folded fs_def]
  let ?st = "upd_flow st fid fs"
  obtain q' where q': "qman_set_or_abort ?st fid (tx_rate fs)
      (tcp_txavail fs None - tcp_txavail (flowst st fid) None) 1448 QMAN_ADD_ALL = Some (Inr (?st\<lparr>qman := q'\<rparr>))"
    "qman_reach qman_horizon q'"
    by (rule qman_add_flow [of ?st fid "tx_rate fs"]) (use q r in \<open>simp_all add: fs_def\<close>)
  show ?thesis
    using False q'(2) q(1) win unfolding fast_flows_retransmit_def Let_def fs_def [symmetric] q'(1)
    by auto
qed

text \<open>
  \<^verbatim>\<open>fast_flows_retransmit\<close> moves everything that is in flight back to the queue: the
  first unacknowledged byte and its position in the buffer stay where they are, so the next
  segments carry the same bytes under the same sequence numbers; it returns without fault.
\<close>

theorem fast_flows_retransmit_rewinds:
  assumes inv: "tx_inv (flowst st fid)" and q: "qman_reach qman_horizon (qman st)" "fid < FLEXNIC_NUM_QMQUEUES"
    and r: "rate_ok (tx_rate (flow_reset_retransmit (flowst st fid)))"
  shows "\<exists>st'. fast_flows_retransmit st fid = Some (Inr st') \<and> tx_inv (flowst st' fid) \<and>
    tx_window_of (flowst st' fid) = win_reset (tx_window_of (flowst st fid)) \<and>
    (\<forall>i. i \<noteq> fid \<longrightarrow> flowst st' i = flowst st i) \<and> qman_reach qman_horizon (qman st')"
  using fast_flows_retransmit_ok [OF assms] by auto

theorem fast_flows_retransmit_rewinds_witness:
  "\<exists>st'. fast_flows_retransmit demo_st 3 = Some (Inr st') \<and>
     tx_window_of (flowst st' 3) = \<lparr>una = 4294967266, una_pos = 1950, in_flight = 0, queued = 150\<rparr>"
proof -
  have "rate_ok (tx_rate (flow_reset_retransmit demo_flow))"
    by (simp add: rate_ok_def flow_reset_retransmit_def Let_def demo_flow_def flowst_zero_def)
  with fast_flows_retransmit_rewinds [of demo_st 3] show ?thesis
    by (auto simp: demo_flow_ok demo_reach win_reset_def)
qed

section \<open>Updates from the application\<close>

text \<open>The flow after a bump, and when the fast path accepts it.\<close>

definition bump_closed :: "flextcp_pl_flowst \<Rightarrow> u8 \<Rightarrow> bool" where
  "bump_closed fs flags \<longleftrightarrow> flags AND FLEXTCP_PL_ATX_FLTXDONE = FLEXTCP_PL_ATX_FLTXDONE \<and>
     rx_base_sp fs AND FLEXNIC_PL_FLOWST_TXFIN = 0"

definition bump_accepted :: "flextcp_pl_flowst \<Rightarrow> u16 \<Rightarrow> nat \<Rightarrow> nat \<Rightarrow> u8 \<Rightarrow> bool" where
  "bump_accepted fs seq rx tx flags \<longleftrightarrow>
     \<not> bump_out_of_order seq (bump_seq fs) \<and> \<not> (bump_closed fs flags \<and> tx = 0) \<and>
     (fs_flag fs FLEXNIC_PL_FLOWST_TXFIN \<or>
        tx + unat (tx_avail fs) + unat (tx_sent fs) \<le> unat (tx_len fs)) \<and>
     rx \<le> unat (rx_len fs) \<and> rx + unat (rx_avail fs) \<le> unat (tx_len fs)"

definition bump_flow :: "flextcp_pl_flowst \<Rightarrow> u16 \<Rightarrow> u32 \<Rightarrow> u32 \<Rightarrow> u8 \<Rightarrow> flextcp_pl_flowst" where
  "bump_flow fs seq rx tx flags =
    (if bump_out_of_order seq (bump_seq fs) then fs
     else if \<not> bump_accepted fs seq (unat rx) (unat tx) flags then fs\<lparr>bump_seq := seq\<rparr>
     else fs\<lparr>bump_seq := seq,
       rx_base_sp := if bump_closed fs flags then rx_base_sp fs OR FLEXNIC_PL_FLOWST_TXFIN else rx_base_sp fs,
       tx_avail := if fs_flag fs FLEXNIC_PL_FLOWST_TXFIN then tx_avail fs else tx_avail fs + tx,
       rx_avail := rx_avail fs + rx\<rparr>)"

definition rx_inv :: "flextcp_pl_flowst \<Rightarrow> bool" where
  "rx_inv fs \<longleftrightarrow> rx_next_pos fs < rx_len fs \<and> unat (rx_len fs) < 2147483648 \<and>
     unat (rx_avail fs) \<le> unat (rx_len fs)"

lemma bump_flow_inv:
  assumes "tx_inv fs"
  shows "tx_inv (bump_flow fs seq rx tx flags)"
    "rx_inv fs \<Longrightarrow> rx_len fs = tx_len fs \<Longrightarrow> rx_inv (bump_flow fs seq rx tx flags)"
    "tx_window_of (bump_flow fs seq rx tx flags) =
      win_append (if bump_accepted fs seq (unat rx) (unat tx) flags \<and> \<not> fs_flag fs FLEXNIC_PL_FLOWST_TXFIN
                  then unat tx else 0) (tx_window_of fs)"
proof -
  have u: "bump_accepted fs seq (unat rx) (unat tx) flags \<Longrightarrow> \<not> fs_flag fs FLEXNIC_PL_FLOWST_TXFIN \<Longrightarrow>
      unat (tx_avail fs + tx) = unat (tx_avail fs) + unat tx"
    and r: "bump_accepted fs seq (unat rx) (unat tx) flags \<Longrightarrow> unat (rx_avail fs + rx) = unat (rx_avail fs) + unat rx"
    using assms by (auto simp: bump_accepted_def tx_inv_def unat_u32_add)
  show "tx_inv (bump_flow fs seq rx tx flags)"
    using assms u by (auto simp: bump_flow_def tx_inv_def bump_accepted_def)
  show "rx_inv fs \<Longrightarrow> rx_len fs = tx_len fs \<Longrightarrow> rx_inv (bump_flow fs seq rx tx flags)"
    using r by (auto simp: bump_flow_def rx_inv_def bump_accepted_def)
  show "tx_window_of (bump_flow fs seq rx tx flags) =
      win_append (if bump_accepted fs seq (unat rx) (unat tx) flags \<and> \<not> fs_flag fs FLEXNIC_PL_FLOWST_TXFIN
                  then unat tx else 0) (tx_window_of fs)"
    using u by (auto simp: bump_flow_def tx_window_of_def win_append_def bump_accepted_def)
qed

lemma bump_flow_windows:
  assumes "tx_inv fs"
  shows "bump_accepted fs seq (unat rx) (unat tx) flags \<Longrightarrow> unat (rx_avail (bump_flow fs seq rx tx flags)) = unat (rx_avail fs) + unat rx"
    "\<not> bump_accepted fs seq (unat rx) (unat tx) flags \<Longrightarrow> rx_avail (bump_flow fs seq rx tx flags) = rx_avail fs"
  using assms by (auto simp: bump_flow_def bump_accepted_def tx_inv_def unat_u32_add)

text \<open>The code's overflow-aware test is the one on natural numbers.\<close>

lemma bump_tx_test:
  assumes "tx_inv fs"
  shows "tx > tx_len fs \<or> tx_avail fs + tx > tx_len fs \<or> tx_avail fs + tx + tx_sent fs > tx_len fs \<longleftrightarrow>
    \<not> unat tx + unat (tx_avail fs) + unat (tx_sent fs) \<le> unat (tx_len fs)"
  using assms by (auto simp: tx_inv_def word_less_nat_alt unat_u32_add)

lemma bump_rx_test:
  assumes "rx_inv fs"
  shows "rx > rx_len fs \<or> rx + rx_avail fs > tx_len fs \<longleftrightarrow>
    \<not> (unat rx \<le> unat (rx_len fs) \<and> unat rx + unat (rx_avail fs) \<le> unat (tx_len fs))"
  using assms by (auto simp: rx_inv_def word_less_nat_alt unat_u32_add)

lemma fast_flows_bump_unfold:
  fixes st :: fastpath and fid :: u32
  defines "fs \<equiv> flowst st fid"
  assumes inv: "tx_inv fs" "rx_inv fs"
    and fs2: "fs2 = bump_flow fs seq rx tx flags" and new: "new = tcp_txavail fs (Some (tx_avail fs2))"
  shows "fast_flows_bump env st fid seq rx tx flags nbh ts =
    (if \<not> bump_accepted fs seq (unat rx) (unat tx) flags then Some (Inr (-1, upd_flow st fid fs2))
     else
       bind_run (if tcp_txavail fs None < new
                 then qman_set_or_abort st fid (tx_rate fs) (new - tcp_txavail fs None) 1448 QMAN_ADD_ALL
                 else Some (Inr st)) (\<lambda>st.
       if new = 0 \<and> rx_avail fs = 0 \<and> rx_avail fs2 \<noteq> 0 then
         Some (bind_res (flow_tx_segment env (upd_flow st fid fs2) nbh fs2 (tx_next_seq fs2) (rx_next_seq fs2)
                  (rx_avail fs2) 0 0 (tx_next_ts fs2) ts False) (\<lambda>st. Inr (0, st)))
       else Some (Inr (-1, upd_flow st fid fs2))))"
proof (cases "bump_out_of_order seq (bump_seq fs)")
  case True
  then show ?thesis
    by (simp add: fast_flows_bump_def Let_def fs_def [symmetric] fs2 bump_flow_def bump_accepted_def)
      (simp add: fs_def upd_flow_def)
next
  case False
  define fs1 where "fs1 = fs\<lparr>bump_seq := seq\<rparr>"
  define tx1 where "tx1 = (if fs_flag fs FLEXNIC_PL_FLOWST_TXFIN \<and> tx \<noteq> 0 then 0 else tx)"
  have c1: "fs_flag fs1 f = fs_flag fs f" "tx_inv fs1 = tx_inv fs" "rx_inv fs1 = rx_inv fs"
    "rx_base_sp fs1 = rx_base_sp fs" "tx_len fs1 = tx_len fs" "rx_len fs1 = rx_len fs"
    "tx_sent fs1 = tx_sent fs" "tx_avail fs1 = tx_avail fs" "rx_avail fs1 = rx_avail fs"
    "tx_rate fs1 = tx_rate fs" "tcp_txavail fs1 x = tcp_txavail fs x" for f x
    by (simp_all add: fs1_def fs_flag_def tx_inv_def rx_inv_def tcp_txavail_def remote_window_def split: option.split)
  have excl: "fs_flag fs FLEXNIC_PL_FLOWST_TXFIN \<Longrightarrow> \<not> bump_closed fs flags"
    by (auto simp: bump_closed_def fs_flag_def)
  have tests: "(tx1 > tx_len fs \<or> tx_avail fs + tx1 > tx_len fs \<or> tx_avail fs + tx1 + tx_sent fs > tx_len fs) \<longleftrightarrow>
      \<not> (fs_flag fs FLEXNIC_PL_FLOWST_TXFIN \<or> unat tx + unat (tx_avail fs) + unat (tx_sent fs) \<le> unat (tx_len fs))"
    using bump_tx_test [OF inv(1), of tx1] inv(1) by (auto simp: tx1_def tx_inv_def)
  have dummy: "\<not> (fs_flag fs FLEXNIC_PL_FLOWST_TXFIN \<and> tx \<noteq> 0) \<and> bump_closed fs flags \<and> tx = 0 \<longleftrightarrow>
      bump_closed fs flags \<and> unat tx = 0"
    by (auto simp: unat_eq_0)
  note tests' = tests bump_rx_test [OF inv(2), of rx]
  note run = fast_flows_bump_def [of env st fid seq rx tx flags nbh ts, unfolded Let_def, folded fs_def,
      folded fs1_def, unfolded c1, folded bump_closed_def tx1_def, unfolded dummy tests']
  show ?thesis
  proof (cases "bump_accepted fs seq (unat rx) (unat tx) flags")
    case rej: False
    then have "fs2 = fs1"
      using False by (simp add: fs2 bump_flow_def fs1_def)
    then show ?thesis
      unfolding run using False rej by (auto simp: bump_accepted_def)
  next
    case acc: True
    then have "fs2 = (if bump_closed fs flags then fs1\<lparr>rx_base_sp := rx_base_sp fs OR FLEXNIC_PL_FLOWST_TXFIN\<rparr> else fs1)
        \<lparr>tx_avail := tx_avail fs + tx1, rx_avail := rx_avail fs + rx\<rparr>"
      using False by (simp add: fs2 bump_flow_def fs1_def tx1_def)
    then show ?thesis
      unfolding run new using False acc c1
      by (cases "bump_closed fs flags") (simp_all add: bump_accepted_def cong: if_cong)
  qed
qed

lemma fast_flows_bump_ok:
  fixes st :: fastpath and fid :: u32
  defines "fs \<equiv> flowst st fid"
  assumes inv: "tx_inv fs" "rx_inv fs" "bufs_ok env fs" and room: "length (tx_handles st) < TXBUF_SIZE"
    and q: "qman_reach qman_horizon (qman st)" "fid < FLEXNIC_NUM_QMQUEUES" "rate_ok (tx_rate fs)"
  shows "\<exists>r st'. fast_flows_bump env st fid seq rx tx flags nbh ts = Some (Inr (r, st')) \<and>
    flowst st' = (flowst st)(fid := bump_flow fs seq rx tx flags) \<and> fp_shm st' = fp_shm st \<and>
    qman_reach qman_horizon (qman st') \<and> tx_inv (bump_flow fs seq rx tx flags) \<and>
    length (tx_handles st') = length (tx_handles st) + (if r = 0 then 1 else 0)"
proof -
  let ?fs = "bump_flow fs seq rx tx flags"
  define new where "new = tcp_txavail fs (Some (tx_avail ?fs))"
  note run = fast_flows_bump_unfold [OF inv(1,2) [unfolded fs_def], folded fs_def, OF refl new_def, of env nbh ts]
  have inv': "tx_inv ?fs"
    using bump_flow_inv(1) [OF inv(1)] .
  have same: "tx_len ?fs = tx_len fs" "tx_base ?fs = tx_base fs"
    by (simp_all add: bump_flow_def)
  have seg0: "unat (tx_base ?fs) + unat (tx_len ?fs) \<le> unat (shm_len env)" "unat (tx_len ?fs) < 2147483648"
    "0 < tx_len ?fs" "unat (0::u16) \<le> unat (tx_len ?fs)"
    using inv inv' by (auto simp: bufs_ok_def same tx_inv_def word_less_nat_alt)
  show ?thesis
  proof (cases "bump_accepted fs seq (unat rx) (unat tx) flags")
    case False
    then show ?thesis
      unfolding run using inv' q(1) by (simp add: fun_upd_def)
  next
    case True
    obtain q' where q': "(if tcp_txavail fs None < new
        then qman_set_or_abort st fid (tx_rate fs) (new - tcp_txavail fs None) 1448 QMAN_ADD_ALL
        else Some (Inr st)) = Some (Inr (st\<lparr>qman := q'\<rparr>))" "qman_reach qman_horizon q'"
    proof (cases "tcp_txavail fs None < new")
      case True
      obtain q' where "qman_set_or_abort st fid (tx_rate fs) (new - tcp_txavail fs None) 1448 QMAN_ADD_ALL =
          Some (Inr (st\<lparr>qman := q'\<rparr>))" "qman_reach qman_horizon q'"
        by (rule qman_add_flow [OF q, of "new - tcp_txavail fs None"])
      with True show thesis
        by (intro that [of q']) simp_all
    qed (use q(1) in \<open>auto intro!: that [of "qman st"]\<close>)
    obtain nb where seg: "flow_tx_segment env (upd_flow (st\<lparr>qman := q'\<rparr>) fid ?fs) nbh ?fs (tx_next_seq ?fs)
        (rx_next_seq ?fs) (rx_avail ?fs) 0 0 (tx_next_ts ?fs) ts False =
        Inr ((upd_flow (st\<lparr>qman := q'\<rparr>) fid ?fs)\<lparr>tx_handles := tx_handles st @ [nb]\<rparr>)"
      by (rule flow_tx_segment_sends [OF seg0, of "upd_flow (st\<lparr>qman := q'\<rparr>) fid ?fs"]) (use room in auto)
    show ?thesis
      using True inv' q'(2) unfolding run q'(1) by (simp add: seg)
  qed
qed



section \<open>Acknowledgements\<close>

text \<open>The receive side of the flow state, which acknowledgement processing leaves alone.\<close>

definition rx_part :: "flextcp_pl_flowst \<Rightarrow> u64 \<times> u32 \<times> u32 \<times> u32 \<times> u32 \<times> u32 \<times> u32" where
  "rx_part fs = (rx_base_sp fs, rx_len fs, rx_avail fs, rx_next_pos fs, rx_next_seq fs,
     rx_ooo_start fs, rx_ooo_len fs)"

lemma tx_fields_cong:
  assumes "tx_next_pos fs' = tx_next_pos fs" "tx_len fs' = tx_len fs" "tx_sent fs' = tx_sent fs"
    "tx_avail fs' = tx_avail fs" "tx_next_seq fs' = tx_next_seq fs"
  shows "tx_inv fs' = tx_inv fs" "tx_window_of fs' = tx_window_of fs"
  using assms by (simp_all add: tx_inv_def tx_window_of_def)

lemma ack_in_flight_bound:
  "tx_inv fs \<Longrightarrow> ack_in_flight fs ack \<longleftrightarrow>
     unat (ack - una (tx_window_of fs)) \<le> unat (tx_sent fs) + unat (tx_avail fs)"
  by (simp add: ack_in_flight_def tx_window_of_def)

text \<open>Acknowledgement processing in terms of \<open>ack_flow\<close>: first the counters, then the window.\<close>

definition ack_count :: "flextcp_pl_flowst \<Rightarrow> u16 \<Rightarrow> u32 \<Rightarrow> flextcp_pl_flowst" where
  "ack_count fs flags k =
    (let fs = fs\<lparr>cnt_rx_acks := cnt_rx_acks fs + 1\<rparr>;
         fs = fs\<lparr>cnt_rx_ack_bytes := cnt_rx_ack_bytes fs + k\<rparr> in
     if flags AND TCP_ECE = TCP_ECE then fs\<lparr>cnt_rx_ecn_bytes := cnt_rx_ecn_bytes fs + k\<rparr> else fs)"

lemma ack_count_keeps:
  "tx_inv (ack_count fs flags k) = tx_inv fs" "tx_window_of (ack_count fs flags k) = tx_window_of fs"
  "tx_len (ack_count fs flags k) = tx_len fs" "tx_sent (ack_count fs flags k) = tx_sent fs"
  "tx_avail (ack_count fs flags k) = tx_avail fs" "rx_part (ack_count fs flags k) = rx_part fs"
  "tx_base (ack_count fs flags k) = tx_base fs"
  by (auto simp: ack_count_def Let_def rx_part_def tx_inv_def tx_window_of_def)

lemma packet_ack_unfold:
  "packet_ack fs flags ack pl =
    (if flags AND TCP_ACK \<noteq> TCP_ACK then (fs, 0, False)
     else case tcp_valid_rxack fs ack of
       None \<Rightarrow> (fs\<lparr>cnt_rx_acks := cnt_rx_acks fs + 1\<rparr>, 0, False)
     | Some k \<Rightarrow>
         let fs = ack_flow (ack_count fs flags k) k in
         if k \<noteq> 0 then (fs\<lparr>rx_dupack_cnt := 0\<rparr>, k, False)
         else if pl \<noteq> 0 then (fs, k, False)
         else let fs = fs\<lparr>rx_dupack_cnt := rx_dupack_cnt fs + 1\<rparr> in
           if rx_dupack_cnt fs \<ge> 3 then (flow_reset_retransmit fs, k, True) else (fs, k, False))"
proof -
  have "tcp_valid_rxack (fs\<lparr>cnt_rx_acks := c\<rparr>) ack = tcp_valid_rxack fs ack" for c
    by (simp add: tcp_valid_rxack_def)
  then show ?thesis
    by (auto simp: packet_ack_def ack_flow_def ack_count_def Let_def split: option.splits)
qed

lemma ack_flow_keeps:
  "rx_part (ack_flow fs k) = rx_part fs" "tx_base (ack_flow fs k) = tx_base fs"
  by (simp_all add: ack_flow_def Let_def rx_part_def)

lemma flow_reset_keeps:
  "rx_part (flow_reset_retransmit fs) = rx_part fs" "tx_base (flow_reset_retransmit fs) = tx_base fs"
  by (simp_all add: flow_reset_retransmit_def Let_def rx_part_def)

lemma dupack_keeps:
  "tx_inv (fs\<lparr>rx_dupack_cnt := d\<rparr>) = tx_inv fs" "tx_window_of (fs\<lparr>rx_dupack_cnt := d\<rparr>) = tx_window_of fs"
  "rx_part (fs\<lparr>rx_dupack_cnt := d\<rparr>) = rx_part fs"
  "tx_inv (fs\<lparr>cnt_rx_acks := e\<rparr>) = tx_inv fs" "tx_window_of (fs\<lparr>cnt_rx_acks := e\<rparr>) = tx_window_of fs"
  "rx_part (fs\<lparr>cnt_rx_acks := e\<rparr>) = rx_part fs"
  by (simp_all add: tx_inv_def tx_window_of_def rx_part_def)

lemmas ack_keeps = ack_count_keeps ack_flow_keeps flow_reset_keeps dupack_keeps

lemma packet_ack_rx:
  assumes "packet_ack fs flags ack pl = (fs', bump, rex)"
  shows "rx_part fs' = rx_part fs" "tx_base fs' = tx_base fs"
  using assms by (auto simp: packet_ack_unfold Let_def ack_keeps split: if_splits option.splits)

lemma packet_ack_window:
  assumes inv: "tx_inv fs" and res: "packet_ack fs flags ack pl = (fs', bump, rex)"
  shows "tx_inv fs'" "tx_len fs' = tx_len fs"
    "flags AND TCP_ACK = TCP_ACK \<and> ack_in_flight fs ack \<Longrightarrow>
       bump = ack - una (tx_window_of fs) \<and> tx_window_of fs' =
         (if rex then win_reset else (\<lambda>w. w)) (win_ack (unat (tx_len fs)) (unat bump) (tx_window_of fs))"
    "\<not> (flags AND TCP_ACK = TCP_ACK \<and> ack_in_flight fs ack) \<Longrightarrow>
       bump = 0 \<and> \<not> rex \<and> tx_window_of fs' = tx_window_of fs"
proof -
  have sum: "unat (tx_sent fs) + unat (tx_avail fs) < 2 ^ 32"
    using inv by (auto simp: tx_inv_def)
  have v: "tcp_valid_rxack fs ack =
      (if ack_in_flight fs ack then Some (ack - una (tx_window_of fs)) else None)"
    using valid_rxack_in_flight [OF sum, of ack] by (simp add: tx_window_of_def)
  define k where "k = ack - una (tx_window_of fs)"
  define fsC where "fsC = ack_flow (ack_count fs flags k) k"
  have C: "tx_inv fsC \<and> tx_window_of fsC = win_ack (unat (tx_len fs)) (unat k) (tx_window_of fs) \<and>
      tx_len fsC = tx_len fs" if "ack_in_flight fs ack"
    using ack_flow_window [of "ack_count fs flags k" k] inv that
    by (simp add: ack_keeps fsC_def k_def ack_in_flight_bound)
  note res = res [unfolded packet_ack_unfold v Let_def, folded k_def]
  note rst = flow_reset_window [of "fsC\<lparr>rx_dupack_cnt := d\<rparr>" for d]
  have all: "tx_inv fs' \<and> tx_len fs' = tx_len fs \<and>
    (if flags AND TCP_ACK = TCP_ACK \<and> ack_in_flight fs ack
     then bump = k \<and> tx_window_of fs' =
         (if rex then win_reset else (\<lambda>w. w)) (win_ack (unat (tx_len fs)) (unat bump) (tx_window_of fs))
     else bump = 0 \<and> \<not> rex \<and> tx_window_of fs' = tx_window_of fs)"
  proof (cases "flags AND TCP_ACK = TCP_ACK \<and> ack_in_flight fs ack")
    case False
    with res inv show ?thesis
      by (auto simp: ack_keeps split: if_splits)
  next
    case True
    then have c: "(flags AND TCP_ACK \<noteq> TCP_ACK) = False" "ack_in_flight fs ack = True"
      by simp_all
    note res = res [unfolded c if_False if_True option.case, folded fsC_def]
    show ?thesis
      using C True res rst by (auto simp: ack_keeps Let_def split: if_splits)
  qed
  show "tx_inv fs'" "tx_len fs' = tx_len fs"
    "flags AND TCP_ACK = TCP_ACK \<and> ack_in_flight fs ack \<Longrightarrow>
       bump = ack - una (tx_window_of fs) \<and> tx_window_of fs' =
         (if rex then win_reset else (\<lambda>w. w)) (win_ack (unat (tx_len fs)) (unat bump) (tx_window_of fs))"
    "\<not> (flags AND TCP_ACK = TCP_ACK \<and> ack_in_flight fs ack) \<Longrightarrow>
       bump = 0 \<and> \<not> rex \<and> tx_window_of fs' = tx_window_of fs"
    using all by (auto simp: k_def)
qed

text \<open>When an acknowledgement counts as a duplicate, and when it starts a retransmission.\<close>

lemma packet_ack_dup:
  assumes inv: "tx_inv fs" and res: "packet_ack fs flags ack pl = (fs', bump, rex)"
  shows "flags AND TCP_ACK = TCP_ACK \<and> ack_in_flight fs ack \<Longrightarrow>
      rex \<longleftrightarrow> bump = 0 \<and> pl = 0 \<and> 3 \<le> rx_dupack_cnt fs + 1"
    "rx_dupack_cnt fs' = (if \<not> (flags AND TCP_ACK = TCP_ACK \<and> ack_in_flight fs ack) then rx_dupack_cnt fs
       else if bump \<noteq> 0 \<or> rex then 0 else if pl = 0 then rx_dupack_cnt fs + 1 else rx_dupack_cnt fs)"
proof -
  have sum: "unat (tx_sent fs) + unat (tx_avail fs) < 2 ^ 32"
    using inv by (auto simp: tx_inv_def)
  have v: "tcp_valid_rxack fs ack = (if ack_in_flight fs ack then Some (ack - una (tx_window_of fs)) else None)"
    using valid_rxack_in_flight [OF sum, of ack] by (simp add: tx_window_of_def)
  have c: "rx_dupack_cnt (ack_flow (ack_count fs flags k) k) = rx_dupack_cnt fs" for k
    by (simp add: ack_flow_def ack_count_def Let_def)
  have r: "rx_dupack_cnt (flow_reset_retransmit f) = 0" for f
    by (simp add: flow_reset_retransmit_def Let_def)
  show "flags AND TCP_ACK = TCP_ACK \<and> ack_in_flight fs ack \<Longrightarrow> rex \<longleftrightarrow> bump = 0 \<and> pl = 0 \<and> 3 \<le> rx_dupack_cnt fs + 1"
    "rx_dupack_cnt fs' = (if \<not> (flags AND TCP_ACK = TCP_ACK \<and> ack_in_flight fs ack) then rx_dupack_cnt fs
       else if bump \<noteq> 0 \<or> rex then 0 else if pl = 0 then rx_dupack_cnt fs + 1 else rx_dupack_cnt fs)"
    using res by (auto simp: packet_ack_unfold v Let_def c r split: if_splits)
qed

text \<open>
  C32: Acknowledgement processing refines the window operation: an acknowledgement number
  inside the send window removes exactly the bytes before it, also when it covers bytes
  that were rewound for retransmission, and nothing else of the window changes; every other
  acknowledgement leaves the window alone.  Acknowledgements in the window that acknowledge nothing new and come without payload are
  duplicates: the count grows with each, restarts when one acknowledges new bytes, and when it reaches three the window is rewound
  and the count restarts.  The receive side is not touched.
\<close>

theorem packet_ack_slides:
  assumes inv: "tx_inv fs" and res: "packet_ack fs flags ack pl = (fs', bump, rex)"
  shows "tx_inv fs' \<and> rx_part fs' = rx_part fs \<and>
    (if flags AND TCP_ACK = TCP_ACK \<and> ack_in_flight fs ack
     then una (tx_window_of fs) + bump = ack \<and> tx_window_of fs' =
       (if rex then win_reset else (\<lambda>w. w)) (win_ack (unat (tx_len fs)) (unat bump) (tx_window_of fs)) \<and>
       (rex \<longleftrightarrow> bump = 0 \<and> pl = 0 \<and> 3 \<le> rx_dupack_cnt fs + 1) \<and>
       rx_dupack_cnt fs' = (if bump \<noteq> 0 \<or> rex then 0 else if pl = 0 then rx_dupack_cnt fs + 1 else rx_dupack_cnt fs)
     else bump = 0 \<and> \<not> rex \<and> tx_window_of fs' = tx_window_of fs \<and> rx_dupack_cnt fs' = rx_dupack_cnt fs)"
  using packet_ack_window [OF assms] packet_ack_rx [OF res] packet_ack_dup [OF assms] by auto

theorem packet_ack_slides_witness:
  "\<exists>fs' bump. packet_ack demo_flow 16 10 0 = (fs', bump, False) \<and>
     tx_window_of fs' = \<lparr>una = 10, una_pos = 1990, in_flight = 10, queued = 100\<rparr>"
proof -
  have ack: "ack_in_flight demo_flow 10"
    by (simp add: ack_in_flight_bound demo_flow_ok) (simp add: demo_flow_def)
  obtain fs' bump rex where r: "packet_ack demo_flow 16 10 0 = (fs', bump, rex)"
    by (metis prod_cases3)
  have "\<not> rex"
    using r by (auto simp: packet_ack_unfold Let_def demo_flow_def flowst_zero_def tcp_valid_rxack_def)
  moreover have "bump = 10 - 4294967266"
    using packet_ack_slides [OF demo_flow_ok(1) r] ack by (auto simp: demo_flow_ok eq_neg_iff_add_eq_0 add.commute)
  then have "bump = 40"
    by simp
  moreover have "tx_len demo_flow = 2048"
    by (simp add: demo_flow_def)
  ultimately show ?thesis
    using packet_ack_slides [OF demo_flow_ok(1) r] r ack \<open>bump = 40\<close> by (auto simp: demo_flow_ok win_ack_def)
qed

end
