(* ===== verification/Flow_Rx.thy ===== *)
theory Flow_Rx
  imports Flow_Tx
begin

text \<open>
  The receiving side of a flow: the free part of the receive buffer as a window of the
  sequence space, the out-of-order interval in it, and what the parts of the receive
  handler (\<open>packet_ooo\<close>, \<open>packet_seq\<close>, \<open>packet_payload\<close>, \<open>packet_merge_ooo\<close>, \<open>packet_data\<close>)
  do to them.  \<open>rx_ok\<close> is the invariant: what the window remembers is the peer's stream.
\<close>

unbundle bit_operations_syntax

section \<open>The receive window\<close>

text \<open>
  The free part of the receive buffer starts at \<^verbatim>\<open>rx_next_pos\<close> and belongs to the sequence
  numbers from \<^verbatim>\<open>rx_next_seq\<close> on: the address of the byte \<open>k\<close> after the next expected one.
\<close>

definition rx_slot :: "flextcp_pl_flowst \<Rightarrow> nat \<Rightarrow> u64" where
  "rx_slot fs k = ring_addr (rx_base fs) (unat (rx_len fs)) (unat (rx_next_pos fs)) k"

text \<open>The stream the peer sends is a byte for every sequence number; a range of the window holds it.\<close>

type_synonym stream = "u32 \<Rightarrow> u8"

definition holds :: "stream \<Rightarrow> mem \<Rightarrow> flextcp_pl_flowst \<Rightarrow> nat \<Rightarrow> nat \<Rightarrow> bool" where
  "holds \<sigma> m fs a b \<longleftrightarrow> (\<forall>k. a \<le> k \<and> k < b \<longrightarrow> m (rx_slot fs k) = \<sigma> (rx_next_seq fs + of_nat k))"

text \<open>The out-of-order interval, as distances from the next expected byte.\<close>

definition ooo_from :: "flextcp_pl_flowst \<Rightarrow> nat" where
  "ooo_from fs = unat (rx_ooo_start fs - rx_next_seq fs)"

definition ooo_to :: "flextcp_pl_flowst \<Rightarrow> nat" where
  "ooo_to fs = ooo_from fs + unat (rx_ooo_len fs)"

text \<open>
  A well-formed receive side: the registers are in range, the window is one the 16-bit
  lengths can describe, and the out-of-order interval lies in it and holds the stream.
\<close>

definition rx_ok :: "fp_env \<Rightarrow> stream \<Rightarrow> mem \<Rightarrow> flextcp_pl_flowst \<Rightarrow> bool" where
  "rx_ok env \<sigma> m fs \<longleftrightarrow> rx_inv fs \<and> bufs_ok env fs \<and> unat (rx_avail fs) < 65536 \<and>
     (rx_ooo_len fs \<noteq> 0 \<longrightarrow> ooo_to fs \<le> unat (rx_avail fs) \<and> holds \<sigma> m fs (ooo_from fs) (ooo_to fs))"

text \<open>Memory outside of the free part of the receive buffer is as before.\<close>

definition rx_frame :: "flextcp_pl_flowst \<Rightarrow> mem \<Rightarrow> mem \<Rightarrow> bool" where
  "rx_frame fs m m' \<longleftrightarrow> (\<forall>a. (\<forall>k < unat (rx_avail fs). a \<noteq> rx_slot fs k) \<longrightarrow> m' a = m a)"

lemma rx_frame_refl [simp]: "rx_frame fs m m"
  by (simp add: rx_frame_def)

lemma rx_inv_nat:
  assumes "rx_inv fs"
  shows "unat (rx_next_pos fs) < unat (rx_len fs)" "unat (rx_len fs) < 2147483648"
    "unat (rx_avail fs) \<le> unat (rx_len fs)"
  using assms by (simp_all add: rx_inv_def word_less_nat_alt)

lemma rx_slot_inj:
  assumes "bufs_ok env fs" "j < unat (rx_len fs)" "k < unat (rx_len fs)" "rx_slot fs j = rx_slot fs k"
  shows "j = k"
proof -
  have "unat (rx_base fs) + unat (rx_len fs) < 18446744073709551616"
    using assms(1) unat_u64_bound [of "shm_len env"] by (simp add: bufs_ok_def)
  then show ?thesis
    using ring_addr_inj [OF _ assms(2,3)] assms(4) by (simp add: rx_slot_def)
qed

text \<open>Storing part of the stream in the window keeps what the window held and adds the new range.\<close>

lemma store_holds:
  assumes ok: "rx_inv fs" "bufs_ok env fs" and st: "ring_stored (rx_base fs) (unat (rx_len fs))
      ((unat (rx_next_pos fs) + a) mod unat (rx_len fs)) n src off m m'"
    and b: "a + n \<le> unat (rx_avail fs)" and src: "\<forall>i<n. src (off + i) = \<sigma> (rx_next_seq fs + of_nat (a + i))"
  shows "rx_frame fs m m'" "holds \<sigma> m' fs a (a + n)"
    "\<And>c d. holds \<sigma> m fs c d \<Longrightarrow> d \<le> unat (rx_avail fs) \<Longrightarrow> holds \<sigma> m' fs c d"
proof -
  have new: "m' (rx_slot fs (a + i)) = \<sigma> (rx_next_seq fs + of_nat (a + i))" if "i < n" for i
    using st src that by (simp add: ring_stored_def rx_slot_def ring_addr_shift)
  have old: "m' x = m x" if "\<And>i. i < n \<Longrightarrow> x \<noteq> rx_slot fs (a + i)" for x
    using st that by (simp add: ring_stored_def rx_slot_def ring_addr_shift)
  show "rx_frame fs m m'"
    unfolding rx_frame_def using old b by (metis add_less_cancel_left order_less_le_trans)
  show h: "holds \<sigma> m' fs a (a + n)"
    unfolding holds_def using new by (metis le_Suc_ex nat_add_left_cancel_less)
  show "holds \<sigma> m' fs c d" if "holds \<sigma> m fs c d" "d \<le> unat (rx_avail fs)" for c d
    unfolding holds_def
  proof (intro allI impI)
    fix k assume k: "c \<le> k \<and> k < d"
    show "m' (rx_slot fs k) = \<sigma> (rx_next_seq fs + of_nat k)"
    proof (cases "a \<le> k \<and> k < a + n")
      case True
      then show ?thesis using h by (simp add: holds_def)
    next
      case False
      have "rx_slot fs k \<noteq> rx_slot fs (a + i)" if "i < n" for i
        using rx_slot_inj [OF ok(2), of k "a + i"] False that b k \<open>d \<le> _\<close> rx_inv_nat(3) [OF ok(1)] by auto
      then show ?thesis
        using old [of "rx_slot fs k"] that(1) k by (simp add: holds_def)
    qed
  qed
qed

text \<open>Ranges that meet.\<close>

lemma holds_join: "holds \<sigma> m fs a b \<Longrightarrow> holds \<sigma> m fs c d \<Longrightarrow> c \<le> b \<Longrightarrow> holds \<sigma> m fs a d"
  unfolding holds_def by (meson le_trans not_less)

lemma holds_sub: "holds \<sigma> m fs a b \<Longrightarrow> a \<le> c \<Longrightarrow> d \<le> b \<Longrightarrow> holds \<sigma> m fs c d"
  by (auto simp: holds_def)

section \<open>Out-of-order segments\<close>

lemma flow_rx_seq_write_stores:
  assumes ok: "rx_inv fs" "bufs_ok env fs" and b: "unat (seq - rx_next_seq fs) + unat n \<le> unat (rx_avail fs)" "0 < unat n"
  shows "\<exists>m'. flow_rx_seq_write env m fs seq n src off = Inr m' \<and>
    ring_stored (rx_base fs) (unat (rx_len fs))
      ((unat (rx_next_pos fs) + unat (seq - rx_next_seq fs)) mod unat (rx_len fs)) (unat n) src off m m'"
proof -
  note r = rx_inv_nat [OF ok(1)]
  let ?d = "seq - rx_next_seq fs"
  define pos where "pos = (let pos = rx_next_pos fs + ?d in if pos \<ge> rx_len fs then pos - rx_len fs else pos)"
  have d: "unat ?d < unat (rx_len fs)"
    using b r by linarith
  have sum: "unat (rx_next_pos fs + ?d) = unat (rx_next_pos fs) + unat ?d"
    using r d by (simp add: unat_u32_add)
  have pos: "unat pos = (unat (rx_next_pos fs) + unat ?d) mod unat (rx_len fs)"
    using r d sum by (simp add: pos_def Let_def word_le_nat_alt unat_u32_sub mod_once)
  have lt: "pos < rx_len fs"
    using r by (simp add: word_less_nat_alt pos)
  have n: "unat n \<le> unat (rx_len fs)"
    using b r by linarith
  have "flow_rx_seq_write env m fs seq n src off = flow_rx_write env m fs pos n src off"
    using lt by (simp add: flow_rx_seq_write_def pos_def Let_def split: if_splits)
  then show ?thesis
    using flow_rx_write_ring [OF _ r(2) lt n, of env m src off] ok(2) by (simp add: bufs_ok_def pos)
qed

lemma u32_between:
  fixes a b k :: u32
  assumes "unat (b - a) + unat k < 4294967296"
  shows "unat (b + k - a) = unat (b - a) + unat k"
  using assms unat_u32_add [of "b - a" k] by (simp add: algebra_simps)

lemma packet_ooo_ok:
  assumes ok: "rx_ok env \<sigma> m fs" and n: "unat n < 65536" "0 < unat n"
    and b: "unat (seq - rx_next_seq fs) + unat n \<le> unat (rx_avail fs)"
    and src: "\<And>i. i < unat n \<Longrightarrow> src (off + i) = \<sigma> (seq + of_nat i)"
  obtains fs' m' where "packet_ooo env m fs seq n src off = Inr (fs', m')" "rx_ok env \<sigma> m' fs'"
    "rx_frame fs m m'" "fs' = fs\<lparr>rx_ooo_start := rx_ooo_start fs', rx_ooo_len := rx_ooo_len fs'\<rparr>"
proof -
  let ?a = "unat (seq - rx_next_seq fs)"
  have inv: "rx_inv fs" "bufs_ok env fs" "unat (rx_avail fs) < 65536"
    using ok by (simp_all add: rx_ok_def)
  have keep: "rx_inv (fs\<lparr>rx_ooo_start := s, rx_ooo_len := l\<rparr>)" "bufs_ok env (fs\<lparr>rx_ooo_start := s, rx_ooo_len := l\<rparr>)"
    "holds \<sigma> m' (fs\<lparr>rx_ooo_start := s, rx_ooo_len := l\<rparr>) = holds \<sigma> m' fs"
    "ooo_from (fs\<lparr>rx_ooo_start := s, rx_ooo_len := l\<rparr>) = unat (s - rx_next_seq fs)"
    "ooo_to (fs\<lparr>rx_ooo_start := s, rx_ooo_len := l\<rparr>) = unat (s - rx_next_seq fs) + unat l"
    "flow_rx_seq_write env m (fs\<lparr>rx_ooo_start := s, rx_ooo_len := l\<rparr>) seq (ucast n) src off =
     flow_rx_seq_write env m fs seq (ucast n) src off" for s l m'
    using inv by (simp_all add: rx_inv_def bufs_ok_def rx_base_def fun_eq_iff holds_def rx_slot_def ooo_from_def ooo_to_def
        flow_rx_seq_write_def flow_rx_write_def Let_def cong: if_cong)
  have u: "unat (ucast n :: u16) = unat n"
    using n by (simp add: unat_ucast_u32_u16)
  obtain m' where m': "flow_rx_seq_write env m fs seq (ucast n) src off = Inr m'"
    "ring_stored (rx_base fs) (unat (rx_len fs))
      ((unat (rx_next_pos fs) + ?a) mod unat (rx_len fs)) (unat n) src off m m'"
    using flow_rx_seq_write_stores [OF inv(1,2), of seq "ucast n" m src off] b n u by auto
  have src': "\<forall>i<unat n. src (off + i) = \<sigma> (rx_next_seq fs + of_nat (?a + i))"
    using src by simp
  note sto = store_holds [OF inv(1,2) m'(2) b src']
  note finish = that
  have go: thesis if "ooo = unat (s - rx_next_seq fs)" "packet_ooo env m fs seq n src off =
      bind_res (flow_rx_seq_write env m (fs\<lparr>rx_ooo_start := s, rx_ooo_len := l\<rparr>) seq (ucast n) src off)
        (\<lambda>m. Inr (fs\<lparr>rx_ooo_start := s, rx_ooo_len := l\<rparr>, m))"
    "ooo + unat l \<le> unat (rx_avail fs)" "holds \<sigma> m' fs ooo (ooo + unat l)" for s l ooo
    by (rule finish [of "fs\<lparr>rx_ooo_start := s, rx_ooo_len := l\<rparr>" m'])
      (use that sto(1) keep m'(1) inv(3) in \<open>simp_all add: rx_ok_def\<close>)
  show thesis
  proof (cases "rx_ooo_len fs = 0")
    case True
    then show thesis
      using b sto(2) by (intro go [of ?a seq n]) (simp_all add: packet_ooo_def Let_def)
  next
    case some: False
    then have o: "ooo_to fs \<le> unat (rx_avail fs)" "holds \<sigma> m fs (ooo_from fs) (ooo_to fs)"
      using ok by (simp_all add: rx_ok_def)
    note old = sto(3) [OF o(2,1)]
    have sum: "unat (rx_ooo_len fs + n) = unat (rx_ooo_len fs) + unat n"
      using o(1) inv(3) n by (simp add: unat_u32_add ooo_to_def)
    consider "seq + n = rx_ooo_start fs" | "seq + n \<noteq> rx_ooo_start fs" "rx_ooo_start fs + rx_ooo_len fs = seq"
      | "seq + n \<noteq> rx_ooo_start fs" "rx_ooo_start fs + rx_ooo_len fs \<noteq> seq" by blast
    then show thesis
    proof cases
      case 1
      then have "ooo_from fs = ?a + unat n"
        using u32_between [of seq "rx_next_seq fs" n] b inv(3) by (simp add: ooo_from_def 1 [symmetric])
      then show thesis
        using some 1 sum o(1) holds_join [OF sto(2) old]
        by (intro go [of ?a seq "rx_ooo_len fs + n"]) (simp_all add: packet_ooo_def Let_def ooo_to_def ac_simps)
    next
      case 2
      have e: "?a = ooo_to fs"
        using u32_between [of "rx_ooo_start fs" "rx_next_seq fs" "rx_ooo_len fs"] o(1) inv(3) 2(2)
        by (simp add: ooo_to_def ooo_from_def)
      show thesis
        using some 2 sum o(1) b e holds_join [OF old sto(2)]
        by (intro go [of "ooo_from fs" "rx_ooo_start fs" "rx_ooo_len fs + n"])
          (simp_all add: packet_ooo_def Let_def ooo_to_def ooo_from_def add.assoc)
    next
      case 3
      with some show thesis
        by (intro that [of fs m]) (simp_all add: packet_ooo_def Let_def ok)
    qed
  qed
qed

section \<open>Moving the receive window\<close>

definition rx_moved :: "flextcp_pl_flowst \<Rightarrow> nat \<Rightarrow> flextcp_pl_flowst \<Rightarrow> bool" where
  "rx_moved fs k fs' \<longleftrightarrow> rx_base fs' = rx_base fs \<and> rx_len fs' = rx_len fs \<and>
     unat (rx_next_pos fs') = (unat (rx_next_pos fs) + k) mod unat (rx_len fs) \<and>
     rx_next_seq fs' = rx_next_seq fs + of_nat k \<and> unat (rx_avail fs') + k = unat (rx_avail fs)"

text \<open>The parts of the flow state that receiving payload leaves alone.\<close>

definition tx_part :: "flextcp_pl_flowst \<Rightarrow> u64 \<times> u32 \<times> u32 \<times> u32 \<times> u32 \<times> u32" where
  "tx_part fs = (tx_base fs, tx_len fs, tx_next_pos fs, tx_next_seq fs, tx_sent fs, tx_avail fs)"

definition id_part :: "flextcp_pl_flowst \<Rightarrow> u16 \<times> u64 \<times> u32" where
  "id_part fs = (db_id fs, opaque fs, tx_rate fs)"

lemma rx_moved_0: "rx_inv fs \<Longrightarrow> rx_moved fs 0 fs"
  using rx_inv_nat(1) by (simp add: rx_moved_def)

lemma rx_moved_trans: "rx_moved fs a f1 \<Longrightarrow> rx_moved f1 b f2 \<Longrightarrow> rx_moved fs (a + b) f2"
  by (auto simp: rx_moved_def mod_add_left_eq add.assoc)

lemma rx_moved_slot: "rx_moved fs n fs' \<Longrightarrow> rx_slot fs' k = rx_slot fs (n + k)"
  by (simp add: rx_moved_def rx_slot_def ring_addr_shift)

lemma rx_moved_holds: "rx_moved fs n fs' \<Longrightarrow> holds \<sigma> m fs' a b \<longleftrightarrow> holds \<sigma> m fs (n + a) (n + b)"
proof -
  assume mv: "rx_moved fs n fs'"
  have seq: "rx_next_seq fs' = rx_next_seq fs + of_nat n"
    using mv by (simp add: rx_moved_def)
  have "holds \<sigma> m fs' a b \<longleftrightarrow>
      (\<forall>k. a \<le> k \<and> k < b \<longrightarrow> m (rx_slot fs (n + k)) = \<sigma> (rx_next_seq fs + of_nat (n + k)))"
    unfolding holds_def rx_moved_slot [OF mv] seq by (simp add: add.assoc)
  also have "\<dots> \<longleftrightarrow> holds \<sigma> m fs (n + a) (n + b)"
    unfolding holds_def
  proof (intro iffI allI impI)
    fix j
    assume all: "\<forall>k. a \<le> k \<and> k < b \<longrightarrow> m (rx_slot fs (n + k)) = \<sigma> (rx_next_seq fs + of_nat (n + k))"
      and j: "n + a \<le> j \<and> j < n + b"
    then have "a \<le> j - n \<and> j - n < b" "n + (j - n) = j"
      by auto
    with all show "m (rx_slot fs j) = \<sigma> (rx_next_seq fs + of_nat j)"
      by metis
  qed auto
  finally show ?thesis .
qed

lemma rx_moved_inv:
  assumes "rx_inv fs" "rx_moved fs n fs'"
  shows "rx_inv fs'"
proof -
  note r = rx_inv_nat [OF assms(1)]
  have m: "rx_len fs' = rx_len fs" "unat (rx_next_pos fs') = (unat (rx_next_pos fs) + n) mod unat (rx_len fs)"
    "unat (rx_avail fs') \<le> unat (rx_avail fs)"
    using assms(2) by (simp_all add: rx_moved_def)
  show ?thesis
    unfolding rx_inv_def word_less_nat_alt m(1,2) using r m(3) by simp
qed

lemma rx_moved_bufs:
  "bufs_ok env fs \<Longrightarrow> rx_moved fs n fs' \<Longrightarrow> tx_part fs' = tx_part fs \<Longrightarrow> bufs_ok env fs'"
  by (simp add: bufs_ok_def rx_moved_def tx_part_def)

lemma rx_advance_moves:
  assumes inv: "rx_inv fs" and n: "unat n \<le> unat (rx_avail fs)"
  obtains fs' where "rx_advance fs n = Inr fs'" "rx_moved fs (unat n) fs'" "tx_part fs' = tx_part fs"
    "rx_base_sp fs' = rx_base_sp fs" "rx_ooo_start fs' = rx_ooo_start fs" "rx_ooo_len fs' = rx_ooo_len fs"
    "id_part fs' = id_part fs"
proof -
  note r = rx_inv_nat [OF inv]
  define pos where "pos = (let pos = rx_next_pos fs + n in if pos \<ge> rx_len fs then pos - rx_len fs else pos)"
  have "unat (rx_next_pos fs + n) = unat (rx_next_pos fs) + unat n"
    using r n by (simp add: unat_u32_add)
  then have pos: "unat pos = (unat (rx_next_pos fs) + unat n) mod unat (rx_len fs)"
    using r n by (simp add: pos_def Let_def word_le_nat_alt unat_u32_sub mod_once)
  then have lt: "pos < rx_len fs"
    using r by (simp add: word_less_nat_alt)
  then have run: "rx_advance fs n =
      Inr (fs\<lparr>rx_avail := rx_avail fs - n, rx_next_pos := pos, rx_next_seq := rx_next_seq fs + n\<rparr>)"
    by (simp add: rx_advance_def pos_def Let_def split: if_splits)
  show thesis
    by (rule that [OF run])
      (use pos n in \<open>simp_all add: rx_moved_def tx_part_def id_part_def rx_base_def unat_u32_sub\<close>)
qed

section \<open>Merging the out-of-order interval\<close>

text \<open>
  After the window has moved, the remembered interval lies ahead in the window, or begins
  before it; the part inside the window holds the stream.
\<close>

definition ooo_ahead :: "stream \<Rightarrow> mem \<Rightarrow> flextcp_pl_flowst \<Rightarrow> bool" where
  "ooo_ahead \<sigma> m fs \<longleftrightarrow> ooo_to fs \<le> unat (rx_avail fs) \<and> holds \<sigma> m fs (ooo_from fs) (ooo_to fs)"

definition ooo_behind :: "stream \<Rightarrow> mem \<Rightarrow> flextcp_pl_flowst \<Rightarrow> bool" where
  "ooo_behind \<sigma> m fs \<longleftrightarrow> (let p = unat (rx_next_seq fs - rx_ooo_start fs); l = unat (rx_ooo_len fs) in
     0 < p \<and> p < 65536 \<and> l < 65536 \<and> l - p \<le> unat (rx_avail fs) \<and> holds \<sigma> m fs 0 (l - p))"

lemma u32_sub_swap: "unat (a - (b::u32)) = (if a = b then 0 else 4294967296 - unat (b - a))"
  using unat_u32_bound [of a] unat_u32_bound [of b] by (auto simp: unat_u32_sub word_unat_eq_iff)

lemma ooo_no_gap:
  assumes av: "unat (rx_avail fs) < 65536" and "ooo_ahead \<sigma> m fs \<or> ooo_behind \<sigma> m fs" and l: "unat (rx_ooo_len fs) < 65536"
  shows "\<not> trim_wrap_gap fs (rx_ooo_start fs) (ucast (rx_ooo_len fs))"
proof
  assume gap: "trim_wrap_gap fs (rx_ooo_start fs) (ucast (rx_ooo_len fs))"
  have u: "unat (ucast (ucast (rx_ooo_len fs) :: u16) :: u32) = unat (rx_ooo_len fs)"
    using l by (simp add: unat_ucast_u16_u32 unat_ucast_u32_u16)
  have g: "unat (rx_ooo_start fs + ucast (ucast (rx_ooo_len fs) :: u16)) < unat (rx_ooo_start fs)"
    "unat (rx_next_seq fs) < unat (rx_ooo_start fs)"
    "unat (rx_ooo_start fs) \<le> unat (rx_next_seq fs + rx_avail fs)"
    using gap by (simp_all add: trim_wrap_gap_def word_less_nat_alt word_le_nat_alt)
  show False
    using assms(2)
  proof
    assume "ooo_ahead \<sigma> m fs"
    then have "unat (rx_ooo_start fs) - unat (rx_next_seq fs) + unat (rx_ooo_len fs) \<le> unat (rx_avail fs)"
      using g(2) by (simp add: ooo_ahead_def ooo_to_def ooo_from_def unat_u32_sub)
    then show False
      using g u32_add_cases [of "rx_ooo_start fs" "ucast (ucast (rx_ooo_len fs) :: u16)"]
        u32_add_cases [of "rx_next_seq fs" "rx_avail fs"] u av
        unat_u32_bound [of "rx_next_seq fs + rx_avail fs"] by auto
  next
    assume "ooo_behind \<sigma> m fs"
    then have "unat (rx_next_seq fs - rx_ooo_start fs) < 65536"
      by (simp add: ooo_behind_def Let_def)
    then have "unat (rx_next_seq fs) + 4294967296 - unat (rx_ooo_start fs) < 65536"
      using g(2) by (simp add: unat_u32_sub)
    then show False
      using g u32_add_cases [of "rx_next_seq fs" "rx_avail fs"] av
        unat_u32_bound [of "rx_ooo_start fs"] by auto
  qed
qed

lemma trim_of_window:
  assumes "unat (rx_avail fs) < 65536" "\<not> trim_wrap_gap fs seq n"
  shows "rx_window_trim (rx_next_seq fs) (rx_avail fs) seq n = None \<Longrightarrow> tcp_trim_rxbuf fs seq n = None"
    and "rx_window_trim (rx_next_seq fs) (rx_avail fs) seq n = Some (a, b) \<Longrightarrow>
      \<exists>ts te. tcp_trim_rxbuf fs seq n = Some (ts, te) \<and> unat ts = a \<and> unat te = b"
proof -
  have "unat (rx_avail fs) + 65536 \<le> 2 ^ 32"
    using assms(1) by simp
  note spec = trim_rxbuf_window [OF this assms(2)]
  show "rx_window_trim (rx_next_seq fs) (rx_avail fs) seq n = None \<Longrightarrow> tcp_trim_rxbuf fs seq n = None"
    using spec by simp
  show "rx_window_trim (rx_next_seq fs) (rx_avail fs) seq n = Some (a, b) \<Longrightarrow>
      \<exists>ts te. tcp_trim_rxbuf fs seq n = Some (ts, te) \<and> unat ts = a \<and> unat te = b"
    using spec by (auto simp: map_prod_def split: prod.splits)
qed

lemma unat_ucast_u16_small: "unat (x::u32) < 65536 \<Longrightarrow> unat (ucast x :: u16) = unat x"
  by (simp add: unat_ucast_u32_u16)

text \<open>What the trim of the interval is, and the state it leaves.\<close>

lemma ooo_trim:
  assumes av: "unat (rx_avail fs) < 65536" and o: "ooo_ahead \<sigma> m fs \<or> ooo_behind \<sigma> m fs"
    and l: "rx_ooo_len fs \<noteq> 0" "unat (rx_ooo_len fs) < 65536"
  shows "case tcp_trim_rxbuf fs (rx_ooo_start fs) (ucast (rx_ooo_len fs)) of
      None \<Rightarrow> True
    | Some (ts, te) \<Rightarrow>
        let f = fs\<lparr>rx_ooo_start := rx_ooo_start fs + ucast ts, rx_ooo_len := rx_ooo_len fs - (ucast ts + ucast te)\<rparr>
        in rx_ooo_len f \<noteq> 0 \<longrightarrow> ooo_to f \<le> unat (rx_avail fs) \<and> holds \<sigma> m fs (ooo_from f) (ooo_to f)"
proof -
  note gap = ooo_no_gap [OF av o l(2)]
  note u = unat_ucast_u16_small [OF l(2)]
  let ?l = "unat (rx_ooo_len fs)" and ?b = "unat (rx_next_seq fs - rx_ooo_start fs)"
    and ?a = "unat (rx_ooo_start fs - rx_next_seq fs)"
  show ?thesis
    using o
  proof
    assume ah: "ooo_ahead \<sigma> m fs"
    then have "rx_window_trim (rx_next_seq fs) (rx_avail fs) (rx_ooo_start fs) (ucast (rx_ooo_len fs)) = Some (0, 0)"
      using av l u32_sub_swap [of "rx_next_seq fs" "rx_ooo_start fs"]
      by (auto simp: rx_window_trim_def Let_def u ooo_ahead_def ooo_to_def ooo_from_def split: if_splits)
    then obtain ts te where "tcp_trim_rxbuf fs (rx_ooo_start fs) (ucast (rx_ooo_len fs)) = Some (ts, te)"
      "unat ts = 0" "unat te = 0"
      using trim_of_window(2) [OF av gap] by blast
    then show ?thesis
      using ah by (simp add: unat_eq_0 ooo_ahead_def)
  next
    assume be: "ooo_behind \<sigma> m fs"
    then have p: "0 < ?b" "?b < 65536" "?l - ?b \<le> unat (rx_avail fs)" "holds \<sigma> m fs 0 (?l - ?b)"
      by (simp_all add: ooo_behind_def Let_def)
    show ?thesis
    proof (cases "?b \<le> ?l")
      case False
      then have "rx_window_trim (rx_next_seq fs) (rx_avail fs) (rx_ooo_start fs) (ucast (rx_ooo_len fs)) = None"
        using av p u32_sub_swap [of "rx_ooo_start fs" "rx_next_seq fs"]
        by (auto simp: rx_window_trim_def Let_def u split: if_splits)
      then show ?thesis
        using trim_of_window(1) [OF av gap] by simp
    next
      case True
      then have "rx_window_trim (rx_next_seq fs) (rx_avail fs) (rx_ooo_start fs) (ucast (rx_ooo_len fs)) = Some (?b, 0)"
        using p by (simp add: rx_window_trim_def Let_def u)
      then obtain ts te where t: "tcp_trim_rxbuf fs (rx_ooo_start fs) (ucast (rx_ooo_len fs)) = Some (ts, te)"
        "unat ts = ?b" "unat te = 0"
        using trim_of_window(2) [OF av gap] by blast
      have w: "ucast ts = rx_next_seq fs - rx_ooo_start fs" "te = 0"
        using t(2,3) by (simp_all add: word_unat_eq_iff unat_ucast_u16_u32)
      then show ?thesis
        using p True t(1) by (simp add: ooo_to_def ooo_from_def unat_u32_sub)
    qed
  qed
qed

lemma packet_merge_moves:
  assumes inv: "rx_inv fs" and av: "unat (rx_avail fs) < 65536"
    and o: "rx_ooo_len fs \<noteq> 0 \<Longrightarrow> unat (rx_ooo_len fs) < 65536 \<and> (ooo_ahead \<sigma> m fs \<or> ooo_behind \<sigma> m fs)"
  obtains fs' k where "packet_merge_ooo fs b = Inr (fs', b + of_nat k)" "rx_moved fs k fs'" "holds \<sigma> m fs 0 k"
    "rx_ooo_len fs' \<noteq> 0 \<longrightarrow> ooo_ahead \<sigma> m fs'" "tx_part fs' = tx_part fs" "rx_base_sp fs' = rx_base_sp fs"
    "id_part fs' = id_part fs"
proof (cases "rx_ooo_len fs = 0")
  case True
  then show thesis
    using rx_moved_0 [OF inv] by (intro that [of fs 0]) (simp_all add: packet_merge_ooo_def holds_def)
next
  case some: False
  have triv: "rx_moved fs 0 (fs\<lparr>rx_ooo_start := s, rx_ooo_len := l\<rparr>)" for s l
    using rx_moved_0 [OF inv] by (simp add: rx_moved_def rx_base_def)
  show thesis
  proof (cases "tcp_trim_rxbuf fs (rx_ooo_start fs) (ucast (rx_ooo_len fs))")
    case None
    then show thesis
      using some triv [of 0 "rx_ooo_start fs"]
      by (intro that [of "fs\<lparr>rx_ooo_len := 0\<rparr>" 0])
        (simp_all add: packet_merge_ooo_def holds_def tx_part_def id_part_def)
  next
    case (Some tt)
    obtain ts te where tt: "tt = (ts, te)"
      by fastforce
    define f where "f = fs\<lparr>rx_ooo_start := rx_ooo_start fs + ucast ts,
      rx_ooo_len := rx_ooo_len fs - (ucast ts + ucast te)\<rparr>"
    have f: "rx_ooo_len f \<noteq> 0 \<longrightarrow> ooo_to f \<le> unat (rx_avail fs) \<and> holds \<sigma> m fs (ooo_from f) (ooo_to f)"
      using ooo_trim [OF av, of \<sigma> m] o some Some unfolding tt f_def Let_def by auto
    have keep: "rx_inv f" "rx_avail f = rx_avail fs" "tx_part f = tx_part fs" "id_part f = id_part fs"
      "rx_base_sp f = rx_base_sp fs" "holds \<sigma> m f = holds \<sigma> m fs" "rx_moved fs 0 f" "rx_next_seq f = rx_next_seq fs"
      using inv triv by (simp_all add: f_def rx_inv_def tx_part_def id_part_def holds_def rx_slot_def rx_base_def fun_eq_iff)
    have run: "packet_merge_ooo fs b = (if rx_ooo_len f > 0 \<and> rx_ooo_start f = rx_next_seq f
        then bind_res (rx_advance f (rx_ooo_len f)) (\<lambda>fs. Inr (fs\<lparr>rx_ooo_len := 0\<rparr>, b + rx_ooo_len f))
        else Inr (f, b))"
      using some Some unfolding packet_merge_ooo_def tt by (simp add: Let_def f_def)
    show thesis
    proof (cases "rx_ooo_len f > 0 \<and> rx_ooo_start f = rx_next_seq f")
      case True
      then have l: "unat (rx_ooo_len f) \<le> unat (rx_avail f)" "holds \<sigma> m fs 0 (unat (rx_ooo_len f))"
        using f by (simp_all add: ooo_to_def ooo_from_def keep word_gt_0)
      obtain f2 where f2: "rx_advance f (rx_ooo_len f) = Inr f2" "rx_moved f (unat (rx_ooo_len f)) f2"
        "tx_part f2 = tx_part f" "rx_base_sp f2 = rx_base_sp f" "id_part f2 = id_part f"
        by (rule rx_advance_moves [OF keep(1) l(1)])
      have "rx_moved fs (unat (rx_ooo_len f)) (f2\<lparr>rx_ooo_len := 0\<rparr>)"
        using rx_moved_trans [OF keep(7) f2(2)] by (simp add: rx_moved_def rx_base_def)
      then show thesis
        using True l(2) f2(3-5) keep(3-5) run
        by (intro that [of "f2\<lparr>rx_ooo_len := 0\<rparr>" "unat (rx_ooo_len f)"])
          (simp_all add: f2(1) tx_part_def id_part_def)
    next
      case False
      then have "packet_merge_ooo fs b = Inr (f, b)"
        unfolding run by (simp only: if_False)
      moreover have "rx_ooo_len f \<noteq> 0 \<longrightarrow> ooo_ahead \<sigma> m f"
        using f by (simp add: ooo_ahead_def keep)
      ultimately show thesis
        using keep by (intro that [of f 0]) (simp_all add: holds_def)
    qed
  qed
qed

lemma packet_payload_ok:
  assumes ok: "rx_ok env \<sigma> m fs" and n: "unat n \<le> unat (rx_avail fs)"
    and src: "\<forall>i<unat n. src (off + i) = \<sigma> (rx_next_seq fs + of_nat i)"
  obtains fs' m' k where "packet_payload env m fs n src off = Inr (fs', m', of_nat k)"
    "rx_ok env \<sigma> m' fs'" "rx_moved fs k fs'" "unat n \<le> k" "holds \<sigma> m' fs 0 k" "rx_frame fs m m'"
    "n = 0 \<Longrightarrow> k = 0"
    "tx_part fs' = tx_part fs" "rx_base_sp fs' = rx_base_sp fs" "id_part fs' = id_part fs"
proof (cases "n = 0")
  case True
  then show thesis
    using ok rx_moved_0 [of fs]
    by (intro that [of fs m 0]) (simp_all add: packet_payload_def holds_def rx_ok_def)
next
  case False
  have inv: "rx_inv fs" "bufs_ok env fs" "unat (rx_avail fs) < 65536"
    using ok by (simp_all add: rx_ok_def)
  note r = rx_inv_nat [OF inv(1)]
  have u: "unat (ucast n :: u16) = unat n"
    using n inv(3) by (simp add: unat_ucast_u32_u16)
  have "unat (rx_base fs) + unat (rx_len fs) \<le> unat (shm_len env)" "unat (ucast n :: u16) \<le> unat (rx_len fs)"
    "rx_next_pos fs < rx_len fs"
    using inv n r by (simp_all add: bufs_ok_def u rx_inv_def)
  from flow_rx_write_ring [OF this(1) r(2) this(3,2), of m src off] obtain m' where
    wr: "flow_rx_write env m fs (rx_next_pos fs) (ucast n) src off = Inr m'"
    and sto: "ring_stored (rx_base fs) (unat (rx_len fs)) ((unat (rx_next_pos fs) + 0) mod unat (rx_len fs)) (unat n) src off m m'"
    using r(1) u by auto
  have h: "rx_frame fs m m'" "holds \<sigma> m' fs 0 (unat n)"
    "\<And>c d. holds \<sigma> m fs c d \<Longrightarrow> d \<le> unat (rx_avail fs) \<Longrightarrow> holds \<sigma> m' fs c d"
    using store_holds [OF inv(1,2) sto, of \<sigma>] n src by auto
  obtain f1 where f1: "rx_advance fs n = Inr f1" "rx_moved fs (unat n) f1" "tx_part f1 = tx_part fs"
    "rx_base_sp f1 = rx_base_sp fs" "rx_ooo_start f1 = rx_ooo_start fs" "rx_ooo_len f1 = rx_ooo_len fs" "id_part f1 = id_part fs"
    by (rule rx_advance_moves [OF inv(1) n])
  have mv: "rx_next_seq f1 = rx_next_seq fs + n" "unat (rx_avail f1) + unat n = unat (rx_avail fs)"
    using f1(2) by (simp_all add: rx_moved_def)
  have o: "unat (rx_ooo_len f1) < 65536 \<and> (ooo_ahead \<sigma> m' f1 \<or> ooo_behind \<sigma> m' f1)" if "rx_ooo_len f1 \<noteq> 0"
  proof -
    have oo: "ooo_to fs \<le> unat (rx_avail fs)" "holds \<sigma> m' fs (ooo_from fs) (ooo_to fs)"
      using that ok h(3) by (simp_all add: rx_ok_def f1)
    show ?thesis
    proof (cases "unat n \<le> ooo_from fs")
      case True
      have e: "unat (rx_ooo_start f1 - rx_next_seq f1) = ooo_from fs - unat n"
        using True unat_u32_sub [of "rx_ooo_start fs - rx_next_seq fs" n]
        by (simp add: f1 mv ooo_from_def diff_diff_eq word_le_nat_alt)
      then have "ooo_ahead \<sigma> m' f1"
        using oo True mv(2) rx_moved_holds [OF f1(2)]
        by (simp add: ooo_ahead_def ooo_to_def ooo_from_def e f1)
      then show ?thesis
        using oo(1) inv(3) by (simp add: f1 ooo_to_def)
    next
      case False
      have e: "unat (rx_next_seq f1 - rx_ooo_start fs) = unat n - ooo_from fs"
        using False unat_u32_sub [of n "rx_ooo_start fs - rx_next_seq fs"]
        by (simp add: mv ooo_from_def algebra_simps word_le_nat_alt)
      have "holds \<sigma> m' f1 0 (unat (rx_ooo_len fs) - (unat n - ooo_from fs))"
        unfolding rx_moved_holds [OF f1(2)]
        using oo(2) False by (auto simp: holds_def ooo_to_def)
      then have "ooo_behind \<sigma> m' f1"
        using oo(1) False mv(2) inv(3) n by (auto simp: ooo_behind_def Let_def f1(5,6) e ooo_to_def)
      then show ?thesis
        using oo(1) inv(3) by (simp add: f1 ooo_to_def)
    qed
  qed
  have av1: "unat (rx_avail f1) < 65536"
    using mv(2) inv(3) by simp
  obtain f2 k where f2: "packet_merge_ooo f1 n = Inr (f2, n + of_nat k)" "rx_moved f1 k f2" "holds \<sigma> m' f1 0 k"
    "rx_ooo_len f2 \<noteq> 0 \<longrightarrow> ooo_ahead \<sigma> m' f2" "tx_part f2 = tx_part f1" "rx_base_sp f2 = rx_base_sp f1"
    "id_part f2 = id_part f1"
    by (rule packet_merge_moves [OF rx_moved_inv [OF inv(1) f1(2)] av1 o, of n])
  note mv2 = rx_moved_trans [OF f1(2) f2(2)]
  have run: "packet_payload env m fs n src off = Inr (f2, m', of_nat (unat n + k))"
    using False unfolding packet_payload_def wr bind_res_simps f1(1) f2(1) by (simp add: word_gt_0)
  have "rx_ok env \<sigma> m' f2"
    using rx_moved_inv [OF inv(1) mv2] rx_moved_bufs [OF inv(2) mv2] f2(4,5) f1(3) mv2 inv(3)
    by (auto simp: rx_ok_def ooo_ahead_def rx_moved_def)
  moreover have "holds \<sigma> m' fs 0 (unat n + k)"
    using holds_join [OF h(2)] f2(3) rx_moved_holds [OF f1(2)] by simp
  ultimately show thesis
    using run mv2 h(1) f1(3,4,7) f2(5-7) False by (intro that [of f2 m' "unat n + k"]) simp_all
qed

section \<open>Placing a segment\<close>

lemma packet_seq_ok:
  assumes ok: "rx_ok env \<sigma> m fs" and n: "unat n < 65536" "unat off < 65536"
    and gap: "\<not> trim_wrap_gap fs seq (ucast n)"
    and src: "\<forall>i<unat n. src (unat off + i) = \<sigma> (seq + of_nat i)"
  obtains fs' m' where "packet_seq env m fs seq n off src = Inr (fs', m', None)" "rx_ok env \<sigma> m' fs'"
      "rx_frame fs m m'" "fs' = fs\<lparr>rx_ooo_start := rx_ooo_start fs', rx_ooo_len := rx_ooo_len fs'\<rparr>"
      "unat n < unat (rx_next_seq fs - seq)"
  | n' off' where "packet_seq env m fs seq n off src = Inr (fs, m, Some (n', off'))"
      "unat n' = min (unat n - unat (rx_next_seq fs - seq)) (unat (rx_avail fs))"
      "\<forall>i<unat n'. src (unat off' + i) = \<sigma> (rx_next_seq fs + of_nat i)"
proof -
  have av: "unat (rx_avail fs) < 65536"
    using ok by (simp add: rx_ok_def)
  let ?b = "unat (rx_next_seq fs - seq)" and ?a = "unat (seq - rx_next_seq fs)" and ?v = "unat (rx_avail fs)"
  have u: "unat (ucast n :: u16) = unat n"
    using n by (simp add: unat_ucast_u32_u16)
  show thesis
  proof (cases "?b \<le> unat n")
    case True
    then have "rx_window_trim (rx_next_seq fs) (rx_avail fs) seq (ucast n) = Some (?b, unat n - ?b - ?v)"
      by (simp add: rx_window_trim_def Let_def u)
    then obtain ts te where t: "tcp_trim_rxbuf fs seq (ucast n) = Some (ts, te)" "unat ts = ?b" "unat te = unat n - ?b - ?v"
      using trim_of_window(2) [OF av gap] by blast
    have w: "ucast ts = rx_next_seq fs - seq"
      unfolding word_unat_eq_iff unat_ucast_u16_u32 t(2) ..
    define n' where "n' = n - (ucast ts + ucast te)"
    define B where "B = ?b"
    note B = t(2,3) [folded B_def] True [folded B_def]
    have "B + (unat n - B - ?v) < 4294967296"
      using B n by linarith
    then have sum: "unat (ucast ts + ucast te :: u32) = B + (unat n - B - ?v)"
      using B n by (simp add: unat_u32_add unat_ucast_u16_u32)
    have n': "unat n' = min (unat n - ?b) ?v"
      unfolding n'_def unat_u32_sub [of n "ucast ts + ucast te"] sum B_def [symmetric] using B(3) by (auto simp: min_def)
    have off': "unat (off + ucast ts) = unat off + ?b"
      unfolding B_def [symmetric] using n B by (simp add: unat_u32_add unat_ucast_u16_u32)
    have "src (unat (off + ucast ts) + i) = \<sigma> (rx_next_seq fs + of_nat i)" if "i < unat n'" for i
    proof -
      have "?b + i < unat n"
        using that unfolding n' by linarith
      with src have "src (unat off + (?b + i)) = \<sigma> (seq + of_nat (?b + i))"
        by blast
      then show ?thesis
        unfolding off' by (simp add: add.assoc)
    qed
    then show thesis
      using t(1) n' by (intro that(2) [of n' "off + ucast ts"]) (simp_all add: packet_seq_def Let_def w n'_def)
  next
    case out: False
    then have ne: "seq \<noteq> rx_next_seq fs"
      by auto
    show thesis
    proof (cases "?a \<le> ?v")
      case False
      then have "tcp_trim_rxbuf fs seq (ucast n) = None"
        using out by (intro trim_of_window(1) [OF av gap]) (simp add: rx_window_trim_def Let_def u)
      then show thesis
        using ok out by (intro that(1) [of fs m]) (simp_all add: packet_seq_def)
    next
      case True
      then have "rx_window_trim (rx_next_seq fs) (rx_avail fs) seq (ucast n) = Some (0, ?a + unat n - ?v)"
        using out by (simp add: rx_window_trim_def Let_def u)
      then obtain ts te where t: "tcp_trim_rxbuf fs seq (ucast n) = Some (ts, te)" "unat ts = 0" "unat te = ?a + unat n - ?v"
        using trim_of_window(2) [OF av gap] by blast
      define n' where "n' = n - ucast te"
      have n': "unat n' = min (unat n) (?v - ?a)"
        unfolding n'_def unat_u32_sub [of n "ucast te"] unat_ucast_u16_u32 t(3) using True by (auto simp: min_def)
      have run: "packet_seq env m fs seq n off src = (if n' = 0 then Inr (fs, m, None)
          else bind_res (packet_ooo env m fs seq n' src (unat off)) (\<lambda>(fs, m). Inr (fs, m, None)))"
        using t(1,2) ne by (simp add: packet_seq_def Let_def unat_eq_0 n'_def)
      show thesis
      proof (cases "n' = 0")
        case True
        then show thesis
          using ok run out by (intro that(1) [of fs m]) simp_all
      next
        case False
        have "0 < unat n'"
          using False by (simp add: unat_gt_0)
        then have b: "unat n' < 65536" "0 < unat n'" "?a + unat n' \<le> ?v" "\<And>i. i < unat n' \<Longrightarrow> src (unat off + i) = \<sigma> (seq + of_nat i)"
          using n' n True src by auto
        obtain fs' m' where "packet_ooo env m fs seq n' src (unat off) = Inr (fs', m')" "rx_ok env \<sigma> m' fs'"
          "rx_frame fs m m'" "fs' = fs\<lparr>rx_ooo_start := rx_ooo_start fs', rx_ooo_len := rx_ooo_len fs'\<rparr>"
          by (rule packet_ooo_ok [OF ok b])
        then show thesis
          using run False out by (intro that(1) [of fs' m']) simp_all
      qed
    qed
  qed
qed

lemma rx_ok_cong:
  assumes "rx_part fs' = rx_part fs" "tx_base fs' = tx_base fs" "tx_len fs' = tx_len fs"
  shows "rx_ok env \<sigma> m fs' = rx_ok env \<sigma> m fs" "rx_frame fs' = rx_frame fs" "holds \<sigma> m fs' = holds \<sigma> m fs"
    "rx_moved fs' = rx_moved fs"
  using assms by (simp_all add: fun_eq_iff rx_ok_def rx_part_def rx_inv_def bufs_ok_def rx_base_def ooo_to_def ooo_from_def
      holds_def rx_slot_def rx_frame_def rx_moved_def)

text \<open>The time stamp, the estimate and the peer window are no part of either side.\<close>

lemma packet_info_keeps:
  fixes fs p ts_opt ts
  defines "fs' \<equiv> packet_window (packet_rtt fs p ts_opt ts) p"
  shows "rx_part fs' = rx_part fs" "tx_part fs' = tx_part fs" "id_part fs' = id_part fs"
    "fs_flag fs' f = fs_flag fs f" "rx_base_sp fs' = rx_base_sp fs"
  by (simp_all add: fs'_def packet_window_def packet_rtt_def Let_def rx_part_def tx_part_def id_part_def fs_flag_def)

lemma packet_fin_cases:
  assumes "packet_fin fs p n = (fs', fin)"
  shows "\<not> fin \<and> fs' = fs \<or> fin \<and> rx_ooo_len fs = 0 \<and> rx_next_seq fs = f_beui32 (seqno (tcp p)) + n \<and>
    rx_base_sp fs AND FLEXNIC_PL_FLOWST_RXFIN = 0 \<and>
    fs' = fs\<lparr>rx_base_sp := rx_base_sp fs OR FLEXNIC_PL_FLOWST_RXFIN, rx_next_seq := rx_next_seq fs + 1\<rparr>"
  using assms by (auto simp: packet_fin_def split: if_splits)

lemma rx_base_fin: "rx_base (fs\<lparr>rx_base_sp := rx_base_sp fs OR FLEXNIC_PL_FLOWST_RXFIN, rx_next_seq := s\<rparr>) = rx_base fs"
proof -
  have "(rx_base_sp fs OR 32) AND NOT 63 = rx_base_sp fs AND NOT (63::u64)"
    by (simp add: bit.conj_disj_distrib2)
  then show ?thesis
    by (simp add: rx_base_def)
qed

lemma rx_ok_fin:
  assumes "rx_ok env \<sigma> m fs" "rx_ooo_len fs = 0"
  shows "rx_ok env \<sigma> m (fs\<lparr>rx_base_sp := rx_base_sp fs OR FLEXNIC_PL_FLOWST_RXFIN, rx_next_seq := rx_next_seq fs + 1\<rparr>)"
  using assms by (simp add: rx_ok_def rx_inv_def bufs_ok_def rx_base_fin)

section \<open>Receiving a segment\<close>

text \<open>The payload of \<open>n\<close> bytes at offset \<open>off\<close> of a packet is the part of the stream its sequence number says.\<close>

definition carries :: "stream \<Rightarrow> pkt_tcp \<Rightarrow> u32 \<Rightarrow> u32 \<Rightarrow> bool" where
  "carries \<sigma> p n off \<longleftrightarrow>
     (\<forall>i<unat n. rest p (unat off + i - sizeof_pkt_tcp) = \<sigma> (f_beui32 (seqno (tcp p)) + of_nat i))"

text \<open>
  What receiving does to the window: \<open>k\<close> bytes of the stream become readable at the start
  of the free part, and a FIN takes one more sequence number.
\<close>

definition rx_step ::
  "stream \<Rightarrow> flextcp_pl_flowst \<Rightarrow> mem \<Rightarrow> flextcp_pl_flowst \<Rightarrow> mem \<Rightarrow> nat \<Rightarrow> bool \<Rightarrow> bool"
where
  "rx_step \<sigma> fs m fs' m' k fin \<longleftrightarrow> holds \<sigma> m' fs 0 k \<and> rx_frame fs m m' \<and>
     rx_base fs' = rx_base fs \<and> rx_len fs' = rx_len fs \<and>
     unat (rx_next_pos fs') = (unat (rx_next_pos fs) + k) mod unat (rx_len fs) \<and>
     rx_next_seq fs' = rx_next_seq fs + of_nat k + (if fin then 1 else 0) \<and>
     unat (rx_avail fs') + k = unat (rx_avail fs)"

lemma rx_step_fin:
  assumes "rx_moved fs k f" "holds \<sigma> m' fs 0 k" "rx_frame fs m m'" "packet_fin f p n = (fs', fin)"
  shows "rx_step \<sigma> fs m fs' m' k fin"
  using packet_fin_cases [OF assms(4)] assms(1-3) rx_base_fin
  by (auto simp: rx_step_def rx_moved_def)

lemma packet_data_ok:
  fixes p :: pkt_tcp
  defines "seq \<equiv> f_beui32 (seqno (tcp p))"
  assumes ok: "rx_ok env \<sigma> m fs" and n: "unat n < 65536" "unat off < 65536"
    and gap: "\<not> trim_wrap_gap fs seq (ucast n)" and src: "carries \<sigma> p n off"
  obtains fs' m' k fin trig where "packet_data env m fs p ts_opt ts n off = Inr (fs', m', of_nat k, fin, trig)"
    "rx_ok env \<sigma> m' fs'" "rx_step \<sigma> fs m fs' m' k fin" "tx_part fs' = tx_part fs" "id_part fs' = id_part fs"
    "fs_flag fs' FLEXNIC_PL_FLOWST_RXFIN \<longleftrightarrow> fs_flag fs FLEXNIC_PL_FLOWST_RXFIN \<or> fin"
    "fs_flag fs FLEXNIC_PL_FLOWST_RXFIN \<Longrightarrow> k = 0 \<and> \<not> fin" "0 < unat n \<Longrightarrow> trig"
    "fin \<Longrightarrow> rx_next_seq fs' = seq + n + 1"
    "\<not> fs_flag fs FLEXNIC_PL_FLOWST_RXFIN \<Longrightarrow> unat (rx_next_seq fs - seq) \<le> unat n \<Longrightarrow>
       min (unat n - unat (rx_next_seq fs - seq)) (unat (rx_avail fs)) \<le> k"
proof -
  have inv: "rx_inv fs"
    using ok by (simp add: rx_ok_def)
  define src' where "src' = (\<lambda>i. rest p (i - sizeof_pkt_tcp))"
  have s: "\<forall>i<unat n. src' (unat off + i) = \<sigma> (seq + of_nat i)"
    using src by (simp add: carries_def src'_def seq_def)
  note run = packet_data_def [of env m fs p ts_opt ts n off, unfolded Let_def, folded src'_def seq_def]
  show thesis
  proof (rule packet_seq_ok [OF ok n gap s])
    fix fs1 m1
    assume q: "packet_seq env m fs seq n off src' = Inr (fs1, m1, None)" "rx_ok env \<sigma> m1 fs1" "rx_frame fs m m1"
      and fs1: "fs1 = fs\<lparr>rx_ooo_start := rx_ooo_start fs1, rx_ooo_len := rx_ooo_len fs1\<rparr>"
      and late: "unat n < unat (rx_next_seq fs - seq)"
    have e: "rx_base fs1 = rx_base fs" "rx_len fs1 = rx_len fs" "rx_next_pos fs1 = rx_next_pos fs"
      "rx_next_seq fs1 = rx_next_seq fs" "rx_avail fs1 = rx_avail fs" "tx_part fs1 = tx_part fs"
      "id_part fs1 = id_part fs" "fs_flag fs1 = fs_flag fs"
      by (subst fs1, simp add: rx_base_def tx_part_def id_part_def fs_flag_def fun_eq_iff)+
    have "rx_step \<sigma> fs m fs1 m1 0 False"
      using q(3) e rx_inv_nat [OF inv] by (simp add: rx_step_def holds_def)
    then show thesis
      using q e late by (intro that [of fs1 m1 0 False True]) (simp_all add: run)
  next
    fix n' off'
    assume q: "packet_seq env m fs seq n off src' = Inr (fs, m, Some (n', off'))"
      and n': "unat n' = min (unat n - unat (rx_next_seq fs - seq)) (unat (rx_avail fs))"
      and s': "\<forall>i<unat n'. src' (unat off' + i) = \<sigma> (rx_next_seq fs + of_nat i)"
    define f where "f = packet_window (packet_rtt fs p ts_opt ts) p"
    have kf: "rx_part f = rx_part fs" "tx_part f = tx_part fs" "id_part f = id_part fs" "fs_flag f = fs_flag fs"
      "rx_base_sp f = rx_base_sp fs"
      unfolding f_def using packet_info_keeps [of fs p ts_opt ts] by (auto simp: fun_eq_iff)
    have kt: "tx_base f = tx_base fs" "tx_len f = tx_len fs" "rx_avail f = rx_avail fs" "rx_next_seq f = rx_next_seq fs"
      using kf(1,2) by (simp_all add: tx_part_def rx_part_def)
    note cg = rx_ok_cong [OF kf(1) kt(1,2)]
    show thesis
    proof (cases "fs_flag fs FLEXNIC_PL_FLOWST_RXFIN \<and> n' > 0")
      case True
      have "rx_step \<sigma> fs m f m 0 False"
        using rx_moved_0 [of f] ok unfolding rx_ok_def
        by (simp add: rx_step_def holds_def)
          (use kf(1) in \<open>simp add: rx_part_def rx_base_def rx_inv_def word_less_nat_alt\<close>)
      then show thesis
        using True ok kf q by (intro that [of f m 0 False "n > 0"]) (simp_all add: run f_def [symmetric] cg word_gt_0 unat_gt_0)
    next
      case False
      have nb: "unat n' \<le> unat (rx_avail f)"
        using n' kt by simp
      obtain f2 m2 k where f2: "packet_payload env m f n' src' (unat off') = Inr (f2, m2, of_nat k)"
        "rx_ok env \<sigma> m2 f2" "rx_moved f k f2" "unat n' \<le> k" "holds \<sigma> m2 f 0 k" "rx_frame f m m2" "n' = 0 \<Longrightarrow> k = 0"
        "tx_part f2 = tx_part f" "rx_base_sp f2 = rx_base_sp f" "id_part f2 = id_part f"
        by (rule packet_payload_ok [of env \<sigma> m f n' src' "unat off'"]) (use ok cg nb s' kt in auto)
      obtain fs' fin where fin: "packet_fin f2 p n = (fs', fin)"
        by fastforce
      note pf = packet_fin_cases [OF fin]
      have nofin: "\<not> fin" if "fs_flag fs FLEXNIC_PL_FLOWST_RXFIN"
        using pf that f2(9) kf(5) by (auto simp: fs_flag_def)
      have next_seq: "rx_next_seq fs' = seq + n + 1" if fin
        using pf that by (auto simp: seq_def)
      have "packet_data env m fs p ts_opt ts n off = Inr (fs', m2, of_nat k, fin, n > 0 \<or> n' > 0 \<or> fin)"
        unfolding run q bind_res_simps using False by (auto simp: f_def [symmetric] kf f2(1) fin)
      moreover have "rx_ok env \<sigma> m2 fs'"
        using pf f2(2) rx_ok_fin [OF f2(2)] by auto
      moreover have "rx_step \<sigma> fs m fs' m2 k fin"
        using f2(3,5,6) fin unfolding cg by (rule rx_step_fin)
      moreover have "tx_part fs' = tx_part fs" "id_part fs' = id_part fs"
        using pf f2(8,10) kf by (auto simp: tx_part_def id_part_def)
      moreover have "fs_flag fs' FLEXNIC_PL_FLOWST_RXFIN \<longleftrightarrow> fs_flag fs FLEXNIC_PL_FLOWST_RXFIN \<or> fin"
        using pf f2(9) kf(5) by (auto simp: fs_flag_def)
      ultimately show thesis
        using f2(4,7) n' nofin next_seq False
        by (intro that [of fs' m2 k fin "n > 0 \<or> n' > 0 \<or> fin"]) (auto simp: word_gt_0 unat_gt_0)
    qed
  qed
qed

end
