(* ===== verification/Flow_Recv.thy ===== *)
theory Flow_Recv
  imports Flow_Rx
begin

text \<open>
  The whole receive handler \<^verbatim>\<open>fast_flows_packet\<close>: what it does with a well-formed packet, the
  byte stream an application reads over the life of a connection (a state machine with its
  invariant by rule induction), and what a malformed length does.
\<close>

unbundle bit_operations_syntax

section \<open>The whole handler\<close>

lemma flow_tx_ack_sends:
  assumes room: "length (tx_handles st) < TXBUF_SIZE"
  obtains nb where "flow_tx_ack env st seq ack rxwnd echots myts nbh ts_opt = Inr (st\<lparr>tx_handles := tx_handles st @ [nb]\<rparr>)"
    "f_beui32 (seqno (tcp (nb_pkt nb))) = seq" "f_beui32 (ackno (tcp (nb_pkt nb))) = ack"
    "f_beui16 (wnd (tcp (nb_pkt nb))) = f_beui16 (wnd_field rxwnd)"
proof -
  define p0 where "p0 = tx_ack_headers (nb_pkt nbh) seq ack rxwnd echots myts ts_opt"
  define hl where "hl = 54 + (TCPH_HDRLEN (tcp (nb_pkt nbh)) - 5) * 4"
  obtain p1 nbh1 where ck: "tcp_checksums env nbh p0 (ip_src (ip p0)) (ip_dest (ip p0)) (hl - 34) = (p1, nbh1)"
    by fastforce
  have h: "seqno (tcp p0) = t_beui32 seq" "ackno (tcp p0) = t_beui32 ack" "wnd (tcp p0) = wnd_field rxwnd"
    by (simp_all add: p0_def tx_ack_headers_def Let_def TCPH_HDRLEN_FLAGS_SET_def)
  define nb where "nb = nbh1\<lparr>nb_pkt := p1, nb_off := nb_off nbh1, nb_len := hl\<rparr>"
  have "flow_tx_ack env st seq ack rxwnd echots myts nbh ts_opt = Inr (st\<lparr>tx_handles := tx_handles st @ [nb]\<rparr>)"
    using room unfolding flow_tx_ack_def Let_def p0_def [symmetric] hl_def [symmetric] ck
    by (simp add: tx_send_def nb_def)
  then show thesis
    by (rule that) (use tcp_checksums_keeps [OF ck] h in \<open>simp_all add: nb_def\<close>)
qed

text \<open>The notification for the application.\<close>

definition notice :: "flextcp_pl_flowst \<Rightarrow> u32 \<Rightarrow> u32 \<Rightarrow> u32 \<Rightarrow> bool \<Rightarrow> (u16 \<times> flextcp_pl_arx) list" where
  "notice fs rx_pos rx_bump tx_bump fin =
    (if rx_bump = 0 \<and> tx_bump = 0 \<and> \<not> fin then []
     else [(db_id fs, \<lparr>arx_type = 1, arx_opaque = opaque fs, arx_rx_bump = rx_bump, arx_rx_pos = rx_pos,
        arx_tx_bump = tx_bump, arx_flags = if fin then 1 else 0\<rparr>)])"

lemma packet_unlock_ok:
  assumes room: "length (arx_cache st) < BATCH_SIZE" "length (tx_handles st) < TXBUF_SIZE"
    and q: "qman_reach qman_horizon (qman st)" "fid < 65536" "rate_ok (tx_rate (flowst st fid))"
  obtains st' where "packet_unlock env st fid nbh ts_opt ts old rx_pos rx_bump tx_bump fin trig =
      Some (Inr (if trig then 1 else 0, st'))"
    "flowst st' = flowst st" "fp_shm st' = fp_shm st" "qman_reach qman_horizon (qman st')"
    "arx_cache st' = arx_cache st @ notice (flowst st fid) rx_pos rx_bump tx_bump fin"
    "trig \<Longrightarrow> \<exists>nb. tx_handles st' = tx_handles st @ [nb] \<and>
       f_beui32 (ackno (tcp (nb_pkt nb))) = rx_next_seq (flowst st fid)"
    "\<not> trig \<Longrightarrow> tx_handles st' = tx_handles st"
proof -
  let ?fs = "flowst st fid" and ?new = "tcp_txavail (flowst st fid) None"
  have fid: "ucast (ucast fid :: u16) = fid"
    using q(2) by (simp add: word_unat_eq_iff unat_ucast_u16_u32 unat_ucast_u32_u16 word_less_nat_alt)
  define s1 where "s1 = st\<lparr>arx_cache := arx_cache st @ notice ?fs rx_pos rx_bump tx_bump fin\<rparr>"
  have r1: "(if rx_bump \<noteq> 0 \<or> tx_bump \<noteq> 0 \<or> fin
      then arx_cache_add st (db_id ?fs) (opaque ?fs) rx_bump rx_pos tx_bump
        (FLEXTCP_PL_ARX_CONNUPDATE OR (if fin then push_bit 8 FLEXTCP_PL_ARX_FLRXDONE else 0))
      else Inr st) = Inr s1"
    using room(1) by (auto simp: arx_cache_add_def s1_def notice_def)
  have s1: "flowst s1 = flowst st" "fp_shm s1 = fp_shm st" "qman s1 = qman st" "tx_handles s1 = tx_handles st"
    by (simp_all add: s1_def)
  obtain q' where r2: "(if ?new > old then qman_set_or_abort s1 fid (tx_rate ?fs) (?new - old) 1448 QMAN_ADD_ALL
      else Some (Inr s1)) = Some (Inr (s1\<lparr>qman := q'\<rparr>))" "qman_reach qman_horizon q'"
  proof (cases "?new > old")
    case True
    have "fid < FLEXNIC_NUM_QMQUEUES"
      using q(2) by (simp add: word_less_nat_alt)
    then obtain q' where "qman_set_or_abort s1 fid (tx_rate ?fs) (?new - old) 1448 QMAN_ADD_ALL =
        Some (Inr (s1\<lparr>qman := q'\<rparr>))" "qman_reach qman_horizon q'"
      using qman_add_flow [of s1 fid "tx_rate ?fs" "?new - old"] q s1 by metis
    with True show thesis
      by (intro that [of q']) simp_all
  qed (use q(1) s1 in \<open>auto intro!: that [of "qman s1"]\<close>)
  note run = packet_unlock_def [of env st fid nbh ts_opt ts old rx_pos rx_bump tx_bump fin trig,
      unfolded Let_def fid r1, simplified, unfolded r2(1), simplified]
  show thesis
  proof (cases trig)
    case True
    obtain nb where nb: "flow_tx_ack env (s1\<lparr>qman := q'\<rparr>) (tx_next_seq ?fs) (rx_next_seq ?fs) (rx_avail ?fs)
        (tx_next_ts ?fs) ts nbh ts_opt = Inr ((s1\<lparr>qman := q'\<rparr>)\<lparr>tx_handles := tx_handles (s1\<lparr>qman := q'\<rparr>) @ [nb]\<rparr>)"
      "f_beui32 (ackno (tcp (nb_pkt nb))) = rx_next_seq ?fs"
      by (rule flow_tx_ack_sends [of "s1\<lparr>qman := q'\<rparr>" env "tx_next_seq ?fs" "rx_next_seq ?fs" "rx_avail ?fs"
          "tx_next_ts ?fs" ts nbh ts_opt]) (use room(2) s1 in auto)
    then show thesis
      using True r2 run s1
      by (intro that [of "s1\<lparr>qman := q', tx_handles := tx_handles st @ [nb]\<rparr>"]) (auto simp: s1_def)
  next
    case False
    then show thesis
      using r2 run s1 by (intro that [of "s1\<lparr>qman := q'\<rparr>"]) (auto simp: s1_def)
  qed
qed

text \<open>Where the payload of a packet starts, how long it is, and packets whose IP length covers their headers.\<close>

definition pkt_payload_off :: "pkt_tcp \<Rightarrow> u32" where
  "pkt_payload_off p = 54 + ucast ((TCPH_HDRLEN (tcp p) - 5) * 4)"

definition pkt_payload_len :: "pkt_tcp \<Rightarrow> u32" where
  "pkt_payload_len p = ucast (f_beui16 (ip_len (ip p))) - (40 + ucast ((TCPH_HDRLEN (tcp p) - 5) * 4))"

definition pkt_len_ok :: "pkt_tcp \<Rightarrow> bool" where
  "pkt_len_ok p \<longleftrightarrow> 5 \<le> unat (TCPH_HDRLEN (tcp p)) \<and>
     40 + (unat (TCPH_HDRLEN (tcp p)) - 5) * 4 \<le> unat (f_beui16 (ip_len (ip p)))"

definition fast_flags :: "pkt_tcp \<Rightarrow> bool" where
  "fast_flags p \<longleftrightarrow> TCPH_FLAGS (tcp p) AND NOT (TCP_ACK OR TCP_PSH OR TCP_ECE OR TCP_CWR OR TCP_FIN) = 0"

lemma TCPH_HDRLEN_bound: "unat (TCPH_HDRLEN h) < 16"
  using unat_u16_bound [of "bswap16 (hdrlen_rsvd_flags h)"]
  by (simp add: TCPH_HDRLEN_def drop_bit_eq_div unat_div)

lemma pkt_hdr_len:
  assumes "5 \<le> unat (TCPH_HDRLEN (tcp p))"
  shows "unat (40 + ucast ((TCPH_HDRLEN (tcp p) - 5) * 4) :: u32) = 40 + (unat (TCPH_HDRLEN (tcp p)) - 5) * 4"
    "unat (pkt_payload_off p) = 54 + (unat (TCPH_HDRLEN (tcp p)) - 5) * 4"
proof -
  let ?h = "unat (TCPH_HDRLEN (tcp p))"
  have h: "5 \<le> ?h" "?h < 16"
    using assms TCPH_HDRLEN_bound by simp_all
  define x :: u16 where "x = (TCPH_HDRLEN (tcp p) - 5) * 4"
  define y where "y = TCPH_HDRLEN (tcp p) - 5"
  have "unat y = ?h - 5"
    using h(1) by (simp add: y_def unat_sub_if')
  then have x: "unat x = (?h - 5) * 4"
    using h unfolding x_def y_def [symmetric] by (simp add: unat_word_ariths)
  show "unat (40 + ucast ((TCPH_HDRLEN (tcp p) - 5) * 4) :: u32) = 40 + (?h - 5) * 4"
    "unat (pkt_payload_off p) = 54 + (?h - 5) * 4"
    unfolding pkt_payload_off_def x_def [symmetric]
    using h by (simp_all add: unat_u32_add unat_ucast_u16_u32 x)
qed

lemma pkt_lengths:
  assumes "pkt_len_ok p"
  shows "unat (pkt_payload_off p) < 65536" "unat (pkt_payload_len p) < 65536"
    "unat (pkt_payload_len p) = unat (f_beui16 (ip_len (ip p))) - (40 + (unat (TCPH_HDRLEN (tcp p)) - 5) * 4)"
proof -
  let ?h = "unat (TCPH_HDRLEN (tcp p))"
  have h: "5 \<le> ?h" "?h < 16" "40 + (?h - 5) * 4 \<le> unat (f_beui16 (ip_len (ip p)))"
    using assms TCPH_HDRLEN_bound by (simp_all add: pkt_len_ok_def)
  show "unat (pkt_payload_off p) < 65536"
    using h by (simp add: pkt_hdr_len(2))
  show len: "unat (pkt_payload_len p) = unat (f_beui16 (ip_len (ip p))) - (40 + (?h - 5) * 4)"
    unfolding pkt_payload_len_def unat_u32_sub [of "ucast (f_beui16 (ip_len (ip p)))"] pkt_hdr_len(1) [OF h(1)]
      unat_ucast_u16_u32 using h(3) by simp
  show "unat (pkt_payload_len p) < 65536"
    using unat_u16_bound [of "f_beui16 (ip_len (ip p))"] unfolding len by linarith
qed

text \<open>A length field that does not cover the headers wraps the payload length around.\<close>

lemma pkt_short_len:
  assumes "5 \<le> unat (TCPH_HDRLEN (tcp p))"
    and "unat (f_beui16 (ip_len (ip p))) < 40 + (unat (TCPH_HDRLEN (tcp p)) - 5) * 4"
  shows "unat (pkt_payload_len p) = unat (f_beui16 (ip_len (ip p))) + 4294967296 -
    (40 + (unat (TCPH_HDRLEN (tcp p)) - 5) * 4)"
  unfolding pkt_payload_len_def unat_u32_sub [of "ucast (f_beui16 (ip_len (ip p)))"] pkt_hdr_len(1) [OF assms(1)]
    unat_ucast_u16_u32 using assms(2) by simp

lemma packet_ack_rate:
  assumes "packet_ack fs flags ack pl = (fs', bump, rex)"
  shows "tx_rate fs' = tx_rate fs \<or> tx_rate fs' = tx_rate fs div 2" "db_id fs' = db_id fs" "opaque fs' = opaque fs"
  using assms by (auto simp: packet_ack_def flow_reset_retransmit_def Let_def split: if_splits option.splits)

lemma packet_ack_rex: "packet_ack fs flags ack pl = (f, bump, rex) \<Longrightarrow> pl \<noteq> 0 \<Longrightarrow> \<not> rex"
  by (auto simp: packet_ack_unfold Let_def split: if_splits option.splits)

lemma rx_step_cong:
  assumes "rx_part f = rx_part fs" "tx_base f = tx_base fs" "tx_len f = tx_len fs"
  shows "rx_step \<sigma> f m fs' m' k fin = rx_step \<sigma> fs m fs' m' k fin"
  using assms rx_ok_cong [OF assms] by (simp add: rx_step_def rx_part_def rx_base_def)

text \<open>What the handler does to a flow, a memory and the notifications.\<close>

lemma fast_flows_packet_ok:
  fixes st :: fastpath and fid :: u32 and nbh :: nbuf
  defines "fs \<equiv> flowst st fid" and "p \<equiv> nb_pkt nbh"
  defines "n \<equiv> pkt_payload_len p" and "seq \<equiv> f_beui32 (seqno (tcp p))"
  assumes inv: "tx_inv fs" "rx_ok env \<sigma> (fp_shm st) fs" "\<not> fs_flag fs FLEXNIC_PL_FLOWST_SLOWPATH"
    and pkt: "pkt_len_ok p" "fast_flags p" "carries \<sigma> p n (pkt_payload_off p)" "\<not> trim_wrap_gap fs seq (ucast n)"
    and room: "length (arx_cache st) < BATCH_SIZE" "length (tx_handles st) < TXBUF_SIZE"
    and q: "qman_reach qman_horizon (qman st)" "fid < 65536" "rate_ok (tx_rate fs)" "rate_ok (tx_rate fs div 2)"
  obtains r st' fs' k fin bump rex f where
    "fast_flows_packet env st nbh fid ts_opt ts = Some (Inr (r, st'))" "flowst st' = (flowst st)(fid := fs')"
    "packet_ack fs (TCPH_FLAGS (tcp p)) (f_beui32 (ackno (tcp p))) n = (f, bump, rex)"
    "tx_part fs' = tx_part f" "rx_ok env \<sigma> (fp_shm st') fs'"
    "rx_step \<sigma> fs (fp_shm st) fs' (fp_shm st') k fin"
    "rex \<Longrightarrow> k = 0 \<and> \<not> fin"
    "\<not> rex \<Longrightarrow> \<not> fs_flag fs FLEXNIC_PL_FLOWST_RXFIN \<Longrightarrow> unat (rx_next_seq fs - seq) \<le> unat n \<Longrightarrow>
       min (unat n - unat (rx_next_seq fs - seq)) (unat (rx_avail fs)) \<le> k"
    "qman_reach qman_horizon (qman st')"
    "arx_cache st' = arx_cache st @ notice fs (rx_next_pos fs) (of_nat k) bump fin"
    "0 < unat n \<Longrightarrow> r = 1"
    "r = 1 \<Longrightarrow> \<exists>nb. tx_handles st' = tx_handles st @ [nb] \<and> f_beui32 (ackno (tcp (nb_pkt nb))) = rx_next_seq fs'"
    "r \<noteq> 1 \<Longrightarrow> tx_handles st' = tx_handles st"
proof -
  obtain f bump rex where ack: "packet_ack fs (TCPH_FLAGS (tcp p)) (f_beui32 (ackno (tcp p))) n = (f, bump, rex)"
    by (metis prod_cases3)
  note rx = packet_ack_rx [OF ack] and len = packet_ack_window(2) [OF inv(1) ack] and rt = packet_ack_rate [OF ack]
  note cg = rx_ok_cong [OF rx len] rx_step_cong [OF rx len]
  have f: "rx_avail f = rx_avail fs" "rx_next_seq f = rx_next_seq fs" "rx_base_sp f = rx_base_sp fs"
    "rate_ok (tx_rate f)" "fs_flag f = fs_flag fs" "trim_wrap_gap f = trim_wrap_gap fs"
    "notice f = notice fs"
    using rx rt q by (auto simp: rx_part_def fs_flag_def fun_eq_iff trim_wrap_gap_def notice_def)
  have slow: "rx_base_sp fs AND FLEXNIC_PL_FLOWST_SLOWPATH = 0"
    using inv(3) by (simp add: fs_flag_def and_one_eq odd_iff_mod_2_eq_one)
  note run = fast_flows_packet_def [of env st nbh fid ts_opt ts, unfolded Let_def, folded fs_def p_def,
      folded pkt_payload_off_def pkt_payload_len_def, folded n_def, unfolded ack prod.case]
  note flags = pkt(2) [unfolded fast_flags_def]
  show thesis
  proof (cases rex)
    case True
    let ?s = "upd_flow st fid f"
    obtain st' where st': "packet_unlock env ?s fid nbh ts_opt ts (tcp_txavail fs None) (rx_next_pos fs) 0 bump False (n > 0) =
        Some (Inr (if n > 0 then 1 else 0, st'))"
      "flowst st' = flowst ?s" "fp_shm st' = fp_shm ?s" "qman_reach qman_horizon (qman st')"
      "arx_cache st' = arx_cache ?s @ notice (flowst ?s fid) (rx_next_pos fs) 0 bump False"
      "n > 0 \<Longrightarrow> \<exists>nb. tx_handles st' = tx_handles ?s @ [nb] \<and> f_beui32 (ackno (tcp (nb_pkt nb))) = rx_next_seq (flowst ?s fid)"
      "\<not> n > 0 \<Longrightarrow> tx_handles st' = tx_handles ?s"
      by (rule packet_unlock_ok [of ?s fid env nbh ts_opt ts "tcp_txavail fs None" "rx_next_pos fs" 0 bump False "n > 0"])
        (use room q f in auto)
    have finv: "rx_inv f"
      using inv(2) unfolding cg(1) [symmetric] by (simp add: rx_ok_def)
    have "rx_step \<sigma> f (fp_shm st) f (fp_shm st) 0 False"
      using rx_moved_0 [of f] finv by (simp add: rx_step_def holds_def rx_moved_def)
    then show thesis
      using True ack st' inv(2) slow flags cg f
      by (intro that [of "if n > 0 then 1 else 0" st' f f bump rex 0 False])
        (auto simp: run unat_gt_0 word_gt_0 split: if_splits)
  next
    case False
    obtain fs' m' k fin trig where d: "packet_data env (fp_shm st) f p ts_opt ts n (pkt_payload_off p) =
        Inr (fs', m', of_nat k, fin, trig)"
      "rx_ok env \<sigma> m' fs'" "rx_step \<sigma> f (fp_shm st) fs' m' k fin" "tx_part fs' = tx_part f" "id_part fs' = id_part f"
      "0 < unat n \<Longrightarrow> trig"
      "\<not> fs_flag f FLEXNIC_PL_FLOWST_RXFIN \<Longrightarrow> unat (rx_next_seq f - f_beui32 (seqno (tcp p))) \<le> unat n \<Longrightarrow>
         min (unat n - unat (rx_next_seq f - f_beui32 (seqno (tcp p)))) (unat (rx_avail f)) \<le> k"
      by (rule packet_data_ok [of env \<sigma> "fp_shm st" f n "pkt_payload_off p" p ts_opt ts])
        (use inv cg f pkt pkt_lengths [OF pkt(1)] in \<open>auto simp: n_def seq_def\<close>)
    let ?s = "(upd_flow st fid fs')\<lparr>fp_shm := m'\<rparr>"
    have id: "notice fs' = notice fs" "rate_ok (tx_rate fs')"
      using d(5) f rt by (auto simp: id_part_def notice_def fun_eq_iff)
    obtain st' where st': "packet_unlock env ?s fid nbh ts_opt ts (tcp_txavail fs None) (rx_next_pos fs) (of_nat k) bump fin trig =
        Some (Inr (if trig then 1 else 0, st'))"
      "flowst st' = flowst ?s" "fp_shm st' = fp_shm ?s" "qman_reach qman_horizon (qman st')"
      "arx_cache st' = arx_cache ?s @ notice (flowst ?s fid) (rx_next_pos fs) (of_nat k) bump fin"
      "trig \<Longrightarrow> \<exists>nb. tx_handles st' = tx_handles ?s @ [nb] \<and> f_beui32 (ackno (tcp (nb_pkt nb))) = rx_next_seq (flowst ?s fid)"
      "\<not> trig \<Longrightarrow> tx_handles st' = tx_handles ?s"
      by (rule packet_unlock_ok [of ?s fid env nbh ts_opt ts "tcp_txavail fs None" "rx_next_pos fs" "of_nat k" bump fin trig])
        (use room q id in auto)
    have "fast_flows_packet env st nbh fid ts_opt ts = Some (Inr (if trig then 1 else 0, st'))"
      unfolding run using False slow flags by (simp add: d(1) st'(1))
    then show thesis
      using ack st'(2-) d(2-4,6,7) False id f cg
      by (intro that [of "if trig then 1 else 0" st' fs' f bump rex k fin]) (auto simp: seq_def split: if_splits)
  qed
qed

section \<open>The byte stream\<close>

text \<open>
  The peer's stream \<open>S\<close> is indexed from its first byte, which has sequence number \<open>s\<close>.  When
  \<open>T\<close> bytes have been delivered, a sequence number stands for the index nearest to \<open>T\<close>.
\<close>

definition unwrap :: "(nat \<Rightarrow> u8) \<Rightarrow> u32 \<Rightarrow> nat \<Rightarrow> stream" where
  "unwrap S s T x =
    (let d = unat (x - (s + of_nat T)) in
     if d < 2147483648 then S (T + d) else S (T - (4294967296 - d)))"

lemma unwrap_ahead: "k < 2147483648 \<Longrightarrow> unwrap S s T (s + of_nat (T + k)) = S (T + k)"
  by (simp add: unwrap_def Let_def unat_of_nat add.assoc [symmetric])

text \<open>
  The receive side of a connection as a state machine: segments of the stream arrive in any
  order and any number of times, the application frees bytes it has been told of, hands over bytes to send and closes its
  side (\<open>bump_flow\<close>, the effect of \<^verbatim>\<open>fast_flows_bump\<close> on the flow), and everything else that happens leaves the receive side and its buffer alone.  \<open>T\<close> bytes have been
  announced to the application so far, \<open>R\<close> of them have been freed.  The buffer is shorter than 64 KiB, since the code passes
  lengths of received data in 16 bits, and segments that \<^verbatim>\<open>tcp_trim_rxbuf\<close> does not handle are left out; the code
  accepts both and can then overwrite bytes that have not been read.
\<close>

inductive recv_reach ::
  "fp_env \<Rightarrow> (nat \<Rightarrow> u8) \<Rightarrow> flextcp_pl_flowst \<Rightarrow> mem \<Rightarrow> flextcp_pl_flowst \<Rightarrow> nat \<Rightarrow> nat \<Rightarrow> bool"
  for env S fs0
where
  init: "rx_inv fs0 \<Longrightarrow> bufs_ok env fs0 \<Longrightarrow> rx_avail fs0 = rx_len fs0 \<Longrightarrow> unat (rx_len fs0) < 65536 \<Longrightarrow>
    rx_ooo_len fs0 = 0 \<Longrightarrow> \<not> fs_flag fs0 FLEXNIC_PL_FLOWST_RXFIN \<Longrightarrow> recv_reach env S fs0 m fs0 0 0"
| segment: "recv_reach env S fs0 m fs T R \<Longrightarrow> unat n < 65536 \<Longrightarrow> unat off < 65536 \<Longrightarrow>
    carries (unwrap S (rx_next_seq fs0) T) p n off \<Longrightarrow>
    \<not> trim_wrap_gap fs (f_beui32 (seqno (tcp p))) (ucast n) \<Longrightarrow>
    packet_data env m fs p ts_opt ts n off = Inr (fs', m', bump, fin, trig) \<Longrightarrow>
    recv_reach env S fs0 m' fs' (T + unat bump) R"
| bump: "recv_reach env S fs0 m fs T R \<Longrightarrow> R + unat rx \<le> T \<Longrightarrow>
    recv_reach env S fs0 m (bump_flow fs seq rx tx flags) T (if bump_accepted fs seq (unat rx) (unat tx) flags then R + unat rx else R)"
| other: "recv_reach env S fs0 m fs T R \<Longrightarrow> rx_part fs' = rx_part fs \<Longrightarrow> tx_base fs' = tx_base fs \<Longrightarrow>
    tx_len fs' = tx_len fs \<Longrightarrow> (\<forall>k<unat (rx_len fs0). m' (rx_slot fs k) = m (rx_slot fs k)) \<Longrightarrow>
    recv_reach env S fs0 m' fs' T R"

definition recv_inv ::
  "fp_env \<Rightarrow> (nat \<Rightarrow> u8) \<Rightarrow> flextcp_pl_flowst \<Rightarrow> mem \<Rightarrow> flextcp_pl_flowst \<Rightarrow> nat \<Rightarrow> nat \<Rightarrow> bool"
where
  "recv_inv env S fs0 m fs T R \<longleftrightarrow> rx_ok env (unwrap S (rx_next_seq fs0) T) m fs \<and> R \<le> T \<and>
     T - R + unat (rx_avail fs) = unat (rx_len fs0) \<and> rx_base fs = rx_base fs0 \<and> rx_len fs = rx_len fs0 \<and>
     unat (rx_len fs0) < 65536 \<and>
     unat (rx_next_pos fs) = (unat (rx_next_pos fs0) + T) mod unat (rx_len fs0) \<and>
     rx_next_seq fs = rx_next_seq fs0 + of_nat T + (if fs_flag fs FLEXNIC_PL_FLOWST_RXFIN then 1 else 0) \<and>
     (\<forall>j. R \<le> j \<and> j < T \<longrightarrow>
       m (ring_addr (rx_base fs0) (unat (rx_len fs0)) (unat (rx_next_pos fs0)) j) = S j)"

lemma recv_inv_slot:
  "recv_inv env S fs0 m fs T R \<Longrightarrow>
   rx_slot fs k = ring_addr (rx_base fs0) (unat (rx_len fs0)) (unat (rx_next_pos fs0)) (T + k)"
  by (simp add: recv_inv_def rx_slot_def ring_addr_shift)

text \<open>What has been announced and not freed lies outside of the free part of the buffer.\<close>

lemma unread_not_free:
  assumes inv: "recv_inv env S fs0 m fs T R" and j: "R \<le> j" "j < T" and k: "k < unat (rx_avail fs)"
  shows "ring_addr (rx_base fs0) (unat (rx_len fs0)) (unat (rx_next_pos fs0)) j \<noteq> rx_slot fs k"
proof
  let ?L = "unat (rx_len fs0)" and ?p = "unat (rx_next_pos fs0)" and ?b = "rx_base fs0"
  assume eq: "ring_addr ?b ?L ?p j = rx_slot fs k"
  have i: "T - R + unat (rx_avail fs) = ?L" "rx_base fs = ?b" "rx_len fs = rx_len fs0" "bufs_ok env fs"
    using inv by (simp_all add: recv_inv_def rx_ok_def)
  have "unat ?b + ?L < 18446744073709551616"
    using i(2-4) unat_u64_bound [of "shm_len env"] by (simp add: bufs_ok_def)
  moreover have "ring_addr ?b ?L (?p + j) (T - j + k) = ring_addr ?b ?L (?p + j) 0"
    using eq j unfolding recv_inv_slot [OF inv] by (simp add: ring_addr_def add.assoc)
  ultimately have "T - j + k = 0"
    using i(1) j k by (intro ring_addr_inj [of ?b ?L _ 0 "?p + j"]) auto
  with j show False by simp
qed

lemma recv_inv_init:
  assumes "rx_inv fs0" "bufs_ok env fs0" "rx_avail fs0 = rx_len fs0" "unat (rx_len fs0) < 65536" "rx_ooo_len fs0 = 0"
    "\<not> fs_flag fs0 FLEXNIC_PL_FLOWST_RXFIN"
  shows "recv_inv env S fs0 m fs0 0 0"
  using assms rx_inv_nat [OF assms(1)] by (simp add: recv_inv_def rx_ok_def)

lemma rx_ok_stream:
  assumes "rx_ok env \<sigma> m fs" "\<And>k. k < 65536 \<Longrightarrow> \<sigma>' (rx_next_seq fs + of_nat k) = \<sigma> (rx_next_seq fs + of_nat k)"
  shows "rx_ok env \<sigma>' m fs"
  using assms by (auto simp: rx_ok_def holds_def)

lemma recv_inv_segment:
  assumes inv: "recv_inv env S fs0 m fs T R" and n: "unat n < 65536" "unat off < 65536"
    and pk: "carries (unwrap S (rx_next_seq fs0) T) p n off" "\<not> trim_wrap_gap fs (f_beui32 (seqno (tcp p))) (ucast n)"
    and run: "packet_data env m fs p ts_opt ts n off = Inr (fs', m', bump, fin, trig)"
  shows "recv_inv env S fs0 m' fs' (T + unat bump) R"
proof -
  let ?s = "rx_next_seq fs0" and ?\<sigma> = "unwrap S (rx_next_seq fs0) T"
  have i: "rx_ok env ?\<sigma> m fs" "R \<le> T" "T - R + unat (rx_avail fs) = unat (rx_len fs0)" "unat (rx_len fs0) < 65536"
    "rx_base fs = rx_base fs0" "rx_len fs = rx_len fs0"
    "unat (rx_next_pos fs) = (unat (rx_next_pos fs0) + T) mod unat (rx_len fs0)"
    "rx_next_seq fs = ?s + of_nat T + (if fs_flag fs FLEXNIC_PL_FLOWST_RXFIN then 1 else 0)"
    and unread: "\<And>j. R \<le> j \<Longrightarrow> j < T \<Longrightarrow>
       m (ring_addr (rx_base fs0) (unat (rx_len fs0)) (unat (rx_next_pos fs0)) j) = S j"
    using inv by (simp_all add: recv_inv_def)
  obtain k where k: "bump = of_nat k" "rx_ok env ?\<sigma> m' fs'" "rx_step ?\<sigma> fs m fs' m' k fin"
    "fs_flag fs' FLEXNIC_PL_FLOWST_RXFIN \<longleftrightarrow> fs_flag fs FLEXNIC_PL_FLOWST_RXFIN \<or> fin"
    "fs_flag fs FLEXNIC_PL_FLOWST_RXFIN \<Longrightarrow> k = 0 \<and> \<not> fin"
    by (rule packet_data_ok [OF i(1) n pk(2,1), of ts_opt ts]) (use run in auto)
  have st: "holds ?\<sigma> m' fs 0 k" "rx_frame fs m m'" "unat (rx_avail fs') + k = unat (rx_avail fs)"
    "rx_base fs' = rx_base fs" "rx_len fs' = rx_len fs"
    "unat (rx_next_pos fs') = (unat (rx_next_pos fs) + k) mod unat (rx_len fs)"
    "rx_next_seq fs' = rx_next_seq fs + of_nat k + (if fin then 1 else 0)"
    using k(3) by (simp_all add: rx_step_def)
  have u: "unat bump = k"
    using st(3) i(3,4) by (simp add: k(1) unat_of_nat)
  have seq: "rx_next_seq fs' = ?s + of_nat (T + k) + (if fs_flag fs' FLEXNIC_PL_FLOWST_RXFIN then 1 else 0)"
    using st(7) i(8) k(4,5) by auto
  have "rx_ok env (unwrap S ?s (T + k)) m' fs'"
  proof (rule rx_ok_stream [OF k(2)])
    fix j :: nat assume j: "j < 65536"
    define e :: nat where "e = (if fs_flag fs' FLEXNIC_PL_FLOWST_RXFIN then 1 else 0)"
    have x: "rx_next_seq fs' + of_nat j = ?s + of_nat (T + (k + (e + j)))"
      "rx_next_seq fs' + of_nat j = ?s + of_nat (T + k + (e + j))"
      by (simp_all add: seq e_def)
    have b: "k + (e + j) < 2147483648" "e + j < 2147483648"
      using j st(3) i(3,4) by (auto simp: e_def)
    show "unwrap S ?s (T + k) (rx_next_seq fs' + of_nat j) = ?\<sigma> (rx_next_seq fs' + of_nat j)"
      using unwrap_ahead [OF b(1), of S ?s T] unwrap_ahead [OF b(2), of S ?s "T + k"] x
      by (simp add: add.assoc)
  qed
  moreover have "m' (ring_addr (rx_base fs0) (unat (rx_len fs0)) (unat (rx_next_pos fs0)) j) = S j"
    if j: "R \<le> j" "j < T + k" for j
  proof (cases "j < T")
    case True
    then show ?thesis
      using st(2) unread_not_free [OF inv j(1) True] unread [OF j(1) True] unfolding rx_frame_def by metis
  next
    case False
    then obtain d where d: "j = T + d" "d < k"
      using j(2) by (metis le_Suc_ex linorder_not_less nat_add_left_cancel_less)
    then have nf: "\<not> fs_flag fs FLEXNIC_PL_FLOWST_RXFIN"
      using k(5) by auto
    have "m' (rx_slot fs d) = ?\<sigma> (rx_next_seq fs + of_nat d)"
      using st(1) d(2) by (simp add: holds_def)
    also have "rx_next_seq fs + of_nat d = ?s + of_nat (T + d)"
      using i(8) nf by simp
    also have "?\<sigma> \<dots> = S (T + d)"
      using d(2) st(3) i(3,4) by (intro unwrap_ahead) simp
    finally show ?thesis
      by (simp add: recv_inv_slot [OF inv] d(1))
  qed
  ultimately show ?thesis
    using i st seq by (simp add: recv_inv_def u mod_add_left_eq add.assoc)
qed

lemma recv_inv_free:
  assumes inv: "recv_inv env S fs0 m fs T R" and n: "R + n \<le> T"
  shows "recv_inv env S fs0 m (fs\<lparr>rx_avail := rx_avail fs + of_nat n\<rparr>) T (R + n)"
proof -
  let ?f = "fs\<lparr>rx_avail := rx_avail fs + of_nat n\<rparr>"
  have i: "rx_ok env (unwrap S (rx_next_seq fs0) T) m fs" "T - R + unat (rx_avail fs) = unat (rx_len fs0)"
    "unat (rx_len fs0) < 65536" "rx_len fs = rx_len fs0"
    using inv by (simp_all add: recv_inv_def)
  have "unat (rx_avail fs) + n < 65536"
    using i n by linarith
  then have a: "unat (rx_avail fs + of_nat n) = unat (rx_avail fs) + n"
    by (simp add: unat_u32_add unat_of_nat)
  have "rx_inv ?f" "bufs_ok env ?f" "holds \<sigma> m ?f = holds \<sigma> m fs" "ooo_from ?f = ooo_from fs" "ooo_to ?f = ooo_to fs"
    "rx_base ?f = rx_base fs" "fs_flag ?f = fs_flag fs" for \<sigma>
    using i n a by (simp_all add: rx_ok_def rx_inv_def bufs_ok_def rx_base_def fun_eq_iff holds_def rx_slot_def ooo_from_def
        ooo_to_def fs_flag_def)
  then show ?thesis
    using inv n a by (auto simp: recv_inv_def rx_ok_def)
qed

lemma recv_inv_bump:
  assumes inv: "recv_inv env S fs0 m fs T R" and n: "R + unat rx \<le> T"
  shows "recv_inv env S fs0 m (bump_flow fs seq rx tx flags) T (if bump_accepted fs seq (unat rx) (unat tx) flags then R + unat rx else R)"
proof -
  let ?a = "bump_accepted fs seq (unat rx) (unat tx) flags" and ?b = "bump_flow fs seq rx tx flags"
  define g where "g = (if ?a then fs\<lparr>rx_avail := rx_avail fs + rx\<rparr> else fs)"
  have g: "recv_inv env S fs0 m g T (if ?a then R + unat rx else R)"
    using inv recv_inv_free [OF inv n] by (simp add: g_def)
  have "(x OR FLEXNIC_PL_FLOWST_TXFIN) AND FLEXNIC_PL_FLOWST_RX_MASK = x AND FLEXNIC_PL_FLOWST_RX_MASK"
    "(x OR FLEXNIC_PL_FLOWST_TXFIN) AND FLEXNIC_PL_FLOWST_RXFIN = x AND FLEXNIC_PL_FLOWST_RXFIN" for x :: u64
    by (simp_all add: bit.conj_disj_distrib2)
  then have b: "rx_base ?b = rx_base g" "fs_flag ?b FLEXNIC_PL_FLOWST_RXFIN = fs_flag g FLEXNIC_PL_FLOWST_RXFIN"
    by (auto simp: bump_flow_def g_def rx_base_def fs_flag_def bump_accepted_def)
  have r: "rx_len ?b = rx_len g" "rx_avail ?b = rx_avail g" "rx_next_pos ?b = rx_next_pos g" "rx_next_seq ?b = rx_next_seq g"
    "rx_ooo_start ?b = rx_ooo_start g" "rx_ooo_len ?b = rx_ooo_len g" "tx_base ?b = tx_base g" "tx_len ?b = tx_len g"
    by (auto simp: bump_flow_def g_def bump_accepted_def)
  have "holds \<sigma> m ?b = holds \<sigma> m g" for \<sigma>
    by (simp add: fun_eq_iff holds_def rx_slot_def r b)
  then have "recv_inv env S fs0 m ?b T Q = recv_inv env S fs0 m g T Q" for Q
    by (simp only: recv_inv_def rx_ok_def rx_inv_def bufs_ok_def ooo_from_def ooo_to_def r b)
  with g show ?thesis
    by simp
qed

lemma recv_inv_other:
  assumes inv: "recv_inv env S fs0 m fs T R" and fs': "rx_part fs' = rx_part fs" "tx_base fs' = tx_base fs" "tx_len fs' = tx_len fs"
    and m': "\<forall>k<unat (rx_len fs0). m' (rx_slot fs k) = m (rx_slot fs k)"
  shows "recv_inv env S fs0 m' fs' T R"
proof -
  let ?L = "unat (rx_len fs0)" and ?p = "unat (rx_next_pos fs0)" and ?\<sigma> = "unwrap S (rx_next_seq fs0) T"
  have i: "rx_ok env ?\<sigma> m fs" "R \<le> T" "T - R + unat (rx_avail fs) = ?L" "rx_len fs = rx_len fs0"
    and unread: "\<And>j. R \<le> j \<Longrightarrow> j < T \<Longrightarrow> m (ring_addr (rx_base fs0) ?L ?p j) = S j"
    using inv by (simp_all add: recv_inv_def)
  have "rx_ok env ?\<sigma> m' fs"
    using i(1,3) m' by (auto simp: rx_ok_def holds_def)
  moreover have "m' (ring_addr (rx_base fs0) ?L ?p j) = S j" if j: "R \<le> j" "j < T" for j
  proof -
    let ?k = "?L - (T - j)"
    have "?k < ?L" "T + ?k = j + ?L"
      using j i(3) by linarith+
    then have "rx_slot fs ?k = ring_addr (rx_base fs0) ?L ?p j"
      unfolding recv_inv_slot [OF inv] by (simp add: ring_addr_def add.assoc [symmetric])
    then show ?thesis
      using m' \<open>?k < ?L\<close> unread [OF j] by metis
  qed
  ultimately have "recv_inv env S fs0 m' fs T R"
    using inv by (simp add: recv_inv_def)
  then show ?thesis
    using fs' rx_ok_cong [OF fs'] by (simp add: recv_inv_def rx_part_def rx_base_def fs_flag_def)
qed

lemma recv_reach_fresh: "recv_reach env S fs0 m fs T R \<Longrightarrow> rx_ooo_len fs0 = 0"
  by (induction rule: recv_reach.induct) auto

lemma recv_reach_inv: "recv_reach env S fs0 m fs T R \<Longrightarrow> recv_inv env S fs0 m fs T R"
proof (induction rule: recv_reach.induct)
  case (init m)
  then show ?case by (rule recv_inv_init)
next
  case (segment m fs T R n off p ts_opt ts fs' m' bump fin trig)
  then show ?case using recv_inv_segment by blast
next
  case (bump m fs T R rx seq tx flags)
  then show ?case using recv_inv_bump by blast
next
  case (other m fs T R fs' m')
  then show ?case using recv_inv_other by blast
qed

section \<open>Main results\<close>

text \<open>For the witnesses: packets for the next expected byte of the demonstration flow, with 12 bytes of options.\<close>

definition demo_pkt :: "u16 \<Rightarrow> buf \<Rightarrow> pkt_tcp" where
  "demo_pkt len r = pkt_zero\<lparr>ip := (ip pkt_zero)\<lparr>ip_len := t_beui16 len\<rparr>,
     tcp := (tcp pkt_zero)\<lparr>seqno := t_beui32 4294967290, ackno := t_beui32 10\<rparr>, rest := r\<rparr>"

lemma demo_pkt_simps [simp]:
  "TCPH_HDRLEN (tcp (demo_pkt len r)) = 8" "TCPH_FLAGS (tcp (demo_pkt len r)) = 16"
  "f_beui32 (seqno (tcp (demo_pkt len r))) = 4294967290" "f_beui32 (ackno (tcp (demo_pkt len r))) = 10"
  "f_beui16 (ip_len (ip (demo_pkt len r))) = len" "rest (demo_pkt len r) = r"
  by (simp_all add: demo_pkt_def pkt_zero_def TCPH_HDRLEN_def TCPH_FLAGS_def)

definition demo_data :: pkt_tcp where
  "demo_data = demo_pkt 55 (\<lambda>i. of_nat (i - 12))"

lemma demo_data_ok:
  "pkt_payload_len demo_data = 3" "pkt_payload_off demo_data = 66" "pkt_len_ok demo_data" "fast_flags demo_data"
  "f_beui32 (seqno (tcp demo_data)) = 4294967290"
  by (simp_all add: demo_data_def pkt_payload_len_def pkt_payload_off_def pkt_len_ok_def fast_flags_def)

lemma demo_data_carries:
  assumes "\<And>i. i < 3 \<Longrightarrow> \<sigma> (4294967290 + of_nat i) = of_nat i"
  shows "carries \<sigma> demo_data 3 66"
  unfolding carries_def
proof (intro allI impI)
  fix i assume i: "i < unat (3 :: u32)"
  have "rest demo_data (unat (66 :: u32) + i - sizeof_pkt_tcp) = of_nat i"
    by (simp add: demo_data_def)
  then show "rest demo_data (unat (66 :: u32) + i - sizeof_pkt_tcp) = \<sigma> (f_beui32 (seqno (tcp demo_data)) + of_nat i)"
    using assms [of i] i by (simp only: demo_data_ok) simp
qed

lemma demo_flow_rx:
  "rx_inv demo_flow" "rx_ok demo_env \<sigma> m demo_flow" "rx_next_seq demo_flow = 4294967290" "rx_avail demo_flow = 1000"
  "rx_len demo_flow = 2048" "unat (rx_next_pos demo_flow) = 2000" "rx_base demo_flow = 0" "fs_flag demo_flow f = (0 = f)"
  "tx_rate demo_flow = 0"
  using demo_flow_ok(2)
  by (simp_all add: demo_flow_def flowst_zero_def rx_inv_def rx_ok_def rx_base_def fs_flag_def)

text \<open>
  C2: \<^verbatim>\<open>fast_flows_packet\<close> handles every packet with correct lengths and flags of the fast path for a flow below 65536
  without fault, if its segment is not one on which \<^verbatim>\<open>tcp_trim_rxbuf\<close> goes wrong (\<open>trim_wrap_gap\<close>), the flow's buffers
  are as in reliable delivery (\<open>rx_ok\<close>), its rate and half its rate are 0 or at least 11 Kbps (\<open>rate_ok\<close>), and the queue manager is in
  a state it reaches when it is polled often enough (\<open>qman_reach\<close>).  The
  acknowledgement moves the send window as \<open>packet_ack\<close> says, exactly the bytes of the
  stream that are next in order become readable at \<^verbatim>\<open>rx_next_pos\<close>, at least all the bytes of
  this segment that fit the free buffer, and memory outside of the free part of the receive
  buffer keeps its contents.  The application is told how many bytes arrived and how many
  were acknowledged, and a packet with payload is answered with an acknowledgement of
  everything received.
\<close>

theorem fast_flows_packet_receives:
  fixes st :: fastpath and fid :: u32 and nbh :: nbuf
  defines "fs \<equiv> flowst st fid" and "p \<equiv> nb_pkt nbh"
  defines "n \<equiv> pkt_payload_len p" and "before \<equiv> unat (rx_next_seq fs - f_beui32 (seqno (tcp p)))"
  assumes inv: "tx_inv fs" "rx_ok env \<sigma> (fp_shm st) fs" "\<not> fs_flag fs FLEXNIC_PL_FLOWST_SLOWPATH"
    and pkt: "pkt_len_ok p" "fast_flags p" "carries \<sigma> p n (pkt_payload_off p)"
      "\<not> trim_wrap_gap fs (f_beui32 (seqno (tcp p))) (ucast n)"
    and room: "length (arx_cache st) < BATCH_SIZE" "length (tx_handles st) < TXBUF_SIZE"
    and q: "qman_reach qman_horizon (qman st)" "fid < 65536" "rate_ok (tx_rate fs)" "rate_ok (tx_rate fs div 2)"
  shows "\<exists>r st' fs' k fin bump rex f.
    fast_flows_packet env st nbh fid ts_opt ts = Some (Inr (r, st')) \<and> flowst st' = (flowst st)(fid := fs') \<and>
    packet_ack fs (TCPH_FLAGS (tcp p)) (f_beui32 (ackno (tcp p))) n = (f, bump, rex) \<and>
    tx_inv fs' \<and> tx_window_of fs' = tx_window_of f \<and>
    rx_ok env \<sigma> (fp_shm st') fs' \<and> rx_step \<sigma> fs (fp_shm st) fs' (fp_shm st') k fin \<and>
    (\<not> rex \<and> \<not> fs_flag fs FLEXNIC_PL_FLOWST_RXFIN \<and> before \<le> unat n \<longrightarrow>
       min (unat n - before) (unat (rx_avail fs)) \<le> k) \<and>
    qman_reach qman_horizon (qman st') \<and>
    arx_cache st' = arx_cache st @ notice fs (rx_next_pos fs) (of_nat k) bump fin \<and>
    (0 < unat n \<longrightarrow> (\<exists>nb. tx_handles st' = tx_handles st @ [nb] \<and>
       f_beui32 (ackno (tcp (nb_pkt nb))) = rx_next_seq fs'))"
proof -
  obtain r st' fs' k fin bump rex f where *:
    "fast_flows_packet env st nbh fid ts_opt ts = Some (Inr (r, st'))" "flowst st' = (flowst st)(fid := fs')"
    "packet_ack fs (TCPH_FLAGS (tcp p)) (f_beui32 (ackno (tcp p))) n = (f, bump, rex)"
    "tx_part fs' = tx_part f" "rx_ok env \<sigma> (fp_shm st') fs'" "rx_step \<sigma> fs (fp_shm st) fs' (fp_shm st') k fin"
    "\<not> rex \<Longrightarrow> \<not> fs_flag fs FLEXNIC_PL_FLOWST_RXFIN \<Longrightarrow> before \<le> unat n \<Longrightarrow>
       min (unat n - before) (unat (rx_avail fs)) \<le> k"
    "qman_reach qman_horizon (qman st')"
    "arx_cache st' = arx_cache st @ notice fs (rx_next_pos fs) (of_nat k) bump fin" "0 < unat n \<Longrightarrow> r = 1"
    "r = 1 \<Longrightarrow> \<exists>nb. tx_handles st' = tx_handles st @ [nb] \<and> f_beui32 (ackno (tcp (nb_pkt nb))) = rx_next_seq fs'"
    by (rule fast_flows_packet_ok [of st fid env \<sigma> nbh ts_opt ts])
      (use assms in \<open>simp_all add: fs_def p_def n_def before_def\<close>)
  have "tx_inv f"
    using packet_ack_window(1) [OF inv(1) *(3)] .
  then have "tx_inv fs'" "tx_window_of fs' = tx_window_of f"
    using *(4) tx_fields_cong [of fs' f] by (simp_all add: tx_part_def)
  with * show ?thesis
    by metis
qed

theorem fast_flows_packet_receives_witness:
  "\<exists>r st'. fast_flows_packet demo_env demo_st (demo_nbuf\<lparr>nb_pkt := demo_data\<rparr>) 3 0 7 = Some (Inr (r, st')) \<and>
     unat (rx_avail (flowst st' 3)) \<le> 997 \<and> fp_shm st' 2002 = 2 \<and> (\<exists>nb. tx_handles st' = [nb])"
proof -
  let ?\<sigma> = "\<lambda>x. of_nat (unat (x - 4294967290 :: u32)) :: u8"
  have c: "carries ?\<sigma> demo_data 3 66"
    by (rule demo_data_carries) (simp add: unat_of_nat del: of_nat_unat)
  have g: "\<not> trim_wrap_gap demo_flow 4294967290 3"
    by (simp add: trim_wrap_gap_def demo_flow_rx)
  let ?nb = "demo_nbuf\<lparr>nb_pkt := demo_data\<rparr>"
  have pre: "tx_inv (flowst demo_st 3)" "rx_ok demo_env ?\<sigma> (fp_shm demo_st) (flowst demo_st 3)"
    "\<not> fs_flag (flowst demo_st 3) FLEXNIC_PL_FLOWST_SLOWPATH" "pkt_len_ok (nb_pkt ?nb)" "fast_flags (nb_pkt ?nb)"
    "carries ?\<sigma> (nb_pkt ?nb) (pkt_payload_len (nb_pkt ?nb)) (pkt_payload_off (nb_pkt ?nb))"
    "\<not> trim_wrap_gap (flowst demo_st 3) (f_beui32 (seqno (tcp (nb_pkt ?nb)))) (ucast (pkt_payload_len (nb_pkt ?nb)))"
    "length (arx_cache demo_st) < BATCH_SIZE" "length (tx_handles demo_st) < TXBUF_SIZE"
    "qman_reach qman_horizon (qman demo_st)" "(3::u32) < 65536" "rate_ok (tx_rate (flowst demo_st 3))"
    "rate_ok (tx_rate (flowst demo_st 3) div 2)"
    using c g by (simp_all add: demo_flow_ok demo_flow_rx demo_data_ok demo_reach rate_ok_def)
  obtain r st' fs' k fin bump rex f where r: "fast_flows_packet demo_env demo_st ?nb 3 0 7 = Some (Inr (r, st'))"
    "flowst st' = (flowst demo_st)(3 := fs')" "rx_step ?\<sigma> (flowst demo_st 3) (fp_shm demo_st) fs' (fp_shm st') k fin"
    and ack: "packet_ack (flowst demo_st 3) (TCPH_FLAGS (tcp (nb_pkt ?nb))) (f_beui32 (ackno (tcp (nb_pkt ?nb))))
      (pkt_payload_len (nb_pkt ?nb)) = (f, bump, rex)"
    and k: "\<not> rex \<and> \<not> fs_flag (flowst demo_st 3) FLEXNIC_PL_FLOWST_RXFIN \<and>
      unat (rx_next_seq (flowst demo_st 3) - f_beui32 (seqno (tcp (nb_pkt ?nb)))) \<le> unat (pkt_payload_len (nb_pkt ?nb)) \<longrightarrow>
      min (unat (pkt_payload_len (nb_pkt ?nb)) - unat (rx_next_seq (flowst demo_st 3) - f_beui32 (seqno (tcp (nb_pkt ?nb)))))
        (unat (rx_avail (flowst demo_st 3))) \<le> k"
    and t: "0 < unat (pkt_payload_len (nb_pkt ?nb)) \<longrightarrow> (\<exists>nb. tx_handles st' = tx_handles demo_st @ [nb] \<and>
       f_beui32 (ackno (tcp (nb_pkt nb))) = rx_next_seq fs')"
    using fast_flows_packet_receives [OF pre, of 0 7] by (elim exE conjE) (rule that)
  have "\<not> rex"
    using packet_ack_rex [OF ack] by (simp add: demo_data_ok)
  then have k3: "3 \<le> k"
    using k by (simp add: demo_data_ok demo_flow_rx)
  have "fp_shm st' (rx_slot demo_flow 2) = 2" "unat (rx_avail fs') + k = 1000"
    using r(3) k3 by (simp_all add: rx_step_def holds_def demo_flow_rx)
  moreover have "rx_slot demo_flow 2 = 2002"
    by (simp add: rx_slot_def ring_addr_def demo_flow_rx)
  ultimately show ?thesis
    using r k3 t by (auto simp: demo_data_ok)
qed

text \<open>
  C1: Reliable delivery, for a receive buffer shorter than 64 KiB: however segments of the peer's stream arrive, out of order, partly
  overlapping or repeatedly, and however the application frees bytes it has been told of, the bytes announced
  to the application and not yet freed always stand in the receive buffer, in order and
  unaltered, the next expected sequence number is the one behind them, and announced and
  free bytes together are the whole buffer.  Segments are excluded on which \<^verbatim>\<open>tcp_trim_rxbuf\<close> goes wrong
  (\<open>trim_wrap_gap\<close>: the segment starts inside the window and its end, but not the end of the window, lies behind sequence number \<open>2^32\<close>).
\<close>

theorem receiver_delivers_stream:
  assumes "recv_reach env S fs0 m fs T R"
  shows "R \<le> T \<and> T - R + unat (rx_avail fs) = unat (rx_len fs0) \<and>
    rx_next_seq fs = rx_next_seq fs0 + of_nat T + (if fs_flag fs FLEXNIC_PL_FLOWST_RXFIN then 1 else 0) \<and>
    (\<forall>j. R \<le> j \<and> j < T \<longrightarrow>
       m (ring_addr (rx_base fs0) (unat (rx_len fs0)) (unat (rx_next_pos fs0)) j) = S j)"
  using recv_reach_inv [OF assms] by (simp add: recv_inv_def)

theorem receiver_delivers_stream_witness:
  "\<exists>m fs T. recv_reach demo_env of_nat (demo_flow\<lparr>rx_avail := 2048\<rparr>) m fs T 0 \<and> 3 \<le> T \<and> m 2002 = 2"
proof -
  let ?f = "demo_flow\<lparr>rx_avail := 2048\<rparr>" and ?m = "\<lambda>_. 0"
  have f: "rx_next_seq ?f = 4294967290" "rx_base ?f = 0" "rx_len ?f = 2048" "unat (rx_next_pos ?f) = 2000"
    "\<not> fs_flag ?f FLEXNIC_PL_FLOWST_RXFIN"
    using demo_flow_rx by (simp_all add: rx_base_def fs_flag_def)
  have r0: "recv_reach demo_env of_nat ?f ?m ?f 0 0"
    by (rule recv_reach.init) (use demo_flow_rx demo_flow_ok in \<open>simp_all add: rx_inv_def bufs_ok_def rx_base_def fs_flag_def demo_flow_def flowst_zero_def\<close>)
  have ok: "rx_ok demo_env (unwrap of_nat 4294967290 0) ?m ?f"
    using recv_reach_inv [OF r0] by (simp add: recv_inv_def f)
  have c: "carries (unwrap of_nat 4294967290 0) demo_data 3 66"
    using unwrap_ahead [of _ of_nat 4294967290 0] by (intro demo_data_carries) simp
  have g: "\<not> trim_wrap_gap ?f (f_beui32 (seqno (tcp demo_data))) (ucast (3 :: u32))"
    by (simp add: trim_wrap_gap_def demo_data_ok demo_flow_rx)
  obtain fs' m' k fin trig where d: "packet_data demo_env ?m ?f demo_data 0 7 3 66 = Inr (fs', m', of_nat k, fin, trig)"
    "rx_step (unwrap of_nat 4294967290 0) ?f ?m fs' m' k fin"
    "\<not> fs_flag ?f FLEXNIC_PL_FLOWST_RXFIN \<Longrightarrow> unat (rx_next_seq ?f - f_beui32 (seqno (tcp demo_data))) \<le> unat (3::u32) \<Longrightarrow>
       min (unat (3::u32) - unat (rx_next_seq ?f - f_beui32 (seqno (tcp demo_data)))) (unat (rx_avail ?f)) \<le> k"
    by (rule packet_data_ok [OF ok _ _ g c, of 0 7]) auto
  have k: "3 \<le> k" "k \<le> 2048"
    using d(2,3) f by (simp_all add: demo_data_ok rx_step_def)
  have "recv_reach demo_env of_nat ?f m' fs' (0 + unat (of_nat k :: u32)) 0"
    by (rule recv_reach.segment [OF r0 _ _ _ g d(1)]) (use c f in simp_all)
  then have r1: "recv_reach demo_env of_nat ?f m' fs' k 0"
    using k by (simp add: unat_of_nat)
  have "m' (ring_addr (rx_base ?f) (unat (rx_len ?f)) (unat (rx_next_pos ?f)) 2) = 2"
    using receiver_delivers_stream [OF r1] k by simp
  then have "m' 2002 = 2"
    unfolding f by (simp add: ring_addr_def)
  with r1 k(1) show ?thesis by blast
qed

text \<open>A payload length that has wrapped around fails the assertion on the buffer position.\<close>

lemma rx_advance_wrapped:
  assumes inv: "rx_inv f" "unat (rx_len f) \<le> 32768" and n: "unat n = 4294901760 + unat (rx_avail f)"
  shows "rx_advance f n = Inl Assert_Failed"
proof -
  note r = rx_inv_nat [OF inv(1)]
  have s: "unat (rx_next_pos f + n) = unat (rx_next_pos f) + unat n"
    using r inv(2) n by (simp add: unat_u32_add)
  then have d: "unat (rx_next_pos f + n - rx_len f) = unat (rx_next_pos f) + unat n - unat (rx_len f)"
    using inv(2) n by (subst unat_u32_sub) simp
  have "rx_len f \<le> rx_next_pos f + n" "\<not> rx_next_pos f + n - rx_len f < rx_len f"
    unfolding word_le_nat_alt word_less_nat_alt s d using inv(2) n by simp_all
  then show ?thesis
    by (simp add: rx_advance_def Let_def)
qed

lemma packet_data_short:
  assumes inv: "rx_inv f" "unat (rx_base f) + unat (rx_len f) \<le> unat (shm_len env)" "unat (rx_len f) \<le> 32768"
    and fl: "\<not> fs_flag f FLEXNIC_PL_FLOWST_RXFIN" and n: "unat n = 4294967296 - d" "0 < d" "d \<le> 84"
    and seq: "f_beui32 (seqno (tcp p)) = rx_next_seq f"
  shows "packet_data env m f p ts_opt ts n off = Inl Assert_Failed"
proof -
  let ?v = "unat (rx_avail f)" and ?src = "\<lambda>i. rest p (i - sizeof_pkt_tcp)"
  note r = rx_inv_nat [OF inv(1)]
  have v: "?v \<le> 32768" "?v < 65536"
    using r inv(3) by linarith+
  have u: "unat (ucast n :: u16) = 65536 - d"
  proof -
    have "4294967296 - d = (65536 - d) + 65535 * 65536"
      using n by simp
    then show ?thesis
      unfolding unat_ucast_u32_u16 n(1) using n by (simp only: mod_mult_self1) simp
  qed
  have gap: "\<not> trim_wrap_gap f (rx_next_seq f) (ucast n)"
    by (simp add: trim_wrap_gap_def)
  have "rx_window_trim (rx_next_seq f) (rx_avail f) (rx_next_seq f) (ucast n) = Some (0, 65536 - d - ?v)"
    by (simp add: rx_window_trim_def u)
  then obtain ts' te where t: "tcp_trim_rxbuf f (rx_next_seq f) (ucast n) = Some (ts', te)" "unat ts' = 0" "unat te = 65536 - d - ?v"
    using trim_of_window(2) [OF v(2) gap] by blast
  define n' where "n' = n - ucast te"
  have n': "unat n' = 4294901760 + ?v"
    unfolding n'_def unat_u32_sub [of n "ucast te"] unat_ucast_u16_u32 t(3) n(1) using n v by simp
  have run: "packet_seq env m f (rx_next_seq f) n off ?src = Inr (f, m, Some (n', off))"
    using t(1,2) by (simp add: packet_seq_def unat_eq_0 n'_def)
  define g where "g = packet_window (packet_rtt f p ts_opt ts) p"
  note kg = packet_info_keeps [of f p ts_opt ts, folded g_def]
  have g: "rx_inv g" "rx_len g = rx_len f" "rx_avail g = rx_avail f" "rx_base g = rx_base f" "rx_next_pos g = rx_next_pos f"
    using kg(1) inv(1) by (simp_all add: rx_part_def rx_inv_def rx_base_def)
  have "4294901760 + ?v = ?v + 65535 * 65536"
    by simp
  then have w: "unat (ucast n' :: u16) = ?v"
    unfolding unat_ucast_u32_u16 n' using v(2) by (simp only: mod_mult_self1) simp
  have len: "unat (ucast n' :: u16) \<le> unat (rx_len g)" "unat (rx_base g) + unat (rx_len g) \<le> unat (shm_len env)"
    "unat (rx_len g) < 2147483648" "rx_next_pos g < rx_len g"
    using r inv(1,2) by (simp_all add: w g rx_inv_def)
  obtain m1 where "flow_rx_write env m g (rx_next_pos g) (ucast n') ?src (unat off) = Inr m1"
    using flow_rx_write_ring [OF len(2,3,4,1)] by blast
  moreover have "rx_advance g n' = Inl Assert_Failed"
    using rx_advance_wrapped [OF g(1)] inv(3) n' by (simp add: g)
  moreover have "n' \<noteq> 0"
    using n' by auto
  ultimately have "packet_payload env m g n' ?src (unat off) = Inl Assert_Failed"
    by (simp add: packet_payload_def word_gt_0)
  then show ?thesis
    using fl run by (simp add: packet_data_def seq g_def [symmetric] kg(4))
qed

text \<open>
  A packet whose IP length is smaller than its headers passes the parser's checks, and if
  it carries the next expected sequence number it stops the fast path: the payload length
  wraps around and the assertion on the buffer position fails.
\<close>

theorem fast_flows_packet_short_ip:
  fixes st :: fastpath and fid :: u32 and nbh :: nbuf
  defines "fs \<equiv> flowst st fid" and "p \<equiv> nb_pkt nbh"
  assumes inv: "rx_inv fs" "bufs_ok env fs" "unat (rx_len fs) \<le> 32768"
    and fl: "\<not> fs_flag fs FLEXNIC_PL_FLOWST_SLOWPATH" "\<not> fs_flag fs FLEXNIC_PL_FLOWST_RXFIN"
    and pkt: "fast_flows_packet_parse1 nbh = Some (Some ts_opt)" "fast_flags p"
      "unat (f_beui16 (ip_len (ip p))) < 40 + (unat (TCPH_HDRLEN (tcp p)) - 5) * 4"
      "f_beui32 (seqno (tcp p)) = rx_next_seq fs"
  shows "fast_flows_packet env st nbh fid ts_opt ts = Some (Inl Assert_Failed)"
proof -
  let ?h = "unat (TCPH_HDRLEN (tcp p))" and ?l = "unat (f_beui16 (ip_len (ip p)))"
  define n where "n = pkt_payload_len p"
  have h: "5 \<le> ?h" "?h < 16"
    using pkt(1) TCPH_HDRLEN_bound [of "tcp p"]
    by (auto simp: fast_flows_packet_parse1_def Let_def p_def word_less_nat_alt split: option.splits if_splits)
  define d where "d = 40 + (?h - 5) * 4 - ?l"
  have d: "0 < d" "d \<le> 84"
    using pkt(3) h by (auto simp: d_def)
  have n: "unat n = 4294967296 - d"
    using pkt_short_len [OF h(1) pkt(3)] pkt(3) h by (simp add: n_def d_def)
  obtain f bump rex where ack: "packet_ack fs (TCPH_FLAGS (tcp p)) (f_beui32 (ackno (tcp p))) n = (f, bump, rex)"
    by (metis prod_cases3)
  have "n \<noteq> 0"
    using n d by auto
  then have rex: "\<not> rex"
    using packet_ack_rex [OF ack] \<open>n \<noteq> 0\<close> by blast
  have rx: "rx_part f = rx_part fs"
    using packet_ack_rx(1) [OF ack] .
  then have f: "rx_inv f" "rx_base f = rx_base fs" "rx_len f = rx_len fs" "fs_flag f = fs_flag fs"
    "rx_next_seq f = rx_next_seq fs"
    using inv(1) by (simp_all add: rx_part_def rx_inv_def rx_base_def fs_flag_def fun_eq_iff)
  have data: "packet_data env (fp_shm st) f p ts_opt ts n (pkt_payload_off p) = Inl Assert_Failed"
    by (rule packet_data_short [OF f(1) _ _ _ n d]) (use inv fl pkt(4) f in \<open>simp_all add: bufs_ok_def\<close>)
  have slow: "rx_base_sp fs AND FLEXNIC_PL_FLOWST_SLOWPATH = 0"
    using fl(1) by (simp add: fs_flag_def and_one_eq odd_iff_mod_2_eq_one)
  note run = fast_flows_packet_def [of env st nbh fid ts_opt ts, unfolded Let_def, folded fs_def p_def,
      folded pkt_payload_off_def pkt_payload_len_def, folded n_def, unfolded ack prod.case]
  show ?thesis
    unfolding run using rex slow pkt(2) [unfolded fast_flags_def] by (simp add: data)
qed

theorem fast_flows_packet_short_ip_witness:
  "fast_flows_packet demo_env demo_st (demo_nbuf\<lparr>nb_pkt := demo_pkt 0 ((\<lambda>_. 0)(0 := 8, 1 := 10))\<rparr>) 3 0 7 =
     Some (Inl Assert_Failed)"
proof (rule fast_flows_packet_short_ip)
  show "fast_flows_packet_parse1 (demo_nbuf\<lparr>nb_pkt := demo_pkt 0 ((\<lambda>_. 0)(0 := 8, 1 := 10))\<rparr>) = Some (Some 0)"
    by (simp add: fast_flows_packet_parse1_def demo_nbuf_def tcp_parse_options_def tcp_parse_options_loop.simps)
      (simp add: demo_pkt_def pkt_zero_def IPH_V_def IPH_HL_def)
qed (use demo_flow_ok in \<open>simp_all add: demo_flow_rx fast_flags_def\<close>)

end
