(* ===== verification/Nicif.thy ===== *)
theory Nicif
  imports Flow_Table Flow_Recv
begin

text \<open>
  Registration of connections by the slow path, \<^verbatim>\<open>tas/slow/nicif.c\<close>: a flow id is taken from
  the allocator, a slot of the lookup table is made free, and the flow state is filled in;
  removal marks the flow for the slow path and clears the slot.  DPDK's \<^verbatim>\<open>rte_hash_crc\<close> over
  the four-tuple is the parameter \<open>crc\<close>.
\<close>

unbundle bit_operations_syntax

section \<open>Model\<close>

abbreviation (input) NICIF_CONN_ECN :: u32 where "NICIF_CONN_ECN \<equiv> 4"

type_synonym tuple_hash = "beui32 \<Rightarrow> beui32 \<Rightarrow> beui16 \<Rightarrow> beui16 \<Rightarrow> u32"

definition nicif_flow_hash :: "tuple_hash \<Rightarrow> beui32 \<Rightarrow> beui16 \<Rightarrow> beui32 \<Rightarrow> beui16 \<Rightarrow> u32" where
  "nicif_flow_hash crc lip lp rip rp = crc lip rip lp rp"

text \<open>The parameters of a connection.\<close>

record conn_params =
  cp_db :: u32
  cp_mac_remote :: u64
  cp_ip_local :: u32
  cp_port_local :: u16
  cp_ip_remote :: u32
  cp_port_remote :: u16
  cp_rx_base :: u64
  cp_rx_len :: u32
  cp_tx_base :: u64
  cp_tx_len :: u32
  cp_remote_seq :: u32
  cp_local_seq :: u32
  cp_opaque :: u64
  cp_flags :: u32
  cp_rate :: u32
  cp_flow_group :: u16
  cp_wscale :: u8

text \<open>
  The fields that are filled in; the out-of-order interval, the count of duplicate
  acknowledgements and the statistics keep the values of the flow that had the id before.
\<close>

definition conn_flowst :: "conn_params \<Rightarrow> flextcp_pl_flowst \<Rightarrow> flextcp_pl_flowst" where
  "conn_flowst c fs =
    fs\<lparr>opaque := cp_opaque c,
       rx_base_sp := (if cp_flags c AND NICIF_CONN_ECN = NICIF_CONN_ECN
                      then cp_rx_base c OR FLEXNIC_PL_FLOWST_ECN else cp_rx_base c),
       tx_base := cp_tx_base c, rx_len := cp_rx_len c, tx_len := cp_tx_len c,
       remote_mac := map (\<lambda>i. ucast (drop_bit (8 * i) (cp_mac_remote c))) [0..<6],
       db_id := ucast (cp_db c),
       local_ip := t_beui32 (cp_ip_local c), remote_ip := t_beui32 (cp_ip_remote c),
       local_port := t_beui16 (cp_port_local c), remote_port := t_beui16 (cp_port_remote c),
       flow_group := cp_flow_group c, lock := 0, bump_seq := 0,
       rx_avail := cp_rx_len c, rx_next_pos := 0, rx_next_seq := cp_remote_seq c,
       rx_remote_avail := push_bit 24 (ucast (cp_wscale c)) OR cp_rx_len c,
       tx_sent := 0, tx_next_pos := 0, tx_next_seq := cp_local_seq c, tx_avail := 0, tx_next_ts := 0,
       tx_rate := cp_rate c, rtt_est := 0\<rparr>"

definition nicif_connection_add ::
  "tuple_hash \<Rightarrow> fastpath \<Rightarrow> flow_ids \<Rightarrow> conn_params \<Rightarrow> (u32 option \<times> fastpath \<times> flow_ids) run"
where
  "nicif_connection_add crc st ids c =
    (let lip = t_beui32 (cp_ip_local c); rip = t_beui32 (cp_ip_remote c);
         lp = t_beui16 (cp_port_local c); rp = t_beui16 (cp_port_remote c) in
     case flow_id_alloc ids of
       None \<Rightarrow> Some (Inr (None, st, ids))
     | Some (f_id, ids) \<Rightarrow>
         let hash = nicif_flow_hash crc lip lp rip rp in
         bind_run (flow_slot_alloc (flowht st) hash) (\<lambda>(ht, r).
         let st = st\<lparr>flowht := ht\<rparr> in
         case r of
           None \<Rightarrow> Some (Inr (None, st, flow_id_free ids f_id))
         | Some (i, d) \<Rightarrow>
             if \<not> i < FLOWHT_ENTRIES \<or> \<not> d < FLOWHT_NBSZ then Some (Inl Assert_Failed)
             else
               let st = upd_flow st f_id (conn_flowst c (flowst st f_id)) in
               Some (Inr (Some f_id,
                 st\<lparr>flowht := (flowht st)(i := \<lparr>hte_flow_id = mk_flow_id d f_id, hte_flow_hash = hash\<rparr>)\<rparr>,
                 ids))))"

definition nicif_connection_disable ::
  "tuple_hash \<Rightarrow> fastpath \<Rightarrow> u32 \<Rightarrow> (u32 \<times> u32 \<times> bool \<times> bool) \<times> fastpath"
where
  "nicif_connection_disable crc st f_id =
    (let fs = flowst st f_id; tx_seq = tx_next_seq fs; rx_seq = rx_next_seq fs;
         fs = fs\<lparr>rx_base_sp := rx_base_sp fs OR FLEXNIC_PL_FLOWST_SLOWPATH\<rparr>;
         rx_closed = (rx_base_sp fs AND FLEXNIC_PL_FLOWST_RXFIN \<noteq> 0);
         tx_closed = (rx_base_sp fs AND FLEXNIC_PL_FLOWST_TXFIN \<noteq> 0 \<and> tx_sent fs = 0);
         st = upd_flow st f_id fs;
         h = nicif_flow_hash crc (local_ip fs) (local_port fs) (remote_ip fs) (remote_port fs) in
     ((tx_seq, rx_seq, tx_closed, rx_closed),
      st\<lparr>flowht := flow_slot_clear (flowht st) h f_id FLEXNIC_PL_FLOWHT_NBSZ\<rparr>))"

definition nicif_connection_free :: "flow_ids \<Rightarrow> u32 \<Rightarrow> flow_ids" where
  "nicif_connection_free ids f_id = flow_id_free ids f_id"

definition nicif_connection_move :: "fastpath \<Rightarrow> u32 \<Rightarrow> u32 \<Rightarrow> fastpath" where
  "nicif_connection_move st dst_db f_id = upd_flow st f_id ((flowst st f_id)\<lparr>db_id := ucast dst_db\<rparr>)"

record nicif_stats =
  c_drops :: u16
  c_acks :: u16
  c_ackb :: u32
  c_ecnb :: u32
  txp :: bool
  rtt :: u32

definition nicif_connection_stats :: "fastpath \<Rightarrow> u32 \<Rightarrow> nicif_stats option" where
  "nicif_connection_stats st f_id =
    (if \<not> unat f_id < FLEXNIC_PL_FLOWST_NUM then None
     else
       let fs = flowst st f_id in
       Some \<lparr>c_drops = cnt_tx_drops fs, c_acks = cnt_rx_acks fs, c_ackb = cnt_rx_ack_bytes fs,
             c_ecnb = cnt_rx_ecn_bytes fs, txp = (tx_sent fs \<noteq> 0), rtt = rtt_est fs\<rparr>)"

definition nicif_connection_setrate :: "fastpath \<Rightarrow> u32 \<Rightarrow> u32 \<Rightarrow> fastpath option" where
  "nicif_connection_setrate st f_id r =
    (if \<not> unat f_id < FLEXNIC_PL_FLOWST_NUM then None
     else Some (upd_flow st f_id ((flowst st f_id)\<lparr>tx_rate := r\<rparr>)))"

section \<open>Free flow ids\<close>

text \<open>The free list is a linked list of distinct valid ids.\<close>

fun linked :: "(u32 \<Rightarrow> u32 option) \<Rightarrow> u32 option \<Rightarrow> u32 list \<Rightarrow> bool" where
  "linked nxt h [] \<longleftrightarrow> h = None"
| "linked nxt h (x # xs) \<longleftrightarrow> h = Some x \<and> linked nxt (nxt x) xs"

definition ids_inv :: "flow_ids \<Rightarrow> u32 list \<Rightarrow> bool" where
  "ids_inv ids free \<longleftrightarrow> linked (items_next ids) (freelist ids) free \<and> distinct free \<and>
     (\<forall>f \<in> set free. unat f < FLEXNIC_PL_FLOWST_NUM)"

lemma linked_upd: "x \<notin> set xs \<Longrightarrow> linked (nxt(x := v)) h xs = linked nxt h xs"
  by (induction xs arbitrary: h) auto

lemma linked_upd_last: "xs \<noteq> [] \<Longrightarrow> distinct xs \<Longrightarrow> y \<notin> set xs \<Longrightarrow> linked nxt h xs \<Longrightarrow>
   linked (nxt(y := None, last xs := Some y)) h (xs @ [y])"
proof (induction xs arbitrary: h)
  case (Cons x xs)
  show ?case
  proof (cases "xs = []")
    case True
    with Cons.prems show ?thesis by auto
  next
    case False
    then have "last xs \<in> set xs"
      by simp
    then have "last xs \<noteq> x" "y \<noteq> x"
      using Cons.prems by auto
    with Cons False show ?thesis
      by auto
  qed
qed simp

lemma flow_id_alloc_inv:
  "ids_inv ids free \<Longrightarrow> flow_id_alloc ids = (case free of [] \<Rightarrow> None
     | f # fs \<Rightarrow> Some (f, ids\<lparr>freelist := items_next ids f\<rparr>))"
  by (cases free) (auto simp: ids_inv_def flow_id_alloc_def)

lemma flow_id_alloc_rest: "ids_inv ids (f # fs) \<Longrightarrow> ids_inv (ids\<lparr>freelist := items_next ids f\<rparr>) fs"
  by (auto simp: ids_inv_def)

lemma flow_id_free_inv:
  "ids_inv ids free \<Longrightarrow> unat f < FLEXNIC_PL_FLOWST_NUM \<Longrightarrow> f \<notin> set free \<Longrightarrow> ids_inv (flow_id_free ids f) (f # free)"
  by (simp add: ids_inv_def flow_id_free_def linked_upd)

text \<open>Initialisation links all ids in order.\<close>

lemma of_nat_inject_u32: "a < 4294967296 \<Longrightarrow> b < 4294967296 \<Longrightarrow> (of_nat a :: u32) = of_nat b \<longleftrightarrow> a = b"
  by (simp add: word_unat_eq_iff unat_of_nat)

lemma flow_id_init_fold:
  assumes "Suc n \<le> FLEXNIC_PL_FLOWST_NUM"
  shows "\<exists>st'. fold flow_id_init_item [0..<Suc n] (st, None) = (st', Some (of_nat n)) \<and>
     linked (items_next st') (freelist st') (map of_nat [0..<Suc n])"
  using assms
proof (induction n)
  case 0
  then show ?case
    by (simp add: flow_id_init_item_def Let_def)
next
  case (Suc n)
  then obtain st' where st': "fold flow_id_init_item [0..<Suc n] (st, None) = (st', Some (of_nat n))"
    and l: "linked (items_next st') (freelist st') (map of_nat [0..<Suc n])"
    using Suc_leD by blast
  have inj: "inj_on (of_nat :: nat \<Rightarrow> u32) {0..<Suc (Suc n)}"
    using Suc.prems by (intro inj_onI) (simp add: of_nat_inject_u32)
  have "last (map of_nat [0..<Suc n]) = (of_nat n :: u32)"
    by simp
  moreover have "distinct (map of_nat [0..<Suc n] :: u32 list)"
    using inj_on_subset [OF inj, of "{0..<Suc n}"] by (simp add: distinct_map del: upt_Suc)
  moreover have "(of_nat (Suc n) :: u32) \<notin> of_nat ` {0..<Suc n}"
    using inj_on_image_mem_iff [OF inj, of "Suc n" "{0..<Suc n}"] by auto
  ultimately have "linked ((items_next st')(of_nat (Suc n) := None, of_nat n := Some (of_nat (Suc n)))) (freelist st')
      (map of_nat [0..<Suc n] @ [of_nat (Suc n)])"
    using l linked_upd_last [of "map of_nat [0..<Suc n]" "of_nat (Suc n)" "items_next st'" "freelist st'"]
    by (simp only: set_map set_upt) auto
  moreover have "map of_nat [0..<Suc (Suc n)] = map of_nat [0..<Suc n] @ [of_nat (Suc n) :: u32]"
    by simp
  moreover have "fold flow_id_init_item [0..<Suc (Suc n)] (st, None) = flow_id_init_item (Suc n) (st', Some (of_nat n))"
    using st' by simp
  moreover have "flow_id_init_item (Suc n) (st', Some (of_nat n)) =
      (st'\<lparr>items_next := (items_next st')(of_nat (Suc n) := None, of_nat n := Some (of_nat (Suc n)))\<rparr>,
       Some (of_nat (Suc n)))"
    by (simp add: flow_id_init_item_def Let_def)
  ultimately show ?case
    by (simp only:) auto
qed

lemma flow_id_alloc_init_inv: "ids_inv (flow_id_alloc_init ids) (map of_nat [0..<FLEXNIC_PL_FLOWST_NUM])"
proof -
  have "Suc (FLEXNIC_PL_FLOWST_NUM - 1) = FLEXNIC_PL_FLOWST_NUM"
    by simp
  then have "linked (items_next (flow_id_alloc_init ids)) (freelist (flow_id_alloc_init ids))
      (map of_nat [0..<FLEXNIC_PL_FLOWST_NUM])"
    using flow_id_init_fold [of "FLEXNIC_PL_FLOWST_NUM - 1" ids] unfolding flow_id_alloc_init_def by force
  moreover have "inj_on (of_nat :: nat \<Rightarrow> u32) {0..<FLEXNIC_PL_FLOWST_NUM}"
    by (intro inj_onI) (simp add: of_nat_inject_u32)
  ultimately show ?thesis
    by (simp add: ids_inv_def distinct_map unat_of_nat)
qed

section \<open>The table as a map from four-tuples to flows\<close>

definition fs_tuple :: "flextcp_pl_flowst \<Rightarrow> beui32 \<times> beui32 \<times> beui16 \<times> beui16" where
  "fs_tuple fs = (local_ip fs, remote_ip fs, local_port fs, remote_port fs)"

definition pkt_tuple :: "pkt_tcp \<Rightarrow> beui32 \<times> beui32 \<times> beui16 \<times> beui16" where
  "pkt_tuple p = (ip_dest (ip p), ip_src (ip p), tcp_dest (tcp p), tcp_src (tcp p))"

definition conn_tuple :: "conn_params \<Rightarrow> beui32 \<times> beui32 \<times> beui16 \<times> beui16" where
  "conn_tuple c = (t_beui32 (cp_ip_local c), t_beui32 (cp_ip_remote c),
                   t_beui16 (cp_port_local c), t_beui16 (cp_port_remote c))"

definition tuple_hash :: "tuple_hash \<Rightarrow> beui32 \<times> beui32 \<times> beui16 \<times> beui16 \<Rightarrow> u32" where
  "tuple_hash crc = (\<lambda>(lip, rip, lp, rp). crc lip rip lp rp)"

text \<open>The flows that stand in the table under the hash of their own tuple.\<close>

definition registered :: "tuple_hash \<Rightarrow> fastpath \<Rightarrow> u32 \<Rightarrow> bool" where
  "registered crc st f \<longleftrightarrow> has_entry (flowht st) (tuple_hash crc (fs_tuple (flowst st f))) f"

text \<open>
  Tables the slow path has built without moving an entry: displacements are exact, a flow has
  one entry, it stands under the hash of its tuple, tuples are unique, free ids have no entry.
\<close>

definition table_ok :: "tuple_hash \<Rightarrow> fastpath \<Rightarrow> flow_ids \<Rightarrow> u32 list \<Rightarrow> bool" where
  "table_ok crc st ids free \<longleftrightarrow>
     disp_exact (flowht st) \<and> ids_inv ids free \<and>
     (\<forall>i < FLOWHT_ENTRIES. hte_valid (flowht st i) \<longrightarrow>
        hte_fid (flowht st i) \<notin> set free \<and>
        hte_flow_hash (flowht st i) = tuple_hash crc (fs_tuple (flowst st (hte_fid (flowht st i)))) \<and>
        (\<forall>k < FLOWHT_ENTRIES. hte_valid (flowht st k) \<longrightarrow>
           fs_tuple (flowst st (hte_fid (flowht st k))) = fs_tuple (flowst st (hte_fid (flowht st i))) \<longrightarrow> k = i))"

lemma flow_lookup_Some:
  "flow_lookup st h p n = Some f \<Longrightarrow> n \<le> 4 \<Longrightarrow>
     \<exists>j<4. hte_valid (flowht st (slot h j)) \<and> hte_flow_hash (flowht st (slot h j)) = h \<and>
       hte_fid (flowht st (slot h j)) = f \<and> fs_tuple (flowst st f) = pkt_tuple p"
proof (induction n)
  case (Suc n)
  let ?e = "flowht st (slot h (4 - Suc n))"
  have s: "(h + of_nat (4 - Suc n)) mod 262144 = slot h (4 - Suc n)"
    by (simp add: slot_def)
  show ?case
  proof (cases "flow_lookup st h p n = Some f")
    case False
    then have "hte_valid ?e \<and> hte_flow_hash ?e = h \<and> hte_fid ?e = f \<and> fs_tuple (flowst st f) = pkt_tuple p"
      using Suc.prems s by (auto simp: Let_def hte_valid_def hte_fid_def fs_tuple_def pkt_tuple_def split: if_splits)
    moreover have "4 - Suc n < 4"
      by simp
    ultimately show ?thesis
      by blast
  qed (use Suc in simp)
qed simp

lemma flow_lookup_None:
  "flow_lookup st h p n = None \<Longrightarrow> n \<le> 4 \<Longrightarrow> 4 - n \<le> j \<Longrightarrow> j < 4 \<Longrightarrow>
     hte_valid (flowht st (slot h j)) \<Longrightarrow> hte_flow_hash (flowht st (slot h j)) = h \<Longrightarrow>
     fs_tuple (flowst st (hte_fid (flowht st (slot h j)))) \<noteq> pkt_tuple p"
proof (induction n)
  case (Suc n)
  have s: "(h + of_nat (4 - Suc n)) mod 262144 = slot h (4 - Suc n)"
    by (simp add: slot_def)
  show ?case
  proof (cases "j = 4 - Suc n")
    case True
    then show ?thesis
      using Suc.prems s by (auto simp: Let_def hte_valid_def hte_fid_def fs_tuple_def pkt_tuple_def split: if_splits)
  next
    case False
    have "flow_lookup st h p n = None"
      using Suc.prems(1) by (auto simp: Let_def split: if_splits)
    then show ?thesis
      using Suc False by auto
  qed
qed simp

definition tuples_unique :: "tuple_hash \<Rightarrow> fastpath \<Rightarrow> bool" where
  "tuples_unique crc st \<longleftrightarrow>
     (\<forall>f g. registered crc st f \<and> registered crc st g \<and> fs_tuple (flowst st f) = fs_tuple (flowst st g) \<longrightarrow> f = g)"

lemma fss1_iff:
  assumes crc: "crc = flow_hash env" and nb: "in_neighbourhood (flowht st)" and u: "tuples_unique crc st"
  shows "fast_flows_packet_fss1 env st nbh = Some f \<longleftrightarrow>
    registered crc st f \<and> fs_tuple (flowst st f) = pkt_tuple (nb_pkt nbh)"
proof -
  let ?h = "tuple_hash crc (pkt_tuple (nb_pkt nbh))"
  have run: "fast_flows_packet_fss1 env st nbh = flow_lookup st ?h (nb_pkt nbh) 4"
    by (simp only: fast_flows_packet_fss1_def Let_def crc tuple_hash_def pkt_tuple_def prod.case)
  have Some: "registered crc st g \<and> fs_tuple (flowst st g) = pkt_tuple (nb_pkt nbh)"
    if "flow_lookup st ?h (nb_pkt nbh) 4 = Some g" for g
    using flow_lookup_Some [OF that] unfolding registered_def findable_has_entry [OF nb, symmetric] findable_def by auto
  have None: "\<not> (registered crc st g \<and> fs_tuple (flowst st g) = pkt_tuple (nb_pkt nbh))"
    if n: "flow_lookup st ?h (nb_pkt nbh) 4 = None" for g
    using flow_lookup_None [OF n] unfolding registered_def findable_has_entry [OF nb, symmetric] findable_def by auto
  show ?thesis
    unfolding run
  proof
    assume f: "registered crc st f \<and> fs_tuple (flowst st f) = pkt_tuple (nb_pkt nbh)"
    then obtain g where g: "flow_lookup st ?h (nb_pkt nbh) 4 = Some g"
      using None by (cases "flow_lookup st ?h (nb_pkt nbh) 4") auto
    with f Some [OF g] u show "flow_lookup st ?h (nb_pkt nbh) 4 = Some f"
      by (simp add: tuples_unique_def)
  qed (rule Some)
qed

lemma fss1_eqI:
  assumes "crc = flow_hash env" "in_neighbourhood (flowht st)" "tuples_unique crc st"
    and "\<And>f. a = Some f \<longleftrightarrow> registered crc st f \<and> fs_tuple (flowst st f) = pkt_tuple (nb_pkt nbh)"
  shows "fast_flows_packet_fss1 env st nbh = a"
  using fss1_iff [OF assms(1-3)] assms(4) by (metis not_None_eq)

lemma table_ok_entries:
  "table_ok crc st ids free \<Longrightarrow> i < FLOWHT_ENTRIES \<Longrightarrow> hte_valid (flowht st i) \<Longrightarrow>
     hte_fid (flowht st i) \<notin> set free \<and>
     hte_flow_hash (flowht st i) = tuple_hash crc (fs_tuple (flowst st (hte_fid (flowht st i))))"
  by (simp add: table_ok_def)

lemma table_ok_inj:
  "table_ok crc st ids free \<Longrightarrow> i < FLOWHT_ENTRIES \<Longrightarrow> k < FLOWHT_ENTRIES \<Longrightarrow>
     hte_valid (flowht st i) \<Longrightarrow> hte_valid (flowht st k) \<Longrightarrow>
     fs_tuple (flowst st (hte_fid (flowht st i))) = fs_tuple (flowst st (hte_fid (flowht st k))) \<Longrightarrow> i = k"
  by (simp add: table_ok_def)

lemma table_ok_unique:
  assumes "table_ok crc st ids free"
  shows "tuples_unique crc st"
  using table_ok_inj [OF assms] by (auto simp: tuples_unique_def registered_def has_entry_def)

lemma has_entry_upd:
  assumes "i < FLOWHT_ENTRIES" "\<not> hte_valid (ht i)" "hte_valid e"
  shows "has_entry (ht(i := e)) h f \<longleftrightarrow> has_entry ht h f \<or> (h = hte_flow_hash e \<and> f = hte_fid e)"
  using assms unfolding has_entry_def by (auto split: if_splits)

text \<open>Adding a connection, with the entry that is written.\<close>

lemma flow_id_fits: "unat f < FLEXNIC_PL_FLOWST_NUM \<Longrightarrow> f AND 0x1FFFFFFF = (f :: u32)"
proof -
  assume "unat f < FLEXNIC_PL_FLOWST_NUM"
  then have "take_bit 29 f = f"
    by (simp add: word_unat_eq_iff unsigned_take_bit_eq take_bit_nat_eq_self_iff)
  then show ?thesis
    by (simp add: take_bit_eq_mask mask_eq_exp_minus_1)
qed

lemma fs_tuple_conn [simp]: "fs_tuple (conn_flowst c fs) = conn_tuple c"
  by (simp add: fs_tuple_def conn_flowst_def conn_tuple_def)

lemma nicif_connection_add_full:
  assumes "ids_inv ids []"
  shows "nicif_connection_add crc st ids c = Some (Inr (None, st, ids))"
  using assms by (simp add: nicif_connection_add_def Let_def flow_id_alloc_inv)

lemma nicif_connection_add_cases:
  fixes c :: conn_params
  assumes ok: "table_ok crc st ids (f # free)"
  defines "h \<equiv> tuple_hash crc (conn_tuple c)"
  obtains ht' r where "flow_slot_alloc (flowht st) h = Some (Inr (ht', r))" "in_neighbourhood ht'" "has_entry ht' = has_entry (flowht st)"
    "nicif_connection_add crc st ids c = Some (Inr (case r of
       None \<Rightarrow> (None, st\<lparr>flowht := ht'\<rparr>, flow_id_free (ids\<lparr>freelist := items_next ids f\<rparr>) f)
     | Some (i, d) \<Rightarrow> (Some f, (upd_flow st f (conn_flowst c (flowst st f)))
          \<lparr>flowht := ht'(i := \<lparr>hte_flow_id = mk_flow_id d f, hte_flow_hash = h\<rparr>)\<rparr>, ids\<lparr>freelist := items_next ids f\<rparr>)))"
    "\<And>i d. r = Some (i, d) \<Longrightarrow> \<exists>e<4. i = slot h e \<and> d = of_nat e \<and> \<not> hte_valid (ht' i)"
    "(\<exists>e<4. \<not> hte_valid (flowht st (slot h e))) \<Longrightarrow> ht' = flowht st \<and> r \<noteq> None"
proof -
  have ex: "disp_exact (flowht st)" and ids: "ids_inv ids (f # free)"
    using ok by (simp_all add: table_ok_def)
  obtain ht' r where a: "flow_slot_alloc (flowht st) h = Some (Inr (ht', r))" "in_neighbourhood ht'"
    "has_entry ht' = has_entry (flowht st)"
    "\<And>i d. r = Some (i, d) \<Longrightarrow> \<exists>e<4. i = slot h e \<and> d = of_nat e \<and> \<not> hte_valid (ht' i)"
    "(\<exists>e<4. \<not> hte_valid (flowht st (slot h e))) \<Longrightarrow> ht' = flowht st \<and> r \<noteq> None"
    by (rule flow_slot_alloc_ok [OF ex, of h]) (rule that, assumption+, simp)
  have h: "nicif_flow_hash crc (t_beui32 (cp_ip_local c)) (t_beui16 (cp_port_local c)) (t_beui32 (cp_ip_remote c))
      (t_beui16 (cp_port_remote c)) = h"
    by (simp add: h_def tuple_hash_def conn_tuple_def nicif_flow_hash_def)
  have bound: "i < FLOWHT_ENTRIES \<and> d < 4" if r: "r = Some (i, d)" for i d
  proof -
    obtain e where "e < 4" "i = slot h e" "d = of_nat e"
      using a(4) [OF r] by blast
    then show ?thesis
      using slot_lt [of h e] by (simp add: word_less_nat_alt unat_of_nat)
  qed
  have "nicif_connection_add crc st ids c = Some (Inr (case r of
       None \<Rightarrow> (None, st\<lparr>flowht := ht'\<rparr>, flow_id_free (ids\<lparr>freelist := items_next ids f\<rparr>) f)
     | Some (i, d) \<Rightarrow> (Some f, (upd_flow st f (conn_flowst c (flowst st f)))
          \<lparr>flowht := ht'(i := \<lparr>hte_flow_id = mk_flow_id d f, hte_flow_hash = h\<rparr>)\<rparr>, ids\<lparr>freelist := items_next ids f\<rparr>)))"
    using bound unfolding nicif_connection_add_def Let_def h
    by (auto simp: flow_id_alloc_inv [OF ids] a(1) upd_flow_def split: option.split prod.split)
  with a show thesis
    using that by blast
qed

lemma new_entry_ok:
  assumes "unat f < FLEXNIC_PL_FLOWST_NUM" "e < 4"
  shows "hte_valid \<lparr>hte_flow_id = mk_flow_id (of_nat e) f, hte_flow_hash = h\<rparr>"
    "unat (hte_disp \<lparr>hte_flow_id = mk_flow_id (of_nat e) f, hte_flow_hash = h\<rparr>) = e"
    "hte_fid \<lparr>hte_flow_id = mk_flow_id (of_nat e) f, hte_flow_hash = h\<rparr> = f"
  using mk_flow_id_parts [of "of_nat e" f h] flow_id_fits [OF assms(1)] assms(2)
  by (simp_all add: word_less_nat_alt unat_of_nat)

lemma registered_add:
  assumes fresh: "\<And>g. \<not> has_entry (flowht st) g f"
    and he: "\<And>g k. has_entry (flowht st') g k \<longleftrightarrow> has_entry (flowht st) g k \<or> (g = tuple_hash crc (fs_tuple fs) \<and> k = f)"
    and fs: "flowst st' = (flowst st)(f := fs)"
  shows "registered crc st' k \<longleftrightarrow> registered crc st k \<or> k = f" "\<not> registered crc st f"
  using fresh by (auto simp: registered_def he fs)

lemma table_ok_insert:
  assumes ok: "table_ok crc st ids (f # free)" and e: "e < 4" "\<not> hte_valid (flowht st (slot h e))"
    and h: "h = tuple_hash crc (fs_tuple fs)" and new: "\<And>g. registered crc st g \<Longrightarrow> fs_tuple (flowst st g) \<noteq> fs_tuple fs"
  shows "table_ok crc ((upd_flow st f fs)\<lparr>flowht := (flowht st)(slot h e := \<lparr>hte_flow_id = mk_flow_id (of_nat e) f, hte_flow_hash = h\<rparr>)\<rparr>)
           (ids\<lparr>freelist := items_next ids f\<rparr>) free"
proof -
  let ?e = "\<lparr>hte_flow_id = mk_flow_id (of_nat e) f, hte_flow_hash = h\<rparr>"
  have f: "unat f < FLEXNIC_PL_FLOWST_NUM" "f \<notin> set free"
    using ok by (auto simp: table_ok_def ids_inv_def)
  note E = new_entry_ok [OF f(1) e(1), of h]
  have "disp_exact ((flowht st)(slot h e := ?e))"
    using ok e(1) E(2) by (auto simp: table_ok_def disp_exact_def slot_dist_slot)
  moreover have "ids_inv (ids\<lparr>freelist := items_next ids f\<rparr>) free"
    using ok flow_id_alloc_rest by (simp add: table_ok_def)
  moreover have "hte_fid (flowht st i) \<noteq> f" "hte_fid (flowht st i) \<notin> set free"
      "hte_flow_hash (flowht st i) = tuple_hash crc (fs_tuple (flowst st (hte_fid (flowht st i))))"
      "fs_tuple (flowst st (hte_fid (flowht st i))) \<noteq> fs_tuple fs"
    if "i < FLOWHT_ENTRIES" "hte_valid (flowht st i)" for i
    using table_ok_entries [OF ok that] new [of "hte_fid (flowht st i)"] that
    by (auto simp: registered_def has_entry_def)
  moreover note table_ok_inj [OF ok]
  ultimately show ?thesis
    using f(2) E(1,3) h unfolding table_ok_def by (simp split: if_split) metis
qed

text \<open>For the witnesses: a connection, all flow ids free, and the table with that connection in it.\<close>

definition demo_conn :: conn_params where
  "demo_conn = \<lparr>cp_db = 0, cp_mac_remote = 0, cp_ip_local = 1, cp_port_local = 80, cp_ip_remote = 2,
     cp_port_remote = 1234, cp_rx_base = 0, cp_rx_len = 2048, cp_tx_base = 4096, cp_tx_len = 2048,
     cp_remote_seq = 1000, cp_local_seq = 5000, cp_opaque = 7, cp_flags = 0, cp_rate = 10000,
     cp_flow_group = 0, cp_wscale = 0\<rparr>"

definition demo_ids :: flow_ids where
  "demo_ids = flow_id_alloc_init \<lparr>items_next = (\<lambda>_. None), freelist = None\<rparr>"

definition demo_table :: fastpath where
  "demo_table = (upd_flow demo_st 0 (conn_flowst demo_conn demo_flow))\<lparr>flowht :=
     (flowht demo_st)(slot 0 0 := \<lparr>hte_flow_id = mk_flow_id (of_nat 0) 0, hte_flow_hash = 0\<rparr>)\<rparr>"

lemma flow_ids_Cons: "map of_nat [0..<FLEXNIC_PL_FLOWST_NUM] = (0 :: u32) # map of_nat [1..<FLEXNIC_PL_FLOWST_NUM]"
  by (subst upt_conv_Cons) simp_all

lemma demo_st_empty: "\<not> hte_valid (flowht demo_st i)"
  by (simp add: demo_st_def hte_valid_def)

lemma demo_st_unregistered: "\<not> registered crc demo_st f"
  by (simp add: registered_def has_entry_def demo_st_empty)

lemma demo_st_ok: "table_ok crc demo_st demo_ids (0 # map of_nat [1..<FLEXNIC_PL_FLOWST_NUM])"
  using flow_id_alloc_init_inv unfolding flow_ids_Cons demo_ids_def
  by (simp add: table_ok_def disp_exact_def demo_st_empty)

lemma demo_hash: "tuple_hash (flow_hash demo_env) t = 0"
  by (cases t) (simp add: tuple_hash_def flow_hash_def demo_env_def)

lemma demo_table_ok:
  "table_ok (flow_hash demo_env) demo_table (demo_ids\<lparr>freelist := items_next demo_ids 0\<rparr>) (map of_nat [1..<FLEXNIC_PL_FLOWST_NUM])"
  unfolding demo_table_def by (rule table_ok_insert [OF demo_st_ok])
    (simp_all add: demo_hash demo_st_empty demo_st_unregistered)

lemma demo_table_registered: "registered (flow_hash demo_env) demo_table 0"
  unfolding registered_def demo_hash has_entry_def
  by (rule exI [of _ "slot 0 0"]) (use new_entry_ok [of 0 0 0] in \<open>simp add: demo_table_def slot_lt\<close>)

lemma nicif_connection_add_ok:
  assumes crc: "crc = flow_hash env" and ok: "table_ok crc st ids free"
    and new: "\<nexists>f. registered crc st f \<and> fs_tuple (flowst st f) = conn_tuple c"
  shows "\<exists>r st' ids'. nicif_connection_add crc st ids c = Some (Inr (r, st', ids')) \<and>
    (\<forall>nbh. fast_flows_packet_fss1 env st' nbh =
       (if r \<noteq> None \<and> pkt_tuple (nb_pkt nbh) = conn_tuple c then r else fast_flows_packet_fss1 env st nbh)) \<and>
    (case r of None \<Rightarrow> flowst st' = flowst st
     | Some f \<Rightarrow> f \<in> set free \<and> flowst st' = (flowst st)(f := conn_flowst c (flowst st f))) \<and>
    (free \<noteq> [] \<and> (\<exists>e<4. \<not> hte_valid (flowht st (slot (tuple_hash crc (conn_tuple c)) e))) \<longrightarrow>
       r = Some (hd free) \<and> table_ok crc st' ids' (tl free))"
proof (cases free)
  case Nil
  then have "ids_inv ids []"
    using ok by (simp add: table_ok_def)
  then show ?thesis
    using Nil by (simp add: nicif_connection_add_full)
next
  case (Cons f fs)
  note ok = ok [unfolded Cons]
  have nb: "in_neighbourhood (flowht st)" and u: "tuples_unique crc st"
    using ok table_ok_unique [OF ok] by (simp_all add: table_ok_def exact_in_neighbourhood)
  let ?h = "tuple_hash crc (conn_tuple c)"
  obtain ht' r where "flow_slot_alloc (flowht st) ?h = Some (Inr (ht', r))" and a: "in_neighbourhood ht'" "has_entry ht' = has_entry (flowht st)"
    "nicif_connection_add crc st ids c = Some (Inr (case r of
       None \<Rightarrow> (None, st\<lparr>flowht := ht'\<rparr>, flow_id_free (ids\<lparr>freelist := items_next ids f\<rparr>) f)
     | Some (i, d) \<Rightarrow> (Some f, (upd_flow st f (conn_flowst c (flowst st f)))
          \<lparr>flowht := ht'(i := \<lparr>hte_flow_id = mk_flow_id d f, hte_flow_hash = ?h\<rparr>)\<rparr>, ids\<lparr>freelist := items_next ids f\<rparr>)))"
    "\<And>i d. r = Some (i, d) \<Longrightarrow> \<exists>e<4. i = slot ?h e \<and> d = of_nat e \<and> \<not> hte_valid (ht' i)"
    "(\<exists>e<4. \<not> hte_valid (flowht st (slot ?h e))) \<Longrightarrow> ht' = flowht st \<and> r \<noteq> None"
    by (rule nicif_connection_add_cases [OF ok, where c = c]) (rule that)
  show ?thesis
  proof (cases r)
    case None
    let ?st = "st\<lparr>flowht := ht'\<rparr>"
    have r: "registered crc ?st = registered crc st"
      by (simp add: fun_eq_iff registered_def a(2))
    then have "fast_flows_packet_fss1 env ?st nbh = fast_flows_packet_fss1 env st nbh" for nbh
      using a(1) u fss1_iff [OF crc nb u] by (intro fss1_eqI [OF crc]) (simp_all add: tuples_unique_def)
    moreover have "\<not> (\<exists>e<4. \<not> hte_valid (flowht st (slot ?h e)))"
      using a(5) None by blast
    ultimately show ?thesis
      using a(3) None Cons by (intro exI [of _ None] exI [of _ ?st]
        exI [of _ "flow_id_free (ids\<lparr>freelist := items_next ids f\<rparr>) f"]) simp
  next
    case (Some id)
    obtain i d where id: "id = (i, d)" by (cases id)
    obtain e where e: "e < 4" "i = slot ?h e" "d = of_nat e" "\<not> hte_valid (ht' i)"
      using a(4) Some id by blast
    let ?e = "\<lparr>hte_flow_id = mk_flow_id (of_nat e) f, hte_flow_hash = ?h\<rparr>"
    let ?st = "(upd_flow st f (conn_flowst c (flowst st f)))\<lparr>flowht := ht'(i := ?e)\<rparr>"
    have f: "unat f < FLEXNIC_PL_FLOWST_NUM" and fresh: "\<not> has_entry (flowht st) g f" for g
      using ok table_ok_entries [OF ok] by (auto simp: table_ok_def ids_inv_def has_entry_def)
    note E = new_entry_ok [OF f e(1), of ?h]
    have run: "nicif_connection_add crc st ids c = Some (Inr (Some f, ?st, ids\<lparr>freelist := items_next ids f\<rparr>))"
      using a(3) Some id e(3) by simp
    have he: "has_entry (flowht ?st) g k \<longleftrightarrow> has_entry (flowht st) g k \<or> (g = tuple_hash crc (fs_tuple (conn_flowst c (flowst st f))) \<and> k = f)" for g k
      using has_entry_upd [of i ht' ?e g k] slot_lt [of ?h e] e(2,4) a(2) E(1,3) by simp
    have fst: "flowst ?st = (flowst st)(f := conn_flowst c (flowst st f))"
      by simp
    note reg = registered_add [OF fresh he fst]
    have nb': "in_neighbourhood (flowht ?st)"
      using a(1) e(1,2) by (auto simp: in_neighbourhood_def slot_dist_slot)
    have u': "tuples_unique crc ?st"
      using u new reg(2) unfolding tuples_unique_def reg(1) fst by auto
    have look: "fast_flows_packet_fss1 env ?st nbh =
        (if pkt_tuple (nb_pkt nbh) = conn_tuple c then Some f else fast_flows_packet_fss1 env st nbh)" for nbh
      by (rule fss1_eqI [OF crc nb' u'], unfold reg(1) fst) (use fss1_iff [OF crc nb u] new reg(2) in auto)
    have "table_ok crc ?st (ids\<lparr>freelist := items_next ids f\<rparr>) fs" if "\<exists>e<4. \<not> hte_valid (flowht st (slot ?h e))"
    proof -
      have h': "ht' = flowht st"
        using a(5) [OF that] by (rule conjunct1)
      have "table_ok crc ((upd_flow st f (conn_flowst c (flowst st f)))\<lparr>flowht := (flowht st)(slot ?h e := ?e)\<rparr>)
          (ids\<lparr>freelist := items_next ids f\<rparr>) fs"
        by (rule table_ok_insert [OF ok e(1)]) (use e(2,4) new h' in auto)
      then show ?thesis
        unfolding h' e(2) .
    qed
    then show ?thesis
      using run look Cons fst by (intro exI [of _ "Some f"] exI [of _ ?st] exI [of _ "ids\<lparr>freelist := items_next ids f\<rparr>"]) simp
  qed
qed

text \<open>
  C8: As long as no registration has had to move an entry of the lookup table, so that the displacement
  in every entry is the true one (\<open>table_ok\<close>), the table implements a map from four-tuples to flow ids.  Registering a connection
  whose tuple is not in use either fails and leaves every lookup of the fast path as it was,
  or returns a flow id that was free, under which the flow state is filled in, and from then
  on the fast path finds that id for packets of the tuple and what it found before for all
  others.  The loops of the slot search end and no assertion fails.  With a free id and a
  free slot in the neighbourhood it succeeds, moves no entry, and \<open>table_ok\<close> still holds.  A registration that moves an entry
  keeps the old displacement in it, and later registrations are not covered.
\<close>

theorem nicif_connection_add_map:
  assumes crc: "crc = flow_hash env" and ok: "table_ok crc st ids free"
    and new: "\<nexists>f. registered crc st f \<and> fs_tuple (flowst st f) = conn_tuple c"
  shows "\<exists>r st' ids'. nicif_connection_add crc st ids c = Some (Inr (r, st', ids')) \<and>
    (\<forall>nbh. fast_flows_packet_fss1 env st' nbh =
       (if r \<noteq> None \<and> pkt_tuple (nb_pkt nbh) = conn_tuple c then r else fast_flows_packet_fss1 env st nbh)) \<and>
    (case r of None \<Rightarrow> flowst st' = flowst st
     | Some f \<Rightarrow> f \<in> set free \<and> flowst st' = (flowst st)(f := conn_flowst c (flowst st f))) \<and>
    (free \<noteq> [] \<and> (\<exists>e<4. \<not> hte_valid (flowht st (slot (tuple_hash crc (conn_tuple c)) e))) \<longrightarrow>
       r = Some (hd free) \<and> table_ok crc st' ids' (tl free))"
  using nicif_connection_add_ok [OF assms] .

theorem nicif_connection_add_map_witness:
  "\<exists>st' ids'. nicif_connection_add (flow_hash demo_env) demo_st demo_ids demo_conn = Some (Inr (Some 0, st', ids')) \<and>
     (\<forall>nbh. fast_flows_packet_fss1 demo_env st' nbh =
        (if pkt_tuple (nb_pkt nbh) = conn_tuple demo_conn then Some 0 else fast_flows_packet_fss1 demo_env demo_st nbh))"
proof -
  let ?free = "0 # map of_nat [1..<FLEXNIC_PL_FLOWST_NUM] :: u32 list"
  have "\<exists>e<4. \<not> hte_valid (flowht demo_st (slot (tuple_hash (flow_hash demo_env) (conn_tuple demo_conn)) e))"
    by (rule exI [of _ 0]) (simp add: demo_st_empty)
  then show ?thesis
    using nicif_connection_add_map [of _ demo_env, OF refl demo_st_ok, of demo_conn] by (auto simp: demo_st_unregistered)
qed

lemma flow_slot_clear_ok:
  assumes "n \<le> 4" "\<forall>j<4 - n. \<not> (hte_valid (ht (slot h j)) \<and> hte_flow_hash (ht (slot h j)) = h \<and> hte_fid (ht (slot h j)) = f)"
    and "findable ht h f"
  shows "\<exists>j<4. hte_valid (ht (slot h j)) \<and> hte_fid (ht (slot h j)) = f \<and>
     flow_slot_clear ht h f n = ht(slot h j := (ht (slot h j))\<lparr>hte_flow_id := hte_flow_id (ht (slot h j)) AND NOT FLEXNIC_PL_FLOWHTE_VALID\<rparr>)"
  using assms
proof (induction n)
  case 0
  then show ?case by (auto simp: findable_def)
next
  case (Suc n)
  let ?k = "4 - Suc n"
  have s: "(h + of_nat ?k) mod 262144 = slot h ?k"
    by (simp add: slot_def)
  show ?case
  proof (cases "hte_valid (ht (slot h ?k)) \<and> hte_flow_hash (ht (slot h ?k)) = h \<and> hte_fid (ht (slot h ?k)) = f")
    case True
    then have "flow_slot_clear ht h f (Suc n) =
        ht(slot h ?k := (ht (slot h ?k))\<lparr>hte_flow_id := hte_flow_id (ht (slot h ?k)) AND NOT FLEXNIC_PL_FLOWHTE_VALID\<rparr>)"
      by (simp only: flow_slot_clear.simps Let_def s) simp
    moreover have "?k < 4"
      by simp
    ultimately show ?thesis
      using True by blast
  next
    case False
    have "4 - n = Suc ?k"
      using Suc.prems(1) by simp
    then have "\<exists>j<4. hte_valid (ht (slot h j)) \<and> hte_fid (ht (slot h j)) = f \<and>
     flow_slot_clear ht h f n = ht(slot h j := (ht (slot h j))\<lparr>hte_flow_id := hte_flow_id (ht (slot h j)) AND NOT FLEXNIC_PL_FLOWHTE_VALID\<rparr>)"
      using Suc False by (intro Suc.IH) (auto simp: less_Suc_eq)
    moreover have "flow_slot_clear ht h f (Suc n) = flow_slot_clear ht h f n"
      using False by (simp only: flow_slot_clear.simps Let_def s) auto
    ultimately show ?thesis
      by (simp only:)
  qed
qed

lemma cleared_invalid: "\<not> hte_valid (e\<lparr>hte_flow_id := hte_flow_id e AND NOT FLEXNIC_PL_FLOWHTE_VALID\<rparr>)"
  by (simp add: hte_valid_def and.assoc)

lemma nicif_connection_disable_state:
  assumes ok: "table_ok crc st ids free" and f: "registered crc st f"
  obtains i where "i < FLOWHT_ENTRIES" "hte_valid (flowht st i)" "hte_fid (flowht st i) = f"
    "snd (nicif_connection_disable crc st f) =
       (upd_flow st f ((flowst st f)\<lparr>rx_base_sp := rx_base_sp (flowst st f) OR FLEXNIC_PL_FLOWST_SLOWPATH\<rparr>))
         \<lparr>flowht := (flowht st)(i := (flowht st i)\<lparr>hte_flow_id := hte_flow_id (flowht st i) AND NOT FLEXNIC_PL_FLOWHTE_VALID\<rparr>)\<rparr>"
proof -
  let ?h = "tuple_hash crc (fs_tuple (flowst st f))"
  have nb: "in_neighbourhood (flowht st)"
    using ok by (simp add: table_ok_def exact_in_neighbourhood)
  have "findable (flowht st) ?h f"
    using f findable_has_entry [OF nb] by (simp add: registered_def)
  then obtain j where "hte_valid (flowht st (slot ?h j))" "hte_fid (flowht st (slot ?h j)) = f"
    "flow_slot_clear (flowht st) ?h f 4 = (flowht st)(slot ?h j := (flowht st (slot ?h j))\<lparr>hte_flow_id :=
       hte_flow_id (flowht st (slot ?h j)) AND NOT FLEXNIC_PL_FLOWHTE_VALID\<rparr>)"
    using flow_slot_clear_ok [of 4 "flowht st" ?h f] by auto
  then show thesis
    by (intro that [of "slot ?h j"])
      (simp_all add: slot_lt nicif_connection_disable_def Let_def nicif_flow_hash_def tuple_hash_def fs_tuple_def upd_flow_def)
qed

lemma nicif_connection_disable_ok:
  assumes crc: "crc = flow_hash env" and ok: "table_ok crc st ids free" and reg: "registered crc st f"
    and f: "unat f < FLEXNIC_PL_FLOWST_NUM"
  shows "case nicif_connection_disable crc st f of ((tx_seq, rx_seq, tx_closed, rx_closed), st') \<Rightarrow>
    tx_seq = tx_next_seq (flowst st f) \<and> rx_seq = rx_next_seq (flowst st f) \<and>
    fs_flag (flowst st' f) FLEXNIC_PL_FLOWST_SLOWPATH \<and>
    (\<forall>nbh. fast_flows_packet_fss1 env st' nbh =
       (if pkt_tuple (nb_pkt nbh) = fs_tuple (flowst st f) then None else fast_flows_packet_fss1 env st nbh)) \<and>
    table_ok crc st' ids free \<and> table_ok crc st' (nicif_connection_free ids f) (f # free)"
proof -
  let ?st = "snd (nicif_connection_disable crc st f)"
  obtain i where i: "i < FLOWHT_ENTRIES" "hte_valid (flowht st i)" "hte_fid (flowht st i) = f"
    and st': "?st = (upd_flow st f ((flowst st f)\<lparr>rx_base_sp := rx_base_sp (flowst st f) OR FLEXNIC_PL_FLOWST_SLOWPATH\<rparr>))
         \<lparr>flowht := (flowht st)(i := (flowht st i)\<lparr>hte_flow_id := hte_flow_id (flowht st i) AND NOT FLEXNIC_PL_FLOWHTE_VALID\<rparr>)\<rparr>"
    by (rule nicif_connection_disable_state [OF ok reg]) (rule that)
  have t: "fs_tuple (flowst ?st g) = fs_tuple (flowst st g)" for g
    unfolding st' by (simp add: fs_tuple_def)
  have e: "hte_valid (flowht ?st k) \<longleftrightarrow> hte_valid (flowht st k) \<and> k \<noteq> i" "k \<noteq> i \<Longrightarrow> flowht ?st k = flowht st k" for k
    unfolding st' using cleared_invalid [of "flowht st i"] by auto
  have other: "hte_fid (flowht st k) \<noteq> f" if "k < FLOWHT_ENTRIES" "hte_valid (flowht st k)" "k \<noteq> i" for k
    using table_ok_inj [OF ok that(1) i(1) that(2) i(2)] that(3) i(3) by auto
  have "disp_exact (flowht ?st)"
    using ok e by (auto simp: table_ok_def disp_exact_def)
  then have ok': "table_ok crc ?st ids free" and nb': "in_neighbourhood (flowht ?st)"
    using ok e exact_in_neighbourhood unfolding table_ok_def t by auto
  have free: "f \<notin> set free"
    using table_ok_entries [OF ok i(1,2)] i(3) by simp
  have ok2: "table_ok crc ?st (nicif_connection_free ids f) (f # free)"
    using ok' flow_id_free_inv [OF _ f free] other e unfolding table_ok_def nicif_connection_free_def by auto
  have r: "registered crc ?st g \<longleftrightarrow> registered crc st g \<and> g \<noteq> f" for g
    unfolding registered_def has_entry_def t using e other i(3) by metis
  have nb: "in_neighbourhood (flowht st)"
    using ok by (simp add: table_ok_def exact_in_neighbourhood)
  have u: "tuples_unique crc st"
    using ok by (rule table_ok_unique)
  have look: "fast_flows_packet_fss1 env ?st nbh =
       (if pkt_tuple (nb_pkt nbh) = fs_tuple (flowst st f) then None else fast_flows_packet_fss1 env st nbh)" for nbh
    by (rule fss1_eqI [OF crc nb' table_ok_unique [OF ok']], unfold r t)
      (use fss1_iff [OF crc nb u] u reg in \<open>auto simp: tuples_unique_def\<close>)
  have "fs_flag (flowst ?st f) FLEXNIC_PL_FLOWST_SLOWPATH"
    unfolding st' by (simp add: fs_flag_def bit.conj_disj_distrib2)
  moreover have "\<exists>a b. nicif_connection_disable crc st f = ((tx_next_seq (flowst st f), rx_next_seq (flowst st f), a, b), ?st)"
    by (simp add: nicif_connection_disable_def Let_def)
  ultimately show ?thesis
    using look ok' ok2 by auto
qed

text \<open>
  C22: Disabling a registered connection removes its tuple from the map and nothing else: the
  fast path finds no flow for packets of the tuple any more, and what it found before for all
  other packets.  The flow is marked for the slow path, the call returns its sequence numbers,
  and freeing the id afterwards makes it available again with the table in order.
\<close>

theorem nicif_connection_disable_map:
  assumes crc: "crc = flow_hash env" and ok: "table_ok crc st ids free" and reg: "registered crc st f"
    and f: "unat f < FLEXNIC_PL_FLOWST_NUM"
  shows "case nicif_connection_disable crc st f of ((tx_seq, rx_seq, tx_closed, rx_closed), st') \<Rightarrow>
    tx_seq = tx_next_seq (flowst st f) \<and> rx_seq = rx_next_seq (flowst st f) \<and>
    fs_flag (flowst st' f) FLEXNIC_PL_FLOWST_SLOWPATH \<and>
    (\<forall>nbh. fast_flows_packet_fss1 env st' nbh =
       (if pkt_tuple (nb_pkt nbh) = fs_tuple (flowst st f) then None else fast_flows_packet_fss1 env st nbh)) \<and>
    table_ok crc st' ids free \<and> table_ok crc st' (nicif_connection_free ids f) (f # free)"
  using nicif_connection_disable_ok [OF assms] .

theorem nicif_connection_disable_map_witness:
  "fast_flows_packet_fss1 demo_env (snd (nicif_connection_disable (flow_hash demo_env) demo_table 0))
     (demo_nbuf\<lparr>nb_pkt := pkt_zero\<lparr>ip := (ip pkt_zero)\<lparr>ip_dest := t_beui32 1, ip_src := t_beui32 2\<rparr>,
        tcp := (tcp pkt_zero)\<lparr>tcp_dest := t_beui16 80, tcp_src := t_beui16 1234\<rparr>\<rparr>\<rparr>) = None"
proof -
  have "fs_tuple (flowst demo_table 0) = conn_tuple demo_conn"
    by (simp add: demo_table_def)
  then show ?thesis
    using nicif_connection_disable_map [OF refl demo_table_ok demo_table_registered]
    by (simp add: pkt_tuple_def conn_tuple_def demo_conn_def split: prod.splits)
qed

section \<open>What a new flow starts with\<close>

lemma rx_mask_or: "(b :: u64) AND FLEXNIC_PL_FLOWST_RX_MASK = b \<Longrightarrow>
   (b OR FLEXNIC_PL_FLOWST_ECN) AND FLEXNIC_PL_FLOWST_RX_MASK = b"
  by (simp add: bit.conj_disj_distrib2)

lemma conn_flowst_rx_base:
  assumes "cp_rx_base c AND FLEXNIC_PL_FLOWST_RX_MASK = cp_rx_base c"
  shows "rx_base (conn_flowst c fs) = cp_rx_base c"
  using assms rx_mask_or [OF assms] by (simp add: rx_base_def conn_flowst_def)

lemma rx_mask_rxfin:
  assumes "(b :: u64) AND FLEXNIC_PL_FLOWST_RX_MASK = b"
  shows "b AND FLEXNIC_PL_FLOWST_RXFIN = 0" "(b OR FLEXNIC_PL_FLOWST_ECN) AND FLEXNIC_PL_FLOWST_RXFIN = 0"
proof -
  have "b AND FLEXNIC_PL_FLOWST_RXFIN = (b AND FLEXNIC_PL_FLOWST_RX_MASK) AND FLEXNIC_PL_FLOWST_RXFIN"
    using assms by simp
  also have "\<dots> = 0"
    by (simp only: and.assoc) simp
  finally show *: "b AND FLEXNIC_PL_FLOWST_RXFIN = 0" .
  show "(b OR FLEXNIC_PL_FLOWST_ECN) AND FLEXNIC_PL_FLOWST_RXFIN = 0"
    using * by (simp add: bit.conj_disj_distrib2)
qed

text \<open>
  C23: A flow registered with buffers inside the shared memory, the receive buffer aligned and
  shorter than 64 KiB, starts in order, up to one flaw: the send window is empty at the local sequence
  number and its invariant holds, the next expected sequence number is the remote one, but the
  out-of-order interval of the flow that had the state before is kept, so the receive side is in
  the initial state of reliable delivery exactly if that flow has left none.
\<close>

theorem conn_flowst_starts:
  assumes "cp_rx_base c AND FLEXNIC_PL_FLOWST_RX_MASK = cp_rx_base c"
    and "0 < cp_rx_len c" "unat (cp_rx_len c) < 65536" "0 < cp_tx_len c" "unat (cp_tx_len c) < 2147483648"
    and "unat (cp_tx_base c) + unat (cp_tx_len c) \<le> unat (shm_len env)"
    and "unat (cp_rx_base c) + unat (cp_rx_len c) \<le> unat (shm_len env)"
  shows "tx_inv (conn_flowst c fs) \<and> rx_inv (conn_flowst c fs) \<and>
    tx_window_of (conn_flowst c fs) = \<lparr>una = cp_local_seq c, una_pos = 0, in_flight = 0, queued = 0\<rparr> \<and>
    rx_next_seq (conn_flowst c fs) = cp_remote_seq c \<and> rx_avail (conn_flowst c fs) = cp_rx_len c \<and>
    rx_ooo_start (conn_flowst c fs) = rx_ooo_start fs \<and> rx_ooo_len (conn_flowst c fs) = rx_ooo_len fs \<and>
    (recv_reach env S (conn_flowst c fs) m (conn_flowst c fs) 0 0 \<longleftrightarrow> rx_ooo_len fs = 0)"
proof -
  have "rx_base_sp (conn_flowst c fs) AND FLEXNIC_PL_FLOWST_RXFIN = 0"
    using rx_mask_rxfin [OF assms(1)] by (simp add: conn_flowst_def)
  then have fin: "\<not> fs_flag (conn_flowst c fs) FLEXNIC_PL_FLOWST_RXFIN"
    by (simp add: fs_flag_def)
  have bufs: "bufs_ok env (conn_flowst c fs)"
    using assms conn_flowst_rx_base [OF assms(1)] by (simp add: bufs_ok_def) (simp add: conn_flowst_def)
  have ooo: "rx_ooo_len (conn_flowst c fs) = rx_ooo_len fs"
    by (simp add: conn_flowst_def)
  have "recv_reach env S (conn_flowst c fs) m (conn_flowst c fs) 0 0" if "rx_ooo_len fs = 0"
    by (rule recv_reach.init [OF _ bufs _ _ _ fin]) (use assms that in \<open>simp_all add: rx_inv_def conn_flowst_def\<close>)
  then show ?thesis
    using assms recv_reach_fresh [of env S "conn_flowst c fs"] ooo
    by (auto simp: conn_flowst_def tx_inv_def rx_inv_def tx_window_of_def)
qed

theorem conn_flowst_starts_witness:
  "tx_inv (conn_flowst demo_conn flowst_zero) \<and>
   recv_reach demo_env of_nat (conn_flowst demo_conn flowst_zero) (\<lambda>_. 0) (conn_flowst demo_conn flowst_zero) 0 0"
  using conn_flowst_starts [of demo_conn demo_env flowst_zero of_nat "\<lambda>_. 0"]
  by (simp add: demo_conn_def demo_env_def flowst_zero_def)

text \<open>
  The out-of-order interval of the flow that had the id before is not reset.  When data of
  the new connection reaches the start of a stale interval, bytes that never arrived are
  announced to the application: 10 bytes of payload advance the stream by 110.
\<close>

theorem nicif_connection_add_stale_ooo:
  "case packet_payload demo_env (\<lambda>_. 0)
       (conn_flowst demo_conn (flowst_zero\<lparr>rx_ooo_start := 1010, rx_ooo_len := 100\<rparr>)) 10 (\<lambda>_. 1) 0 of
     Inl _ \<Rightarrow> False
   | Inr (fs, m, bump) \<Rightarrow> bump = 110 \<and> rx_next_seq fs = 1110 \<and> m 9 = 1 \<and> m 50 = 0"
  by code_simp

end
