(* ===== verification/Packetmem.thy ===== *)
theory Packetmem
  imports Tas_Prelude "HOL-Library.Multiset"
begin

text \<open>
  The packet memory manager of the slow path, \<^verbatim>\<open>tas/slow/packetmem.c\<close>: a free list
  of address ranges, first-fit allocation and freeing with coalescing.  The singly
  linked list \<^verbatim>\<open>freelist\<close> is a HOL list in link order; a handle is the range it
  stands for.  \<^verbatim>\<open>ph_alloc\<close> is \<^verbatim>\<open>malloc\<close>, so whether it succeeds is an argument.
  The interface \<open>region_allocator\<close> states what the users of the allocator rely on.
\<close>

section \<open>Model\<close>

record packetmem_handle =
  ph_base :: u64
  ph_len :: u64

definition packetmem_init :: "bool \<Rightarrow> u64 \<Rightarrow> packetmem_handle list option" where
  "packetmem_init ph_alloc dma_mem_size =
    (if \<not> ph_alloc then None else Some [\<lparr>ph_base = 0, ph_len = dma_mem_size\<rparr>])"

fun packetmem_alloc ::
  "bool \<Rightarrow> u64 \<Rightarrow> packetmem_handle list \<Rightarrow> (packetmem_handle \<times> packetmem_handle list) option"
where
  "packetmem_alloc ph_alloc len [] = None"
| "packetmem_alloc ph_alloc len (ph # rest) =
    (if ph_len ph < len then
       (case packetmem_alloc ph_alloc len rest of
          None \<Rightarrow> None
        | Some (h, fl) \<Rightarrow> Some (h, ph # fl))
     else if ph_len ph = len then Some (ph, rest)
     else if \<not> ph_alloc then None
     else Some (\<lparr>ph_base = ph_base ph, ph_len = len\<rparr>,
                ph\<lparr>ph_base := ph_base ph + len, ph_len := ph_len ph - len\<rparr> # rest))"

text \<open>
  The search loop of \<^verbatim>\<open>packetmem_free\<close> as a zipper: the nodes before \<^verbatim>\<open>ph\<close> in
  reverse order (so the head is \<^verbatim>\<open>ph_prev\<close>) and the nodes from \<^verbatim>\<open>ph\<close> on.
\<close>

fun packetmem_free_walk ::
  "u64 \<Rightarrow> packetmem_handle list \<Rightarrow> packetmem_handle list
    \<Rightarrow> packetmem_handle list \<times> packetmem_handle list"
where
  "packetmem_free_walk base prevs (ph # nx # rest) =
    (if ph_base nx < base then packetmem_free_walk base (ph # prevs) (nx # rest)
     else (prevs, ph # nx # rest))"
| "packetmem_free_walk base prevs phs = (prevs, phs)"

fun merge_successor :: "packetmem_handle list \<Rightarrow> packetmem_handle list" where
  "merge_successor (ph # nx # rest) =
    (if ph_base ph + ph_len ph = ph_base nx
     then ph\<lparr>ph_len := ph_len ph + ph_len nx\<rparr> # rest
     else ph # nx # rest)"
| "merge_successor phs = phs"

fun merge_items ::
  "packetmem_handle list \<Rightarrow> packetmem_handle \<Rightarrow> packetmem_handle list \<Rightarrow> packetmem_handle list"
where
  "merge_items [] ph suc = merge_successor (ph # suc)"
| "merge_items (prev # prevs) ph suc =
    (if ph_base prev + ph_len prev = ph_base ph
     then rev prevs @ merge_successor (prev\<lparr>ph_len := ph_len prev + ph_len ph\<rparr> # suc)
     else rev (prev # prevs) @ merge_successor (ph # suc))"

definition packetmem_free ::
  "packetmem_handle \<Rightarrow> packetmem_handle list \<Rightarrow> packetmem_handle list"
where
  "packetmem_free h fl =
    (case packetmem_free_walk (ph_base h) [] fl of (prevs, suc) \<Rightarrow> merge_items prevs h suc)"

text \<open>The bytes of a handle, and how many handles of a list own a byte.\<close>

definition ph_region :: "packetmem_handle \<Rightarrow> nat set" where
  "ph_region h = {unat (ph_base h) ..< unat (ph_base h) + unat (ph_len h)}"

definition owns :: "nat \<Rightarrow> packetmem_handle \<Rightarrow> nat" where
  "owns x h = (if x \<in> ph_region h then 1 else 0)"

definition owners :: "nat \<Rightarrow> packetmem_handle list \<Rightarrow> nat" where
  "owners x hs = (\<Sum>h\<leftarrow>hs. owns x h)"

text \<open>
  The state of the allocator is the free list and, as a ghost component, the
  handles given out and not yet freed.  Every handle lies inside the memory of
  \<open>N\<close> bytes and every byte of it has exactly one owner.
\<close>

definition pm_inv :: "nat \<Rightarrow> packetmem_handle list \<Rightarrow> packetmem_handle list \<Rightarrow> bool" where
  "pm_inv N fl al \<longleftrightarrow> N < 2 ^ 64 \<and>
    (\<forall>h \<in> set (fl @ al). unat (ph_base h) + unat (ph_len h) \<le> N) \<and>
    (\<forall>x < N. owners x (fl @ al) = 1)"

inductive pm_reachable ::
  "u64 \<Rightarrow> packetmem_handle list \<Rightarrow> packetmem_handle list \<Rightarrow> bool" for sz :: u64
where
  pm_init: "packetmem_init ok sz = Some fl \<Longrightarrow> pm_reachable sz fl []"
| pm_alloc: "pm_reachable sz fl al \<Longrightarrow> packetmem_alloc ok len fl = Some (h, fl') \<Longrightarrow>
    pm_reachable sz fl' (h # al)"
| pm_free: "pm_reachable sz fl al \<Longrightarrow> h \<in> set al \<Longrightarrow>
    pm_reachable sz (packetmem_free h fl) (remove1 h al)"

section \<open>The allocator interface\<close>

locale region_allocator =
  fixes alloc :: "bool \<Rightarrow> u64 \<Rightarrow> 's \<Rightarrow> ('h \<times> 's) option"
    and free :: "'h \<Rightarrow> 's \<Rightarrow> 's"
    and region :: "'h \<Rightarrow> nat set"
    and inv :: "'s \<Rightarrow> 'h list \<Rightarrow> bool"
  assumes alloc_inv: "inv s al \<Longrightarrow> alloc ok n s = Some (h, s') \<Longrightarrow> inv s' (h # al)"
    and free_inv: "inv s (h # al) \<Longrightarrow> inv (free h s) al"
    and inv_perm: "inv s al \<Longrightarrow> mset al = mset al' \<Longrightarrow> inv s al'"
    and inv_disjoint: "inv s (h # al) \<Longrightarrow> g \<in> set al \<Longrightarrow> region h \<inter> region g = {}"
    and alloc_size: "alloc ok n s = Some (h, s') \<Longrightarrow> card (region h) = unat n"
begin

lemma free_member_inv:
  assumes "inv s al" and "h \<in> set al"
  shows "inv (free h s) (remove1 h al)"
proof -
  have "mset al = mset (h # remove1 h al)"
    using assms(2) by simp
  then have "inv s (h # remove1 h al)"
    using inv_perm [OF assms(1)] by blast
  then show ?thesis
    by (rule free_inv)
qed

lemma alloc_fresh:
  assumes "inv s al" and "alloc ok n s = Some (h, s')" and "g \<in> set al"
  shows "region h \<inter> region g = {}"
  using inv_disjoint [OF alloc_inv [OF assms(1,2)] assms(3)] .

lemma alloc_pair_disjoint:
  assumes "inv s al" and "alloc ok n s = Some (h, s')" and "alloc ok' m s' = Some (g, s'')"
  shows "region g \<inter> region h = {}" and "inv s'' (g # h # al)"
  using alloc_fresh [OF alloc_inv [OF assms(1,2)] assms(3), of h]
    alloc_inv [OF alloc_inv [OF assms(1,2)] assms(3)]
  by auto

end

section \<open>Ownership of bytes\<close>

lemma owners_Nil [simp]: "owners x [] = 0"
  by (simp add: owners_def)

lemma owners_Cons [simp]: "owners x (h # hs) = owns x h + owners x hs"
  by (simp add: owners_def)

lemma owners_append [simp]: "owners x (hs @ gs) = owners x hs + owners x gs"
  by (simp add: owners_def)

lemma owners_rev [simp]: "owners x (rev hs) = owners x hs"
  by (induction hs) simp_all

lemma owners_mset: "mset hs = mset gs \<Longrightarrow> owners x hs = owners x gs"
  unfolding owners_def by (metis mset_map sum_mset_sum_list)

lemma owners_pos: "h \<in> set hs \<Longrightarrow> x \<in> ph_region h \<Longrightarrow> 0 < owners x hs"
  by (induction hs) (auto simp: owns_def)

lemma card_ph_region: "card (ph_region h) = unat (ph_len h)"
  by (simp add: ph_region_def)

text \<open>Splitting a range and merging two adjacent ranges keep the owner of every byte.\<close>

lemma owns_split:
  assumes "len \<le> ph_len ph" and "unat (ph_base ph) + unat (ph_len ph) < 2 ^ 64"
  shows "owns x \<lparr>ph_base = ph_base ph, ph_len = len\<rparr> +
      owns x (ph\<lparr>ph_base := ph_base ph + len, ph_len := ph_len ph - len\<rparr>) = owns x ph"
    and "unat (ph_base ph + len) + unat (ph_len ph - len) = unat (ph_base ph) + unat (ph_len ph)"
    and "unat (ph_base ph) + unat len \<le> unat (ph_base ph) + unat (ph_len ph)"
  using assms by (auto simp: owns_def ph_region_def u64_arith)

lemma owns_merge:
  assumes "ph_base ph + ph_len ph = ph_base nx"
    and "unat (ph_base ph) + unat (ph_len ph) < 2 ^ 64"
    and "unat (ph_base nx) + unat (ph_len nx) < 2 ^ 64"
  shows "owns x (ph\<lparr>ph_len := ph_len ph + ph_len nx\<rparr>) = owns x ph + owns x nx"
    and "unat (ph_base ph) + unat (ph_len ph + ph_len nx) = unat (ph_base nx) + unat (ph_len nx)"
  using assms by (auto simp: owns_def ph_region_def u64_arith split: if_splits)

text \<open>The part of the invariant about one list of handles.\<close>

definition inside :: "nat \<Rightarrow> packetmem_handle list \<Rightarrow> bool" where
  "inside N hs \<longleftrightarrow> N < 2 ^ 64 \<and> (\<forall>h \<in> set hs. unat (ph_base h) + unat (ph_len h) \<le> N)"

lemma inside_simps [simp]:
  "inside N (h # hs) \<longleftrightarrow> unat (ph_base h) + unat (ph_len h) \<le> N \<and> inside N hs"
  "inside N (hs @ gs) \<longleftrightarrow> inside N hs \<and> inside N gs"
  "inside N (rev hs) \<longleftrightarrow> inside N hs"
  by (auto simp: inside_def)

lemma inside_bound: "inside N hs \<Longrightarrow> N < 2 ^ 64"
  by (simp add: inside_def)

lemma pm_inv_alt:
  "pm_inv N fl al \<longleftrightarrow> inside N (fl @ al) \<and> (\<forall>x < N. owners x (fl @ al) = 1)"
  by (auto simp: pm_inv_def inside_def)

lemma packetmem_alloc_owners:
  "packetmem_alloc ok len fl = Some (h, fl') \<Longrightarrow> inside N fl \<Longrightarrow>
    inside N (h # fl') \<and> owners x (h # fl') = owners x fl"
proof (induction ok len fl arbitrary: fl' rule: packetmem_alloc.induct)
  case (2 ok len ph rest)
  have nowrap: "unat (ph_base ph) + unat (ph_len ph) < 2 ^ 64"
    using "2.prems"(2) inside_bound [of N rest] by simp
  show ?case
  proof (cases "ph_len ph < len \<or> ph_len ph = len")
    case True
    with 2 show ?thesis by (auto split: option.splits if_splits)
  next
    case False
    then have "len \<le> ph_len ph" by (simp add: u64_arith)
    from owns_split [OF this nowrap] False "2.prems" show ?thesis
      by (auto split: if_splits)
  qed
qed simp

lemma packetmem_free_walk_parts:
  "packetmem_free_walk b prevs fl = (prevs', suc) \<Longrightarrow> rev prevs' @ suc = rev prevs @ fl"
  by (induction b prevs fl rule: packetmem_free_walk.induct) (auto split: if_splits)

lemma merge_successor_owners:
  "inside N phs \<Longrightarrow>
    inside N (merge_successor phs) \<and> owners x (merge_successor phs) = owners x phs"
proof (induction phs rule: merge_successor.induct)
  case (1 ph nx rest)
  then show ?case
    using owns_merge(1) [of ph nx x] owns_merge(2) [of ph nx] inside_bound [of N rest] by simp
qed simp_all

lemma merge_items_owners:
  assumes "inside N (rev prevs @ h # suc)"
  shows "inside N (merge_items prevs h suc) \<and>
    owners x (merge_items prevs h suc) = owners x (rev prevs @ h # suc)"
proof (cases prevs)
  case Nil
  with assms show ?thesis
    using merge_successor_owners [of N "h # suc" x] by simp
next
  case (Cons p ps)
  show ?thesis
  proof (cases "ph_base p + ph_len p = ph_base h")
    case True
    note merge = owns_merge(1) [OF True, of x] owns_merge(2) [OF True]
    have "inside N (p\<lparr>ph_len := ph_len p + ph_len h\<rparr> # suc)"
      using assms Cons merge inside_bound [of N ps] by simp
    from merge_successor_owners [OF this, of x] show ?thesis
      using assms Cons True merge inside_bound [of N ps] by simp
  next
    case False
    with assms Cons show ?thesis
      using merge_successor_owners [of N "h # suc" x] by simp
  qed
qed

lemma packetmem_free_owners:
  assumes "inside N (h # fl)"
  shows "inside N (packetmem_free h fl) \<and> owners x (packetmem_free h fl) = owners x (h # fl)"
proof -
  obtain prevs suc where walk: "packetmem_free_walk (ph_base h) [] fl = (prevs, suc)"
    by fastforce
  then have fl: "fl = rev prevs @ suc"
    using packetmem_free_walk_parts by fastforce
  with assms have "inside N (rev prevs @ h # suc)"
    by simp
  from merge_items_owners [OF this, of x] show ?thesis
    by (simp add: packetmem_free_def walk) (simp add: fl)
qed

lemma pm_inv_alloc:
  assumes "pm_inv N fl al" and "packetmem_alloc ok len fl = Some (h, fl')"
  shows "pm_inv N fl' (h # al)"
  using assms(1) packetmem_alloc_owners [OF assms(2), of N]
  by (auto simp: pm_inv_alt) (metis add.assoc add.commute)

lemma pm_inv_free: "pm_inv N fl (h # al) \<Longrightarrow> pm_inv N (packetmem_free h fl) al"
  using packetmem_free_owners [of N h fl] by (auto simp: pm_inv_alt)

lemma pm_inv_perm: "pm_inv N fl al \<Longrightarrow> mset al = mset al' \<Longrightarrow> pm_inv N fl al'"
  using owners_mset [of al al'] mset_eq_setD [of al al'] by (auto simp: pm_inv_def)

lemma pm_inv_disjoint:
  assumes "pm_inv N fl (h # al)" and "g \<in> set al"
  shows "ph_region h \<inter> ph_region g = {}"
proof (rule ccontr)
  assume "ph_region h \<inter> ph_region g \<noteq> {}"
  then obtain x where x: "x \<in> ph_region h" "x \<in> ph_region g"
    by blast
  have "x < N"
    using x(1) assms(1) by (auto simp: pm_inv_def ph_region_def)
  then have "owners x (fl @ h # al) = 1"
    using assms(1) by (simp add: pm_inv_def)
  with x(1) owners_pos [OF assms(2) x(2)] show False
    by (simp add: owns_def)
qed

lemma packetmem_alloc_len: "packetmem_alloc ok len fl = Some (h, fl') \<Longrightarrow> ph_len h = len"
  by (induction ok len fl arbitrary: fl' rule: packetmem_alloc.induct)
    (auto split: if_splits option.splits)

interpretation pm: region_allocator packetmem_alloc packetmem_free ph_region "pm_inv N"
  for N :: nat
  by unfold_locales
    (auto intro: pm_inv_alloc pm_inv_free pm_inv_perm simp: card_ph_region packetmem_alloc_len
      dest: pm_inv_disjoint)

section \<open>Properties\<close>

lemma packetmem_init_inv: "packetmem_init ok sz = Some fl \<Longrightarrow> pm_inv (unat sz) fl []"
  using unat_u64_bound [of sz]
  by (auto simp: packetmem_init_def pm_inv_def owns_def ph_region_def split: if_splits)

text \<open>
  C37: In every state the allocator can reach from \<^verbatim>\<open>packetmem_init\<close> by allocating and
  by freeing handles that are outstanding, each byte of the DMA memory belongs to
  exactly one handle, free or outstanding, and no handle leaves the memory: nothing
  is given out twice and nothing is lost.
\<close>

theorem packetmem_reachable_inv:
  assumes "pm_reachable sz fl al"
  shows "pm_inv (unat sz) fl al"
  using assms
proof (induction rule: pm_reachable.induct)
  case (pm_init ok fl)
  then show ?case by (rule packetmem_init_inv)
next
  case (pm_alloc fl al ok len h fl')
  then show ?case by (blast intro: pm.alloc_inv)
next
  case (pm_free fl al h)
  then show ?case by (blast intro: pm.free_member_inv)
qed

text \<open>The witness runs one allocation from a fresh memory of 100 bytes.\<close>

theorem packetmem_reachable_inv_witness:
  "pm_inv 100 [\<lparr>ph_base = 40, ph_len = 60\<rparr>] [\<lparr>ph_base = 0, ph_len = 40\<rparr>]"
proof -
  have "pm_reachable 100 [\<lparr>ph_base = 0, ph_len = 100\<rparr>] []"
    by (rule pm_init [where ok = True]) (simp add: packetmem_init_def)
  then have "pm_reachable 100 [\<lparr>ph_base = 40, ph_len = 60\<rparr>] [\<lparr>ph_base = 0, ph_len = 40\<rparr>]"
    by (rule pm_alloc [where ok = True and len = 40]) simp
  from packetmem_reachable_inv [OF this] show ?thesis
    by simp
qed

text \<open>
  Allocation is first fit on every branch: with no free range of at least the
  requested length it fails; otherwise it returns exactly the requested length at the
  start of the first range that is long enough, and it fails there only when that
  range has to be split and the handle for the second part cannot be allocated.
\<close>

theorem packetmem_alloc_first_fit:
  "case find (\<lambda>ph. len \<le> ph_len ph) fl of
     None \<Rightarrow> packetmem_alloc ok len fl = None
   | Some ph \<Rightarrow>
       if ph_len ph = len \<or> ok
       then map_option fst (packetmem_alloc ok len fl) = Some \<lparr>ph_base = ph_base ph, ph_len = len\<rparr>
       else packetmem_alloc ok len fl = None"
proof (induction ok len fl rule: packetmem_alloc.induct)
  case (2 ok len ph rest)
  show ?case
  proof (cases "ph_len ph < len")
    case True
    with 2 show ?thesis
      by (auto split: option.splits if_splits simp: u64_arith)
  next
    case False
    then show ?thesis
      by (auto simp: u64_arith)
  qed
qed simp

text \<open>
  Two buffers allocated one after the other, as \<^verbatim>\<open>conn_alloc\<close> does for the receive
  and the transmit buffer of a connection, have the requested sizes, lie inside the
  memory and share no byte with each other or with any buffer already given out.
\<close>

theorem packetmem_alloc_pair:
  assumes reach: "pm_reachable sz fl al"
    and rx: "packetmem_alloc ok rxlen fl = Some (rxh, fl1)"
    and tx: "packetmem_alloc ok' txlen fl1 = Some (txh, fl2)"
  shows "card (ph_region rxh) = unat rxlen \<and> card (ph_region txh) = unat txlen \<and>
    ph_region rxh \<union> ph_region txh \<subseteq> {0 ..< unat sz} \<and> ph_region txh \<inter> ph_region rxh = {} \<and>
    (\<forall>g \<in> set al. ph_region g \<inter> (ph_region rxh \<union> ph_region txh) = {})"
proof -
  have inv0: "pm_inv (unat sz) fl al"
    using reach
    by (induction rule: pm_reachable.induct)
      (blast intro: packetmem_init_inv pm.alloc_inv pm.free_member_inv)+
  note inv1 = pm.alloc_inv [OF inv0 rx]
  note inv2 = pm.alloc_pair_disjoint [OF inv0 rx tx]
  have "ph_region rxh \<union> ph_region txh \<subseteq> {0 ..< unat sz}"
    using inv2(2) by (auto simp: pm_inv_def ph_region_def)
  moreover have "\<forall>g \<in> set al. ph_region g \<inter> (ph_region rxh \<union> ph_region txh) = {}"
    using pm.alloc_fresh [OF inv0 rx] pm.alloc_fresh [OF inv1 tx] by fastforce
  ultimately show ?thesis
    using inv2(1) pm.alloc_size [OF rx] pm.alloc_size [OF tx] by blast
qed

theorem packetmem_alloc_pair_witness:
  "ph_region \<lparr>ph_base = 40, ph_len = 60\<rparr> \<inter> ph_region \<lparr>ph_base = 0, ph_len = 40\<rparr> = {}"
proof -
  have "pm_reachable 100 [\<lparr>ph_base = 0, ph_len = 100\<rparr>] []"
    by (rule pm_init [where ok = True]) (simp add: packetmem_init_def)
  from packetmem_alloc_pair [OF this, of True 40 "\<lparr>ph_base = 0, ph_len = 40\<rparr>"
      "[\<lparr>ph_base = 40, ph_len = 60\<rparr>]" False 60 "\<lparr>ph_base = 40, ph_len = 60\<rparr>" "[]"]
  show ?thesis by simp
qed

text \<open>
  Freeing does not always coalesce: \<^verbatim>\<open>packetmem_free\<close> stops one node late and links
  the handle in front of its predecessor.  There is a reachable state in which the
  first 20 bytes are all free and an allocation of 20 bytes still fails.
\<close>

theorem packetmem_free_fragments:
  "\<exists>fl al. pm_reachable 40 fl al \<and> {0 ..< 20} \<subseteq> \<Union> (ph_region ` set fl) \<and>
     packetmem_alloc True 20 fl = None"
proof -
  let ?a = "\<lparr>ph_base = 0, ph_len = 10\<rparr>" and ?b = "\<lparr>ph_base = 10, ph_len = 10\<rparr>"
    and ?c = "\<lparr>ph_base = 20, ph_len = 20\<rparr>"
  have "pm_reachable 40 [\<lparr>ph_base = 0, ph_len = 40\<rparr>] []"
    by (rule pm_init [where ok = True]) (simp add: packetmem_init_def)
  then have "pm_reachable 40 [\<lparr>ph_base = 10, ph_len = 30\<rparr>] [?a]"
    by (rule pm_alloc [where ok = True and len = 10]) simp
  then have "pm_reachable 40 [?c] [?b, ?a]"
    by (rule pm_alloc [where ok = True and len = 10]) simp
  then have "pm_reachable 40 [] [?c, ?b, ?a]"
    by (rule pm_alloc [where ok = True and len = 20]) simp
  from pm_free [OF this, of ?a] have "pm_reachable 40 [?a] [?c, ?b]"
    by (simp add: packetmem_free_def)
  from pm_free [OF this, of ?b] have "pm_reachable 40 [?b, ?a] [?c]"
    by (simp add: packetmem_free_def)
  moreover have "{0 ..< 20} \<subseteq> \<Union> (ph_region ` set [?b, ?a])"
    by (auto simp: ph_region_def)
  moreover have "packetmem_alloc True 20 [?b, ?a] = None"
    by simp
  ultimately show ?thesis by blast
qed

end
