(* ===== verification/Kernel_Queues.thy ===== *)
theory Kernel_Queues
  imports Shm_Queues Notify Nicif Packetmem
begin

text \<open>
  The queues between slow path and fast path: the kernel transmit queue carries packets and
  retransmission requests from \<^verbatim>\<open>tas/slow/nicif.c\<close> to \<^verbatim>\<open>tas/fast/fast_kernel.c\<close>, the kernel
  receive queue packets the other way.  The slow path counts entries, the fast path bytes.
  What \<^verbatim>\<open>process_packet\<close> hands to the ARP, TCP and KNI code is its result.
\<close>

unbundle bit_operations_syntax

section \<open>State\<close>

text \<open>Registers of a context, for kernel and application queues.\<close>

record flextcp_pl_appctx =
  ac_rx_base :: u64
  ac_tx_base :: u64
  ac_rx_len :: u32
  ac_tx_len :: u32
  ac_appst_id :: u32
  ac_evfd :: int
  ac_last_ts :: u64
  ac_rx_head :: u32
  ac_tx_head :: u32
  ac_rx_avail :: u32

record flextcp_pl_appst =
  ctx_num :: u16
  ctx_ids :: "u16 \<Rightarrow> u16"

text \<open>
  One fast path core with the shared registers, then the variables of \<^verbatim>\<open>nicif.c\<close>.  A
  \<^verbatim>\<open>struct nic_buffer\<close> is the address of its buffer in the shared memory.
\<close>

record tas =
  fp :: fastpath
  kctx :: "u16 \<Rightarrow> flextcp_pl_appctx"
  appctx :: "u16 \<Rightarrow> u32 \<Rightarrow> flextcp_pl_appctx"
  appst :: "u16 \<Rightarrow> flextcp_pl_appst"
  kernel_drop :: u64
  sp_last_ts :: u64
  evfd_writes :: "int list"
  fn_cores :: u32
  rxq_bufs :: "u32 \<Rightarrow> u32 \<Rightarrow> u64"
  rxq_base :: "u32 \<Rightarrow> u64"
  rxq_len :: u32
  rxq_tail :: "u32 \<Rightarrow> u32"
  rxq_next :: u32
  txq_bufs :: "u32 \<Rightarrow> u32 \<Rightarrow> u64"
  txq_base :: "u32 \<Rightarrow> u64"
  txq_len :: u32
  txq_tail :: "u32 \<Rightarrow> u32"

record tas_env =
  fpe :: fp_env
  poll_cycle_tas :: u64
  poll_cycle_app :: u64
  kernel_notifyfd :: int
  evfd_write_ok :: bool
  rss_reta_size :: u16

abbreviation shm :: "tas \<Rightarrow> mem" where "shm st \<equiv> fp_shm (fp st)"

definition set_shm :: "tas \<Rightarrow> mem \<Rightarrow> tas" where
  "set_shm st m = st\<lparr>fp := (fp st)\<lparr>fp_shm := m\<rparr>\<rparr>"

abbreviation (input) FLEXTCP_PL_KTX_PACKET :: u8 where "FLEXTCP_PL_KTX_PACKET \<equiv> 1"
abbreviation (input) FLEXTCP_PL_KTX_CONNRETRAN :: u8 where "FLEXTCP_PL_KTX_CONNRETRAN \<equiv> 2"
abbreviation (input) FLEXTCP_PL_KTX_PACKET_NOTS :: u8 where "FLEXTCP_PL_KTX_PACKET_NOTS \<equiv> 3"
abbreviation (input) FLEXTCP_PL_KRX_PACKET :: u8 where "FLEXTCP_PL_KRX_PACKET \<equiv> 1"
abbreviation (input) ETH_TYPE_ARP :: u16 where "ETH_TYPE_ARP \<equiv> 0x0806"
abbreviation (input) PKTBUF_SIZE :: u64 where "PKTBUF_SIZE \<equiv> 1536"

section \<open>Notifications\<close>

definition notify_fastpath_core :: "tas_env \<Rightarrow> u64 \<Rightarrow> tas \<Rightarrow> u16 \<Rightarrow> tas result" where
  "notify_fastpath_core env tsc st core =
    (let kc = kctx st core in
     bind_res (notify_core (evfd_write_ok env) (ac_evfd kc) (ac_last_ts kc) tsc (poll_cycle_tas env)) (\<lambda>(w, l).
     Inr (st\<lparr>kctx := (kctx st)(core := kc\<lparr>ac_last_ts := l\<rparr>), evfd_writes := evfd_writes st @ w\<rparr>)))"

definition notify_appctx :: "tas_env \<Rightarrow> u64 \<Rightarrow> tas \<Rightarrow> u16 \<Rightarrow> u32 \<Rightarrow> tas result" where
  "notify_appctx env tsc st core ctx =
    (let ac = appctx st core ctx in
     bind_res (notify_core (evfd_write_ok env) (ac_evfd ac) (ac_last_ts ac) tsc (poll_cycle_app env)) (\<lambda>(w, l).
     Inr (st\<lparr>appctx := (appctx st)(core := (appctx st core)(ctx := ac\<lparr>ac_last_ts := l\<rparr>)),
             evfd_writes := evfd_writes st @ w\<rparr>)))"

definition notify_slowpath_core :: "tas_env \<Rightarrow> u64 \<Rightarrow> tas \<Rightarrow> tas result" where
  "notify_slowpath_core env tsc st =
    bind_res (notify_core (evfd_write_ok env) (kernel_notifyfd env) (sp_last_ts st) tsc (poll_cycle_tas env)) (\<lambda>(w, l).
    Inr (st\<lparr>sp_last_ts := l, evfd_writes := evfd_writes st @ w\<rparr>))"

section \<open>Kernel transmit queue: slow path\<close>

text \<open>
  The entry, the position it has, and the new tail.  The tail wraps at \<^verbatim>\<open>rxq_len\<close>, the length
  of the receive queue.
\<close>

definition ktx_try_alloc :: "tas \<Rightarrow> u32 \<Rightarrow> (u64 \<times> u32 \<times> u32) option" where
  "ktx_try_alloc st core =
    (let tail = txq_tail st core; ktx = entry_addr 64 (txq_base st core) (unat tail) in
     if mem_view (shm st) ktx 63 \<noteq> 0 then None
     else Some (ktx, tail, if tail + 1 = rxq_len st then tail + 1 - rxq_len st else tail + 1))"

definition nicif_connection_retransmit :: "tas_env \<Rightarrow> u64 \<Rightarrow> tas \<Rightarrow> u32 \<Rightarrow> u16 \<Rightarrow> (int \<times> tas) result" where
  "nicif_connection_retransmit env tsc st f_id grp =
    (let core = ucast (flow_group_steering (fp st) grp) :: u16 in
     case ktx_try_alloc st (ucast core) of
       None \<Rightarrow> Inr (-1, st)
     | Some (ktx, _, tail) \<Rightarrow>
         let st = st\<lparr>txq_tail := (txq_tail st)(ucast core := tail)\<rparr>;
             st = set_shm st (mem_put (shm st) ktx 0 (u32_bytes f_id));
             st = set_shm st (mem_put (shm st) ktx 63 [FLEXTCP_PL_KTX_CONNRETRAN]) in
         bind_res (notify_fastpath_core env tsc st core) (\<lambda>st. Inr (0, st)))"

text \<open>The buffer and the new tail, which the caller hands back when it sends.\<close>

definition nicif_tx_alloc :: "tas \<Rightarrow> u16 \<Rightarrow> ((u64 \<times> u32) option \<times> tas) result" where
  "nicif_tx_alloc st len =
    (case ktx_try_alloc st 0 of
       None \<Rightarrow> Inr (None, st)
     | Some (ktx, i, opq) \<Rightarrow>
         if \<not> i < txq_len st then Inl Out_Of_Bounds
         else
           let addr = txq_bufs st 0 i;
               st = set_shm st (mem_put (shm st) ktx 0 (u64_bytes addr));
               st = set_shm st (mem_put (shm st) ktx 8 (u16_bytes len)) in
           Inr (Some (addr, opq), st))"

definition nicif_tx_send :: "tas_env \<Rightarrow> u64 \<Rightarrow> tas \<Rightarrow> u32 \<Rightarrow> bool \<Rightarrow> tas result" where
  "nicif_tx_send env tsc st opq no_ts =
    (let tail = (if opq = 0 then txq_len st - 1 else opq - 1);
         ktx = entry_addr 64 (txq_base st 0) (unat tail);
         st = set_shm st (mem_put (shm st) ktx 63
                [if no_ts then FLEXTCP_PL_KTX_PACKET_NOTS else FLEXTCP_PL_KTX_PACKET]);
         st = st\<lparr>txq_tail := (txq_tail st)(0 := opq)\<rparr> in
     notify_fastpath_core env tsc st 0)"

section \<open>Kernel transmit queue: fast path\<close>

text \<open>The packet and its buffer, which gets the offload fields of the checksums.\<close>

definition inject_tcp_ts :: "fp_env \<Rightarrow> pkt_tcp \<Rightarrow> u16 \<Rightarrow> u32 \<Rightarrow> nbuf \<Rightarrow> (pkt_tcp \<times> nbuf) option" where
  "inject_tcp_ts env p len ts nbh =
    (if unat len < sizeof_pkt_tcp \<or> f_beui16 (eth_type (eth p)) \<noteq> ETH_TYPE_IP \<or> proto (ip p) \<noteq> IP_PROTO_TCP
     then Some (p, nbh)
     else
       case tcp_parse_options p len of
         None \<Rightarrow> None
       | Some (Inl _) \<Rightarrow> Some (p, nbh)
       | Some (Inr opts) \<Rightarrow>
           (case opts_ts opts of
              None \<Rightarrow> Some (p, nbh)
            | Some ts_opt \<Rightarrow>
                Some (fast_flows_kernelxsums env nbh (p\<lparr>rest := put_beui32 (rest p) (ts_opt + 2) (t_beui32 ts)\<rparr>))))"

text \<open>Reading the packet of an entry into the network buffer.\<close>

definition ktx_packet :: "fp_env \<Rightarrow> mem \<Rightarrow> u64 \<Rightarrow> nbuf \<Rightarrow> (u16 \<times> pkt_tcp) result" where
  "ktx_packet env m ktx nbh =
    (let len = get_u16 (mem_view m ktx) 8 in
     bind_res (dma_read (shm_len env) m (get_u64 (mem_view m ktx) 0) (ucast len) (bytes_of_pkt (nb_pkt nbh)) 0)
       (\<lambda>b. Inr (len, pkt_of_bytes b)))"

definition ktx_handle :: "fp_env \<Rightarrow> fastpath \<Rightarrow> u64 \<Rightarrow> nbuf \<Rightarrow> u32 \<Rightarrow> (int \<times> fastpath) run" where
  "ktx_handle env st ktx nbh ts =
    (let m = fp_shm st; type = mem_view m ktx 63 in
     if type = FLEXTCP_PL_KTX_PACKET then
       bind_run (Some (ktx_packet env m ktx nbh)) (\<lambda>(len, p).
       case inject_tcp_ts env p len ts nbh of
         None \<Rightarrow> None
       | Some (p, nbh) \<Rightarrow> Some (bind_res (tx_send st (nbh\<lparr>nb_pkt := p\<rparr>) 0 len) (\<lambda>st. Inr (0, st))))
     else if type = FLEXTCP_PL_KTX_PACKET_NOTS then
       bind_run (Some (ktx_packet env m ktx nbh)) (\<lambda>(len, p).
       Some (bind_res (tx_send st (nbh\<lparr>nb_pkt := p\<rparr>) 0 len) (\<lambda>st. Inr (0, st))))
     else if type = FLEXTCP_PL_KTX_CONNRETRAN then
       let flow_id = get_u32 (mem_view m ktx) 0 in
       if unat flow_id \<ge> FLEXNIC_PL_FLOWST_NUM then Some (Inl Abort)
       else bind_run (fast_flows_retransmit st flow_id) (\<lambda>st. Some (Inr (1, st)))
     else Some (Inl Abort))"

definition fast_kernel_poll :: "tas_env \<Rightarrow> tas \<Rightarrow> nbuf \<Rightarrow> u32 \<Rightarrow> (int \<times> tas) run" where
  "fast_kernel_poll env st nbh ts =
    (let core = core_id (fp st); kc = kctx st core in
     if ac_tx_len kc = 0 then Some (Inr (-1, st))
     else
       bind_run (Some (dma_pointer (shm_len (fpe env)) (ac_tx_base kc + ucast (ac_tx_head kc)) 64)) (\<lambda>ktx.
       if mem_view (shm st) ktx 63 = 0 then Some (Inr (-1, st))
       else
         bind_run (ktx_handle (fpe env) (fp st) ktx nbh ts) (\<lambda>(ret, f).
         let st = st\<lparr>fp := f\<lparr>fp_shm := mem_put (fp_shm f) ktx 63 [0]\<rparr>\<rparr>;
             hd = ac_tx_head kc + 64;
             hd = (if hd \<ge> ac_tx_len kc then hd - ac_tx_len kc else hd) in
         Some (Inr (ret, st\<lparr>kctx := (kctx st)(core := kc\<lparr>ac_tx_head := hd\<rparr>)\<rparr>)))))"

section \<open>Kernel receive queue\<close>

text \<open>\<open>rss\<close> is the hash the card has put into the buffer, if any.\<close>

definition network_buf_flowgroup :: "tas_env \<Rightarrow> u32 option \<Rightarrow> u16" where
  "network_buf_flowgroup env rss =
    (case rss of None \<Rightarrow> 0 | Some h \<Rightarrow> ucast (h AND ucast (rss_reta_size env - 1)))"

definition fast_kernel_packet :: "tas_env \<Rightarrow> u64 \<Rightarrow> tas \<Rightarrow> nbuf \<Rightarrow> u32 option \<Rightarrow> tas result" where
  "fast_kernel_packet env tsc st nbh rss =
    (let core = core_id (fp st); kc = kctx st core in
     if ac_rx_len kc = 0 then Inr st
     else
       bind_res (dma_pointer (shm_len (fpe env)) (ac_rx_base kc + ucast (ac_rx_head kc)) 64) (\<lambda>krx.
       if mem_view (shm st) krx 63 \<noteq> 0 then Inr (st\<lparr>kernel_drop := kernel_drop st + 1\<rparr>)
       else
         let hd = ac_rx_head kc + 64;
             hd = (if hd \<ge> ac_rx_len kc then hd - ac_rx_len kc else hd);
             st = st\<lparr>kctx := (kctx st)(core := kc\<lparr>ac_rx_head := hd\<rparr>)\<rparr>;
             len = nb_len nbh in
         bind_res (dma_write (shm_len (fpe env)) (shm st) (get_u64 (mem_view (shm st) krx) 0) (ucast len)
                     (bytes_of_pkt (nb_pkt nbh)) 0) (\<lambda>m.
         let m = mem_put m krx 12 (u16_bytes (network_buf_flowgroup env rss));
             m = mem_put m krx 8 (u16_bytes len);
             m = mem_put m krx 10 (u16_bytes core);
             m = mem_put m krx 63 [FLEXTCP_PL_KRX_PACKET] in
         notify_slowpath_core env tsc (set_shm st m))))"

text \<open>The calls \<^verbatim>\<open>process_packet\<close> makes; \<open>tcp_ret\<close> is the return value of \<^verbatim>\<open>tcp_packet\<close>.\<close>

datatype slow_call =
    Arp_Packet buf u16
  | Tcp_Packet buf u16 u32 u16
  | Kni_Packet buf u16

definition process_packet :: "int \<Rightarrow> buf \<Rightarrow> u16 \<Rightarrow> u32 \<Rightarrow> u16 \<Rightarrow> slow_call list" where
  "process_packet tcp_ret b len fn_core grp =
    (let p = pkt_of_bytes b in
     if f_beui16 (eth_type (eth p)) = ETH_TYPE_ARP then
       if unat len < 42 then [] else [Arp_Packet b len, Kni_Packet b len]
     else if f_beui16 (eth_type (eth p)) = ETH_TYPE_IP then
       if unat len < 34 then []
       else if proto (ip p) = IP_PROTO_TCP then
         if unat len < 54 then []
         else Tcp_Packet b len fn_core grp # (if tcp_ret \<noteq> 0 then [Kni_Packet b len] else [])
       else [Kni_Packet b len]
     else [Kni_Packet b len])"

definition rxq_poll :: "tas \<Rightarrow> (buf \<Rightarrow> int) \<Rightarrow> (int \<times> slow_call list \<times> tas) result" where
  "rxq_poll st tcp_ret =
    (let core = rxq_next st; tail = rxq_tail st core;
         krx = entry_addr 64 (rxq_base st core) (unat tail) in
     if fn_cores st = 0 then Inl Div_By_Zero
     else
       let st = st\<lparr>rxq_next := (core + 1) mod fn_cores st\<rparr>; b = mem_view (shm st) krx; type = b 63 in
       if type = 0 then Inr (-1, [], st)
       else if type = FLEXTCP_PL_KRX_PACKET \<and> \<not> tail < rxq_len st then Inl Out_Of_Bounds
       else
         let new_tail = (if tail + 1 = rxq_len st then tail + 1 - rxq_len st else tail + 1);
             pkt = mem_view (shm st) (rxq_bufs st core tail);
             calls = (if type = FLEXTCP_PL_KRX_PACKET
                      then process_packet (tcp_ret pkt) pkt (get_u16 b 8) (ucast (get_u16 b 10)) (get_u16 b 12)
                      else []);
             st = set_shm st (mem_put (shm st) krx 63 [0]) in
         Inr (0, calls, st\<lparr>rxq_tail := (rxq_tail st)(core := new_tail)\<rparr>))"

text \<open>\<^verbatim>\<open>nicif_poll\<close> makes 512 polls and counts the successful ones.\<close>

fun nicif_poll_loop :: "nat \<Rightarrow> (buf \<Rightarrow> int) \<Rightarrow> tas \<Rightarrow> (u32 \<times> slow_call list \<times> tas) result" where
  "nicif_poll_loop 0 tcp_ret st = Inr (0, [], st)"
| "nicif_poll_loop (Suc n) tcp_ret st =
    bind_res (rxq_poll st tcp_ret) (\<lambda>(x, c, st).
    bind_res (nicif_poll_loop n tcp_ret st) (\<lambda>(ret, cs, st).
    Inr ((if x = -1 then 0 else 1) + ret, c @ cs, st)))"

definition nicif_poll :: "(buf \<Rightarrow> int) \<Rightarrow> tas \<Rightarrow> (u32 \<times> slow_call list \<times> tas) result" where
  "nicif_poll = nicif_poll_loop 512"

section \<open>Initialisation\<close>

definition mem_set :: "mem \<Rightarrow> u64 \<Rightarrow> u64 \<Rightarrow> u8 \<Rightarrow> mem" where
  "mem_set m a n v = (\<lambda>x. if unat (x - a) < unat n then v else m x)"

text \<open>
  Setting up the queues of one core: \<open>al k\<close> says whether the \<open>k\<close>-th allocation from the heap
  succeeds; the first two are the buffer arrays, the others the handles of the packet memory.
  The result says whether all went well.
\<close>

definition adminq_init_core ::
  "(nat \<Rightarrow> bool) \<Rightarrow> u64 \<Rightarrow> u64 \<Rightarrow> u16 \<Rightarrow> tas \<Rightarrow> packetmem_handle list \<Rightarrow> bool \<times> tas \<times> packetmem_handle list"
where
  "adminq_init_core al nic_rx_len nic_tx_len core st fl =
    (if \<not> al 0 \<or> \<not> al 1 then (False, st, fl)
     else
       let sz_bufs = ((nic_rx_len + nic_tx_len) * PKTBUF_SIZE + 0xfff) AND NOT 0xfff in
       case packetmem_alloc (al 2) sz_bufs fl of
         None \<Rightarrow> (False, st, fl)
       | Some (pm_bufs, fl) \<Rightarrow>
           let sz_rx = nic_rx_len * 64 in
           (case packetmem_alloc (al 3) sz_rx fl of
              None \<Rightarrow> (False, st, packetmem_free pm_bufs fl)
            | Some (pm_rx, fl) \<Rightarrow>
                let sz_tx = nic_tx_len * 64 in
                (case packetmem_alloc (al 4) sz_tx fl of
                   None \<Rightarrow> (False, st, packetmem_free pm_bufs (packetmem_free pm_rx fl))
                 | Some (pm_tx, fl) \<Rightarrow>
                     let off_bufs = ph_base pm_bufs; off_rx = ph_base pm_rx; off_tx = ph_base pm_tx; c = ucast core;
                         m = mem_set (mem_set (shm st) off_rx sz_rx 0) off_tx sz_tx 0;
                         m = fold (\<lambda>i m. mem_put m (entry_addr 64 off_rx i) 0 (u64_bytes (off_bufs + PKTBUF_SIZE * of_nat i)))
                               [0..<unat (rxq_len st)] m in
                     (True,
                      (set_shm st m)
                        \<lparr>rxq_base := (rxq_base st)(c := off_rx), txq_base := (txq_base st)(c := off_tx),
                         rxq_bufs := (rxq_bufs st)(c := \<lambda>i. if i < rxq_len st then off_bufs + PKTBUF_SIZE * ucast i else 0),
                         txq_bufs := (txq_bufs st)(c := \<lambda>i. if i < txq_len st
                           then off_bufs + PKTBUF_SIZE * ucast (rxq_len st) + PKTBUF_SIZE * ucast i else 0),
                         kctx := (kctx st)(core := (kctx st core)
                           \<lparr>ac_rx_base := off_rx, ac_tx_base := off_tx, ac_tx_len := ucast sz_tx, ac_rx_len := ucast sz_rx\<rparr>)\<rparr>,
                      fl))))"

text \<open>The cores one after the other, up to the first failure.\<close>

fun adminq_init_cores ::
  "(u16 \<Rightarrow> nat \<Rightarrow> bool) \<Rightarrow> u64 \<Rightarrow> u64 \<Rightarrow> nat \<Rightarrow> nat \<Rightarrow> tas \<Rightarrow> packetmem_handle list \<Rightarrow> bool \<times> tas \<times> packetmem_handle list"
where
  "adminq_init_cores al nrx ntx i 0 st fl = (True, st, fl)"
| "adminq_init_cores al nrx ntx i (Suc n) st fl =
    (let (ok, st, fl) = adminq_init_core (al (of_nat i)) nrx ntx (of_nat i) st fl in
     if \<not> ok then (False, st, fl) else adminq_init_cores al nrx ntx (Suc i) n st fl)"

definition adminq_init ::
  "bool \<Rightarrow> (u16 \<Rightarrow> nat \<Rightarrow> bool) \<Rightarrow> u64 \<Rightarrow> u64 \<Rightarrow> tas \<Rightarrow> packetmem_handle list \<Rightarrow> bool \<times> tas \<times> packetmem_handle list"
where
  "adminq_init alloc_ok al nic_rx_len nic_tx_len st fl =
    (let st = st\<lparr>rxq_len := ucast nic_rx_len, txq_len := ucast nic_tx_len\<rparr> in
     if \<not> alloc_ok then (False, st, fl)
     else
       let st = st\<lparr>rxq_tail := (\<lambda>_. 0), txq_tail := (\<lambda>_. 0), rxq_next := 0\<rparr> in
       adminq_init_cores al nic_rx_len nic_tx_len 0 (unat (fn_cores st)) st fl)"

text \<open>\<^verbatim>\<open>nicif_init\<close> once the fast path is ready.\<close>

definition nicif_init ::
  "bool \<Rightarrow> bool \<Rightarrow> (u16 \<Rightarrow> nat \<Rightarrow> bool) \<Rightarrow> u64 \<Rightarrow> u32 \<Rightarrow> u64 \<Rightarrow> u64 \<Rightarrow> tas \<Rightarrow> flow_ids
     \<Rightarrow> bool \<times> tas \<times> packetmem_handle list \<times> flow_ids"
where
  "nicif_init ph_ok alloc_ok al dma_mem_size cores_num nic_rx_len nic_tx_len st ids =
    (let st = st\<lparr>fn_cores := cores_num\<rparr> in
     case packetmem_init ph_ok dma_mem_size of
       None \<Rightarrow> (False, st, [], ids)
     | Some fl \<Rightarrow>
         let ids = flow_id_alloc_init ids; (ok, st, fl) = adminq_init alloc_ok al nic_rx_len nic_tx_len st fl in
         (ok, st, fl, ids))"

end
