(* ===== verification/Ktx_Queue.thy ===== *)
theory Ktx_Queue
  imports Kernel_Queues
begin

text \<open>
  The kernel transmit queue as a queue of messages: the ring in the shared memory holds what the
  slow path has sent and the fast path not yet handled, in order.
\<close>

unbundle bit_operations_syntax

section \<open>Messages\<close>

datatype ktx_msg =
    Ktx_Packet u64 u16
  | Ktx_Packet_Nots u64 u16
  | Ktx_Connretran u32
  | Ktx_Other u8

definition ktx_msg :: "buf \<Rightarrow> ktx_msg option" where
  "ktx_msg b =
    (if b 63 = 0 then None
     else Some (if b 63 = FLEXTCP_PL_KTX_PACKET then Ktx_Packet (get_u64 b 0) (get_u16 b 8)
                else if b 63 = FLEXTCP_PL_KTX_PACKET_NOTS then Ktx_Packet_Nots (get_u64 b 0) (get_u16 b 8)
                else if b 63 = FLEXTCP_PL_KTX_CONNRETRAN then Ktx_Connretran (get_u32 b 0)
                else Ktx_Other (b 63)))"

definition ktx_wf :: "ktx_msg \<Rightarrow> bool" where
  "ktx_wf e \<longleftrightarrow> (case e of Ktx_Other t \<Rightarrow> t \<notin> {0, 1, 2, 3} | _ \<Rightarrow> True)"

definition ktx_get :: "u64 \<Rightarrow> mem \<Rightarrow> nat \<Rightarrow> ktx_msg option" where
  "ktx_get base m i = ktx_msg (mem_view m (entry_addr 64 base i))"

text \<open>Writing a message into an entry, field by field.\<close>

definition ktx_write :: "mem \<Rightarrow> u64 \<Rightarrow> ktx_msg \<Rightarrow> mem" where
  "ktx_write m a e = (case e of
     Ktx_Packet addr len \<Rightarrow> mem_put (mem_put (mem_put m a 0 (u64_bytes addr)) a 8 (u16_bytes len)) a 63 [FLEXTCP_PL_KTX_PACKET]
   | Ktx_Packet_Nots addr len \<Rightarrow>
       mem_put (mem_put (mem_put m a 0 (u64_bytes addr)) a 8 (u16_bytes len)) a 63 [FLEXTCP_PL_KTX_PACKET_NOTS]
   | Ktx_Connretran f \<Rightarrow> mem_put (mem_put m a 0 (u32_bytes f)) a 63 [FLEXTCP_PL_KTX_CONNRETRAN]
   | Ktx_Other t \<Rightarrow> mem_put m a 63 [t])"

lemma packet_fields:
  "has_bytes (mem_view (mem_put (mem_put (mem_put m a 0 (u64_bytes addr)) a 8 (u16_bytes len)) a 63 [t]) a) 0 (u64_bytes addr)"
  "has_bytes (mem_view (mem_put (mem_put (mem_put m a 0 (u64_bytes addr)) a 8 (u16_bytes len)) a 63 [t]) a) 8 (u16_bytes len)"
  by (rule has_bytes_put_other, rule has_bytes_put_other, rule has_bytes_put, simp_all)
    (rule has_bytes_put_other, rule has_bytes_put, simp_all)

lemma retran_fields:
  "has_bytes (mem_view (mem_put (mem_put m a 0 (u32_bytes f)) a 63 [t]) a) 0 (u32_bytes f)"
  by (rule has_bytes_put_other, rule has_bytes_put, simp_all)

lemma ktx_msg_write:
  assumes "ktx_wf e"
  shows "ktx_msg (mem_view (ktx_write m a e) a) = Some e"
proof (cases e)
  case (Ktx_Connretran f)
  then show ?thesis
    using get_u32_bytes [OF retran_fields] by (simp add: ktx_write_def ktx_msg_def mem_view_put)
next
  case (Ktx_Packet addr len)
  then show ?thesis
    using get_u64_bytes [OF packet_fields(1)] get_u16_bytes [OF packet_fields(2)]
    by (simp add: ktx_write_def ktx_msg_def mem_view_put)
next
  case (Ktx_Packet_Nots addr len)
  then show ?thesis
    using get_u64_bytes [OF packet_fields(1)] get_u16_bytes [OF packet_fields(2)]
    by (simp add: ktx_write_def ktx_msg_def mem_view_put)
next
  case (Ktx_Other t)
  then show ?thesis
    using assms by (simp add: ktx_write_def ktx_msg_def mem_view_put ktx_wf_def)
qed

lemma ktx_msg_cong:
  assumes "\<And>k. k < 64 \<Longrightarrow> b k = b' k"
  shows "ktx_msg b = ktx_msg b'"
  using assms by (simp add: ktx_msg_def get_u64_def get_u32_def get_beui32_def get_u16_def)

lemma ktx_write_other:
  assumes "i \<noteq> j" "i < 4294967296" "j < 4294967296" "k < 64"
  shows "mem_view (ktx_write m (entry_addr 64 base i) e) (entry_addr 64 base j) k = mem_view m (entry_addr 64 base j) k"
  using assms by (cases e) (simp_all add: ktx_write_def mem_view_other)

text \<open>The kernel transmit queue is a ring of messages.\<close>

interpretation ktx: flag_ring "unat (len :: u32)" "ktx_get base" "\<lambda>m i. ktx_write m (entry_addr 64 base i)"
  "\<lambda>m i. mem_put m (entry_addr 64 base i) 63 [0]" ktx_wf for len base
proof
  fix i j e and m :: mem
  assume ij: "i < unat len" "j < unat len" "ktx_wf e"
  then have lt: "i < 4294967296" "j < 4294967296"
    using unat_u32_bound [of len] by simp_all
  show "ktx_get base (ktx_write m (entry_addr 64 base i) e) j = (if j = i then Some e else ktx_get base m j)"
    using ij(3) lt ktx_write_other [of i j _ m base e] by (auto simp: ktx_get_def ktx_msg_write intro: ktx_msg_cong)
next
  fix i j and m :: mem
  assume "i < unat len" "j < unat len"
  then have lt: "i < 4294967296" "j < 4294967296"
    using unat_u32_bound [of len] by simp_all
  show "ktx_get base (mem_put m (entry_addr 64 base i) 63 [0]) j = (if j = i then None else ktx_get base m j)"
  proof (cases "j = i")
    case True
    then show ?thesis
      by (simp add: ktx_get_def ktx_msg_def mem_view_put)
  next
    case False
    then show ?thesis
      using lt mem_view_other [of i j 63 "[0]" 64 _ m base] by (auto simp: ktx_get_def intro: ktx_msg_cong)
  qed
qed

section \<open>The kernel transmit queue\<close>

text \<open>
  The queue of a core holds a list of messages: the slow path's tail and the fast path's
  head, in bytes, point into the same ring, which lies in the shared memory, and the
  configured lengths of transmit and receive queue agree.
\<close>

definition ktx_queue :: "tas_env \<Rightarrow> tas \<Rightarrow> u16 \<Rightarrow> ktx_msg list \<Rightarrow> bool" where
  "ktx_queue env st core xs \<longleftrightarrow>
    rxq_len st = txq_len st \<and> 64 * unat (txq_len st) < 4294967296 \<and>
    unat (ac_tx_len (kctx st core)) = 64 * unat (txq_len st) \<and>
    ac_tx_base (kctx st core) = txq_base st (ucast core) \<and>
    unat (ac_tx_base (kctx st core)) + 64 * unat (txq_len st) \<le> unat (shm_len (fpe env)) \<and>
    (\<exists>h. unat (ac_tx_head (kctx st core)) = 64 * h \<and>
      ring_holds (unat (txq_len st)) (ktx_get (txq_base st (ucast core))) (shm st) h (unat (txq_tail st (ucast core))) xs)"

lemma ktx_free: "ktx_get base m i = None \<longleftrightarrow> mem_view m (entry_addr 64 base i) 63 = 0"
  by (simp add: ktx_get_def ktx_msg_def)

text \<open>The next position in a queue of \<open>n\<close> entries.\<close>

lemma unat_next: "unat (t::u32) < unat n \<Longrightarrow> unat (if t + 1 = n then t + 1 - n else t + 1) = Suc (unat t) mod unat n"
proof (cases "t + 1 = n")
  case True
  assume "unat t < unat n"
  moreover have "unat (t + 1) = unat n"
    using True by simp
  ultimately have "Suc (unat t) = unat n"
    using unat_u32_add [of t 1] unat_u32_bound [of n] by (simp split: if_splits)
  then show ?thesis
    using True by simp
next
  case False
  assume "unat t < unat n"
  then have "unat (t + 1) = Suc (unat t)"
    using unat_u32_add [of t 1] unat_u32_bound [of n] by simp
  moreover have "unat (t + 1) \<noteq> unat n"
    using False by (simp add: u32_eq_iff)
  ultimately show ?thesis
    using False \<open>unat t < unat n\<close> by simp
qed

lemma set_shm_simps [simp]:
  "shm (set_shm st m) = m" "kctx (set_shm st m) = kctx st" "txq_tail (set_shm st m) = txq_tail st"
  "txq_base (set_shm st m) = txq_base st" "txq_len (set_shm st m) = txq_len st" "rxq_len (set_shm st m) = rxq_len st"
  "rxq_tail (set_shm st m) = rxq_tail st" "rxq_base (set_shm st m) = rxq_base st" "rxq_bufs (set_shm st m) = rxq_bufs st"
  "txq_bufs (set_shm st m) = txq_bufs st" "fn_cores (set_shm st m) = fn_cores st" "rxq_next (set_shm st m) = rxq_next st"
  "evfd_writes (set_shm st m) = evfd_writes st" "sp_last_ts (set_shm st m) = sp_last_ts st"
  "set_shm (set_shm st m) m' = set_shm st m'"
  by (simp_all add: set_shm_def)

lemma notify_core_ok: "\<exists>w l. notify_core True cfd l0 tsc d = Inr (w, l)"
  by (auto simp: notify_core_def)

lemma notify_fastpath_core_ok:
  assumes "evfd_write_ok env"
  shows "\<exists>l w. notify_fastpath_core env tsc st core =
    Inr (st\<lparr>kctx := (kctx st)(core := (kctx st core)\<lparr>ac_last_ts := l\<rparr>), evfd_writes := evfd_writes st @ w\<rparr>)"
proof -
  let ?kc = "kctx st core"
  obtain w l where "notify_core True (ac_evfd ?kc) (ac_last_ts ?kc) tsc (poll_cycle_tas env) = Inr (w, l)"
    using notify_core_ok by blast
  then show ?thesis
    using assms by (auto simp: notify_fastpath_core_def)
qed

text \<open>Which part of the state the queue depends on.\<close>

lemma ktx_queue_cong:
  assumes "rxq_len st' = rxq_len st" "txq_len st' = txq_len st" "txq_base st' = txq_base st" "txq_tail st' = txq_tail st"
    "shm st' = shm st" "ac_tx_len (kctx st' core) = ac_tx_len (kctx st core)" "ac_tx_base (kctx st' core) = ac_tx_base (kctx st core)"
    "ac_tx_head (kctx st' core) = ac_tx_head (kctx st core)"
  shows "ktx_queue env st' core xs = ktx_queue env st core xs"
  unfolding ktx_queue_def assms ..

lemma ktx_queue_enqueue:
  assumes q: "ktx_queue env st core xs" and l: "length xs < unat (txq_len st)" and e: "ktx_wf e"
  shows "ktx_try_alloc st (ucast core) =
      Some (entry_addr 64 (txq_base st (ucast core)) (unat (txq_tail st (ucast core))), txq_tail st (ucast core),
        if txq_tail st (ucast core) + 1 = txq_len st then txq_tail st (ucast core) + 1 - txq_len st else txq_tail st (ucast core) + 1)"
    "ktx_queue env ((set_shm st (ktx_write (shm st) (entry_addr 64 (txq_base st (ucast core)) (unat (txq_tail st (ucast core)))) e))
       \<lparr>txq_tail := (txq_tail st)(ucast core := if txq_tail st (ucast core) + 1 = txq_len st
          then txq_tail st (ucast core) + 1 - txq_len st else txq_tail st (ucast core) + 1)\<rparr>) core (xs @ [e])"
    "txq_tail st (ucast core) < txq_len st"
proof -
  let ?t = "txq_tail st (ucast core)" and ?b = "txq_base st (ucast core)"
  obtain h where h: "unat (ac_tx_head (kctx st core)) = 64 * h" "ring_holds (unat (txq_len st)) (ktx_get ?b) (shm st) h (unat ?t) xs"
    using q by (auto simp: ktx_queue_def)
  have free: "ktx_get ?b (shm st) (unat ?t) = None"
    using ktx.tail_free [OF h(2)] l by simp
  have t: "unat ?t < unat (txq_len st)"
    using ktx.tail_lt [OF h(2)] .
  then show "?t < txq_len st"
    by (simp add: word_less_nat_alt)
  show "ktx_try_alloc st (ucast core) =
      Some (entry_addr 64 ?b (unat ?t), ?t, if ?t + 1 = txq_len st then ?t + 1 - txq_len st else ?t + 1)"
    using free q by (simp add: ktx_try_alloc_def Let_def ktx_free ktx_queue_def)
  have "ring_holds (unat (txq_len st)) (ktx_get ?b) (ktx_write (shm st) (entry_addr 64 ?b (unat ?t)) e) h
      (unat (if ?t + 1 = txq_len st then ?t + 1 - txq_len st else ?t + 1)) (xs @ [e])"
    using ktx.enqueue [OF h(2) free e] unfolding unat_next [OF t] .
  then show "ktx_queue env ((set_shm st (ktx_write (shm st) (entry_addr 64 ?b (unat ?t)) e))
       \<lparr>txq_tail := (txq_tail st)(ucast core := if ?t + 1 = txq_len st then ?t + 1 - txq_len st else ?t + 1)\<rparr>) core (xs @ [e])"
    using q h(1) unfolding ktx_queue_def by (auto simp del: if_split)
qed

lemma ktx_queue_full:
  assumes q: "ktx_queue env st core xs" and l: "length xs = unat (txq_len st)"
  shows "ktx_try_alloc st (ucast core) = None"
proof -
  obtain h where h: "ring_holds (unat (txq_len st)) (ktx_get (txq_base st (ucast core))) (shm st) h (unat (txq_tail st (ucast core))) xs"
    using q by (auto simp: ktx_queue_def)
  show ?thesis
    using ktx.tail_free [OF h] l by (simp add: ktx_try_alloc_def Let_def ktx_free)
qed

lemma ktx_queue_notify:
  "ktx_queue env (st\<lparr>kctx := (kctx st)(c := (kctx st c)\<lparr>ac_last_ts := l\<rparr>), evfd_writes := w\<rparr>) core xs = ktx_queue env st core xs"
  by (rule ktx_queue_cong) simp_all

lemma retransmit_enqueues:
  assumes q: "ktx_queue env st core xs" and core: "core = ucast (flow_group_steering (fp st) grp)" and w: "evfd_write_ok env"
    and l: "length xs < unat (txq_len st)"
  shows "\<exists>st'. nicif_connection_retransmit env tsc st f_id grp = Inr (0, st') \<and> ktx_queue env st' core (xs @ [Ktx_Connretran f_id])"
proof -
  let ?c = "ucast core :: u32"
  let ?t = "txq_tail st ?c"
  let ?n = "if ?t + 1 = txq_len st then ?t + 1 - txq_len st else ?t + 1"
  let ?a = "entry_addr 64 (txq_base st ?c) (unat ?t)"
  let ?st = "(set_shm st (ktx_write (shm st) ?a (Ktx_Connretran f_id)))\<lparr>txq_tail := (txq_tail st)(?c := ?n)\<rparr>"
  note e = ktx_queue_enqueue [OF q l, of "Ktx_Connretran f_id"]
  obtain k v where n: "notify_fastpath_core env tsc ?st core =
      Inr (?st\<lparr>kctx := (kctx ?st)(core := (kctx ?st core)\<lparr>ac_last_ts := k\<rparr>), evfd_writes := evfd_writes ?st @ v\<rparr>)"
    using notify_fastpath_core_ok [OF w] by blast
  have "set_shm (st\<lparr>txq_tail := (txq_tail st)(?c := ?n)\<rparr>) (mem_put (mem_put (shm st) ?a 0 (u32_bytes f_id)) ?a 63 [2]) = ?st"
    by (simp add: set_shm_def ktx_write_def)
  then have "nicif_connection_retransmit env tsc st f_id grp = bind_res (notify_fastpath_core env tsc ?st core) (\<lambda>st. Inr (0, st))"
    unfolding nicif_connection_retransmit_def core [symmetric] by (simp add: e(1) ktx_wf_def Let_def)
  moreover have "ktx_queue env (?st\<lparr>kctx := (kctx ?st)(core := (kctx ?st core)\<lparr>ac_last_ts := k\<rparr>), evfd_writes := evfd_writes ?st @ v\<rparr>)
      core (xs @ [Ktx_Connretran f_id])"
    unfolding ktx_queue_notify by (rule e(2)) (simp add: ktx_wf_def)
  ultimately show ?thesis
    unfolding n by simp
qed

text \<open>Filling in the fields of a free entry does not show before the type is set.\<close>

lemma ktx_queue_fill:
  assumes q: "ktx_queue env st core xs" and l: "length xs < unat (txq_len st)" and k: "k + length ys \<le> 63"
  shows "ktx_queue env (set_shm st (mem_put (shm st) (entry_addr 64 (txq_base st (ucast core)) (unat (txq_tail st (ucast core)))) k ys)) core xs"
proof -
  let ?t = "unat (txq_tail st (ucast core))" and ?b = "txq_base st (ucast core)" and ?n = "unat (txq_len st)"
  let ?m = "mem_put (shm st) (entry_addr 64 ?b ?t) k ys"
  obtain h where h: "unat (ac_tx_head (kctx st core)) = 64 * h" "ring_holds ?n (ktx_get ?b) (shm st) h ?t xs"
    using q by (auto simp: ktx_queue_def)
  have free: "ktx_get ?b (shm st) ?t = None" and t: "?t < ?n"
    using ktx.tail_free [OF h(2)] l ktx.tail_lt [OF h(2)] by simp_all
  have "ktx_get ?b ?m j = ktx_get ?b (shm st) j" if "j < ?n" for j
  proof (cases "j = ?t")
    case True
    have "mem_view ?m (entry_addr 64 ?b ?t) 63 = 0"
      using free k by (simp add: ktx_free mem_view_put)
    then show ?thesis
      using True free by (simp only: ktx_free [symmetric])
  next
    case False
    then have "mem_view ?m (entry_addr 64 ?b j) i = mem_view (shm st) (entry_addr 64 ?b j) i" if "i < 64" for i
      using that t k \<open>j < ?n\<close> unat_u32_bound [of "txq_len st"] by (intro mem_view_other) simp_all
    then show ?thesis
      unfolding ktx_get_def by (intro ktx_msg_cong) simp
  qed
  then have "ring_holds ?n (ktx_get ?b) ?m h ?t xs"
    using h(2) by (subst ring_holds_cong) auto
  then show ?thesis
    using q h(1) unfolding ktx_queue_def by auto
qed

lemma ktx_prev:
  assumes "(t::u32) < n" "opq = (if t + 1 = n then t + 1 - n else t + 1)"
  shows "(if opq = 0 then n - 1 else opq - 1) = t"
proof (cases "t + 1 = n")
  case True
  then have "n - 1 = t"
    by auto
  then show ?thesis
    using assms(2) True by simp
next
  case False
  have "t + 1 \<noteq> 0"
  proof
    assume "t + 1 = 0"
    then have "t = - 1"
      by (simp add: eq_neg_iff_add_eq_0)
    with assms(1) show False
      by (simp add: not_less [symmetric])
  qed
  then show ?thesis
    using assms(2) False by simp
qed

lemma tx_enqueues:
  assumes q: "ktx_queue env st 0 xs" and w: "evfd_write_ok env" and l: "length xs < unat (txq_len st)"
  shows "\<exists>st1 opq st2. nicif_tx_alloc st len = Inr (Some (txq_bufs st 0 (txq_tail st 0), opq), st1) \<and>
       ktx_queue env st1 0 xs \<and> nicif_tx_send env tsc st1 opq no_ts = Inr st2 \<and>
       ktx_queue env st2 0 (xs @ [(if no_ts then Ktx_Packet_Nots else Ktx_Packet) (txq_bufs st 0 (txq_tail st 0)) len])"
proof -
  let ?t = "txq_tail st 0"
  define opq where "opq = (if ?t + 1 = txq_len st then ?t + 1 - txq_len st else ?t + 1)"
  let ?a = "entry_addr 64 (txq_base st 0) (unat ?t)" and ?buf = "txq_bufs st 0 ?t"
  let ?e = "(if no_ts then Ktx_Packet_Nots else Ktx_Packet) ?buf len"
  let ?st1 = "set_shm st (mem_put (mem_put (shm st) ?a 0 (u64_bytes ?buf)) ?a 8 (u16_bytes len))"
  let ?st2 = "(set_shm st (ktx_write (shm st) ?a ?e))\<lparr>txq_tail := (txq_tail st)(0 := opq)\<rparr>"
  have e: "ktx_wf ?e"
    by (simp add: ktx_wf_def)
  note enq = ktx_queue_enqueue [OF q l e, unfolded unsigned_0, folded opq_def]
  have "nicif_tx_alloc st len = Inr (Some (?buf, opq), ?st1)"
    using enq(1,3) by (simp add: nicif_tx_alloc_def Let_def)
  moreover have "ktx_queue env ?st1 0 xs"
    using ktx_queue_fill [OF ktx_queue_fill [OF q l, of 0 "u64_bytes ?buf"], of 8 "u16_bytes len"] l by simp
  moreover have prev: "(if opq = 0 then txq_len st - 1 else opq - 1) = ?t"
    by (rule ktx_prev [OF enq(3) opq_def])
  have "nicif_tx_send env tsc ?st1 opq no_ts = notify_fastpath_core env tsc ?st2 0"
    unfolding nicif_tx_send_def Let_def set_shm_simps prev by (cases no_ts) (simp_all add: ktx_write_def set_shm_def)
  moreover obtain k v where n: "notify_fastpath_core env tsc ?st2 0 =
      Inr (?st2\<lparr>kctx := (kctx ?st2)(0 := (kctx ?st2 0)\<lparr>ac_last_ts := k\<rparr>), evfd_writes := evfd_writes ?st2 @ v\<rparr>)"
    using notify_fastpath_core_ok [OF w] by blast
  moreover have "ktx_queue env (?st2\<lparr>kctx := (kctx ?st2)(0 := (kctx ?st2 0)\<lparr>ac_last_ts := k\<rparr>), evfd_writes := evfd_writes ?st2 @ v\<rparr>)
      0 (xs @ [?e])"
    unfolding ktx_queue_notify using enq(2) by simp
  ultimately show ?thesis
    by metis
qed

text \<open>
  C24: The slow path's side of the kernel transmit queue, when the receive and transmit queues are configured with the
  same length (\<open>ktx_queue\<close> demands it, since the code wraps its position at the length of the receive queue): a request to retransmit a flow, and a
  packet that is allocated and then sent, are refused exactly if the queue of the core is full
  and are else appended to it.  The packet carries the buffer the caller gets and its length,
  and the queue does not show it before it is sent.
\<close>

theorem nicif_ktx_enqueues:
  assumes q: "ktx_queue env st core xs" and core: "core = ucast (flow_group_steering (fp st) grp)"
    and q0: "ktx_queue env st 0 ys" and w: "evfd_write_ok env"
  shows "(if length xs = unat (txq_len st) then nicif_connection_retransmit env tsc st f_id grp = Inr (-1, st)
          else \<exists>st'. nicif_connection_retransmit env tsc st f_id grp = Inr (0, st') \<and>
            ktx_queue env st' core (xs @ [Ktx_Connretran f_id])) \<and>
    (if length ys = unat (txq_len st) then nicif_tx_alloc st len = Inr (None, st)
     else \<exists>st1 opq st2. nicif_tx_alloc st len = Inr (Some (txq_bufs st 0 (txq_tail st 0), opq), st1) \<and>
       ktx_queue env st1 0 ys \<and> nicif_tx_send env tsc st1 opq no_ts = Inr st2 \<and>
       ktx_queue env st2 0 (ys @ [(if no_ts then Ktx_Packet_Nots else Ktx_Packet) (txq_bufs st 0 (txq_tail st 0)) len]))"
proof -
  have le: "length xs \<le> unat (txq_len st)" "length ys \<le> unat (txq_len st)"
    using q q0 by (auto simp: ktx_queue_def ring_holds_def)
  have "nicif_connection_retransmit env tsc st f_id grp = Inr (-1, st)" if "length xs = unat (txq_len st)"
    using ktx_queue_full [OF q that] core by (simp add: nicif_connection_retransmit_def)
  moreover have "nicif_tx_alloc st len = Inr (None, st)" if "length ys = unat (txq_len st)"
    using ktx_queue_full [OF q0 that] by (simp add: nicif_tx_alloc_def)
  ultimately show ?thesis
    using retransmit_enqueues [OF q core w] tx_enqueues [OF q0 w] le by (simp add: le_neq_implies_less)
qed

section \<open>Serving the kernel transmit queue\<close>

lemma entry_addr_head: "unat x = 64 * h \<Longrightarrow> base + ucast (x :: u32) = entry_addr 64 base h"
proof -
  assume "unat x = 64 * h"
  then have "(ucast x :: u64) = of_nat (64 * h)"
    using unat_u32_bound [of x] by (simp add: u64_eq_iff unat_ucast_u32_u64 unat_of_nat del: of_nat_mult)
  then show ?thesis
    by (simp only: entry_addr_def)
qed

lemma unat_head_next:
  assumes "unat (x::u32) = 64 * h" "unat len = 64 * n" "h < n"
  shows "unat (if x + 64 \<ge> len then x + 64 - len else x + 64) = 64 * (Suc h mod n)"
proof -
  have "64 * h + 64 \<le> 64 * n" "64 * n < 4294967296"
    using assms(2,3) unat_u32_bound [of len] by simp_all
  then have add: "unat (x + 64) = 64 * Suc h \<or> (unat (x + 64) = 0 \<and> 64 * Suc h = 4294967296)"
    using unat_u32_add [of x 64] assms(1) by simp
  show ?thesis
  proof (cases "Suc h = n")
    case True
    then show ?thesis
      using add assms(2) \<open>64 * n < 4294967296\<close> by (simp add: word_le_nat_alt unat_u32_sub [of "x + 64" len])
  next
    case False
    then have "Suc h < n"
      using assms(3) by simp
    then show ?thesis
      using add assms(2) \<open>64 * n < 4294967296\<close> by (simp add: word_le_nat_alt)
  qed
qed

lemma fast_kernel_poll_at:
  assumes core: "core = core_id (fp st)" and l: "unat (ac_tx_len (kctx st core)) = 64 * unat (txq_len st)"
    and b: "ac_tx_base (kctx st core) = txq_base st (ucast core)"
    and s: "unat (txq_base st (ucast core)) + 64 * unat (txq_len st) \<le> unat (shm_len (fpe env))"
    and h: "unat (ac_tx_head (kctx st core)) = 64 * h" "h < unat (txq_len st)"
  defines "kc \<equiv> kctx st core" and "a \<equiv> entry_addr 64 (txq_base st (ucast core)) h"
  shows "fast_kernel_poll env st nbh ts =
    (if mem_view (shm st) a 63 = 0 then Some (Inr (-1, st))
     else bind_run (ktx_handle (fpe env) (fp st) a nbh ts) (\<lambda>(ret, f).
       Some (Inr (ret, st\<lparr>fp := f\<lparr>fp_shm := mem_put (fp_shm f) a 63 [0]\<rparr>,
         kctx := (kctx st)(core := kc\<lparr>ac_tx_head := if ac_tx_head kc + 64 \<ge> ac_tx_len kc
           then ac_tx_head kc + 64 - ac_tx_len kc else ac_tx_head kc + 64\<rparr>)\<rparr>))))"
proof -
  note n = l [folded kc_def] b [folded kc_def] s
  have addr: "ac_tx_base kc + ucast (ac_tx_head kc) = a"
    using entry_addr_head [OF h(1)] n(2) by (simp add: a_def kc_def)
  have "64 * h + 64 \<le> 64 * unat (txq_len st)"
    using h(2) by simp
  then have "unat a + 64 \<le> unat (shm_len (fpe env))"
    using n(2,3) unat_u64_bound [of "shm_len (fpe env)"] unat_addr_diff [of "txq_base st (ucast core)" "64 * h" "64 * h"]
    by (simp add: a_def entry_addr_def del: of_nat_mult)
  then have ptr: "dma_pointer (shm_len (fpe env)) a 64 = Inr a"
    using unat_u64_bound [of "shm_len (fpe env)"] by (simp add: dma_pointer_def dma_ok_nat)
  have "ac_tx_len kc \<noteq> 0"
    using n(1) h(2) by (auto simp: u32_eq_iff)
  then show ?thesis
    using ptr by (simp add: fast_kernel_poll_def Let_def core [symmetric] kc_def [symmetric] addr case_prod_beta')
qed

lemma ktx_queue_shape:
  assumes "ktx_queue env st core xs"
  shows "unat (ac_tx_len (kctx st core)) = 64 * unat (txq_len st)" "ac_tx_base (kctx st core) = txq_base st (ucast core)"
    "unat (txq_base st (ucast core)) + 64 * unat (txq_len st) \<le> unat (shm_len (fpe env))"
  using assms unfolding ktx_queue_def by auto

lemma ktx_queue_serve:
  assumes q: "ktx_queue env st core (x # xs)" and core: "core = core_id (fp st)"
    and h: "unat (ac_tx_head (kctx st core)) = 64 * h" "ring_holds (unat (txq_len st)) (ktx_get (txq_base st (ucast core))) (shm st) h
      (unat (txq_tail st (ucast core))) (x # xs)"
    and run: "ktx_handle (fpe env) (fp st) (entry_addr 64 (txq_base st (ucast core)) h) nbh ts = Some (Inr (ret, f))" "fp_shm f = shm st"
  shows "\<exists>st'. fast_kernel_poll env st nbh ts = Some (Inr (ret, st')) \<and> ktx_queue env st' core xs \<and>
     (\<exists>m. fp st' = f\<lparr>fp_shm := m\<rparr>)"
proof -
  let ?kc = "kctx st core" and ?a = "entry_addr 64 (txq_base st (ucast core)) h"
  let ?p = "if ac_tx_head ?kc + 64 \<ge> ac_tx_len ?kc then ac_tx_head ?kc + 64 - ac_tx_len ?kc else ac_tx_head ?kc + 64"
  let ?st = "st\<lparr>fp := f\<lparr>fp_shm := mem_put (shm st) ?a 63 [0]\<rparr>, kctx := (kctx st)(core := ?kc\<lparr>ac_tx_head := ?p\<rparr>)\<rparr>"
  have n: "h < unat (txq_len st)" "unat (ac_tx_len ?kc) = 64 * unat (txq_len st)"
    using q h(2) by (auto simp: ktx_queue_def ring_holds_def)
  have "mem_view (shm st) ?a 63 \<noteq> 0"
    using ktx.head_used [OF h(2)] by (simp add: ktx_free [symmetric])
  then have "fast_kernel_poll env st nbh ts = Some (Inr (ret, ?st))"
    using run fast_kernel_poll_at [OF core ktx_queue_shape [OF q] h(1) n(1), of nbh ts] by simp
  moreover have "ring_holds (unat (txq_len st)) (ktx_get (txq_base st (ucast core))) (mem_put (shm st) ?a 63 [0])
      (Suc h mod unat (txq_len st)) (unat (txq_tail st (ucast core))) xs"
    by (rule ktx.dequeue [OF h(2)])
  then have "ktx_queue env ?st core xs"
    using q unat_head_next [OF h(1) n(2,1)] unfolding ktx_queue_def by (auto simp del: if_split)
  ultimately show ?thesis
    by auto
qed

lemma ktx_get_Some:
  assumes "ktx_get base m i = Some e"
  defines "b \<equiv> mem_view m (entry_addr 64 base i)"
  shows "e = Ktx_Connretran f \<Longrightarrow> b 63 = 2 \<and> get_u32 b 0 = f"
    "e = Ktx_Packet a l \<Longrightarrow> b 63 = 1 \<and> get_u64 b 0 = a \<and> get_u16 b 8 = l"
    "e = Ktx_Packet_Nots a l \<Longrightarrow> b 63 = 3 \<and> get_u64 b 0 = a \<and> get_u16 b 8 = l"
    "e = Ktx_Other t \<Longrightarrow> b 63 \<notin> {0, 1, 2, 3}"
  using assms by (auto simp: ktx_get_def ktx_msg_def split: if_splits)

text \<open>The bytes of a packet in the shared memory, over what the buffer held before.\<close>

definition shm_pkt :: "mem \<Rightarrow> u64 \<Rightarrow> u16 \<Rightarrow> pkt_tcp \<Rightarrow> pkt_tcp" where
  "shm_pkt m a l old = pkt_of_bytes (\<lambda>i. if i < unat l then m (a + of_nat i) else bytes_of_pkt old i)"

lemma shm_pkt_bytes: "i < unat l \<Longrightarrow> bytes_of_pkt (shm_pkt m a l old) i = m (a + of_nat i)"
  by (simp add: shm_pkt_def bytes_pkt_bytes)

lemma ktx_packet_ok:
  assumes "get_u64 (mem_view m ktx) 0 = a" "get_u16 (mem_view m ktx) 8 = l" "unat a + unat l \<le> unat (shm_len env)"
  shows "ktx_packet env m ktx nbh = Inr (l, shm_pkt m a l (nb_pkt nbh))"
proof -
  have l: "unat (ucast l :: u64) = unat l"
    by (simp add: unsigned_ucast_eq take_bit_eq_mod order.strict_trans [OF unat_u16_bound])
  then have "dma_ok (shm_len env) a (ucast l)"
    using assms(3) unat_u64_bound [of "shm_len env"] by (auto simp: dma_ok_nat)
  then show ?thesis
    using assms(1,2) l by (simp add: ktx_packet_def dma_read_def shm_pkt_def cong: if_cong)
qed

text \<open>Where the time stamp option of a TCP packet is, behind the TCP header; nothing if the option parser never returns.\<close>

definition ts_option :: "pkt_tcp \<Rightarrow> u16 \<Rightarrow> nat option option" where
  "ts_option p len =
    (if unat len < sizeof_pkt_tcp \<or> f_beui16 (eth_type (eth p)) \<noteq> ETH_TYPE_IP \<or> proto (ip p) \<noteq> IP_PROTO_TCP then Some None
     else case tcp_parse_options p len of None \<Rightarrow> None | Some (Inl _) \<Rightarrow> Some None | Some (Inr opts) \<Rightarrow> Some (opts_ts opts))"

lemma inject_tcp_ts_option:
  "inject_tcp_ts env p len ts nbh = (case ts_option p len of None \<Rightarrow> None | Some None \<Rightarrow> Some (p, nbh)
    | Some (Some k) \<Rightarrow> Some (fast_flows_kernelxsums env nbh (p\<lparr>rest := put_beui32 (rest p) (k + 2) (t_beui32 ts)\<rparr>)))"
  by (simp add: inject_tcp_ts_def ts_option_def split: option.splits sum.splits)

lemma chksum_bytes:
  "ip_bytes (h\<lparr>ip_chksum := c\<rparr>) = take 10 (ip_bytes h) @ u16_bytes c @ drop 12 (ip_bytes h)"
  "tcp_bytes (t\<lparr>tcp_chksum := c\<rparr>) = take 16 (tcp_bytes t) @ u16_bytes c @ drop 18 (tcp_bytes t)"
  by (simp_all add: ip_bytes_def tcp_bytes_def u16_bytes_def u32_bytes_def)

lemma length_hdrs: "length (ip_bytes h) = 20" "length (tcp_bytes t) = 20"
  by (simp_all add: ip_bytes_def tcp_bytes_def u16_bytes_def u32_bytes_def)

text \<open>New checksums change the four bytes they are in.\<close>

definition in_chksum :: "nat \<Rightarrow> bool" where
  "in_chksum i \<longleftrightarrow> i \<in> {24, 25, 50, 51}"

lemma chksum_nth:
  "j < 20 \<Longrightarrow> j \<noteq> 10 \<Longrightarrow> j \<noteq> 11 \<Longrightarrow> ip_bytes (h\<lparr>ip_chksum := c\<rparr>) ! j = ip_bytes h ! j"
  "j < 20 \<Longrightarrow> j \<noteq> 16 \<Longrightarrow> j \<noteq> 17 \<Longrightarrow> tcp_bytes (t\<lparr>tcp_chksum := c\<rparr>) ! j = tcp_bytes t ! j"
  by (auto simp: chksum_bytes nth_append length_hdrs)

lemma hdr_chksums:
  assumes "length (eth_bytes (eth p)) = 14" "i < 54" "\<not> in_chksum i"
  shows "hdr_bytes (p\<lparr>ip := (ip p)\<lparr>ip_chksum := c\<rparr>, tcp := (tcp p)\<lparr>tcp_chksum := d\<rparr>, rest := r\<rparr>) ! i = hdr_bytes p ! i"
proof -
  consider "i < 14" | "14 \<le> i" "i < 34" | "34 \<le> i"
    by linarith
  then show ?thesis
  proof cases
    case 2
    then have "i - 14 < 20" "i - 14 \<noteq> 10" "i - 14 \<noteq> 11"
      using assms(3) by (auto simp: in_chksum_def)
    then show ?thesis
      using 2 assms(1) by (simp add: hdr_bytes_def nth_append length_hdrs chksum_nth)
  next
    case 3
    then have "i - 34 < 20" "i - 34 \<noteq> 16" "i - 34 \<noteq> 17"
      using assms(2,3) by (auto simp: in_chksum_def)
    then show ?thesis
      using 3 assms(1) by (simp add: hdr_bytes_def nth_append length_hdrs chksum_nth)
  qed (use assms(1) in \<open>simp add: hdr_bytes_def nth_append\<close>)
qed

lemma tcp_checksums_fields:
  "\<exists>c d nbh'. tcp_checksums env nbh p s t n = (p\<lparr>ip := (ip p)\<lparr>ip_chksum := c\<rparr>, tcp := (tcp p)\<lparr>tcp_chksum := d\<rparr>\<rparr>, nbh')"
  by (cases p) (simp add: tcp_checksums_def Let_def split: prod.splits, blast)

lemma put_beui32_nth: "put_beui32 b k v i = (if k \<le> i \<and> i < k + 4 then u32_bytes (beui32_x v) ! (i - k) else b i)"
proof -
  have "k \<le> i \<and> i < k + 4 \<Longrightarrow> i \<in> {k, k + 1, k + 2, k + 3}"
    by auto
  then show ?thesis
    by (auto simp: put_beui32_def u32_bytes_def nth_Cons')
qed

lemma stamped_bytes:
  assumes "length (eth_bytes (eth p)) = 14" "fast_flows_kernelxsums env nbh (p\<lparr>rest := put_beui32 (rest p) k v\<rparr>) = (p', nbh')" "\<not> in_chksum i"
  shows "bytes_of_pkt p' i = (if 54 + k \<le> i \<and> i < 58 + k then u32_bytes (beui32_x v) ! (i - (54 + k)) else bytes_of_pkt p i)"
proof -
  let ?q = "p\<lparr>rest := put_beui32 (rest p) k v\<rparr>"
  obtain c d n where "fast_flows_kernelxsums env nbh ?q = (?q\<lparr>ip := (ip ?q)\<lparr>ip_chksum := c\<rparr>, tcp := (tcp ?q)\<lparr>tcp_chksum := d\<rparr>\<rparr>, n)"
    unfolding fast_flows_kernelxsums_def using tcp_checksums_fields by blast
  then have p': "p' = p\<lparr>ip := (ip p)\<lparr>ip_chksum := c\<rparr>, tcp := (tcp p)\<lparr>tcp_chksum := d\<rparr>, rest := put_beui32 (rest p) k v\<rparr>"
    using assms(2) by (cases p) simp
  show ?thesis
    using hdr_chksums [OF assms(1) _ assms(3)] by (auto simp: bytes_of_pkt_def p' put_beui32_nth)
qed

text \<open>The bytes of a packet whose time stamp, if it has one, has been filled in.\<close>

definition stamp_byte :: "nat option \<Rightarrow> u32 \<Rightarrow> buf \<Rightarrow> buf" where
  "stamp_byte opt ts b i = (case opt of None \<Rightarrow> b i
     | Some k \<Rightarrow> if 56 + k \<le> i \<and> i < 60 + k then u32_bytes (beui32_x (t_beui32 ts)) ! (i - (56 + k)) else b i)"

lemma shm_pkt_eth: "length (eth_bytes (eth (shm_pkt m a l old))) = 14"
  by (simp add: shm_pkt_def pkt_of_bytes_def eth_bytes_def)

lemma inject_sent:
  assumes "ts_option (shm_pkt m a l old) l = Some opt"
  shows "\<exists>p nb. inject_tcp_ts env (shm_pkt m a l old) l ts nbh = Some (p, nb) \<and>
    (\<forall>i. i < unat l \<and> (opt \<noteq> None \<longrightarrow> \<not> in_chksum i) \<longrightarrow> bytes_of_pkt p i = stamp_byte opt ts (\<lambda>i. m (a + of_nat i)) i)"
proof (cases opt)
  case None
  then show ?thesis
    using assms by (simp add: inject_tcp_ts_option stamp_byte_def shm_pkt_bytes)
next
  case (Some k)
  let ?p = "shm_pkt m a l old"
  obtain p nb where p: "fast_flows_kernelxsums env nbh (?p\<lparr>rest := put_beui32 (rest ?p) (k + 2) (t_beui32 ts)\<rparr>) = (p, nb)"
    by fastforce
  have "bytes_of_pkt p i = stamp_byte opt ts (\<lambda>i. m (a + of_nat i)) i" if "i < unat l" "\<not> in_chksum i" for i
    using stamped_bytes [OF shm_pkt_eth p that(2)] Some that(1) by (simp add: stamp_byte_def shm_pkt_bytes)
  then show ?thesis
    using assms p Some by (simp add: inject_tcp_ts_option)
qed

text \<open>
  C25: The fast path's side of the kernel transmit queue, when both kernel queues are configured with the same length: an empty queue is left alone; else the
  first message is handled and removed.  A retransmission request rewinds the flow.  A packet without time stamp to fill
  in is sent with exactly the bytes of its buffer.  Any other packet is sent with the bytes of its buffer too, except that in a TCP packet with
  a time stamp option the four bytes of the time stamp are the given one and the two checksum fields are written anew, of whose
  values nothing is stated; if the options are such that the
  parser never ends, the poll does not return.  A message of another type aborts.
\<close>

theorem fast_kernel_poll_serves:
  assumes q: "ktx_queue env st core xs" and core: "core = core_id (fp st)"
    and room: "length (tx_handles (fp st)) < TXBUF_SIZE" and qm: "qman_reach qman_horizon (qman (fp st))"
  shows "case xs of
     [] \<Rightarrow> fast_kernel_poll env st nbh ts = Some (Inr (-1, st))
   | Ktx_Connretran f # ys \<Rightarrow>
       unat f < FLEXNIC_PL_FLOWST_NUM \<and> tx_inv (flowst (fp st) f) \<and> rate_ok (tx_rate (flow_reset_retransmit (flowst (fp st) f))) \<longrightarrow>
       (\<exists>st'. fast_kernel_poll env st nbh ts = Some (Inr (1, st')) \<and> ktx_queue env st' core ys \<and>
          tx_window_of (flowst (fp st') f) = win_reset (tx_window_of (flowst (fp st) f)))
   | Ktx_Packet_Nots a l # ys \<Rightarrow> unat a + unat l \<le> unat (shm_len (fpe env)) \<longrightarrow>
       (\<exists>st' nb. fast_kernel_poll env st nbh ts = Some (Inr (0, st')) \<and> ktx_queue env st' core ys \<and>
          tx_handles (fp st') = tx_handles (fp st) @ [nb] \<and> nb_off nb = 0 \<and> nb_len nb = l \<and>
          (\<forall>i. i < unat l \<longrightarrow> bytes_of_pkt (nb_pkt nb) i = shm st (a + of_nat i)))
   | Ktx_Packet a l # ys \<Rightarrow> unat a + unat l \<le> unat (shm_len (fpe env)) \<longrightarrow>
       (case ts_option (shm_pkt (shm st) a l (nb_pkt nbh)) l of
          None \<Rightarrow> fast_kernel_poll env st nbh ts = None
        | Some opt \<Rightarrow> \<exists>st' nb. fast_kernel_poll env st nbh ts = Some (Inr (0, st')) \<and> ktx_queue env st' core ys \<and>
            tx_handles (fp st') = tx_handles (fp st) @ [nb] \<and> nb_off nb = 0 \<and> nb_len nb = l \<and>
            (\<forall>i. i < unat l \<and> (opt \<noteq> None \<longrightarrow> \<not> in_chksum i) \<longrightarrow>
               bytes_of_pkt (nb_pkt nb) i = stamp_byte opt ts (\<lambda>i. shm st (a + of_nat i)) i))
   | Ktx_Other _ # _ \<Rightarrow> fast_kernel_poll env st nbh ts = Some (Inl Abort)"
proof -
  obtain h where h: "unat (ac_tx_head (kctx st core)) = 64 * h" "ring_holds (unat (txq_len st)) (ktx_get (txq_base st (ucast core))) (shm st) h
      (unat (txq_tail st (ucast core))) xs"
    using q by (auto simp: ktx_queue_def)
  have n: "h < unat (txq_len st)"
    using h(2) by (simp add: ring_holds_def)
  let ?a = "entry_addr 64 (txq_base st (ucast core)) h"
  note poll = fast_kernel_poll_at [OF core ktx_queue_shape [OF q] h(1) n, of nbh ts] and head = ktx.head_used [OF h(2)]
  show ?thesis
  proof (cases xs)
    case Nil
    then show ?thesis
      using poll head by (simp add: ktx_free)
  next
    case (Cons x ys)
    then have get: "ktx_get (txq_base st (ucast core)) (shm st) h = Some x"
      using head by simp
    note serve = ktx_queue_serve [OF q [unfolded Cons] core h(1) h(2) [unfolded Cons], of nbh ts]
    show ?thesis
    proof (cases x)
      case (Ktx_Packet a l)
      let ?p = "shm_pkt (shm st) a l (nb_pkt nbh)"
      show ?thesis
      proof (cases "ts_option ?p l")
        case None
        then have "inject_tcp_ts (fpe env) ?p l ts nbh = None"
          by (simp add: inject_tcp_ts_option)
        then show ?thesis
          using None Ktx_Packet ktx_get_Some(2) [OF get] poll ktx_packet_ok [of "shm st" ?a a l "fpe env" nbh] Cons by (simp add: ktx_handle_def Let_def)
      next
        case (Some opt)
        then obtain p nb where "inject_tcp_ts (fpe env) ?p l ts nbh = Some (p, nb)"
          "\<forall>i. i < unat l \<and> (opt \<noteq> None \<longrightarrow> \<not> in_chksum i) \<longrightarrow> bytes_of_pkt p i = stamp_byte opt ts (\<lambda>i. shm st (a + of_nat i)) i"
          using inject_sent [of "shm st" a l "nb_pkt nbh" opt "fpe env" ts nbh] by blast
        then show ?thesis
          using Some Ktx_Packet ktx_get_Some(2) [OF get] serve [of 0] ktx_packet_ok [of "shm st" ?a a l "fpe env" nbh] room Cons
          by (fastforce simp: ktx_handle_def Let_def tx_send_def)
      qed
    next
      case (Ktx_Packet_Nots a l)
      then show ?thesis
        using ktx_get_Some(3) [OF get] serve [of 0] ktx_packet_ok [of "shm st" ?a a l "fpe env" nbh] room Cons
        by (fastforce simp: ktx_handle_def Let_def tx_send_def shm_pkt_bytes)
    next
      case (Ktx_Connretran f)
      have "\<exists>st'. fast_kernel_poll env st nbh ts = Some (Inr (1, st')) \<and> ktx_queue env st' core ys \<and>
          tx_window_of (flowst (fp st') f) = win_reset (tx_window_of (flowst (fp st) f))"
        if v: "unat f < FLEXNIC_PL_FLOWST_NUM" "tx_inv (flowst (fp st) f)" "rate_ok (tx_rate (flow_reset_retransmit (flowst (fp st) f)))"
      proof -
        have "f < FLEXNIC_NUM_QMQUEUES"
          using v(1) by (simp add: word_less_nat_alt)
        then obtain g where g: "fast_flows_retransmit (fp st) f = Some (Inr g)" "fp_shm g = shm st"
          "tx_window_of (flowst g f) = win_reset (tx_window_of (flowst (fp st) f))"
          using fast_flows_retransmit_ok [OF v(2) qm _ v(3)] by auto
        then have "ktx_handle (fpe env) (fp st) ?a nbh ts = Some (Inr (1, g))"
          using ktx_get_Some(1) [OF get Ktx_Connretran] v(1) by (simp add: ktx_handle_def Let_def)
        then show ?thesis
          using serve [of 1 g] g by auto
      qed
      then show ?thesis
        using Cons Ktx_Connretran by simp
    next
      case (Ktx_Other t)
      then show ?thesis
        using ktx_get_Some(4) [OF get] poll Cons by (simp add: ktx_handle_def Let_def)
    qed
  qed
qed

text \<open>For the witnesses: one core, queues of four entries, all free.\<close>

definition demo_tenv :: tas_env where
  "demo_tenv = \<lparr>fpe = demo_env, poll_cycle_tas = 10000, poll_cycle_app = 10000, kernel_notifyfd = 5, evfd_write_ok = True,
     rss_reta_size = 128\<rparr>"

definition demo_actx :: flextcp_pl_appctx where
  "demo_actx = \<lparr>ac_rx_base = 36864, ac_tx_base = 32768, ac_rx_len = 256, ac_tx_len = 256, ac_appst_id = 0, ac_evfd = 7,
     ac_last_ts = 0, ac_rx_head = 0, ac_tx_head = 0, ac_rx_avail = 256\<rparr>"

definition demo_tas :: tas where
  "demo_tas = \<lparr>fp = demo_st\<lparr>fp_shm := (\<lambda>_. 0)\<rparr>, kctx = (\<lambda>_. demo_actx), appctx = (\<lambda>_ _. demo_actx),
     appst = (\<lambda>_. \<lparr>ctx_num = 0, ctx_ids = (\<lambda>_. 0)\<rparr>), kernel_drop = 0, sp_last_ts = 0, evfd_writes = [], fn_cores = 1,
     rxq_bufs = (\<lambda>_ i. 40960 + 1536 * ucast i), rxq_base = (\<lambda>_. 36864), rxq_len = 4, rxq_tail = (\<lambda>_. 0), rxq_next = 0,
     txq_bufs = (\<lambda>_ i. 47104 + 1536 * ucast i), txq_base = (\<lambda>_. 32768), txq_len = 4, txq_tail = (\<lambda>_. 0)\<rparr>"

lemma demo_tas_simps [simp]:
  "shm demo_tas = (\<lambda>_. 0)" "kctx demo_tas c = demo_actx" "rxq_len demo_tas = 4" "txq_len demo_tas = 4" "txq_base demo_tas d = 32768"
  "txq_tail demo_tas d = 0" "flow_group_steering (fp demo_tas) g = 0" "core_id (fp demo_tas) = 0" "tx_handles (fp demo_tas) = []"
  "qman (fp demo_tas) = qman_demo0" "flowst (fp demo_tas) f = demo_flow" "fpe demo_tenv = demo_env" "evfd_write_ok demo_tenv"
  "txq_bufs demo_tas d i = 47104 + 1536 * ucast i"
  by (simp_all add: demo_tas_def demo_tenv_def)

lemma demo_tas_queue: "ktx_queue demo_tenv demo_tas 0 []"
  by (auto simp: ktx_queue_def demo_actx_def ring_holds_def ktx_free mem_view_def)

theorem nicif_ktx_enqueues_witness:
  "\<exists>st1 opq st2. nicif_tx_alloc demo_tas 60 = Inr (Some (47104, opq), st1) \<and> nicif_tx_send demo_tenv 9 st1 opq True = Inr st2 \<and>
     ktx_queue demo_tenv st2 0 [Ktx_Packet_Nots 47104 60]"
  using nicif_ktx_enqueues [OF demo_tas_queue _ demo_tas_queue, of 0 9 3 60 True] by auto

theorem fast_kernel_poll_serves_witness:
  "\<exists>st st'. ktx_queue demo_tenv st 0 [Ktx_Connretran 3] \<and> fast_kernel_poll demo_tenv st demo_nbuf 7 = Some (Inr (1, st')) \<and>
     ktx_queue demo_tenv st' 0 [] \<and> in_flight (tx_window_of (flowst (fp st') 3)) = 0"
proof -
  define st where "st = (set_shm demo_tas (ktx_write (shm demo_tas) (entry_addr 64 32768 0) (Ktx_Connretran 3)))\<lparr>txq_tail := (txq_tail demo_tas)(0 := 1)\<rparr>"
  have q: "ktx_queue demo_tenv st 0 [Ktx_Connretran 3]"
    using ktx_queue_enqueue(2) [OF demo_tas_queue, of "Ktx_Connretran 3"] by (simp add: st_def ktx_wf_def)
  have st: "core_id (fp st) = 0" "tx_handles (fp st) = []" "qman (fp st) = qman_demo0" "flowst (fp st) f = demo_flow" for f
    by (simp_all add: st_def set_shm_def demo_tas_def)
  have "rate_ok (tx_rate (flow_reset_retransmit demo_flow))"
    by (simp add: rate_ok_def flow_reset_retransmit_def Let_def demo_flow_def flowst_zero_def)
  then show ?thesis
    using q fast_kernel_poll_serves [OF q, of demo_nbuf 7] by (auto simp: st demo_reach demo_flow_ok win_reset_def)
qed

text \<open>
  The slow path wraps its position in the transmit queue at the length of the receive queue.
  If that is shorter, then after that many messages the fast path waits at the entry behind
  them while the slow path starts over at entry 0: the next request is accepted, but the fast
  path does not see it, then or later.
\<close>

theorem ktx_queue_stuck:
  assumes "0 < rxq_len st" "rxq_len st < txq_len st" "core = core_id (fp st)" "core = ucast (flow_group_steering (fp st) grp)"
    and "unat (ac_tx_len (kctx st core)) = 64 * unat (txq_len st)" "ac_tx_base (kctx st core) = txq_base st (ucast core)"
    and "unat (txq_base st (ucast core)) + 64 * unat (txq_len st) \<le> unat (shm_len (fpe env))" "evfd_write_ok env"
    and "txq_tail st (ucast core) = 0" "unat (ac_tx_head (kctx st core)) = 64 * unat (rxq_len st)"
    and free: "\<forall>i. i < unat (txq_len st) \<longrightarrow> ktx_get (txq_base st (ucast core)) (shm st) i = None"
  shows "\<exists>st'. nicif_connection_retransmit env tsc st f_id grp = Inr (0, st') \<and>
    ktx_get (txq_base st (ucast core)) (shm st') 0 = Some (Ktx_Connretran f_id) \<and>
    fast_kernel_poll env st' nbh ts = Some (Inr (-1, st'))"
proof -
  let ?c = "ucast core :: u32"
  let ?b = "txq_base st ?c"
  let ?m = "ktx_write (shm st) (entry_addr 64 ?b 0) (Ktx_Connretran f_id)"
  define st1 where "st1 = (set_shm st ?m)\<lparr>txq_tail := (txq_tail st)(?c := if 1 = rxq_len st then 1 - rxq_len st else 1)\<rparr>"
  have n: "unat (rxq_len st) < unat (txq_len st)" "0 < unat (txq_len st)" "0 < unat (rxq_len st)"
    using assms(1,2) by (simp_all add: word_less_nat_alt)
  obtain k v where notify: "notify_fastpath_core env tsc st1 core =
      Inr (st1\<lparr>kctx := (kctx st1)(core := (kctx st1 core)\<lparr>ac_last_ts := k\<rparr>), evfd_writes := evfd_writes st1 @ v\<rparr>)"
    using notify_fastpath_core_ok [OF assms(8)] by blast
  let ?st = "st1\<lparr>kctx := (kctx st1)(core := (kctx st1 core)\<lparr>ac_last_ts := k\<rparr>), evfd_writes := evfd_writes st1 @ v\<rparr>"
  have "mem_view (shm st) (entry_addr 64 ?b 0) 63 = 0"
    using free n(2) by (simp add: ktx_free)
  then have alloc: "ktx_try_alloc st ?c = Some (entry_addr 64 ?b 0, 0, if 1 = rxq_len st then 1 - rxq_len st else 1)"
    using assms(9) by (simp add: ktx_try_alloc_def Let_def)
  have "set_shm (st\<lparr>txq_tail := (txq_tail st)(?c := if 1 = rxq_len st then 1 - rxq_len st else 1)\<rparr>)
      (mem_put (mem_put (shm st) (entry_addr 64 ?b 0) 0 (u32_bytes f_id)) (entry_addr 64 ?b 0) 63 [2]) = st1"
    by (simp add: st1_def set_shm_def ktx_write_def)
  then have run: "nicif_connection_retransmit env tsc st f_id grp = Inr (0, ?st)"
    unfolding nicif_connection_retransmit_def assms(4) [symmetric] by (simp add: alloc notify Let_def)
  have "ktx_get ?b ?m (unat (rxq_len st)) = ktx_get ?b (shm st) (unat (rxq_len st))"
    using n ktx.get_put [of 0 "txq_len st" "unat (rxq_len st)" "Ktx_Connretran f_id" ?b "shm st"] by (simp add: ktx_wf_def)
  then have "mem_view (shm ?st) (entry_addr 64 ?b (unat (rxq_len st))) 63 = 0"
    using free n(1) by (simp add: st1_def ktx_free [symmetric])
  then have "fast_kernel_poll env ?st nbh ts = Some (Inr (-1, ?st))"
    using fast_kernel_poll_at [of core ?st env "unat (rxq_len st)" nbh ts] assms(3,5-7,10) n(1) by (simp add: st1_def set_shm_def)
  moreover have "ktx_get ?b (shm ?st) 0 = Some (Ktx_Connretran f_id)"
    using n(2) ktx.get_put [of 0 "txq_len st" 0 "Ktx_Connretran f_id" ?b "shm st"] by (simp add: st1_def ktx_wf_def)
  ultimately show ?thesis
    using run by blast
qed

theorem ktx_queue_stuck_witness:
  "\<exists>st'. nicif_connection_retransmit demo_tenv 9 (demo_tas\<lparr>rxq_len := 2, kctx := (\<lambda>_. demo_actx\<lparr>ac_tx_head := 128\<rparr>)\<rparr>) 3 0 = Inr (0, st') \<and>
     fast_kernel_poll demo_tenv st' demo_nbuf 7 = Some (Inr (-1, st'))"
  using ktx_queue_stuck [of "demo_tas\<lparr>rxq_len := 2, kctx := (\<lambda>_. demo_actx\<lparr>ac_tx_head := 128\<rparr>)\<rparr>" 0 0 demo_tenv 9 3 demo_nbuf 7]
  by (auto simp: demo_actx_def demo_env_def ktx_free mem_view_def)

end
