(* ===== verification/App_Queues.thy ===== *)
theory App_Queues
  imports Ktx_Queue
begin

text \<open>
  The queues between the fast path and the applications, \<^verbatim>\<open>tas/fast/fast_appctx.c\<close>, the flushing
  of the notification cache in \<^verbatim>\<open>tas/fast/fastemu.c\<close>, and the registration of a context in
  \<^verbatim>\<open>tas/slow/nicif.c\<close>.  Application transmit entries have 16 bytes, receive entries 32; the ten
  bytes of a receive entry that no field uses are left out.
\<close>

unbundle bit_operations_syntax

section \<open>Model\<close>

abbreviation (input) FLEXTCP_PL_ATX_CONNUPDATE :: u8 where "FLEXTCP_PL_ATX_CONNUPDATE \<equiv> 1"
abbreviation (input) FLEXNIC_PL_APPST_NUM :: u16 where "FLEXNIC_PL_APPST_NUM \<equiv> 8"
abbreviation (input) FLEXNIC_PL_APPST_CTX_NUM :: nat where "FLEXNIC_PL_APPST_CTX_NUM \<equiv> 31"

definition upd_appctx :: "tas \<Rightarrow> u32 \<Rightarrow> flextcp_pl_appctx \<Rightarrow> tas" where
  "upd_appctx st i ac =
     st\<lparr>appctx := (appctx st)(core_id (fp st) := (appctx st (core_id (fp st)))(i := ac))\<rparr>"

text \<open>The address of the entry, if there is one.\<close>

definition fast_appctx_poll_fetch :: "tas_env \<Rightarrow> tas \<Rightarrow> u32 \<Rightarrow> (u64 option \<times> tas) result" where
  "fast_appctx_poll_fetch env st i =
    (let ac = appctx st (core_id (fp st)) i in
     if ac_tx_len ac = 0 then Inr (None, st)
     else
       bind_res (dma_pointer (shm_len (fpe env)) (ac_tx_base ac + ucast (ac_tx_head ac)) 16) (\<lambda>atx.
       let b = mem_view (shm st) atx; type = b 15 in
       if type = 0 then Inr (None, st)
       else if type \<noteq> FLEXTCP_PL_ATX_CONNUPDATE then Inl Abort
       else if unat (get_u32 b 8) \<ge> FLEXNIC_PL_FLOWST_NUM then Inl Abort
       else
         let p = ac_tx_head ac + 16;
             p = (if p \<ge> ac_tx_len ac then p - ac_tx_len ac else p) in
         Inr (Some atx, upd_appctx st i (ac\<lparr>ac_tx_head := p\<rparr>))))"

definition fast_appctx_poll_bump :: "tas_env \<Rightarrow> tas \<Rightarrow> u64 \<Rightarrow> nbuf \<Rightarrow> u32 \<Rightarrow> (int \<times> tas) run" where
  "fast_appctx_poll_bump env st atx nbh ts =
    (let b = mem_view (shm st) atx in
     bind_run (fast_flows_bump (fpe env) (fp st) (get_u32 b 8) (get_u16 b 12) (get_u32 b 0) (get_u32 b 4) (b 14) nbh ts)
       (\<lambda>(ret, f). Some (Inr (if ret \<noteq> 0 then 1 else ret, st\<lparr>fp := f\<lparr>fp_shm := mem_put (fp_shm f) atx 15 [0]\<rparr>\<rparr>))))"

text \<open>The entry, and the context with its new registers.\<close>

definition fast_actx_rxq_alloc :: "tas_env \<Rightarrow> flextcp_pl_appctx \<Rightarrow> (u64 \<times> flextcp_pl_appctx) option result" where
  "fast_actx_rxq_alloc env ac =
    (if ac_rx_avail ac = 0 then Inr None
     else
       bind_res (dma_pointer (shm_len (fpe env)) (ac_rx_base ac + ucast (ac_rx_head ac)) 32) (\<lambda>arx.
       let rxnhead = ac_rx_head ac + 32;
           rxnhead = (if rxnhead \<ge> ac_rx_len ac then rxnhead - ac_rx_len ac else rxnhead) in
       Inr (Some (arx, ac\<lparr>ac_rx_head := rxnhead, ac_rx_avail := ac_rx_avail ac - 32\<rparr>))))"

text \<open>The loop makes at most \<^verbatim>\<open>2 * BATCH_SIZE\<close> rounds.\<close>

fun rxq_probe_loop :: "tas_env \<Rightarrow> mem \<Rightarrow> nat \<Rightarrow> u32 \<Rightarrow> flextcp_pl_appctx \<Rightarrow> flextcp_pl_appctx result" where
  "rxq_probe_loop env m 0 pos ac = Inr ac"
| "rxq_probe_loop env m (Suc n) pos ac =
    (if ac_rx_avail ac < ac_rx_len ac then
       bind_res (dma_pointer (shm_len (fpe env)) (ac_rx_base ac + ucast pos) 32) (\<lambda>arx.
       if mem_view m arx 31 \<noteq> 0 then Inr ac
       else
         let p = pos + 32; p = (if p \<ge> ac_rx_len ac then p - ac_rx_len ac else p) in
         rxq_probe_loop env m n p (ac\<lparr>ac_rx_avail := ac_rx_avail ac + 32\<rparr>))
     else Inr ac)"

definition fast_actx_rxq_probe :: "tas_env \<Rightarrow> tas \<Rightarrow> u32 \<Rightarrow> (int \<times> tas) result" where
  "fast_actx_rxq_probe env st i =
    (let ac = appctx st (core_id (fp st)) i in
     if ac_rx_avail ac > ac_rx_len ac div 2 then Inr (-1, st)
     else
       let pos = ac_rx_head ac + ac_rx_avail ac; pos = (if pos \<ge> ac_rx_len ac then pos - ac_rx_len ac else pos) in
       bind_res (rxq_probe_loop env (shm st) (2 * BATCH_SIZE) pos ac) (\<lambda>ac. Inr (0, upd_appctx st i ac)))"

definition arx_write :: "mem \<Rightarrow> u64 \<Rightarrow> flextcp_pl_arx \<Rightarrow> mem" where
  "arx_write m a e =
     mem_put (mem_put (mem_put (mem_put (mem_put (mem_put m a 0 (u64_bytes (arx_opaque e))) a 8 (u32_bytes (arx_rx_bump e)))
       a 12 (u32_bytes (arx_rx_pos e))) a 16 (u32_bytes (arx_tx_bump e))) a 20 [arx_flags e]) a 31 [arx_type e]"

text \<open>Flushing the cache: entries are allocated for all notifications, then written, then announced.\<close>

fun flush_alloc :: "tas_env \<Rightarrow> tas \<Rightarrow> (u16 \<times> flextcp_pl_arx) list \<Rightarrow> (u64 list \<times> tas) result" where
  "flush_alloc env st [] = Inr ([], st)"
| "flush_alloc env st ((c, e) # es) =
    bind_res (fast_actx_rxq_alloc env (appctx st (core_id (fp st)) (ucast c))) (\<lambda>r.
    case r of
      None \<Rightarrow> Inl Abort
    | Some (arx, ac) \<Rightarrow>
        bind_res (flush_alloc env (upd_appctx st (ucast c) ac) es) (\<lambda>(as, st). Inr (arx # as, st)))"

fun flush_notify :: "tas_env \<Rightarrow> u64 \<Rightarrow> tas \<Rightarrow> (u16 \<times> flextcp_pl_arx) list \<Rightarrow> tas result" where
  "flush_notify env tsc st [] = Inr st"
| "flush_notify env tsc st ((c, e) # es) =
    bind_res (notify_appctx env tsc st (core_id (fp st)) (ucast c)) (\<lambda>st. flush_notify env tsc st es)"

definition arx_cache_flush :: "tas_env \<Rightarrow> u64 \<Rightarrow> tas \<Rightarrow> tas result" where
  "arx_cache_flush env tsc st =
    (let es = arx_cache (fp st) in
     bind_res (flush_alloc env st es) (\<lambda>(as, st).
     let st = set_shm st (fold (\<lambda>(a, c, e) m. arx_write m a e) (zip as es) (shm st)) in
     bind_res (flush_notify env tsc st es) (\<lambda>st. Inr (st\<lparr>fp := (fp st)\<lparr>arx_cache := []\<rparr>\<rparr>))))"

text \<open>
  Registering a context for all cores.  The check of \<^verbatim>\<open>appid\<close> follows the computation of the
  address of its state only, so nothing is read before it.
\<close>

definition nicif_appctx_add ::
  "tas_env \<Rightarrow> u16 \<Rightarrow> tas \<Rightarrow> u16 \<Rightarrow> u32 \<Rightarrow> (u16 \<Rightarrow> u64) \<Rightarrow> u32 \<Rightarrow> (u16 \<Rightarrow> u64) \<Rightarrow> u32 \<Rightarrow> int \<Rightarrow> tas option"
where
  "nicif_appctx_add env cores_num st appid db rxq_bases rxqlen txq_bases txqlen evfd =
    (let ast = appst st appid in
     if appid \<ge> FLEXNIC_PL_APPST_NUM then None
     else if unat (ctx_num ast) + 1 \<ge> FLEXNIC_PL_APPST_CTX_NUM then None
     else
       let st = st\<lparr>appctx := (\<lambda>i. if i < cores_num
             then (appctx st i)(db := (appctx st i db)
               \<lparr>ac_appst_id := ucast appid, ac_rx_base := rxq_bases i, ac_tx_base := txq_bases i, ac_rx_avail := rxqlen,
                ac_evfd := evfd, ac_tx_len := txqlen, ac_rx_len := rxqlen\<rparr>)
             else appctx st i)\<rparr>;
           ast = ast\<lparr>ctx_ids := (ctx_ids ast)(ctx_num ast := ucast db), ctx_num := ctx_num ast + 1\<rparr> in
       Some (st\<lparr>appst := (appst st)(appid := ast)\<rparr>))"

end
