(* ===== verification/Krx_Queue.thy ===== *)
theory Krx_Queue
  imports Ktx_Queue
begin

text \<open>
  The kernel receive queue as a queue of packets: each entry has a buffer of its own in the
  shared memory, to which the fast path copies the packet.
\<close>

unbundle bit_operations_syntax

section \<open>Entries\<close>

text \<open>Type, length, core and flow group of an entry in use.\<close>

type_synonym krx_msg = "u8 \<times> u16 \<times> u16 \<times> u16"

definition krx_get :: "u64 \<Rightarrow> mem \<Rightarrow> nat \<Rightarrow> krx_msg option" where
  "krx_get base m i =
    (let b = mem_view m (entry_addr 64 base i) in
     if b 63 = 0 then None else Some (b 63, get_u16 b 8, get_u16 b 10, get_u16 b 12))"

definition krx_write :: "mem \<Rightarrow> u64 \<Rightarrow> krx_msg \<Rightarrow> mem" where
  "krx_write m a = (\<lambda>(t, len, core, grp).
     mem_put (mem_put (mem_put (mem_put m a 12 (u16_bytes grp)) a 8 (u16_bytes len)) a 10 (u16_bytes core)) a 63 [t])"

lemma krx_fields:
  "has_bytes (mem_view (krx_write m a (t, len, core, grp)) a) 8 (u16_bytes len)"
  "has_bytes (mem_view (krx_write m a (t, len, core, grp)) a) 10 (u16_bytes core)"
  "has_bytes (mem_view (krx_write m a (t, len, core, grp)) a) 12 (u16_bytes grp)"
  unfolding krx_write_def prod.case
    apply (rule has_bytes_put_other, rule has_bytes_put_other, rule has_bytes_put; simp)
   apply (rule has_bytes_put_other, rule has_bytes_put; simp)
  apply (rule has_bytes_put_other, rule has_bytes_put_other, rule has_bytes_put_other, rule has_bytes_put; simp)
  done

lemma krx_get_write: "t \<noteq> 0 \<Longrightarrow> krx_get base (krx_write m (entry_addr 64 base i) (t, len, core, grp)) i = Some (t, len, core, grp)"
  using get_u16_bytes [OF krx_fields(1)] get_u16_bytes [OF krx_fields(2)] get_u16_bytes [OF krx_fields(3)]
  by (simp add: krx_get_def Let_def krx_write_def mem_view_put)

lemma krx_get_cong:
  assumes "\<And>k. k < 64 \<Longrightarrow> mem_view m' (entry_addr 64 base i) k = mem_view m (entry_addr 64 base i) k"
  shows "krx_get base m' i = krx_get base m i"
  using assms by (simp add: krx_get_def Let_def get_u16_def)

lemma krx_write_other:
  assumes "i \<noteq> j" "i < 4294967296" "j < 4294967296" "k < 64"
  shows "mem_view (krx_write m (entry_addr 64 base i) e) (entry_addr 64 base j) k = mem_view m (entry_addr 64 base j) k"
  using assms by (cases e) (simp add: krx_write_def mem_view_other)

interpretation krx: flag_ring "unat (len :: u32)" "krx_get base" "\<lambda>m i. krx_write m (entry_addr 64 base i)"
  "\<lambda>m i. mem_put m (entry_addr 64 base i) 63 [0]" "\<lambda>e. fst e \<noteq> 0" for len base
proof
  fix i j and e :: krx_msg and m :: mem
  assume ij: "i < unat len" "j < unat len" "fst e \<noteq> 0"
  then have lt: "i < 4294967296" "j < 4294967296"
    using unat_u32_bound [of len] by simp_all
  show "krx_get base (krx_write m (entry_addr 64 base i) e) j = (if j = i then Some e else krx_get base m j)"
    using ij(3) lt krx_write_other [of i j _ m base e] by (cases e) (auto simp: krx_get_write intro: krx_get_cong)
next
  fix i j and m :: mem
  assume "i < unat len" "j < unat len"
  then have lt: "i < 4294967296" "j < 4294967296"
    using unat_u32_bound [of len] by simp_all
  show "krx_get base (mem_put m (entry_addr 64 base i) 63 [0]) j = (if j = i then None else krx_get base m j)"
  proof (cases "j = i")
    case True
    then show ?thesis
      by (simp add: krx_get_def mem_view_put)
  next
    case False
    then show ?thesis
      using lt mem_view_other [of i j 63 "[0]" 64 _ m base] by (auto intro: krx_get_cong)
  qed
qed

lemma krx_free: "krx_get base m i = None \<longleftrightarrow> mem_view m (entry_addr 64 base i) 63 = 0"
  by (simp add: krx_get_def Let_def)

section \<open>Regions\<close>

lemma outside:
  assumes "unat (a::u64) + n \<le> 18446744073709551616" "unat x < unat a \<or> unat a + n \<le> unat x"
  shows "\<not> unat (x - a) < n"
  using assms unat_u64_sub [of x a] unat_u64_bound [of x] by (auto split: if_splits)

lemma mem_put_outside:
  assumes "unat a + 64 \<le> 18446744073709551616" "unat x < unat a \<or> unat a + 64 \<le> unat x" "k + length xs \<le> 64"
  shows "mem_put m a k xs x = m x"
  using outside [OF assms(1,2)] assms(3) by (simp add: mem_put_def Let_def)

lemma krx_write_outside:
  assumes "unat a + 64 \<le> 18446744073709551616" "unat x < unat a \<or> unat a + 64 \<le> unat x"
  shows "krx_write m a e x = m x"
  using mem_put_outside [OF assms] by (cases e) (simp add: krx_write_def)

lemma unat_entry_addr:
  assumes "unat base + sz * n \<le> 18446744073709551615" "i < n" "k \<le> sz"
  shows "unat (entry_addr sz base i + of_nat k) = unat base + sz * i + k"
proof -
  have "sz * i + sz \<le> sz * n"
    using mult_le_mono2 [of "Suc i" n sz] assms(2) by simp
  then have "sz * i + k \<le> sz * n"
    using assms(3) by linarith
  then show ?thesis
    using unat_addr_diff [of base "sz * n" "sz * i + k"] assms(1) by (simp add: entry_addr_def add.assoc)
qed

section \<open>The queue\<close>

text \<open>
  Where the queue of a core lies: the ring and its buffers are disjoint parts of the shared
  memory, and the address field of every entry names its buffer.
\<close>

definition krx_layout :: "tas_env \<Rightarrow> tas \<Rightarrow> u16 \<Rightarrow> u64 \<Rightarrow> bool" where
  "krx_layout env st core B \<longleftrightarrow>
    64 * unat (rxq_len st) < 4294967296 \<and>
    unat (ac_rx_len (kctx st core)) = 64 * unat (rxq_len st) \<and>
    ac_rx_base (kctx st core) = rxq_base st (ucast core) \<and>
    unat (rxq_base st (ucast core)) + 64 * unat (rxq_len st) \<le> unat (shm_len (fpe env)) \<and>
    unat B + 1536 * unat (rxq_len st) \<le> unat (shm_len (fpe env)) \<and>
    (unat (rxq_base st (ucast core)) + 64 * unat (rxq_len st) \<le> unat B \<or>
     unat B + 1536 * unat (rxq_len st) \<le> unat (rxq_base st (ucast core))) \<and>
    (\<forall>i < unat (rxq_len st). rxq_bufs st (ucast core) (of_nat i) = entry_addr 1536 B i \<and>
       get_u64 (mem_view (shm st) (entry_addr 64 (rxq_base st (ucast core)) i)) 0 = entry_addr 1536 B i)"

text \<open>The packets in the queue, with the contents of their entries.\<close>

definition krx_queue :: "tas_env \<Rightarrow> tas \<Rightarrow> u16 \<Rightarrow> u64 \<Rightarrow> (krx_msg \<times> u8 list) list \<Rightarrow> bool" where
  "krx_queue env st core B xs \<longleftrightarrow> krx_layout env st core B \<and>
    (\<exists>t. unat (ac_rx_head (kctx st core)) = 64 * t \<and>
       ring_holds (unat (rxq_len st)) (krx_get (rxq_base st (ucast core))) (shm st)
         (unat (rxq_tail st (ucast core))) t (map fst xs)) \<and>
    (\<forall>k < length xs. has_bytes (mem_view (shm st)
       (entry_addr 1536 B ((unat (rxq_tail st (ucast core)) + k) mod unat (rxq_len st)))) 0 (snd (xs ! k)) \<and>
       length (snd (xs ! k)) \<le> 1536)"

lemma krx_layout_bounds:
  assumes "krx_layout env st core B"
  shows "unat (rxq_base st (ucast core)) + 64 * unat (rxq_len st) \<le> 18446744073709551615"
    "unat B + 1536 * unat (rxq_len st) \<le> 18446744073709551615"
  using assms unat_u64_bound [of "shm_len (fpe env)"] by (auto simp: krx_layout_def)

text \<open>An address of a buffer, an address of an entry, and an address of another buffer are different.\<close>

lemma krx_disjoint:
  assumes l: "krx_layout env st core B" and i: "i < unat (rxq_len st)" "k < 1536" and j: "j < unat (rxq_len st)" "k' < 64"
  defines "x \<equiv> entry_addr 1536 B i + of_nat k" and "y \<equiv> entry_addr 64 (rxq_base st (ucast core)) j"
  shows "unat x < unat y \<or> unat y + 64 \<le> unat x"
    "unat (y + of_nat k') < unat (entry_addr 1536 B i) \<or> unat (entry_addr 1536 B i) + 1536 \<le> unat (y + of_nat k')"
    "unat y + 64 \<le> 18446744073709551616" "unat (entry_addr 1536 B i) + 1536 \<le> 18446744073709551616"
    "j \<noteq> i \<Longrightarrow> unat x < unat (entry_addr 1536 B j) \<or> unat (entry_addr 1536 B j) + 1536 \<le> unat x"
proof -
  note b = krx_layout_bounds [OF l]
  have x: "unat x = unat B + 1536 * i + k"
    using unat_entry_addr [OF b(2) i(1), of k] i(2) by (simp add: x_def)
  have y: "unat y = unat (rxq_base st (ucast core)) + 64 * j" "unat (y + of_nat k') = unat (rxq_base st (ucast core)) + 64 * j + k'"
    using unat_entry_addr [OF b(1) j(1), of 0] unat_entry_addr [OF b(1) j(1), of k'] j(2) by (simp_all add: y_def)
  have Bi: "unat (entry_addr 1536 B i) = unat B + 1536 * i" "unat (entry_addr 1536 B j) = unat B + 1536 * j"
    using unat_entry_addr [OF b(2) i(1), of 0] unat_entry_addr [OF b(2) j(1), of 0] by simp_all
  have s: "1536 * i + 1536 \<le> 1536 * unat (rxq_len st)" "64 * j + 64 \<le> 64 * unat (rxq_len st)"
    using i(1) j(1) by linarith+
  have d: "unat (rxq_base st (ucast core)) + 64 * unat (rxq_len st) \<le> unat B \<or>
     unat B + 1536 * unat (rxq_len st) \<le> unat (rxq_base st (ucast core))"
    using l by (simp add: krx_layout_def)
  show "unat x < unat y \<or> unat y + 64 \<le> unat x" "unat y + 64 \<le> 18446744073709551616"
    "unat (y + of_nat k') < unat (entry_addr 1536 B i) \<or> unat (entry_addr 1536 B i) + 1536 \<le> unat (y + of_nat k')"
    "unat (entry_addr 1536 B i) + 1536 \<le> 18446744073709551616"
    using d s b i(2) j(2) unfolding x y Bi by linarith+
  show "j \<noteq> i \<Longrightarrow> unat x < unat (entry_addr 1536 B j) \<or> unat (entry_addr 1536 B j) + 1536 \<le> unat x"
    using i(2) unfolding x Bi by (cases "i < j") linarith+
qed

lemma krx_write_addr: "get_u64 (mem_view (krx_write m a e) a) 0 = get_u64 (mem_view m a) 0"
  by (cases e) (simp add: krx_write_def get_u64_def get_u32_def get_beui32_def mem_view_put)

text \<open>A memory in which only the buffer of entry \<open>t\<close> has changed.\<close>

definition only_buf :: "u64 \<Rightarrow> nat \<Rightarrow> mem \<Rightarrow> mem \<Rightarrow> bool" where
  "only_buf B t m m' \<longleftrightarrow>
     (\<forall>x. unat x < unat (entry_addr 1536 B t) \<or> unat (entry_addr 1536 B t) + 1536 \<le> unat x \<longrightarrow> m' x = m x)"

lemma only_buf_entry:
  assumes "krx_layout env st core B" "only_buf B t m m'" "t < unat (rxq_len st)" "j < unat (rxq_len st)" "k < 64"
  shows "mem_view m' (entry_addr 64 (rxq_base st (ucast core)) j) k = mem_view m (entry_addr 64 (rxq_base st (ucast core)) j) k"
  using krx_disjoint(2) [OF assms(1,3) _ assms(4,5), of 0] assms(2) by (auto simp: only_buf_def mem_view_def)

lemma only_buf_other:
  assumes "krx_layout env st core B" "only_buf B t m m'" "t < unat (rxq_len st)" "s < unat (rxq_len st)" "s \<noteq> t" "k < 1536"
  shows "mem_view m' (entry_addr 1536 B s) k = mem_view m (entry_addr 1536 B s) k"
  using krx_disjoint(5) [OF assms(1,4,6,3), of 0] assms(2,5) by (auto simp: only_buf_def mem_view_def)

lemma krx_write_buf:
  assumes "krx_layout env st core B" "s < unat (rxq_len st)" "t < unat (rxq_len st)" "k < 1536"
  shows "mem_view (krx_write m (entry_addr 64 (rxq_base st (ucast core)) t) e) (entry_addr 1536 B s) k = mem_view m (entry_addr 1536 B s) k"
  using krx_disjoint(1,3) [OF assms(1,2,4,3), of 0] by (simp add: mem_view_def krx_write_outside)

lemma has_bytes_view_cong:
  assumes "\<And>k. k < 1536 \<Longrightarrow> mem_view m' a k = mem_view m a k" "length bs \<le> 1536"
  shows "has_bytes (mem_view m' a) 0 bs \<longleftrightarrow> has_bytes (mem_view m a) 0 bs"
  using assms by (auto simp: has_bytes_def)

lemma krx_enqueue_ring:
  assumes q: "krx_queue env st core B xs" and l: "length xs < unat (rxq_len st)"
    and t: "unat (ac_rx_head (kctx st core)) = 64 * t" and m1: "only_buf B t (shm st) m1" and e: "fst e \<noteq> 0"
  defines "base \<equiv> rxq_base st (ucast core)" and "n \<equiv> unat (rxq_len st)" and "h \<equiv> unat (rxq_tail st (ucast core))"
  shows "t = (h + length xs) mod n" "mem_view (shm st) (entry_addr 64 base t) 63 = 0"
    "ring_holds n (krx_get base) (krx_write m1 (entry_addr 64 base t) e) h (Suc t mod n) (map fst xs @ [e])"
proof -
  have lay: "krx_layout env st core B" and r: "ring_holds n (krx_get base) (shm st) h t (map fst xs)"
    using q t by (auto simp: krx_queue_def base_def n_def h_def)
  then show t': "t = (h + length xs) mod n"
    by (simp add: ring_holds_def)
  have tn: "t < n"
    using krx.tail_lt [OF r [unfolded n_def]] by (simp add: n_def)
  have free: "krx_get base (shm st) t = None"
    using krx.tail_free [OF r [unfolded n_def]] l by simp
  then show "mem_view (shm st) (entry_addr 64 base t) 63 = 0"
    by (simp add: krx_free)
  have same: "krx_get base m1 j = krx_get base (shm st) j" if "j < n" for j
    using only_buf_entry [OF lay m1] tn that by (intro krx_get_cong) (simp add: base_def n_def)
  have r1: "ring_holds n (krx_get base) m1 h t (map fst xs)"
    using r same by (subst ring_holds_cong) auto
  show "ring_holds n (krx_get base) (krx_write m1 (entry_addr 64 base t) e) h (Suc t mod n) (map fst xs @ [e])"
    using krx.enqueue [OF r1 [unfolded n_def] _ e] same [OF tn] free by (simp add: n_def)
qed

lemma krx_queue_enqueue:
  assumes q: "krx_queue env st core B xs" and l: "length xs < unat (rxq_len st)" and bs: "length bs \<le> 1536"
    and t: "unat (ac_rx_head (kctx st core)) = 64 * t" and m1: "only_buf B t (shm st) m1"
    and w: "has_bytes (mem_view m1 (entry_addr 1536 B t)) 0 bs" and e: "fst e \<noteq> 0"
    and p: "unat p = 64 * (Suc t mod unat (rxq_len st))"
  shows "krx_queue env ((set_shm st (krx_write m1 (entry_addr 64 (rxq_base st (ucast core)) t) e))
      \<lparr>kctx := (kctx st)(core := (kctx st core)\<lparr>ac_rx_head := p\<rparr>)\<rparr>) core B (xs @ [(e, bs)])"
proof -
  let ?base = "rxq_base st (ucast core)" and ?n = "unat (rxq_len st)" and ?h = "unat (rxq_tail st (ucast core))"
  let ?m = "krx_write m1 (entry_addr 64 ?base t) e"
  note ring = krx_enqueue_ring [OF q l t m1 e]
  have lay: "krx_layout env st core B"
    using q by (simp add: krx_queue_def)
  have tn: "t < ?n"
    using ring(1) l by simp
  have addr: "get_u64 (mem_view ?m (entry_addr 64 ?base i)) 0 = get_u64 (mem_view (shm st) (entry_addr 64 ?base i)) 0" if i: "i < ?n" for i
  proof -
    have "get_u64 (mem_view ?m (entry_addr 64 ?base i)) 0 = get_u64 (mem_view m1 (entry_addr 64 ?base i)) 0"
    proof (cases "i = t")
      case False
      then show ?thesis
        using krx_write_other [of t i _ m1 ?base e] tn i unat_u32_bound [of "rxq_len st"]
        by (simp add: get_u64_def get_u32_def get_beui32_def)
    qed (simp add: krx_write_addr)
    then show ?thesis
      using only_buf_entry [OF lay m1 tn i] by (simp add: get_u64_def get_u32_def get_beui32_def)
  qed
  have old: "has_bytes (mem_view ?m (entry_addr 1536 B ((?h + k) mod ?n))) 0 (snd (xs ! k))" if k: "k < length xs" for k
  proof -
    have s: "(?h + k) mod ?n < ?n" "(?h + k) mod ?n \<noteq> t"
      using tn k l ring(1) add_mod_inj_nat [of ?h k ?n "length xs"] by auto
    have b: "has_bytes (mem_view (shm st) (entry_addr 1536 B ((?h + k) mod ?n))) 0 (snd (xs ! k))" "length (snd (xs ! k)) \<le> 1536"
      using q k by (simp_all add: krx_queue_def)
    have "mem_view ?m (entry_addr 1536 B ((?h + k) mod ?n)) i = mem_view (shm st) (entry_addr 1536 B ((?h + k) mod ?n)) i" if "i < 1536" for i
      using krx_write_buf [OF lay s(1) tn that] only_buf_other [OF lay m1 tn s that] by simp
    then show ?thesis
      using b has_bytes_view_cong by blast
  qed
  have new: "has_bytes (mem_view ?m (entry_addr 1536 B t)) 0 bs"
    using has_bytes_view_cong [OF krx_write_buf [OF lay tn tn] bs] w by simp
  have "has_bytes (mem_view ?m (entry_addr 1536 B ((?h + k) mod ?n))) 0 (snd ((xs @ [(e, bs)]) ! k)) \<and> length (snd ((xs @ [(e, bs)]) ! k)) \<le> 1536"
    if "k < length (xs @ [(e, bs)])" for k
  proof (cases "k < length xs")
    case True
    then show ?thesis
      using old q by (simp add: nth_append krx_queue_def)
  next
    case False
    then have "k = length xs"
      using that by simp
    then show ?thesis
      using new ring(1) bs by simp
  qed
  moreover have "krx_layout env ((set_shm st ?m)\<lparr>kctx := (kctx st)(core := (kctx st core)\<lparr>ac_rx_head := p\<rparr>)\<rparr>) core B"
    using lay addr by (simp add: krx_layout_def)
  ultimately show ?thesis
    using ring(3) p by (simp add: krx_queue_def)
qed

lemma notify_slowpath_core_ok:
  assumes "evfd_write_ok env"
  shows "\<exists>l w. notify_slowpath_core env tsc st = Inr (st\<lparr>sp_last_ts := l, evfd_writes := evfd_writes st @ w\<rparr>)"
proof -
  obtain w l where "notify_core True (kernel_notifyfd env) (sp_last_ts st) tsc (poll_cycle_tas env) = Inr (w, l)"
    using notify_core_ok by blast
  then show ?thesis
    using assms by (auto simp: notify_slowpath_core_def)
qed

lemma krx_queue_notify: "krx_queue env (st\<lparr>sp_last_ts := l, evfd_writes := w\<rparr>) core B xs = krx_queue env st core B xs"
  by (simp add: krx_queue_def krx_layout_def)

lemma krx_ptr:
  assumes lay: "krx_layout env st core B" and t: "unat (ac_rx_head (kctx st core)) = 64 * t" "t < unat (rxq_len st)"
  shows "ac_rx_base (kctx st core) + ucast (ac_rx_head (kctx st core)) = entry_addr 64 (rxq_base st (ucast core)) t"
    "dma_pointer (shm_len (fpe env)) (entry_addr 64 (rxq_base st (ucast core)) t) 64 = Inr (entry_addr 64 (rxq_base st (ucast core)) t)"
    "ac_rx_len (kctx st core) \<noteq> 0"
proof -
  let ?a = "entry_addr 64 (rxq_base st (ucast core)) t"
  show "ac_rx_base (kctx st core) + ucast (ac_rx_head (kctx st core)) = ?a"
    using entry_addr_head [OF t(1)] lay by (simp add: krx_layout_def)
  have "64 * t + 64 \<le> 64 * unat (rxq_len st)"
    using t(2) by simp
  moreover have "unat (rxq_base st (ucast core)) + 64 * unat (rxq_len st) \<le> unat (shm_len (fpe env))"
    using lay by (simp add: krx_layout_def)
  ultimately have "unat ?a + 64 \<le> unat (shm_len (fpe env))"
    using unat_entry_addr [OF krx_layout_bounds(1) [OF lay] t(2), of 0] by simp
  then show "dma_pointer (shm_len (fpe env)) ?a 64 = Inr ?a"
    using unat_u64_bound [of "shm_len (fpe env)"] by (simp add: dma_pointer_def dma_ok_nat)
  show "ac_rx_len (kctx st core) \<noteq> 0"
    using lay t(2) by (auto simp: krx_layout_def u32_eq_iff)
qed

text \<open>What the copy of a packet does to the shared memory.\<close>

lemma krx_copy:
  assumes lay: "krx_layout env st core B" and t: "t < unat (rxq_len st)" and len: "unat (len :: u16) \<le> 1536"
  obtains m1 where "dma_write (shm_len (fpe env)) m (entry_addr 1536 B t) (ucast len) b 0 = Inr m1" "only_buf B t m m1"
    "has_bytes (mem_view m1 (entry_addr 1536 B t)) 0 (map b [0..<unat len])"
proof -
  let ?a = "entry_addr 1536 B t"
  let ?m = "\<lambda>x. if unat (x - ?a) < unat len then b (unat (x - ?a)) else m x"
  have l: "unat (ucast len :: u64) = unat len"
    by (simp add: unsigned_ucast_eq take_bit_eq_mod order.strict_trans [OF unat_u16_bound])
  have "1536 * t + 1536 \<le> 1536 * unat (rxq_len st)"
    using t by linarith
  moreover have "unat B + 1536 * unat (rxq_len st) \<le> unat (shm_len (fpe env))"
    using lay by (simp add: krx_layout_def)
  ultimately have a: "unat ?a + 1536 \<le> unat (shm_len (fpe env))"
    using unat_entry_addr [OF krx_layout_bounds(2) [OF lay] t, of 0] by simp
  then have "dma_ok (shm_len (fpe env)) ?a (ucast len)"
    using l len unat_u64_bound [of "shm_len (fpe env)"] by (auto simp: dma_ok_nat)
  then have "dma_write (shm_len (fpe env)) m ?a (ucast len) b 0 = Inr ?m"
    using l by (simp add: dma_write_def cong: if_cong)
  moreover have "only_buf B t m ?m"
    using outside [of ?a 1536] a len unat_u64_bound [of "shm_len (fpe env)"] by (fastforce simp: only_buf_def)
  moreover have "has_bytes (mem_view ?m ?a) 0 (map b [0..<unat len])"
    using len by (simp add: has_bytes_def mem_view_def unat_of_nat)
  ultimately show thesis
    using that by blast
qed

lemma fast_kernel_packet_queues:
  assumes q: "krx_queue env st core B xs" and core: "core = core_id (fp st)" and w: "evfd_write_ok env"
    and len: "unat (nb_len nbh) \<le> 1536"
  shows "if length xs = unat (rxq_len st) then fast_kernel_packet env tsc st nbh rss = Inr (st\<lparr>kernel_drop := kernel_drop st + 1\<rparr>)
    else \<exists>st'. fast_kernel_packet env tsc st nbh rss = Inr st' \<and>
      krx_queue env st' core B (xs @ [((FLEXTCP_PL_KRX_PACKET, nb_len nbh, core, network_buf_flowgroup env rss),
        map (bytes_of_pkt (nb_pkt nbh)) [0..<unat (nb_len nbh)])])"
proof -
  let ?n = "unat (rxq_len st)" and ?base = "rxq_base st (ucast core)" and ?kc = "kctx st core"
  obtain t where t: "unat (ac_rx_head ?kc) = 64 * t" "ring_holds ?n (krx_get ?base) (shm st) (unat (rxq_tail st (ucast core))) t (map fst xs)"
    and lay: "krx_layout env st core B"
    using q by (auto simp: krx_queue_def)
  have tn: "t < ?n"
    using krx.tail_lt [OF t(2)] .
  note ptr = krx_ptr [OF lay t(1) tn]
  let ?a = "entry_addr 64 ?base t" and ?e = "(FLEXTCP_PL_KRX_PACKET, nb_len nbh, core, network_buf_flowgroup env rss)"
  have full: "mem_view (shm st) ?a 63 = 0 \<longleftrightarrow> length xs < ?n"
    using krx.tail_free [OF t(2)] by (simp add: krx_free)
  show ?thesis
  proof (cases "length xs = ?n")
    case True
    then show ?thesis
      using full ptr by (simp add: fast_kernel_packet_def Let_def core [symmetric])
  next
    case False
    then have l: "length xs < ?n"
      using t(2) by (simp add: ring_holds_def)
    obtain m1 where m1: "dma_write (shm_len (fpe env)) (shm st) (entry_addr 1536 B t) (ucast (nb_len nbh)) (bytes_of_pkt (nb_pkt nbh)) 0 = Inr m1"
      "only_buf B t (shm st) m1" "has_bytes (mem_view m1 (entry_addr 1536 B t)) 0 (map (bytes_of_pkt (nb_pkt nbh)) [0..<unat (nb_len nbh)])"
      by (rule krx_copy [OF lay tn len])
    define p where "p = (if ac_rx_head ?kc + 64 \<ge> ac_rx_len ?kc then ac_rx_head ?kc + 64 - ac_rx_len ?kc else ac_rx_head ?kc + 64)"
    have "unat (ac_rx_len ?kc) = 64 * ?n"
      using lay by (simp add: krx_layout_def)
    then have p: "unat p = 64 * (Suc t mod ?n)"
      using unat_head_next [OF t(1) _ tn] by (simp add: p_def)
    let ?st = "(set_shm st (krx_write m1 ?a ?e))\<lparr>kctx := (kctx st)(core := ?kc\<lparr>ac_rx_head := p\<rparr>)\<rparr>"
    obtain k v where n: "notify_slowpath_core env tsc ?st = Inr (?st\<lparr>sp_last_ts := k, evfd_writes := evfd_writes ?st @ v\<rparr>)"
      using notify_slowpath_core_ok [OF w] by blast
    have "get_u64 (mem_view (shm st) ?a) 0 = entry_addr 1536 B t"
      using lay tn by (simp add: krx_layout_def)
    moreover have "set_shm (st\<lparr>kctx := (kctx st)(core := ?kc\<lparr>ac_rx_head := p\<rparr>)\<rparr>) (krx_write m1 ?a ?e) = ?st"
      by (simp add: set_shm_def)
    ultimately have "fast_kernel_packet env tsc st nbh rss = notify_slowpath_core env tsc ?st"
      using ptr full l m1(1) unfolding fast_kernel_packet_def Let_def core [symmetric]
      by (simp add: p_def [symmetric] krx_write_def)
    moreover have "krx_queue env (?st\<lparr>sp_last_ts := k, evfd_writes := evfd_writes ?st @ v\<rparr>) core B
        (xs @ [(?e, map (bytes_of_pkt (nb_pkt nbh)) [0..<unat (nb_len nbh)])])"
      unfolding krx_queue_notify using krx_queue_enqueue [OF q l _ t(1) m1(2,3) _ p] len by simp
    ultimately show ?thesis
      using False n by auto
  qed
qed

text \<open>Taking the first packet out of the queue.\<close>

lemma clear_buf:
  assumes "krx_layout env st core B" "s < unat (rxq_len st)" "t < unat (rxq_len st)" "k < 1536"
  shows "mem_view (mem_put m (entry_addr 64 (rxq_base st (ucast core)) t) 63 [v]) (entry_addr 1536 B s) k = mem_view m (entry_addr 1536 B s) k"
  using krx_disjoint(1,3) [OF assms(1,2,4,3), of 0] by (simp add: mem_view_def mem_put_outside)

lemma krx_queue_dequeue:
  assumes q: "krx_queue env st core B (x # xs)" and p: "unat p = Suc (unat (rxq_tail st (ucast core))) mod unat (rxq_len st)"
  shows "krx_queue env ((set_shm st (mem_put (shm st) (entry_addr 64 (rxq_base st (ucast core)) (unat (rxq_tail st (ucast core)))) 63 [0]))
      \<lparr>rxq_next := c, rxq_tail := (rxq_tail st)(ucast core := p)\<rparr>) core B xs"
proof -
  let ?base = "rxq_base st (ucast core)" and ?n = "unat (rxq_len st)" and ?h = "unat (rxq_tail st (ucast core))"
  let ?m = "mem_put (shm st) (entry_addr 64 ?base ?h) 63 [0]"
  obtain t where t: "unat (ac_rx_head (kctx st core)) = 64 * t" "ring_holds ?n (krx_get ?base) (shm st) ?h t (map fst (x # xs))"
    and lay: "krx_layout env st core B"
    using q by (auto simp: krx_queue_def)
  have h: "?h < ?n"
    using t(2) by (simp add: ring_holds_def)
  have addr: "get_u64 (mem_view ?m (entry_addr 64 ?base i)) 0 = get_u64 (mem_view (shm st) (entry_addr 64 ?base i)) 0" if i: "i < ?n" for i
  proof (cases "i = ?h")
    case True
    then show ?thesis
      by (simp add: get_u64_def get_u32_def get_beui32_def mem_view_put)
  next
    case False
    then show ?thesis
      using mem_view_other [of ?h i 63 "[0]" 64 _ "shm st" ?base] h i unat_u32_bound [of "rxq_len st"]
      by (simp add: get_u64_def get_u32_def get_beui32_def)
  qed
  have buf: "has_bytes (mem_view ?m (entry_addr 1536 B ((unat p + k) mod ?n))) 0 (snd (xs ! k)) \<and> length (snd (xs ! k)) \<le> 1536"
    if k: "k < length xs" for k
  proof -
    have s: "(unat p + k) mod ?n = (?h + Suc k) mod ?n" "(?h + Suc k) mod ?n < ?n"
      unfolding p using h by (simp_all add: mod_add_left_eq)
    have "has_bytes (mem_view (shm st) (entry_addr 1536 B ((?h + Suc k) mod ?n))) 0 (snd (xs ! k))" "length (snd (xs ! k)) \<le> 1536"
      using q k unfolding krx_queue_def by fastforce+
    then show ?thesis
      unfolding s(1) using has_bytes_view_cong [OF clear_buf [OF lay s(2) h]] by blast
  qed
  have "krx_layout env ((set_shm st ?m)\<lparr>rxq_next := c, rxq_tail := (rxq_tail st)(ucast core := p)\<rparr>) core B"
    using lay addr by (simp add: krx_layout_def)
  moreover have "ring_holds ?n (krx_get ?base) ?m (unat p) t (map fst xs)"
    using krx.dequeue [OF t(2) [unfolded list.map]] by (simp add: p)
  ultimately show ?thesis
    using t(1) buf by (simp add: krx_queue_def)
qed

lemma rxq_poll_queues:
  assumes q: "krx_queue env st core B xs" and core: "rxq_next st = ucast core" and "fn_cores st \<noteq> 0"
  shows "case xs of
     [] \<Rightarrow> \<exists>st'. rxq_poll st tcp_ret = Inr (-1, [], st') \<and> krx_queue env st' core B []
   | ((type, len, c, grp), bs) # ys \<Rightarrow> type = FLEXTCP_PL_KRX_PACKET \<longrightarrow>
       (\<exists>st' b. rxq_poll st tcp_ret = Inr (0, process_packet (tcp_ret b) b len (ucast c) grp, st') \<and>
          has_bytes b 0 bs \<and> krx_queue env st' core B ys)"
proof -
  let ?n = "unat (rxq_len st)" and ?base = "rxq_base st (ucast core)" and ?t = "rxq_tail st (ucast core)"
  let ?a = "entry_addr 64 ?base (unat ?t)" and ?c = "(rxq_next st + 1) mod fn_cores st"
  obtain t where t: "ring_holds ?n (krx_get ?base) (shm st) (unat ?t) t (map fst xs)" and lay: "krx_layout env st core B"
    using q by (auto simp: krx_queue_def)
  note head = krx.head_used [OF t]
  have h: "unat ?t < ?n" "?t < rxq_len st"
    using t by (simp_all add: ring_holds_def word_less_nat_alt)
  show ?thesis
  proof (cases xs)
    case Nil
    then have "mem_view (shm st) ?a 63 = 0"
      using head by (simp add: krx_free)
    then have "rxq_poll st tcp_ret = Inr (-1, [], st\<lparr>rxq_next := ?c\<rparr>)"
      using assms(3) by (simp add: rxq_poll_def Let_def core)
    moreover have "krx_queue env (st\<lparr>rxq_next := ?c\<rparr>) core B []"
      using q Nil by (simp add: krx_queue_def krx_layout_def)
    ultimately show ?thesis
      using Nil by simp
  next
    case (Cons x ys)
    obtain ty len c grp bs where x: "x = ((ty, len, c, grp), bs)"
      by (metis surj_pair)
    define p where "p = (if ?t + 1 = rxq_len st then ?t + 1 - rxq_len st else ?t + 1)"
    let ?b = "mem_view (shm st) (rxq_bufs st (ucast core) ?t)"
    let ?st = "(set_shm st (mem_put (shm st) ?a 63 [0]))\<lparr>rxq_next := ?c, rxq_tail := (rxq_tail st)(ucast core := p)\<rparr>"
    have e: "mem_view (shm st) ?a 63 = ty" "ty \<noteq> 0" "get_u16 (mem_view (shm st) ?a) 8 = len" "get_u16 (mem_view (shm st) ?a) 10 = c"
      "get_u16 (mem_view (shm st) ?a) 12 = grp"
      using head Cons x by (auto simp: krx_get_def Let_def split: if_splits)
    have "rxq_bufs st (ucast core) (of_nat (unat ?t)) = entry_addr 1536 B (unat ?t)"
      using lay h(1) unfolding krx_layout_def by blast
    then have "rxq_bufs st (ucast core) ?t = entry_addr 1536 B (unat ?t)"
      by simp
    moreover have "has_bytes (mem_view (shm st) (entry_addr 1536 B ((unat ?t + 0) mod ?n))) 0 (snd (xs ! 0))"
      using q Cons unfolding krx_queue_def by blast
    ultimately have "has_bytes ?b 0 bs"
      using Cons x h(1) by simp
    moreover have "rxq_poll st tcp_ret = Inr (0, process_packet (tcp_ret ?b) ?b len (ucast c) grp, ?st)" if "ty = FLEXTCP_PL_KRX_PACKET"
      using assms(3) e h(2) that by (simp add: rxq_poll_def Let_def core p_def set_shm_def)
    moreover have "krx_queue env ?st core B ys"
      using krx_queue_dequeue [OF q [unfolded Cons] unat_next [OF h(1)]] by (simp only: p_def)
    ultimately show ?thesis
      using Cons x by auto
  qed
qed

end
