(* ===== verification/Arx_Queue.thy ===== *)
theory Arx_Queue
  imports App_Queues Krx_Queue
begin

text \<open>
  The application receive queues as queues of notifications.  The fast path does not look at an
  entry before it writes it: it counts the bytes it knows to be free in \<^verbatim>\<open>rx_avail\<close>.
\<close>

unbundle bit_operations_syntax

section \<open>Entries\<close>

definition arx_get :: "u64 \<Rightarrow> mem \<Rightarrow> nat \<Rightarrow> flextcp_pl_arx option" where
  "arx_get base m i =
    (let b = mem_view m (entry_addr 32 base i) in
     if b 31 = 0 then None
     else Some \<lparr>arx_type = b 31, arx_opaque = get_u64 b 0, arx_rx_bump = get_u32 b 8, arx_rx_pos = get_u32 b 12,
                arx_tx_bump = get_u32 b 16, arx_flags = b 20\<rparr>)"

lemma arx_fields:
  "has_bytes (mem_view (arx_write m a e) a) 0 (u64_bytes (arx_opaque e))"
  "has_bytes (mem_view (arx_write m a e) a) 8 (u32_bytes (arx_rx_bump e))"
  "has_bytes (mem_view (arx_write m a e) a) 12 (u32_bytes (arx_rx_pos e))"
  "has_bytes (mem_view (arx_write m a e) a) 16 (u32_bytes (arx_tx_bump e))"
  unfolding arx_write_def
     apply (rule has_bytes_put_other, rule has_bytes_put_other, rule has_bytes_put_other, rule has_bytes_put_other, rule has_bytes_put_other, rule has_bytes_put; simp)
    apply (rule has_bytes_put_other, rule has_bytes_put_other, rule has_bytes_put_other, rule has_bytes_put_other, rule has_bytes_put; simp)
   apply (rule has_bytes_put_other, rule has_bytes_put_other, rule has_bytes_put_other, rule has_bytes_put; simp)
  apply (rule has_bytes_put_other, rule has_bytes_put_other, rule has_bytes_put; simp)
  done

lemma arx_bytes:
  "mem_view (arx_write m a e) a 31 = arx_type e" "mem_view (arx_write m a e) a 20 = arx_flags e"
  by (simp_all add: arx_write_def mem_view_put)

lemma arx_get_write: "arx_type e \<noteq> 0 \<Longrightarrow> arx_get base (arx_write m (entry_addr 32 base i) e) i = Some e"
  using get_u64_bytes [OF arx_fields(1)] get_u32_bytes [OF arx_fields(2)] get_u32_bytes [OF arx_fields(3)] get_u32_bytes [OF arx_fields(4)]
  by (simp add: arx_get_def Let_def arx_bytes)

lemma arx_get_cong:
  assumes "\<And>k. k < 32 \<Longrightarrow> mem_view m' (entry_addr 32 base i) k = mem_view m (entry_addr 32 base i) k"
  shows "arx_get base m' i = arx_get base m i"
  using assms by (simp add: arx_get_def Let_def get_u64_def get_u32_def get_beui32_def)

lemma arx_write_other:
  assumes "i \<noteq> j" "i < 4294967296" "j < 4294967296" "k < 32"
  shows "mem_view (arx_write m (entry_addr 32 base i) e) (entry_addr 32 base j) k = mem_view m (entry_addr 32 base j) k"
  using assms by (simp add: arx_write_def mem_view_other)

interpretation arx: flag_ring "unat (len :: u32)" "arx_get base" "\<lambda>m i. arx_write m (entry_addr 32 base i)"
  "\<lambda>m i. mem_put m (entry_addr 32 base i) 31 [0]" "\<lambda>e. arx_type e \<noteq> 0" for len base
proof
  fix i j and e :: flextcp_pl_arx and m :: mem
  assume ij: "i < unat len" "j < unat len" "arx_type e \<noteq> 0"
  then have lt: "i < 4294967296" "j < 4294967296"
    using unat_u32_bound [of len] by simp_all
  show "arx_get base (arx_write m (entry_addr 32 base i) e) j = (if j = i then Some e else arx_get base m j)"
    using ij(3) lt arx_write_other [of i j _ m base e] by (auto simp: arx_get_write intro: arx_get_cong)
next
  fix i j and m :: mem
  assume "i < unat len" "j < unat len"
  then have lt: "i < 4294967296" "j < 4294967296"
    using unat_u32_bound [of len] by simp_all
  show "arx_get base (mem_put m (entry_addr 32 base i) 31 [0]) j = (if j = i then None else arx_get base m j)"
  proof (cases "j = i")
    case True
    then show ?thesis
      by (simp add: arx_get_def mem_view_put)
  next
    case False
    then show ?thesis
      using lt mem_view_other [of i j 31 "[0]" 32 _ m base] by (auto intro: arx_get_cong)
  qed
qed

lemma arx_free: "arx_get base m i = None \<longleftrightarrow> mem_view m (entry_addr 32 base i) 31 = 0"
  by (simp add: arx_get_def Let_def)

section \<open>The queue of a context\<close>

text \<open>
  The queue holds the notifications \<open>xs\<close> that the application has not taken out yet, and what
  \<^verbatim>\<open>rx_avail\<close> promises is free.
\<close>

definition arx_queue :: "tas_env \<Rightarrow> flextcp_pl_appctx \<Rightarrow> mem \<Rightarrow> flextcp_pl_arx list \<Rightarrow> bool" where
  "arx_queue env ac m xs \<longleftrightarrow>
    (\<exists>len h t v. unat (ac_rx_len ac) = 32 * unat (len :: u32) \<and> unat (ac_rx_head ac) = 32 * t \<and> unat (ac_rx_avail ac) = 32 * v \<and>
       v + length xs \<le> unat len \<and> unat (ac_rx_base ac) + 32 * unat len \<le> unat (shm_len (fpe env)) \<and> unat len \<le> 67108864 \<and>
       ring_holds (unat len) (arx_get (ac_rx_base ac)) m h t xs)"

definition arx_apart :: "flextcp_pl_appctx \<Rightarrow> flextcp_pl_appctx \<Rightarrow> bool" where
  "arx_apart a b \<longleftrightarrow> unat (ac_rx_base a) + unat (ac_rx_len a) \<le> unat (ac_rx_base b) \<or>
     unat (ac_rx_base b) + unat (ac_rx_len b) \<le> unat (ac_rx_base a)"

lemma entry_addr_head32: "unat p = 32 * h \<Longrightarrow> base + ucast (p :: u32) = entry_addr 32 base h"
proof -
  assume "unat p = 32 * h"
  then have "(ucast p :: u64) = of_nat (32 * h)"
    using unat_u32_bound [of p] by (simp add: u64_eq_iff unat_ucast_u32_u64 unat_of_nat del: of_nat_mult)
  then show ?thesis
    by (simp only: entry_addr_def)
qed

lemma unat_head_next32:
  assumes "unat (p::u32) = 32 * h" "unat len = 32 * n" "h < n"
  shows "unat (if p + 32 \<ge> len then p + 32 - len else p + 32) = 32 * (Suc h mod n)"
proof -
  have "32 * h + 32 \<le> 32 * n" "32 * n < 4294967296"
    using assms(2,3) unat_u32_bound [of len] by simp_all
  then have add: "unat (p + 32) = 32 * Suc h"
    using unat_u32_add [of p 32] assms(1) by simp
  show ?thesis
  proof (cases "Suc h = n")
    case True
    then show ?thesis
      using add assms(2) by (simp add: word_le_nat_alt unat_u32_sub [of "p + 32" len])
  next
    case False
    then have "Suc h < n"
      using assms(3) by simp
    then show ?thesis
      using add assms(2) by (simp add: word_le_nat_alt)
  qed
qed

lemma arx_ptr:
  assumes "unat base + 32 * n \<le> unat (shm_len (fpe env))" "t < n"
  shows "dma_pointer (shm_len (fpe env)) (entry_addr 32 base t) 32 = Inr (entry_addr 32 base t)"
proof -
  have "32 * t + 32 \<le> 32 * n" "unat base + 32 * n \<le> 18446744073709551615"
    using assms unat_u64_bound [of "shm_len (fpe env)"] by linarith+
  then have "unat (entry_addr 32 base t) + 32 \<le> unat (shm_len (fpe env))"
    using unat_entry_addr [of base 32 n t 0] assms by simp
  then show ?thesis
    using unat_u64_bound [of "shm_len (fpe env)"] by (simp add: dma_pointer_def dma_ok_nat)
qed

section \<open>Flushing the notification cache\<close>

lemma arx_write_outside:
  assumes "unat a + 32 \<le> 18446744073709551616" "unat x < unat a \<or> unat a + 32 \<le> unat x"
  shows "arx_write m a e x = m x"
  using outside [OF assms] by (simp add: arx_write_def mem_put_def Let_def)

lemma arx_write_apart:
  assumes "unat base + 32 * n \<le> 18446744073709551615" "t < n" "unat base' + 32 * n' \<le> 18446744073709551615" "j < n'" "k < 32"
    and "unat base + 32 * n \<le> unat base' \<or> unat base' + 32 * n' \<le> unat base"
  shows "mem_view (arx_write m (entry_addr 32 base t) e) (entry_addr 32 base' j) k = mem_view m (entry_addr 32 base' j) k"
proof -
  have a: "unat (entry_addr 32 base t) = unat base + 32 * t"
    using unat_entry_addr [OF assms(1,2), of 0] by simp
  have x: "unat (entry_addr 32 base' j + of_nat k) = unat base' + 32 * j + k"
    using unat_entry_addr [OF assms(3,4), of k] assms(5) by simp
  have "32 * t + 32 \<le> 32 * n" "32 * j + 32 \<le> 32 * n'"
    using assms(2,4) by linarith+
  then show ?thesis
    unfolding mem_view_def using assms(1,5,6) a x by (intro arx_write_outside) linarith+
qed

text \<open>Allocating an entry and writing a notification appends it.\<close>

lemma arx_alloc_write:
  assumes q: "arx_queue env ac m xs" and avail: "ac_rx_avail ac \<noteq> 0" and e: "arx_type e \<noteq> 0"
  obtains a ac' where "fast_actx_rxq_alloc env ac = Inr (Some (a, ac'))" "arx_queue env ac' (arx_write m a e) (xs @ [e])"
    "unat (ac_rx_avail ac) = unat (ac_rx_avail ac') + 32" "ac_rx_base ac' = ac_rx_base ac" "ac_rx_len ac' = ac_rx_len ac"
    "\<And>ac2 ys. arx_queue env ac2 m ys \<Longrightarrow> arx_apart ac ac2 \<Longrightarrow> arx_queue env ac2 (arx_write m a e) ys"
proof -
  obtain len h t v where r: "unat (ac_rx_len ac) = 32 * unat (len :: u32)" "unat (ac_rx_head ac) = 32 * t" "unat (ac_rx_avail ac) = 32 * v"
    "v + length xs \<le> unat len" "unat (ac_rx_base ac) + 32 * unat len \<le> unat (shm_len (fpe env))"
    "ring_holds (unat len) (arx_get (ac_rx_base ac)) m h t xs" "unat len \<le> 67108864"
    using q by (auto simp: arx_queue_def)
  let ?a = "entry_addr 32 (ac_rx_base ac) t"
  define p where "p = (if ac_rx_head ac + 32 \<ge> ac_rx_len ac then ac_rx_head ac + 32 - ac_rx_len ac else ac_rx_head ac + 32)"
  let ?ac = "ac\<lparr>ac_rx_head := p, ac_rx_avail := ac_rx_avail ac - 32\<rparr>"
  have v: "0 < v"
    using avail r(3) by (auto simp: u32_eq_iff)
  then have l: "length xs < unat len"
    using r(4) by simp
  have t: "t < unat len" and free: "arx_get (ac_rx_base ac) m t = None"
    using arx.tail_lt [OF r(6)] arx.tail_free [OF r(6)] l by simp_all
  have p: "unat p = 32 * (Suc t mod unat len)"
    using unat_head_next32 [OF r(2,1) t] by (simp add: p_def)
  have av: "unat (ac_rx_avail ac - 32) = 32 * (v - 1)"
    using unat_u32_sub [of "ac_rx_avail ac" 32] r(3) v by (simp add: diff_mult_distrib2)
  have "fast_actx_rxq_alloc env ac = Inr (Some (?a, ?ac))"
    using avail arx_ptr [OF r(5) t] entry_addr_head32 [OF r(2)] by (simp add: fast_actx_rxq_alloc_def Let_def p_def)
  moreover have "ring_holds (unat len) (arx_get (ac_rx_base ac)) (arx_write m ?a e) h (Suc t mod unat len) (xs @ [e])"
    by (rule arx.enqueue [OF r(6) free e])
  then have "arx_queue env ?ac (arx_write m ?a e) (xs @ [e])"
    unfolding arx_queue_def using r(1,4,5,7) p av v by (intro exI [of _ len] exI [of _ h] exI [of _ "Suc t mod unat len"] exI [of _ "v - 1"]) simp
  moreover have "unat (ac_rx_avail ac) = unat (ac_rx_avail ?ac) + 32"
    using av r(3) v by (simp add: diff_mult_distrib2)
  moreover have "arx_queue env ac2 (arx_write m ?a e) ys" if q2: "arx_queue env ac2 m ys" and ap: "arx_apart ac ac2" for ac2 ys
  proof -
    obtain len2 h2 t2 v2 where r2: "unat (ac_rx_len ac2) = 32 * unat (len2 :: u32)" "unat (ac_rx_head ac2) = 32 * t2" "unat (ac_rx_avail ac2) = 32 * v2"
      "v2 + length ys \<le> unat len2" "unat (ac_rx_base ac2) + 32 * unat len2 \<le> unat (shm_len (fpe env))"
      "ring_holds (unat len2) (arx_get (ac_rx_base ac2)) m h2 t2 ys" "unat len2 \<le> 67108864"
      using q2 by (auto simp: arx_queue_def)
    have "mem_view (arx_write m ?a e) (entry_addr 32 (ac_rx_base ac2) j) k = mem_view m (entry_addr 32 (ac_rx_base ac2) j) k"
      if "j < unat len2" "k < 32" for j k
      using that t r(1,5) r2(1,5) ap unat_u64_bound [of "shm_len (fpe env)"]
      by (intro arx_write_apart [of _ "unat len" _ _ "unat len2"]) (auto simp: arx_apart_def)
    then have "ring_holds (unat len2) (arx_get (ac_rx_base ac2)) (arx_write m ?a e) h2 t2 ys"
      using r2(6) by (subst ring_holds_cong) (auto intro: arx_get_cong)
    then show ?thesis
      using r2(1-5,7) unfolding arx_queue_def by blast
  qed
  ultimately show thesis
    using that [of ?a ?ac] by simp
qed

text \<open>The notifications of a cache that are for a context.\<close>

definition for_ctx :: "u32 \<Rightarrow> (u16 \<times> flextcp_pl_arx) list \<Rightarrow> flextcp_pl_arx list" where
  "for_ctx c es = map snd (filter (\<lambda>(d, e). ucast d = c) es)"

lemma for_ctx_simps [simp]: "for_ctx c [] = []" "for_ctx c ((d, e) # es) = (if ucast d = c then e # for_ctx c es else for_ctx c es)"
  by (simp_all add: for_ctx_def)

definition contexts_ok :: "tas_env \<Rightarrow> u32 set \<Rightarrow> (u32 \<Rightarrow> flextcp_pl_appctx) \<Rightarrow> mem \<Rightarrow> (u32 \<Rightarrow> flextcp_pl_arx list) \<Rightarrow> bool" where
  "contexts_ok env C acs m xs \<longleftrightarrow> (\<forall>c \<in> C. arx_queue env (acs c) m (xs c)) \<and>
     (\<forall>c \<in> C. \<forall>d \<in> C. c \<noteq> d \<longrightarrow> arx_apart (acs c) (acs d))"

lemma flush_alloc_ok:
  assumes "contexts_ok env C (appctx st (core_id (fp st))) m xs" "\<forall>(c, e) \<in> set es. ucast c \<in> C \<and> arx_type e \<noteq> 0"
    "\<forall>c \<in> C. 32 * length (for_ctx c es) \<le> unat (ac_rx_avail (appctx st (core_id (fp st)) c))"
  shows "\<exists>as acs. flush_alloc env st es = Inr (as, st\<lparr>appctx := acs\<rparr>) \<and>
    contexts_ok env C (acs (core_id (fp st))) (fold (\<lambda>(a, c, e) m. arx_write m a e) (zip as es) m) (\<lambda>c. xs c @ for_ctx c es)"
  using assms
proof (induction es arbitrary: st m xs)
  case Nil
  then show ?case
    by (intro exI [of _ "[]"] exI [of _ "appctx st"]) simp
next
  case (Cons p es)
  obtain d e where p: "p = (d, e)"
    by (cases p)
  let ?k = "core_id (fp st)" and ?c = "ucast d :: u32"
  let ?acs = "appctx st ?k"
  have c: "?c \<in> C" "arx_type e \<noteq> 0" and q: "arx_queue env (?acs ?c) m (xs ?c)"
    using Cons.prems(1,2) p by (auto simp: contexts_ok_def)
  have "32 * length (for_ctx ?c ((d, e) # es)) \<le> unat (ac_rx_avail (?acs ?c))"
    using Cons.prems(3) c(1) p by blast
  then have avail: "ac_rx_avail (?acs ?c) \<noteq> 0"
    by (auto simp: u32_eq_iff)
  obtain a ac' where a: "fast_actx_rxq_alloc env (?acs ?c) = Inr (Some (a, ac'))" "arx_queue env ac' (arx_write m a e) (xs ?c @ [e])"
    "unat (ac_rx_avail (?acs ?c)) = unat (ac_rx_avail ac') + 32" "ac_rx_base ac' = ac_rx_base (?acs ?c)" "ac_rx_len ac' = ac_rx_len (?acs ?c)"
    "\<And>ac2 ys. arx_queue env ac2 m ys \<Longrightarrow> arx_apart (?acs ?c) ac2 \<Longrightarrow> arx_queue env ac2 (arx_write m a e) ys"
    by (rule arx_alloc_write [OF q avail c(2)]) (rule that)
  let ?st = "upd_appctx st ?c ac'" and ?xs = "xs(?c := xs ?c @ [e])"
  have st: "core_id (fp ?st) = ?k" "appctx ?st ?k = ?acs(?c := ac')"
    by (simp_all add: upd_appctx_def)
  have co: "contexts_ok env C (appctx ?st ?k) (arx_write m a e) ?xs"
    using Cons.prems(1) c(1) a(2,4-6) unfolding st(2) contexts_ok_def by (simp add: arx_apart_def)
  have le: "\<forall>c' \<in> C. 32 * length (for_ctx c' es) \<le> unat (ac_rx_avail (appctx ?st ?k c'))"
  proof
    fix c'
    assume "c' \<in> C"
    then have "32 * length (for_ctx c' ((d, e) # es)) \<le> unat (ac_rx_avail (?acs c'))"
      using Cons.prems(3) p by blast
    then show "32 * length (for_ctx c' es) \<le> unat (ac_rx_avail (appctx ?st ?k c'))"
      using a(3) unfolding st(2) by (cases "c' = ?c") auto
  qed
  have "\<forall>(c, e) \<in> set es. ucast c \<in> C \<and> arx_type e \<noteq> 0"
    using Cons.prems(2) by simp
  then obtain as acs where r: "flush_alloc env ?st es = Inr (as, ?st\<lparr>appctx := acs\<rparr>)"
    "contexts_ok env C (acs ?k) (fold (\<lambda>(a, c, e) m. arx_write m a e) (zip as es) (arx_write m a e)) (\<lambda>c. ?xs c @ for_ctx c es)"
    using Cons.IH [of ?st "arx_write m a e" ?xs, unfolded st(1), OF co _ le] by blast
  have "(\<lambda>c. ?xs c @ for_ctx c es) = (\<lambda>c. xs c @ for_ctx c (p # es))"
    by (auto simp: p)
  moreover have "flush_alloc env st (p # es) = Inr (a # as, st\<lparr>appctx := acs\<rparr>)"
    using a(1) r(1) by (simp add: p upd_appctx_def)
  ultimately show ?case
    using r(2) by (intro exI [of _ "a # as"] exI [of _ acs]) (simp add: p)
qed

lemma notify_appctx_ok:
  assumes "evfd_write_ok env"
  shows "\<exists>l w. notify_appctx env tsc st core c =
    Inr (st\<lparr>appctx := (appctx st)(core := (appctx st core)(c := (appctx st core c)\<lparr>ac_last_ts := l\<rparr>)), evfd_writes := evfd_writes st @ w\<rparr>)"
proof -
  obtain w l where "notify_core True (ac_evfd (appctx st core c)) (ac_last_ts (appctx st core c)) tsc (poll_cycle_app env) = Inr (w, l)"
    using notify_core_ok by blast
  then show ?thesis
    using assms by (auto simp: notify_appctx_def)
qed

lemma contexts_ok_ts: "contexts_ok env C (acs(c := (acs c)\<lparr>ac_last_ts := l\<rparr>)) m xs = contexts_ok env C acs m xs"
proof -
  have "arx_queue env ((acs(c := (acs c)\<lparr>ac_last_ts := l\<rparr>)) d) m ys = arx_queue env (acs d) m ys"
    "arx_apart ((acs(c := (acs c)\<lparr>ac_last_ts := l\<rparr>)) d) ((acs(c := (acs c)\<lparr>ac_last_ts := l\<rparr>)) d') = arx_apart (acs d) (acs d')" for d d' ys
    by (simp_all add: arx_queue_def arx_apart_def)
  then show ?thesis
    by (simp only: contexts_ok_def)
qed

lemma flush_notify_ok:
  assumes "evfd_write_ok env"
  shows "\<exists>acs w. flush_notify env tsc st es = Inr (st\<lparr>appctx := acs, evfd_writes := w\<rparr>) \<and>
    contexts_ok env C (acs (core_id (fp st))) m xs = contexts_ok env C (appctx st (core_id (fp st))) m xs"
proof (induction es arbitrary: st)
  case Nil
  show ?case
    by (intro exI [of _ "appctx st"] exI [of _ "evfd_writes st"]) simp
next
  case (Cons p es)
  obtain d e where p: "p = (d, e)"
    by (cases p)
  let ?k = "core_id (fp st)" and ?c = "ucast d :: u32"
  obtain l v where n: "notify_appctx env tsc st ?k ?c =
      Inr (st\<lparr>appctx := (appctx st)(?k := (appctx st ?k)(?c := (appctx st ?k ?c)\<lparr>ac_last_ts := l\<rparr>)), evfd_writes := evfd_writes st @ v\<rparr>)"
    using notify_appctx_ok [OF assms] by blast
  let ?st = "st\<lparr>appctx := (appctx st)(?k := (appctx st ?k)(?c := (appctx st ?k ?c)\<lparr>ac_last_ts := l\<rparr>)), evfd_writes := evfd_writes st @ v\<rparr>"
  obtain acs w where "flush_notify env tsc ?st es = Inr (?st\<lparr>appctx := acs, evfd_writes := w\<rparr>)"
    "contexts_ok env C (acs (core_id (fp ?st))) m xs = contexts_ok env C (appctx ?st (core_id (fp ?st))) m xs"
    using Cons.IH [of ?st] by blast
  then show ?case
    using n contexts_ok_ts [of env C "appctx st ?k" ?c l m xs] p by (intro exI [of _ acs] exI [of _ w]) simp
qed

text \<open>
  C28: Flushing the notification cache appends to every application's receive queue exactly the
  notifications that are for it, in the order they were added, provided the free bytes the
  core has counted suffice; it disturbs no other queue and leaves the cache empty.
\<close>

theorem arx_cache_flush_delivers:
  assumes "contexts_ok env C (appctx st (core_id (fp st))) (shm st) xs" "evfd_write_ok env"
    and "\<forall>(c, e) \<in> set (arx_cache (fp st)). ucast c \<in> C \<and> arx_type e \<noteq> 0"
    and "\<forall>c \<in> C. 32 * length (for_ctx c (arx_cache (fp st))) \<le> unat (ac_rx_avail (appctx st (core_id (fp st)) c))"
  shows "\<exists>st'. arx_cache_flush env tsc st = Inr st' \<and> arx_cache (fp st') = [] \<and>
    contexts_ok env C (appctx st' (core_id (fp st))) (shm st') (\<lambda>c. xs c @ for_ctx c (arx_cache (fp st)))"
proof -
  let ?es = "arx_cache (fp st)" and ?k = "core_id (fp st)"
  obtain as acs where a: "flush_alloc env st ?es = Inr (as, st\<lparr>appctx := acs\<rparr>)"
    "contexts_ok env C (acs ?k) (fold (\<lambda>(a, c, e) m. arx_write m a e) (zip as ?es) (shm st)) (\<lambda>c. xs c @ for_ctx c ?es)"
    using flush_alloc_ok [OF assms(1,3,4)] by blast
  define m where "m = fold (\<lambda>(a, c, e) m. arx_write m a e) (zip as ?es) (shm st)"
  let ?st = "set_shm (st\<lparr>appctx := acs\<rparr>) m"
  obtain acs' w where n: "flush_notify env tsc ?st ?es = Inr (?st\<lparr>appctx := acs', evfd_writes := w\<rparr>)"
    "contexts_ok env C (acs' (core_id (fp ?st))) m (\<lambda>c. xs c @ for_ctx c ?es) =
     contexts_ok env C (appctx ?st (core_id (fp ?st))) m (\<lambda>c. xs c @ for_ctx c ?es)"
    using flush_notify_ok [OF assms(2)] by blast
  have "core_id (fp ?st) = ?k" "appctx ?st = acs"
    by (simp_all add: set_shm_def)
  then have "contexts_ok env C (acs' ?k) m (\<lambda>c. xs c @ for_ctx c ?es)"
    using n(2) a(2) by (simp add: m_def)
  then show ?thesis
    using a(1) n(1) by (simp add: arx_cache_flush_def Let_def m_def [symmetric])
qed

lemma demo_actx_queue: "arx_queue demo_tenv demo_actx (\<lambda>_. 0) []"
  unfolding arx_queue_def
  by (intro exI [of _ 8] exI [of _ 0]) (auto simp: demo_actx_def demo_env_def ring_holds_def arx_free mem_view_def)

theorem arx_cache_flush_delivers_witness:
  "\<exists>st'. arx_cache_flush demo_tenv 9 (demo_tas\<lparr>fp := (fp demo_tas)\<lparr>arx_cache := [(0, \<lparr>arx_type = 1, arx_opaque = 7,
       arx_rx_bump = 10, arx_rx_pos = 0, arx_tx_bump = 0, arx_flags = 0\<rparr>)]\<rparr>\<rparr>) = Inr st' \<and>
     arx_queue demo_tenv (appctx st' 0 0) (shm st') [\<lparr>arx_type = 1, arx_opaque = 7, arx_rx_bump = 10, arx_rx_pos = 0,
       arx_tx_bump = 0, arx_flags = 0\<rparr>]"
proof -
  let ?e = "\<lparr>arx_type = 1, arx_opaque = 7, arx_rx_bump = 10, arx_rx_pos = 0, arx_tx_bump = 0, arx_flags = 0\<rparr> :: flextcp_pl_arx"
  let ?st = "demo_tas\<lparr>fp := (fp demo_tas)\<lparr>arx_cache := [(0, ?e)]\<rparr>\<rparr>"
  have ac: "appctx demo_tas k c = demo_actx" for k c
    by (simp add: demo_tas_def)
  have "contexts_ok demo_tenv {0} (appctx ?st (core_id (fp ?st))) (shm ?st) (\<lambda>_. [])"
    using demo_actx_queue by (simp add: contexts_ok_def ac)
  then show ?thesis
    using arx_cache_flush_delivers [of demo_tenv "{0}" ?st "\<lambda>_. []" 9] by (auto simp: ac contexts_ok_def demo_actx_def)
qed

section \<open>Looking for free entries\<close>

lemma probe_entry:
  assumes r: "ring_holds n (arx_get base) m h t xs" and v: "v + length xs \<le> n" "v < n"
  shows "mem_view m (entry_addr 32 base ((t + v) mod n)) 31 = 0 \<longleftrightarrow> v + length xs < n"
proof -
  have t: "t = (h + length xs) mod n" and h: "h < n"
    and g: "\<And>i. i < n \<Longrightarrow> arx_get base m ((h + i) mod n) = (if i < length xs then Some (xs ! i) else None)"
    using r by (auto simp: ring_holds_def)
  have pos: "(t + v) mod n = (h + (length xs + v)) mod n"
    unfolding t by (simp add: mod_add_left_eq add.assoc)
  show ?thesis
  proof (cases "v + length xs < n")
    case True
    then have "arx_get base m ((t + v) mod n) = None"
      using g [of "length xs + v"] by (simp add: pos add.commute)
    then show ?thesis
      using True by (simp add: arx_free)
  next
    case False
    then have "length xs + v = n" "0 < length xs"
      using v by linarith+
    then have "arx_get base m ((t + v) mod n) \<noteq> None"
      using g [of 0] h by (simp add: pos)
    then show ?thesis
      using False by (simp add: arx_free)
  qed
qed

lemma unat_add32: "unat (x::u32) = 32 * v \<Longrightarrow> 32 * v + 32 < 4294967296 \<Longrightarrow> unat (x + 32) = 32 * Suc v"
  using unat_u32_add [of x 32] by simp

lemma rxq_probe_loop_ok:
  assumes l: "unat (ac_rx_len ac) = 32 * n" and b: "unat (ac_rx_base ac) + 32 * n \<le> unat (shm_len (fpe env))"
    and r: "ring_holds n (arx_get (ac_rx_base ac)) m h t xs"
    and v: "unat x = 32 * v" "v + length xs \<le> n" and pos: "v < n \<Longrightarrow> unat pos = 32 * ((t + v) mod n)"
  shows "\<exists>a. rxq_probe_loop env m k pos (ac\<lparr>ac_rx_avail := x\<rparr>) = Inr (ac\<lparr>ac_rx_avail := a\<rparr>) \<and> unat a = 32 * min (v + k) (n - length xs)"
  using v pos
proof (induction k arbitrary: v pos x)
  case 0
  then show ?case
    by (intro exI [of _ x]) (simp add: min_def)
next
  case (Suc k)
  have n: "32 * n < 4294967296"
    using l unat_u32_bound [of "ac_rx_len ac"] by simp
  show ?case
  proof (cases "v < n")
    case False
    then have "v = n" "length xs = 0"
      using Suc.prems(2) by linarith+
    then show ?thesis
      using Suc.prems(1) l by (intro exI [of _ x]) (simp add: word_less_nat_alt)
  next
    case True
    note p = Suc.prems(3) [OF True]
    let ?e = "entry_addr 32 (ac_rx_base ac) ((t + v) mod n)"
    have ptr: "dma_pointer (shm_len (fpe env)) (ac_rx_base ac + ucast pos) 32 = Inr ?e"
      using arx_ptr [OF b] entry_addr_head32 [OF p] True by simp
    have lt: "x < ac_rx_len ac"
      using Suc.prems(1) l True by (simp add: word_less_nat_alt)
    note e = probe_entry [OF r Suc.prems(2) True]
    show ?thesis
    proof (cases "v + length xs < n")
      case False
      then have "v = n - length xs"
        using Suc.prems(2) by simp
      then show ?thesis
        using ptr lt e False Suc.prems(1) by (intro exI [of _ x]) simp
    next
      case True
      define q where "q = (if pos + 32 \<ge> ac_rx_len ac then pos + 32 - ac_rx_len ac else pos + 32)"
      have "unat q = 32 * (Suc ((t + v) mod n) mod n)"
        using unat_head_next32 [OF p l] \<open>v < n\<close> by (simp add: q_def)
      then have q: "unat q = 32 * ((t + Suc v) mod n)"
        by (simp add: mod_Suc_eq)
      have x: "unat (x + 32) = 32 * Suc v"
        using True n Suc.prems(1) by (intro unat_add32) simp_all
      have "\<exists>a. rxq_probe_loop env m k q (ac\<lparr>ac_rx_avail := x + 32\<rparr>) = Inr (ac\<lparr>ac_rx_avail := a\<rparr>) \<and>
          unat a = 32 * min (Suc v + k) (n - length xs)"
        by (rule Suc.IH [OF x]) (use True q in auto)
      then show ?thesis
        using ptr lt e True by (simp add: q_def Let_def split: if_splits)
    qed
  qed
qed

text \<open>
  Probing the receive queue of a context always returns and makes exactly the entries usable
  that the application has freed, up to 32 of them in one call: afterwards \<^verbatim>\<open>rx_avail\<close> still
  counts free entries only, and nothing else has changed.  It does nothing while more than half
  of the queue is known to be free.
\<close>

theorem fast_actx_rxq_probe_counts:
  assumes q: "arx_queue env (appctx st (core_id (fp st)) i) (shm st) xs"
  defines "ac \<equiv> appctx st (core_id (fp st)) i"
  shows "if ac_rx_avail ac > ac_rx_len ac div 2 then fast_actx_rxq_probe env st i = Inr (-1, st)
    else \<exists>a. fast_actx_rxq_probe env st i = Inr (0, upd_appctx st i (ac\<lparr>ac_rx_avail := a\<rparr>)) \<and>
      unat a = min (unat (ac_rx_avail ac) + 1024) (unat (ac_rx_len ac) - 32 * length xs) \<and>
      arx_queue env (ac\<lparr>ac_rx_avail := a\<rparr>) (shm st) xs"
proof (cases "ac_rx_avail ac > ac_rx_len ac div 2")
  case True
  then show ?thesis
    by (simp add: fast_actx_rxq_probe_def ac_def [symmetric])
next
  case False
  obtain len h t v where r: "unat (ac_rx_len ac) = 32 * unat (len :: u32)" "unat (ac_rx_head ac) = 32 * t" "unat (ac_rx_avail ac) = 32 * v"
    "v + length xs \<le> unat len" "unat (ac_rx_base ac) + 32 * unat len \<le> unat (shm_len (fpe env))"
    "ring_holds (unat len) (arx_get (ac_rx_base ac)) (shm st) h t xs" "unat len \<le> 67108864"
    using q by (auto simp: arx_queue_def ac_def)
  have t: "t < unat len"
    using arx.tail_lt [OF r(6)] .
  define pos where "pos = (if ac_rx_head ac + ac_rx_avail ac \<ge> ac_rx_len ac then ac_rx_head ac + ac_rx_avail ac - ac_rx_len ac
    else ac_rx_head ac + ac_rx_avail ac)"
  have pos: "unat pos = 32 * ((t + v) mod unat len)" if "v < unat len"
  proof -
    have s: "unat (ac_rx_head ac + ac_rx_avail ac) = 32 * (t + v)"
      using unat_u32_add [of "ac_rx_head ac" "ac_rx_avail ac"] r(2,3,7) t that by simp
    show ?thesis
    proof (cases "t + v < unat len")
      case True
      then show ?thesis
        using s r(1) by (simp add: pos_def word_le_nat_alt)
    next
      case False
      then have "(t + v) mod unat len = t + v - unat len"
        using t that by (simp add: mod_if)
      then show ?thesis
        using False s r(1) unat_u32_sub [of "ac_rx_head ac + ac_rx_avail ac" "ac_rx_len ac"]
        by (simp add: pos_def word_le_nat_alt diff_mult_distrib2)
    qed
  qed
  obtain a where a: "rxq_probe_loop env (shm st) 32 pos (ac\<lparr>ac_rx_avail := ac_rx_avail ac\<rparr>) = Inr (ac\<lparr>ac_rx_avail := a\<rparr>)"
    "unat a = 32 * min (v + 32) (unat len - length xs)"
    using rxq_probe_loop_ok [OF r(1,5,6,3,4) pos, of 32] by auto
  then have "fast_actx_rxq_probe env st i = Inr (0, upd_appctx st i (ac\<lparr>ac_rx_avail := a\<rparr>))"
    using False by (simp add: fast_actx_rxq_probe_def Let_def ac_def [symmetric] pos_def [symmetric])
  moreover have "unat a = min (unat (ac_rx_avail ac) + 1024) (unat (ac_rx_len ac) - 32 * length xs)"
    using a(2) r(1,3) by (auto simp: min_def diff_mult_distrib2)
  moreover have "arx_queue env (ac\<lparr>ac_rx_avail := a\<rparr>) (shm st) xs"
    unfolding arx_queue_def using r a(2)
    by (intro exI [of _ len] exI [of _ h] exI [of _ t] exI [of _ "min (v + 32) (unat len - length xs)"]) auto
  ultimately show ?thesis
    using False by auto
qed

lemma arx_queue_less_avail:
  assumes "arx_queue env ac m xs" "unat a = 32 * w" "unat a \<le> unat (ac_rx_avail ac)"
  shows "arx_queue env (ac\<lparr>ac_rx_avail := a\<rparr>) m xs"
  using assms unfolding arx_queue_def by fastforce

theorem fast_actx_rxq_probe_counts_witness:
  "\<exists>a. fast_actx_rxq_probe demo_tenv (demo_tas\<lparr>appctx := \<lambda>_ _. demo_actx\<lparr>ac_rx_avail := 32\<rparr>\<rparr>) 3 =
     Inr (0, upd_appctx (demo_tas\<lparr>appctx := \<lambda>_ _. demo_actx\<lparr>ac_rx_avail := 32\<rparr>\<rparr>) 3 (demo_actx\<lparr>ac_rx_avail := a\<rparr>)) \<and> unat a = 256"
proof -
  have "arx_queue demo_tenv (demo_actx\<lparr>ac_rx_avail := 32\<rparr>) (\<lambda>_. 0) []"
    by (rule arx_queue_less_avail [OF demo_actx_queue, of _ 1]) (simp_all add: demo_actx_def)
  then show ?thesis
    using fast_actx_rxq_probe_counts [of demo_tenv "demo_tas\<lparr>appctx := \<lambda>_ _. demo_actx\<lparr>ac_rx_avail := 32\<rparr>\<rparr>" 3 "[]"]
    by (auto simp: demo_actx_def demo_tas_def)
qed

end
