(* ===== verification/Dlinked_List.thy ===== *)
theory Dlinked_List
  imports Main
begin

text \<open>
  Doubly linked lists through next and previous functions: the timeout manager's lists and
  the ARP table are instances.  A list is cut into segments; what an insertion or a removal
  changes is the successor of one segment and the predecessor of the next.
\<close>

primrec hd_or :: "'a \<Rightarrow> 'a list \<Rightarrow> 'a" where
  "hd_or n [] = n"
| "hd_or n (x # xs) = x"

definition last_or :: "'a \<Rightarrow> 'a list \<Rightarrow> 'a" where
  "last_or p xs = (if xs = [] then p else last xs)"

lemma last_or_simps [simp]: "last_or p [] = p" "last_or p (xs @ [x]) = x" "last_or p (x # xs) = last_or x xs"
  by (simp_all add: last_or_def)

lemma hd_or_append: "hd_or n (xs @ ys) = hd_or (hd_or n ys) xs"
  by (cases xs) simp_all

lemma last_or_append: "last_or p (xs @ ys) = last_or (last_or p xs) ys"
  by (simp add: last_or_def)

lemma hd_or_set: "xs \<noteq> [] \<Longrightarrow> hd_or n xs \<in> set xs"
  by (cases xs) simp_all

lemma last_or_set: "xs \<noteq> [] \<Longrightarrow> last_or p xs \<in> set xs"
  by (simp add: last_or_def)

lemma hd_or_hd: "xs \<noteq> [] \<Longrightarrow> hd_or n xs = hd xs"
  by (cases xs) simp_all

lemma last_or_last: "xs \<noteq> [] \<Longrightarrow> last_or n xs = last xs"
  by (simp add: last_or_def)

lemma hd_or_nil: "n \<notin> set xs \<Longrightarrow> hd_or n xs = n \<longleftrightarrow> xs = []"
  by (cases xs) auto

lemma last_or_nil: "n \<notin> set xs \<Longrightarrow> last_or n xs = n \<longleftrightarrow> xs = []"
  using last_in_set [of xs] by (auto simp: last_or_def)

text \<open>The segment \<open>xs\<close> between the nodes \<open>p\<close> and \<open>n\<close>.\<close>

primrec dseg :: "'a \<Rightarrow> ('a \<Rightarrow> 'a) \<Rightarrow> ('a \<Rightarrow> 'a) \<Rightarrow> 'a \<Rightarrow> 'a list \<Rightarrow> 'a \<Rightarrow> bool" where
  "dseg nil nxt prv p [] n \<longleftrightarrow> True"
| "dseg nil nxt prv p (x # xs) n \<longleftrightarrow> x \<noteq> nil \<and> prv x = p \<and> nxt x = hd_or n xs \<and> dseg nil nxt prv x xs n"

lemma dseg_append: "dseg nil nxt prv p (xs @ ys) n \<longleftrightarrow> dseg nil nxt prv p xs (hd_or n ys) \<and> dseg nil nxt prv (last_or p xs) ys n"
  by (induction xs arbitrary: p) (auto simp: hd_or_append)

lemma dseg_cong:
  assumes "\<And>x. x \<in> set xs \<Longrightarrow> nxt' x = nxt x \<and> prv' x = prv x"
  shows "dseg nil nxt' prv' p xs n \<longleftrightarrow> dseg nil nxt prv p xs n"
  using assms by (induction xs arbitrary: p) auto

lemma dseg_nil: "dseg nil nxt prv p xs n \<Longrightarrow> nil \<notin> set xs"
  by (induction xs arbitrary: p) auto

lemma dseg_next: "dseg nil nxt prv p xs n \<Longrightarrow> xs \<noteq> [] \<Longrightarrow> nxt (last xs) = n"
  by (induction xs arbitrary: p) (auto split: if_splits)

lemma dseg_set_next:
  assumes "dseg nil nxt prv p xs n" "distinct xs"
    and "\<And>x. x \<in> set xs \<Longrightarrow> nxt' x = (if x = last xs then n' else nxt x) \<and> prv' x = prv x"
  shows "dseg nil nxt' prv' p xs n'"
  using assms
proof (induction xs arbitrary: p)
  case (Cons x xs)
  show ?case
  proof (cases xs)
    case Nil
    then show ?thesis
      using Cons.prems by simp
  next
    case (Cons y ys)
    then have "x \<noteq> last xs" "last (x # xs) = last xs"
      using Cons.prems(2) last_in_set [of xs] by auto
    then show ?thesis
      using Cons Cons.IH [of x] Cons.prems by (auto split: if_splits)
  qed
qed simp

lemma dseg_set_prev:
  assumes "dseg nil nxt prv p xs n" "distinct xs"
    and "\<And>x. x \<in> set xs \<Longrightarrow> prv' x = (if x = hd xs then p' else prv x) \<and> nxt' x = nxt x"
  shows "dseg nil nxt' prv' p' xs n"
proof (cases xs)
  case (Cons y ys)
  then have "dseg nil nxt' prv' y ys n = dseg nil nxt prv y ys n"
    using assms(2,3) by (intro dseg_cong) auto
  then show ?thesis
    using assms Cons by auto
qed simp

definition dlist :: "'a \<Rightarrow> ('a \<Rightarrow> 'a) \<Rightarrow> ('a \<Rightarrow> 'a) \<Rightarrow> 'a \<Rightarrow> 'a \<Rightarrow> 'a list \<Rightarrow> bool" where
  "dlist nil nxt prv f l xs \<longleftrightarrow> f = hd_or nil xs \<and> l = last_or nil xs \<and> dseg nil nxt prv nil xs nil"

lemma dlist_cong:
  assumes "\<And>x. x \<in> set xs \<Longrightarrow> nxt' x = nxt x \<and> prv' x = prv x"
  shows "dlist nil nxt' prv' f l xs \<longleftrightarrow> dlist nil nxt prv f l xs"
  using dseg_cong [OF assms] by (simp add: dlist_def)

lemma dlist_nil: "dlist nil nxt prv f l xs \<Longrightarrow> nil \<notin> set xs"
  by (auto simp: dlist_def dest: dseg_nil)

lemma dlist_empty: "dlist nil nxt prv f l [] \<longleftrightarrow> f = nil \<and> l = nil"
  by (auto simp: dlist_def)

lemma dlist_first: "dlist nil nxt prv f l xs \<Longrightarrow> f = nil \<longleftrightarrow> xs = []"
  using dlist_nil [of nil nxt prv f l xs] by (cases xs) (auto simp: dlist_def)

lemma dlist_last: "dlist nil nxt prv f l xs \<Longrightarrow> l = nil \<longleftrightarrow> xs = []"
  using dlist_nil [of nil nxt prv f l xs] last_in_set [of xs] by (auto simp: dlist_def last_or_def split: if_splits)

lemma dlist_node:
  assumes "dlist nil nxt prv f l (as @ x # bs)"
  shows "prv x = last_or nil as" "nxt x = hd_or nil bs"
  using assms by (simp_all add: dlist_def dseg_append)

lemma dlist_insertI:
  assumes "dlist nil nxt prv f l (as @ bs)" "distinct (as @ bs)" "x \<noteq> nil"
    and "nxt' x = hd_or nil bs" "prv' x = last_or nil as"
    and "\<And>y. y \<in> set as \<Longrightarrow> nxt' y = (if y = last as then x else nxt y) \<and> prv' y = prv y"
    and "\<And>y. y \<in> set bs \<Longrightarrow> prv' y = (if y = hd bs then x else prv y) \<and> nxt' y = nxt y"
  shows "dlist nil nxt' prv' (if as = [] then x else f) (if bs = [] then x else l) (as @ x # bs)"
proof -
  have a: "dseg nil nxt prv nil as (hd_or nil bs)" and b: "dseg nil nxt prv (last_or nil as) bs nil"
    using assms(1) by (simp_all add: dlist_def dseg_append)
  have "dseg nil nxt' prv' nil as x"
    by (rule dseg_set_next [OF a]) (use assms(2,6) in auto)
  moreover have "dseg nil nxt' prv' x bs nil"
    by (rule dseg_set_prev [OF b]) (use assms(2,7) in auto)
  moreover have "f = hd_or nil (as @ bs)" "l = last_or nil (as @ bs)"
    using assms(1) by (simp_all add: dlist_def)
  then have "(if as = [] then x else f) = hd_or nil (as @ x # bs)" "(if bs = [] then x else l) = last_or nil (as @ x # bs)"
    by (cases as; simp) (use \<open>l = _\<close> in \<open>simp add: last_or_def\<close>)
  ultimately show ?thesis
    using assms(3-5) by (simp add: dlist_def dseg_append)
qed

lemma dlist_removeI:
  assumes "dlist nil nxt prv f l (as @ x # bs)" "distinct (as @ bs)"
    and "\<And>y. y \<in> set as \<Longrightarrow> nxt' y = (if y = last as then hd_or nil bs else nxt y) \<and> prv' y = prv y"
    and "\<And>y. y \<in> set bs \<Longrightarrow> prv' y = (if y = hd bs then last_or nil as else prv y) \<and> nxt' y = nxt y"
  shows "dlist nil nxt' prv' (if as = [] then hd_or nil bs else f) (if bs = [] then last_or nil as else l) (as @ bs)"
proof -
  have a: "dseg nil nxt prv nil as x" and b: "dseg nil nxt prv x bs nil"
    using assms(1) by (simp_all add: dlist_def dseg_append)
  have "dseg nil nxt' prv' nil as (hd_or nil bs)"
    by (rule dseg_set_next [OF a]) (use assms(2,3) in auto)
  moreover have "dseg nil nxt' prv' (last_or nil as) bs nil"
    by (rule dseg_set_prev [OF b]) (use assms(2,4) in auto)
  moreover have "f = hd_or nil (as @ x # bs)" "l = last_or nil (as @ x # bs)"
    using assms(1) by (simp_all add: dlist_def)
  then have "(if as = [] then hd_or nil bs else f) = hd_or nil (as @ bs)"
    "(if bs = [] then last_or nil as else l) = last_or nil (as @ bs)"
    by (cases as; simp) (use \<open>l = _\<close> in \<open>simp add: last_or_def\<close>)
  ultimately show ?thesis
    by (simp add: dlist_def dseg_append)
qed

end
