(* ===== verification/Timeouts.thy ===== *)
theory Timeouts
  imports Wrap_Clock Dlinked_List
begin

text \<open>
  The timeout manager, \<^verbatim>\<open>lib/utils/timeout.c\<close>: timeouts wait in a doubly linked list ordered by
  the time they are due, and move to a second list once they are.  Time is counted in
  microseconds modulo \<open>2^28\<close>; the upper four bits of \<^verbatim>\<open>timeout_type\<close> are the type.  A pointer
  to a \<^verbatim>\<open>struct timeout\<close> is its address, with 0 for \<^verbatim>\<open>NULL\<close>; the objects themselves lie in the
  structures of the clients and are the store \<open>timeout_objs\<close>.
\<close>

unbundle bit_operations_syntax

section \<open>Model\<close>

abbreviation (input) TIMEOUT_MASK :: u32 where "TIMEOUT_MASK \<equiv> 0xFFFFFFF"
abbreviation (input) MAX_TIMEOUTS :: nat where "MAX_TIMEOUTS \<equiv> 64"

record timeout =
  timeout_type :: u32
  to_next :: u64
  to_prev :: u64

record timeout_manager =
  timeouts_first :: u64
  timeouts_last :: u64
  due_first :: u64
  due_last :: u64
  timeout_objs :: "u64 \<Rightarrow> timeout"

definition upd_timeout :: "timeout_manager \<Rightarrow> u64 \<Rightarrow> (timeout \<Rightarrow> timeout) \<Rightarrow> timeout_manager" where
  "upd_timeout mgr p f = mgr\<lparr>timeout_objs := (timeout_objs mgr)(p := f (timeout_objs mgr p))\<rparr>"

definition util_timeout_init :: "(u64 \<Rightarrow> timeout) \<Rightarrow> timeout_manager" where
  "util_timeout_init objs =
     \<lparr>timeouts_first = 0, timeouts_last = 0, due_first = 0, due_last = 0, timeout_objs = objs\<rparr>"

text \<open>The clock, from the cycle counter and the calibrated number of cycles per microsecond.\<close>

definition timestamp_us_long :: "u64 \<Rightarrow> u64 \<Rightarrow> u32" where
  "timestamp_us_long tsc tsc_per_us = ucast (tsc div tsc_per_us)"

definition timestamp_us :: "u64 \<Rightarrow> u64 \<Rightarrow> u32" where
  "timestamp_us tsc tsc_per_us = timestamp_us_long tsc tsc_per_us AND TIMEOUT_MASK"

text \<open>The 32 bits the function returns; its callers read them as a signed or an unsigned number.\<close>

definition timeout_rel_time :: "u32 \<Rightarrow> timeout \<Rightarrow> u32" where
  "timeout_rel_time cur_ts to =
    (let middle = 0x8000000; to_ts = timeout_type to AND TIMEOUT_MASK in
     if cur_ts < middle then
       let start = (cur_ts - middle) AND TIMEOUT_MASK; stop = 0x10000000 in
       if start \<le> to_ts \<and> to_ts < stop then to_ts - start - middle else to_ts - cur_ts
     else if cur_ts = middle then to_ts - cur_ts
     else
       let start = 0; stop = ((cur_ts + middle) AND TIMEOUT_MASK) + 1 in
       if start \<le> cur_ts \<and> to_ts < stop then to_ts + (0x10000000 - cur_ts) else to_ts - cur_ts)"

definition timeout_due :: "timeout \<Rightarrow> u32 \<Rightarrow> bool" where
  "timeout_due to ts \<longleftrightarrow> sint (timeout_rel_time ts to) \<le> 0"

text \<open>One round of the loop: the first pending timeout goes to the end of the due list.\<close>

definition move_due :: "timeout_manager \<Rightarrow> timeout_manager" where
  "move_due mgr =
    (let to = timeouts_first mgr; next = to_next (timeout_objs mgr to);
         mgr = mgr\<lparr>timeouts_first := next\<rparr>;
         mgr = (if next \<noteq> 0 then upd_timeout mgr next (to_prev_update (\<lambda>_. 0)) else mgr\<lparr>timeouts_last := 0\<rparr>);
         mgr = upd_timeout mgr to (\<lambda>t. t\<lparr>to_next := 0, to_prev := due_last mgr\<rparr>);
         mgr = (if due_last mgr = 0 then mgr\<lparr>due_first := to\<rparr>
                else upd_timeout mgr (due_last mgr) (to_next_update (\<lambda>_. to))) in
     mgr\<lparr>due_last := to\<rparr>)"

partial_function (option) move_due_timeouts :: "timeout_manager \<Rightarrow> u32 \<Rightarrow> timeout_manager option" where
  "move_due_timeouts mgr cur_ts =
    (if timeouts_first mgr \<noteq> 0 \<and> timeout_due (timeout_objs mgr (timeouts_first mgr)) cur_ts
     then move_due_timeouts (move_due mgr) cur_ts
     else Some mgr)"

text \<open>The search for the predecessor from the end of the list; signed times are compared as unsigned.\<close>

partial_function (option) arm_walk :: "timeout_manager \<Rightarrow> u32 \<Rightarrow> u32 \<Rightarrow> u64 \<Rightarrow> u64 option" where
  "arm_walk mgr cur_ts us tp =
    (if tp \<noteq> 0 \<and> timeout_rel_time cur_ts (timeout_objs mgr tp) > us
     then arm_walk mgr cur_ts us (to_prev (timeout_objs mgr tp))
     else Some tp)"

definition arm_insert :: "timeout_manager \<Rightarrow> u64 \<Rightarrow> u32 \<Rightarrow> u8 \<Rightarrow> u32 \<Rightarrow> u64 \<Rightarrow> timeout_manager" where
  "arm_insert mgr to us type cur_ts tp =
    (let tn = (if tp \<noteq> 0 then to_next (timeout_objs mgr tp) else timeouts_first mgr);
         mgr = upd_timeout mgr to (\<lambda>t. t\<lparr>timeout_type := push_bit 28 (ucast type) OR ((cur_ts + us) AND TIMEOUT_MASK),
                                         to_next := tn, to_prev := tp\<rparr>);
         mgr = (if tp = 0 then mgr\<lparr>timeouts_first := to\<rparr> else upd_timeout mgr tp (to_next_update (\<lambda>_. to))) in
     if tn = 0 then mgr\<lparr>timeouts_last := to\<rparr> else upd_timeout mgr tn (to_prev_update (\<lambda>_. to)))"

definition util_timeout_arm_ts :: "timeout_manager \<Rightarrow> u64 \<Rightarrow> u32 \<Rightarrow> u8 \<Rightarrow> u32 \<Rightarrow> timeout_manager run" where
  "util_timeout_arm_ts mgr to us type cur_ts =
    (let cur_ts = cur_ts AND TIMEOUT_MASK in
     if us \<ge> 0x8000000 then Some (Inl Abort)
     else case move_due_timeouts mgr cur_ts of
       None \<Rightarrow> None
     | Some mgr \<Rightarrow>
         (case arm_walk mgr cur_ts us (timeouts_last mgr) of
            None \<Rightarrow> None
          | Some tp \<Rightarrow> Some (Inr (arm_insert mgr to us type cur_ts tp))))"

definition util_timeout_arm :: "timeout_manager \<Rightarrow> u64 \<Rightarrow> u32 \<Rightarrow> u8 \<Rightarrow> u64 \<Rightarrow> u64 \<Rightarrow> timeout_manager run" where
  "util_timeout_arm mgr to us type tsc tsc_per_us = util_timeout_arm_ts mgr to us type (timestamp_us tsc tsc_per_us)"

definition util_timeout_disarm :: "timeout_manager \<Rightarrow> u64 \<Rightarrow> timeout_manager result" where
  "util_timeout_disarm mgr to =
    (let prev = to_prev (timeout_objs mgr to); next = to_next (timeout_objs mgr to) in
     bind_res (if prev = 0 then
                 if timeouts_first mgr = to then Inr (mgr\<lparr>timeouts_first := next\<rparr>)
                 else if due_first mgr = to then Inr (mgr\<lparr>due_first := next\<rparr>)
                 else Inl Abort
               else Inr (upd_timeout mgr prev (to_next_update (\<lambda>_. next)))) (\<lambda>mgr.
     if next = 0 then
       if timeouts_last mgr = to then Inr (mgr\<lparr>timeouts_last := prev\<rparr>)
       else if due_last mgr = to then Inr (mgr\<lparr>due_last := prev\<rparr>)
       else Inl Abort
     else Inr (upd_timeout mgr next (to_prev_update (\<lambda>_. prev)))))"

text \<open>
  Polling: at most 64 due timeouts are taken off the due list and handed to the handler, a
  function pointer, which may arm timeouts again; \<open>'s\<close> is the state it works on.
\<close>

definition due_pop :: "timeout_manager \<Rightarrow> timeout_manager" where
  "due_pop mgr =
    (let mgr = mgr\<lparr>due_first := to_next (timeout_objs mgr (due_first mgr))\<rparr> in
     if due_first mgr \<noteq> 0 then upd_timeout mgr (due_first mgr) (to_prev_update (\<lambda>_. 0))
     else mgr\<lparr>due_last := 0\<rparr>)"

type_synonym 's timeout_handler = "u64 \<Rightarrow> u8 \<Rightarrow> timeout_manager \<times> 's \<Rightarrow> (timeout_manager \<times> 's) run"

fun timeout_poll_loop :: "'s timeout_handler \<Rightarrow> nat \<Rightarrow> timeout_manager \<times> 's \<Rightarrow> (timeout_manager \<times> 's) run" where
  "timeout_poll_loop handler 0 st = Some (Inr st)"
| "timeout_poll_loop handler (Suc n) (mgr, s) =
    (let to = due_first mgr in
     if to = 0 then Some (Inr (mgr, s))
     else
       let mgr = due_pop mgr in
       bind_run (handler to (ucast (drop_bit 28 (timeout_type (timeout_objs mgr to)))) (mgr, s))
         (timeout_poll_loop handler n))"

definition util_timeout_poll_ts :: "'s timeout_handler \<Rightarrow> timeout_manager \<times> 's \<Rightarrow> u32 \<Rightarrow> (timeout_manager \<times> 's) run" where
  "util_timeout_poll_ts handler st cur_ts =
    (case move_due_timeouts (fst st) (cur_ts AND TIMEOUT_MASK) of
       None \<Rightarrow> None
     | Some mgr \<Rightarrow> timeout_poll_loop handler MAX_TIMEOUTS (mgr, snd st))"

definition util_timeout_poll :: "'s timeout_handler \<Rightarrow> timeout_manager \<times> 's \<Rightarrow> u64 \<Rightarrow> u64 \<Rightarrow> (timeout_manager \<times> 's) run" where
  "util_timeout_poll handler st tsc tsc_per_us = util_timeout_poll_ts handler st (timestamp_us tsc tsc_per_us)"

definition util_timeout_next :: "timeout_manager \<Rightarrow> u32 \<Rightarrow> u32" where
  "util_timeout_next mgr cur_ts =
    (if due_first mgr \<noteq> 0 then 0
     else if timeouts_first mgr = 0 then -1
     else
       let next = timeout_rel_time (cur_ts AND TIMEOUT_MASK) (timeout_objs mgr (timeouts_first mgr)) in
       if sint next < 0 then 0 else next)"

section \<open>The clock\<close>

text \<open>Time stamps as 28-bit numbers, and the distance between two of them.\<close>

definition us_val :: "u32 \<Rightarrow> int" where
  "us_val t = uint t mod 268435456"

lemma uint_mask28: "uint (x AND TIMEOUT_MASK) = us_val x"
proof -
  have "(TIMEOUT_MASK :: u32) = mask 28"
    by (simp add: mask_eq_exp_minus_1)
  then have "uint (x AND TIMEOUT_MASK) = take_bit 28 (uint x)"
    by (simp only: take_bit_eq_mask [symmetric] unsigned_take_bit_eq)
  then show ?thesis
    by (simp add: us_val_def take_bit_eq_mod)
qed

definition us_rel :: "u32 \<Rightarrow> u32 \<Rightarrow> int" where
  "us_rel c t = sint (timeout_rel_time (c AND TIMEOUT_MASK) \<lparr>timeout_type = t, to_next = 0, to_prev = 0\<rparr>)"

lemma us_val_range: "0 \<le> us_val t" "us_val t < 268435456"
  by (simp_all add: us_val_def)

lemma u32_mask28: "x AND TIMEOUT_MASK = word_of_int (us_val x)"
  by (simp add: uint_mask28 [symmetric])

lemma sint_u32_of_int: "- 2147483648 \<le> k \<Longrightarrow> k < 2147483648 \<Longrightarrow> sint (word_of_int k :: u32) = k"
  by (simp add: int_word_sint mod_pos_pos_trivial)

lemma u32_of_int_less:
  assumes "0 \<le> a" "a < 4294967296" "0 \<le> b" "b < 4294967296"
  shows "(word_of_int a :: u32) < word_of_int b \<longleftrightarrow> a < b" "(word_of_int a :: u32) \<le> word_of_int b \<longleftrightarrow> a \<le> b"
    "(word_of_int a :: u32) = word_of_int b \<longleftrightarrow> a = b"
  using assms by (simp_all add: word_less_def word_le_def word_uint_eq_iff uint_word_of_int)

text \<open>The code's three cases, over the integers.\<close>

lemma timeout_rel_time_cases:
  assumes "x = us_val (timeout_type to)" "y = us_val c"
  shows "timeout_rel_time (c AND TIMEOUT_MASK) to = word_of_int
    (if y < 134217728 then if y + 134217728 \<le> x then x - y - 268435456 else x - y
     else if y = 134217728 then x - y
     else if x \<le> y - 134217728 then x - y + 268435456 else x - y)"
proof -
  have r: "0 \<le> x" "x < 268435456" "0 \<le> y" "y < 268435456"
    using us_val_range by (simp_all add: assms)
  have w: "timeout_type to AND TIMEOUT_MASK = word_of_int x" "c AND TIMEOUT_MASK = word_of_int y"
    by (simp_all only: assms u32_mask28)
  have v: "us_val (word_of_int k) = k mod 268435456" for k
    by (simp add: us_val_def uint_word_of_int mod_mod_cancel)
  have m1: "y < 134217728 \<Longrightarrow> (y - 134217728) mod 268435456 = y + 134217728"
    using r mod_add_self2 [of "y - 134217728" 268435456] mod_pos_pos_trivial [of "y + 134217728" 268435456] by simp
  have m2: "y > 134217728 \<Longrightarrow> (y + 134217728) mod 268435456 = y - 134217728"
    using r mod_add_self2 [of "y - 134217728" 268435456] mod_pos_pos_trivial [of "y - 134217728" 268435456]
    by (simp add: add.commute)
  have mask: "(word_of_int k :: u32) AND TIMEOUT_MASK = word_of_int (k mod 268435456)" for k
    by (simp only: u32_mask28 v)
  have cmp: "(word_of_int y :: u32) < 0x8000000 \<longleftrightarrow> y < 134217728" "(word_of_int y :: u32) = 0x8000000 \<longleftrightarrow> y = 134217728"
    "(word_of_int x :: u32) < 0x10000000" "(0 :: u32) \<le> word_of_int y"
    using r u32_of_int_less [of y 134217728] u32_of_int_less [of x 268435456] by simp_all
  have diff: "(word_of_int x :: u32) - word_of_int y = word_of_int (x - y)"
    "(word_of_int x :: u32) - word_of_int (y + 134217728) - 0x8000000 = word_of_int (x - y - 268435456)"
    "(word_of_int x :: u32) + (0x10000000 - word_of_int y) = word_of_int (x - y + 268435456)"
    "(word_of_int y :: u32) - 0x8000000 = word_of_int (y - 134217728)"
    "(word_of_int y :: u32) + 0x8000000 = word_of_int (y + 134217728)"
    "(word_of_int (y - 134217728) :: u32) + 1 = word_of_int (y - 134217728 + 1)"
    by simp_all
  have c1: "y < 134217728 \<Longrightarrow> (word_of_int (y + 134217728) :: u32) \<le> word_of_int x \<longleftrightarrow> y + 134217728 \<le> x"
    using r u32_of_int_less [of "y + 134217728" x] by simp
  have c2: "y > 134217728 \<Longrightarrow> (word_of_int x :: u32) < word_of_int (y - 134217728 + 1) \<longleftrightarrow> x \<le> y - 134217728"
    using r u32_of_int_less [of x "y - 134217728 + 1"] by (simp add: zless_add1_eq [symmetric] del: of_int_diff of_int_add) arith
  consider "y < 134217728" | "y = 134217728" | "y > 134217728"
    by linarith
  then show ?thesis
  proof cases
    case 1
    then show ?thesis
      unfolding timeout_rel_time_def Let_def w by (simp only: cmp diff mask m1 c1 if_True simp_thms) simp
  next
    case 2
    then show ?thesis
      unfolding timeout_rel_time_def Let_def w using cmp diff by simp
  next
    case 3
    then have "\<not> y < 134217728" "y \<noteq> 134217728"
      by linarith+
    then show ?thesis
      unfolding timeout_rel_time_def Let_def w using 3 by (simp only: cmp diff mask m2 c2 if_False simp_thms) simp
  qed
qed

lemma us_rel_cases:
  assumes "x = us_val t" "y = us_val c"
  shows "us_rel c t =
    (if y < 134217728 then if y + 134217728 \<le> x then x - y - 268435456 else x - y
     else if y = 134217728 then x - y
     else if x \<le> y - 134217728 then x - y + 268435456 else x - y)"
  using assms us_val_range [of t] us_val_range [of c] unfolding us_rel_def
  by (subst timeout_rel_time_cases [OF refl refl]) (subst sint_u32_of_int; simp)

lemma timeout_rel_time_eq: "timeout_rel_time (c AND TIMEOUT_MASK) to = word_of_int (us_rel c (timeout_type to))"
  by (simp only: us_rel_cases [OF refl refl] timeout_rel_time_cases [OF refl refl])

interpretation us_clock: wrap_clock us_rel us_val 134217728
proof
  fix c t :: u32
  show "2 * 134217728 dvd us_rel c t - (us_val t - us_val c)"
    by (simp add: us_rel_cases [OF refl refl])
  show "- 134217728 \<le> us_rel c t \<and> us_rel c t \<le> 134217728"
    using us_val_range [of t] us_val_range [of c] by (simp only: us_rel_cases [OF refl refl] split: if_split) arith
qed simp

section \<open>The two lists\<close>

definition to_lists :: "timeout_manager \<Rightarrow> u64 list \<Rightarrow> u64 list \<Rightarrow> bool" where
  "to_lists m xs ys \<longleftrightarrow>
     dlist 0 (\<lambda>p. to_next (timeout_objs m p)) (\<lambda>p. to_prev (timeout_objs m p)) (timeouts_first m) (timeouts_last m) xs \<and>
     dlist 0 (\<lambda>p. to_next (timeout_objs m p)) (\<lambda>p. to_prev (timeout_objs m p)) (due_first m) (due_last m) ys \<and>
     distinct (xs @ ys)"

abbreviation ttype :: "timeout_manager \<Rightarrow> u64 \<Rightarrow> u32" where
  "ttype m p \<equiv> timeout_type (timeout_objs m p)"

lemma upd_timeout_simps [simp]:
  "timeout_objs (upd_timeout m p f) = (timeout_objs m)(p := f (timeout_objs m p))"
  "timeouts_first (upd_timeout m p f) = timeouts_first m" "timeouts_last (upd_timeout m p f) = timeouts_last m"
  "due_first (upd_timeout m p f) = due_first m" "due_last (upd_timeout m p f) = due_last m"
  by (simp_all add: upd_timeout_def)

lemma to_lists_nonnull: "to_lists m xs ys \<Longrightarrow> 0 \<notin> set xs \<and> 0 \<notin> set ys"
  by (auto simp: to_lists_def dest: dlist_nil)

lemma ttype_move_due: "ttype (move_due m) p = ttype m p"
  by (simp add: move_due_def Let_def)

lemma move_due_lists:
  assumes "to_lists m (x # xs) ys"
  shows "to_lists (move_due m) xs (ys @ [x])"
proof -
  let ?n = "\<lambda>p. to_next (timeout_objs m p)" and ?p = "\<lambda>p. to_prev (timeout_objs m p)"
  let ?n' = "\<lambda>p. to_next (timeout_objs (move_due m) p)" and ?p' = "\<lambda>p. to_prev (timeout_objs (move_due m) p)"
  have l: "dlist 0 ?n ?p (timeouts_first m) (timeouts_last m) ([] @ x # xs)" "dlist 0 ?n ?p (due_first m) (due_last m) (ys @ [])"
    and d: "distinct (x # xs @ ys)" and z: "0 \<notin> set xs" "0 \<notin> set ys" "x \<noteq> 0"
    using assms to_lists_nonnull [OF assms] by (auto simp: to_lists_def)
  have f: "timeouts_first m = x" "?n x = hd_or 0 xs" "timeouts_last m = last_or x xs" "due_first m = hd_or 0 ys" "due_last m = last_or 0 ys"
    using l dlist_node [OF l(1)] by (simp_all add: dlist_def)
  have h: "hd_or 0 xs = 0 \<longleftrightarrow> xs = []" "last_or 0 ys = 0 \<longleftrightarrow> ys = []"
    using z by (simp_all add: hd_or_nil last_or_nil)
  have reg: "timeouts_first (move_due m) = hd_or 0 xs" "timeouts_last (move_due m) = (if xs = [] then 0 else timeouts_last m)"
    "due_first (move_due m) = (if ys = [] then x else due_first m)" "due_last (move_due m) = x"
    using f h by (auto simp: move_due_def Let_def)
  have obj: "timeout_objs (move_due m) p =
      (if p = x then (timeout_objs m x)\<lparr>to_next := 0, to_prev := last_or 0 ys\<rparr>
       else if xs \<noteq> [] \<and> p = hd_or 0 xs then (timeout_objs m p)\<lparr>to_prev := 0\<rparr>
       else if ys \<noteq> [] \<and> p = last_or 0 ys then (timeout_objs m p)\<lparr>to_next := x\<rparr>
       else timeout_objs m p)" for p
    using f h d hd_or_set [of xs 0] last_or_set [of ys 0] by (auto simp: move_due_def Let_def)
  have px: "?p' p = (if p = hd xs then 0 else ?p p) \<and> ?n' p = ?n p" if "p \<in> set xs" for p
  proof -
    have "xs \<noteq> []"
      using that by auto
    moreover have "p \<noteq> x" "ys \<noteq> [] \<Longrightarrow> p \<noteq> last_or 0 ys" "hd_or 0 xs = hd xs"
      using that d last_or_set [of ys 0] hd_or_hd [OF \<open>xs \<noteq> []\<close>] by auto
    ultimately show ?thesis
      by (auto simp: obj)
  qed
  have py: "?n' p = (if p = last ys then x else ?n p) \<and> ?p' p = ?p p" if "p \<in> set ys" for p
  proof -
    have "ys \<noteq> []"
      using that by auto
    moreover have "p \<noteq> x" "xs \<noteq> [] \<Longrightarrow> p \<noteq> hd_or 0 xs" "last_or 0 ys = last ys"
      using that d hd_or_set [of xs 0] last_or_last [OF \<open>ys \<noteq> []\<close>] by auto
    ultimately show ?thesis
      by (auto simp: obj)
  qed
  have "dlist 0 ?n' ?p' (if ([] :: u64 list) = [] then hd_or 0 xs else timeouts_first m) (if xs = [] then last_or 0 [] else timeouts_last m) ([] @ xs)"
    by (rule dlist_removeI [OF l(1)]) (use d px in simp_all)
  moreover have "dlist 0 ?n' ?p' (if ys = [] then x else due_first m) (if ([] :: u64 list) = [] then x else due_last m) (ys @ [x])"
    by (rule dlist_insertI [OF l(2)]) (use d z py in \<open>simp_all add: obj\<close>)
  ultimately show ?thesis
    using d by (simp add: to_lists_def reg split: if_splits)
qed

lemma timeout_due_iff: "timeout_due to (c AND TIMEOUT_MASK) \<longleftrightarrow> us_rel c (timeout_type to) \<le> 0"
  using us_clock.rel_range [of c "timeout_type to"] by (simp add: timeout_due_def timeout_rel_time_eq sint_u32_of_int)

lemma move_due_timeouts_lists:
  assumes "to_lists m xs ys"
  shows "\<exists>m'. move_due_timeouts m (c AND TIMEOUT_MASK) = Some m' \<and> ttype m' = ttype m \<and>
    to_lists m' (dropWhile (\<lambda>p. us_rel c (ttype m p) \<le> 0) xs) (ys @ takeWhile (\<lambda>p. us_rel c (ttype m p) \<le> 0) xs)"
  using assms
proof (induction xs arbitrary: m ys)
  case Nil
  then have "timeouts_first m = 0"
    by (simp add: to_lists_def dlist_empty)
  then show ?case
    using Nil by (subst move_due_timeouts.simps) simp
next
  case (Cons x xs)
  then have f: "timeouts_first m = x" "x \<noteq> 0"
    using to_lists_nonnull [OF Cons.prems] by (auto simp: to_lists_def dlist_def)
  show ?case
  proof (cases "us_rel c (ttype m x) \<le> 0")
    case False
    then show ?thesis
      using f Cons.prems by (subst move_due_timeouts.simps) (simp add: timeout_due_iff)
  next
    case True
    have "ttype (move_due m) = ttype m"
      by (simp add: ttype_move_due fun_eq_iff)
    then show ?thesis
      using True f Cons.IH [OF move_due_lists [OF Cons.prems]] by (subst move_due_timeouts.simps) (simp add: timeout_due_iff ttype_move_due)
  qed
qed

text \<open>The search from the end finds the last timeout that is due no later.\<close>

lemma arm_walk_last:
  assumes "dseg 0 (\<lambda>p. to_next (timeout_objs m p)) (\<lambda>p. to_prev (timeout_objs m p)) 0 xs n"
  shows "arm_walk m c us (last_or 0 xs) =
    Some (last_or 0 (rev (dropWhile (\<lambda>p. timeout_rel_time c (timeout_objs m p) > us) (rev xs))))"
  using assms
proof (induction xs arbitrary: n rule: rev_induct)
  case Nil
  then show ?case
    by (subst arm_walk.simps) simp
next
  case (snoc x xs)
  then have "x \<noteq> 0" "to_prev (timeout_objs m x) = last_or 0 xs"
    and "dseg 0 (\<lambda>p. to_next (timeout_objs m p)) (\<lambda>p. to_prev (timeout_objs m p)) 0 xs x"
    by (simp_all add: dseg_append)
  then show ?case
    using snoc.IH by (subst arm_walk.simps) simp
qed

lemma rev_dropWhile_rev: "sorted_wrt (\<lambda>x y. P x \<longrightarrow> P y) xs \<Longrightarrow> rev (dropWhile P (rev xs)) = takeWhile (\<lambda>x. \<not> P x) xs"
proof (induction xs)
  case (Cons x xs)
  show ?case
  proof (cases "P x")
    case True
    then have "\<forall>y \<in> set (rev (x # xs)). P y"
      using Cons.prems by auto
    then have "dropWhile P (rev (x # xs)) = []"
      by (simp only: dropWhile_eq_Nil_conv)
    then show ?thesis
      using True by simp
  next
    case False
    then have "dropWhile P (rev xs @ [x]) = dropWhile P (rev xs) @ [x]"
      using dropWhile_append2 [of "rev xs" P "[x]"] dropWhile_append1 [of _ "rev xs" P "[x]"]
      by (cases "dropWhile P (rev xs) = []") (auto simp: dropWhile_eq_Nil_conv)
    then show ?thesis
      using False Cons by simp
  qed
qed simp

lemma arm_insert_lists:
  fixes us c :: u32 and type :: u8
  assumes l: "to_lists m (as @ bs) ys" and to: "to \<noteq> 0" "to \<notin> set (as @ bs @ ys)"
  defines "m' \<equiv> arm_insert m to us type c (last_or 0 as)"
  shows "to_lists m' (as @ to # bs) ys"
    and "ttype m' = (ttype m)(to := push_bit 28 (ucast type) OR ((c + us) AND TIMEOUT_MASK))"
proof -
  let ?n = "\<lambda>p. to_next (timeout_objs m p)" and ?p = "\<lambda>p. to_prev (timeout_objs m p)"
  let ?n' = "\<lambda>p. to_next (timeout_objs m' p)" and ?p' = "\<lambda>p. to_prev (timeout_objs m' p)"
  have dl: "dlist 0 ?n ?p (timeouts_first m) (timeouts_last m) (as @ bs)" and dy: "dlist 0 ?n ?p (due_first m) (due_last m) ys"
    and d: "distinct (as @ bs @ ys)" and z: "0 \<notin> set as" "0 \<notin> set bs"
    using l to_lists_nonnull [OF l] by (auto simp: to_lists_def)
  have za: "last_or 0 as = 0 \<longleftrightarrow> as = []" and zb: "hd_or 0 bs = 0 \<longleftrightarrow> bs = []"
    using z by (simp_all add: hd_or_nil last_or_nil)
  have tn: "(if last_or 0 as \<noteq> 0 then ?n (last_or 0 as) else timeouts_first m) = hd_or 0 bs"
  proof (cases "as = []")
    case True
    then show ?thesis
      using dl by (simp add: dlist_def)
  next
    case False
    have "dseg 0 ?n ?p 0 as (hd_or 0 bs)"
      using dl by (simp add: dlist_def dseg_append)
    then show ?thesis
      using dseg_next False za by (fastforce simp: last_or_last)
  qed
  have ne: "last_or 0 as \<noteq> to" "hd_or 0 bs \<noteq> to" "last_or 0 as = hd_or 0 bs \<Longrightarrow> as = []"
    using to d z last_or_set [of as 0] hd_or_set [of bs 0] za zb by (auto split: if_splits)
  have obj: "timeout_objs m' p =
      (if p = to then (timeout_objs m to)\<lparr>timeout_type := push_bit 28 (ucast type) OR ((c + us) AND TIMEOUT_MASK),
                                         to_next := hd_or 0 bs, to_prev := last_or 0 as\<rparr>
       else if as \<noteq> [] \<and> p = last_or 0 as then (timeout_objs m p)\<lparr>to_next := to\<rparr>
       else if bs \<noteq> [] \<and> p = hd_or 0 bs then (timeout_objs m p)\<lparr>to_prev := to\<rparr>
       else timeout_objs m p)" for p
    using ne za zb unfolding m'_def arm_insert_def tn by (auto simp: Let_def)
  have reg: "timeouts_first m' = (if as = [] then to else timeouts_first m)" "timeouts_last m' = (if bs = [] then to else timeouts_last m)"
    "due_first m' = due_first m" "due_last m' = due_last m"
    using za zb unfolding m'_def arm_insert_def tn by (simp_all add: Let_def)
  show "ttype m' = (ttype m)(to := push_bit 28 (ucast type) OR ((c + us) AND TIMEOUT_MASK))"
    by (auto simp: obj)
  have pa: "?n' p = (if p = last as then to else ?n p) \<and> ?p' p = ?p p" if "p \<in> set as" for p
  proof -
    have "as \<noteq> []"
      using that by auto
    moreover have "p \<noteq> to" "bs \<noteq> [] \<Longrightarrow> p \<noteq> hd_or 0 bs" "last_or 0 as = last as"
      using that to d hd_or_set [of bs 0] last_or_last [OF \<open>as \<noteq> []\<close>] by auto
    ultimately show ?thesis
      by (auto simp: obj)
  qed
  have pb: "?p' p = (if p = hd bs then to else ?p p) \<and> ?n' p = ?n p" if "p \<in> set bs" for p
  proof -
    have "bs \<noteq> []"
      using that by auto
    moreover have "p \<noteq> to" "as \<noteq> [] \<Longrightarrow> p \<noteq> last_or 0 as" "hd_or 0 bs = hd bs"
      using that to d last_or_set [of as 0] hd_or_hd [OF \<open>bs \<noteq> []\<close>] by auto
    ultimately show ?thesis
      by (auto simp: obj)
  qed
  have "?n' p = ?n p \<and> ?p' p = ?p p" if "p \<in> set ys" for p
    using that to d last_or_set [of as 0] hd_or_set [of bs 0] by (auto simp: obj)
  then have "dlist 0 ?n' ?p' (due_first m) (due_last m) ys"
    using dy by (subst dlist_cong)
  moreover have "dlist 0 ?n' ?p' (if as = [] then to else timeouts_first m) (if bs = [] then to else timeouts_last m) (as @ to # bs)"
    by (rule dlist_insertI [OF dl]) (use d to pa pb in \<open>auto simp: obj\<close>)
  ultimately show "to_lists m' (as @ to # bs) ys"
    using d to(2) by (simp add: to_lists_def reg)
qed

text \<open>Taking a timeout out of the list it is in; \<open>zs\<close> is the other list.\<close>

definition unlinked :: "(u64 \<Rightarrow> timeout) \<Rightarrow> u64 list \<Rightarrow> u64 list \<Rightarrow> u64 \<Rightarrow> timeout" where
  "unlinked objs as bs p =
    (if as \<noteq> [] \<and> p = last_or 0 as then (objs p)\<lparr>to_next := hd_or 0 bs\<rparr>
     else if bs \<noteq> [] \<and> p = hd_or 0 bs then (objs p)\<lparr>to_prev := last_or 0 as\<rparr>
     else objs p)"

lemma unlinked_upd:
  "unlinked objs [] [] = objs"
  "bs \<noteq> [] \<Longrightarrow> unlinked objs [] bs = objs(hd_or 0 bs := (objs (hd_or 0 bs))\<lparr>to_prev := 0\<rparr>)"
  "as \<noteq> [] \<Longrightarrow> unlinked objs as [] = objs(last_or 0 as := (objs (last_or 0 as))\<lparr>to_next := 0\<rparr>)"
  "as \<noteq> [] \<Longrightarrow> bs \<noteq> [] \<Longrightarrow> last_or 0 as \<noteq> hd_or 0 bs \<Longrightarrow> unlinked objs as bs =
    objs(last_or 0 as := (objs (last_or 0 as))\<lparr>to_next := hd_or 0 bs\<rparr>, hd_or 0 bs := (objs (hd_or 0 bs))\<lparr>to_prev := last_or 0 as\<rparr>)"
  by (auto simp: unlinked_def)

lemma unlinked_lists:
  assumes l: "dlist 0 (\<lambda>p. to_next (objs p)) (\<lambda>p. to_prev (objs p)) f l (as @ to # bs)"
    and z: "dlist 0 (\<lambda>p. to_next (objs p)) (\<lambda>p. to_prev (objs p)) f' l' zs" and d: "distinct (as @ bs @ zs)"
  shows "dlist 0 (\<lambda>p. to_next (unlinked objs as bs p)) (\<lambda>p. to_prev (unlinked objs as bs p))
      (if as = [] then hd_or 0 bs else f) (if bs = [] then last_or 0 as else l) (as @ bs)"
    and "dlist 0 (\<lambda>p. to_next (unlinked objs as bs p)) (\<lambda>p. to_prev (unlinked objs as bs p)) f' l' zs"
proof -
  have a: "as \<noteq> [] \<Longrightarrow> last_or 0 as = last as" "bs \<noteq> [] \<Longrightarrow> hd_or 0 bs = hd bs"
    by (simp_all add: last_or_last hd_or_hd)
  note s = last_or_set [of as 0] hd_or_set [of bs 0]
  have "to_next (unlinked objs as bs p) = (if p = last as then hd_or 0 bs else to_next (objs p)) \<and>
      to_prev (unlinked objs as bs p) = to_prev (objs p)" if "p \<in> set as" for p
  proof -
    have "as \<noteq> []" "bs \<noteq> [] \<Longrightarrow> p \<noteq> hd_or 0 bs"
      using that s d by auto
    then show ?thesis
      using a(1) by (auto simp: unlinked_def)
  qed
  moreover have "to_prev (unlinked objs as bs p) = (if p = hd bs then last_or 0 as else to_prev (objs p)) \<and>
      to_next (unlinked objs as bs p) = to_next (objs p)" if "p \<in> set bs" for p
  proof -
    have "bs \<noteq> []" "as \<noteq> [] \<Longrightarrow> p \<noteq> last_or 0 as"
      using that s d by auto
    then show ?thesis
      using a(2) by (auto simp: unlinked_def)
  qed
  ultimately show "dlist 0 (\<lambda>p. to_next (unlinked objs as bs p)) (\<lambda>p. to_prev (unlinked objs as bs p))
      (if as = [] then hd_or 0 bs else f) (if bs = [] then last_or 0 as else l) (as @ bs)"
    using d by (intro dlist_removeI [OF l]) auto
  have "unlinked objs as bs p = objs p" if "p \<in> set zs" for p
    using that s d by (auto simp: unlinked_def)
  then show "dlist 0 (\<lambda>p. to_next (unlinked objs as bs p)) (\<lambda>p. to_prev (unlinked objs as bs p)) f' l' zs"
    using z by (subst dlist_cong [of zs _ "\<lambda>p. to_next (objs p)" _ "\<lambda>p. to_prev (objs p)"]) auto
qed

lemma util_timeout_disarm_pending:
  assumes l: "to_lists m (as @ to # bs) ys"
  shows "\<exists>m'. util_timeout_disarm m to = Inr m' \<and> to_lists m' (as @ bs) ys \<and> ttype m' = ttype m"
proof -
  let ?n = "\<lambda>p. to_next (timeout_objs m p)" and ?p = "\<lambda>p. to_prev (timeout_objs m p)"
  have dx: "dlist 0 ?n ?p (timeouts_first m) (timeouts_last m) (as @ to # bs)" and dy: "dlist 0 ?n ?p (due_first m) (due_last m) ys"
    and d: "distinct (as @ bs @ ys)" and z: "0 \<notin> set as" "0 \<notin> set bs" "to \<noteq> 0"
    using l to_lists_nonnull [OF l] by (auto simp: to_lists_def)
  note u = unlinked_lists [OF dx dy d]
  have za: "last_or 0 as = 0 \<longleftrightarrow> as = []" and zb: "hd_or 0 bs = 0 \<longleftrightarrow> bs = []"
    using z by (simp_all add: hd_or_nil last_or_nil)
  have ne: "as \<noteq> [] \<Longrightarrow> bs \<noteq> [] \<Longrightarrow> last_or 0 as \<noteq> hd_or 0 bs \<and> hd_or 0 bs \<noteq> last_or 0 as"
    using d last_or_set [of as 0] hd_or_set [of bs 0] by auto
  let ?m = "m\<lparr>timeouts_first := (if as = [] then hd_or 0 bs else timeouts_first m),
    timeouts_last := (if bs = [] then last_or 0 as else timeouts_last m), timeout_objs := unlinked (timeout_objs m) as bs\<rparr>"
  have "as = [] \<Longrightarrow> timeouts_first m = to" "bs = [] \<Longrightarrow> timeouts_last m = to"
    using dx by (simp_all add: dlist_def)
  then have "util_timeout_disarm m to = Inr ?m"
    using za zb ne dlist_node [OF dx]
    by (cases "as = []"; cases "bs = []") (simp_all add: util_timeout_disarm_def upd_timeout_def unlinked_upd Let_def)
  moreover have "to_lists ?m (as @ bs) ys"
    using u d by (simp add: to_lists_def)
  moreover have "ttype ?m = ttype m"
    by (simp add: unlinked_def fun_eq_iff)
  ultimately show ?thesis
    by blast
qed

lemma util_timeout_disarm_due:
  assumes l: "to_lists m xs (as @ to # bs)"
  shows "\<exists>m'. util_timeout_disarm m to = Inr m' \<and> to_lists m' xs (as @ bs) \<and> ttype m' = ttype m"
proof -
  let ?n = "\<lambda>p. to_next (timeout_objs m p)" and ?p = "\<lambda>p. to_prev (timeout_objs m p)"
  have dy: "dlist 0 ?n ?p (due_first m) (due_last m) (as @ to # bs)" and dx: "dlist 0 ?n ?p (timeouts_first m) (timeouts_last m) xs"
    and d: "distinct (as @ bs @ xs)" "to \<notin> set xs" and z: "0 \<notin> set as" "0 \<notin> set bs" "to \<noteq> 0"
    using l to_lists_nonnull [OF l] by (auto simp: to_lists_def)
  note u = unlinked_lists [OF dy dx d(1)]
  have za: "last_or 0 as = 0 \<longleftrightarrow> as = []" and zb: "hd_or 0 bs = 0 \<longleftrightarrow> bs = []"
    using z by (simp_all add: hd_or_nil last_or_nil)
  have ne: "as \<noteq> [] \<Longrightarrow> bs \<noteq> [] \<Longrightarrow> last_or 0 as \<noteq> hd_or 0 bs \<and> hd_or 0 bs \<noteq> last_or 0 as"
    using d last_or_set [of as 0] hd_or_set [of bs 0] by auto
  let ?m = "m\<lparr>due_first := (if as = [] then hd_or 0 bs else due_first m),
    due_last := (if bs = [] then last_or 0 as else due_last m), timeout_objs := unlinked (timeout_objs m) as bs\<rparr>"
  have "timeouts_first m \<noteq> to" "timeouts_last m \<noteq> to"
    using dx d(2) z hd_or_set [of xs 0] last_or_set [of xs 0] by (auto simp: dlist_def split: if_splits) (metis hd_or.simps(1) last_or_simps(1))+
  moreover have "as = [] \<Longrightarrow> due_first m = to" "bs = [] \<Longrightarrow> due_last m = to"
    using dy by (simp_all add: dlist_def)
  ultimately have "util_timeout_disarm m to = Inr ?m"
    using za zb ne dlist_node [OF dy]
    by (cases "as = []"; cases "bs = []") (simp_all add: util_timeout_disarm_def upd_timeout_def unlinked_upd Let_def)
  moreover have "to_lists ?m xs (as @ bs)"
    using u d by (auto simp: to_lists_def)
  moreover have "ttype ?m = ttype m"
    by (simp add: unlinked_def fun_eq_iff)
  ultimately show ?thesis
    by blast
qed

lemma due_pop_lists:
  assumes l: "to_lists m xs (y # ys)"
  shows "to_lists (due_pop m) xs ys" "ttype (due_pop m) = ttype m" "due_first m = y" "y \<noteq> 0"
proof -
  let ?n = "\<lambda>p. to_next (timeout_objs m p)" and ?p = "\<lambda>p. to_prev (timeout_objs m p)"
  have dy: "dlist 0 ?n ?p (due_first m) (due_last m) ([] @ y # ys)" and dx: "dlist 0 ?n ?p (timeouts_first m) (timeouts_last m) xs"
    and d: "distinct ([] @ ys @ xs)" and z: "0 \<notin> set ys" "y \<noteq> 0"
    using l to_lists_nonnull [OF l] by (auto simp: to_lists_def)
  note u = unlinked_lists [OF dy dx d]
  have zb: "hd_or 0 ys = 0 \<longleftrightarrow> ys = []"
    using z by (simp add: hd_or_nil)
  show f: "due_first m = y" "y \<noteq> 0"
    using dy z by (simp_all add: dlist_def)
  have "due_pop m = m\<lparr>due_first := hd_or 0 ys, due_last := (if ys = [] then 0 else due_last m),
      timeout_objs := unlinked (timeout_objs m) [] ys\<rparr>"
    using zb f dlist_node [OF dy] by (cases "ys = []") (simp_all add: due_pop_def upd_timeout_def unlinked_upd Let_def)
  then show "to_lists (due_pop m) xs ys" "ttype (due_pop m) = ttype m"
    using u d by (auto simp: to_lists_def unlinked_def fun_eq_iff split: if_splits)
qed

end
