(* ===== verification/Timeouts_Spec.thy ===== *)
theory Timeouts_Spec
  imports Timeouts Linked_List
begin

text \<open>
  What the timeout manager promises, over absolute time: a timeout armed at time \<open>t\<close> for \<open>us\<close>
  microseconds fires at the first polls from \<open>t + us\<close> on and not before, unless it is disarmed,
  with the type it was armed with and in the order of the times due.  This needs polls often
  enough: a timeout must not be overdue by more than \<open>2^27\<close> microseconds, half the range of the
  clock, which is about two minutes.
\<close>

unbundle bit_operations_syntax

section \<open>Time stamps and types\<close>

lemma us_val_of_int: "us_val (word_of_int k) = k mod 268435456"
  by (simp add: us_val_def uint_word_of_int mod_mod_cancel)

lemma us_rel_deadline:
  assumes "us_val t = d mod 268435456" "\<bar>d - now\<bar> < 134217728"
  shows "us_rel (word_of_int now) t = d - now"
proof (rule us_clock.rel_unique)
  have "(268435456 :: int) dvd (d - d mod 268435456) - (now - now mod 268435456)"
    by (rule dvd_diff; simp)
  moreover have "d - now - (us_val t - us_val (word_of_int now)) = (d - d mod 268435456) - (now - now mod 268435456)"
    using assms(1) by (simp add: us_val_of_int)
  ultimately show "2 * 134217728 dvd d - now - (us_val t - us_val (word_of_int now))"
    by (simp only:) simp
qed (use assms in simp)

lemma timeout_type_fields:
  fixes x a :: u32
  defines "t \<equiv> push_bit 28 a OR (x AND TIMEOUT_MASK)"
  shows "us_val t = us_val x" "drop_bit 28 t = a AND 15"
proof -
  have m: "(TIMEOUT_MASK :: u32) = mask 28" "(15 :: u32) = mask 4"
    by (simp_all add: mask_eq_exp_minus_1)
  have "t AND TIMEOUT_MASK = x AND TIMEOUT_MASK"
    unfolding t_def m by (rule bit_word_eqI) (auto simp: bit_simps)
  then show "us_val t = us_val x"
    by (simp add: uint_mask28 [symmetric])
  show "drop_bit 28 t = a AND 15"
    unfolding t_def m by (rule bit_word_eqI) (auto simp: bit_simps)
qed

section \<open>Deadlines\<close>

text \<open>
  \<open>dl\<close> and \<open>ty\<close> are the time due and the type of the armed timeouts; \<open>xs\<close> are pending, \<open>ys\<close> due.
\<close>

definition to_rep :: "int \<Rightarrow> (u64 \<Rightarrow> int) \<Rightarrow> (u64 \<Rightarrow> u8) \<Rightarrow> timeout_manager \<Rightarrow> u64 list \<Rightarrow> u64 list \<Rightarrow> bool" where
  "to_rep now dl ty m xs ys \<longleftrightarrow> to_lists m xs ys \<and> sorted_wrt (\<lambda>p q. dl p \<le> dl q) (ys @ xs) \<and>
     (\<forall>p \<in> set xs. us_val (ttype m p) = dl p mod 268435456 \<and> \<bar>dl p - now\<bar> < 134217728) \<and> (\<forall>p \<in> set ys. dl p \<le> now) \<and>
     (\<forall>p \<in> set (xs @ ys). ucast (drop_bit 28 (ttype m p)) = ty p)"

lemma to_rep_lists: "to_rep now dl ty m xs ys \<Longrightarrow> to_lists m xs ys"
  by (simp add: to_rep_def)

lemma to_rep_init: "to_rep now dl ty (util_timeout_init objs) [] []"
  by (simp add: to_rep_def to_lists_def util_timeout_init_def dlist_empty)

lemma to_rep_advance:
  assumes "to_rep now dl ty m xs ys" "now \<le> now'" "\<forall>p \<in> set xs. now' - dl p < 134217728"
  shows "to_rep now' dl ty m xs ys"
  using assms by (fastforce simp: to_rep_def)

lemma to_rep_move:
  assumes r: "to_rep now dl ty m xs ys"
  shows "\<exists>m'. move_due_timeouts m (word_of_int now AND TIMEOUT_MASK) = Some m' \<and>
    to_rep now dl ty m' (filter (\<lambda>p. now < dl p) xs) (ys @ filter (\<lambda>p. dl p \<le> now) xs)"
proof -
  obtain m' where m: "move_due_timeouts m (word_of_int now AND TIMEOUT_MASK) = Some m'" "ttype m' = ttype m"
    "to_lists m' (dropWhile (\<lambda>p. us_rel (word_of_int now) (ttype m p) \<le> 0) xs)
       (ys @ takeWhile (\<lambda>p. us_rel (word_of_int now) (ttype m p) \<le> 0) xs)"
    using move_due_timeouts_lists [OF to_rep_lists [OF r]] by blast
  have "us_rel (word_of_int now) (ttype m p) \<le> 0 \<longleftrightarrow> dl p \<le> now" if "p \<in> set xs" for p
    using r that us_rel_deadline [of "ttype m p" "dl p" now] by (auto simp: to_rep_def)
  then have "takeWhile (\<lambda>p. us_rel (word_of_int now) (ttype m p) \<le> 0) xs = takeWhile (\<lambda>p. dl p \<le> now) xs"
    "dropWhile (\<lambda>p. us_rel (word_of_int now) (ttype m p) \<le> 0) xs = dropWhile (\<lambda>p. dl p \<le> now) xs"
    by (auto intro: takeWhile_cong dropWhile_cong)
  moreover have "sorted_wrt (\<lambda>p q. dl q \<le> now \<longrightarrow> dl p \<le> now) xs"
    using r by (auto simp: to_rep_def sorted_wrt_append elim!: sorted_wrt_mono_rel [rotated])
  note f = takeWhile_dropWhile_filter [OF this]
  ultimately have l: "to_lists m' (filter (\<lambda>p. now < dl p) xs) (ys @ filter (\<lambda>p. dl p \<le> now) xs)"
    using m(3) by (simp add: linorder_not_le)
  have "to_rep now dl ty m' (filter (\<lambda>p. now < dl p) xs) (ys @ filter (\<lambda>p. dl p \<le> now) xs)"
    using r l unfolding to_rep_def m(2) by (auto simp: sorted_wrt_append sorted_wrt_filter m(2) [THEN fun_cong])
  then show ?thesis
    using m(1) by blast
qed

text \<open>Arming a timeout inserts it behind everything that is due no later.\<close>

lemma to_rep_arm:
  assumes r: "to_rep now dl ty m xs ys" and us: "us < 0x8000000" and to: "to \<noteq> 0" "to \<notin> set (xs @ ys)"
  defines "d \<equiv> now + uint us"
  shows "\<exists>m'. util_timeout_arm_ts m to us type (word_of_int now) = Some (Inr m') \<and>
    to_rep now (dl(to := d)) (ty(to := type AND 15)) m' (ins_sorted (\<lambda>p. dl p \<le> d) to (filter (\<lambda>p. now < dl p) xs))
      (ys @ filter (\<lambda>p. dl p \<le> now) xs)"
proof -
  define X where "X = filter (\<lambda>p. now < dl p) xs"
  define Y where "Y = ys @ filter (\<lambda>p. dl p \<le> now) xs"
  let ?c = "word_of_int now AND TIMEOUT_MASK :: u32"
  obtain m1 where m1: "move_due_timeouts m ?c = Some m1" "to_rep now dl ty m1 X Y"
    using to_rep_move [OF r] by (auto simp: X_def Y_def)
  have l: "to_lists m1 X Y" and s: "sorted_wrt (\<lambda>p q. dl p \<le> dl q) (Y @ X)"
    and v: "\<forall>p \<in> set X. us_val (ttype m1 p) = dl p mod 268435456 \<and> \<bar>dl p - now\<bar> < 134217728" and y: "\<forall>p \<in> set Y. dl p \<le> now"
    and t: "\<forall>p \<in> set (X @ Y). ucast (drop_bit 28 (ttype m1 p)) = ty p"
    using m1(2) by (auto simp: to_rep_def)
  have u: "0 \<le> uint us" "uint us < 134217728"
    using us by (simp_all add: word_less_def)
  have W: "timeout_rel_time ?c (timeout_objs m1 p) > us \<longleftrightarrow> \<not> dl p \<le> d" if p: "p \<in> set X" for p
  proof -
    have "us_rel (word_of_int now) (ttype m1 p) = dl p - now" "0 < dl p - now" "dl p - now < 134217728"
      using v p us_rel_deadline [of "ttype m1 p" "dl p" now] by (auto simp: X_def)
    then have "us < timeout_rel_time ?c (timeout_objs m1 p) \<longleftrightarrow> uint us < dl p - now"
      using u32_of_int_less(1) [of "uint us" "dl p - now"] u by (simp add: timeout_rel_time_eq del: of_int_diff)
    then show ?thesis
      by (auto simp: d_def)
  qed
  let ?as = "takeWhile (\<lambda>p. dl p \<le> d) X" and ?bs = "dropWhile (\<lambda>p. dl p \<le> d) X"
  have seg: "dseg 0 (\<lambda>p. to_next (timeout_objs m1 p)) (\<lambda>p. to_prev (timeout_objs m1 p)) 0 X 0" "timeouts_last m1 = last_or 0 X"
    using l by (simp_all add: to_lists_def dlist_def)
  have "dropWhile (\<lambda>p. timeout_rel_time ?c (timeout_objs m1 p) > us) (rev X) = dropWhile (\<lambda>p. \<not> dl p \<le> d) (rev X)"
    by (rule dropWhile_cong [OF refl]) (use W in auto)
  moreover have "sorted_wrt (\<lambda>p q. \<not> dl p \<le> d \<longrightarrow> \<not> dl q \<le> d) X"
    using s by (auto simp: sorted_wrt_append elim!: sorted_wrt_mono_rel [rotated])
  then have "rev (dropWhile (\<lambda>p. \<not> dl p \<le> d) (rev X)) = ?as"
    by (simp add: rev_dropWhile_rev)
  ultimately have walk: "arm_walk m1 ?c us (timeouts_last m1) = Some (last_or 0 ?as)"
    using arm_walk_last [OF seg(1), of ?c us] seg(2) by simp
  let ?m = "arm_insert m1 to us type ?c (last_or 0 ?as)"
  have l': "to_lists m1 (?as @ ?bs) Y" and to': "to \<notin> set (?as @ ?bs @ Y)"
    using l to(2) by (auto simp: X_def Y_def dest!: set_takeWhileD set_dropWhileD)
  note ins = arm_insert_lists [OF l' to(1) to', of us type ?c]
  have "util_timeout_arm_ts m to us type (word_of_int now) = Some (Inr ?m)"
    using us m1(1) walk by (simp add: util_timeout_arm_ts_def Let_def linorder_not_le [symmetric])
  moreover have "to_rep now (dl(to := d)) (ty(to := type AND 15)) ?m (ins_sorted (\<lambda>p. dl p \<le> d) to X) Y"
  proof -
    let ?f = "dl(to := d)"
    have nX: "to \<notin> set X" "to \<notin> set Y"
      using to(2) by (auto simp: X_def Y_def)
    have "sorted_wrt (\<lambda>p q. ?f p \<le> ?f q) X"
      using s nX by (auto simp: sorted_wrt_append elim!: sorted_wrt_mono_rel [rotated])
    then have "sorted_wrt (\<lambda>p q. ?f p \<le> ?f q) (ins_sorted (\<lambda>p. ?f p \<le> ?f to) to X)"
      by (rule sorted_ins_sorted)
    moreover have "ins_sorted (\<lambda>p. ?f p \<le> ?f to) to X = ins_sorted (\<lambda>p. dl p \<le> d) to X"
      unfolding ins_sorted_def using nX by (auto intro!: arg_cong2 [of _ _ _ _ append] takeWhile_cong dropWhile_cong)
    moreover have "sorted_wrt (\<lambda>p q. ?f p \<le> ?f q) Y"
      using s nX by (auto simp: sorted_wrt_append elim!: sorted_wrt_mono_rel [rotated])
    moreover have "\<forall>p \<in> set Y. \<forall>q \<in> set (ins_sorted (\<lambda>p. dl p \<le> d) to X). ?f p \<le> ?f q"
    proof -
      have "dl p \<le> now" "now \<le> d" if "p \<in> set Y" for p
        using y u that by (auto simp: d_def)
      moreover have "now < dl q" if "q \<in> set X" for q
        using that by (simp add: X_def)
      ultimately show ?thesis
        using nX by fastforce
    qed
    ultimately have so: "sorted_wrt (\<lambda>p q. ?f p \<le> ?f q) (Y @ ins_sorted (\<lambda>p. dl p \<le> d) to X)"
      by (simp add: sorted_wrt_append)
    have "us_val (?c + us) = (uint ?c + uint us) mod 268435456"
      by (simp only: us_val_def uint_word_ariths) (simp add: mod_mod_cancel)
    also have "uint ?c = now mod 268435456"
      by (simp only: uint_mask28 us_val_of_int)
    finally have "us_val (?c + us) = d mod 268435456"
      by (simp add: d_def mod_add_left_eq)
    then have tv: "us_val (ttype ?m to) = d mod 268435456" "drop_bit 28 (ttype ?m to) = ucast type AND 15"
      unfolding ins(2) [THEN fun_cong, of to] fun_upd_same by (simp_all only: timeout_type_fields)
    have "ucast (ucast type AND 15 :: u32) = type AND 15"
      by (rule bit_word_eqI) (auto simp: bit_simps)
    moreover have tp: "ttype ?m p = ttype m1 p" if "p \<noteq> to" for p
      using ins(2) [THEN fun_cong, of p] that by simp
    moreover have "to_lists ?m (ins_sorted (\<lambda>p. dl p \<le> d) to X) Y"
      using ins(1) by (simp add: ins_sorted_def)
    ultimately show ?thesis
      unfolding to_rep_def using so v y t tv u nX by (auto simp: d_def)
  qed
  ultimately show ?thesis
    unfolding X_def Y_def by blast
qed

lemma sorted_wrt_remove: "sorted_wrt R (xs @ a # ys) \<Longrightarrow> sorted_wrt R (xs @ ys)"
  by (simp add: sorted_wrt_append)

lemma to_rep_disarm:
  assumes r: "to_rep now dl ty m xs ys" and p: "p \<in> set (xs @ ys)"
  shows "\<exists>m'. util_timeout_disarm m p = Inr m' \<and> to_rep now dl ty m' (removeAll p xs) (removeAll p ys)"
proof -
  have d: "distinct (xs @ ys)"
    using r by (simp add: to_rep_def to_lists_def)
  consider as bs where "xs = as @ p # bs" | as bs where "ys = as @ p # bs"
    using p by (auto dest: split_list)
  then show ?thesis
  proof cases
    case 1
    then have e: "removeAll p xs = as @ bs" "removeAll p ys = ys"
      using d by (auto simp: removeAll_id)
    obtain m' where m: "util_timeout_disarm m p = Inr m'" "to_lists m' (as @ bs) ys" "ttype m' = ttype m"
      using util_timeout_disarm_pending to_rep_lists [OF r] 1 by blast
    have "to_rep now dl ty m' (as @ bs) ys"
      using r m(2) unfolding to_rep_def 1 m(3) by (auto simp: sorted_wrt_append m(3) [THEN fun_cong])
    then show ?thesis
      using m(1) by (auto simp: e)
  next
    case 2
    then have e: "removeAll p xs = xs" "removeAll p ys = as @ bs"
      using d by (auto simp: removeAll_id)
    obtain m' where m: "util_timeout_disarm m p = Inr m'" "to_lists m' xs (as @ bs)" "ttype m' = ttype m"
      using util_timeout_disarm_due to_rep_lists [OF r] 2 by blast
    have "to_rep now dl ty m' xs (as @ bs)"
      using r m(2) unfolding to_rep_def 2 m(3) by (auto simp: sorted_wrt_append m(3) [THEN fun_cong])
    then show ?thesis
      using m(1) by (auto simp: e)
  qed
qed

text \<open>A handler that only works on its own state.\<close>

lemma poll_loop_fires:
  assumes "to_rep now dl ty m xs ys" and h: "\<And>p t m s. handler p t (m, s) = Some (Inr (m, f p t s))"
  shows "\<exists>m'. timeout_poll_loop handler n (m, s) = Some (Inr (m', fold (\<lambda>p. f p (ty p)) (take n ys) s)) \<and>
    to_rep now dl ty m' xs (drop n ys)"
  using assms(1)
proof (induction n arbitrary: m ys s)
  case 0
  then show ?case
    by simp
next
  case (Suc n)
  show ?case
  proof (cases ys)
    case Nil
    then have "due_first m = 0"
      using Suc.prems by (simp add: to_rep_def to_lists_def dlist_empty)
    then show ?thesis
      using Nil Suc.prems by simp
  next
    case (Cons y zs)
    have l: "to_lists m xs (y # zs)"
      using to_rep_lists [OF Suc.prems] Cons by simp
    note pop = due_pop_lists [OF l]
    have "to_rep now dl ty (due_pop m) xs zs"
      using Suc.prems pop(1) unfolding to_rep_def Cons pop(2) by (auto simp: pop(2) [THEN fun_cong])
    moreover have "ucast (drop_bit 28 (ttype (due_pop m) y)) = ty y"
      using Suc.prems Cons by (simp add: to_rep_def pop(2) [THEN fun_cong])
    ultimately show ?thesis
      using Suc.IH [of "due_pop m" zs "f y (ty y) s"] pop(3,4) Cons by (simp add: h Let_def)
  qed
qed

lemma to_rep_poll:
  assumes r: "to_rep now dl ty m xs ys" and h: "\<And>p t m s. handler p t (m, s) = Some (Inr (m, f p t s))"
  defines "Y \<equiv> ys @ filter (\<lambda>p. dl p \<le> now) xs"
  shows "\<exists>m'. util_timeout_poll_ts handler (m, s) (word_of_int now) = Some (Inr (m', fold (\<lambda>p. f p (ty p)) (take 64 Y) s)) \<and>
    to_rep now dl ty m' (filter (\<lambda>p. now < dl p) xs) (drop 64 Y)"
proof -
  obtain m1 where m1: "move_due_timeouts m (word_of_int now AND TIMEOUT_MASK) = Some m1"
    "to_rep now dl ty m1 (filter (\<lambda>p. now < dl p) xs) Y"
    using to_rep_move [OF r] by (auto simp: Y_def)
  then show ?thesis
    using poll_loop_fires [OF m1(2) h, where n = 64 and s = s] by (simp add: util_timeout_poll_ts_def)
qed

lemma sorted_Min:
  assumes "sorted_wrt (\<lambda>p q. f p \<le> (f q :: int)) (x # xs)"
  shows "Min (f ` set (x # xs)) = f x"
  by (rule Min_eqI) (use assms in auto)

lemma to_rep_next:
  assumes r: "to_rep now dl ty m xs ys" and A: "set (xs @ ys) = A"
  shows "if A = {} then util_timeout_next m (word_of_int now) = -1
    else uint (util_timeout_next m (word_of_int now)) = max 0 (Min (dl ` A) - now)"
proof (cases "ys @ xs")
  case Nil
  then have "due_first m = 0" "timeouts_first m = 0" "A = {}"
    using r A by (auto simp: to_rep_def to_lists_def dlist_empty)
  then show ?thesis
    by (simp add: util_timeout_next_def)
next
  case (Cons p ps)
  have "sorted_wrt (\<lambda>p q. dl p \<le> dl q) (p # ps)" and "A = set (p # ps)"
    using r A arg_cong [OF Cons, of set] unfolding Cons [symmetric] by (auto simp: to_rep_def)
  then have mn: "Min (dl ` A) = dl p" and ne: "A \<noteq> {}"
    using sorted_Min [of dl p ps] by simp_all
  show ?thesis
  proof (cases ys)
    case ys: Nil
    then have xs: "xs = p # ps"
      using Cons by simp
    then have f: "due_first m = 0" "timeouts_first m = p" "p \<noteq> 0"
      using r ys to_lists_nonnull [OF to_rep_lists [OF r]] by (auto simp: to_rep_def to_lists_def dlist_def)
    have "us_rel (word_of_int now) (ttype m p) = dl p - now" "\<bar>dl p - now\<bar> < 134217728"
      using r xs us_rel_deadline [of "ttype m p" "dl p" now] by (auto simp: to_rep_def)
    then show ?thesis
      using f ne mn by (simp add: util_timeout_next_def Let_def timeout_rel_time_eq sint_u32_of_int uint_word_of_int mod_pos_pos_trivial del: of_int_diff)
  next
    case (Cons q qs)
    then have "q = p" "dl p \<le> now" "due_first m \<noteq> 0"
      using \<open>ys @ xs = p # ps\<close> r to_lists_nonnull [OF to_rep_lists [OF r]] by (auto simp: to_rep_def to_lists_def dlist_def)
    then show ?thesis
      using ne mn by (simp add: util_timeout_next_def)
  qed
qed

section \<open>Histories\<close>

text \<open>
  The handler of the properties notes which timeouts fire.  \<open>A\<close> are the armed timeouts.
\<close>

definition note_fired :: "(u64 \<times> u8) list timeout_handler" where
  "note_fired p t = (\<lambda>(m, s). Some (Inr (m, s @ [(p, t)])))"

inductive timeouts_reach :: "int \<Rightarrow> (u64 \<Rightarrow> int) \<Rightarrow> (u64 \<Rightarrow> u8) \<Rightarrow> u64 set \<Rightarrow> timeout_manager \<Rightarrow> bool" where
  init: "timeouts_reach now dl ty {} (util_timeout_init objs)"
| arm: "timeouts_reach now dl ty A m \<Longrightarrow> now \<le> now' \<Longrightarrow> \<forall>p \<in> A. now' - dl p < 134217728 \<Longrightarrow> to \<noteq> 0 \<Longrightarrow> to \<notin> A \<Longrightarrow>
    util_timeout_arm_ts m to us type (word_of_int now') = Some (Inr m') \<Longrightarrow>
    timeouts_reach now' (dl(to := now' + uint us)) (ty(to := type AND 15)) (insert to A) m'"
| disarm: "timeouts_reach now dl ty A m \<Longrightarrow> to \<in> A \<Longrightarrow> util_timeout_disarm m to = Inr m' \<Longrightarrow> timeouts_reach now dl ty (A - {to}) m'"
| poll: "timeouts_reach now dl ty A m \<Longrightarrow> now \<le> now' \<Longrightarrow> \<forall>p \<in> A. now' - dl p < 134217728 \<Longrightarrow>
    util_timeout_poll_ts note_fired (m, []) (word_of_int now') = Some (Inr (m', fired)) \<Longrightarrow>
    timeouts_reach now' dl ty (A - fst ` set fired) m'"

lemma fold_note: "fold (\<lambda>p s. s @ [(p, g p)]) xs s = s @ map (\<lambda>p. (p, g p)) xs"
  by (induction xs arbitrary: s) simp_all

lemma to_rep_note:
  assumes "to_rep now dl ty m xs ys"
  shows "\<exists>m'. util_timeout_poll_ts note_fired (m, []) (word_of_int now) =
      Some (Inr (m', map (\<lambda>p. (p, ty p)) (take 64 (ys @ filter (\<lambda>p. dl p \<le> now) xs)))) \<and>
    to_rep now dl ty m' (filter (\<lambda>p. now < dl p) xs) (drop 64 (ys @ filter (\<lambda>p. dl p \<le> now) xs))"
  using to_rep_poll [OF assms, of note_fired "\<lambda>p t s. s @ [(p, t)]" "[]"] by (simp add: note_fired_def fold_note)

lemma arm_abort: "us \<ge> 0x8000000 \<Longrightarrow> util_timeout_arm_ts m to us type c = Some (Inl Abort)"
  by (simp add: util_timeout_arm_ts_def)

lemma timeouts_reach_rep: "timeouts_reach now dl ty A m \<Longrightarrow> \<exists>xs ys. to_rep now dl ty m xs ys \<and> set (xs @ ys) = A"
proof (induction rule: timeouts_reach.induct)
  case (init now dl ty objs)
  then show ?case
    using to_rep_init by (intro exI [of _ "[]"]) simp
next
  case (arm now dl ty A m now' to us type m')
  obtain xs ys where r: "to_rep now dl ty m xs ys" "set (xs @ ys) = A"
    using arm.IH by blast
  have "us < 0x8000000"
    using arm.hyps(6) arm_abort by (metis Inl_Inr_False linorder_not_le option.inject)
  moreover have "to_rep now' dl ty m xs ys"
    using to_rep_advance [OF r(1) arm.hyps(2)] arm.hyps(3) r(2) by auto
  ultimately have "to_rep now' (dl(to := now' + uint us)) (ty(to := type AND 15)) m'
      (ins_sorted (\<lambda>p. dl p \<le> now' + uint us) to (filter (\<lambda>p. now' < dl p) xs)) (ys @ filter (\<lambda>p. dl p \<le> now') xs)"
    using to_rep_arm [of now' dl ty m xs ys us to type] arm.hyps(4-6) r(2) by auto
  moreover have "set (ins_sorted (\<lambda>p. dl p \<le> now' + uint us) to (filter (\<lambda>p. now' < dl p) xs) @ ys @ filter (\<lambda>p. dl p \<le> now') xs) = insert to A"
    using r(2) by auto
  ultimately show ?case
    by blast
next
  case (disarm now dl ty A m to m')
  then obtain xs ys where r: "to_rep now dl ty m xs ys" "set (xs @ ys) = A"
    by blast
  then have "to_rep now dl ty m' (removeAll to xs) (removeAll to ys)"
    using to_rep_disarm [OF r(1), of to] disarm.hyps by auto
  then show ?case
    using r(2) by (intro exI conjI) auto
next
  case (poll now dl ty A m now' m' fired)
  then obtain xs ys where r: "to_rep now dl ty m xs ys" "set (xs @ ys) = A"
    by blast
  have r': "to_rep now' dl ty m xs ys"
    using to_rep_advance [OF r(1) poll.hyps(2)] poll.hyps(3) r(2) by auto
  define Y where "Y = ys @ filter (\<lambda>p. dl p \<le> now') xs"
  let ?X = "filter (\<lambda>p. now' < dl p) xs"
  have m: "to_rep now' dl ty m' ?X (drop 64 Y)" and f: "fst ` set fired = set (take 64 Y)"
    using to_rep_note [OF r', folded Y_def] poll.hyps(4) by (auto simp: image_image)
  have d: "distinct Y" "set ?X \<inter> set Y = {}" and A: "A = set ?X \<union> set Y"
    using r' r(2) by (auto simp: to_rep_def to_lists_def Y_def)
  have "set (take 64 Y) \<inter> set (drop 64 Y) = {}" "set (take 64 Y) \<union> set (drop 64 Y) = set Y"
    using d(1) set_take_disj_set_drop_if_distinct [of Y 64 64] set_append [of "take 64 Y" "drop 64 Y"] by auto
  then have "set (?X @ drop 64 Y) = A - fst ` set fired"
    using d(2) unfolding A f set_append by blast
  then show ?case
    using m by blast
qed

text \<open>
  C29: Whatever timeouts were armed, disarmed and fired before, a poll at time \<open>now'\<close> returns and
  fires only armed timeouts whose time has come, each once and with the type it was armed with,
  in the order of the times due and before all that stay armed; it leaves a timeout whose time
  has come waiting only if it has fired 64 others.
\<close>

theorem timeouts_fire_when_due:
  assumes "timeouts_reach now dl ty A m" "now \<le> now'" "\<forall>p \<in> A. now' - dl p < 134217728"
  shows "\<exists>m' fired. util_timeout_poll_ts note_fired (m, []) (word_of_int now') = Some (Inr (m', map (\<lambda>p. (p, ty p)) fired)) \<and>
    set fired \<subseteq> {p \<in> A. dl p \<le> now'} \<and> distinct fired \<and> length fired \<le> 64 \<and>
    (length fired < 64 \<longrightarrow> set fired = {p \<in> A. dl p \<le> now'}) \<and>
    sorted_wrt (\<lambda>p q. dl p \<le> dl q) fired \<and> (\<forall>p \<in> set fired. \<forall>q \<in> A - set fired. dl p \<le> dl q) \<and>
    timeouts_reach now' dl ty (A - set fired) m'"
proof -
  obtain xs ys where r: "to_rep now dl ty m xs ys" "set (xs @ ys) = A"
    using timeouts_reach_rep [OF assms(1)] by blast
  have r': "to_rep now' dl ty m xs ys"
    using to_rep_advance [OF r(1) assms(2)] assms(3) r(2) by auto
  define Y where "Y = ys @ filter (\<lambda>p. dl p \<le> now') xs"
  let ?F = "take 64 Y"
  obtain m' where m: "util_timeout_poll_ts note_fired (m, []) (word_of_int now') = Some (Inr (m', map (\<lambda>p. (p, ty p)) ?F))"
    using to_rep_note [OF r', folded Y_def] by blast
  have Y: "set Y = {p \<in> A. dl p \<le> now'}" "distinct Y" and s: "sorted_wrt (\<lambda>p q. dl p \<le> dl q) Y"
    and X: "\<forall>p \<in> set Y. \<forall>q \<in> A - set Y. dl p \<le> dl q"
    using r(2) r' by (auto simp: Y_def to_rep_def to_lists_def sorted_wrt_append sorted_wrt_filter)
  have "sorted_wrt (\<lambda>p q. dl p \<le> dl q) (?F @ drop 64 Y)"
    using s by simp
  then have o: "\<forall>p \<in> set ?F. \<forall>q \<in> set (drop 64 Y). dl p \<le> dl q" "sorted_wrt (\<lambda>p q. dl p \<le> dl q) ?F"
    unfolding sorted_wrt_append by blast+
  have "A - set ?F \<subseteq> (A - set Y) \<union> set (drop 64 Y)"
    using set_append [of ?F "drop 64 Y"] by auto
  then have "\<forall>p \<in> set ?F. \<forall>q \<in> A - set ?F. dl p \<le> dl q"
    using o(1) X in_set_takeD [of _ 64 Y] by blast
  moreover have "timeouts_reach now' dl ty (A - set ?F) m'"
    using timeouts_reach.poll [OF assms m] by (simp add: image_image)
  moreover have "length ?F < 64 \<longrightarrow> set ?F = {p \<in> A. dl p \<le> now'}"
    using Y(1) by auto
  moreover have "set ?F \<subseteq> {p \<in> A. dl p \<le> now'}" "distinct ?F" "length ?F \<le> 64"
    using Y set_take_subset [of 64 Y] by auto
  ultimately show ?thesis
    using m o(2) by blast
qed

lemma timeouts_reach_arm:
  assumes "timeouts_reach now dl ty A m" "now \<le> now'" "\<forall>p \<in> A. now' - dl p < 134217728" "to \<noteq> 0" "to \<notin> A" "us < 0x8000000"
  shows "\<exists>m'. util_timeout_arm_ts m to us type (word_of_int now') = Some (Inr m') \<and>
    timeouts_reach now' (dl(to := now' + uint us)) (ty(to := type AND 15)) (insert to A) m'"
proof -
  obtain xs ys where r: "to_rep now dl ty m xs ys" "set (xs @ ys) = A"
    using timeouts_reach_rep [OF assms(1)] by blast
  have "to_rep now' dl ty m xs ys"
    using to_rep_advance [OF r(1) assms(2)] assms(3) r(2) by auto
  then obtain m' where "util_timeout_arm_ts m to us type (word_of_int now') = Some (Inr m')"
    using to_rep_arm [of now' dl ty m xs ys us to type] assms(4-6) r(2) by blast
  then show ?thesis
    using timeouts_reach.arm [OF assms(1-5)] by auto
qed

lemma timeouts_reach_disarm:
  assumes "timeouts_reach now dl ty A m" "p \<in> A"
  shows "\<exists>m'. util_timeout_disarm m p = Inr m' \<and> timeouts_reach now dl ty (A - {p}) m'"
proof -
  obtain xs ys where "to_rep now dl ty m xs ys" "set (xs @ ys) = A"
    using timeouts_reach_rep [OF assms(1)] by blast
  then show ?thesis
    using to_rep_disarm [of now dl ty m xs ys p] assms(2) timeouts_reach.disarm [OF assms] by blast
qed

text \<open>A state in which the timeout at address 64 is armed with type 3, due at time 500.\<close>

definition demo_mgr :: timeout_manager where
  "demo_mgr = util_timeout_init (\<lambda>_. \<lparr>timeout_type = 0, to_next = 0, to_prev = 0\<rparr>)"

lemma demo_mgr_armed:
  "\<exists>m. util_timeout_arm_ts demo_mgr 64 500 3 0 = Some (Inr m) \<and> timeouts_reach 0 ((\<lambda>_. 0)(64 := 500)) ((\<lambda>_. 0)(64 := 3)) {64} m"
  using timeouts_reach_arm [OF timeouts_reach.init, where now = 0 and now' = 0 and dl = "\<lambda>_. 0" and ty = "\<lambda>_. 0" and to = 64 and us = 500 and type = 3] by (simp add: demo_mgr_def)

theorem timeouts_fire_when_due_witness:
  "\<exists>m m'. util_timeout_arm_ts demo_mgr 64 500 3 0 = Some (Inr m) \<and>
     util_timeout_poll_ts note_fired (m, []) 500 = Some (Inr (m', [(64, 3)]))"
proof -
  obtain m where m: "util_timeout_arm_ts demo_mgr 64 500 3 0 = Some (Inr m)"
    "timeouts_reach 0 ((\<lambda>_. 0)(64 := 500)) ((\<lambda>_. 0)(64 := 3)) {64} m"
    using demo_mgr_armed by blast
  let ?dl = "(\<lambda>_. 0)(64 := 500) :: u64 \<Rightarrow> int" and ?ty = "(\<lambda>_. 0)(64 := 3) :: u64 \<Rightarrow> u8"
  have late: "(0 :: int) \<le> 500" "\<forall>p \<in> {64}. 500 - ?dl p < 134217728" and D: "{p \<in> {64}. ?dl p \<le> 500} = {64}"
    by auto
  obtain m' fired where f: "util_timeout_poll_ts note_fired (m, []) (word_of_int 500) = Some (Inr (m', map (\<lambda>p. (p, ?ty p)) fired))"
    "set fired \<subseteq> {64}" "distinct fired" "length fired < 64 \<longrightarrow> set fired = {64}"
    using timeouts_fire_when_due [OF m(2) late] unfolding D by (elim exE conjE) (rule that)
  have "length fired = card (set fired)" "card (set fired) \<le> 1"
    using distinct_card [OF f(3)] card_mono [OF _ f(2)] by simp_all
  then have "length fired < 64"
    by linarith
  then have "set fired = {64}"
    using f(4) by blast
  moreover have "length fired = Suc 0"
    using calculation \<open>length fired = card (set fired)\<close> by simp
  then obtain x where "fired = [x]"
    unfolding length_Suc_conv by blast
  ultimately have "fired = [64]"
    by simp
  then have "util_timeout_poll_ts note_fired (m, []) 500 = Some (Inr (m', [(64, 3)]))"
    using f(1) by simp
  then show ?thesis
    using m(1) by blast
qed

text \<open>
  In every reachable state arming a timeout that is not armed returns without abort if the
  time is less than \<open>2^27\<close> microseconds, and aborts otherwise; disarming an armed timeout
  returns without abort; and the time until the next poll is needed is the time until the
  first deadline.
\<close>

theorem timeouts_arm_disarm:
  assumes "timeouts_reach now dl ty A m" "now \<le> now'" "\<forall>p \<in> A. now' - dl p < 134217728"
  shows "(to \<noteq> 0 \<and> to \<notin> A \<longrightarrow>
      (if us < 0x8000000
       then \<exists>m'. util_timeout_arm_ts m to us type (word_of_int now') = Some (Inr m') \<and>
         timeouts_reach now' (dl(to := now' + uint us)) (ty(to := type AND 15)) (insert to A) m'
       else util_timeout_arm_ts m to us type (word_of_int now') = Some (Inl Abort))) \<and>
    (to \<in> A \<longrightarrow> (\<exists>m'. util_timeout_disarm m to = Inr m' \<and> timeouts_reach now dl ty (A - {to}) m')) \<and>
    (if A = {} then util_timeout_next m (word_of_int now') = -1
     else uint (util_timeout_next m (word_of_int now')) = max 0 (Min (dl ` A) - now'))"
proof (intro conjI impI)
  assume "to \<noteq> 0 \<and> to \<notin> A"
  then show "if us < 0x8000000
      then \<exists>m'. util_timeout_arm_ts m to us type (word_of_int now') = Some (Inr m') \<and>
        timeouts_reach now' (dl(to := now' + uint us)) (ty(to := type AND 15)) (insert to A) m'
      else util_timeout_arm_ts m to us type (word_of_int now') = Some (Inl Abort)"
    using timeouts_reach_arm [OF assms] arm_abort by (auto simp: linorder_not_less)
next
  assume "to \<in> A"
  then show "\<exists>m'. util_timeout_disarm m to = Inr m' \<and> timeouts_reach now dl ty (A - {to}) m'"
    by (rule timeouts_reach_disarm [OF assms(1)])
next
  obtain xs ys where r: "to_rep now dl ty m xs ys" "set (xs @ ys) = A"
    using timeouts_reach_rep [OF assms(1)] by blast
  have "to_rep now' dl ty m xs ys"
    using to_rep_advance [OF r(1) assms(2)] assms(3) r(2) by auto
  then show "if A = {} then util_timeout_next m (word_of_int now') = -1
     else uint (util_timeout_next m (word_of_int now')) = max 0 (Min (dl ` A) - now')"
    using to_rep_next r(2) by blast
qed

theorem timeouts_arm_disarm_witness:
  "\<exists>m m'. util_timeout_arm_ts demo_mgr 64 500 3 0 = Some (Inr m) \<and>
     util_timeout_arm_ts m 128 0x8000000 1 200 = Some (Inl Abort) \<and> util_timeout_disarm m 64 = Inr m' \<and>
     uint (util_timeout_next m 200) = 300"
proof -
  obtain m where m: "util_timeout_arm_ts demo_mgr 64 500 3 0 = Some (Inr m)"
    "timeouts_reach 0 ((\<lambda>_. 0)(64 := 500)) ((\<lambda>_. 0)(64 := 3)) {64} m"
    using demo_mgr_armed by blast
  then show ?thesis
    using timeouts_arm_disarm [OF m(2), of 200 128 "0x8000000" 1] timeouts_arm_disarm [OF m(2), of 200 64 0 0] by auto
qed

end
