(* ===== verification/Adminq_Init.thy ===== *)
theory Adminq_Init
  imports Krx_Queue
begin

text \<open>
  Setting up the kernel queues: the regions come from the packet memory manager, so the rings
  and buffers do not overlap with each other or with anything that is in use.
\<close>

unbundle bit_operations_syntax

section \<open>Initial contents\<close>

definition init_addrs :: "u64 \<Rightarrow> (nat \<Rightarrow> u64) \<Rightarrow> nat \<Rightarrow> mem \<Rightarrow> mem" where
  "init_addrs off g n m = fold (\<lambda>i m. mem_put m (entry_addr 64 off i) 0 (u64_bytes (g i))) [0..<n] m"

lemma init_addrs_Suc: "init_addrs off g (Suc n) m = mem_put (init_addrs off g n m) (entry_addr 64 off n) 0 (u64_bytes (g n))"
  by (simp add: init_addrs_def)

lemma init_addrs_field:
  assumes "n < 4294967296" "i < n"
  shows "get_u64 (mem_view (init_addrs off g n m) (entry_addr 64 off i)) 0 = g i"
  using assms
proof (induction n)
  case (Suc n)
  show ?case
  proof (cases "i = n")
    case True
    then show ?thesis
      unfolding init_addrs_Suc by (simp add: get_u64_bytes)
  next
    case False
    then have "mem_view (init_addrs off g (Suc n) m) (entry_addr 64 off i) k = mem_view (init_addrs off g n m) (entry_addr 64 off i) k" if "k < 64" for k
      using Suc.prems that unfolding init_addrs_Suc by (intro mem_view_other) simp_all
    then show ?thesis
      using Suc False by (simp add: get_u64_def get_u32_def get_beui32_def)
  qed
qed simp

lemma init_addrs_flag:
  assumes "n < 4294967296" "i < 4294967296"
  shows "mem_view (init_addrs off g n m) (entry_addr 64 off i) 63 = mem_view m (entry_addr 64 off i) 63"
  using assms
proof (induction n)
  case (Suc n)
  then show ?case
    unfolding init_addrs_Suc by (cases "i = n") (simp_all add: mem_view_put mem_view_other)
qed (simp add: init_addrs_def)

lemma init_addrs_outside:
  assumes "unat off + 64 * n \<le> 18446744073709551615" "unat x < unat off \<or> unat off + 64 * n \<le> unat x"
  shows "init_addrs off g n m x = m x"
  using assms
proof (induction n)
  case (Suc n)
  then have a: "unat (entry_addr 64 off n) = unat off + 64 * n"
    using unat_entry_addr [of off 64 "Suc n" n 0] by simp
  have "init_addrs off g (Suc n) m x = init_addrs off g n m x"
    unfolding init_addrs_Suc by (rule mem_put_outside) (use Suc.prems a in auto)
  also have "\<dots> = m x"
    using Suc.prems by (intro Suc.IH) auto
  finally show ?case .
qed (simp add: init_addrs_def)

lemma mem_set_in: "unat (x - a) < unat n \<Longrightarrow> mem_set m a n v x = v"
  by (simp add: mem_set_def)

lemma mem_set_out:
  assumes "unat a + unat n \<le> 18446744073709551616" "unat x < unat a \<or> unat a + unat n \<le> unat x"
  shows "mem_set m a n v x = m x"
  using outside [OF assms] by (simp add: mem_set_def)

lemma entry_in:
  assumes "unat base + 64 * n \<le> 18446744073709551615" "i < n" "k < 64"
  shows "unat (entry_addr 64 base i + of_nat k - base) < 64 * n"
proof -
  have "64 * i + k < 64 * n"
    using assms(2,3) by linarith
  moreover have "entry_addr 64 base i + of_nat k - base = of_nat (64 * i + k)"
    by (simp add: entry_addr_def)
  ultimately show ?thesis
    using assms(1) by (simp add: unat_of_nat del: of_nat_add of_nat_mult)
qed

section \<open>Sizes and regions\<close>

lemma and_not_mask: "y AND NOT (mask n) = push_bit n (drop_bit n (y :: u64))"
  by (rule bit_word_eqI) (auto simp: bit_simps)

lemma page_round:
  assumes "unat x + 4095 < 18446744073709551616"
  shows "unat x \<le> unat ((x + 0xfff) AND NOT 0xfff :: u64)"
proof -
  define y where "y = x + 0xfff"
  have y: "unat y = unat x + 4095"
    using assms unat_u64_add [of x 4095] by (simp add: y_def)
  have "y AND NOT 0xfff = y div 4096 * 4096"
    using and_not_mask [of y 12] by (simp add: push_bit_eq_mult drop_bit_eq_div mask_eq_exp_minus_1)
  then have "unat (y AND NOT 0xfff) = unat y div 4096 * 4096 mod 18446744073709551616"
    by (simp add: unat_word_ariths unat_div mod_mult_left_eq)
  moreover have "unat y div 4096 * 4096 \<le> unat y" "unat y < unat y div 4096 * 4096 + 4096"
    using div_mult_mod_eq [of "unat y" 4096] mod_less_divisor [of 4096 "unat y"] by linarith+
  ultimately show ?thesis
    using y unat_u64_bound [of y] by (simp add: y_def)
qed

lemma region_order:
  assumes "ph_region a \<inter> ph_region b = {}" "0 < unat (ph_len a)" "0 < unat (ph_len b)"
  shows "unat (ph_base a) + unat (ph_len a) \<le> unat (ph_base b) \<or> unat (ph_base b) + unat (ph_len b) \<le> unat (ph_base a)"
proof (rule ccontr)
  assume "\<not> ?thesis"
  then have "max (unat (ph_base a)) (unat (ph_base b)) \<in> ph_region a \<inter> ph_region b"
    using assms(2,3) by (auto simp: ph_region_def max_def)
  then show False
    using assms(1) by blast
qed

lemma unat_mult_small: "unat (x::u64) * k < 18446744073709551616 \<Longrightarrow> k < 18446744073709551616 \<Longrightarrow> unat (x * of_nat k) = unat x * k"
  by (simp add: unat_word_ariths unat_of_nat)

lemma sz_bufs_enough:
  assumes "unat nrx < 67108864" "unat ntx < 67108864"
  shows "1536 * unat nrx \<le> unat (((nrx + ntx) * PKTBUF_SIZE + 0xfff) AND NOT 0xfff :: u64)"
proof -
  have s: "unat (nrx + ntx) = unat nrx + unat ntx"
    using unat_u64_add [of nrx ntx] assms by simp
  then have "unat ((nrx + ntx) * PKTBUF_SIZE) = (unat nrx + unat ntx) * 1536"
    using unat_mult_small [of "nrx + ntx" 1536] assms by simp
  then show ?thesis
    using page_round [of "(nrx + ntx) * PKTBUF_SIZE"] assms by simp
qed

section \<open>A core is ready\<close>

text \<open>What a successful set-up has allocated and written.\<close>

lemma adminq_init_core_Inr:
  assumes "adminq_init_core al nrx ntx core st fl = (True, st', fl')"
  obtains b r t f1 f2 where
    "packetmem_alloc (al 2) (((nrx + ntx) * PKTBUF_SIZE + 0xfff) AND NOT 0xfff) fl = Some (b, f1)"
    "packetmem_alloc (al 3) (nrx * 64) f1 = Some (r, f2)" "packetmem_alloc (al 4) (ntx * 64) f2 = Some (t, fl')"
    "st' = (set_shm st (init_addrs (ph_base r) (\<lambda>i. ph_base b + PKTBUF_SIZE * of_nat i) (unat (rxq_len st))
         (mem_set (mem_set (shm st) (ph_base r) (nrx * 64) 0) (ph_base t) (ntx * 64) 0)))
       \<lparr>rxq_base := (rxq_base st)(ucast core := ph_base r), txq_base := (txq_base st)(ucast core := ph_base t),
        rxq_bufs := (rxq_bufs st)(ucast core := \<lambda>i. if i < rxq_len st then ph_base b + PKTBUF_SIZE * ucast i else 0),
        txq_bufs := (txq_bufs st)(ucast core := \<lambda>i. if i < txq_len st
          then ph_base b + PKTBUF_SIZE * ucast (rxq_len st) + PKTBUF_SIZE * ucast i else 0),
        kctx := (kctx st)(core := (kctx st core)
          \<lparr>ac_rx_base := ph_base r, ac_tx_base := ph_base t, ac_tx_len := ucast (ntx * 64), ac_rx_len := ucast (nrx * 64)\<rparr>)\<rparr>"
  using assms unfolding adminq_init_core_def Let_def init_addrs_def
  by (auto split: if_splits option.splits prod.splits)

lemma buf_addr: "b + PKTBUF_SIZE * of_nat i = entry_addr 1536 b i"
  by (simp add: entry_addr_def)

text \<open>The three regions of a core, where they lie and that they are apart.\<close>

lemma core_regions:
  assumes inv: "pm_inv N fl hs" and sz: "0 < unat nrx" "unat nrx < 67108864" "0 < unat ntx" "unat ntx < 67108864"
    and b: "packetmem_alloc ok2 (((nrx + ntx) * PKTBUF_SIZE + 0xfff) AND NOT 0xfff) fl = Some (b, f1)"
    and r: "packetmem_alloc ok3 (nrx * 64) f1 = Some (r, f2)" and t: "packetmem_alloc ok4 (ntx * 64) f2 = Some (t, f3)"
  shows "pm_inv N f3 (t # r # b # hs)"
    "unat (ph_base b) + 1536 * unat nrx \<le> N" "unat (ph_base r) + 64 * unat nrx \<le> N" "unat (ph_base t) + 64 * unat ntx \<le> N"
    "unat (ph_base r) + 64 * unat nrx \<le> unat (ph_base b) \<or> unat (ph_base b) + 1536 * unat nrx \<le> unat (ph_base r)"
    "unat (ph_base r) + 64 * unat nrx \<le> unat (ph_base t) \<or> unat (ph_base t) + 64 * unat ntx \<le> unat (ph_base r)"
proof -
  have i1: "pm_inv N f1 (b # hs)"
    using pm.alloc_inv [OF inv b] .
  have i2: "pm_inv N f2 (r # b # hs)"
    using pm.alloc_inv [OF i1 r] .
  show i3: "pm_inv N f3 (t # r # b # hs)"
    using pm.alloc_inv [OF i2 t] .
  have len: "1536 * unat nrx \<le> unat (ph_len b)" "unat (ph_len r) = 64 * unat nrx" "unat (ph_len t) = 64 * unat ntx"
    using packetmem_alloc_len [OF b] packetmem_alloc_len [OF r] packetmem_alloc_len [OF t] sz_bufs_enough [OF sz(2,4)]
      unat_mult_small [of nrx 64] unat_mult_small [of ntx 64] sz by simp_all
  have in_N: "unat (ph_base h) + unat (ph_len h) \<le> N" if "h \<in> {t, r, b}" for h
    using i3 that unfolding pm_inv_def by auto
  show "unat (ph_base b) + 1536 * unat nrx \<le> N" "unat (ph_base r) + 64 * unat nrx \<le> N" "unat (ph_base t) + 64 * unat ntx \<le> N"
    using in_N [of b] in_N [of r] in_N [of t] len by simp_all
  have "ph_region r \<inter> ph_region b = {}" "ph_region t \<inter> ph_region r = {}"
    using pm_inv_disjoint [OF i2] pm_inv_disjoint [OF i3] by simp_all
  then have "unat (ph_base r) + unat (ph_len r) \<le> unat (ph_base b) \<or> unat (ph_base b) + unat (ph_len b) \<le> unat (ph_base r)"
    "unat (ph_base t) + unat (ph_len t) \<le> unat (ph_base r) \<or> unat (ph_base r) + unat (ph_len r) \<le> unat (ph_base t)"
    using region_order [of r b] region_order [of t r] len sz by simp_all
  then show "unat (ph_base r) + 64 * unat nrx \<le> unat (ph_base b) \<or> unat (ph_base b) + 1536 * unat nrx \<le> unat (ph_base r)"
    "unat (ph_base r) + 64 * unat nrx \<le> unat (ph_base t) \<or> unat (ph_base t) + 64 * unat ntx \<le> unat (ph_base r)"
    using len by auto
qed

lemma unat_cut: "unat (x::u64) < 4294967296 \<Longrightarrow> unat (ucast x :: u32) = unat x"
  by (simp add: unsigned_ucast_eq take_bit_eq_mod)

lemma init_flags_free:
  fixes m :: mem and g :: "nat \<Rightarrow> u64"
  assumes N: "unat r + 64 * nr \<le> 18446744073709551615" "unat t + 64 * nt \<le> 18446744073709551615"
    and l: "unat szr = 64 * nr" "unat szt = 64 * nt" "nr < 67108864" "nt < 67108864"
    and apart: "unat r + 64 * nr \<le> unat t \<or> unat t + 64 * nt \<le> unat r"
  defines "m' \<equiv> init_addrs r g nr (mem_set (mem_set m r szr 0) t szt 0)"
  shows "i < nr \<Longrightarrow> mem_view m' (entry_addr 64 r i) 63 = 0" "j < nt \<Longrightarrow> mem_view m' (entry_addr 64 t j) 63 = 0"
proof -
  assume i: "i < nr"
  let ?x = "entry_addr 64 r i + of_nat 63"
  have x: "unat ?x = unat r + 64 * i + 63"
    using unat_entry_addr [OF N(1) i, of 63] by simp
  have "64 * i + 64 \<le> 64 * nr"
    using i by simp
  then have "mem_set (mem_set m r szr 0) t szt 0 ?x = mem_set m r szr 0 ?x"
    using apart N l x by (intro mem_set_out) auto
  also have "\<dots> = 0"
    using entry_in [OF N(1) i, of 63] l(1) by (intro mem_set_in) simp
  finally show "mem_view m' (entry_addr 64 r i) 63 = 0"
    using init_addrs_flag [of nr i r g "mem_set (mem_set m r szr 0) t szt 0"] i l(3) by (simp add: m'_def mem_view_def)
next
  assume j: "j < nt"
  let ?x = "entry_addr 64 t j + of_nat 63"
  have x: "unat ?x = unat t + 64 * j + 63"
    using unat_entry_addr [OF N(2) j, of 63] by simp
  have "64 * j + 64 \<le> 64 * nt"
    using j by simp
  then have "m' ?x = mem_set (mem_set m r szr 0) t szt 0 ?x"
    unfolding m'_def using apart x by (intro init_addrs_outside [OF N(1)]) auto
  also have "\<dots> = 0"
    using entry_in [OF N(2) j, of 63] l(2) by (intro mem_set_in) simp
  finally show "mem_view m' (entry_addr 64 t j) 63 = 0"
    by (simp add: mem_view_def)
qed

lemma ring_empty: "ring_holds n get m 0 0 [] \<longleftrightarrow> 0 < n \<and> (\<forall>i<n. get m i = None)"
  by (auto simp: ring_holds_def)

lemma adminq_init_core_ok:
  assumes init: "adminq_init_core al nrx ntx core st fl = (True, st', fl')"
    and inv: "pm_inv N fl hs" and N: "N \<le> unat (shm_len (fpe env))"
    and sz: "0 < unat nrx" "unat nrx < 67108864" "0 < unat ntx" "unat ntx < 67108864"
    and len: "rxq_len st = ucast nrx" "txq_len st = ucast ntx"
    and start: "rxq_tail st (ucast core) = 0" "txq_tail st (ucast core) = 0" "ac_rx_head (kctx st core) = 0" "ac_tx_head (kctx st core) = 0"
  shows "\<exists>b r t. krx_queue env st' core (ph_base b) [] \<and> (nrx = ntx \<longrightarrow> ktx_queue env st' core []) \<and> pm_inv N fl' (t # r # b # hs)"
proof -
  obtain b r t f1 f2 where
    b: "packetmem_alloc (al 2) (((nrx + ntx) * PKTBUF_SIZE + 0xfff) AND NOT 0xfff) fl = Some (b, f1)"
    and r: "packetmem_alloc (al 3) (nrx * 64) f1 = Some (r, f2)" and t: "packetmem_alloc (al 4) (ntx * 64) f2 = Some (t, fl')"
    and st': "st' = (set_shm st (init_addrs (ph_base r) (\<lambda>i. ph_base b + PKTBUF_SIZE * of_nat i) (unat (rxq_len st))
         (mem_set (mem_set (shm st) (ph_base r) (nrx * 64) 0) (ph_base t) (ntx * 64) 0)))
       \<lparr>rxq_base := (rxq_base st)(ucast core := ph_base r), txq_base := (txq_base st)(ucast core := ph_base t),
        rxq_bufs := (rxq_bufs st)(ucast core := \<lambda>i. if i < rxq_len st then ph_base b + PKTBUF_SIZE * ucast i else 0),
        txq_bufs := (txq_bufs st)(ucast core := \<lambda>i. if i < txq_len st
          then ph_base b + PKTBUF_SIZE * ucast (rxq_len st) + PKTBUF_SIZE * ucast i else 0),
        kctx := (kctx st)(core := (kctx st core)
          \<lparr>ac_rx_base := ph_base r, ac_tx_base := ph_base t, ac_tx_len := ucast (ntx * 64), ac_rx_len := ucast (nrx * 64)\<rparr>)\<rparr>"
    by (rule adminq_init_core_Inr [OF init]) (rule that)
  note reg = core_regions [OF inv sz b r t]
  have n: "unat (rxq_len st) = unat nrx" "unat (txq_len st) = unat ntx"
    using len unat_cut [of nrx] unat_cut [of ntx] sz by simp_all
  have s64: "unat (nrx * 64) = 64 * unat nrx" "unat (ntx * 64) = 64 * unat ntx"
    using unat_mult_small [of nrx 64] unat_mult_small [of ntx 64] sz by simp_all
  then have s32: "unat (ucast (nrx * 64) :: u32) = 64 * unat nrx" "unat (ucast (ntx * 64) :: u32) = 64 * unat ntx"
    using unat_cut [of "nrx * 64"] unat_cut [of "ntx * 64"] sz by simp_all
  have top: "unat (ph_base r) + 64 * unat nrx \<le> 18446744073709551615" "unat (ph_base t) + 64 * unat ntx \<le> 18446744073709551615"
    using reg(3,4) N unat_u64_bound [of "shm_len (fpe env)"] by linarith+
  note free = init_flags_free [OF top s64 sz(2,4) reg(6), of _ "\<lambda>i. entry_addr 1536 (ph_base b) i" "shm st"]
  have flds: "rxq_len st' = rxq_len st" "txq_len st' = txq_len st" "rxq_base st' (ucast core) = ph_base r" "txq_base st' (ucast core) = ph_base t"
    "rxq_tail st' (ucast core) = 0" "txq_tail st' (ucast core) = 0"
    "shm st' = init_addrs (ph_base r) (\<lambda>i. entry_addr 1536 (ph_base b) i) (unat nrx)
         (mem_set (mem_set (shm st) (ph_base r) (nrx * 64) 0) (ph_base t) (ntx * 64) 0)"
    "ac_rx_base (kctx st' core) = ph_base r" "ac_tx_base (kctx st' core) = ph_base t" "ac_rx_head (kctx st' core) = 0" "ac_tx_head (kctx st' core) = 0"
    "ac_tx_len (kctx st' core) = ucast (ntx * 64)" "ac_rx_len (kctx st' core) = ucast (nrx * 64)"
    unfolding st' using start n by (simp_all add: buf_addr)
  have bufs: "rxq_bufs st' (ucast core) (of_nat i) = entry_addr 1536 (ph_base b) i" if "i < unat nrx" for i
  proof -
    have "unat (of_nat i :: u32) = i"
      using that sz(2) by (simp add: unat_of_nat)
    then have "of_nat i < rxq_len st" "(ucast (of_nat i :: u32) :: u64) = of_nat i"
      using that n(1) sz(2) by (simp_all add: word_less_nat_alt u64_eq_iff unat_ucast_u32_u64 unat_of_nat)
    then show ?thesis
      unfolding st' by (simp add: buf_addr)
  qed
  have "krx_layout env st' core (ph_base b)"
    unfolding krx_layout_def flds using reg sz N n s32 bufs init_addrs_field [of "unat nrx"] by (simp add: flds)
  then have "krx_queue env st' core (ph_base b) []"
    unfolding krx_queue_def flds using free(1) n sz by (simp add: ring_empty krx_free)
  moreover have "ktx_queue env st' core []" if "nrx = ntx"
    unfolding ktx_queue_def flds using free(2) n sz reg(4) N s32 len that by (simp add: ring_empty ktx_free)
  ultimately show ?thesis
    using reg(1) by blast
qed

lemma adminq_init_core_fails:
  assumes "adminq_init_core al nrx ntx core st fl = (False, st', fl')" and inv: "pm_inv N fl hs"
  shows "st' = st \<and> pm_inv N fl' hs"
  using assms(1) inv unfolding adminq_init_core_def Let_def
  by (auto split: if_splits option.splits prod.splits intro!: pm.free_inv intro: pm.alloc_inv)

section \<open>The properties of the kernel queues\<close>

text \<open>
  Setting up the kernel queues of a core either succeeds: both queues are then empty, lie in
  the shared memory, apart from each other and from their buffers, with the slow path's and
  the fast path's registers in agreement, and the packet memory manager has handed out three
  more regions.  Or it fails: then nothing has changed and nothing has been leaked.
\<close>

theorem adminq_init_core_ready:
  assumes "pm_inv N fl hs" "N \<le> unat (shm_len (fpe env))"
    and "0 < unat nrx" "unat nrx < 67108864" "0 < unat ntx" "unat ntx < 67108864"
    and "rxq_len st = ucast nrx" "txq_len st = ucast ntx"
    and "rxq_tail st (ucast core) = 0" "txq_tail st (ucast core) = 0" "ac_rx_head (kctx st core) = 0" "ac_tx_head (kctx st core) = 0"
  shows "case adminq_init_core al nrx ntx core st fl of (ok, st', fl') \<Rightarrow>
    if ok then \<exists>b r t. krx_queue env st' core (ph_base b) [] \<and> (nrx = ntx \<longrightarrow> ktx_queue env st' core []) \<and> pm_inv N fl' (t # r # b # hs)
    else st' = st \<and> pm_inv N fl' hs"
  using adminq_init_core_ok [OF _ assms] adminq_init_core_fails [OF _ assms(1)] by (auto split: prod.splits)

definition demo_fl :: "packetmem_handle list" where
  "demo_fl = [\<lparr>ph_base = 0, ph_len = 65536\<rparr>]"

definition demo_ready :: tas where
  "demo_ready = fst (snd (adminq_init_core (\<lambda>_. True) 4 4 0 demo_tas demo_fl))"

lemma demo_fl_inv: "pm_inv 65536 demo_fl []"
  using packetmem_init_inv [of True 65536 demo_fl] by (simp add: packetmem_init_def demo_fl_def)

lemma demo_init: "fst (adminq_init_core (\<lambda>_. True) 4 4 0 demo_tas demo_fl)"
  by (simp add: adminq_init_core_def demo_fl_def Let_def)

theorem adminq_init_core_ready_witness:
  "\<exists>B. krx_queue demo_tenv demo_ready 0 B [] \<and> ktx_queue demo_tenv demo_ready 0 []"
proof -
  have "case adminq_init_core (\<lambda>_. True) 4 4 0 demo_tas demo_fl of (ok, st', fl') \<Rightarrow>
    if ok then \<exists>b r t. krx_queue demo_tenv st' 0 (ph_base b) [] \<and> ((4::u64) = 4 \<longrightarrow> ktx_queue demo_tenv st' 0 []) \<and> pm_inv 65536 fl' [t, r, b]
    else st' = demo_tas \<and> pm_inv 65536 fl' []"
    by (rule adminq_init_core_ready [OF demo_fl_inv]) (simp_all add: demo_env_def demo_actx_def demo_tas_def)
  then show ?thesis
    using demo_init by (auto simp: demo_ready_def split: prod.splits)
qed

lemma demo_ready_ok:
  "\<exists>B. krx_queue demo_tenv demo_ready 0 B []" "core_id (fp demo_ready) = 0" "rxq_len demo_ready = 4" "rxq_next demo_ready = 0"
  "fn_cores demo_ready = 1"
proof -
  obtain st fl where i: "adminq_init_core (\<lambda>_. True) 4 4 0 demo_tas demo_fl = (True, st, fl)"
    using demo_init by (metis prod.collapse)
  have "\<exists>b r t. krx_queue demo_tenv st 0 (ph_base b) [] \<and> ((4::u64) = 4 \<longrightarrow> ktx_queue demo_tenv st 0 []) \<and> pm_inv 65536 fl [t, r, b]"
    by (rule adminq_init_core_ok [OF i demo_fl_inv]) (simp_all add: demo_env_def demo_actx_def demo_tas_def)
  then show "\<exists>B. krx_queue demo_tenv demo_ready 0 B []"
    using i by (auto simp: demo_ready_def)
  show "core_id (fp demo_ready) = 0" "rxq_len demo_ready = 4" "rxq_next demo_ready = 0" "fn_cores demo_ready = 1"
    by (simp_all add: demo_ready_def adminq_init_core_def demo_fl_def Let_def set_shm_def demo_tas_def)
qed

text \<open>
  C26: The fast path's side of the kernel receive queue: a packet of at most 1536 bytes for the
  slow path is counted as dropped if the queue is full; else it is appended with its bytes,
  its length, the core and the flow group, and no packet that waits is altered.
\<close>

theorem fast_kernel_packet_enqueues:
  assumes q: "krx_queue env st core B xs" and core: "core = core_id (fp st)" and w: "evfd_write_ok env"
    and len: "unat (nb_len nbh) \<le> 1536"
  shows "if length xs = unat (rxq_len st) then fast_kernel_packet env tsc st nbh rss = Inr (st\<lparr>kernel_drop := kernel_drop st + 1\<rparr>)
    else \<exists>st'. fast_kernel_packet env tsc st nbh rss = Inr st' \<and>
      krx_queue env st' core B (xs @ [((FLEXTCP_PL_KRX_PACKET, nb_len nbh, core, network_buf_flowgroup env rss),
        map (bytes_of_pkt (nb_pkt nbh)) [0..<unat (nb_len nbh)])])"
  by (rule fast_kernel_packet_queues [OF assms])

theorem fast_kernel_packet_enqueues_witness:
  "\<exists>B st'. fast_kernel_packet demo_tenv 9 demo_ready (demo_nbuf\<lparr>nb_len := 60\<rparr>) None = Inr st' \<and>
     krx_queue demo_tenv st' 0 B [((1, 60, 0, 0), map (bytes_of_pkt pkt_zero) [0..<60])]"
proof -
  obtain B where b: "krx_queue demo_tenv demo_ready 0 B []"
    using demo_ready_ok(1) by blast
  show ?thesis
    using fast_kernel_packet_enqueues [OF b, of "demo_nbuf\<lparr>nb_len := 60\<rparr>" 9 None] demo_ready_ok(2,3)
    by (auto simp: network_buf_flowgroup_def)
qed

text \<open>
  C27: The slow path's side of the kernel receive queue: polling an empty queue only moves on to
  the next core.  Else the first packet is handed to the protocol code with its length, core
  and flow group and in a buffer that starts with exactly its bytes, and it leaves the queue.
\<close>

theorem rxq_poll_dequeues:
  assumes q: "krx_queue env st core B xs" and core: "rxq_next st = ucast core" and "fn_cores st \<noteq> 0"
  shows "case xs of
     [] \<Rightarrow> \<exists>st'. rxq_poll st tcp_ret = Inr (-1, [], st') \<and> krx_queue env st' core B []
   | ((type, len, c, grp), bs) # ys \<Rightarrow> type = FLEXTCP_PL_KRX_PACKET \<longrightarrow>
       (\<exists>st' b. rxq_poll st tcp_ret = Inr (0, process_packet (tcp_ret b) b len (ucast c) grp, st') \<and>
          has_bytes b 0 bs \<and> krx_queue env st' core B ys)"
  by (rule rxq_poll_queues [OF assms])

lemma fast_kernel_packet_frame:
  "fast_kernel_packet env tsc st nbh rss = Inr st' \<Longrightarrow> rxq_next st' = rxq_next st \<and> fn_cores st' = fn_cores st"
  by (auto simp: fast_kernel_packet_def Let_def bind_res_Inr notify_slowpath_core_def split: if_splits)

theorem rxq_poll_dequeues_witness:
  "\<exists>st st' b B. krx_queue demo_tenv st 0 B [((1, 60, 0, 0), map (bytes_of_pkt pkt_zero) [0..<60])] \<and>
     rxq_poll st (\<lambda>_. 0) = Inr (0, process_packet 0 b 60 0 0, st') \<and> b 0 = 0 \<and> krx_queue demo_tenv st' 0 B []"
proof -
  obtain B where b: "krx_queue demo_tenv demo_ready 0 B []"
    using demo_ready_ok(1) by blast
  obtain st where st: "fast_kernel_packet demo_tenv 9 demo_ready (demo_nbuf\<lparr>nb_len := 60\<rparr>) None = Inr st"
    "krx_queue demo_tenv st 0 B [((1, 60, 0, 0), map (bytes_of_pkt pkt_zero) [0..<60])]"
    using fast_kernel_packet_queues [OF b, of "demo_nbuf\<lparr>nb_len := 60\<rparr>" 9 None] demo_ready_ok(2,3)
    by (auto simp: network_buf_flowgroup_def)
  have "rxq_next st = ucast (0::u16)" "fn_cores st \<noteq> 0"
    using fast_kernel_packet_frame [OF st(1)] demo_ready_ok(4,5) by simp_all
  then obtain st' c where r: "rxq_poll st (\<lambda>_. 0) = Inr (0, process_packet 0 c 60 0 0, st')"
    "has_bytes c 0 (map (bytes_of_pkt pkt_zero) [0..<60])" "krx_queue demo_tenv st' 0 B []"
    using rxq_poll_dequeues [OF st(2), of "\<lambda>_. 0"] by auto
  have "bytes_of_pkt pkt_zero 0 = 0"
    by (simp add: bytes_of_pkt_def hdr_bytes_def eth_bytes_def pkt_zero_def nth_append)
  then have "c 0 = 0"
    using r(2) by (simp add: has_bytes_def)
  then show ?thesis
    using st(2) r by blast
qed

end
