(* ===== verification/Slow_Defs.thy ===== *)
theory Slow_Defs
  imports Adminq_Init
begin

text \<open>
  The data of the slow path: connections, \<^verbatim>\<open>struct connection\<close> of \<^verbatim>\<open>tas/slow/internal.h\<close>, and
  the configuration of \<^verbatim>\<open>tas/include/config.h\<close>.  A pointer to a connection is its address, 0
  for \<^verbatim>\<open>NULL\<close>; buffers are offsets into the shared memory.  The members of the congestion
  control union are separate fields: the algorithm, and with it the member in use, is fixed by
  the configuration.  \<^verbatim>\<open>comp.ptr\<close> is the address of a remote MAC address and stands for the
  connection it belongs to, \<^verbatim>\<open>comp.q\<close> is the one queue there is.  \<^verbatim>\<open>int\<close> flags are truth values, \<^verbatim>\<open>rtt_diff\<close> is the 32 bits of a signed number.
\<close>

datatype connection_status =
    CONN_SYN_WAIT
  | CONN_ARP_PENDING
  | CONN_SYN_SENT
  | CONN_REG_SYNACK
  | CONN_OPEN
  | CONN_CLOSED
  | CONN_FAILED

record connection_cc_dctcp_win =
  dw_ecn_rate :: u32
  dw_window :: u32
  dw_slowstart :: bool

record connection_cc_dctcp_rate =
  unproc_acks :: u32
  unproc_ackb :: u32
  unproc_ecnb :: u32
  unproc_drops :: u32
  dr_ecn_rate :: u32
  dr_act_rate :: u32
  dr_slowstart :: bool

record connection_cc_timely =
  rtt_prev :: u32
  rtt_diff :: u32
  hai_cnt :: u32
  tm_act_rate :: u32
  tm_last_ts :: u32
  tm_slowstart :: bool

record connection =
  cn_opaque :: u64
  cn_ctx :: u64
  app_next :: u64
  cn_db_id :: u32
  cn_rx_handle :: packetmem_handle
  cn_tx_handle :: packetmem_handle
  cn_rx_buf :: u64
  cn_tx_buf :: u64
  cn_rx_len :: u32
  cn_tx_len :: u32
  cn_remote_mac :: u64
  cn_remote_ip :: u32
  cn_local_ip :: u32
  cn_remote_port :: u16
  cn_local_port :: u16
  cn_status :: connection_status
  cn_remote_seq :: u32
  cn_local_seq :: u32
  cn_syn_ts :: u32
  cn_timeout :: u32
  to_attempts :: u32
  to_armed :: bool
  cc_last_ts :: u32
  cc_rtt :: u32
  cc_last_drops :: u16
  cc_last_acks :: u16
  cc_last_ackb :: u32
  cc_last_ecnb :: u32
  cc_rate :: u32
  cc_rexmits :: u32
  cc_dctcp_win :: connection_cc_dctcp_win
  cc_timely :: connection_cc_timely
  cc_dctcp_rate :: connection_cc_dctcp_rate
  cnt_tx_pending :: u32
  ts_tx_pending :: u32
  cc_next :: u64
  ht_next :: u64
  comp_next :: u64
  comp_notify_fd :: int
  comp_status :: int
  comp_ptr :: u64
  cn_flow_id :: u32
  cn_fn_core :: u32
  cn_flags :: u32
  cn_flow_group :: u16

datatype config_cc_algorithm =
    CONFIG_CC_DCTCP_WIN
  | CONFIG_CC_DCTCP_RATE
  | CONFIG_CC_TIMELY
  | CONFIG_CC_CONST_RATE

record configuration =
  cfg_tcp_rxbuf_len :: u64
  cfg_tcp_txbuf_len :: u64
  tcp_rtt_init :: u32
  tcp_link_bw :: u32
  tcp_handshake_to :: u32
  tcp_handshake_retries :: u32
  cfg_ip :: u32
  cfg_ip_prefix :: u8
  cfg_routes :: "(u32 \<times> u8 \<times> u32) list"
  arp_to :: u32
  arp_to_max :: u32
  cc_algorithm :: config_cc_algorithm
  cc_control_granularity :: u32
  cc_control_interval :: u32
  cc_rexmit_ints :: u32
  cc_dctcp_weight :: u32
  cc_dctcp_init :: u32
  cc_dctcp_step :: u32
  cc_dctcp_mimd :: u32
  cc_dctcp_min :: u32
  cc_dctcp_minpkts :: u32
  cc_const_rate :: u32
  cc_timely_tlow :: u32
  cc_timely_thigh :: u32
  cc_timely_step :: u32
  cc_timely_init :: u32
  cc_timely_alpha :: u32
  cc_timely_beta :: u32
  cc_timely_min_rtt :: u32
  cc_timely_min_rate :: u32
  cfg_kni :: bool

record kernel_statistics =
  ks_drops :: u64
  ks_kernel_rexmit :: u64
  ks_ecn_marked :: u64
  ks_acks :: u64

text \<open>What congestion control works on; the rest of the slow path extends it.\<close>

record cc_state =
  sp_tas :: tas
  conns :: "u64 \<Rightarrow> connection"
  cc_conns :: u64
  next_conn :: u64
  cc_ts :: u32
  kstats :: kernel_statistics

definition upd_conn :: "'a cc_state_scheme \<Rightarrow> u64 \<Rightarrow> connection \<Rightarrow> 'a cc_state_scheme" where
  "upd_conn st c conn = st\<lparr>conns := (conns st)(c := conn)\<rparr>"

end
