(* ===== verification/Cc.thy ===== *)
theory Cc
  imports Slow_Defs "HOL-Library.Signed_Division"
begin

text \<open>
  Congestion control, \<^verbatim>\<open>tas/slow/cc.c\<close>.  Arithmetic is at the width of the C expressions.  The
  four algorithms compute a connection's new state from the counters of its flow; \<^verbatim>\<open>cc_poll\<close>
  runs them round robin over the list of connections.
\<close>

unbundle bit_operations_syntax

section \<open>Model\<close>

abbreviation (input) CONF_MSS :: u32 where "CONF_MSS \<equiv> 1400"
abbreviation (input) UINT32_MAX :: u64 where "UINT32_MAX \<equiv> 0xFFFFFFFF"

text \<open>Kilobits per second for a window per round trip, or less if the link is slower.\<close>

definition window_to_rate :: "configuration \<Rightarrow> u32 \<Rightarrow> u32 \<Rightarrow> u32 result" where
  "window_to_rate cfg window rt =
    (if tcp_link_bw cfg = 0 then Inl Div_By_Zero
     else
       let time = (ucast window * 8 * 1000 :: u64) div ucast (tcp_link_bw cfg) div 1000;
           time = (if time < ucast (rt * 1000) then ucast (rt * 1000) else time) in
       if time = 0 then Inl Assert_Failed
       else
         let kbps = (ucast window * 8 * 1000000) div time;
             kbps = (if kbps > UINT32_MAX then UINT32_MAX else kbps) in
         Inr (ucast kbps))"

definition issue_retransmits ::
  "tas_env \<Rightarrow> configuration \<Rightarrow> u64 \<Rightarrow> 'a cc_state_scheme \<Rightarrow> u64 \<Rightarrow> nicif_stats \<Rightarrow> u32 \<Rightarrow> 'a cc_state_scheme result"
where
  "issue_retransmits env cfg tsc st p stats cur_ts =
    (let c = conns st p; rt = (if rtt stats \<noteq> 0 then rtt stats else tcp_rtt_init cfg) in
     if txp stats \<and> c_ackb stats = 0 then
       if cnt_tx_pending c = 0
       then Inr (upd_conn st p (c\<lparr>cnt_tx_pending := 1, ts_tx_pending := cur_ts\<rparr>))
       else
         let c = c\<lparr>cnt_tx_pending := cnt_tx_pending c + 1\<rparr>; st = upd_conn st p c in
         if cnt_tx_pending c \<ge> cc_rexmit_ints cfg \<and> cur_ts - ts_tx_pending c \<ge> 2 * rt then
           bind_res (nicif_connection_retransmit env tsc (sp_tas st) (cn_flow_id c) (cn_flow_group c)) (\<lambda>(r, t).
           let st = st\<lparr>sp_tas := t\<rparr> in
           Inr (if r = 0
                then (upd_conn st p (c\<lparr>cnt_tx_pending := 0, cc_rexmits := cc_rexmits c + 1\<rparr>))
                       \<lparr>kstats := (kstats st)\<lparr>ks_kernel_rexmit := ks_kernel_rexmit (kstats st) + 1\<rparr>\<rparr>
                else st))
         else Inr st
     else Inr (upd_conn st p (c\<lparr>cnt_tx_pending := 0\<rparr>)))"

subsection \<open>Window-based DCTCP\<close>

definition dctcp_win_init :: "configuration \<Rightarrow> connection \<Rightarrow> connection result" where
  "dctcp_win_init cfg c =
     bind_res (window_to_rate cfg (2 * CONF_MSS) (tcp_rtt_init cfg)) (\<lambda>r.
     Inr (c\<lparr>cc_rate := r, cc_dctcp_win := \<lparr>dw_ecn_rate = 0, dw_window = 2 * CONF_MSS, dw_slowstart = True\<rparr>\<rparr>))"

text \<open>
  The moving average of the share of marked bytes, both as fractions of \<^verbatim>\<open>UINT32_MAX\<close>, and the
  reduction by half of it.
\<close>

definition ecn_ewma :: "configuration \<Rightarrow> u32 \<Rightarrow> u32 \<Rightarrow> u32 \<Rightarrow> u32" where
  "ecn_ewma cfg old ecnb ackb =
    (let ecn_rate = (ucast ecnb * UINT32_MAX) div ucast ackb :: u64;
         ecn_rate = ecn_rate * ucast (cc_dctcp_weight cfg) + ucast old * (UINT32_MAX - ucast (cc_dctcp_weight cfg)) in
     ucast (ecn_rate div UINT32_MAX))"

definition ecn_reduce :: "u32 \<Rightarrow> u32 \<Rightarrow> u32" where
  "ecn_reduce x ecn_rate = ucast ((ucast x * (UINT32_MAX - ucast (ecn_rate div 2))) div UINT32_MAX :: u64)"

text \<open>The parts of the update: slow start, congestion avoidance, and the limits of the window.\<close>

definition dctcp_slow_start :: "connection \<Rightarrow> nicif_stats \<Rightarrow> u32 \<times> connection_cc_dctcp_win" where
  "dctcp_slow_start c stats =
    (let cc = cc_dctcp_win c; win = dw_window cc in
     if dw_slowstart cc then
       if c_drops stats = 0 \<and> c_ecnb stats = 0 \<and> cc_rexmits c = 0
       then (if win + c_ackb stats > win then win + c_ackb stats else win, cc)
       else (win, cc\<lparr>dw_slowstart := False\<rparr>)
     else (win, cc))"

definition dctcp_avoidance ::
  "configuration \<Rightarrow> connection \<Rightarrow> nicif_stats \<Rightarrow> u32 \<Rightarrow> connection_cc_dctcp_win \<Rightarrow> (u32 \<times> connection_cc_dctcp_win) result"
where
  "dctcp_avoidance cfg c stats win cc =
    (if c_drops stats > 0 \<or> cc_rexmits c > 0 then Inr (win div 2, cc)
     else
       let ackb = c_ackb stats; ecnb = (if ackb > 0 \<and> \<not> c_ecnb stats \<le> ackb then ackb else c_ecnb stats);
           cc = (if ackb > 0 then cc\<lparr>dw_ecn_rate := ecn_ewma cfg (dw_ecn_rate cc) ecnb ackb\<rparr> else cc) in
       if ecnb > 0 then Inr (ecn_reduce win (dw_ecn_rate cc), cc)
       else if win = 0 then Inl Assert_Failed
       else
         let incr = (ucast ackb * ucast CONF_MSS :: u64) div ucast win in
         Inr (if ucast (ucast win + incr) > win then win + ucast incr else win, cc))"

definition dctcp_win_limit :: "u32 \<Rightarrow> u32 \<Rightarrow> u32" where
  "dctcp_win_limit win txlen =
    (let win = (if win < CONF_MSS then CONF_MSS else win) in if win > txlen then txlen else win)"

definition dctcp_win_update :: "configuration \<Rightarrow> connection \<Rightarrow> nicif_stats \<Rightarrow> connection result" where
  "dctcp_win_update cfg c stats =
    (if \<not> dw_window (cc_dctcp_win c) \<ge> CONF_MSS then Inl Assert_Failed
     else
       let rt = (if rtt stats = 0 then tcp_rtt_init cfg else rtt stats); (win, cc) = dctcp_slow_start c stats in
       bind_res (if dw_slowstart cc then Inr (win, cc) else dctcp_avoidance cfg c stats win cc) (\<lambda>(win, cc).
       let win = dctcp_win_limit win (cn_tx_len c) in
       bind_res (window_to_rate cfg win rt) (\<lambda>r.
       if \<not> win \<ge> CONF_MSS then Inl Assert_Failed
       else Inr (c\<lparr>cc_rtt := rt, cc_rate := r, cc_dctcp_win := cc\<lparr>dw_window := win\<rparr>, cc_rexmits := 0\<rparr>))))"

subsection \<open>Rate-based DCTCP\<close>

text \<open>\<^verbatim>\<open>act_rate\<close> is not initialised.\<close>

definition dctcp_rate_init :: "configuration \<Rightarrow> connection \<Rightarrow> connection" where
  "dctcp_rate_init cfg c =
     c\<lparr>cc_rate := cc_dctcp_init cfg,
       cc_dctcp_rate := (cc_dctcp_rate c)\<lparr>dr_ecn_rate := 0, dr_slowstart := True, unproc_ecnb := 0, unproc_acks := 0,
         unproc_ackb := 0, unproc_drops := 0\<rparr>\<rparr>"

text \<open>Rate limit at 1.2 times the rate actually used.\<close>

definition clamp_rate :: "u32 \<Rightarrow> u32 \<Rightarrow> u32" where
  "clamp_rate kbps act_rate =
    (let lim = ucast act_rate * 12 div 10 :: u64 in if ucast kbps > lim then ucast lim else kbps)"

text \<open>Slow start and congestion avoidance, from the counters that have been collected.\<close>

definition dctcp_rate_control ::
  "configuration \<Rightarrow> u32 \<Rightarrow> u32 \<Rightarrow> u32 \<Rightarrow> u32 \<Rightarrow> u32 \<Rightarrow> connection_cc_dctcp_rate \<Rightarrow> u32 \<times> connection_cc_dctcp_rate"
where
  "dctcp_rate_control cfg rexmits drops ecnb ackb kbps cc =
    (let congested = \<not> (drops = 0 \<and> ecnb = 0 \<and> rexmits = 0);
         kbps = (if dr_slowstart cc \<and> \<not> congested then if kbps * 2 \<ge> kbps then kbps * 2 else 0xFFFFFFFF else kbps);
         cc = (if dr_slowstart cc \<and> congested then cc\<lparr>dr_slowstart := False\<rparr> else cc) in
     if dr_slowstart cc then (kbps, cc)
     else if drops > 0 \<or> rexmits > 0 then (kbps div 2, cc)
     else
       let ecnb = (if ackb > 0 \<and> \<not> ecnb \<le> ackb then ackb else ecnb);
           cc = (if ackb > 0 then cc\<lparr>dr_ecn_rate := ecn_ewma cfg (dr_ecn_rate cc) ecnb ackb\<rparr> else cc) in
       (if ecnb > 0 then ecn_reduce kbps (dr_ecn_rate cc)
        else if cc_dctcp_mimd cfg = 0 then kbps + cc_dctcp_step cfg
        else kbps + ucast ((ucast kbps * ucast (cc_dctcp_mimd cfg)) div UINT32_MAX :: u64), cc))"

definition dctcp_rate_update :: "configuration \<Rightarrow> connection \<Rightarrow> nicif_stats \<Rightarrow> u32 \<Rightarrow> connection result" where
  "dctcp_rate_update cfg c stats cur_ts =
    (let cc = cc_dctcp_rate c; kbps = cc_rate c;
         c = c\<lparr>cc_rtt := if rtt stats = 0 then tcp_rtt_init cfg else rtt stats\<rparr>;
         ecnb = unproc_ecnb cc + c_ecnb stats; acks = unproc_acks cc + ucast (c_acks stats);
         ackb = unproc_ackb cc + c_ackb stats; drops = unproc_drops cc + ucast (c_drops stats) in
     if acks < cc_dctcp_minpkts cfg then
       Inr (c\<lparr>cc_dctcp_rate := cc\<lparr>unproc_ecnb := ecnb, unproc_acks := acks, unproc_ackb := ackb, unproc_drops := drops\<rparr>\<rparr>)
     else if cc_last_ts c \<noteq> 0 \<and> cur_ts - cc_last_ts c = 0 then Inl Div_By_Zero
     else
       let act_rate = (if cc_last_ts c \<noteq> 0 then ackb * 8 * 1000 div (cur_ts - cc_last_ts c) else 0);
           cc = cc\<lparr>unproc_ecnb := 0, unproc_acks := 0, unproc_ackb := 0, unproc_drops := 0,
                   dr_act_rate := (7 * dr_act_rate cc + act_rate) div 8\<rparr>;
           act_rate = (if act_rate \<ge> dr_act_rate cc then act_rate else dr_act_rate cc);
           (kbps, cc) = dctcp_rate_control cfg (cc_rexmits c) drops ecnb ackb (clamp_rate kbps act_rate) cc in
       Inr (c\<lparr>cc_rate := if kbps < cc_dctcp_min cfg then cc_dctcp_min cfg else kbps, cc_dctcp_rate := cc, cc_rexmits := 0\<rparr>))"

subsection \<open>TIMELY\<close>

definition timely_init :: "configuration \<Rightarrow> connection \<Rightarrow> connection" where
  "timely_init cfg c =
     c\<lparr>cc_rate := cc_timely_init cfg,
       cc_timely := (cc_timely c)\<lparr>rtt_prev := 0, rtt_diff := 0, hai_cnt := 0, tm_last_ts := 0, tm_slowstart := True\<rparr>\<rparr>"

text \<open>
  \<^verbatim>\<open>int64_t\<close> values are integers reduced to 64 bits after each operation; C leaves the overflow
  undefined.  \<^verbatim>\<open>sdiv\<close> is C's division.
\<close>

definition i64 :: "int \<Rightarrow> int" where
  "i64 k = sint (word_of_int k :: u64)"

text \<open>The new \<^verbatim>\<open>rtt_diff\<close> and the normalized gradient.\<close>

definition timely_gradient :: "configuration \<Rightarrow> connection_cc_timely \<Rightarrow> u32 \<Rightarrow> (u32 \<times> int) result" where
  "timely_gradient cfg cc new_rtt =
    (if rtt_prev cc = 0 then Inr (rtt_diff cc, 0)
     else
       let new_rtt_diff = new_rtt - rtt_prev cc; factor = ucast (cc_timely_alpha cfg div 2) :: u64;
           x = sint ((0x7FFFFFFF - factor) * scast (rtt_diff cc) + factor * scast new_rtt_diff);
           diff = word_of_int (x sdiv 2147483647) :: u32 in
       if cc_timely_min_rtt cfg = 0 then Inl Div_By_Zero
       else Inr (diff, i64 (sint diff * 32767) sdiv uint (cc_timely_min_rtt cfg)))"

text \<open>The rate for a round-trip time above the upper threshold, and for a positive gradient.\<close>

definition timely_high :: "configuration \<Rightarrow> u32 \<Rightarrow> u32 \<Rightarrow> u32" where
  "timely_high cfg kbps new_rtt =
    (let d = ucast ((UINT32_MAX * ucast (cc_timely_thigh cfg)) div ucast new_rtt) :: u32;
         b = 0xFFFFFFFF - d;
         a = ucast ((ucast (cc_timely_beta cfg) * ucast b) div UINT32_MAX) :: u32 in
     ucast ((ucast kbps * ucast (0xFFFFFFFF - a)) div UINT32_MAX))"

definition timely_reduce :: "configuration \<Rightarrow> u32 \<Rightarrow> int \<Rightarrow> u32" where
  "timely_reduce cfg kbps gradient =
    (let a = i64 (uint (cc_timely_beta cfg div 2) * gradient);
         b = a sdiv 32767;
         d = (if b \<le> 2147483647 then i64 (2147483647 - b) else 0);
         e = i64 (uint kbps * d) in
     word_of_int (e sdiv 2147483647))"

text \<open>The new rate, which never falls below half of the old one, and the state.\<close>

definition timely_control ::
  "configuration \<Rightarrow> u32 \<Rightarrow> int \<Rightarrow> u32 \<Rightarrow> connection_cc_timely \<Rightarrow> u32 \<times> connection_cc_timely"
where
  "timely_control cfg new_rtt gradient orig_rate cc =
    (let (kbps, cc) =
           (if tm_slowstart cc then (orig_rate * 2, cc)
            else if new_rtt < cc_timely_tlow cfg then (orig_rate + cc_timely_step cfg, cc\<lparr>hai_cnt := 0\<rparr>)
            else if new_rtt > cc_timely_thigh cfg then (timely_high cfg orig_rate new_rtt, cc\<lparr>hai_cnt := 0\<rparr>)
            else if gradient \<le> 0 then
              if hai_cnt cc + 1 \<ge> 5 then (orig_rate + cc_timely_step cfg * 5, cc)
              else (orig_rate + cc_timely_step cfg, cc\<lparr>hai_cnt := hai_cnt cc + 1\<rparr>)
            else (timely_reduce cfg orig_rate gradient, cc\<lparr>hai_cnt := 0\<rparr>));
         kbps = (if kbps < orig_rate div 2 then orig_rate div 2 else kbps) in
     (if kbps < cc_timely_min_rate cfg then cc_timely_min_rate cfg else kbps, cc))"

definition timely_update :: "configuration \<Rightarrow> connection \<Rightarrow> nicif_stats \<Rightarrow> u32 \<Rightarrow> connection result" where
  "timely_update cfg c stats cur_ts =
    (let cc = cc_timely c; new_rtt = rtt stats in
     if tm_last_ts cc \<noteq> 0 \<and> cur_ts - tm_last_ts cc = 0 then Inl Div_By_Zero
     else
       let act_rate = (if tm_last_ts cc \<noteq> 0 then c_ackb stats * 8 * 1000 div (cur_ts - tm_last_ts cc) else 0);
           cc = cc\<lparr>tm_act_rate := (7 * tm_act_rate cc + act_rate) div 8\<rparr>;
           act_rate = (if act_rate \<ge> tm_act_rate cc then act_rate else tm_act_rate cc) in
       if new_rtt = 0 then Inr (c\<lparr>cc_timely := cc\<rparr>)
       else
         let cc = (if tm_slowstart cc \<and> new_rtt > (cc_timely_tlow cfg + cc_timely_thigh cfg) div 2
                   then cc\<lparr>tm_slowstart := False\<rparr> else cc);
             kbps = (if \<not> tm_slowstart cc then clamp_rate (cc_rate c) act_rate else cc_rate c) in
         bind_res (timely_gradient cfg cc new_rtt) (\<lambda>(diff, gradient).
         let (kbps, cc) = timely_control cfg new_rtt gradient kbps (cc\<lparr>rtt_diff := diff, rtt_prev := new_rtt\<rparr>) in
         Inr (c\<lparr>cc_rate := kbps, cc_timely := cc\<lparr>tm_last_ts := cur_ts\<rparr>, cc_rtt := rtt stats, cc_rexmits := 0\<rparr>)))"

subsection \<open>Constant rate\<close>

definition const_rate_init :: "configuration \<Rightarrow> connection \<Rightarrow> connection" where
  "const_rate_init cfg c = c\<lparr>cc_rate := cc_const_rate cfg\<rparr>"

definition const_rate_update :: "configuration \<Rightarrow> connection \<Rightarrow> nicif_stats \<Rightarrow> connection" where
  "const_rate_update cfg c stats = c\<lparr>cc_rtt := if rtt stats \<noteq> 0 then rtt stats else tcp_rtt_init cfg, cc_rexmits := 0\<rparr>"

subsection \<open>The control loop\<close>

definition cc_update :: "configuration \<Rightarrow> connection \<Rightarrow> nicif_stats \<Rightarrow> u32 \<Rightarrow> connection result" where
  "cc_update cfg c stats cur_ts =
    (case cc_algorithm cfg of
       CONFIG_CC_DCTCP_WIN \<Rightarrow> dctcp_win_update cfg c stats
     | CONFIG_CC_DCTCP_RATE \<Rightarrow> dctcp_rate_update cfg c stats cur_ts
     | CONFIG_CC_TIMELY \<Rightarrow> timely_update cfg c stats cur_ts
     | CONFIG_CC_CONST_RATE \<Rightarrow> Inr (const_rate_update cfg c stats))"

text \<open>
  The counters since the last round; they are reduced in place.  \<^verbatim>\<open>dctcp_win_update\<close> writes the
  capped \<^verbatim>\<open>c_ecnb\<close> back, which is not read again.
\<close>

definition cc_stats_diff :: "connection \<Rightarrow> nicif_stats \<Rightarrow> connection \<times> nicif_stats" where
  "cc_stats_diff c stats =
    (c\<lparr>cc_last_drops := c_drops stats, cc_last_acks := c_acks stats, cc_last_ackb := c_ackb stats, cc_last_ecnb := c_ecnb stats\<rparr>,
     stats\<lparr>c_drops := c_drops stats - cc_last_drops c, c_acks := c_acks stats - cc_last_acks c,
       c_ackb := c_ackb stats - cc_last_ackb c, c_ecnb := c_ecnb stats - cc_last_ecnb c\<rparr>)"

text \<open>The new rate goes to the fast path; a failure is ignored.\<close>

definition cc_setrate :: "'a cc_state_scheme \<Rightarrow> connection \<Rightarrow> 'a cc_state_scheme" where
  "cc_setrate st c =
    (case nicif_connection_setrate (fp (sp_tas st)) (cn_flow_id c) (cc_rate c) of
       None \<Rightarrow> st
     | Some f \<Rightarrow> st\<lparr>sp_tas := (sp_tas st)\<lparr>fp := f\<rparr>\<rparr>)"

definition cc_count :: "kernel_statistics \<Rightarrow> nicif_stats \<Rightarrow> kernel_statistics" where
  "cc_count ks stats = ks\<lparr>ks_drops := ks_drops ks + ucast (c_drops stats),
     ks_ecn_marked := ks_ecn_marked ks + ucast (c_ecnb stats), ks_acks := ks_acks ks + ucast (c_ackb stats)\<rparr>"

definition cc_round ::
  "tas_env \<Rightarrow> configuration \<Rightarrow> u64 \<Rightarrow> u32 \<Rightarrow> 'a cc_state_scheme \<Rightarrow> u64 \<Rightarrow> nicif_stats \<Rightarrow> 'a cc_state_scheme result"
where
  "cc_round env cfg tsc cur_ts st p stats =
    (let (c, stats) = cc_stats_diff (conns st p) stats; st = st\<lparr>kstats := cc_count (kstats st) stats\<rparr> in
     bind_res (cc_update cfg c stats cur_ts) (\<lambda>c.
     bind_res (issue_retransmits env cfg tsc (upd_conn st p c) p stats cur_ts) (\<lambda>st.
     let c = conns st p in Inr (upd_conn (cc_setrate st c) p (c\<lparr>cc_last_ts := cur_ts\<rparr>)))))"

definition cc_step ::
  "tas_env \<Rightarrow> configuration \<Rightarrow> u64 \<Rightarrow> u32 \<Rightarrow> 'a cc_state_scheme \<Rightarrow> u64 \<Rightarrow> 'a cc_state_scheme result"
where
  "cc_step env cfg tsc cur_ts st p =
    (let c = conns st p in
     if cn_status c \<noteq> CONN_OPEN then Inr st
     else if cur_ts - cc_last_ts c < cc_rtt c * cc_control_interval cfg then Inr st
     else case nicif_connection_stats (fp (sp_tas st)) (cn_flow_id c) of
       None \<Rightarrow> Inl Abort
     | Some stats \<Rightarrow> cc_round env cfg tsc cur_ts st p stats)"

text \<open>The successor in the list, from its end back to the start.\<close>

definition cc_succ :: "'a cc_state_scheme \<Rightarrow> u64 \<Rightarrow> u64" where
  "cc_succ st p = (if cc_next (conns st p) \<noteq> 0 then cc_next (conns st p) else cc_conns st)"

fun cc_poll_loop ::
  "tas_env \<Rightarrow> configuration \<Rightarrow> u64 \<Rightarrow> u32 \<Rightarrow> u64 \<Rightarrow> nat \<Rightarrow> u64 \<Rightarrow> nat \<Rightarrow> 'a cc_state_scheme \<Rightarrow> (u64 \<times> nat \<times> 'a cc_state_scheme) result"
where
  "cc_poll_loop env cfg tsc cur_ts c_first 0 c n st = Inr (c, n, st)"
| "cc_poll_loop env cfg tsc cur_ts c_first (Suc k) c n st =
    (if n = 0 \<or> c \<noteq> c_first then
       bind_res (cc_step env cfg tsc cur_ts st c) (\<lambda>st. cc_poll_loop env cfg tsc cur_ts c_first k (cc_succ st c) (Suc n) st)
     else Inr (c, n, st))"

definition cc_poll :: "tas_env \<Rightarrow> configuration \<Rightarrow> u64 \<Rightarrow> u32 \<Rightarrow> 'a cc_state_scheme \<Rightarrow> (nat \<times> 'a cc_state_scheme) result" where
  "cc_poll env cfg tsc cur_ts st =
    (let c = (if next_conn st \<noteq> 0 then next_conn st else cc_conns st) in
     if c = 0 then Inr (0, st\<lparr>cc_ts := cur_ts\<rparr>)
     else bind_res (cc_poll_loop env cfg tsc cur_ts c 128 c 0 st) (\<lambda>(c, n, st). Inr (n, st\<lparr>next_conn := c, cc_ts := cur_ts\<rparr>)))"

definition cc_conn_init :: "configuration \<Rightarrow> u32 \<Rightarrow> 'a cc_state_scheme \<Rightarrow> u64 \<Rightarrow> 'a cc_state_scheme result" where
  "cc_conn_init cfg cur_ts st p =
    (let c = (conns st p)\<lparr>cc_next := cc_conns st, cc_last_ts := cur_ts, cc_rtt := tcp_rtt_init cfg, cc_rexmits := 0\<rparr>;
         st = st\<lparr>cc_conns := p\<rparr> in
     bind_res (case cc_algorithm cfg of
                 CONFIG_CC_DCTCP_WIN \<Rightarrow> dctcp_win_init cfg c
               | CONFIG_CC_DCTCP_RATE \<Rightarrow> Inr (dctcp_rate_init cfg c)
               | CONFIG_CC_TIMELY \<Rightarrow> Inr (timely_init cfg c)
               | CONFIG_CC_CONST_RATE \<Rightarrow> Inr (const_rate_init cfg c))
       (\<lambda>c. Inr (upd_conn st p c)))"

partial_function (option) cc_find_prev :: "(u64 \<Rightarrow> connection) \<Rightarrow> u64 \<Rightarrow> u64 \<Rightarrow> u64 option" where
  "cc_find_prev cs conn cp =
    (if cp \<noteq> 0 \<and> cc_next (cs cp) \<noteq> conn then cc_find_prev cs conn (cc_next (cs cp)) else Some cp)"

definition cc_conn_remove :: "'a cc_state_scheme \<Rightarrow> u64 \<Rightarrow> 'a cc_state_scheme run" where
  "cc_conn_remove st p =
    (let nxt = cc_next (conns st p); st = (if next_conn st = p then st\<lparr>next_conn := nxt\<rparr> else st) in
     if cc_conns st = p then Some (Inr (st\<lparr>cc_conns := nxt\<rparr>))
     else case cc_find_prev (conns st) p (cc_conns st) of
       None \<Rightarrow> None
     | Some cp \<Rightarrow>
         if cp = 0 then Some (Inl Abort)
         else Some (Inr (upd_conn st cp ((conns st cp)\<lparr>cc_next := nxt\<rparr>))))"

text \<open>
  The time until the next round is needed; \<open>None\<close> of the loop is a list that does not end.
  \<^verbatim>\<open>-1U\<close> stands for no connection.
\<close>

partial_function (option) cc_next_loop :: "configuration \<Rightarrow> u32 \<Rightarrow> (u64 \<Rightarrow> connection) \<Rightarrow> u64 \<Rightarrow> u32 \<Rightarrow> u32 option" where
  "cc_next_loop cfg cur_ts cs c ts =
    (if c = 0 then Some ts
     else if cn_status (cs c) \<noteq> CONN_OPEN then cc_next_loop cfg cur_ts cs (cc_next (cs c)) ts
     else
       let next_ts = cc_rtt (cs c) * cc_control_interval cfg - (cur_ts - cc_last_ts (cs c)) in
       cc_next_loop cfg cur_ts cs (cc_next (cs c)) (if sint next_ts \<ge> 0 then min ts next_ts else 0))"

definition cc_next_ts :: "configuration \<Rightarrow> u32 \<Rightarrow> 'a cc_state_scheme \<Rightarrow> u32 run" where
  "cc_next_ts cfg cur_ts st =
    (if \<not> cur_ts \<ge> cc_ts st then Some (Inl Assert_Failed)
     else case cc_next_loop cfg cur_ts (conns st) (cc_conns st) (-1) of
       None \<Rightarrow> None
     | Some ts \<Rightarrow>
         Some (Inr (if ts = -1 then -1 else max ts (cc_control_granularity cfg - (cur_ts - cc_ts st)))))"

end
