(* ===== verification/Cc_Spec.thy ===== *)
theory Cc_Spec
  imports Cc Linked_List
begin

text \<open>
  What congestion control computes.  The window of DCTCP is compared with a reference over the
  natural numbers; the control loop is shown to serve the list of connections round robin.
\<close>

section \<open>Arithmetic\<close>

lemma unat_u64_mult: "unat a * unat b < 18446744073709551616 \<Longrightarrow> unat (a * b :: u64) = unat a * unat b"
  by (simp add: unat_word_ariths)

lemma unat_u64_div: "unat (a div b :: u64) = unat a div unat b"
  by (rule unat_div)

lemma unat_ucast_u64_u32: "unat (ucast (x :: u64) :: u32) = unat x mod 4294967296"
  by (simp add: unsigned_ucast_eq take_bit_eq_mod)

lemma u64_prod_bound: "(a :: nat) < 4294967296 \<Longrightarrow> b \<le> 4294967296 \<Longrightarrow> a * b < 18446744073709551616"
proof -
  assume ab: "a < 4294967296" "b \<le> 4294967296"
  have "a * b \<le> a * 4294967296"
    by (rule mult_le_mono2) (rule ab(2))
  also have "\<dots> < 18446744073709551616"
    using ab(1) by simp
  finally show ?thesis .
qed

text \<open>The share of marked bytes, as a fraction of \<open>2^32 - 1\<close>, and its moving average.\<close>

definition ecn_share :: "nat \<Rightarrow> nat \<Rightarrow> nat" where
  "ecn_share ecnb ackb = ecnb * 4294967295 div ackb"

definition ecn_avg :: "nat \<Rightarrow> nat \<Rightarrow> nat \<Rightarrow> nat" where
  "ecn_avg w old new = (new * w + old * (4294967295 - w)) div 4294967295"

lemma ecn_share_le: "e \<le> a \<Longrightarrow> ecn_share e a \<le> 4294967295"
proof (cases "a = 0")
  case False
  assume "e \<le> a"
  then have "e * 4294967295 div a \<le> a * 4294967295 div a"
    by (intro div_le_mono mult_le_mono1)
  then show ?thesis
    using False by (simp add: ecn_share_def)
qed (simp add: ecn_share_def)

lemma ecn_avg_between:
  assumes "w \<le> 4294967295"
  shows "min old new \<le> ecn_avg w old new \<and> ecn_avg w old new \<le> max old new"
proof -
  let ?U = "4294967295 :: nat" and ?lo = "min old new" and ?hi = "max old new"
  have s: "w + (?U - w) = ?U"
    using assms by simp
  have "?lo * w + ?lo * (?U - w) \<le> new * w + old * (?U - w)"
    by (intro add_mono mult_le_mono1) simp_all
  then have "?lo * ?U \<le> new * w + old * (?U - w)"
    unfolding add_mult_distrib2 [symmetric] s .
  then have "?lo * ?U div ?U \<le> ecn_avg w old new"
    unfolding ecn_avg_def by (rule div_le_mono)
  moreover have "new * w + old * (?U - w) \<le> ?hi * w + ?hi * (?U - w)"
    by (intro add_mono mult_le_mono1) simp_all
  then have "new * w + old * (?U - w) \<le> ?hi * ?U"
    unfolding add_mult_distrib2 [symmetric] s .
  then have "ecn_avg w old new \<le> ?hi * ?U div ?U"
    unfolding ecn_avg_def by (rule div_le_mono)
  ultimately show ?thesis
    by simp
qed

lemma unat_ecn_ewma:
  assumes "ecnb \<le> ackb" "ackb \<noteq> 0"
  shows "unat (ecn_ewma cfg old ecnb ackb) = ecn_avg (unat (cc_dctcp_weight cfg)) (unat old) (ecn_share (unat ecnb) (unat ackb))"
proof -
  let ?w = "unat (cc_dctcp_weight cfg)" and ?f = "ecn_share (unat ecnb) (unat ackb)"
  have w: "?w \<le> 4294967295" "unat old \<le> 4294967295"
    using unat_u32_bound [of "cc_dctcp_weight cfg"] unat_u32_bound [of old] by simp_all
  have f: "?f \<le> 4294967295"
    using assms(1) by (intro ecn_share_le) (simp add: word_le_nat_alt)
  have e: "unat ((ucast ecnb * UINT32_MAX) div ucast ackb :: u64) = ?f"
    using u64_prod_bound [OF unat_u32_bound [of ecnb], of 4294967295]
    by (simp add: unat_u64_div unat_u64_mult unat_ucast_u32_u64 ecn_share_def)
  have d: "unat (UINT32_MAX - ucast (cc_dctcp_weight cfg) :: u64) = 4294967295 - ?w"
    using w by (simp add: unat_u64_sub unat_ucast_u32_u64)
  have m: "?f * ?w + unat old * (4294967295 - ?w) \<le> 4294967295 * 4294967295"
  proof -
    have "?f * ?w + unat old * (4294967295 - ?w) \<le> 4294967295 * ?w + 4294967295 * (4294967295 - ?w)"
      by (intro add_mono mult_le_mono1 f w(2))
    also have "\<dots> = 4294967295 * 4294967295"
      unfolding add_mult_distrib2 [symmetric] using w(1) by simp
    finally show ?thesis .
  qed
  have p1: "unat ((ucast ecnb * UINT32_MAX) div ucast ackb * ucast (cc_dctcp_weight cfg) :: u64) = ?f * ?w"
    using m by (subst unat_u64_mult) (simp_all add: e unat_ucast_u32_u64)
  have p2: "unat (ucast old * (UINT32_MAX - ucast (cc_dctcp_weight cfg)) :: u64) = unat old * (4294967295 - ?w)"
    using m by (subst unat_u64_mult) (simp_all add: d unat_ucast_u32_u64)
  have "unat ((ucast ecnb * UINT32_MAX) div ucast ackb * ucast (cc_dctcp_weight cfg) + ucast old * (UINT32_MAX - ucast (cc_dctcp_weight cfg)) :: u64) =
      ?f * ?w + unat old * (4294967295 - ?w)"
    using m by (simp add: unat_u64_add p1 p2)
  then have "unat (ecn_ewma cfg old ecnb ackb) = ecn_avg ?w (unat old) ?f mod 4294967296"
    by (simp add: ecn_ewma_def Let_def unat_ucast_u64_u32 unat_u64_div ecn_avg_def)
  moreover have "ecn_avg ?w (unat old) ?f \<le> 4294967295"
    using ecn_avg_between [OF w(1), of "unat old" ?f] f w(2) by linarith
  ultimately show ?thesis
    by simp
qed

definition ecn_cut :: "nat \<Rightarrow> nat \<Rightarrow> nat" where
  "ecn_cut x e = x * (4294967295 - e div 2) div 4294967295"

lemma ecn_cut_le: "ecn_cut x e \<le> x"
proof -
  have "x * (4294967295 - e div 2) div 4294967295 \<le> x * 4294967295 div 4294967295"
    by (intro div_le_mono mult_le_mono2) simp
  then show ?thesis
    by (simp add: ecn_cut_def)
qed

lemma unat_ecn_reduce: "unat (ecn_reduce x e) = ecn_cut (unat x) (unat e)"
proof -
  have e2: "unat (UINT32_MAX - ucast (e div 2) :: u64) = 4294967295 - unat e div 2"
    using unat_u32_bound [of e] by (simp add: unat_u64_sub unat_ucast_u32_u64 unat_div)
  have "unat (ucast x * (UINT32_MAX - ucast (e div 2)) :: u64) = unat x * (4294967295 - unat e div 2)"
    using u64_prod_bound [OF unat_u32_bound [of x], of "4294967295 - unat e div 2"]
    by (subst unat_u64_mult) (simp_all add: e2 unat_ucast_u32_u64)
  then have "unat (ecn_reduce x e) = ecn_cut (unat x) (unat e) mod 4294967296"
    by (simp add: ecn_reduce_def unat_ucast_u64_u32 unat_u64_div ecn_cut_def)
  then show ?thesis
    using ecn_cut_le [of "unat x" "unat e"] unat_u32_bound [of x] by simp
qed

section \<open>Window-based DCTCP\<close>

definition rate_ref :: "nat \<Rightarrow> nat \<Rightarrow> nat \<Rightarrow> nat" where
  "rate_ref bw win rt = min 4294967295 (win * 8000000 div max (win * 8000 div bw div 1000) (rt * 1000))"

lemma window_to_rate_ref:
  assumes "tcp_link_bw cfg \<noteq> 0" "rt \<noteq> 0" "unat rt * 1000 < 4294967296"
  shows "\<exists>r. window_to_rate cfg win rt = Inr r \<and> unat r = rate_ref (unat (tcp_link_bw cfg)) (unat win) (unat rt)"
proof -
  let ?w = "unat win" and ?b = "unat (tcp_link_bw cfg)"
  define t0 where "t0 = (ucast win * 8 * 1000 :: u64) div ucast (tcp_link_bw cfg) div 1000"
  define t where "t = (if t0 < ucast (rt * 1000) then ucast (rt * 1000) else t0)"
  have w8: "unat (ucast win * 8 :: u64) = ?w * 8"
    using unat_u32_bound [of win] by (subst unat_u64_mult) (simp_all add: unat_ucast_u32_u64)
  have "unat (ucast win * 8 * 1000 :: u64) = ?w * 8000" "unat (ucast win * 8 * 1000000 :: u64) = ?w * 8000000"
    using unat_u32_bound [of win] by (subst unat_u64_mult; simp add: w8)+
  then have t0: "unat t0 = ?w * 8000 div ?b div 1000" and num: "unat (ucast win * 8 * 1000000 :: u64) = ?w * 8000000"
    by (simp_all add: t0_def unat_u64_div unat_ucast_u32_u64)
  have rt: "unat (ucast (rt * 1000) :: u64) = unat rt * 1000"
    using assms(3) by (simp add: unat_ucast_u32_u64 unat_word_ariths)
  have tm: "unat t = max (?w * 8000 div ?b div 1000) (unat rt * 1000)"
    using t0 rt by (auto simp: t_def word_less_nat_alt max_def)
  have "0 < unat rt"
    using assms(2) by (simp add: unat_gt_0)
  then have "t \<noteq> 0"
    using tm by (auto simp: u64_eq_iff)
  moreover define r where "r = (ucast win * 8 * 1000000) div t"
  ultimately have res: "window_to_rate cfg win rt = Inr (ucast (if r > UINT32_MAX then UINT32_MAX else r))"
    using assms(1) unfolding window_to_rate_def Let_def t0_def [symmetric] t_def [symmetric] r_def [symmetric] by simp
  have r: "unat r = ?w * 8000000 div max (?w * 8000 div ?b div 1000) (unat rt * 1000)"
    by (simp only: r_def unat_u64_div num tm)
  have "unat (ucast (if r > UINT32_MAX then UINT32_MAX else r) :: u32) = min 4294967295 (unat r)"
    by (auto simp: unat_ucast_u64_u32 word_less_nat_alt min_def)
  then show ?thesis
    using res by (simp add: rate_ref_def r)
qed

text \<open>The average share of marked bytes and the window after a round, without limits.\<close>

definition dctcp_ecn :: "nat \<Rightarrow> nat \<Rightarrow> nat \<Rightarrow> nat \<Rightarrow> nat" where
  "dctcp_ecn w old ackb ecnb = (if ackb > 0 then ecn_avg w old (ecn_share (min ecnb ackb) ackb) else old)"

definition dctcp_window :: "nat \<Rightarrow> bool \<Rightarrow> bool \<Rightarrow> nat \<Rightarrow> nat \<Rightarrow> nat \<Rightarrow> nat" where
  "dctcp_window win slowstart lost ackb ecnb ecn_rate =
    (if lost then win div 2
     else if ecnb > 0 then ecn_cut win ecn_rate
     else
       let incr = (if slowstart then ackb else ackb * 1400 div win) in
       if win + incr < 4294967296 then win + incr else win)"

lemma grow_window:
  "unat (if win + incr > win then win + incr else win) = (if unat win + unat incr < 4294967296 then unat win + unat incr else unat win)" for incr :: u32
  using unat_u32_add [of win incr] unat_u32_bound [of incr] by (auto simp: word_less_nat_alt)

lemma unat_incr:
  fixes win ackb :: u32
  assumes "1400 \<le> unat win"
  shows "unat (ucast (ucast ackb * 1400 div ucast win :: u64) :: u32) = unat ackb * 1400 div unat win"
    "(ucast (ucast win + ucast ackb * 1400 div ucast win :: u64) :: u32) = win + ucast (ucast ackb * 1400 div ucast win :: u64)"
proof -
  have "unat ackb * 1400 div unat win \<le> unat ackb * unat win div unat win"
    using assms by (intro div_le_mono) simp
  then have "unat ackb * 1400 div unat win < 4294967296"
    using unat_u32_bound [of ackb] assms by simp
  moreover have "unat (ucast ackb * 1400 :: u64) = unat ackb * 1400"
    using unat_u32_bound [of ackb] by (subst unat_u64_mult) (simp_all add: unat_ucast_u32_u64)
  ultimately show "unat (ucast (ucast ackb * 1400 div ucast win :: u64) :: u32) = unat ackb * 1400 div unat win"
    by (simp add: unat_ucast_u64_u32 unat_u64_div unat_ucast_u32_u64)
  show "(ucast (ucast win + ucast ackb * 1400 div ucast win :: u64) :: u32) = win + ucast (ucast ackb * 1400 div ucast win :: u64)"
    by (rule word_unat_eq_iff [THEN iffD2])
      (simp add: unat_ucast_u64_u32 unat_word_ariths unat_ucast_u32_u64 mod_mod_cancel mod_add_right_eq)
qed

lemma unat_limit: "unat (dctcp_win_limit win len) = min (unat len) (max 1400 (unat win))"
  by (auto simp: dctcp_win_limit_def Let_def word_less_nat_alt min_def max_def)

lemma dctcp_avoidance_ref:
  fixes cfg :: configuration and c :: connection and stats :: nicif_stats and cc :: connection_cc_dctcp_win
  assumes "1400 \<le> unat win"
  defines "e \<equiv> (if c_drops stats > 0 \<or> cc_rexmits c > 0 then unat (dw_ecn_rate cc)
      else dctcp_ecn (unat (cc_dctcp_weight cfg)) (unat (dw_ecn_rate cc)) (unat (c_ackb stats)) (unat (c_ecnb stats)))"
  shows "\<exists>win' cc'. dctcp_avoidance cfg c stats win cc = Inr (win', cc') \<and>
    unat win' = dctcp_window (unat win) False (c_drops stats > 0 \<or> cc_rexmits c > 0) (unat (c_ackb stats)) (unat (c_ecnb stats)) e \<and>
    dw_slowstart cc' = dw_slowstart cc \<and> unat (dw_ecn_rate cc') = e"
proof (cases "c_drops stats > 0 \<or> cc_rexmits c > 0")
  case True
  then show ?thesis
    by (simp add: dctcp_avoidance_def dctcp_window_def e_def unat_div)
next
  case False
  let ?a = "c_ackb stats"
  define n where "n = (if ?a > 0 \<and> \<not> c_ecnb stats \<le> ?a then ?a else c_ecnb stats)"
  define cc' where "cc' = (if ?a > 0 then cc\<lparr>dw_ecn_rate := ecn_ewma cfg (dw_ecn_rate cc) n ?a\<rparr> else cc)"
  have a: "?a > 0 \<longleftrightarrow> 0 < unat ?a"
    by (simp add: word_less_nat_alt)
  have n: "unat n = (if 0 < unat ?a then min (unat (c_ecnb stats)) (unat ?a) else unat (c_ecnb stats))"
    by (auto simp: n_def word_less_nat_alt word_le_nat_alt min_def)
  have e: "unat (dw_ecn_rate cc') = e"
  proof (cases "0 < unat ?a")
    case True
    then have "n \<le> ?a" "?a \<noteq> 0"
      using n by (auto simp: word_le_nat_alt)
    then show ?thesis
      using unat_ecn_ewma [of n ?a cfg "dw_ecn_rate cc"] True n False a by (simp add: cc'_def e_def dctcp_ecn_def)
  next
    case zero: False
    then show ?thesis
      using False a by (simp add: cc'_def e_def dctcp_ecn_def)
  qed
  have z: "win \<noteq> 0"
    using assms(1) by auto
  have n0: "n > 0 \<longleftrightarrow> 0 < unat (c_ecnb stats)"
    using n by (auto simp: word_less_nat_alt min_def)
  let ?i = "ucast (ucast ?a * 1400 div ucast win :: u64) :: u32"
  have "dctcp_avoidance cfg c stats win cc =
      Inr (if n > 0 then ecn_reduce win (dw_ecn_rate cc') else if win + ?i > win then win + ?i else win, cc')"
    using False z unfolding dctcp_avoidance_def Let_def n_def [symmetric] cc'_def [symmetric]
    by (simp add: unat_incr(2) [OF assms(1)])
  moreover have "unat (if n > 0 then ecn_reduce win (dw_ecn_rate cc') else if win + ?i > win then win + ?i else win) =
      dctcp_window (unat win) False False (unat ?a) (unat (c_ecnb stats)) e"
    using n0 e grow_window [of win ?i] unat_incr(1) [OF assms(1), of ?a]
    by (auto simp: dctcp_window_def unat_ecn_reduce Let_def)
  ultimately show ?thesis
    using False e by (intro exI conjI) (auto simp: cc'_def)
qed

lemma dctcp_slow_start_cases:
  assumes "lost = (c_drops stats > 0 \<or> cc_rexmits c > 0)" "slow = (dw_slowstart (cc_dctcp_win c) \<and> \<not> lost \<and> c_ecnb stats = 0)"
  shows "dctcp_slow_start c stats =
    (let cc = cc_dctcp_win c; win = dw_window cc in
     if slow then (if win + c_ackb stats > win then win + c_ackb stats else win, cc) else (win, cc\<lparr>dw_slowstart := False\<rparr>))"
proof -
  have no_loss: "c_drops stats = 0 \<and> cc_rexmits c = 0 \<longleftrightarrow> \<not> lost"
    by (simp add: assms(1) word_neq_0_conv [symmetric])
  have noslow: "\<not> dw_slowstart (cc_dctcp_win c) \<Longrightarrow> (cc_dctcp_win c)\<lparr>dw_slowstart := False\<rparr> = cc_dctcp_win c"
    by (cases "cc_dctcp_win c") simp
  show ?thesis
    using no_loss noslow assms(2) by (cases "dw_slowstart (cc_dctcp_win c)") (auto simp: dctcp_slow_start_def Let_def)
qed

lemma dctcp_core_ref:
  fixes cfg :: configuration and c :: connection and stats :: nicif_stats
  assumes win: "1400 \<le> unat (dw_window (cc_dctcp_win c))"
    and l: "lost = (c_drops stats > 0 \<or> cc_rexmits c > 0)" and s: "slow = (dw_slowstart (cc_dctcp_win c) \<and> \<not> lost \<and> c_ecnb stats = 0)"
    and e: "e = (if slow \<or> lost then unat (dw_ecn_rate (cc_dctcp_win c))
      else dctcp_ecn (unat (cc_dctcp_weight cfg)) (unat (dw_ecn_rate (cc_dctcp_win c))) (unat (c_ackb stats)) (unat (c_ecnb stats)))"
  shows "\<exists>win' cc'. (let (win, cc) = dctcp_slow_start c stats in
      if dw_slowstart cc then Inr (win, cc) else dctcp_avoidance cfg c stats win cc) = Inr (win', cc') \<and>
    unat win' = dctcp_window (unat (dw_window (cc_dctcp_win c))) slow lost (unat (c_ackb stats)) (unat (c_ecnb stats)) e \<and>
    dw_slowstart cc' = slow \<and> unat (dw_ecn_rate cc') = e"
proof (cases slow)
  case True
  then have "dw_slowstart (cc_dctcp_win c)" "\<not> lost" "c_ecnb stats = 0"
    using s by simp_all
  then show ?thesis
    using True e grow_window [of "dw_window (cc_dctcp_win c)" "c_ackb stats"]
    unfolding dctcp_slow_start_cases [OF l s] by (simp add: dctcp_window_def Let_def)
next
  case False
  have "(let (win, cc) = dctcp_slow_start c stats in
      if dw_slowstart cc then Inr (win, cc) else dctcp_avoidance cfg c stats win cc) =
    dctcp_avoidance cfg c stats (dw_window (cc_dctcp_win c)) ((cc_dctcp_win c)\<lparr>dw_slowstart := False\<rparr>)"
    using False unfolding dctcp_slow_start_cases [OF l s] by (simp add: Let_def)
  then show ?thesis
    using dctcp_avoidance_ref [OF win, of cfg c stats "(cc_dctcp_win c)\<lparr>dw_slowstart := False\<rparr>"] False
    unfolding l [symmetric] e by (cases lost) simp_all
qed

text \<open>
  C30: For a send buffer of at least one segment a round of window-based DCTCP returns and sets the
  window to the reference: halved after losses, cut by half the average share of marked bytes,
  else grown by the acknowledged bytes in slow start and by a segment per window after it,
  without overflow, and within one segment and the send buffer; the rate is a window per round
  trip, or what the link can carry.  Slow start ends at the first sign of congestion.  For a
  smaller send buffer the assertion on the window fails.
\<close>

theorem dctcp_win_update_ref:
  fixes cfg :: configuration and c :: connection and stats :: nicif_stats
  assumes win: "1400 \<le> unat (dw_window (cc_dctcp_win c))" and cfg: "tcp_link_bw cfg \<noteq> 0"
  defines "rt \<equiv> (if rtt stats = 0 then tcp_rtt_init cfg else rtt stats)"
  defines "lost \<equiv> c_drops stats > 0 \<or> cc_rexmits c > 0"
  defines "slow \<equiv> dw_slowstart (cc_dctcp_win c) \<and> \<not> lost \<and> c_ecnb stats = 0"
  defines "e \<equiv> (if slow \<or> lost then unat (dw_ecn_rate (cc_dctcp_win c))
      else dctcp_ecn (unat (cc_dctcp_weight cfg)) (unat (dw_ecn_rate (cc_dctcp_win c))) (unat (c_ackb stats)) (unat (c_ecnb stats)))"
  assumes rt: "rt \<noteq> 0" "unat rt * 1000 < 4294967296"
  shows "if 1400 \<le> unat (cn_tx_len c)
    then \<exists>c' w. dctcp_win_update cfg c stats = Inr c' \<and> unat (dw_window (cc_dctcp_win c')) = w \<and>
      w = min (unat (cn_tx_len c)) (max 1400
        (dctcp_window (unat (dw_window (cc_dctcp_win c))) slow lost (unat (c_ackb stats)) (unat (c_ecnb stats)) e)) \<and>
      unat (cc_rate c') = rate_ref (unat (tcp_link_bw cfg)) w (unat rt) \<and>
      dw_slowstart (cc_dctcp_win c') = slow \<and> unat (dw_ecn_rate (cc_dctcp_win c')) = e \<and>
      c' = c\<lparr>cc_rtt := rt, cc_rate := cc_rate c', cc_dctcp_win := cc_dctcp_win c', cc_rexmits := 0\<rparr>
    else dctcp_win_update cfg c stats = Inl Assert_Failed"
proof -
  obtain win1 cc1 where core: "(let (win, cc) = dctcp_slow_start c stats in
      if dw_slowstart cc then Inr (win, cc) else dctcp_avoidance cfg c stats win cc) = Inr (win1, cc1)"
    and w1: "unat win1 = dctcp_window (unat (dw_window (cc_dctcp_win c))) slow lost (unat (c_ackb stats)) (unat (c_ecnb stats)) e"
    and c1: "dw_slowstart cc1 = slow" "unat (dw_ecn_rate cc1) = e"
    using dctcp_core_ref [OF win lost_def [THEN meta_eq_to_obj_eq] slow_def [THEN meta_eq_to_obj_eq] e_def [THEN meta_eq_to_obj_eq]]
    by blast
  define w where "w = dctcp_win_limit win1 (cn_tx_len c)"
  have w: "unat w = min (unat (cn_tx_len c)) (max 1400 (unat win1))"
    by (simp add: w_def unat_limit)
  obtain r where r: "window_to_rate cfg w rt = Inr r" "unat r = rate_ref (unat (tcp_link_bw cfg)) (unat w) (unat rt)"
    using window_to_rate_ref [OF cfg rt] by blast
  have "dctcp_win_update cfg c stats =
    bind_res (let (win, cc) = dctcp_slow_start c stats in
      if dw_slowstart cc then Inr (win, cc) else dctcp_avoidance cfg c stats win cc) (\<lambda>(win, cc).
      bind_res (window_to_rate cfg (dctcp_win_limit win (cn_tx_len c)) rt) (\<lambda>r.
      if \<not> dctcp_win_limit win (cn_tx_len c) \<ge> CONF_MSS then Inl Assert_Failed
      else Inr (c\<lparr>cc_rtt := rt, cc_rate := r, cc_dctcp_win := cc\<lparr>dw_window := dctcp_win_limit win (cn_tx_len c)\<rparr>, cc_rexmits := 0\<rparr>)))"
    using win unfolding dctcp_win_update_def Let_def rt_def by (simp add: word_le_nat_alt case_prod_beta)
  then have "dctcp_win_update cfg c stats = (if \<not> w \<ge> CONF_MSS then Inl Assert_Failed
      else Inr (c\<lparr>cc_rtt := rt, cc_rate := r, cc_dctcp_win := cc1\<lparr>dw_window := w\<rparr>, cc_rexmits := 0\<rparr>))"
    unfolding core using r(1) by (simp add: w_def)
  moreover have "w \<ge> CONF_MSS \<longleftrightarrow> 1400 \<le> unat (cn_tx_len c)"
    using w by (simp add: word_le_nat_alt)
  ultimately show ?thesis
    using w w1 c1 r(2) by simp
qed

text \<open>A configuration and a connection with a window of two segments.\<close>

definition demo_cfg :: configuration where
  "demo_cfg = \<lparr>cfg_tcp_rxbuf_len = 8192, cfg_tcp_txbuf_len = 8192, tcp_rtt_init = 50, tcp_link_bw = 10, tcp_handshake_to = 10000,
     tcp_handshake_retries = 10, cfg_ip = 0x0A000001, cfg_ip_prefix = 24, cfg_routes = [], arp_to = 500, arp_to_max = 10000000,
     cc_algorithm = CONFIG_CC_DCTCP_WIN, cc_control_granularity = 50, cc_control_interval = 2, cc_rexmit_ints = 4,
     cc_dctcp_weight = 268435455, cc_dctcp_init = 10000, cc_dctcp_step = 10000, cc_dctcp_mimd = 0, cc_dctcp_min = 10000,
     cc_dctcp_minpkts = 0, cc_const_rate = 0, cc_timely_tlow = 30, cc_timely_thigh = 150, cc_timely_step = 10000, cc_timely_init = 10000,
     cc_timely_alpha = 85899345, cc_timely_beta = 3435973836, cc_timely_min_rtt = 11, cc_timely_min_rate = 10000, cfg_kni = False\<rparr>"

definition demo_cn :: connection where
  "demo_cn = \<lparr>cn_opaque = 0, cn_ctx = 0, app_next = 0, cn_db_id = 0, cn_rx_handle = \<lparr>ph_base = 0, ph_len = 0\<rparr>, cn_tx_handle = \<lparr>ph_base = 0, ph_len = 0\<rparr>,
     cn_rx_buf = 0, cn_tx_buf = 0, cn_rx_len = 8192, cn_tx_len = 8192, cn_remote_mac = 0, cn_remote_ip = 0x0A000002, cn_local_ip = 0x0A000001,
     cn_remote_port = 80, cn_local_port = 9000, cn_status = CONN_OPEN, cn_remote_seq = 0, cn_local_seq = 0, cn_syn_ts = 0, cn_timeout = 0,
     to_attempts = 0, to_armed = False, cc_last_ts = 0, cc_rtt = 50, cc_last_drops = 0, cc_last_acks = 0, cc_last_ackb = 0, cc_last_ecnb = 0,
     cc_rate = 0, cc_rexmits = 0, cc_dctcp_win = \<lparr>dw_ecn_rate = 0, dw_window = 2800, dw_slowstart = True\<rparr>,
     cc_timely = \<lparr>rtt_prev = 0, rtt_diff = 0, hai_cnt = 0, tm_act_rate = 0, tm_last_ts = 0, tm_slowstart = True\<rparr>,
     cc_dctcp_rate = \<lparr>unproc_acks = 0, unproc_ackb = 0, unproc_ecnb = 0, unproc_drops = 0, dr_ecn_rate = 0, dr_act_rate = 0, dr_slowstart = True\<rparr>,
     cnt_tx_pending = 0, ts_tx_pending = 0, cc_next = 0, ht_next = 0, comp_next = 0, comp_notify_fd = -1, comp_status = 0, comp_ptr = 0, cn_flow_id = 0, cn_fn_core = 0,
     cn_flags = 0, cn_flow_group = 0\<rparr>"

theorem dctcp_win_update_ref_witness:
  "\<exists>c'. dctcp_win_update demo_cfg demo_cn \<lparr>c_drops = 0, c_acks = 2, c_ackb = 2800, c_ecnb = 0, txp = True, rtt = 40\<rparr> = Inr c' \<and>
     unat (dw_window (cc_dctcp_win c')) = 5600 \<and> unat (cc_rate c') = 1120000"
proof -
  let ?s = "\<lparr>c_drops = 0, c_acks = 2, c_ackb = 2800, c_ecnb = 0, txp = True, rtt = 40\<rparr> :: nicif_stats"
  have "1400 \<le> unat (dw_window (cc_dctcp_win demo_cn))" "tcp_link_bw demo_cfg \<noteq> 0"
    "(if rtt ?s = 0 then tcp_rtt_init demo_cfg else rtt ?s) \<noteq> 0" "unat (if rtt ?s = 0 then tcp_rtt_init demo_cfg else rtt ?s) * 1000 < 4294967296"
    by (simp_all add: demo_cn_def demo_cfg_def)
  from dctcp_win_update_ref [OF this] show ?thesis
    by (auto simp: demo_cn_def demo_cfg_def dctcp_window_def rate_ref_def)
qed

section \<open>The control loop\<close>

definition cc_list :: "'a cc_state_scheme \<Rightarrow> u64 list \<Rightarrow> bool" where
  "cc_list st xs \<longleftrightarrow> path 0 (\<lambda>p. cc_next (conns st p)) (cc_conns st) xs \<and> distinct xs"

lemma path_nth:
  "path nil nxt h xs \<Longrightarrow> i < length xs \<Longrightarrow> nxt (xs ! i) = (if Suc i < length xs then xs ! Suc i else nil)"
proof (induction xs arbitrary: h i)
  case (Cons x xs)
  then show ?case
    by (cases i; cases xs) auto
qed simp

lemma cc_succ_nth:
  assumes "cc_list st xs" "i < length xs"
  shows "cc_succ st (xs ! i) = xs ! (Suc i mod length xs)"
proof -
  have p: "path 0 (\<lambda>p. cc_next (conns st p)) (cc_conns st) xs"
    using assms(1) by (simp add: cc_list_def)
  have "xs ! 0 = cc_conns st" if "xs \<noteq> []"
    using path_head [OF p] that by (simp add: hd_conv_nth)
  moreover have "xs ! Suc i \<noteq> 0" if "Suc i < length xs"
    using path_inval [OF p] that nth_mem [OF that] by metis
  moreover have "Suc i mod length xs = 0" "xs \<noteq> []" if "\<not> Suc i < length xs"
  proof -
    have "Suc i = length xs"
      using that assms(2) by simp
    then show "Suc i mod length xs = 0" "xs \<noteq> []"
      by auto
  qed
  ultimately show ?thesis
    using path_nth [OF p assms(2)] by (cases "Suc i < length xs") (simp_all add: cc_succ_def)
qed

text \<open>A round for one connection leaves the list and all other connections alone.\<close>

lemma dctcp_win_update_next: "dctcp_win_update cfg c stats = Inr c' \<Longrightarrow> cc_next c' = cc_next c"
  by (auto simp: dctcp_win_update_def Let_def bind_res_Inr split: if_splits prod.splits)

lemma dctcp_rate_update_next: "dctcp_rate_update cfg c stats ts = Inr c' \<Longrightarrow> cc_next c' = cc_next c"
  unfolding dctcp_rate_update_def Let_def case_prod_beta by (auto split: if_split_asm)

lemma timely_update_next: "timely_update cfg c stats ts = Inr c' \<Longrightarrow> cc_next c' = cc_next c"
  unfolding timely_update_def Let_def case_prod_beta bind_res_def
  by (cases "rtt stats = 0"; cases "tm_last_ts (cc_timely c) \<noteq> 0 \<and> ts - tm_last_ts (cc_timely c) = 0")
    (auto split: sum.split_asm)

lemma cc_update_next: "cc_update cfg c stats ts = Inr c' \<Longrightarrow> cc_next c' = cc_next c"
  by (auto simp: cc_update_def const_rate_update_def dctcp_win_update_next dctcp_rate_update_next timely_update_next
      split: config_cc_algorithm.splits)

lemma issue_retransmits_frame:
  assumes "issue_retransmits env cfg tsc st p stats ts = Inr st'"
  shows "cc_conns st' = cc_conns st \<and> (\<forall>q. cc_next (conns st' q) = cc_next (conns st q)) \<and> (\<forall>q. q \<noteq> p \<longrightarrow> conns st' q = conns st q)"
  using assms by (auto simp: issue_retransmits_def Let_def bind_res_Inr upd_conn_def split: if_split_asm)

lemma cc_setrate_frame: "cc_conns (cc_setrate st c) = cc_conns st" "conns (cc_setrate st c) = conns st"
  by (simp_all add: cc_setrate_def split: option.split)

lemma cc_round_frame:
  assumes "cc_round env cfg tsc ts st p stats = Inr st'"
  shows "cc_conns st' = cc_conns st \<and> (\<forall>q. cc_next (conns st' q) = cc_next (conns st q)) \<and> (\<forall>q. q \<noteq> p \<longrightarrow> conns st' q = conns st q)"
proof -
  obtain c1 stats1 where d: "cc_stats_diff (conns st p) stats = (c1, stats1)"
    by fastforce
  let ?st = "st\<lparr>kstats := cc_count (kstats st) stats1\<rparr>"
  obtain c2 st2 where s: "cc_update cfg c1 stats1 ts = Inr c2" "issue_retransmits env cfg tsc (upd_conn ?st p c2) p stats1 ts = Inr st2"
    "st' = upd_conn (cc_setrate st2 (conns st2 p)) p ((conns st2 p)\<lparr>cc_last_ts := ts\<rparr>)"
    using assms by (auto simp: cc_round_def d Let_def bind_res_Inr)
  have "cc_next c2 = cc_next (conns st p)"
    using cc_update_next [OF s(1)] d by (auto simp: cc_stats_diff_def)
  then show ?thesis
    using issue_retransmits_frame [OF s(2)] by (auto simp: s(3) upd_conn_def cc_setrate_frame)
qed

lemma cc_step_frame:
  assumes "cc_step env cfg tsc ts st p = Inr st'"
  shows "cc_conns st' = cc_conns st \<and> (\<forall>q. cc_next (conns st' q) = cc_next (conns st q)) \<and> (\<forall>q. q \<noteq> p \<longrightarrow> conns st' q = conns st q)"
  using assms cc_round_frame [of env cfg tsc ts st p] by (auto simp: cc_step_def Let_def split: if_split_asm option.split_asm)

lemma cc_list_step: "cc_list st xs \<Longrightarrow> cc_step env cfg tsc ts st p = Inr st' \<Longrightarrow> cc_list st' xs"
  using cc_step_frame [of env cfg tsc ts st p st'] by (simp add: cc_list_def)

text \<open>One round for each connection of a list.\<close>

fun cc_steps :: "tas_env \<Rightarrow> configuration \<Rightarrow> u64 \<Rightarrow> u32 \<Rightarrow> u64 list \<Rightarrow> 'a cc_state_scheme \<Rightarrow> 'a cc_state_scheme result" where
  "cc_steps env cfg tsc ts [] st = Inr st"
| "cc_steps env cfg tsc ts (p # ps) st = bind_res (cc_step env cfg tsc ts st p) (cc_steps env cfg tsc ts ps)"

lemma cc_poll_loop_steps:
  assumes "cc_list st xs" "s < length xs" "j \<le> length xs"
  defines "N \<equiv> length xs"
  shows "cc_poll_loop env cfg tsc ts (xs ! s) k (xs ! ((s + j) mod N)) j st =
    bind_res (cc_steps env cfg tsc ts (map (\<lambda>i. xs ! ((s + i) mod N)) [j..<min (j + k) N]) st)
      (\<lambda>st. Inr (xs ! ((s + min (j + k) N) mod N), min (j + k) N, st))"
  using assms(1,3)
proof (induction k arbitrary: j st)
  case 0
  then show ?case
    by (simp add: N_def min_def)
next
  case (Suc k)
  have N: "0 < N"
    using assms(2) by (auto simp: N_def)
  show ?case
  proof (cases "j = N")
    case True
    then show ?thesis
      using assms(2) N by (simp add: N_def [symmetric])
  next
    case False
    then have j: "j < N"
      using Suc.prems(2) by (simp add: N_def)
    have "xs ! ((s + j) mod N) \<noteq> xs ! s" if "j \<noteq> 0"
    proof -
      have "(s + j) mod N \<noteq> s"
      proof (cases "s + j < N")
        case True
        then show ?thesis
          using that by simp
      next
        case False
        then have "(s + j) mod N = s + j - N"
          using j assms(2) mod_if [of "s + j" N] by (simp add: N_def)
        then show ?thesis
          using False j by simp
      qed
      then show ?thesis
        using Suc.prems(1) assms(2) N by (simp add: cc_list_def nth_eq_iff_index_eq N_def)
    qed
    then have n: "j = 0 \<or> xs ! ((s + j) mod N) \<noteq> xs ! s"
      by blast
    then have one: "cc_poll_loop env cfg tsc ts (xs ! s) (Suc k) (xs ! ((s + j) mod N)) j st =
        bind_res (cc_step env cfg tsc ts st (xs ! ((s + j) mod N)))
          (\<lambda>st'. cc_poll_loop env cfg tsc ts (xs ! s) k (cc_succ st' (xs ! ((s + j) mod N))) (Suc j) st')"
      by (simp only: cc_poll_loop.simps if_True)
    have succ: "cc_succ st' (xs ! ((s + j) mod N)) = xs ! ((s + Suc j) mod N)" if "cc_list st' xs" for st' :: "'a cc_state_scheme"
      using cc_succ_nth [OF that, of "(s + j) mod N"] N by (simp add: N_def mod_Suc_eq)
    have upt: "[j..<min (j + Suc k) N] = j # [Suc j..<min (Suc j + k) N]"
      using j by (simp add: upt_conv_Cons)
    show ?thesis
    proof (cases "cc_step env cfg tsc ts st (xs ! ((s + j) mod N))")
      case (Inl e)
      then show ?thesis
        unfolding one upt by simp
    next
      case (Inr st')
      then have l: "cc_list st' xs"
        by (rule cc_list_step [OF Suc.prems(1)])
      then show ?thesis
        using Suc.IH [OF l, of "Suc j"] j unfolding one upt by (simp add: Inr succ [OF l] N_def [symmetric])
    qed
  qed
qed

text \<open>
  The control loop serves the list of connections round robin: a poll makes one round for up
  to 128 connections, each at most once, starting where the last poll stopped and going on from
  the end of the list at its start, and remembers where to go on.
\<close>

theorem cc_poll_round_robin:
  assumes "cc_list st xs" "next_conn st = 0 \<or> next_conn st \<in> set xs"
  shows "if xs = [] then cc_poll env cfg tsc ts st = Inr (0, st\<lparr>cc_ts := ts\<rparr>)
    else \<exists>s < length xs. xs ! s = (if next_conn st = 0 then hd xs else next_conn st) \<and>
      cc_poll env cfg tsc ts st =
      bind_res (cc_steps env cfg tsc ts (take 128 (rotate s xs)) st)
        (\<lambda>st. Inr (min 128 (length xs), st\<lparr>next_conn := xs ! ((s + min 128 (length xs)) mod length xs), cc_ts := ts\<rparr>))"
proof (cases "xs = []")
  case True
  then show ?thesis
    using assms by (simp add: cc_poll_def cc_list_def)
next
  case False
  let ?N = "length xs" and ?c = "if next_conn st \<noteq> 0 then next_conn st else cc_conns st"
  have p: "path 0 (\<lambda>p. cc_next (conns st p)) (cc_conns st) xs"
    using assms(1) by (simp add: cc_list_def)
  then have h: "cc_conns st = hd xs" "0 \<notin> set xs"
    using path_head [OF p] path_inval [OF p] False by simp_all
  then have "?c \<in> set xs"
    using assms(2) False by auto
  then obtain s where s: "s < ?N" "xs ! s = ?c"
    by (auto simp: in_set_conv_nth)
  have v: "map (\<lambda>i. xs ! ((s + i) mod ?N)) [0..<min 128 ?N] = take 128 (rotate s xs)"
    by (rule nth_equalityI) (simp_all add: nth_rotate)
  have "?c \<noteq> 0"
    using \<open>?c \<in> set xs\<close> h(2) by metis
  then have "cc_poll env cfg tsc ts st = bind_res (cc_poll_loop env cfg tsc ts (xs ! s) 128 (xs ! ((s + 0) mod ?N)) 0 st)
      (\<lambda>(c, n, st). Inr (n, st\<lparr>next_conn := c, cc_ts := ts\<rparr>))"
    using s by (simp add: cc_poll_def Let_def)
  also have "\<dots> = bind_res (cc_steps env cfg tsc ts (take 128 (rotate s xs)) st)
        (\<lambda>st. Inr (min 128 ?N, st\<lparr>next_conn := xs ! ((s + min 128 ?N) mod ?N), cc_ts := ts\<rparr>))"
    using cc_poll_loop_steps [OF assms(1) s(1), of 0 env cfg tsc ts 128] by (simp add: v bind_res_def split: sum.split)
  finally show ?thesis
    using False s h(1) by auto
qed

section \<open>The list of connections\<close>

lemma cc_find_prev_path:
  assumes "path 0 (\<lambda>p. cc_next (cs p)) h (as @ x # p # bs)" "distinct (as @ x # p # bs)"
  shows "cc_find_prev cs p h = Some x"
  using assms
proof (induction as arbitrary: h)
  case Nil
  then show ?case
    by (subst cc_find_prev.simps) simp
next
  case (Cons a as)
  moreover have "cc_next (cs a) \<noteq> p"
    using Cons.prems by (cases as) auto
  ultimately show ?case
    by (subst cc_find_prev.simps) auto
qed

lemma path_remove:
  assumes "path nil nxt h (as @ x # p # bs)" "distinct (as @ x # p # bs)"
  shows "path nil (nxt(x := nxt p)) h (as @ x # bs)"
  using assms
proof (induction as arbitrary: h)
  case Nil
  then show ?case
    using path_upd_outside [of x bs nil nxt "nxt p" "nxt p"] by (auto simp: fun_upd_def)
qed auto

lemma cc_conn_init_cases:
  assumes "cc_conn_init cfg ts st p = Inr st'"
  obtains c where "st' = upd_conn (st\<lparr>cc_conns := p\<rparr>) p c" "cc_next c = cc_conns st"
  using assms
  by (cases "cc_algorithm cfg")
    (auto simp: cc_conn_init_def Let_def bind_res_Inr dctcp_win_init_def dctcp_rate_init_def timely_init_def const_rate_init_def)

lemma cc_conn_remove_ok:
  assumes l: "cc_list st xs" and n: "next_conn st = 0 \<or> next_conn st \<in> set xs" and p: "p \<in> set xs"
  shows "\<exists>st'. cc_conn_remove st p = Some (Inr st') \<and> cc_list st' (removeAll p xs) \<and>
    (next_conn st' = 0 \<or> next_conn st' \<in> set (removeAll p xs))"
proof -
  let ?nxt = "\<lambda>q. cc_next (conns st q)"
  obtain as bs where xs: "xs = as @ p # bs"
    using p by (auto dest: split_list)
  have path: "path 0 ?nxt (cc_conns st) (as @ p # bs)" and d: "distinct (as @ p # bs)" "p \<noteq> 0"
    using l path_inval [of 0 ?nxt "cc_conns st" xs] p by (auto simp: cc_list_def xs)
  have r: "removeAll p xs = as @ bs"
    using d by (simp add: xs removeAll_append)
  have "?nxt p = 0 \<or> ?nxt p \<in> set bs"
    using path_suffix [OF path] path_head [of 0 ?nxt "?nxt p" bs] by (auto split: if_splits)
  then have nx: "next_conn st' = 0 \<or> next_conn st' \<in> set (as @ bs)"
    if "next_conn st' = (if next_conn st = p then ?nxt p else next_conn st)" for st' :: "'a cc_state_scheme"
    using that n xs by auto
  show ?thesis
  proof (cases as rule: rev_cases)
    case Nil
    then have "cc_conns st = p"
      using path by simp
    then show ?thesis
      using path d nx [of "st\<lparr>next_conn := if next_conn st = p then ?nxt p else next_conn st, cc_conns := ?nxt p\<rparr>"] Nil
      unfolding r by (auto simp: cc_conn_remove_def Let_def cc_list_def)
  next
    case (snoc as' x)
    then have p': "path 0 ?nxt (cc_conns st) (as' @ x # p # bs)" and d': "distinct (as' @ x # p # bs)"
      using path d by simp_all
    have "cc_conns st \<noteq> p"
      using path_head [OF p'] d' by (cases as') auto
    moreover have "x \<noteq> 0"
      using path_inval [OF p'] by auto
    moreover define st1 where "st1 = (if next_conn st = p then st\<lparr>next_conn := ?nxt p\<rparr> else st)"
    moreover have s1: "conns st1 = conns st" "cc_conns st1 = cc_conns st"
      by (simp_all add: st1_def)
    ultimately have "cc_conn_remove st p = Some (Inr (upd_conn st1 x ((conns st x)\<lparr>cc_next := ?nxt p\<rparr>)))"
      using cc_find_prev_path [OF p' d'] unfolding cc_conn_remove_def Let_def st1_def [symmetric] by simp
    moreover have "(\<lambda>q. cc_next (((conns st)(x := (conns st x)\<lparr>cc_next := ?nxt p\<rparr>)) q)) = ?nxt(x := ?nxt p)"
      by auto
    then have "cc_list (upd_conn st1 x ((conns st x)\<lparr>cc_next := ?nxt p\<rparr>)) (as @ bs)"
      using path_remove [OF p' d'] d' snoc by (auto simp: cc_list_def upd_conn_def s1)
    ultimately show ?thesis
      using nx [of "upd_conn st1 x ((conns st x)\<lparr>cc_next := ?nxt p\<rparr>)"] unfolding r by (auto simp: st1_def upd_conn_def)
  qed
qed

text \<open>
  Registering a connection that is not in the list adds it to the front; removing one that is
  in the list returns and takes exactly it out, and the position of the next poll moves on if it
  was there.
\<close>

theorem cc_conn_list:
  assumes l: "cc_list st xs" and n: "next_conn st = 0 \<or> next_conn st \<in> set xs"
  shows "(p \<noteq> 0 \<and> p \<notin> set xs \<and> cc_conn_init cfg ts st p = Inr st1 \<longrightarrow> cc_list st1 (p # xs) \<and> next_conn st1 = next_conn st) \<and>
    (p \<in> set xs \<longrightarrow> (\<exists>st'. cc_conn_remove st p = Some (Inr st') \<and> cc_list st' (removeAll p xs) \<and>
      (next_conn st' = 0 \<or> next_conn st' \<in> set (removeAll p xs))))"
proof (intro conjI impI)
  assume p: "p \<noteq> 0 \<and> p \<notin> set xs \<and> cc_conn_init cfg ts st p = Inr st1"
  then obtain c where c: "st1 = upd_conn (st\<lparr>cc_conns := p\<rparr>) p c" "cc_next c = cc_conns st"
    using cc_conn_init_cases by blast
  moreover have "path 0 (\<lambda>q. cc_next (((conns st)(p := c)) q)) (cc_conns st) xs = path 0 (\<lambda>q. cc_next (conns st q)) (cc_conns st) xs"
    using p by (intro path_cong) auto
  ultimately show "cc_list st1 (p # xs)" "next_conn st1 = next_conn st"
    using l p by (auto simp: cc_list_def upd_conn_def)
next
  assume "p \<in> set xs"
  then show "\<exists>st'. cc_conn_remove st p = Some (Inr st') \<and> cc_list st' (removeAll p xs) \<and>
      (next_conn st' = 0 \<or> next_conn st' \<in> set (removeAll p xs))"
    by (rule cc_conn_remove_ok [OF l n])
qed

text \<open>Two connections at addresses 64 and 128; the next poll starts at the second.\<close>

definition demo_cc :: cc_state where
  "demo_cc = \<lparr>sp_tas = demo_tas, conns = (\<lambda>p. demo_cn\<lparr>cn_status := CONN_CLOSED, cc_next := if p = 64 then 128 else 0\<rparr>), cc_conns = 64,
     next_conn = 128, cc_ts = 0, kstats = \<lparr>ks_drops = 0, ks_kernel_rexmit = 0, ks_ecn_marked = 0, ks_acks = 0\<rparr>\<rparr>"

lemma demo_cc_list: "cc_list demo_cc [64, 128]" "next_conn demo_cc = 128"
  by (simp_all add: cc_list_def demo_cc_def)

theorem cc_poll_round_robin_witness:
  "cc_poll demo_tenv demo_cfg 0 1000 demo_cc = Inr (2, demo_cc\<lparr>next_conn := 128, cc_ts := 1000\<rparr>)"
proof -
  let ?xs = "[64, 128] :: u64 list"
  obtain s where s: "s < length ?xs" "?xs ! s = (if next_conn demo_cc = 0 then hd ?xs else next_conn demo_cc)"
    "cc_poll demo_tenv demo_cfg 0 1000 demo_cc = bind_res (cc_steps demo_tenv demo_cfg 0 1000 (take 128 (rotate s ?xs)) demo_cc)
      (\<lambda>st. Inr (min 128 (length ?xs), st\<lparr>next_conn := ?xs ! ((s + min 128 (length ?xs)) mod length ?xs), cc_ts := 1000\<rparr>))"
    using cc_poll_round_robin [OF demo_cc_list(1), of demo_tenv demo_cfg 0 1000] demo_cc_list(2) by (simp only: list.distinct if_False) auto
  then have "s = 1"
    using demo_cc_list(2) by (cases s) auto
  then show ?thesis
    using s(3) mod_if [of "Suc (Suc (Suc 0))" "Suc (Suc 0)"] by (simp add: cc_step_def demo_cc_def rotate1_def)
qed

theorem cc_conn_list_witness:
  "\<exists>st. cc_conn_remove demo_cc 128 = Some (Inr st) \<and> cc_list st [64] \<and> (next_conn st = 0 \<or> next_conn st = 64)"
  using cc_conn_list [OF demo_cc_list(1), of 128] demo_cc_list(2) by simp

end
