(* ===== verification/Slow_State.thy ===== *)
theory Slow_State
  imports Timeouts_Spec Cc_Spec
begin

text \<open>
  The state of the slow path, \<^verbatim>\<open>tas/slow\<close>: the global variables of its files and the heap objects
  they point to, one store for each type.  Congestion control has its part of the state in
  \<^verbatim>\<open>cc_state\<close>.  The mutex-protected queue of \<^verbatim>\<open>include/utils_nbqueue.h\<close>, through which completed
  requests reach the TCP code, links the connections it holds.
\<close>

section \<open>State\<close>

record arp_entry =
  ae_status :: int
  ae_ip :: u32
  ae_mac :: "u8 list"
  ae_compl :: u64
  ae_timeout :: u32
  ae_prev :: u64
  ae_next :: u64

record routing_table_entry =
  rt_dest_ip :: u32
  rt_dest_mask :: u32
  rt_next_hop :: u32

text \<open>A slot of the backlog; \<^verbatim>\<open>backlog_ptrs[i]\<close> always points to the \<open>i\<close>-th slot.\<close>

record backlog_slot =
  bl_buf :: buf
  bl_len :: u16

record listener =
  ls_opaque :: u64
  ls_ctx :: u64
  ls_app_next :: u64
  backlog_len :: u32
  backlog_pos :: u32
  backlog_used :: u32
  backlog_slots :: "u32 \<Rightarrow> backlog_slot"
  backlog_cores :: "u32 \<Rightarrow> u32"
  backlog_fgs :: "u32 \<Rightarrow> u16"
  wait_conns :: u64
  ls_port :: u16
  ls_flags :: u32

record listen_multi =
  lm_num :: u64
  lm_ls :: "u64 \<Rightarrow> u64"

record app_context =
  cx_app :: u64
  kin_base :: u64
  kin_len :: u32
  kin_pos :: u32
  kout_base :: u64
  kout_len :: u32
  kout_pos :: u32
  doorbell_id :: u32
  cx_evfd :: int
  cx_last_ts :: u64
  cx_next :: u64

record application =
  app_contexts :: u64
  app_conns :: u64
  app_listeners :: u64

record slowpath = cc_state +
  timeout_mgr :: timeout_manager
  pm_free :: "packetmem_handle list"
  flowids :: flow_ids
  arp_entries :: "u64 \<Rightarrow> arp_entry"
  arp_table :: u64
  routing_table :: "routing_table_entry list"
  conn_async_q :: u64
  tcp_hashtable :: "u32 \<Rightarrow> u64"
  ports :: "u16 \<Rightarrow> u64"
  port_eph_hint :: u16
  tcp_rng :: utils_rng
  listener_objs :: "u64 \<Rightarrow> listener"
  multi_objs :: "u64 \<Rightarrow> listen_multi"
  ctx_objs :: "u64 \<Rightarrow> app_context"
  app_objs :: "u64 \<Rightarrow> application"

text \<open>
  What an operation reads from its surroundings: the configuration, the cycle counter, its
  calibration and the time the main loop has taken from it, the hash of the flow table.
\<close>

record slow_env =
  se_tas :: tas_env
  se_cfg :: configuration
  se_crc :: tuple_hash
  se_tsc :: u64
  se_tsc_per_us :: u64
  se_cur_ts :: u32

abbreviation (input) TO_ARP_REQ :: u8 where "TO_ARP_REQ \<equiv> 0"
abbreviation (input) TO_TCP_HANDSHAKE :: u8 where "TO_TCP_HANDSHAKE \<equiv> 1"
abbreviation (input) TO_TCP_RETRANSMIT :: u8 where "TO_TCP_RETRANSMIT \<equiv> 2"
abbreviation (input) TO_TCP_CLOSED :: u8 where "TO_TCP_CLOSED \<equiv> 3"

text \<open>The addresses of the timeouts inside an ARP entry and a connection.\<close>

abbreviation (input) ae_to :: "u64 \<Rightarrow> u64" where "ae_to ae \<equiv> ae + 32"
abbreviation (input) conn_to :: "u64 \<Rightarrow> u64" where "conn_to c \<equiv> c + 120"

definition upd_ae :: "slowpath \<Rightarrow> u64 \<Rightarrow> (arp_entry \<Rightarrow> arp_entry) \<Rightarrow> slowpath" where
  "upd_ae st p f = st\<lparr>arp_entries := (arp_entries st)(p := f (arp_entries st p))\<rparr>"

definition mod_conn :: "slowpath \<Rightarrow> u64 \<Rightarrow> (connection \<Rightarrow> connection) \<Rightarrow> slowpath" where
  "mod_conn st c f = upd_conn st c (f (conns st c))"

definition to_arm :: "slow_env \<Rightarrow> slowpath \<Rightarrow> u64 \<Rightarrow> u32 \<Rightarrow> u8 \<Rightarrow> slowpath run" where
  "to_arm e st to us type =
     bind_run (util_timeout_arm (timeout_mgr st) to us type (se_tsc e) (se_tsc_per_us e))
       (\<lambda>m. Some (Inr (st\<lparr>timeout_mgr := m\<rparr>)))"

definition to_disarm :: "slowpath \<Rightarrow> u64 \<Rightarrow> slowpath result" where
  "to_disarm st to = bind_res (util_timeout_disarm (timeout_mgr st) to) (\<lambda>m. Inr (st\<lparr>timeout_mgr := m\<rparr>))"

section \<open>The queue of completed requests\<close>

definition nbqueue_enq :: "slowpath \<Rightarrow> u64 \<Rightarrow> slowpath" where
  "nbqueue_enq st el = (mod_conn st el (comp_next_update (\<lambda>_. conn_async_q st)))\<lparr>conn_async_q := el\<rparr>"

text \<open>The last element and the one before it.\<close>

partial_function (option) nbqueue_walk :: "(u64 \<Rightarrow> u64) \<Rightarrow> u64 \<Rightarrow> u64 \<Rightarrow> (u64 \<times> u64) option" where
  "nbqueue_walk nxt el el_p =
    (if el \<noteq> 0 \<and> nxt el \<noteq> 0 then nbqueue_walk nxt (nxt el) el else Some (el, el_p))"

text \<open>0 is the result for an empty queue.\<close>

definition nbqueue_deq :: "slowpath \<Rightarrow> (u64 \<times> slowpath) run" where
  "nbqueue_deq st =
    (if conn_async_q st = 0 then Some (Inr (0, st))
     else
       case nbqueue_walk (\<lambda>c. comp_next (conns st c)) (conn_async_q st) 0 of
         None \<Rightarrow> None
       | Some (el, el_p) \<Rightarrow>
           if comp_next (conns st el) \<noteq> 0 then Some (Inl Assert_Failed)
           else Some (Inr (el, if el_p \<noteq> 0 then mod_conn st el_p (comp_next_update (\<lambda>_. 0))
                               else st\<lparr>conn_async_q := 0\<rparr>)))"

lemma upd_ae_simps [simp]:
  "arp_entries (upd_ae st p f) = (arp_entries st)(p := f (arp_entries st p))"
  "conns (upd_ae st p f) = conns st" "sp_tas (upd_ae st p f) = sp_tas st"
  "timeout_mgr (upd_ae st p f) = timeout_mgr st" "conn_async_q (upd_ae st p f) = conn_async_q st"
  "arp_table (upd_ae st p f) = arp_table st" "routing_table (upd_ae st p f) = routing_table st"
  by (simp_all add: upd_ae_def)

lemma mod_conn_simps [simp]:
  "conns (mod_conn st c f) = (conns st)(c := f (conns st c))"
  "sp_tas (mod_conn st c f) = sp_tas st" "cc_conns (mod_conn st c f) = cc_conns st"
  "next_conn (mod_conn st c f) = next_conn st"
  "timeout_mgr (mod_conn st c f) = timeout_mgr st" "conn_async_q (mod_conn st c f) = conn_async_q st"
  "arp_entries (mod_conn st c f) = arp_entries st" "arp_table (mod_conn st c f) = arp_table st"
  "routing_table (mod_conn st c f) = routing_table st" "tcp_hashtable (mod_conn st c f) = tcp_hashtable st"
  "ports (mod_conn st c f) = ports st" "port_eph_hint (mod_conn st c f) = port_eph_hint st"
  "pm_free (mod_conn st c f) = pm_free st" "flowids (mod_conn st c f) = flowids st"
  "tcp_rng (mod_conn st c f) = tcp_rng st" "listener_objs (mod_conn st c f) = listener_objs st"
  "multi_objs (mod_conn st c f) = multi_objs st" "ctx_objs (mod_conn st c f) = ctx_objs st"
  "app_objs (mod_conn st c f) = app_objs st"
  by (simp_all add: mod_conn_def upd_conn_def)

lemma path_frame: "path nil nxt h xs \<Longrightarrow> (\<And>i. i \<in> set xs \<Longrightarrow> nxt' i = nxt i) \<Longrightarrow> path nil nxt' h xs"
  using path_cong [of xs nxt nxt'] by auto

text \<open>The queue holds the connections \<open>xs\<close>, the one enqueued last first.\<close>

definition async_queue :: "slowpath \<Rightarrow> u64 list \<Rightarrow> bool" where
  "async_queue st xs \<longleftrightarrow> path 0 (\<lambda>c. comp_next (conns st c)) (conn_async_q st) xs \<and> distinct xs"

lemma nbqueue_enq_queue:
  assumes "async_queue st xs" "c \<notin> set xs" "c \<noteq> 0"
  shows "async_queue (nbqueue_enq st c) (c # xs)"
  using assms path_insert_head [of 0 "\<lambda>c. comp_next (conns st c)" "conn_async_q st" xs c]
  by (simp add: async_queue_def nbqueue_enq_def) (auto elim: path_frame)

lemma nbqueue_walk_path:
  assumes "path 0 nxt el (xs @ [x])"
  shows "nbqueue_walk nxt el p = Some (x, last_or p xs)"
  using assms
proof (induction xs arbitrary: el p)
  case Nil
  then show ?case
    by (subst nbqueue_walk.simps) simp
next
  case (Cons y ys)
  then have "nxt el \<noteq> 0"
    by (cases ys) auto
  with Cons show ?case
    by (subst nbqueue_walk.simps) simp
qed

lemma path_cut:
  assumes "path nil nxt h (xs @ ys)" "distinct (xs @ ys)" "xs \<noteq> []"
  shows "path nil (nxt(last xs := nil)) h xs"
  using assms
proof (induction xs arbitrary: h)
  case (Cons x xs)
  then show ?case
    by (cases "xs = []") auto
qed simp

lemma nbqueue_deq_queue:
  assumes "async_queue st (xs @ [c])"
  obtains st' where "nbqueue_deq st = Some (Inr (c, st'))" "async_queue st' xs"
    "\<And>x. comp_next_update (\<lambda>_. 0) (conns st' x) = comp_next_update (\<lambda>_. 0) (conns st x)"
    "st' = st\<lparr>conns := conns st', conn_async_q := conn_async_q st'\<rparr>"
proof -
  let ?n = "\<lambda>c. comp_next (conns st c)"
  have p: "path 0 ?n (conn_async_q st) (xs @ [c])" "distinct (xs @ [c])"
    using assms by (simp_all add: async_queue_def)
  have h: "conn_async_q st \<noteq> 0" "?n c = 0"
    using p(1) path_last [OF p(1)] by (cases xs; simp)+
  have w: "nbqueue_walk ?n (conn_async_q st) 0 = Some (c, last_or 0 xs)"
    by (rule nbqueue_walk_path) (rule p(1))
  show thesis
  proof (cases "xs = []")
    case True
    have "st\<lparr>conn_async_q := 0\<rparr> = st\<lparr>conns := conns st, conn_async_q := 0\<rparr>"
      by (cases st) simp
    with True h w show thesis
      by (intro that [of "st\<lparr>conn_async_q := 0\<rparr>"]) (simp_all add: nbqueue_deq_def async_queue_def)
  next
    case False
    then have l: "last xs \<noteq> 0" "last_or 0 xs = last xs"
      using path_inval [OF p(1)] last_in_set [OF False] False by (metis Un_iff set_append, simp add: last_or_def)
    have "path 0 (?n(last xs := 0)) (conn_async_q st) xs"
      by (rule path_cut [OF p(1,2) False])
    then have "async_queue (mod_conn st (last xs) (comp_next_update (\<lambda>_. 0))) xs"
      using p(2) by (simp add: async_queue_def) (auto elim: path_frame)
    moreover have "mod_conn st (last xs) f = st\<lparr>conns := conns (mod_conn st (last xs) f), conn_async_q := conn_async_q st\<rparr>" for f
      by (cases st) (simp add: mod_conn_def upd_conn_def)
    ultimately show thesis
      using h w l by (intro that [of "mod_conn st (last xs) (comp_next_update (\<lambda>_. 0))"]) (simp_all add: nbqueue_deq_def)
  qed
qed

lemma nbqueue_deq_empty: "async_queue st [] \<Longrightarrow> nbqueue_deq st = Some (Inr (0, st))"
  by (simp add: async_queue_def nbqueue_deq_def)

end
