(* ===== verification/Timers.thy ===== *)
theory Timers
  imports Timeouts_Spec
begin

text \<open>
  What the clients of the timeout manager rely on: which timeouts are armed, with which type, and when
  they are due.  Arming and disarming always return and do not move other timeouts.
\<close>

unbundle bit_operations_syntax

locale timers =
  fixes armed :: "'m \<Rightarrow> ('p \<rightharpoonup> u8) \<Rightarrow> bool"
    and arm :: "'m \<Rightarrow> 'p \<Rightarrow> u32 \<Rightarrow> u8 \<Rightarrow> 'm run"
    and disarm :: "'m \<Rightarrow> 'p \<Rightarrow> 'm result"
    and valid :: "'p \<Rightarrow> bool"
    and due :: "'m \<Rightarrow> 'p \<Rightarrow> int"
    and from_now :: "u32 \<Rightarrow> int"
  assumes arm_law: "armed m A \<Longrightarrow> A p = None \<Longrightarrow> valid p \<Longrightarrow> us < 0x8000000 \<Longrightarrow>
      \<exists>m'. arm m p us ty = Some (Inr m') \<and> armed m' (A(p \<mapsto> ty AND 15)) \<and> due m' = (due m)(p := from_now us)"
    and disarm_law: "armed m A \<Longrightarrow> A p \<noteq> None \<Longrightarrow> \<exists>m'. disarm m p = Inr m' \<and> armed m' (A(p := None)) \<and> due m' = due m"
begin

text \<open>Arming a timeout that is armed already, after disarming it.\<close>

lemma rearm:
  assumes "armed m A" "A p \<noteq> None" "valid p" "us < 0x8000000"
  shows "\<exists>m1 m2. disarm m p = Inr m1 \<and> arm m1 p us ty = Some (Inr m2) \<and> armed m2 (A(p \<mapsto> ty AND 15)) \<and> due m2 = (due m)(p := from_now us)"
proof -
  obtain m1 where m1: "disarm m p = Inr m1" "armed m1 (A(p := None))" "due m1 = due m"
    using disarm_law [OF assms(1,2)] by blast
  obtain m2 where "arm m1 p us ty = Some (Inr m2)" "armed m2 (A(p \<mapsto> ty AND 15))" "due m2 = (due m1)(p := from_now us)"
    using arm_law [OF m1(2) _ assms(3,4), of ty] by auto
  with m1(1,3) show ?thesis
    by auto
qed

end

definition to_armed_map :: "timeout_manager \<Rightarrow> (u64 \<rightharpoonup> u8) \<Rightarrow> bool" where
  "to_armed_map m A \<longleftrightarrow> (\<exists>xs ys. to_lists m xs ys \<and>
     A = (\<lambda>p. if p \<in> set xs \<union> set ys then Some (ucast (drop_bit 28 (ttype m p))) else None))"

text \<open>The time a timeout is due, on the 28-bit clock of the manager, and the time that is \<open>us\<close> from now.\<close>

definition to_due :: "timeout_manager \<Rightarrow> u64 \<Rightarrow> int" where
  "to_due m p = us_val (ttype m p)"

definition us_from :: "u64 \<Rightarrow> u64 \<Rightarrow> u32 \<Rightarrow> int" where
  "us_from tsc tpu us = (us_val (timestamp_us tsc tpu) + uint us) mod 268435456"

lemma us_val_armed: "us_val (push_bit 28 (ucast (ty :: u8)) OR ((timestamp_us tsc tpu AND TIMEOUT_MASK) + us AND TIMEOUT_MASK)) = us_from tsc tpu us"
  unfolding timeout_type_fields(1) us_from_def us_val_def [of "_ + _"] uint_word_ariths uint_mask28 by (simp add: mod_mod_cancel)

lemma to_armed_mapI:
  assumes "to_lists m xs ys" "\<And>p. A p = (if p \<in> set xs \<union> set ys then Some (ucast (drop_bit 28 (ttype m p))) else None)"
  shows "to_armed_map m A"
  using assms unfolding to_armed_map_def by blast

lemma armed_init: "to_armed_map (util_timeout_init objs) (\<lambda>_. None)"
  by (rule to_armed_mapI [of _ "[]" "[]"]) (simp_all add: to_lists_def util_timeout_init_def dlist_empty)

lemma armed_arm:
  assumes A: "to_armed_map m A" and to: "A to = None" "to \<noteq> 0" and us: "us < 0x8000000"
  shows "\<exists>m'. util_timeout_arm m to us type tsc tpu = Some (Inr m') \<and> to_armed_map m' (A(to \<mapsto> type AND 15)) \<and>
    to_due m' = (to_due m)(to := us_from tsc tpu us)"
proof -
  let ?c = "timestamp_us tsc tpu AND TIMEOUT_MASK :: u32"
  obtain xs ys where l: "to_lists m xs ys"
    and Aeq: "A = (\<lambda>p. if p \<in> set xs \<union> set ys then Some (ucast (drop_bit 28 (ttype m p))) else None)"
    using A by (auto simp: to_armed_map_def)
  define X where "X = dropWhile (\<lambda>p. us_rel (timestamp_us tsc tpu) (ttype m p) \<le> 0) xs"
  define Y where "Y = ys @ takeWhile (\<lambda>p. us_rel (timestamp_us tsc tpu) (ttype m p) \<le> 0) xs"
  obtain m1 where m1: "move_due_timeouts m ?c = Some m1" "ttype m1 = ttype m" "to_lists m1 X Y"
    using move_due_timeouts_lists [OF l, of "timestamp_us tsc tpu"] by (auto simp: X_def Y_def)
  have XY: "set X \<union> set Y = set xs \<union> set ys"
    unfolding X_def Y_def using set_append [of "takeWhile _ xs" "dropWhile _ xs"]
    by (metis (no_types, lifting) Un_commute set_append sup_left_commute takeWhile_dropWhile_id)
  define as where "as = rev (dropWhile (\<lambda>p. timeout_rel_time ?c (timeout_objs m1 p) > us) (rev X))"
  obtain bs where X: "X = as @ bs"
    using takeWhile_dropWhile_id [of "\<lambda>p. timeout_rel_time ?c (timeout_objs m1 p) > us" "rev X"]
    unfolding as_def by (metis rev_append rev_rev_ident)
  have walk: "arm_walk m1 ?c us (timeouts_last m1) = Some (last_or 0 as)"
    using m1(3) arm_walk_last [of m1 X 0 ?c us] by (simp add: to_lists_def dlist_def as_def)
  have "to \<notin> set (as @ bs @ Y)"
    using to(1) XY X by (auto simp: Aeq split: if_splits)
  note ins = arm_insert_lists [OF m1(3) [unfolded X] to(2) this, of us type ?c]
  have t: "ucast (drop_bit 28 (push_bit 28 (ucast type) OR ((?c + us) AND TIMEOUT_MASK) :: u32)) = type AND 15"
    unfolding timeout_type_fields(2) by (rule bit_word_eqI) (auto simp: bit_simps)
  have s: "set (as @ to # bs) \<union> set Y = insert to (set xs \<union> set ys)"
    using XY X by auto
  have "to_armed_map (arm_insert m1 to us type ?c (last_or 0 as)) (A(to \<mapsto> type AND 15))"
  proof (rule to_armed_mapI [OF ins(1)])
    show "(A(to \<mapsto> type AND 15)) p = (if p \<in> set (as @ to # bs) \<union> set Y
      then Some (ucast (drop_bit 28 (ttype (arm_insert m1 to us type ?c (last_or 0 as)) p))) else None)" for p
      unfolding s ins(2) [THEN fun_cong, of p] using t m1(2) by (simp add: Aeq fun_eq_iff)
  qed
  moreover have "to_due (arm_insert m1 to us type ?c (last_or 0 as)) = (to_due m)(to := us_from tsc tpu us)"
    using us_val_armed [of type tsc tpu us] by (simp add: to_due_def fun_eq_iff ins(2) [THEN fun_cong] m1(2) [THEN fun_cong])
  ultimately show ?thesis
    using walk us m1(1) by (simp add: util_timeout_arm_def util_timeout_arm_ts_def Let_def linorder_not_le [symmetric])
qed

lemma armed_disarm:
  assumes A: "to_armed_map m A" and to: "A to \<noteq> None"
  shows "\<exists>m'. util_timeout_disarm m to = Inr m' \<and> to_armed_map m' (A(to := None)) \<and> to_due m' = to_due m"
proof -
  obtain xs ys where l: "to_lists m xs ys"
    and Aeq: "A = (\<lambda>p. if p \<in> set xs \<union> set ys then Some (ucast (drop_bit 28 (ttype m p))) else None)"
    using A by (auto simp: to_armed_map_def)
  have "to \<in> set xs \<union> set ys" and d: "distinct (xs @ ys)"
    using to l by (auto simp: Aeq to_lists_def split: if_splits)
  then consider as bs where "xs = as @ to # bs" | as bs where "ys = as @ to # bs"
    by (auto dest: split_list)
  then show ?thesis
  proof cases
    case 1
    then obtain m' where m': "util_timeout_disarm m to = Inr m'" "to_lists m' (as @ bs) ys" "ttype m' = ttype m"
      using util_timeout_disarm_pending l by blast
    then show ?thesis
      using 1 d by (auto intro!: to_armed_mapI [OF m'(2)] simp: Aeq fun_eq_iff to_due_def)
  next
    case 2
    then obtain m' where m': "util_timeout_disarm m to = Inr m'" "to_lists m' xs (as @ bs)" "ttype m' = ttype m"
      using util_timeout_disarm_due l by blast
    then show ?thesis
      using 2 d by (auto intro!: to_armed_mapI [OF m'(2)] simp: Aeq fun_eq_iff to_due_def)
  qed
qed

interpretation util_timers: timers to_armed_map "\<lambda>m to us ty. util_timeout_arm m to us ty tsc tpu" util_timeout_disarm "\<lambda>p. p \<noteq> 0"
    to_due "us_from tsc tpu"
  using armed_arm armed_disarm by unfold_locales auto

end
