(* ===== verification/Kernel_Tx.thy ===== *)
theory Kernel_Tx
  imports Ktx_Queue
begin

text \<open>
  How the slow path sends a packet of its own: it allocates an entry of the kernel transmit
  queue, writes the packet into the buffer of the entry and sends it.  Buffers do not overlap
  with each other or with the queue, so what waits in the queue is a list of packets.
\<close>

unbundle bit_operations_syntax

text \<open>The writes to the buffer, each at an offset.\<close>

type_synonym writes = "(nat \<times> u8 list) list"

fun mem_puts :: "mem \<Rightarrow> u64 \<Rightarrow> writes \<Rightarrow> mem" where
  "mem_puts m a [] = m"
| "mem_puts m a ((k, bs) # ws) = mem_puts (mem_put m a k bs) a ws"

definition kernel_tx :: "tas_env \<Rightarrow> u64 \<Rightarrow> tas \<Rightarrow> u16 \<Rightarrow> writes \<Rightarrow> (int \<times> tas) result" where
  "kernel_tx env tsc t len ws =
    bind_res (nicif_tx_alloc t len) (\<lambda>(r, t).
    case r of
      None \<Rightarrow> Inr (-1, t)
    | Some (addr, new_tail) \<Rightarrow>
        bind_res (nicif_tx_send env tsc (set_shm t (mem_puts (shm t) addr ws)) new_tail False) (\<lambda>t. Inr (0, t)))"

section \<open>Writes that do not meet\<close>

definition within :: "nat \<Rightarrow> writes \<Rightarrow> bool" where
  "within n ws \<longleftrightarrow> (\<forall>(k, bs) \<in> set ws. k + length bs \<le> n)"

lemma within_simps [simp]: "within n []" "within n ((k, bs) # ws) \<longleftrightarrow> k + length bs \<le> n \<and> within n ws"
  by (auto simp: within_def)

lemma mem_puts_outside: "within n ws \<Longrightarrow> n \<le> unat (x - a) \<Longrightarrow> mem_puts m a ws x = m x"
  by (induction ws arbitrary: m rule: mem_puts.induct) (auto simp: mem_put_def Let_def)

lemma mem_put_apart: "k + length bs \<le> n \<Longrightarrow> n \<le> unat (x - a) \<Longrightarrow> mem_put m a k bs x = m x"
  by (auto simp: mem_put_def Let_def)

lemma mem_put_commute:
  assumes "\<And>x. unat (x - a) < n \<Longrightarrow> n' \<le> unat (x - a')" "k + length bs \<le> n" "k' + length bs' \<le> n'"
  shows "mem_put (mem_put m a k bs) a' k' bs' = mem_put (mem_put m a' k' bs') a k bs"
proof
  fix x
  show "mem_put (mem_put m a k bs) a' k' bs' x = mem_put (mem_put m a' k' bs') a k bs x"
    using assms(1) [of x] assms(2,3) by (cases "unat (x - a) < n") (auto simp: mem_put_def Let_def)
qed

lemma mem_puts_commute:
  assumes "\<And>x. unat (x - a) < n \<Longrightarrow> n' \<le> unat (x - a')" "k + length bs \<le> n" "within n' ws"
  shows "mem_puts (mem_put m a k bs) a' ws = mem_put (mem_puts m a' ws) a k bs"
  using assms(3)
proof (induction ws arbitrary: m)
  case (Cons w ws)
  obtain k' bs' where [simp]: "w = (k', bs')"
    by fastforce
  have "mem_put (mem_put m a k bs) a' k' bs' = mem_put (mem_put m a' k' bs') a k bs"
    by (rule mem_put_commute [OF assms(1,2)]) (use Cons.prems in auto)
  then show ?case
    using Cons by simp
qed simp

text \<open>The bytes of a buffer depend on its bytes before and the writes to it.\<close>

lemma mem_puts_view:
  assumes "\<And>i. i < n \<Longrightarrow> mem_view m a i = mem_view m' a i" "i < n" "n \<le> 18446744073709551616"
  shows "mem_view (mem_puts m a ws) a i = mem_view (mem_puts m' a ws) a i"
  using assms
proof (induction ws arbitrary: m m' rule: mem_puts.induct)
  case (2 m0 a0 k bs ws)
  show ?case
    unfolding mem_puts.simps by (rule 2) (use 2 in \<open>auto simp: mem_view_put\<close>)
qed simp

section \<open>The packets of the queue\<close>

definition tx_bufs_apart :: "tas \<Rightarrow> bool" where
  "tx_bufs_apart t \<longleftrightarrow> (\<forall>i < txq_len t. \<forall>x. unat (x - txq_bufs t 0 i) < 1536 \<longrightarrow>
     64 * unat (txq_len t) \<le> unat (x - txq_base t 0) \<and> (\<forall>j < txq_len t. j \<noteq> i \<longrightarrow> 1536 \<le> unat (x - txq_bufs t 0 j)))"

text \<open>The entry that holds message \<open>k\<close>.\<close>

definition msg_slot :: "tas \<Rightarrow> ktx_msg list \<Rightarrow> nat \<Rightarrow> nat" where
  "msg_slot t ms k = (unat (txq_tail t 0) + (unat (txq_len t) - length ms) + k) mod unat (txq_len t)"

fun msg_in_buf :: "ktx_msg \<Rightarrow> u64 \<Rightarrow> bool" where
  "msg_in_buf (Ktx_Packet a l) b \<longleftrightarrow> a = b \<and> l \<le> 1536"
| "msg_in_buf (Ktx_Packet_Nots a l) b \<longleftrightarrow> a = b \<and> l \<le> 1536"
| "msg_in_buf _ b \<longleftrightarrow> True"

definition outbox :: "tas_env \<Rightarrow> tas \<Rightarrow> ktx_msg list \<Rightarrow> bool" where
  "outbox env t ms \<longleftrightarrow> ktx_queue env t 0 ms \<and> tx_bufs_apart t \<and>
     (\<forall>k < length ms. msg_in_buf (ms ! k) (txq_bufs t 0 (of_nat (msg_slot t ms k))))"

text \<open>What the fast path will send.\<close>

fun msg_bytes :: "mem \<Rightarrow> ktx_msg \<Rightarrow> u8 list" where
  "msg_bytes m (Ktx_Packet a l) = map (mem_view m a) [0..<unat l]"
| "msg_bytes m (Ktx_Packet_Nots a l) = map (mem_view m a) [0..<unat l]"
| "msg_bytes m _ = []"

lemma entry_in_ring:
  fixes base x :: u64
  assumes "unat (x - entry_addr 64 base j) < 64" "j < n" "64 * n < 4294967296"
  shows "unat (x - base) < 64 * n"
proof -
  have j: "64 * j + 64 \<le> 64 * n"
    using assms(2) by simp
  define d where "d = x - entry_addr 64 base j"
  have "x - base = d + of_nat (64 * j)"
    by (simp add: entry_addr_def d_def)
  moreover have "unat (of_nat (64 * j) :: u64) = 64 * j"
    using j assms(3) by (simp add: unat_of_nat del: of_nat_mult)
  ultimately show ?thesis
    using unat_u64_add [of d "of_nat (64 * j)"] assms(1,3) j unfolding d_def [symmetric] by simp
qed

lemma apart_entry:
  assumes "tx_bufs_apart t" "64 * unat (txq_len t) < 4294967296" "i < txq_len t" "j < unat (txq_len t)"
  shows "unat (x - entry_addr 64 (txq_base t 0) j) < 64 \<Longrightarrow> 1536 \<le> unat (x - txq_bufs t 0 i)"
proof (rule ccontr)
  assume x: "unat (x - entry_addr 64 (txq_base t 0) j) < 64" "\<not> 1536 \<le> unat (x - txq_bufs t 0 i)"
  then have "64 * unat (txq_len t) \<le> unat (x - txq_base t 0)"
    using assms(1,3) by (auto simp: tx_bufs_apart_def)
  then show False
    using entry_in_ring [OF x(1) assms(4,2)] by simp
qed

lemma ktx_queue_writes:
  assumes q: "ktx_queue env t 0 ms" and a: "tx_bufs_apart t" and i: "i < txq_len t" and w: "within 1536 ws"
  shows "ktx_queue env (set_shm t (mem_puts (shm t) (txq_bufs t 0 i) ws)) 0 ms"
proof -
  let ?m = "mem_puts (shm t) (txq_bufs t 0 i) ws"
  have len: "64 * unat (txq_len t) < 4294967296"
    using q by (simp add: ktx_queue_def)
  have "ktx_get (txq_base t 0) ?m j = ktx_get (txq_base t 0) (shm t) j" if j: "j < unat (txq_len t)" for j
  proof -
    have "mem_view ?m (entry_addr 64 (txq_base t 0) j) k = mem_view (shm t) (entry_addr 64 (txq_base t 0) j) k" if "k < 64" for k
      unfolding mem_view_def
      by (rule mem_puts_outside [OF w]) (rule apart_entry [OF a len i j], use that in \<open>simp add: unat_of_nat\<close>)
    then show ?thesis
      unfolding ktx_get_def by (intro ktx_msg_cong) simp
  qed
  then have "ring_holds (unat (txq_len t)) (ktx_get (txq_base t 0)) ?m h u ms =
      ring_holds (unat (txq_len t)) (ktx_get (txq_base t 0)) (shm t) h u ms" for h u
    by (intro ring_holds_cong) blast
  with q show ?thesis
    unfolding ktx_queue_def by auto
qed

lemma ktx_write_packet:
  "ktx_write m a (Ktx_Packet addr len) = mem_put (mem_put (mem_put m a 0 (u64_bytes addr)) a 8 (u16_bytes len)) a 63 [1]"
  by (simp add: ktx_write_def)

lemma ktx_write_outside: "64 \<le> unat (x - a) \<Longrightarrow> ktx_write m a (Ktx_Packet addr len) x = m x"
  by (simp add: ktx_write_packet mem_put_apart [where n = 64] u16_bytes_def)

text \<open>Sending through a queue that is not full, step by step.\<close>

lemma kernel_tx_run:
  fixes len :: u16
  assumes q: "ktx_queue env t 0 ms" and a: "tx_bufs_apart t" and l: "length ms < unat (txq_len t)" and ws: "within 1536 ws"
    and ok: "evfd_write_ok env"
  defines "i \<equiv> txq_tail t 0"
  defines "t2 \<equiv> (set_shm t (ktx_write (mem_puts (shm t) (txq_bufs t 0 i) ws) (entry_addr 64 (txq_base t 0) (unat i))
      (Ktx_Packet (txq_bufs t 0 i) len)))\<lparr>txq_tail := (txq_tail t)(0 := if i + 1 = txq_len t then i + 1 - txq_len t else i + 1)\<rparr>"
  shows "\<exists>k v. kernel_tx env tsc t len ws =
      Inr (0, t2\<lparr>kctx := (kctx t)(0 := (kctx t 0)\<lparr>ac_last_ts := k\<rparr>), evfd_writes := evfd_writes t @ v\<rparr>)"
    and "ktx_queue env t2 0 (ms @ [Ktx_Packet (txq_bufs t 0 i) len])" and "i < txq_len t"
proof -
  let ?b = "txq_bufs t 0 i" and ?a = "entry_addr 64 (txq_base t 0) (unat i)"
  define opq where "opq = (if i + 1 = txq_len t then i + 1 - txq_len t else i + 1)"
  have wf: "ktx_wf (Ktx_Packet ?b len)"
    by (simp add: ktx_wf_def)
  note enq = ktx_queue_enqueue [OF q l wf, unfolded unsigned_0, folded i_def]
  have try_alloc: "ktx_try_alloc t 0 = Some (?a, i, opq)"
    unfolding opq_def by (rule enq(1))
  show il: "i < txq_len t"
    by (rule enq(3))
  have q': "ktx_queue env (set_shm t (mem_puts (shm t) ?b ws)) 0 ms"
    by (rule ktx_queue_writes [OF q a il ws])
  show "ktx_queue env t2 0 (ms @ [Ktx_Packet ?b len])"
    using ktx_queue_enqueue(2) [OF q' _ wf, unfolded set_shm_simps unsigned_0] l unfolding t2_def i_def by simp
  have n: "unat i < unat (txq_len t)" "64 * unat (txq_len t) < 4294967296"
    using il q by (simp_all add: word_less_nat_alt ktx_queue_def)
  have dis: "unat (x - ?a) < 64 \<Longrightarrow> 1536 \<le> unat (x - ?b)" for x
    by (rule apart_entry [OF a n(2) il n(1)])
  let ?m1 = "mem_put (mem_put (shm t) ?a 0 (u64_bytes ?b)) ?a 8 (u16_bytes len)"
  have alloc: "nicif_tx_alloc t len = Inr (Some (?b, opq), set_shm t ?m1)"
    using il by (simp add: nicif_tx_alloc_def try_alloc Let_def)
  have m: "mem_put (mem_puts ?m1 ?b ws) ?a 63 [1] = ktx_write (mem_puts (shm t) ?b ws) ?a (Ktx_Packet ?b len)"
    unfolding ktx_write_packet by (simp add: mem_puts_commute [OF dis _ ws] u16_bytes_def)
  have prev: "(if opq = 0 then txq_len t - 1 else opq - 1) = i"
    by (rule ktx_prev [OF il opq_def])
  have "nicif_tx_send env tsc (set_shm t (mem_puts ?m1 ?b ws)) opq False = notify_fastpath_core env tsc t2 0"
    unfolding nicif_tx_send_def Let_def set_shm_simps prev t2_def opq_def [symmetric] using m by (simp add: set_shm_def)
  moreover obtain k v where "notify_fastpath_core env tsc t2 0 =
      Inr (t2\<lparr>kctx := (kctx t2)(0 := (kctx t2 0)\<lparr>ac_last_ts := k\<rparr>), evfd_writes := evfd_writes t2 @ v\<rparr>)"
    using notify_fastpath_core_ok [OF ok] by blast
  moreover have "kctx t2 = kctx t" "evfd_writes t2 = evfd_writes t"
    by (simp_all add: t2_def)
  ultimately show "\<exists>k v. kernel_tx env tsc t len ws =
      Inr (0, t2\<lparr>kctx := (kctx t)(0 := (kctx t 0)\<lparr>ac_last_ts := k\<rparr>), evfd_writes := evfd_writes t @ v\<rparr>)"
    by (auto simp: kernel_tx_def alloc)
qed

lemma msg_slot_less: "0 < txq_len t \<Longrightarrow> msg_slot t ms k < unat (txq_len t)"
  by (simp add: msg_slot_def word_less_nat_alt)

lemma msg_slot_ne_tail:
  assumes "k < length ms" "length ms < unat (txq_len t)" "txq_tail t 0 < txq_len t"
  shows "of_nat (msg_slot t ms k) \<noteq> txq_tail t 0"
proof
  assume eq: "of_nat (msg_slot t ms k) = txq_tail t 0"
  have t: "unat (txq_tail t 0) < unat (txq_len t)"
    using assms(3) by (simp add: word_less_nat_alt)
  then have "0 < txq_len t"
    by (simp add: word_less_nat_alt)
  then have "msg_slot t ms k < 4294967296"
    using msg_slot_less [of t ms k] unat_u32_bound [of "txq_len t"] by simp
  then have "msg_slot t ms k = unat (txq_tail t 0)"
    using arg_cong [OF eq, of unat] by (simp add: unat_of_nat)
  then have "(unat (txq_tail t 0) + (unat (txq_len t) - length ms + k)) mod unat (txq_len t) = (unat (txq_tail t 0) + 0) mod unat (txq_len t)"
    using t by (simp add: msg_slot_def add.assoc)
  then have "unat (txq_len t) - length ms + k = 0"
    by (rule add_mod_inj_nat) (use assms(1,2) in simp_all)
  then show False
    using assms(2) by simp
qed

lemma msg_slot_append:
  assumes "length ms < unat (txq_len t)" "unat (txq_tail t' 0) = Suc (unat (txq_tail t 0)) mod unat (txq_len t)" "txq_len t' = txq_len t"
  shows "msg_slot t' (ms @ [e]) k = msg_slot t ms k"
proof -
  let ?n = "unat (txq_len t)" and ?t = "unat (txq_tail t 0)"
  have "msg_slot t' (ms @ [e]) k = (Suc ?t mod ?n + (?n - Suc (length ms) + k)) mod ?n"
    using assms(2,3) by (simp add: msg_slot_def add.assoc)
  also have "\<dots> = (Suc ?t + (?n - Suc (length ms) + k)) mod ?n"
    by (rule mod_add_left_eq)
  also have "Suc ?t + (?n - Suc (length ms) + k) = ?t + (?n - length ms) + k"
    using assms(1) by simp
  finally show ?thesis
    by (simp add: msg_slot_def)
qed

lemma msg_bytes_cong:
  assumes "msg_in_buf e b" "\<And>x. unat (x - b) < 1536 \<Longrightarrow> m' x = m x"
  shows "msg_bytes m' e = msg_bytes m e"
proof -
  have "mem_view m' b i = mem_view m b i" if "i < unat l" "l \<le> 1536" for i and l :: u16
  proof -
    have "i < 1536"
      using that by (simp add: word_le_nat_alt)
    then have "unat (b + of_nat i - b) < 1536"
      by (simp add: unat_of_nat)
    then show ?thesis
      unfolding mem_view_def by (rule assms(2))
  qed
  then show ?thesis
    using assms(1) by (cases e) auto
qed

lemma kernel_tx_state:
  assumes q: "ktx_queue env t 0 ms" and a: "tx_bufs_apart t" and l: "length ms < unat (txq_len t)" and ws: "within 1536 ws"
    and ok: "evfd_write_ok env"
  defines "i \<equiv> txq_tail t 0"
  obtains t' where "kernel_tx env tsc t len ws = Inr (0, t')" "ktx_queue env t' 0 (ms @ [Ktx_Packet (txq_bufs t 0 i) len])"
    "shm t' = ktx_write (mem_puts (shm t) (txq_bufs t 0 i) ws) (entry_addr 64 (txq_base t 0) (unat i)) (Ktx_Packet (txq_bufs t 0 i) len)"
    "txq_len t' = txq_len t" "txq_bufs t' = txq_bufs t" "txq_base t' = txq_base t"
    "unat (txq_tail t' 0) = Suc (unat i) mod unat (txq_len t)"
proof -
  let ?n = "if i + 1 = txq_len t then i + 1 - txq_len t else i + 1"
  let ?m = "ktx_write (mem_puts (shm t) (txq_bufs t 0 i) ws) (entry_addr 64 (txq_base t 0) (unat i)) (Ktx_Packet (txq_bufs t 0 i) len)"
  define t2 where "t2 = (set_shm t ?m)\<lparr>txq_tail := (txq_tail t)(0 := ?n)\<rparr>"
  note run = kernel_tx_run(1) [OF q a l ws ok, folded i_def, where tsc = tsc and len = len, folded t2_def]
    kernel_tx_run(2) [OF q a l ws ok, folded i_def, where len = len, folded t2_def] kernel_tx_run(3) [OF q a l ws ok, folded i_def]
  have f: "kctx t2 = kctx t" "shm t2 = ?m" "txq_len t2 = txq_len t" "txq_bufs t2 = txq_bufs t" "txq_base t2 = txq_base t" "txq_tail t2 0 = ?n"
    by (simp_all add: t2_def)
  obtain k v where kv: "kernel_tx env tsc t len ws =
      Inr (0, t2\<lparr>kctx := (kctx t)(0 := (kctx t 0)\<lparr>ac_last_ts := k\<rparr>), evfd_writes := evfd_writes t @ v\<rparr>)"
    using run(1) by blast
  show thesis
  proof (rule that [OF kv])
    show "ktx_queue env (t2\<lparr>kctx := (kctx t)(0 := (kctx t 0)\<lparr>ac_last_ts := k\<rparr>), evfd_writes := evfd_writes t @ v\<rparr>) 0
        (ms @ [Ktx_Packet (txq_bufs t 0 i) len])"
      unfolding ktx_queue_notify [where st = t2 and c = 0 and l = k, unfolded f(1)] by (rule run(2))
    have "unat ?n = Suc (unat i) mod unat (txq_len t)"
      by (rule unat_next) (use run(3) in \<open>simp add: word_less_nat_alt\<close>)
    then show "unat (txq_tail (t2\<lparr>kctx := (kctx t)(0 := (kctx t 0)\<lparr>ac_last_ts := k\<rparr>), evfd_writes := evfd_writes t @ v\<rparr>) 0) =
        Suc (unat i) mod unat (txq_len t)"
      using f(6) by simp
  qed (simp_all add: f)
qed

text \<open>
  A packet that is sent is appended to the outbox; the packets that wait there keep their bytes.
\<close>

lemma kernel_tx_bytes:
  assumes o: "outbox env t ms" and l: "length ms < unat (txq_len t)" and ws: "within 1536 ws" and len: "len \<le> 1536"
  defines "b \<equiv> txq_bufs t 0 (txq_tail t 0)" and "e \<equiv> entry_addr 64 (txq_base t 0) (unat (txq_tail t 0))"
  defines "m \<equiv> ktx_write (mem_puts (shm t) b ws) e (Ktx_Packet b len)"
  shows "\<forall>x \<in> set ms. msg_bytes m x = msg_bytes (shm t) x"
    and "msg_bytes m (Ktx_Packet b len) = map (mem_view (mem_puts (shm t) b ws) b) [0..<unat len]"
proof -
  define i where "i = txq_tail t 0"
  have q: "ktx_queue env t 0 ms" and a: "tx_bufs_apart t"
    and s: "\<And>k. k < length ms \<Longrightarrow> msg_in_buf (ms ! k) (txq_bufs t 0 (of_nat (msg_slot t ms k)))"
    using o by (auto simp: outbox_def)
  have n: "64 * unat (txq_len t) < 4294967296"
    using q by (simp add: ktx_queue_def)
  obtain h where "ring_holds (unat (txq_len t)) (ktx_get (txq_base t 0)) (shm t) h (unat i) ms"
    using q by (auto simp: ktx_queue_def i_def)
  from ktx.tail_lt [OF this] have il: "i < txq_len t" "unat i < unat (txq_len t)" "0 < txq_len t"
    by (simp_all add: word_less_nat_alt)
  have ring: "unat (x - e) < 64 \<Longrightarrow> 1536 \<le> unat (x - txq_bufs t 0 j)" if "j < txq_len t" for x j
    unfolding e_def by (rule apart_entry [OF a n that il(2) [unfolded i_def]])
  show "\<forall>x \<in> set ms. msg_bytes m x = msg_bytes (shm t) x"
  proof
    fix y
    assume "y \<in> set ms"
    then obtain k where k: "k < length ms" "y = ms ! k"
      by (auto simp: in_set_conv_nth)
    define j where "j = (of_nat (msg_slot t ms k) :: u32)"
    have j: "j \<noteq> i" "j < txq_len t"
      using msg_slot_ne_tail [OF k(1) l] il msg_slot_less [of t ms k] unat_u32_bound [of "txq_len t"]
      by (simp_all add: i_def j_def word_less_nat_alt unat_of_nat)
    show "msg_bytes m y = msg_bytes (shm t) y"
    proof (rule msg_bytes_cong [OF s [OF k(1), folded k(2) j_def]])
      fix x
      assume x: "unat (x - txq_bufs t 0 j) < 1536"
      then have "64 \<le> unat (x - e)"
        using ring [OF j(2), of x] by linarith
      moreover have "1536 \<le> unat (x - b)"
        using x a j il unfolding tx_bufs_apart_def b_def i_def by blast
      ultimately show "m x = shm t x"
        by (simp add: m_def ktx_write_outside mem_puts_outside [OF ws])
    qed
  qed
  have "msg_bytes m (Ktx_Packet b len) = msg_bytes (mem_puts (shm t) b ws) (Ktx_Packet b len)"
  proof (rule msg_bytes_cong)
    show "msg_in_buf (Ktx_Packet b len) b"
      using len by simp
    show "m x = mem_puts (shm t) b ws x" if "unat (x - b) < 1536" for x
      using ring [OF il(1), of x] that unfolding m_def b_def i_def by (intro ktx_write_outside) linarith
  qed
  then show "msg_bytes m (Ktx_Packet b len) = map (mem_view (mem_puts (shm t) b ws) b) [0..<unat len]"
    by simp
qed

lemma kernel_tx_sends:
  assumes o: "outbox env t ms" and l: "length ms < unat (txq_len t)" and ws: "within 1536 ws" and ok: "evfd_write_ok env" and len: "len \<le> 1536"
  defines "b \<equiv> txq_bufs t 0 (txq_tail t 0)"
  obtains t' where "kernel_tx env tsc t len ws = Inr (0, t')" "outbox env t' (ms @ [Ktx_Packet b len])"
    "\<forall>e \<in> set ms. msg_bytes (shm t') e = msg_bytes (shm t) e"
    "msg_bytes (shm t') (Ktx_Packet b len) = map (mem_view (mem_puts (shm t) b ws) b) [0..<unat len]" "txq_len t' = txq_len t"
proof -
  let ?p = "Ktx_Packet b len"
  have q: "ktx_queue env t 0 ms" and a: "tx_bufs_apart t"
    and s: "\<And>k. k < length ms \<Longrightarrow> msg_in_buf (ms ! k) (txq_bufs t 0 (of_nat (msg_slot t ms k)))"
    using o by (auto simp: outbox_def)
  obtain t' where t': "kernel_tx env tsc t len ws = Inr (0, t')" "ktx_queue env t' 0 (ms @ [?p])"
    "shm t' = ktx_write (mem_puts (shm t) b ws) (entry_addr 64 (txq_base t 0) (unat (txq_tail t 0))) ?p"
    "txq_len t' = txq_len t" "txq_bufs t' = txq_bufs t" "txq_base t' = txq_base t"
    "unat (txq_tail t' 0) = Suc (unat (txq_tail t 0)) mod unat (txq_len t)"
    by (rule kernel_tx_state [OF q a l ws ok, of tsc len, folded b_def])
  have slot: "msg_slot t' (ms @ [?p]) k = msg_slot t ms k" for k
    by (rule msg_slot_append [OF l t'(7,4)])
  have "unat (txq_tail t 0) < unat (txq_len t)"
    using kernel_tx_run(3) [OF q a l ws ok] by (simp add: word_less_nat_alt)
  then have last: "of_nat (msg_slot t ms (length ms)) = txq_tail t 0"
    using l by (simp add: msg_slot_def)
  have "msg_in_buf ((ms @ [?p]) ! k) (txq_bufs t' 0 (of_nat (msg_slot t' (ms @ [?p]) k)))" if "k < length (ms @ [?p])" for k
  proof (cases "k = length ms")
    case True
    then show ?thesis
      unfolding slot t'(5) True last using len by (simp add: b_def)
  next
    case False
    then show ?thesis
      unfolding slot t'(5) using s [of k] that by (simp add: nth_append)
  qed
  moreover have "tx_bufs_apart t'"
    using a unfolding tx_bufs_apart_def t'(4,5,6) .
  ultimately have "outbox env t' (ms @ [?p])"
    using t'(2) by (simp add: outbox_def)
  from that [OF t'(1) this _ _ t'(4)] kernel_tx_bytes [OF o l ws len, folded b_def] show thesis
    unfolding t'(3) by blast
qed

lemma kernel_tx_full:
  assumes "ktx_queue env t 0 ms" "length ms = unat (txq_len t)"
  shows "kernel_tx env tsc t len ws = Inr (-1, t)"
  using ktx_queue_full [OF assms] by (simp add: kernel_tx_def nicif_tx_alloc_def)

end
