(* ===== verification/Arp.thy ===== *)
theory Arp
  imports Slow_State Timers Kernel_Tx
begin

text \<open>
  Address resolution, \<^verbatim>\<open>tas/slow/arp.c\<close>, and the ARP packets of \<^verbatim>\<open>include/packet_defs.h\<close>.  The
  entries of the table are a doubly linked list; requests that wait for an answer are linked
  from their entry through the completions of their connections.  The results of \<^verbatim>\<open>malloc\<close> are
  arguments, 0 if it fails.
\<close>

unbundle bit_operations_syntax

section \<open>Packets\<close>

record arp_hdr =
  htype :: beui16
  ptype :: beui16
  hlen :: u8
  plen :: u8
  oper :: beui16
  sha :: "u8 list"
  spa :: beui32
  tha :: "u8 list"
  tpa :: beui32

record pkt_arp =
  pa_eth :: eth_hdr
  arp :: arp_hdr

abbreviation (input) ARP_OPER_REQUEST :: u16 where "ARP_OPER_REQUEST \<equiv> 1"
abbreviation (input) ARP_OPER_REPLY :: u16 where "ARP_OPER_REPLY \<equiv> 2"
abbreviation (input) ARP_HTYPE_ETHERNET :: u16 where "ARP_HTYPE_ETHERNET \<equiv> 1"
abbreviation (input) ARP_PTYPE_IPV4 :: u16 where "ARP_PTYPE_IPV4 \<equiv> 0x0800"

definition arp_bytes :: "pkt_arp \<Rightarrow> u8 list" where
  "arp_bytes p = eth_bytes (pa_eth p) @ (let a = arp p in
     u16_bytes (beui16_x (htype a)) @ u16_bytes (beui16_x (ptype a)) @ [hlen a, plen a] @ u16_bytes (beui16_x (oper a)) @
     sha a @ u32_bytes (beui32_x (spa a)) @ tha a @ u32_bytes (beui32_x (tpa a)))"

definition arp_of_bytes :: "buf \<Rightarrow> pkt_arp" where
  "arp_of_bytes b =
    \<lparr>pa_eth = \<lparr>eth_dest = map b [0..<6], eth_src = map b [6..<12], eth_type = Beui16 (get_u16 b 12)\<rparr>,
     arp = \<lparr>htype = Beui16 (get_u16 b 14), ptype = Beui16 (get_u16 b 16), hlen = b 18, plen = b 19, oper = Beui16 (get_u16 b 20),
            sha = map b [22..<28], spa = get_beui32 b 28, tha = map b [32..<38], tpa = get_beui32 b 38\<rparr>\<rparr>"

text \<open>The packet that \<^verbatim>\<open>request_tx\<close> and \<^verbatim>\<open>response_tx\<close> fill in.\<close>

definition arp_fill :: "slow_env \<Rightarrow> u8 list \<Rightarrow> u32 \<Rightarrow> u16 \<Rightarrow> pkt_arp" where
  "arp_fill e dst_mac dst_ip op =
    (let mac = eth_addr (fpe (se_tas e)) in
     \<lparr>pa_eth = \<lparr>eth_dest = dst_mac, eth_src = mac, eth_type = t_beui16 ETH_TYPE_ARP\<rparr>,
      arp = \<lparr>htype = t_beui16 ARP_HTYPE_ETHERNET, ptype = t_beui16 ARP_PTYPE_IPV4, hlen = 6, plen = 4, oper = t_beui16 op,
             sha = mac, spa = t_beui32 (cfg_ip (se_cfg e)), tha = dst_mac, tpa = t_beui32 dst_ip\<rparr>\<rparr>)"

definition arp_tx :: "slow_env \<Rightarrow> slowpath \<Rightarrow> pkt_arp \<Rightarrow> (int \<times> slowpath) result" where
  "arp_tx e st p =
    bind_res (kernel_tx (se_tas e) (se_tsc e) (sp_tas st) 42 [(0, arp_bytes p)]) (\<lambda>(r, t). Inr (r, st\<lparr>sp_tas := t\<rparr>))"

definition response_tx :: "slow_env \<Rightarrow> slowpath \<Rightarrow> u8 list \<Rightarrow> u32 \<Rightarrow> (int \<times> slowpath) result" where
  "response_tx e st dst_mac dst_ip = arp_tx e st (arp_fill e dst_mac dst_ip ARP_OPER_REPLY)"

definition request_tx :: "slow_env \<Rightarrow> slowpath \<Rightarrow> u32 \<Rightarrow> (int \<times> slowpath) result" where
  "request_tx e st dst_ip = arp_tx e st (arp_fill e (replicate 6 0xff) dst_ip ARP_OPER_REQUEST)"

section \<open>The table\<close>

partial_function (option) ae_lookup_loop :: "(u64 \<Rightarrow> arp_entry) \<Rightarrow> u32 \<Rightarrow> u64 \<Rightarrow> u64 option" where
  "ae_lookup_loop es a_ip ae =
    (if ae = 0 then Some 0 else if ae_ip (es ae) = a_ip then Some ae else ae_lookup_loop es a_ip (ae_next (es ae)))"

definition ae_lookup :: "slowpath \<Rightarrow> u32 \<Rightarrow> u64 option" where
  "ae_lookup st a_ip = ae_lookup_loop (arp_entries st) a_ip (arp_table st)"

definition arp_init :: "slow_env \<Rightarrow> u64 \<Rightarrow> slowpath \<Rightarrow> slowpath result" where
  "arp_init e lb st =
    (if lb = 0 then Inl Assert_Failed
     else Inr ((upd_ae st lb (\<lambda>ae. ae\<lparr>ae_status := 0, ae_ip := cfg_ip (se_cfg e), ae_mac := eth_addr (fpe (se_tas e)),
                                       ae_compl := 0, ae_next := 0, ae_prev := 0\<rparr>))\<lparr>arp_table := lb\<rparr>))"

text \<open>Copying the six bytes of an address over the low bytes of a 64-bit variable.\<close>

definition mac_u64 :: "u8 list \<Rightarrow> u64" where
  "mac_u64 m = foldr (\<lambda>b x. ucast b OR push_bit 8 x) m 0"

definition put_mac :: "u8 list \<Rightarrow> connection \<Rightarrow> connection" where
  "put_mac m c = c\<lparr>cn_remote_mac := (cn_remote_mac c AND NOT (mask 48)) OR mac_u64 m\<rparr>"

text \<open>Inserting a new entry at the front of the table.\<close>

definition ae_insert :: "slowpath \<Rightarrow> u64 \<Rightarrow> slowpath" where
  "ae_insert st ae =
    (let st = upd_ae st ae (\<lambda>a. a\<lparr>ae_prev := 0, ae_next := arp_table st\<rparr>);
         st = (if arp_table st \<noteq> 0 then upd_ae st (arp_table st) (ae_prev_update (\<lambda>_. ae)) else st) in
     st\<lparr>arp_table := ae\<rparr>)"

text \<open>\<open>new\<close> is the result of \<^verbatim>\<open>malloc\<close>; \<^verbatim>\<open>mac\<close> is the connection whose address is wanted.\<close>

definition arp_request :: "slow_env \<Rightarrow> u64 \<Rightarrow> slowpath \<Rightarrow> u64 \<Rightarrow> u32 \<Rightarrow> u64 \<Rightarrow> (int \<times> slowpath) run" where
  "arp_request e new st cmp a_ip mac =
    (let st = mod_conn st mac (cn_remote_mac_update (\<lambda>_. 0)) in
     case ae_lookup st a_ip of
       None \<Rightarrow> None
     | Some ae \<Rightarrow>
         if ae \<noteq> 0 then
           if ae_status (arp_entries st ae) = 0 then
             Some (Inr (0, mod_conn st mac (put_mac (ae_mac (arp_entries st ae)))))
           else
             let st = mod_conn st cmp (\<lambda>c. c\<lparr>comp_ptr := mac, comp_next := ae_compl (arp_entries st ae)\<rparr>) in
             Some (Inr (1, upd_ae st ae (ae_compl_update (\<lambda>_. cmp))))
         else if new = 0 then Some (Inr (-1, st))
         else
           let st = upd_ae st new (\<lambda>a. a\<lparr>ae_status := 1, ae_ip := a_ip, ae_compl := cmp\<rparr>);
               st = mod_conn st cmp (\<lambda>c. c\<lparr>comp_next := 0, comp_ptr := mac\<rparr>) in
           bind_run (Some (request_tx e st a_ip)) (\<lambda>(_, st).
           let st = upd_ae st new (ae_timeout_update (\<lambda>_. arp_to (se_cfg e))) in
           bind_run (to_arm e st (ae_to new) (arp_to (se_cfg e)) TO_ARP_REQ) (\<lambda>st.
           Some (Inr (1, ae_insert st new)))))"

text \<open>Completing a request: the connection is handed to the TCP code, and whoever waits is woken.\<close>

definition comp_done :: "slowpath \<Rightarrow> u64 \<Rightarrow> int \<Rightarrow> slowpath" where
  "comp_done st cmp status =
    (let st = mod_conn st cmp (comp_status_update (\<lambda>_. status));
         fd = comp_notify_fd (conns st cmp);
         st = nbqueue_enq st cmp in
     if fd \<noteq> -1 then st\<lparr>sp_tas := (sp_tas st)\<lparr>evfd_writes := evfd_writes (sp_tas st) @ [fd]\<rparr>\<rparr> else st)"

partial_function (option) arp_complete :: "u8 list \<Rightarrow> u64 \<Rightarrow> slowpath \<Rightarrow> slowpath option" where
  "arp_complete mac cmp st =
    (if cmp = 0 then Some st
     else
       let comp_nxt = comp_next (conns st cmp);
           st = mod_conn st (comp_ptr (conns st cmp)) (put_mac mac) in
       arp_complete mac comp_nxt (comp_done st cmp 0))"

partial_function (option) arp_give_up :: "u64 \<Rightarrow> slowpath \<Rightarrow> slowpath option" where
  "arp_give_up cmp st =
    (if cmp = 0 then Some st
     else let comp_nxt = comp_next (conns st cmp) in arp_give_up comp_nxt (comp_done st cmp (-1)))"

definition arp_reply :: "slowpath \<Rightarrow> arp_hdr \<Rightarrow> slowpath run" where
  "arp_reply st a =
    (case ae_lookup st (f_beui32 (spa a)) of
       None \<Rightarrow> None
     | Some ae \<Rightarrow>
         if ae = 0 then Some (Inr st)
         else
           bind_run (Some (if ae_status (arp_entries st ae) = 1 then to_disarm st (ae_to ae) else Inr st)) (\<lambda>st.
           let st = upd_ae st ae (\<lambda>x. x\<lparr>ae_mac := sha a, ae_status := 0\<rparr>) in
           case arp_complete (sha a) (ae_compl (arp_entries st ae)) st of
             None \<Rightarrow> None
           | Some st \<Rightarrow> Some (Inr (upd_ae st ae (ae_compl_update (\<lambda>_. 0))))))"

definition arp_packet :: "slow_env \<Rightarrow> slowpath \<Rightarrow> buf \<Rightarrow> u16 \<Rightarrow> slowpath run" where
  "arp_packet e st pkt len =
    (let a = arp (arp_of_bytes pkt); op = f_beui16 (oper a) in
     if f_beui16 (htype a) \<noteq> ARP_HTYPE_ETHERNET \<or> f_beui16 (ptype a) \<noteq> ARP_PTYPE_IPV4 \<or> hlen a \<noteq> 6 \<or> plen a \<noteq> 4
     then Some (Inr st)
     else if op = ARP_OPER_REQUEST then
       if f_beui32 (tpa a) \<noteq> cfg_ip (se_cfg e) then Some (Inr st)
       else bind_run (Some (response_tx e st (sha a) (f_beui32 (spa a)))) (\<lambda>(_, st). Some (Inr st))
     else if op = ARP_OPER_REPLY then arp_reply st a
     else Some (Inr st))"

definition ae_remove :: "slowpath \<Rightarrow> u64 \<Rightarrow> slowpath" where
  "ae_remove st ae =
    (let prv = ae_prev (arp_entries st ae); nxt = ae_next (arp_entries st ae);
         st = (if prv \<noteq> 0 then upd_ae st prv (ae_next_update (\<lambda>_. nxt)) else st\<lparr>arp_table := nxt\<rparr>) in
     if nxt \<noteq> 0 then upd_ae st nxt (ae_prev_update (\<lambda>_. prv)) else st)"

definition arp_timeout :: "slow_env \<Rightarrow> slowpath \<Rightarrow> u64 \<Rightarrow> u8 \<Rightarrow> slowpath run" where
  "arp_timeout e st to type =
    (let ae = to - 32; a = arp_entries st ae in
     if ae_status a = 0 then Some (Inl Abort)
     else if ae_timeout a * 2 \<ge> arp_to_max (se_cfg e) then
       case arp_give_up (ae_compl a) st of
         None \<Rightarrow> None
       | Some st \<Rightarrow> Some (Inr (ae_remove st ae))
     else
       bind_run (Some (request_tx e st (ae_ip a))) (\<lambda>(_, st).
       let st = upd_ae st ae (ae_timeout_update (\<lambda>_. ae_timeout a * 2)) in
       to_arm e st (ae_to ae) (ae_timeout a * 2) TO_ARP_REQ))"

end
