(* ===== verification/Arp_Spec.thy ===== *)
theory Arp_Spec
  imports Arp
begin

text \<open>
  The ARP table as a map from addresses to answers or waiting requests.
\<close>

section \<open>Completing requests\<close>

lemma mod_conn_frame: "mod_conn st c f = st\<lparr>conns := (conns st)(c := f (conns st c))\<rparr>"
  by (simp add: mod_conn_def upd_conn_def)

lemma nbqueue_enq_frame:
  "nbqueue_enq st c = st\<lparr>conns := (conns st)(c := (conns st c)\<lparr>comp_next := conn_async_q st\<rparr>), conn_async_q := c\<rparr>"
  by (simp add: nbqueue_enq_def mod_conn_frame)

lemma comp_done_frame:
  "comp_done st c s = st\<lparr>conns := (conns st)(c := (conns st c)\<lparr>comp_status := s, comp_next := conn_async_q st\<rparr>), conn_async_q := c,
     sp_tas := (sp_tas st)\<lparr>evfd_writes := evfd_writes (sp_tas st) @ (if comp_notify_fd (conns st c) = -1 then [] else [comp_notify_fd (conns st c)])\<rparr>\<rparr>"
  by (cases st) (simp add: comp_done_def nbqueue_enq_frame mod_conn_frame Let_def)

lemma comp_done_queue:
  assumes "async_queue st q" "c \<notin> set q" "c \<noteq> 0"
  shows "async_queue (comp_done st c s) (c # q)"
proof -
  have "async_queue (mod_conn st c (comp_status_update (\<lambda>_. s))) q"
    using assms(1) by (simp add: async_queue_def) (auto elim: path_frame)
  from nbqueue_enq_queue [OF this assms(2,3)] show ?thesis
    by (simp add: comp_done_def Let_def async_queue_def)
qed

text \<open>What the loops over the waiting requests leave behind.\<close>

definition completed :: "(connection \<Rightarrow> connection) \<Rightarrow> slowpath \<Rightarrow> u64 list \<Rightarrow> slowpath \<Rightarrow> bool" where
  "completed f st ws st' \<longleftrightarrow>
     st' = st\<lparr>conns := conns st', conn_async_q := conn_async_q st',
              sp_tas := (sp_tas st)\<lparr>evfd_writes := evfd_writes (sp_tas st')\<rparr>\<rparr> \<and>
     (\<forall>x. conns st' x = (if x \<in> set ws then (f (conns st x))\<lparr>comp_next := comp_next (conns st' x)\<rparr> else conns st x))"

lemma completed_refl: "completed f st [] st"
  by (cases st) (simp add: completed_def)

lemma completed_step:
  assumes c: "completed f st1 ws st'" and w: "w \<notin> set ws"
    and st1: "st1 = comp_done st0 w s"
    and st0: "st0 = st\<lparr>conns := (conns st)(w := g (conns st w))\<rparr>"
    and f: "\<And>c. f c = (g c)\<lparr>comp_status := s\<rparr>"
  shows "completed f st (w # ws) st'"
proof -
  have 1: "st' = st1\<lparr>conns := conns st', conn_async_q := conn_async_q st',
              sp_tas := (sp_tas st1)\<lparr>evfd_writes := evfd_writes (sp_tas st')\<rparr>\<rparr>"
    and 2: "\<And>x. conns st' x = (if x \<in> set ws then (f (conns st1 x))\<lparr>comp_next := comp_next (conns st' x)\<rparr> else conns st1 x)"
    using c by (auto simp: completed_def)
  have "st' = st\<lparr>conns := conns st', conn_async_q := conn_async_q st',
              sp_tas := (sp_tas st)\<lparr>evfd_writes := evfd_writes (sp_tas st')\<rparr>\<rparr>"
    by (subst 1) (simp add: st1 st0 comp_done_frame)
  moreover have "conns st' x = (if x \<in> set (w # ws) then (f (conns st x))\<lparr>comp_next := comp_next (conns st' x)\<rparr> else conns st x)" for x
    using 2 [of x] w by (cases "x = w") (auto simp: st1 st0 comp_done_frame f)
  ultimately show ?thesis
    by (simp add: completed_def)
qed

lemma arp_complete_done:
  assumes "path 0 (\<lambda>c. comp_next (conns st c)) c ws" "async_queue st q" "distinct (ws @ q)" "\<forall>w \<in> set ws. comp_ptr (conns st w) = w"
  shows "\<exists>st'. arp_complete mac c st = Some st' \<and> async_queue st' (rev ws @ q) \<and>
    completed (\<lambda>c. (put_mac mac c)\<lparr>comp_status := 0\<rparr>) st ws st'"
  using assms
proof (induction ws arbitrary: c st q)
  case Nil
  then show ?case
    by (subst arp_complete.simps) (simp add: completed_refl)
next
  case (Cons w ws)
  define st0 where "st0 = mod_conn st w (put_mac mac)"
  define st1 where "st1 = comp_done st0 w 0"
  have w: "c = w" "w \<noteq> 0" "w \<notin> set ws" "w \<notin> set q" "comp_ptr (conns st w) = w"
    using Cons.prems by auto
  have "async_queue st0 q"
    using Cons.prems(2) by (simp add: async_queue_def st0_def put_mac_def) (auto elim: path_frame)
  then have q: "async_queue st1 (w # q)"
    using comp_done_queue w by (simp add: st1_def)
  have o: "\<And>x. x \<in> set ws \<Longrightarrow> conns st1 x = conns st x"
    using w by (auto simp: st1_def st0_def comp_done_frame)
  have p: "path 0 (\<lambda>c. comp_next (conns st1 c)) (comp_next (conns st w)) ws"
    by (rule path_frame [where nxt = "\<lambda>c. comp_next (conns st c)"]) (use Cons.prems(1) w o in auto)
  have ptr: "\<forall>w \<in> set ws. comp_ptr (conns st1 w) = w"
    using Cons.prems(4) w o by auto
  obtain st' where st': "arp_complete mac (comp_next (conns st w)) st1 = Some st'" "async_queue st' (rev ws @ w # q)"
    "completed (\<lambda>c. (put_mac mac c)\<lparr>comp_status := 0\<rparr>) st1 ws st'"
    using Cons.IH [OF p q _ ptr] Cons.prems(3) by auto
  have "completed (\<lambda>c. (put_mac mac c)\<lparr>comp_status := 0\<rparr>) st (w # ws) st'"
    by (rule completed_step [OF st'(3) w(3) st1_def]) (simp_all add: st0_def mod_conn_frame)
  moreover have "arp_complete mac c st = Some st'"
    using st'(1) w by (subst arp_complete.simps) (simp add: st0_def st1_def)
  ultimately show ?case
    using st'(2) by auto
qed

lemma arp_give_up_done:
  assumes "path 0 (\<lambda>c. comp_next (conns st c)) c ws" "async_queue st q" "distinct (ws @ q)"
  shows "\<exists>st'. arp_give_up c st = Some st' \<and> async_queue st' (rev ws @ q) \<and> completed (comp_status_update (\<lambda>_. - 1)) st ws st'"
  using assms
proof (induction ws arbitrary: c st q)
  case Nil
  then show ?case
    by (subst arp_give_up.simps) (simp add: completed_refl)
next
  case (Cons w ws)
  define st1 where "st1 = comp_done st w (- 1)"
  have w: "c = w" "w \<noteq> 0" "w \<notin> set ws" "w \<notin> set q"
    using Cons.prems by auto
  have q: "async_queue st1 (w # q)"
    using comp_done_queue Cons.prems(2) w by (simp add: st1_def)
  have o: "\<And>x. x \<in> set ws \<Longrightarrow> conns st1 x = conns st x"
    using w by (auto simp: st1_def comp_done_frame)
  have p: "path 0 (\<lambda>c. comp_next (conns st1 c)) (comp_next (conns st w)) ws"
    by (rule path_frame [where nxt = "\<lambda>c. comp_next (conns st c)"]) (use Cons.prems(1) w o in auto)
  obtain st' where st': "arp_give_up (comp_next (conns st w)) st1 = Some st'" "async_queue st' (rev ws @ w # q)"
    "completed (comp_status_update (\<lambda>_. - 1)) st1 ws st'"
    using Cons.IH [OF p q] Cons.prems(3) by auto
  have "completed (comp_status_update (\<lambda>_. - 1)) st (w # ws) st'"
    by (rule completed_step [OF st'(3) w(3) st1_def, where g = "\<lambda>c. c"]) simp_all
  moreover have "arp_give_up c st = Some st'"
    using st'(1) w by (subst arp_give_up.simps) (simp add: st1_def)
  ultimately show ?case
    using st'(2) by auto
qed

section \<open>The table as a map\<close>

datatype arp_answer = Resolved "u8 list" | Waiting "u64 list"

definition arp_list :: "slowpath \<Rightarrow> u64 list \<Rightarrow> bool" where
  "arp_list st es \<longleftrightarrow>
     dlist 0 (\<lambda>p. ae_next (arp_entries st p)) (\<lambda>p. ae_prev (arp_entries st p)) (arp_table st) (last_or 0 es) es \<and>
     distinct es \<and> distinct (map (\<lambda>p. ae_ip (arp_entries st p)) es)"

definition arp_waits :: "slowpath \<Rightarrow> u64 list \<Rightarrow> (u64 \<Rightarrow> u64 list) \<Rightarrow> u64 list \<Rightarrow> bool" where
  "arp_waits st es W q \<longleftrightarrow> async_queue st q \<and> distinct (concat (map W es) @ q) \<and>
     (\<forall>p \<in> set es. path 0 (\<lambda>c. comp_next (conns st c)) (ae_compl (arp_entries st p)) (W p) \<and>
        (\<forall>w \<in> set (W p). comp_ptr (conns st w) = w) \<and>
        (ae_status (arp_entries st p) = 0 \<and> W p = [] \<or> ae_status (arp_entries st p) = 1))"

definition arp_ans :: "slowpath \<Rightarrow> (u64 \<Rightarrow> u64 list) \<Rightarrow> u64 \<Rightarrow> arp_answer" where
  "arp_ans st W p = (if ae_status (arp_entries st p) = 0 then Resolved (ae_mac (arp_entries st p)) else Waiting (W p))"

definition arp_view :: "slowpath \<Rightarrow> (u64 \<Rightarrow> u64 list) \<Rightarrow> u64 list \<Rightarrow> u32 \<rightharpoonup> u64 \<times> arp_answer" where
  "arp_view st W es = map_of (map (\<lambda>p. (ae_ip (arp_entries st p), p, arp_ans st W p)) es)"

text \<open>
  \<open>M\<close> has an entry and an answer for each address; \<open>q\<close> are the completed requests.
\<close>

definition arp_tabl :: "slowpath \<Rightarrow> (u32 \<rightharpoonup> u64 \<times> arp_answer) \<Rightarrow> u64 list \<Rightarrow> bool" where
  "arp_tabl st M q \<longleftrightarrow> (\<exists>es W. arp_list st es \<and> arp_waits st es W q \<and> M = arp_view st W es)"

text \<open>An entry has its timeout armed as long as it waits for an answer.\<close>

definition arp_timers :: "(u32 \<rightharpoonup> u64 \<times> arp_answer) \<Rightarrow> (u64 \<rightharpoonup> u8) \<Rightarrow> bool" where
  "arp_timers M A \<longleftrightarrow> (\<forall>i p a. M i = Some (p, a) \<longrightarrow>
     A (ae_to p) = (case a of Resolved _ \<Rightarrow> None | Waiting _ \<Rightarrow> Some TO_ARP_REQ))"

definition arp_waiting :: "(u32 \<rightharpoonup> u64 \<times> arp_answer) \<Rightarrow> u64 set" where
  "arp_waiting M = {w. \<exists>i p ws. M i = Some (p, Waiting ws) \<and> w \<in> set ws}"

lemma arp_view_Some:
  assumes "arp_list st es"
  shows "arp_view st W es i = Some (p, a) \<longleftrightarrow> p \<in> set es \<and> i = ae_ip (arp_entries st p) \<and> a = arp_ans st W p"
proof -
  have "distinct (map fst (map (\<lambda>p. (ae_ip (arp_entries st p), p, arp_ans st W p)) es))"
    using assms by (simp add: arp_list_def comp_def)
  from map_of_eq_Some_iff [OF this] show ?thesis
    by (auto simp: arp_view_def)
qed

lemma arp_view_None: "arp_view st W es i = None \<longleftrightarrow> (\<forall>p \<in> set es. ae_ip (arp_entries st p) \<noteq> i)"
  by (force simp: arp_view_def map_of_eq_None_iff)

lemma ae_lookup_loop_path:
  assumes "path 0 (\<lambda>p. ae_next (es p)) h ps"
  shows "ae_lookup_loop es a h = Some (case find (\<lambda>p. ae_ip (es p) = a) ps of None \<Rightarrow> 0 | Some p \<Rightarrow> p)"
  using assms
proof (induction ps arbitrary: h)
  case Nil
  then show ?case
    by (subst ae_lookup_loop.simps) simp
next
  case (Cons p ps)
  then show ?case
    by (subst ae_lookup_loop.simps) auto
qed

lemma dseg_path: "dseg nil nxt prv p xs nil \<Longrightarrow> path nil nxt (hd_or nil xs) xs"
  by (induction xs arbitrary: p) auto

lemma ae_lookup_view:
  assumes "arp_list st es"
  shows "ae_lookup st a = Some (case arp_view st W es a of None \<Rightarrow> 0 | Some (p, _) \<Rightarrow> p)"
proof -
  have "path 0 (\<lambda>p. ae_next (arp_entries st p)) (arp_table st) es"
    using assms dseg_path by (auto simp: arp_list_def dlist_def)
  moreover have "(case arp_view st W es a of None \<Rightarrow> 0 | Some (p, _) \<Rightarrow> p) =
      (case find (\<lambda>p. ae_ip (arp_entries st p) = a) es of None \<Rightarrow> 0 | Some p \<Rightarrow> p)"
    unfolding arp_view_def by (induction es) auto
  ultimately show ?thesis
    by (simp add: ae_lookup_def ae_lookup_loop_path)
qed

lemma arp_list_nonnull: "arp_list st es \<Longrightarrow> p \<in> set es \<Longrightarrow> p \<noteq> 0"
  by (auto simp: arp_list_def dest: dlist_nil)

text \<open>Changing one entry.\<close>

lemma arp_list_cong:
  assumes "arp_list st es" "arp_table st' = arp_table st"
    "\<And>p. p \<in> set es \<Longrightarrow> ae_next (arp_entries st' p) = ae_next (arp_entries st p) \<and> ae_prev (arp_entries st' p) = ae_prev (arp_entries st p) \<and>
       ae_ip (arp_entries st' p) = ae_ip (arp_entries st p)"
  shows "arp_list st' es"
proof -
  have "map (\<lambda>p. ae_ip (arp_entries st' p)) es = map (\<lambda>p. ae_ip (arp_entries st p)) es"
    using assms(3) by simp
  then show ?thesis
    using assms(1,2) dlist_cong [of es "\<lambda>p. ae_next (arp_entries st' p)" "\<lambda>p. ae_next (arp_entries st p)"
        "\<lambda>p. ae_prev (arp_entries st' p)" "\<lambda>p. ae_prev (arp_entries st p)"] assms(3)
    unfolding arp_list_def by metis
qed

lemma arp_view_upd:
  assumes l: "arp_list st es" and l': "arp_list st' es" and p: "p \<in> set es"
    and ip: "\<And>x. x \<in> set es \<Longrightarrow> ae_ip (arp_entries st' x) = ae_ip (arp_entries st x)"
    and o: "\<And>x. x \<in> set es \<Longrightarrow> x \<noteq> p \<Longrightarrow> arp_ans st' W' x = arp_ans st W x"
  shows "arp_view st' W' es = (arp_view st W es)(ae_ip (arp_entries st p) \<mapsto> (p, arp_ans st' W' p))"
proof (rule ext)
  fix i
  let ?N = "(arp_view st W es)(ae_ip (arp_entries st p) \<mapsto> (p, arp_ans st' W' p))"
  show "arp_view st' W' es i = ?N i"
  proof (cases "i = ae_ip (arp_entries st p)")
    case True
    then have "arp_view st' W' es i = Some (p, arp_ans st' W' p)"
      using p ip [OF p] by (simp add: arp_view_Some [OF l'])
    then show ?thesis
      using True by simp
  next
    case False
    have "arp_view st' W' es i = arp_view st W es i"
    proof (cases "arp_view st W es i")
      case None
      then have "arp_view st' W' es i = None"
        using ip by (simp add: arp_view_None)
      then show ?thesis
        using None by simp
    next
      case (Some y)
      obtain x a where "y = (x, a)"
        by fastforce
      with Some have x: "x \<in> set es" "i = ae_ip (arp_entries st x)" "a = arp_ans st W x"
        by (simp_all add: arp_view_Some [OF l])
      then have "x \<noteq> p"
        using False by blast
      then have "arp_view st' W' es i = Some (x, a)"
        using x ip [of x] o [of x] by (simp add: arp_view_Some [OF l'])
      then show ?thesis
        using Some \<open>y = (x, a)\<close> by simp
    qed
    then show ?thesis
      using False by simp
  qed
qed

section \<open>Requests\<close>

lemma arp_waits_cong:
  assumes "arp_waits st es W q" "arp_entries st' = arp_entries st" "conn_async_q st' = conn_async_q st"
    "\<And>x. comp_next (conns st' x) = comp_next (conns st x) \<and> comp_ptr (conns st' x) = comp_ptr (conns st x)"
  shows "arp_waits st' es W q"
  using assms by (simp add: arp_waits_def async_queue_def)

lemma arp_view_cong: "arp_entries st' = arp_entries st \<Longrightarrow> arp_view st' W es = arp_view st W es"
  by (simp add: arp_view_def arp_ans_def cong: if_cong)

lemma arp_tabl_cong:
  assumes "arp_tabl st M q" "arp_entries st' = arp_entries st" "arp_table st' = arp_table st" "conn_async_q st' = conn_async_q st"
    "\<And>x. comp_next (conns st' x) = comp_next (conns st x) \<and> comp_ptr (conns st' x) = comp_ptr (conns st x)"
  shows "arp_tabl st' M q"
proof -
  obtain es W where "arp_list st es" "arp_waits st es W q" "M = arp_view st W es"
    using assms(1) by (auto simp: arp_tabl_def)
  moreover have "arp_list st' es"
    by (rule arp_list_cong [OF \<open>arp_list st es\<close>]) (simp_all add: assms)
  moreover have "arp_waits st' es W q"
    by (rule arp_waits_cong [OF \<open>arp_waits st es W q\<close> assms(2,4,5)])
  ultimately show ?thesis
    using arp_view_cong [OF assms(2)] unfolding arp_tabl_def by metis
qed

lemma arp_waiting_view:
  assumes "arp_list st es" "arp_waits st es W q"
  shows "arp_waiting (arp_view st W es) = (\<Union>p \<in> set es. set (W p))"
proof -
  have "(\<exists>i ws. arp_view st W es i = Some (p, Waiting ws) \<and> w \<in> set ws) \<longleftrightarrow> p \<in> set es \<and> w \<in> set (W p)" for p w
    using assms(2) by (auto simp: arp_view_Some [OF assms(1)] arp_ans_def arp_waits_def)
  then show ?thesis
    unfolding arp_waiting_def by blast
qed

lemma distinct_concat_upd:
  assumes "distinct (concat (map W es) @ q)" "distinct es" "p \<in> set es" "c \<notin> set (concat (map W es) @ q)"
  shows "distinct (concat (map (W(p := c # W p)) es) @ q)"
proof -
  obtain as bs where es: "es = as @ p # bs"
    using assms(3) by (auto dest: split_list)
  then have u: "map (W(p := c # W p)) as = map W as" "map (W(p := c # W p)) bs = map W bs"
    using assms(2) by auto
  have "concat (map (W(p := c # W p)) es) = concat (map W as) @ c # W p @ concat (map W bs)"
    unfolding es map_append concat_append list.map u by simp
  then show ?thesis
    using assms(1,4) es by auto
qed

text \<open>Another request joins the ones that wait.\<close>

lemma arp_tabl_wait:
  assumes t: "arp_tabl st M q" and M: "M i = Some (p, Waiting ws)" and c: "c \<noteq> 0" "c \<notin> arp_waiting M" "c \<notin> set q"
  defines "st' \<equiv> upd_ae (mod_conn st c (\<lambda>x. x\<lparr>comp_ptr := c, comp_next := ae_compl (arp_entries st p)\<rparr>)) p (ae_compl_update (\<lambda>_. c))"
  shows "arp_tabl st' (M(i \<mapsto> (p, Waiting (c # ws)))) q"
proof -
  obtain es W where l: "arp_list st es" and w: "arp_waits st es W q" and Meq: "M = arp_view st W es"
    using t by (auto simp: arp_tabl_def)
  define W' where "W' = W(p := c # W p)"
  have p: "p \<in> set es" "i = ae_ip (arp_entries st p)" "ws = W p" "ae_status (arp_entries st p) \<noteq> 0"
    using M by (simp_all add: Meq arp_view_Some [OF l] arp_ans_def split: if_splits)
  have cW: "\<And>x. x \<in> set es \<Longrightarrow> c \<notin> set (W x)"
    using c(2) unfolding Meq arp_waiting_view [OF l w] by auto
  have l': "arp_list st' es"
    by (rule arp_list_cong [OF l]) (simp_all add: st'_def)
  have o: "path 0 (\<lambda>x. comp_next (conns st' x)) h xs" if "path 0 (\<lambda>x. comp_next (conns st x)) h xs" "c \<notin> set xs" for h xs
    by (rule path_frame [OF that(1)]) (use that(2) in \<open>auto simp: st'_def\<close>)
  have "arp_waits st' es W' q"
    unfolding arp_waits_def
  proof (intro conjI ballI)
    show "async_queue st' q"
      using w o [OF _ c(3)] by (simp add: arp_waits_def async_queue_def) (simp add: st'_def)
    show "distinct (concat (map W' es) @ q)"
      unfolding W'_def using w l p(1) cW c(3) by (intro distinct_concat_upd) (auto simp: arp_waits_def arp_list_def)
    fix x
    assume x: "x \<in> set es"
    have wx: "path 0 (\<lambda>c. comp_next (conns st c)) (ae_compl (arp_entries st x)) (W x)" "\<forall>w \<in> set (W x). comp_ptr (conns st w) = w"
      "ae_status (arp_entries st x) = 0 \<and> W x = [] \<or> ae_status (arp_entries st x) = 1"
      using w x by (auto simp: arp_waits_def)
    show "path 0 (\<lambda>c. comp_next (conns st' c)) (ae_compl (arp_entries st' x)) (W' x)"
      using o [OF wx(1) cW [OF x]] c(1) by (cases "x = p") (simp_all add: W'_def, simp_all add: st'_def)
    show "comp_ptr (conns st' w) = w" if "w \<in> set (W' x)" for w
      using that wx(2) by (auto simp: W'_def st'_def split: if_splits)
    show "ae_status (arp_entries st' x) = 0 \<and> W' x = [] \<or> ae_status (arp_entries st' x) = 1"
      using wx(3) p(4) by (auto simp: W'_def st'_def)
  qed
  moreover have "arp_view st' W' es = (arp_view st W es)(ae_ip (arp_entries st p) \<mapsto> (p, arp_ans st' W' p))"
    by (rule arp_view_upd [OF l l' p(1)]) (auto simp: st'_def W'_def arp_ans_def)
  moreover have "arp_ans st' W' p = Waiting (c # ws)"
    using p by (simp add: arp_ans_def W'_def st'_def)
  ultimately show ?thesis
    using l' unfolding arp_tabl_def Meq p(2) by metis
qed

text \<open>A new entry at the front of the table.\<close>

lemma arp_tabl_insert:
  assumes t: "arp_tabl st M q" and M: "M i = None" and new: "new \<noteq> 0" "\<And>i a. M i \<noteq> Some (new, a)"
    and c: "c \<noteq> 0" "c \<notin> arp_waiting M" "c \<notin> set q"
    and st1: "arp_table st1 = arp_table st" "conn_async_q st1 = conn_async_q st"
      "\<And>x. x \<noteq> new \<Longrightarrow> arp_entries st1 x = arp_entries st x"
      "ae_ip (arp_entries st1 new) = i" "ae_status (arp_entries st1 new) = 1" "ae_compl (arp_entries st1 new) = c"
      "\<And>x. x \<noteq> c \<Longrightarrow> conns st1 x = conns st x" "comp_next (conns st1 c) = 0" "comp_ptr (conns st1 c) = c"
  shows "arp_tabl (ae_insert st1 new) (M(i \<mapsto> (new, Waiting [c]))) q"
proof -
  obtain es W where l: "arp_list st es" and w: "arp_waits st es W q" and Meq: "M = arp_view st W es"
    using t by (auto simp: arp_tabl_def)
  define st' where "st' = ae_insert st1 new"
  define W' where "W' = W(new := [c])"
  have n: "new \<notin> set es"
    using new(2) by (auto simp: Meq arp_view_Some [OF l])
  have cW: "\<And>x. x \<in> set es \<Longrightarrow> c \<notin> set (W x)"
    using c(2) unfolding Meq arp_waiting_view [OF l w] by auto
  have es: "dlist 0 (\<lambda>p. ae_next (arp_entries st p)) (\<lambda>p. ae_prev (arp_entries st p)) (arp_table st) (last_or 0 es) ([] @ es)"
    "arp_table st = hd_or 0 es" "0 \<notin> set es"
    using l dlist_nil by (auto simp: arp_list_def dlist_def dest: dseg_nil)
  have hd: "arp_table st = 0 \<longleftrightarrow> es = []" "es \<noteq> [] \<Longrightarrow> arp_table st = hd es"
    using es(2,3) by (auto simp: hd_or_nil hd_or_hd)
  have ent: "arp_entries st' x = (if x = new then (arp_entries st1 new)\<lparr>ae_prev := 0, ae_next := arp_table st\<rparr>
      else if es \<noteq> [] \<and> x = hd es then (arp_entries st x)\<lparr>ae_prev := new\<rparr> else arp_entries st x)" for x
  proof -
    have "es \<noteq> [] \<Longrightarrow> hd es \<noteq> new"
      using n by auto
    then show ?thesis
      unfolding st'_def ae_insert_def Let_def using st1(1,3) hd by auto
  qed
  have "dlist 0 (\<lambda>p. ae_next (arp_entries st' p)) (\<lambda>p. ae_prev (arp_entries st' p))
      (if ([] :: u64 list) = [] then new else arp_table st) (if es = [] then new else last_or 0 es) ([] @ new # es)"
    by (rule dlist_insertI [OF es(1)]) (use l n new(1) es(2) in \<open>auto simp: ent arp_list_def\<close>)
  moreover have "arp_table st' = new"
    by (simp add: st'_def ae_insert_def Let_def)
  moreover have "last_or 0 (new # es) = (if es = [] then new else last_or 0 es)"
    by (simp add: last_or_def)
  moreover have ip: "\<And>x. x \<in> set es \<Longrightarrow> ae_ip (arp_entries st' x) = ae_ip (arp_entries st x)" "ae_ip (arp_entries st' new) = i"
    using n st1(4) by (auto simp: ent)
  then have ips: "map (\<lambda>p. ae_ip (arp_entries st' p)) (new # es) = i # map (\<lambda>p. ae_ip (arp_entries st p)) es"
    by simp
  moreover have "i \<notin> set (map (\<lambda>p. ae_ip (arp_entries st p)) es)"
    using M by (auto simp: Meq arp_view_None)
  ultimately have l': "arp_list st' (new # es)"
    using l n unfolding arp_list_def ips by simp
  have cn: "conns st' = conns st1" "conn_async_q st' = conn_async_q st"
    using st1(2) by (simp_all add: st'_def ae_insert_def Let_def)
  have o: "path 0 (\<lambda>x. comp_next (conns st' x)) h xs" if "path 0 (\<lambda>x. comp_next (conns st x)) h xs" "c \<notin> set xs" for h xs
    by (rule path_frame [OF that(1)]) (use that(2) st1(7) cn in metis)
  have W': "map W' es = map W es"
    using n by (auto simp: W'_def)
  have "arp_waits st' (new # es) W' q"
    unfolding arp_waits_def
  proof (intro conjI ballI)
    show "async_queue st' q"
      using w o [OF _ c(3)] by (simp add: arp_waits_def async_queue_def cn(2))
    show "distinct (concat (map W' (new # es)) @ q)"
      using w cW c(3) unfolding list.map W' by (auto simp: arp_waits_def W'_def)
    fix x
    assume x: "x \<in> set (new # es)"
    have wx: "path 0 (\<lambda>c. comp_next (conns st c)) (ae_compl (arp_entries st x)) (W x)" "\<forall>w \<in> set (W x). comp_ptr (conns st w) = w"
      "ae_status (arp_entries st x) = 0 \<and> W x = [] \<or> ae_status (arp_entries st x) = 1" if "x \<in> set es"
      using w that by (auto simp: arp_waits_def)
    show "path 0 (\<lambda>c. comp_next (conns st' c)) (ae_compl (arp_entries st' x)) (W' x)"
      using o [OF wx(1) cW] x n c(1) st1(6,8) by (auto simp: W'_def ent cn)
    show "comp_ptr (conns st' w) = w" if "w \<in> set (W' x)" for w
      using that wx(2) x st1(7,9) by (cases "w = c") (auto simp: W'_def cn split: if_splits)
    show "ae_status (arp_entries st' x) = 0 \<and> W' x = [] \<or> ae_status (arp_entries st' x) = 1"
      using wx(3) x n st1(5) by (auto simp: W'_def ent)
  qed
  moreover have "arp_view st' W' (new # es) = (arp_view st W es)(i \<mapsto> (new, Waiting [c]))"
  proof -
    have e: "map (\<lambda>p. (ae_ip (arp_entries st' p), p, arp_ans st' W' p)) es = map (\<lambda>p. (ae_ip (arp_entries st p), p, arp_ans st W p)) es"
      using n ip by (auto simp: arp_ans_def W'_def ent)
    have "arp_ans st' W' new = Waiting [c]"
      using st1(5) by (simp add: arp_ans_def W'_def ent)
    then show ?thesis
      unfolding arp_view_def list.map map_of.simps e by (simp add: ip(2))
  qed
  ultimately show ?thesis
    using l' unfolding arp_tabl_def Meq st'_def [symmetric] by metis
qed

text \<open>A request for an address that has no entry yet; the ARP request goes out if the outbox has room.\<close>

lemma length_arp_fill:
  "length (eth_addr (fpe (se_tas e))) = 6 \<Longrightarrow> length mac = 6 \<Longrightarrow> length (arp_bytes (arp_fill e mac i op)) = 42"
  by (simp add: arp_bytes_def arp_fill_def eth_bytes_def u16_bytes_def u32_bytes_def Let_def)

lemma map_view_put: "length bs < 18446744073709551616 \<Longrightarrow> map (mem_view (mem_put m a 0 bs) a) [0..<length bs] = bs"
  by (rule nth_equalityI) (simp_all add: mem_view_put)

definition sent :: "slow_env \<Rightarrow> slowpath \<Rightarrow> ktx_msg list \<Rightarrow> slowpath \<Rightarrow> u8 list \<Rightarrow> bool" where
  "sent e st ms st' bs \<longleftrightarrow>
     (if length ms < unat (txq_len (sp_tas st))
      then \<exists>m. outbox (se_tas e) (sp_tas st') (ms @ [m]) \<and> msg_bytes (shm (sp_tas st')) m = bs \<and>
        (\<forall>x \<in> set ms. msg_bytes (shm (sp_tas st')) x = msg_bytes (shm (sp_tas st)) x)
      else sp_tas st' = sp_tas st)"

lemma sent_cong: "sent e st1 ms st2 bs \<Longrightarrow> sp_tas st1 = sp_tas st \<Longrightarrow> sp_tas st' = sp_tas st2 \<Longrightarrow> sent e st ms st' bs"
  by (simp add: sent_def cong: if_cong)

lemma arp_tx_sends:
  assumes o: "outbox (se_tas e) (sp_tas st) ms" and ok: "evfd_write_ok (se_tas e)" and l: "length (arp_bytes p) = 42"
  obtains r st' where "arp_tx e st p = Inr (r, st')" "sent e st ms st' (arp_bytes p)" "st' = st\<lparr>sp_tas := sp_tas st'\<rparr>"
    "r = 0 \<longleftrightarrow> length ms < unat (txq_len (sp_tas st))"
proof (cases "length ms < unat (txq_len (sp_tas st))")
  case True
  let ?b = "txq_bufs (sp_tas st) 0 (txq_tail (sp_tas st) 0)"
  obtain t' where t': "kernel_tx (se_tas e) (se_tsc e) (sp_tas st) 42 [(0, arp_bytes p)] = Inr (0, t')"
    "outbox (se_tas e) t' (ms @ [Ktx_Packet ?b 42])" "\<forall>x \<in> set ms. msg_bytes (shm t') x = msg_bytes (shm (sp_tas st)) x"
    "msg_bytes (shm t') (Ktx_Packet ?b 42) = map (mem_view (mem_puts (shm (sp_tas st)) ?b [(0, arp_bytes p)]) ?b) [0..<unat (42 :: u16)]"
    by (rule kernel_tx_sends [OF o True _ ok, of "[(0, arp_bytes p)]" 42 "se_tsc e"]) (simp_all add: l)
  have "msg_bytes (shm t') (Ktx_Packet ?b 42) = arp_bytes p"
    unfolding t'(4) using map_view_put [of "arp_bytes p" "shm (sp_tas st)" ?b] l by simp
  then show thesis
    using t' True by (intro that [of 0 "st\<lparr>sp_tas := t'\<rparr>"]) (auto simp: arp_tx_def sent_def)
next
  case False
  have q: "ktx_queue (se_tas e) (sp_tas st) 0 ms"
    using o by (simp add: outbox_def)
  then have "length ms = unat (txq_len (sp_tas st))"
    using False by (auto simp: ktx_queue_def ring_holds_def)
  from kernel_tx_full [OF q this] show thesis
    using False by (intro that [of "-1" st]) (simp_all add: arp_tx_def sent_def)
qed

lemma arp_timers_insert:
  assumes "arp_timers M A" "\<And>j a. M j \<noteq> Some (new, a)"
  shows "arp_timers (M(i \<mapsto> (new, Waiting ws))) (A(ae_to new \<mapsto> TO_ARP_REQ))"
  using assms unfolding arp_timers_def by (auto split: if_splits)

lemma arp_tabl_lookup:
  assumes "arp_tabl st M q"
  shows "ae_lookup st i = Some (case M i of None \<Rightarrow> 0 | Some (p, _) \<Rightarrow> p)"
    "M i = Some (p, Resolved m) \<Longrightarrow> p \<noteq> 0 \<and> ae_status (arp_entries st p) = 0 \<and> ae_mac (arp_entries st p) = m"
    "M i = Some (p, Waiting ws) \<Longrightarrow> p \<noteq> 0 \<and> ae_status (arp_entries st p) \<noteq> 0"
proof -
  obtain es W where l: "arp_list st es" and Meq: "M = arp_view st W es"
    using assms by (auto simp: arp_tabl_def)
  show "ae_lookup st i = Some (case M i of None \<Rightarrow> 0 | Some (p, _) \<Rightarrow> p)"
    unfolding Meq by (rule ae_lookup_view [OF l])
  have ent: "p \<noteq> 0" "a = arp_ans st W p" if "M i = Some (p, a)" for a
    using that arp_list_nonnull [OF l] by (auto simp: Meq arp_view_Some [OF l])
  then show "M i = Some (p, Resolved m) \<Longrightarrow> p \<noteq> 0 \<and> ae_status (arp_entries st p) = 0 \<and> ae_mac (arp_entries st p) = m"
    "M i = Some (p, Waiting ws) \<Longrightarrow> p \<noteq> 0 \<and> ae_status (arp_entries st p) \<noteq> 0"
    by (fastforce simp: arp_ans_def split: if_splits)+
qed

lemma arp_tabl_remote_mac:
  assumes "arp_tabl st M q"
  shows "arp_tabl (mod_conn st c (cn_remote_mac_update f)) M q"
  by (rule arp_tabl_cong [OF assms]) simp_all

lemma arp_request_hit:
  assumes t: "arp_tabl st M q" and M: "M i = Some (p, Resolved m)"
  obtains st' where "arp_request e new st c i c = Some (Inr (0, st'))" "st' = mod_conn (mod_conn st c (cn_remote_mac_update (\<lambda>_. 0))) c (put_mac m)"
    "arp_tabl st' M q" "cn_remote_mac (conns st' c) = mac_u64 m"
proof -
  define st0 where "st0 = mod_conn st c (cn_remote_mac_update (\<lambda>_. 0))"
  have t0: "arp_tabl st0 M q"
    unfolding st0_def by (rule arp_tabl_remote_mac [OF t])
  have "arp_request e new st c i c = Some (Inr (0, mod_conn st0 c (put_mac m)))"
    unfolding arp_request_def st0_def [symmetric] using arp_tabl_lookup(1) [OF t0, of i] arp_tabl_lookup(2) [OF t0 M] M by simp
  moreover have "arp_tabl (mod_conn st0 c (put_mac m)) M q"
    by (rule arp_tabl_cong [OF t0]) (simp_all add: put_mac_def)
  ultimately show thesis
    by (intro that [of "mod_conn st0 c (put_mac m)"]) (simp_all add: st0_def put_mac_def)
qed

lemma arp_request_wait:
  assumes t: "arp_tabl st M q" and M: "M i = Some (p, Waiting ws)" and c: "c \<noteq> 0" "c \<notin> arp_waiting M" "c \<notin> set q"
  obtains st' where "arp_request e new st c i c = Some (Inr (1, st'))" "arp_tabl st' (M(i \<mapsto> (p, Waiting (c # ws)))) q"
    "timeout_mgr st' = timeout_mgr st" "sp_tas st' = sp_tas st"
proof -
  define st0 where "st0 = mod_conn st c (cn_remote_mac_update (\<lambda>_. 0))"
  have t0: "arp_tabl st0 M q"
    unfolding st0_def by (rule arp_tabl_remote_mac [OF t])
  define st' where "st' = upd_ae (mod_conn st0 c (\<lambda>x. x\<lparr>comp_ptr := c, comp_next := ae_compl (arp_entries st0 p)\<rparr>)) p (ae_compl_update (\<lambda>_. c))"
  have "arp_request e new st c i c = Some (Inr (1, st'))"
    unfolding arp_request_def st0_def [symmetric] using arp_tabl_lookup(1) [OF t0, of i] arp_tabl_lookup(3) [OF t0 M] M by (simp add: st'_def Let_def)
  moreover have "arp_tabl st' (M(i \<mapsto> (p, Waiting (c # ws)))) q"
    unfolding st'_def by (rule arp_tabl_wait [OF t0 M c])
  ultimately show thesis
    by (rule that) (simp_all add: st'_def st0_def)
qed

lemma arp_request_new:
  assumes t: "arp_tabl st M q" and M: "M i = None" and A: "to_armed_map (timeout_mgr st) A" "arp_timers M A"
    and o: "outbox (se_tas e) (sp_tas st) ms" "evfd_write_ok (se_tas e)" "length (eth_addr (fpe (se_tas e))) = 6"
    and c: "c \<noteq> 0" "c \<notin> arp_waiting M" "c \<notin> set q"
    and new: "new \<noteq> 0" "ae_to new \<noteq> 0" "\<And>i a. M i \<noteq> Some (new, a)" "A (ae_to new) = None" and to: "arp_to (se_cfg e) < 0x8000000"
  obtains st' where "arp_request e new st c i c = Some (Inr (1, st'))" "arp_tabl st' (M(i \<mapsto> (new, Waiting [c]))) q"
    "to_armed_map (timeout_mgr st') (A(ae_to new \<mapsto> TO_ARP_REQ))" "sent e st ms st' (arp_bytes (arp_fill e (replicate 6 0xff) i ARP_OPER_REQUEST))"
proof -
  define st0 where "st0 = mod_conn st c (cn_remote_mac_update (\<lambda>_. 0))"
  have t0: "arp_tabl st0 M q"
    unfolding st0_def by (rule arp_tabl_remote_mac [OF t])
  define st1 where "st1 = mod_conn (upd_ae st0 new (\<lambda>a. a\<lparr>ae_status := 1, ae_ip := i, ae_compl := c\<rparr>)) c (\<lambda>c'. c'\<lparr>comp_next := 0, comp_ptr := c\<rparr>)"
  have ob: "outbox (se_tas e) (sp_tas st1) ms"
    using o(1) by (simp add: st1_def st0_def)
  obtain r st2 where st2: "request_tx e st1 i = Inr (r, st2)" "st2 = st1\<lparr>sp_tas := sp_tas st2\<rparr>"
    "sent e st1 ms st2 (arp_bytes (arp_fill e (replicate 6 0xff) i ARP_OPER_REQUEST))"
    unfolding request_tx_def by (rule arp_tx_sends [OF ob o(2) length_arp_fill [OF o(3)], of "replicate 6 0xff" i ARP_OPER_REQUEST]) simp
  have "timeout_mgr st2 = timeout_mgr st"
    by (subst st2(2)) (simp add: st1_def st0_def)
  then obtain m where m: "util_timeout_arm (timeout_mgr st2) (ae_to new) (arp_to (se_cfg e)) TO_ARP_REQ (se_tsc e) (se_tsc_per_us e) = Some (Inr m)"
    "to_armed_map m (A(ae_to new \<mapsto> TO_ARP_REQ))"
    using util_timers.arm_law [OF A(1) new(4,2) to] by force
  define st3 where "st3 = (upd_ae st2 new (ae_timeout_update (\<lambda>_. arp_to (se_cfg e))))\<lparr>timeout_mgr := m\<rparr>"
  have "arp_request e new st c i c = Some (Inr (1, ae_insert st3 new))"
    unfolding arp_request_def st0_def [symmetric] using arp_tabl_lookup(1) [OF t0, of i] M new(1) st2(1) m(1)
    by (simp add: st1_def [symmetric] st3_def [symmetric] to_arm_def Let_def)
  moreover have f: "arp_table st3 = arp_table st0" "conn_async_q st3 = conn_async_q st0" "conns st3 = conns st1" "sp_tas st3 = sp_tas st2"
    "arp_entries st3 = (arp_entries st1)(new := (arp_entries st1 new)\<lparr>ae_timeout := arp_to (se_cfg e)\<rparr>)"
    unfolding st3_def by (simp_all, (subst st2(2), simp add: st1_def)+)
  have "arp_tabl (ae_insert st3 new) (M(i \<mapsto> (new, Waiting [c]))) q"
    by (rule arp_tabl_insert [OF t0 M new(1,3) c f(1,2)]) (simp_all add: f st1_def)
  moreover have "to_armed_map (timeout_mgr (ae_insert st3 new)) (A(ae_to new \<mapsto> TO_ARP_REQ))"
    using m(2) by (simp add: ae_insert_def Let_def st3_def)
  moreover have "sent e st ms (ae_insert st3 new) (arp_bytes (arp_fill e (replicate 6 0xff) i ARP_OPER_REQUEST))"
    by (rule sent_cong [OF st2(3)]) (simp_all add: st1_def st0_def f ae_insert_def Let_def)
  ultimately show thesis
    by (rule that)
qed

text \<open>
  C16: A request for the MAC address of an IP address.  A resolved address is copied to the
  connection at once; a request for an address that is being resolved waits with the others;
  for an unknown address a new entry is made, with its timeout armed, and an ARP request is
  broadcast if the outbox has room.  The table stays a well-formed doubly linked list with
  one entry per address, and no request waits twice.
\<close>

theorem arp_request_spec:
  assumes t: "arp_tabl st M q" and A: "to_armed_map (timeout_mgr st) A" "arp_timers M A"
    and o: "outbox (se_tas e) (sp_tas st) ms" "evfd_write_ok (se_tas e)" "length (eth_addr (fpe (se_tas e))) = 6"
    and c: "c \<noteq> 0" "c \<notin> arp_waiting M" "c \<notin> set q"
    and new: "new \<noteq> 0" "ae_to new \<noteq> 0" "\<And>i a. M i \<noteq> Some (new, a)" "A (ae_to new) = None" and to: "arp_to (se_cfg e) < 0x8000000"
  shows "\<exists>r st' A'. arp_request e new st c i c = Some (Inr (r, st')) \<and> to_armed_map (timeout_mgr st') A' \<and>
    (case M i of
       Some (p, Resolved m) \<Rightarrow> r = 0 \<and> cn_remote_mac (conns st' c) = mac_u64 m \<and> arp_tabl st' M q \<and> A' = A
     | Some (p, Waiting ws) \<Rightarrow> r = 1 \<and> arp_tabl st' (M(i \<mapsto> (p, Waiting (c # ws)))) q \<and> A' = A
     | None \<Rightarrow> r = 1 \<and> arp_tabl st' (M(i \<mapsto> (new, Waiting [c]))) q \<and> A' = A(ae_to new \<mapsto> TO_ARP_REQ) \<and>
         arp_timers (M(i \<mapsto> (new, Waiting [c]))) A' \<and> sent e st ms st' (arp_bytes (arp_fill e (replicate 6 0xff) i ARP_OPER_REQUEST)))"
proof -
  consider (none) "M i = None" | (res) p m where "M i = Some (p, Resolved m)" | (wait) p ws where "M i = Some (p, Waiting ws)"
    by (metis arp_answer.exhaust option.exhaust surj_pair)
  then show ?thesis
  proof cases
    case none
    obtain st' where "arp_request e new st c i c = Some (Inr (1, st'))" "arp_tabl st' (M(i \<mapsto> (new, Waiting [c]))) q"
      "to_armed_map (timeout_mgr st') (A(ae_to new \<mapsto> TO_ARP_REQ))" "sent e st ms st' (arp_bytes (arp_fill e (replicate 6 0xff) i ARP_OPER_REQUEST))"
      by (rule arp_request_new [OF t none A o c new to])
    then show ?thesis
      using none arp_timers_insert [OF A(2) new(3)] by (intro exI [of _ 1] exI [of _ st'] exI [of _ "A(ae_to new \<mapsto> TO_ARP_REQ)"]) simp
  next
    case (res p m)
    from arp_request_hit [OF t res, of e new c] obtain st' where "arp_request e new st c i c = Some (Inr (0, st'))"
      "st' = mod_conn (mod_conn st c (cn_remote_mac_update (\<lambda>_. 0))) c (put_mac m)" "arp_tabl st' M q" "cn_remote_mac (conns st' c) = mac_u64 m"
      by blast
    then show ?thesis
      using res A(1) by auto
  next
    case (wait p ws)
    from arp_request_wait [OF t wait c, of e new] obtain st' where "arp_request e new st c i c = Some (Inr (1, st'))"
      "arp_tabl st' (M(i \<mapsto> (p, Waiting (c # ws)))) q" "timeout_mgr st' = timeout_mgr st" "sp_tas st' = sp_tas st"
      by blast
    then show ?thesis
      using wait A(1) by auto
  qed
qed

section \<open>Answers and timeouts\<close>

text \<open>Once the requests of one entry are completed, the others wait as before.\<close>

lemma arp_waits_distinct: "arp_waits st es W q \<Longrightarrow> p \<in> set es \<Longrightarrow> distinct (W p @ q)"
  by (auto simp: arp_waits_def dest: split_list)

lemma arp_waits_others:
  assumes w: "arp_waits st (as @ p # bs) W q" and d: "distinct (as @ p # bs)"
    and q: "async_queue st' (rev (W p) @ q)" and cn: "\<And>x. x \<notin> set (W p) \<Longrightarrow> conns st' x = conns st x"
    and ae: "\<And>x. x \<in> set (as @ bs) \<Longrightarrow> ae_status (arp_entries st' x) = ae_status (arp_entries st x) \<and>
      ae_compl (arp_entries st' x) = ae_compl (arp_entries st x)"
  shows "arp_waits st' (as @ bs) W (rev (W p) @ q)"
  unfolding arp_waits_def
proof (intro conjI ballI)
  show "async_queue st' (rev (W p) @ q)"
    by (rule q)
  have dw: "distinct (concat (map W as) @ W p @ concat (map W bs) @ q)"
    using w by (simp add: arp_waits_def)
  then show "distinct (concat (map W (as @ bs)) @ rev (W p) @ q)"
    by auto
  fix x
  assume x: "x \<in> set (as @ bs)"
  have wx: "path 0 (\<lambda>c. comp_next (conns st c)) (ae_compl (arp_entries st x)) (W x)" "\<forall>w \<in> set (W x). comp_ptr (conns st w) = w"
    "ae_status (arp_entries st x) = 0 \<and> W x = [] \<or> ae_status (arp_entries st x) = 1"
    using w x by (auto simp: arp_waits_def)
  have c: "conns st' y = conns st y" if "y \<in> set (W x)" for y
    using that x dw by (intro cn) auto
  show "path 0 (\<lambda>c. comp_next (conns st' c)) (ae_compl (arp_entries st' x)) (W x)"
    unfolding ae [OF x, THEN conjunct2] by (rule path_frame [OF wx(1)]) (simp add: c)
  show "comp_ptr (conns st' w) = w" if "w \<in> set (W x)" for w
    using wx(2) that c by simp
  show "ae_status (arp_entries st' x) = 0 \<and> W x = [] \<or> ae_status (arp_entries st' x) = 1"
    using wx(3) ae [OF x] by simp
qed

lemma arp_tabl_resolve:
  assumes l: "arp_list st es" and w: "arp_waits st es W q" and p: "p \<in> set es"
    and q: "async_queue st' (rev (W p) @ q)" and cn: "\<And>x. x \<notin> set (W p) \<Longrightarrow> conns st' x = conns st x"
    and st': "arp_table st' = arp_table st" "arp_entries st' = (arp_entries st)(p := (arp_entries st p)\<lparr>ae_mac := m, ae_status := 0, ae_compl := 0\<rparr>)"
  shows "arp_tabl st' ((arp_view st W es)(ae_ip (arp_entries st p) \<mapsto> (p, Resolved m))) (rev (W p) @ q)"
proof -
  define W' where "W' = W(p := [])"
  obtain as bs where es: "es = as @ p # bs"
    using p by (auto dest: split_list)
  have d: "distinct (as @ p # bs)"
    using l es by (simp add: arp_list_def)
  have l': "arp_list st' es"
    by (rule arp_list_cong [OF l st'(1)]) (simp add: st'(2))
  have o: "arp_waits st' (as @ bs) W (rev (W p) @ q)"
    by (rule arp_waits_others [OF w [unfolded es] d q cn]) (use d in \<open>auto simp: st'(2)\<close>)
  have W': "map W' as = map W as" "map W' bs = map W bs" "W' p = []" and Wx: "\<And>x. x \<in> set (as @ bs) \<Longrightarrow> W' x = W x"
    using d by (auto simp: W'_def)
  have "concat (map W' es) = concat (map W (as @ bs))"
    unfolding es map_append list.map W' by simp
  moreover have "path 0 (\<lambda>c. comp_next (conns st' c)) (ae_compl (arp_entries st' x)) (W' x) \<and>
      (\<forall>w\<in>set (W' x). comp_ptr (conns st' w) = w) \<and>
      (ae_status (arp_entries st' x) = 0 \<and> W' x = [] \<or> ae_status (arp_entries st' x) = 1)" if "x \<in> set es" for x
  proof (cases "x = p")
    case True
    then show ?thesis
      by (simp add: st'(2) W'_def)
  next
    case False
    then have "x \<in> set (as @ bs)"
      using that es by auto
    then show ?thesis
      using o Wx unfolding arp_waits_def by simp
  qed
  ultimately have "arp_waits st' es W' (rev (W p) @ q)"
    using o unfolding arp_waits_def by simp
  moreover have "arp_view st' W' es = (arp_view st W es)(ae_ip (arp_entries st p) \<mapsto> (p, arp_ans st' W' p))"
    by (rule arp_view_upd [OF l l' p]) (auto simp: st'(2) W'_def arp_ans_def)
  moreover have "arp_ans st' W' p = Resolved m"
    by (simp add: arp_ans_def st'(2))
  ultimately show ?thesis
    using l' unfolding arp_tabl_def by metis
qed

lemma arp_timers_resolve:
  assumes "arp_timers M A" "M i = Some (p, a)" "\<And>j b. M j = Some (p, b) \<Longrightarrow> j = i"
  shows "arp_timers (M(i \<mapsto> (p, Resolved m))) (A(ae_to p := None))"
  unfolding arp_timers_def
proof (intro allI impI)
  fix j x b
  assume j: "(M(i \<mapsto> (p, Resolved m))) j = Some (x, b)"
  show "(A(ae_to p := None)) (ae_to x) = (case b of Resolved _ \<Rightarrow> None | Waiting _ \<Rightarrow> Some TO_ARP_REQ)"
  proof (cases "j = i")
    case True
    then show ?thesis
      using j by auto
  next
    case False
    then have "M j = Some (x, b)" "x \<noteq> p"
      using j assms(3) [of j b] by auto
    then show ?thesis
      using assms(1) by (simp add: arp_timers_def)
  qed
qed

lemma arp_reply_disarm:
  assumes A: "to_armed_map (timeout_mgr st) A" "arp_timers M A" and px: "M i = Some (p, arp_ans st W p)"
  obtains mg where "(if ae_status (arp_entries st p) = 1 then to_disarm st (ae_to p) else Inr st) = Inr (st\<lparr>timeout_mgr := mg\<rparr>)"
    "to_armed_map mg (if ae_status (arp_entries st p) = 1 then A(ae_to p := None) else A)"
proof (cases "ae_status (arp_entries st p) = 1")
  case True
  then have "A (ae_to p) \<noteq> None"
    using A(2) px by (simp add: arp_timers_def arp_ans_def)
  from util_timers.disarm_law [OF A(1) this] show thesis
    using True that by (auto simp: to_disarm_def)
next
  case False
  then show thesis
    using that [of "timeout_mgr st"] A(1) by simp
qed

lemma arp_reply_known:
  assumes l: "arp_list st es" and w: "arp_waits st es W q" and A: "to_armed_map (timeout_mgr st) A" "arp_timers (arp_view st W es) A"
    and px: "arp_view st W es i = Some (p, x)" and a: "f_beui32 (spa a) = i" "sha a = m"
  obtains st' where "arp_reply st a = Some (Inr st')" "arp_tabl st' ((arp_view st W es)(i \<mapsto> (p, Resolved m))) (rev (W p) @ q)"
    "to_armed_map (timeout_mgr st') (if ae_status (arp_entries st p) = 1 then A(ae_to p := None) else A)"
    "\<And>y. y \<in> set (W p) \<Longrightarrow> comp_status (conns st' y) = 0 \<and> cn_remote_mac (conns st' y) = cn_remote_mac (put_mac m (conns st y))"
proof -
  have e: "p \<in> set es" "i = ae_ip (arp_entries st p)" "x = arp_ans st W p" "p \<noteq> 0"
    using px arp_list_nonnull [OF l] by (auto simp: arp_view_Some [OF l])
  have look: "ae_lookup st i = Some p"
    using ae_lookup_view [OF l, of i W] px by simp
  have wp: "path 0 (\<lambda>c. comp_next (conns st c)) (ae_compl (arp_entries st p)) (W p)" "\<forall>w \<in> set (W p). comp_ptr (conns st w) = w"
    "async_queue st q" "distinct (W p @ q)"
    using w e(1) arp_waits_distinct [OF w e(1)] by (auto simp: arp_waits_def)
  obtain mg where mg: "(if ae_status (arp_entries st p) = 1 then to_disarm st (ae_to p) else Inr st) = Inr (st\<lparr>timeout_mgr := mg\<rparr>)"
    "to_armed_map mg (if ae_status (arp_entries st p) = 1 then A(ae_to p := None) else A)"
    by (rule arp_reply_disarm [OF A px [unfolded e(3)]])
  define st1 where "st1 = upd_ae (st\<lparr>timeout_mgr := mg\<rparr>) p (\<lambda>x. x\<lparr>ae_mac := m, ae_status := 0\<rparr>)"
  have s1: "conns st1 = conns st" "ae_compl (arp_entries st1 p) = ae_compl (arp_entries st p)" "async_queue st1 q" "timeout_mgr st1 = mg"
    using wp(3) by (simp_all add: st1_def async_queue_def)
  obtain st2 where st2: "arp_complete m (ae_compl (arp_entries st1 p)) st1 = Some st2" "async_queue st2 (rev (W p) @ q)"
    "completed (\<lambda>c. (put_mac m c)\<lparr>comp_status := 0\<rparr>) st1 (W p) st2"
    using arp_complete_done [of st1 "ae_compl (arp_entries st1 p)" "W p" q m] wp s1 by auto
  define st3 where "st3 = upd_ae st2 p (ae_compl_update (\<lambda>_. 0))"
  have "arp_reply st a = Some (Inr st3)"
    unfolding arp_reply_def a using look e(4) mg(1) st2(1) s1(2) by (simp add: st1_def [symmetric] st3_def Let_def)
  moreover have c2: "st2 = st1\<lparr>conns := conns st2, conn_async_q := conn_async_q st2, sp_tas := (sp_tas st1)\<lparr>evfd_writes := evfd_writes (sp_tas st2)\<rparr>\<rparr>"
    "\<And>y. conns st2 y = (if y \<in> set (W p) then ((put_mac m (conns st y))\<lparr>comp_status := 0\<rparr>)\<lparr>comp_next := comp_next (conns st2 y)\<rparr> else conns st y)"
    using st2(3) unfolding completed_def s1(1) by blast+
  have f: "timeout_mgr st3 = mg" "arp_table st3 = arp_table st" "conns st3 = conns st2"
    "arp_entries st3 = (arp_entries st)(p := (arp_entries st p)\<lparr>ae_mac := m, ae_status := 0, ae_compl := 0\<rparr>)"
    unfolding st3_def by (simp_all, (subst c2(1), simp add: st1_def)+)
  have q3: "async_queue st3 (rev (W p) @ q)" and cn: "\<And>x. x \<notin> set (W p) \<Longrightarrow> conns st3 x = conns st x"
    using st2(2) by (simp add: st3_def async_queue_def) (simp add: f(3), subst c2(2), simp)
  have "arp_tabl st3 ((arp_view st W es)(i \<mapsto> (p, Resolved m))) (rev (W p) @ q)"
    unfolding e(2) by (rule arp_tabl_resolve [OF l w e(1) q3 cn f(2,4)])
  moreover have "comp_status (conns st3 y) = 0 \<and> cn_remote_mac (conns st3 y) = cn_remote_mac (put_mac m (conns st y))" if "y \<in> set (W p)" for y
    unfolding f(3) by (subst (1 2) c2(2)) (simp add: that)
  ultimately show thesis
    using mg(2) f(1) by (intro that [of st3]) simp_all
qed

text \<open>
  C17: A reply resolves an address: its entry holds the MAC address of the sender, the timeout of
  the entry is disarmed, every connection that waited for the address gets it and is handed to
  the TCP code as completed, the one that asked last first.  A reply nobody asked for changes nothing.
\<close>

theorem arp_reply_resolves:
  assumes t: "arp_tabl st M q" and A: "to_armed_map (timeout_mgr st) A" "arp_timers M A"
    and p: "a = arp (arp_of_bytes pkt)" "f_beui16 (htype a) = ARP_HTYPE_ETHERNET" "f_beui16 (ptype a) = ARP_PTYPE_IPV4" "hlen a = 6" "plen a = 4"
      "f_beui16 (oper a) = ARP_OPER_REPLY"
  defines "i \<equiv> f_beui32 (spa a)" and "m \<equiv> sha a"
  shows "\<exists>st' A'. arp_packet e st pkt len = Some (Inr st') \<and> to_armed_map (timeout_mgr st') A' \<and>
    (case M i of
       None \<Rightarrow> st' = st \<and> A' = A
     | Some (p, Resolved m') \<Rightarrow> arp_tabl st' (M(i \<mapsto> (p, Resolved m))) q \<and> A' = A
     | Some (p, Waiting ws) \<Rightarrow> arp_tabl st' (M(i \<mapsto> (p, Resolved m))) (rev ws @ q) \<and> A' = A(ae_to p := None) \<and>
         arp_timers (M(i \<mapsto> (p, Resolved m))) A' \<and>
         (\<forall>w \<in> set ws. comp_status (conns st' w) = 0 \<and> cn_remote_mac (conns st' w) = cn_remote_mac (put_mac m (conns st w))))"
proof -
  obtain es W where l: "arp_list st es" and w: "arp_waits st es W q" and Meq: "M = arp_view st W es"
    using t by (auto simp: arp_tabl_def)
  have run: "arp_packet e st pkt len = arp_reply st a"
    using p by (simp add: arp_packet_def Let_def)
  show ?thesis
  proof (cases "M i")
    case None
    then have "arp_packet e st pkt len = Some (Inr st)"
      using arp_tabl_lookup(1) [OF t, of i] unfolding run arp_reply_def i_def by simp
    then show ?thesis
      using None A(1) by auto
  next
    case (Some px)
    obtain p x where px: "M i = Some (p, x)"
      using Some by (metis surj_pair)
    have e: "p \<in> set es" "i = ae_ip (arp_entries st p)" "x = arp_ans st W p"
      using px by (auto simp: Meq arp_view_Some [OF l])
    have s: "ae_status (arp_entries st p) = 0 \<and> W p = [] \<or> ae_status (arp_entries st p) = 1"
      using w e(1) by (auto simp: arp_waits_def)
    obtain st' where st': "arp_reply st a = Some (Inr st')" "arp_tabl st' (M(i \<mapsto> (p, Resolved m))) (rev (W p) @ q)"
      "to_armed_map (timeout_mgr st') (if ae_status (arp_entries st p) = 1 then A(ae_to p := None) else A)"
      "\<And>y. y \<in> set (W p) \<Longrightarrow> comp_status (conns st' y) = 0 \<and> cn_remote_mac (conns st' y) = cn_remote_mac (put_mac m (conns st y))"
      unfolding Meq by (rule arp_reply_known [OF l w A(1) A(2) [unfolded Meq] px [unfolded Meq] i_def [THEN meta_eq_to_obj_eq, symmetric] m_def [THEN meta_eq_to_obj_eq, symmetric]]) blast
    have "arp_timers (M(i \<mapsto> (p, Resolved m))) (A(ae_to p := None))"
      by (rule arp_timers_resolve [OF A(2) px]) (auto simp: Meq arp_view_Some [OF l] e(2))
    then show ?thesis
      using px s st' unfolding run by (intro exI [of _ st'] exI) (auto simp: e(3) arp_ans_def)
  qed
qed

lemma ae_remove_entries:
  assumes l: "arp_list st (as @ p # bs)"
  defines "st' \<equiv> ae_remove st p"
  shows "arp_list st' (as @ bs)"
    "\<And>x. x \<in> set (as @ bs) \<Longrightarrow> ae_ip (arp_entries st' x) = ae_ip (arp_entries st x) \<and> ae_mac (arp_entries st' x) = ae_mac (arp_entries st x) \<and>
       ae_status (arp_entries st' x) = ae_status (arp_entries st x) \<and> ae_compl (arp_entries st' x) = ae_compl (arp_entries st x)"
proof -
  let ?n = "\<lambda>p. ae_next (arp_entries st p)" and ?p = "\<lambda>p. ae_prev (arp_entries st p)"
  have d: "dlist 0 ?n ?p (arp_table st) (last_or 0 (as @ p # bs)) (as @ p # bs)" "distinct (as @ bs)" "p \<notin> set (as @ bs)"
    and z: "0 \<notin> set as" "0 \<notin> set bs"
    using l arp_list_nonnull [OF l] by (auto simp: arp_list_def)
  have np: "?p p = last_or 0 as" "?n p = hd_or 0 bs"
    using dlist_node [OF d(1)] by simp_all
  have nz: "last_or 0 as = 0 \<longleftrightarrow> as = []" "hd_or 0 bs = 0 \<longleftrightarrow> bs = []"
    using z by (simp_all add: last_or_nil hd_or_nil)
  have ne: "as \<noteq> [] \<Longrightarrow> bs \<noteq> [] \<Longrightarrow> last as \<noteq> hd bs"
    using d(2) by (metis IntI distinct_append empty_iff hd_in_set last_in_set)
  have ent: "arp_entries st' x = (if bs \<noteq> [] \<and> x = hd bs then (arp_entries st x)\<lparr>ae_prev := last_or 0 as\<rparr>
      else if as \<noteq> [] \<and> x = last as then (arp_entries st x)\<lparr>ae_next := hd_or 0 bs\<rparr> else arp_entries st x)" for x
    unfolding st'_def ae_remove_def Let_def np using nz ne
    by (cases "as = []"; cases "bs = []") (simp_all add: last_or_last hd_or_hd)
  have tab: "arp_table st' = (if as = [] then hd_or 0 bs else arp_table st)"
    unfolding st'_def ae_remove_def Let_def np using nz by simp
  have sp: "\<And>y. y \<in> set as \<Longrightarrow> bs \<noteq> [] \<Longrightarrow> y \<noteq> hd bs" "\<And>y. y \<in> set bs \<Longrightarrow> as \<noteq> [] \<Longrightarrow> y \<noteq> last as"
    using d(2) by (metis IntI distinct_append empty_iff hd_in_set last_in_set)+
  have "dlist 0 (\<lambda>p. ae_next (arp_entries st' p)) (\<lambda>p. ae_prev (arp_entries st' p))
      (if as = [] then hd_or 0 bs else arp_table st) (if bs = [] then last_or 0 as else last_or 0 (as @ p # bs)) (as @ bs)"
    by (rule dlist_removeI [OF d(1,2)]) (use sp in \<open>auto simp: ent\<close>)
  moreover have "(if bs = [] then last_or 0 as else last_or 0 (as @ p # bs)) = last_or 0 (as @ bs)"
    by (simp add: last_or_def)
  moreover show f: "ae_ip (arp_entries st' x) = ae_ip (arp_entries st x) \<and> ae_mac (arp_entries st' x) = ae_mac (arp_entries st x) \<and>
       ae_status (arp_entries st' x) = ae_status (arp_entries st x) \<and> ae_compl (arp_entries st' x) = ae_compl (arp_entries st x)"
    if "x \<in> set (as @ bs)" for x
    by (simp add: ent)
  then have ips: "map (\<lambda>p. ae_ip (arp_entries st' p)) (as @ bs) = map (\<lambda>p. ae_ip (arp_entries st p)) (as @ bs)"
    by simp
  ultimately show "arp_list st' (as @ bs)"
    using l unfolding arp_list_def ips tab by simp
qed

lemma arp_view_remove:
  assumes l: "arp_list st (as @ p # bs)" and l': "arp_list st' (as @ bs)"
    and o: "\<And>x. x \<in> set (as @ bs) \<Longrightarrow> ae_ip (arp_entries st' x) = ae_ip (arp_entries st x) \<and> arp_ans st' W x = arp_ans st W x"
  shows "arp_view st' W (as @ bs) = (arp_view st W (as @ p # bs))(ae_ip (arp_entries st p) := None)"
proof -
  have "ae_ip (arp_entries st p) \<notin> (\<lambda>p. ae_ip (arp_entries st p)) ` set (as @ bs)"
    using l by (auto simp: arp_list_def)
  then have n: "map_of (map (\<lambda>p. (ae_ip (arp_entries st p), p, arp_ans st W p)) as) (ae_ip (arp_entries st p)) = None"
    "map_of (map (\<lambda>p. (ae_ip (arp_entries st p), p, arp_ans st W p)) bs) (ae_ip (arp_entries st p)) = None"
    by (auto simp: map_of_eq_None_iff image_image)
  have e: "map (\<lambda>p. (ae_ip (arp_entries st' p), p, arp_ans st' W p)) (as @ bs) = map (\<lambda>p. (ae_ip (arp_entries st p), p, arp_ans st W p)) (as @ bs)"
    using o by simp
  show ?thesis
    unfolding arp_view_def e using n by (auto simp: map_add_def fun_eq_iff split: option.splits)
qed

lemma arp_tabl_remove:
  assumes l: "arp_list st es" and w: "arp_waits st es W q" and p: "p \<in> set es"
    and q: "async_queue st2 (rev (W p) @ q)" and cn: "\<And>x. x \<notin> set (W p) \<Longrightarrow> conns st2 x = conns st x"
    and st2: "arp_table st2 = arp_table st" "arp_entries st2 = arp_entries st"
  shows "arp_tabl (ae_remove st2 p) ((arp_view st W es)(ae_ip (arp_entries st p) := None)) (rev (W p) @ q)"
proof -
  let ?st = "ae_remove st2 p"
  obtain as bs where es: "es = as @ p # bs"
    using p by (auto dest: split_list)
  have l2: "arp_list st2 (as @ p # bs)"
    using arp_list_cong [OF l st2(1)] st2(2) es by simp
  note r = ae_remove_entries [OF l2]
  have c: "conns ?st = conns st2" "conn_async_q ?st = conn_async_q st2"
    by (simp_all add: ae_remove_def Let_def)
  have q': "async_queue ?st (rev (W p) @ q)"
    using q unfolding async_queue_def c .
  have "distinct (as @ p # bs)"
    using l es by (simp add: arp_list_def)
  from arp_waits_others [OF w [unfolded es] this q'] have "arp_waits ?st (as @ bs) W (rev (W p) @ q)"
    using r(2) st2(2) cn c by simp
  moreover have "arp_view ?st W (as @ bs) = (arp_view st W (as @ p # bs))(ae_ip (arp_entries st p) := None)"
    by (rule arp_view_remove [OF l [unfolded es] r(1)]) (use r(2) st2(2) in \<open>simp add: arp_ans_def\<close>)
  ultimately show ?thesis
    using r(1) unfolding arp_tabl_def es by metis
qed

lemma arp_tabl_timeout:
  assumes "arp_tabl st M q"
  shows "arp_tabl (upd_ae st p (ae_timeout_update f)) M q"
proof -
  obtain es W where l: "arp_list st es" and w: "arp_waits st es W q" and Meq: "M = arp_view st W es"
    using assms by (auto simp: arp_tabl_def)
  let ?st = "upd_ae st p (ae_timeout_update f)"
  have "arp_list ?st es"
    by (rule arp_list_cong [OF l]) simp_all
  moreover have "arp_waits ?st es W q"
    using w by (simp add: arp_waits_def async_queue_def)
  moreover have "arp_ans ?st W x = arp_ans st W x" "ae_ip (arp_entries ?st x) = ae_ip (arp_entries st x)" for x
    by (simp_all add: arp_ans_def)
  then have "arp_view ?st W es = arp_view st W es"
    by (simp only: arp_view_def)
  ultimately show ?thesis
    unfolding arp_tabl_def Meq by metis
qed

lemma arp_timers_remove:
  assumes l: "arp_list st es" and p: "i = ae_ip (arp_entries st p)" and A: "arp_timers (arp_view st W es) (A(ae_to p \<mapsto> TO_ARP_REQ))"
  shows "arp_timers ((arp_view st W es)(i := None)) A"
  unfolding arp_timers_def
proof (intro allI impI)
  fix j x b
  assume "((arp_view st W es)(i := None)) j = Some (x, b)"
  then have "arp_view st W es j = Some (x, b)" "x \<noteq> p"
    by (auto simp: arp_view_Some [OF l] p split: if_splits)
  moreover from this(1) have "(A(ae_to p \<mapsto> TO_ARP_REQ)) (ae_to x) = (case b of Resolved _ \<Rightarrow> None | Waiting _ \<Rightarrow> Some TO_ARP_REQ)"
    using A unfolding arp_timers_def by blast
  ultimately show "A (ae_to x) = (case b of Resolved _ \<Rightarrow> None | Waiting _ \<Rightarrow> Some TO_ARP_REQ)"
    by simp
qed

lemma arp_timeout_gives_up:
  assumes l: "arp_list st es" and w: "arp_waits st es W q" and p: "p \<in> set es" "ae_status (arp_entries st p) \<noteq> 0"
    and us: "ae_timeout (arp_entries st p) * 2 \<ge> arp_to_max (se_cfg e)"
  obtains st' where "arp_timeout e st (ae_to p) ty = Some (Inr st')"
    "arp_tabl st' ((arp_view st W es)(ae_ip (arp_entries st p) := None)) (rev (W p) @ q)" "timeout_mgr st' = timeout_mgr st"
    "\<And>y. y \<in> set (W p) \<Longrightarrow> comp_status (conns st' y) = - 1"
proof -
  have wp: "path 0 (\<lambda>c. comp_next (conns st c)) (ae_compl (arp_entries st p)) (W p)" "async_queue st q" "distinct (W p @ q)"
    using w p(1) arp_waits_distinct [OF w p(1)] by (auto simp: arp_waits_def)
  obtain st2 where st2: "arp_give_up (ae_compl (arp_entries st p)) st = Some st2" "async_queue st2 (rev (W p) @ q)"
    "completed (comp_status_update (\<lambda>_. - 1)) st (W p) st2"
    using arp_give_up_done [OF wp] by blast
  have c2: "st2 = st\<lparr>conns := conns st2, conn_async_q := conn_async_q st2, sp_tas := (sp_tas st)\<lparr>evfd_writes := evfd_writes (sp_tas st2)\<rparr>\<rparr>"
    "\<And>y. conns st2 y = (if y \<in> set (W p) then (comp_status_update (\<lambda>_. - 1) (conns st y))\<lparr>comp_next := comp_next (conns st2 y)\<rparr> else conns st y)"
    using st2(3) unfolding completed_def by blast+
  have f: "timeout_mgr st2 = timeout_mgr st" "arp_table st2 = arp_table st" "arp_entries st2 = arp_entries st"
    by (subst c2(1), simp)+
  have cn: "conns st2 x = conns st x" if "x \<notin> set (W p)" for x
    by (subst c2(2)) (simp add: that)
  have "comp_status (conns st2 y) = - 1" if "y \<in> set (W p)" for y
    by (subst c2(2)) (use that in simp)
  moreover have "timeout_mgr (ae_remove st2 p) = timeout_mgr st" "conns (ae_remove st2 p) = conns st2"
    using f(1) by (simp_all add: ae_remove_def Let_def)
  moreover have "arp_timeout e st (ae_to p) ty = Some (Inr (ae_remove st2 p))"
    using us p(2) st2(1) by (simp add: arp_timeout_def Let_def)
  ultimately show thesis
    using arp_tabl_remove [OF l w p(1) st2(2) cn f(2,3)] by (intro that [of "ae_remove st2 p"]) simp_all
qed

lemma arp_timeout_repeats:
  assumes t: "arp_tabl st M q" and p: "ae_status (arp_entries st p) \<noteq> 0" "ae_ip (arp_entries st p) = i"
    and A: "to_armed_map (timeout_mgr st) A" "A (ae_to p) = None" "ae_to p \<noteq> 0" and to: "arp_to_max (se_cfg e) \<le> 0x8000000"
    and o: "outbox (se_tas e) (sp_tas st) ms" "evfd_write_ok (se_tas e)" "length (eth_addr (fpe (se_tas e))) = 6"
    and u: "us = ae_timeout (arp_entries st p) * 2" "us < arp_to_max (se_cfg e)"
  obtains st' where "arp_timeout e st (ae_to p) ty = Some (Inr st')" "arp_tabl st' M q" "to_armed_map (timeout_mgr st') (A(ae_to p \<mapsto> TO_ARP_REQ))"
    "to_due (timeout_mgr st') = (to_due (timeout_mgr st))(ae_to p := us_from (se_tsc e) (se_tsc_per_us e) us)"
    "ae_timeout (arp_entries st' p) = us" "sent e st ms st' (arp_bytes (arp_fill e (replicate 6 0xff) i ARP_OPER_REQUEST))"
proof -
  have us: "us < 0x8000000"
    using u(2) to by simp
  obtain r st2 where st2: "request_tx e st i = Inr (r, st2)" "st2 = st\<lparr>sp_tas := sp_tas st2\<rparr>"
    "sent e st ms st2 (arp_bytes (arp_fill e (replicate 6 0xff) i ARP_OPER_REQUEST))"
    unfolding request_tx_def by (rule arp_tx_sends [OF o(1,2) length_arp_fill [OF o(3)], of "replicate 6 0xff" i ARP_OPER_REQUEST]) simp
  have f: "timeout_mgr st2 = timeout_mgr st"
    by (subst st2(2)) simp
  obtain m where m: "util_timeout_arm (timeout_mgr st2) (ae_to p) us TO_ARP_REQ (se_tsc e) (se_tsc_per_us e) = Some (Inr m)"
    "to_armed_map m (A(ae_to p \<mapsto> TO_ARP_REQ))" "to_due m = (to_due (timeout_mgr st))(ae_to p := us_from (se_tsc e) (se_tsc_per_us e) us)"
    using util_timers.arm_law [OF A us, of TO_ARP_REQ "se_tsc e" "se_tsc_per_us e"] f by auto
  define st3 where "st3 = (upd_ae st2 p (ae_timeout_update (\<lambda>_. us)))\<lparr>timeout_mgr := m\<rparr>"
  have "arp_timeout e st (ae_to p) ty = Some (Inr st3)"
    using u p st2(1) m(1) by (simp add: arp_timeout_def u(1) [symmetric] not_le [symmetric] st3_def to_arm_def Let_def)
  moreover have "arp_tabl st2 M q"
    by (rule arp_tabl_cong [OF t]) (subst st2(2), simp)+
  then have "arp_tabl st3 M q"
    by (rule arp_tabl_cong [OF arp_tabl_timeout]) (simp_all add: st3_def)
  moreover have "sent e st ms st3 (arp_bytes (arp_fill e (replicate 6 0xff) i ARP_OPER_REQUEST))"
    by (rule sent_cong [OF st2(3)]) (simp_all add: st3_def)
  ultimately show thesis
    using m(2,3) by (intro that [of st3]) (simp_all add: st3_def)
qed

text \<open>
  C18: The timeout of an entry.  It never fires on a resolved entry, so the handler does not
  abort.  If twice the time is below the configured maximum, the request is sent again and the timeout is
  armed to fire after twice the time, while all other timeouts stay due when they were; as soon as twice the
  time reaches the maximum, every connection that waits is handed back as failed, the newest first, and the entry is removed.
\<close>

theorem arp_timeout_spec:
  assumes t: "arp_tabl st M q" and M: "M i = Some (p, Waiting ws)" and A: "to_armed_map (timeout_mgr st) A" "A (ae_to p) = None"
    and tm: "arp_timers M (A(ae_to p \<mapsto> TO_ARP_REQ))" "ae_to p \<noteq> 0" "arp_to_max (se_cfg e) \<le> 0x8000000"
    and o: "outbox (se_tas e) (sp_tas st) ms" "evfd_write_ok (se_tas e)" "length (eth_addr (fpe (se_tas e))) = 6"
  defines "us \<equiv> ae_timeout (arp_entries st p) * 2"
  shows "\<exists>st'. arp_timeout e st (ae_to p) ty = Some (Inr st') \<and>
    (if us \<ge> arp_to_max (se_cfg e)
     then arp_tabl st' (M(i := None)) (rev ws @ q) \<and> timeout_mgr st' = timeout_mgr st \<and> arp_timers (M(i := None)) A \<and>
       (\<forall>w \<in> set ws. comp_status (conns st' w) = - 1)
     else arp_tabl st' M q \<and> to_armed_map (timeout_mgr st') (A(ae_to p \<mapsto> TO_ARP_REQ)) \<and> ae_timeout (arp_entries st' p) = us \<and>
       to_due (timeout_mgr st') = (to_due (timeout_mgr st))(ae_to p := us_from (se_tsc e) (se_tsc_per_us e) us) \<and>
       sent e st ms st' (arp_bytes (arp_fill e (replicate 6 0xff) i ARP_OPER_REQUEST)))"
proof -
  obtain es W where l: "arp_list st es" and w: "arp_waits st es W q" and Meq: "M = arp_view st W es"
    using t by (auto simp: arp_tabl_def)
  have e: "p \<in> set es" "i = ae_ip (arp_entries st p)" "ws = W p" "ae_status (arp_entries st p) \<noteq> 0"
    using M by (simp_all add: Meq arp_view_Some [OF l] arp_ans_def split: if_splits)
  show ?thesis
  proof (cases "us \<ge> arp_to_max (se_cfg e)")
    case True
    obtain st' where "arp_timeout e st (ae_to p) ty = Some (Inr st')" "arp_tabl st' (M(i := None)) (rev ws @ q)" "timeout_mgr st' = timeout_mgr st"
      "\<And>y. y \<in> set ws \<Longrightarrow> comp_status (conns st' y) = - 1"
      unfolding Meq e(2,3) by (rule arp_timeout_gives_up [OF l w e(1,4) True [unfolded us_def], of ty]) blast
    moreover have "arp_timers (M(i := None)) A"
      unfolding Meq by (rule arp_timers_remove [OF l e(2) tm(1) [unfolded Meq]])
    ultimately show ?thesis
      using True by auto
  next
    case False
    then have u: "us < arp_to_max (se_cfg e)"
      by simp
    from arp_timeout_repeats [OF t e(4) e(2) [symmetric] A tm(2,3) o us_def [THEN meta_eq_to_obj_eq] u, of ty] show ?thesis
      using False by metis
  qed
qed

section \<open>Exchanging packets\<close>

lemma arp_of_fill:
  assumes "has_bytes b 0 (arp_bytes p)" "length (eth_dest (pa_eth p)) = 6" "length (eth_src (pa_eth p)) = 6"
    "length (sha (arp p)) = 6" "length (tha (arp p)) = 6"
  shows "arp_of_bytes b = p"
proof -
  note hb = assms(1) [unfolded arp_bytes_def eth_bytes_def Let_def has_bytes_append, simplified assms(2-) length_append length_bytes, simplified]
  have "get_u16 b 12 = beui16_x (eth_type (pa_eth p))" "get_u16 b 14 = beui16_x (htype (arp p))" "get_u16 b 16 = beui16_x (ptype (arp p))"
    "get_u16 b 20 = beui16_x (oper (arp p))" "b 18 = hlen (arp p)" "b 19 = plen (arp p)"
    "get_beui32 b 28 = spa (arp p)" "get_beui32 b 38 = tpa (arp p)"
    using hb assms(2-) by (auto intro!: get_u16_bytes get_beui32_bytes simp: has_bytes_Cons has_bytes_append)
  moreover have "map b [0..<6] = eth_dest (pa_eth p)" "map b [6..<12] = eth_src (pa_eth p)" "map b [22..<28] = sha (arp p)" "map b [32..<38] = tha (arp p)"
    using hb assms(2-) has_bytes_map [of b 0 _ 6] has_bytes_map [of b 6 _ 6] has_bytes_map [of b 22 _ 6] has_bytes_map [of b 32 _ 6]
    by (auto simp: has_bytes_Cons has_bytes_append)
  ultimately show ?thesis
    by (simp add: arp_of_bytes_def)
qed

text \<open>
  Two hosts that run this code understand each other: a broadcast request of host \<open>a\<close> for the
  address of host \<open>b\<close> makes \<open>b\<close> send one packet, if its outbox has room; parsed at \<open>a\<close>, this packet is
  a valid reply that gives the MAC address of \<open>b\<close> for its IP address.  A request for another address is ignored.
\<close>

theorem arp_request_answered:
  assumes req: "has_bytes pkt 0 (arp_bytes (arp_fill a (replicate 6 0xff) i ARP_OPER_REQUEST))"
    and mac: "length (eth_addr (fpe (se_tas a))) = 6" "length (eth_addr (fpe (se_tas b))) = 6"
    and o: "outbox (se_tas b) (sp_tas st) ms" "evfd_write_ok (se_tas b)" "length ms < unat (txq_len (sp_tas st))"
  shows "\<exists>st'. arp_packet b st pkt len = Some (Inr st') \<and>
    (if i \<noteq> cfg_ip (se_cfg b) then st' = st
     else \<exists>m. outbox (se_tas b) (sp_tas st') (ms @ [m]) \<and>
       (\<forall>pkt'. has_bytes pkt' 0 (msg_bytes (shm (sp_tas st')) m) \<longrightarrow>
          (let r = arp (arp_of_bytes pkt') in
           f_beui16 (htype r) = ARP_HTYPE_ETHERNET \<and> f_beui16 (ptype r) = ARP_PTYPE_IPV4 \<and> hlen r = 6 \<and> plen r = 4 \<and>
           f_beui16 (oper r) = ARP_OPER_REPLY \<and> f_beui32 (spa r) = i \<and> sha r = eth_addr (fpe (se_tas b)) \<and>
           f_beui32 (tpa r) = cfg_ip (se_cfg a) \<and> tha r = eth_addr (fpe (se_tas a)))))"
proof -
  let ?q = "arp_fill a (replicate 6 0xff) i ARP_OPER_REQUEST"
  let ?r = "arp_fill b (eth_addr (fpe (se_tas a))) (cfg_ip (se_cfg a)) ARP_OPER_REPLY"
  have p: "arp_of_bytes pkt = ?q"
    by (rule arp_of_fill [OF req]) (simp_all add: arp_fill_def Let_def mac)
  show ?thesis
  proof (cases "i = cfg_ip (se_cfg b)")
    case True
    obtain r st' where st': "response_tx b st (eth_addr (fpe (se_tas a))) (cfg_ip (se_cfg a)) = Inr (r, st')" "sent b st ms st' (arp_bytes ?r)"
      unfolding response_tx_def by (rule arp_tx_sends [OF o(1,2) length_arp_fill [OF mac(2,1)], of "cfg_ip (se_cfg a)" ARP_OPER_REPLY])
    have "arp_packet b st pkt len = Some (Inr st')"
      using st'(1) True by (simp add: arp_packet_def p arp_fill_def Let_def)
    moreover obtain m where m: "outbox (se_tas b) (sp_tas st') (ms @ [m])" "msg_bytes (shm (sp_tas st')) m = arp_bytes ?r"
      using st'(2) o(3) by (auto simp: sent_def)
    moreover have "arp_of_bytes pkt' = ?r" if "has_bytes pkt' 0 (arp_bytes ?r)" for pkt'
      by (rule arp_of_fill [OF that]) (simp_all add: arp_fill_def Let_def mac)
    ultimately show ?thesis
      using True by (intro exI [of _ st'] conjI) (auto intro!: exI [of _ m] simp: arp_fill_def Let_def)
  next
    case False
    then show ?thesis
      by (intro exI [of _ st]) (simp add: arp_packet_def p arp_fill_def Let_def)
  qed
qed

section \<open>Witnesses\<close>

text \<open>A table with the host's own address and one that is being resolved.\<close>

definition demo_senv :: slow_env where
  "demo_senv = \<lparr>se_tas = demo_tenv, se_cfg = demo_cfg, se_crc = (\<lambda>_ _ _ _. 0), se_tsc = 1000, se_tsc_per_us = 1, se_cur_ts = 0\<rparr>"

definition demo_ae :: "u64 \<Rightarrow> arp_entry" where
  "demo_ae p = (if p = 8192
     then \<lparr>ae_status = 1, ae_ip = 0x0A000002, ae_mac = [], ae_compl = 64, ae_timeout = 500, ae_prev = 0, ae_next = 4096\<rparr>
     else \<lparr>ae_status = 0, ae_ip = 0x0A000001, ae_mac = replicate 6 0, ae_compl = 0, ae_timeout = 0, ae_prev = 8192, ae_next = 0\<rparr>)"

definition demo_slow :: "timeout_manager \<Rightarrow> slowpath" where
  "demo_slow m = cc_state.extend (demo_cc\<lparr>conns := (\<lambda>p. demo_cn\<lparr>comp_ptr := p\<rparr>)\<rparr>)
     \<lparr>timeout_mgr = m, pm_free = [\<lparr>ph_base = 0, ph_len = 65536\<rparr>], flowids = demo_ids, arp_entries = demo_ae, arp_table = 8192,
      routing_table = [], conn_async_q = 0, tcp_hashtable = (\<lambda>_. 0), ports = (\<lambda>_. 0), port_eph_hint = 8192, tcp_rng = utils_rng_init 1,
      listener_objs = (\<lambda>_. \<lparr>ls_opaque = 0, ls_ctx = 0, ls_app_next = 0, backlog_len = 0, backlog_pos = 0, backlog_used = 0,
         backlog_slots = (\<lambda>_. \<lparr>bl_buf = (\<lambda>_. 0), bl_len = 0\<rparr>), backlog_cores = (\<lambda>_. 0), backlog_fgs = (\<lambda>_. 0), wait_conns = 0,
         ls_port = 0, ls_flags = 0\<rparr>),
      multi_objs = (\<lambda>_. \<lparr>lm_num = 0, lm_ls = (\<lambda>_. 0)\<rparr>),
      ctx_objs = (\<lambda>_. \<lparr>cx_app = 0, kin_base = 0, kin_len = 0, kin_pos = 0, kout_base = 0, kout_len = 0, kout_pos = 0, doorbell_id = 0,
         cx_evfd = 9, cx_last_ts = 0, cx_next = 0\<rparr>),
      app_objs = (\<lambda>_. \<lparr>app_contexts = 0, app_conns = 0, app_listeners = 0\<rparr>)\<rparr>"

definition demo_arp :: "u32 \<rightharpoonup> u64 \<times> arp_answer" where
  "demo_arp = [0x0A000002 \<mapsto> (8192, Waiting [64]), 0x0A000001 \<mapsto> (4096, Resolved (replicate 6 0))]"

lemma demo_slow_simps [simp]:
  "conns (demo_slow m) = (\<lambda>p. demo_cn\<lparr>comp_ptr := p\<rparr>)" "timeout_mgr (demo_slow m) = m" "arp_entries (demo_slow m) = demo_ae"
  "arp_table (demo_slow m) = 8192" "conn_async_q (demo_slow m) = 0" "sp_tas (demo_slow m) = demo_tas" "routing_table (demo_slow m) = []"
  "tcp_hashtable (demo_slow m) = (\<lambda>_. 0)" "ports (demo_slow m) = (\<lambda>_. 0)" "port_eph_hint (demo_slow m) = 8192"
  by (simp_all add: demo_slow_def cc_state.defs slowpath.defs demo_cc_def)

lemma demo_senv_simps [simp]: "se_tas demo_senv = demo_tenv" "se_cfg demo_senv = demo_cfg" "length (eth_addr demo_env) = 6"
  by (simp_all add: demo_senv_def demo_env_def)

lemma demo_arp_tabl: "arp_tabl (demo_slow m) demo_arp []"
proof -
  let ?W = "\<lambda>p :: u64. if p = 8192 then [64] else [] :: u64 list"
  have "arp_list (demo_slow m) [8192, 4096]"
    by (simp add: arp_list_def dlist_def demo_ae_def)
  moreover have "arp_waits (demo_slow m) [8192, 4096] ?W []"
    by (simp add: arp_waits_def async_queue_def demo_ae_def demo_cn_def)
  moreover have "arp_view (demo_slow m) ?W [8192, 4096] = demo_arp"
    by (simp add: arp_view_def arp_ans_def demo_ae_def demo_arp_def fun_eq_iff)
  ultimately show ?thesis
    unfolding arp_tabl_def by metis
qed

lemma demo_arp_simps [simp]: "demo_arp 0x0A000003 = None" "demo_arp 0x0A000002 = Some (8192, Waiting [64])" "arp_waiting demo_arp = {64}"
  "demo_arp i \<noteq> Some (12288, a)"
  by (auto simp: demo_arp_def arp_waiting_def split: if_splits)

lemma demo_buf_dist:
  assumes "a < 4" "b < 4" "a \<noteq> b" "d < 1536"
  shows "1536 \<le> (int d + 1536 * (int a - int b)) mod 18446744073709551616"
proof -
  define k where "k = int d + 1536 * (int a - int b)"
  have "b < a \<Longrightarrow> int b + 1 \<le> int a" "a < b \<Longrightarrow> int a + 1 \<le> int b" "0 \<le> int b" "0 \<le> int a" "int a < 4" "int b < 4" "int d < 1536"
    using assms by simp_all
  then have "1536 \<le> k \<and> k < 10000 \<or> k < 0 \<and> - 6000 < k"
    unfolding k_def using assms(3) by (cases "b < a") auto
  then consider "1536 \<le> k \<and> k < 10000" | "k < 0 \<and> - 6000 < k"
    by blast
  then show ?thesis
    unfolding k_def [symmetric]
  proof cases
    case 2
    then have "k mod 18446744073709551616 = k + 18446744073709551616"
      using mod_pos_pos_trivial [of "k + 18446744073709551616" 18446744073709551616] by simp
    then show "1536 \<le> k mod 18446744073709551616"
      using 2 by simp
  qed simp
qed

lemma demo_bufs_apart: "tx_bufs_apart demo_tas"
  unfolding tx_bufs_apart_def demo_tas_simps
proof (intro allI impI)
  fix i :: u32 and x :: u64
  assume i: "i < 4" and x: "unat (x - (47104 + 1536 * ucast i)) < 1536"
  define d where "d = unat (x - (47104 + 1536 * ucast i))"
  have d: "d < 1536" and u: "unat i < 4" and xd: "x = 47104 + 1536 * ucast i + of_nat d"
    using i x by (simp_all add: d_def word_less_nat_alt)
  have xn: "x = of_nat (47104 + 1536 * unat i + d)"
    by (simp add: xd)
  have "unat (x - 32768) = 14336 + 1536 * unat i + d"
  proof -
    have "x - 32768 = of_nat (14336 + 1536 * unat i + d)"
      by (simp add: xd)
    then show ?thesis
      using u d by (simp add: unat_of_nat del: of_nat_add of_nat_mult)
  qed
  moreover have "1536 \<le> unat (x - (47104 + 1536 * ucast j))" if j: "j < 4" "j \<noteq> i" for j :: u32
  proof -
    have uj: "unat j < 4" "unat j \<noteq> unat i"
      using j by (simp_all add: word_less_nat_alt u32_eq_iff)
    have "uint (x - (47104 + 1536 * ucast j)) = (int d + 1536 * (int (unat i) - int (unat j))) mod 18446744073709551616"
    proof -
      have "x - (47104 + 1536 * ucast j) = word_of_int (int d + 1536 * (int (unat i) - int (unat j)))"
        by (simp add: xd algebra_simps)
      then show ?thesis
        by (simp only: uint_word_of_int) simp
    qed
    moreover have "1536 \<le> (int d + 1536 * (int (unat i) - int (unat j))) mod 18446744073709551616"
      by (rule demo_buf_dist) (use u uj d in simp_all)
    ultimately have "1536 \<le> uint (x - (47104 + 1536 * ucast j))"
      by simp
    then show ?thesis
      by (metis nat_int nat_mono nat_numeral unat_eq_nat_uint)
  qed
  ultimately show "64 * unat (4 :: u32) \<le> unat (x - 32768) \<and> (\<forall>j < 4. j \<noteq> i \<longrightarrow> 1536 \<le> unat (x - (47104 + 1536 * ucast j)))"
    by simp
qed

lemma demo_outbox: "outbox demo_tenv demo_tas []"
  by (simp add: outbox_def demo_tas_queue demo_bufs_apart)

lemma demo_timers: "to_armed_map demo_mgr (\<lambda>_. None)"
  using armed_init by (simp add: demo_mgr_def)

lemma demo_armed: "\<exists>m. to_armed_map m ((\<lambda>_. None)(8224 \<mapsto> TO_ARP_REQ))"
  using util_timers.arm_law [OF demo_timers, of 8224 500 TO_ARP_REQ 0 1] by auto

lemma demo_arp_timers: "arp_timers demo_arp ((\<lambda>_. None)(8224 \<mapsto> TO_ARP_REQ))"
  by (auto simp: arp_timers_def demo_arp_def split: if_splits)

lemma demo_cfg_simps [simp]: "arp_to demo_cfg = 500" "arp_to_max demo_cfg = 10000000" "cfg_ip demo_cfg = 0x0A000001"
  by (simp_all add: demo_cfg_def)

theorem arp_request_spec_witness:
  "\<exists>m st'. arp_request demo_senv 12288 (demo_slow m) 128 0x0A000003 128 = Some (Inr (1, st')) \<and>
     arp_tabl st' (demo_arp(0x0A000003 \<mapsto> (12288, Waiting [128]))) []"
proof -
  obtain m where m: "to_armed_map m ((\<lambda>_. None)(8224 \<mapsto> TO_ARP_REQ))"
    using demo_armed by blast
  have "\<exists>r st' A'. arp_request demo_senv 12288 (demo_slow m) 128 0x0A000003 128 = Some (Inr (r, st')) \<and> to_armed_map (timeout_mgr st') A' \<and>
    (case demo_arp 0x0A000003 of
       Some (p, Resolved mc) \<Rightarrow> r = 0 \<and> cn_remote_mac (conns st' 128) = mac_u64 mc \<and> arp_tabl st' demo_arp [] \<and> A' = (\<lambda>_. None)(8224 \<mapsto> TO_ARP_REQ)
     | Some (p, Waiting ws) \<Rightarrow> r = 1 \<and> arp_tabl st' (demo_arp(0x0A000003 \<mapsto> (p, Waiting (128 # ws)))) [] \<and> A' = (\<lambda>_. None)(8224 \<mapsto> TO_ARP_REQ)
     | None \<Rightarrow> r = 1 \<and> arp_tabl st' (demo_arp(0x0A000003 \<mapsto> (12288, Waiting [128]))) [] \<and>
         A' = ((\<lambda>_. None)(8224 \<mapsto> TO_ARP_REQ))(ae_to 12288 \<mapsto> TO_ARP_REQ) \<and>
         arp_timers (demo_arp(0x0A000003 \<mapsto> (12288, Waiting [128]))) A' \<and>
         sent demo_senv (demo_slow m) [] st' (arp_bytes (arp_fill demo_senv (replicate 6 0xff) 0x0A000003 ARP_OPER_REQUEST)))"
    by (rule arp_request_spec [OF demo_arp_tabl _ demo_arp_timers]) (simp_all add: m demo_outbox)
  then show ?thesis
    by auto
qed

definition demo_reply :: buf where
  "demo_reply i = (if i < 42 then arp_bytes (arp_fill (demo_senv\<lparr>se_cfg := demo_cfg\<lparr>cfg_ip := 0x0A000002\<rparr>\<rparr>)
     (replicate 6 0) 0x0A000001 ARP_OPER_REPLY) ! i else 0)"

lemma demo_reply_parsed:
  "arp_of_bytes demo_reply = arp_fill (demo_senv\<lparr>se_cfg := demo_cfg\<lparr>cfg_ip := 0x0A000002\<rparr>\<rparr>) (replicate 6 0) 0x0A000001 ARP_OPER_REPLY"
  by (rule arp_of_fill) (simp_all add: has_bytes_def demo_reply_def length_arp_fill, simp_all add: arp_fill_def Let_def)

theorem arp_reply_resolves_witness:
  "\<exists>m st'. arp_packet demo_senv (demo_slow m) demo_reply 42 = Some (Inr st') \<and>
     arp_tabl st' (demo_arp(0x0A000002 \<mapsto> (8192, Resolved (replicate 6 0)))) [64] \<and> comp_status (conns st' 64) = 0"
proof -
  obtain m where m: "to_armed_map m ((\<lambda>_. None)(8224 \<mapsto> TO_ARP_REQ))"
    using demo_armed by blast
  let ?a = "arp (arp_of_bytes demo_reply)"
  have f: "f_beui32 (spa ?a) = 0x0A000002" "sha ?a = replicate 6 0" "f_beui16 (htype ?a) = 1" "f_beui16 (ptype ?a) = 0x0800"
    "hlen ?a = 6" "plen ?a = 4" "f_beui16 (oper ?a) = 2"
    by (simp_all add: demo_reply_parsed arp_fill_def Let_def demo_env_def)
  from arp_reply_resolves [OF demo_arp_tabl _ demo_arp_timers refl f(3-7), of m demo_senv 42] show ?thesis
    using m unfolding f by auto
qed

theorem arp_timeout_spec_witness:
  "\<exists>st'. arp_timeout demo_senv (demo_slow demo_mgr) 8224 TO_ARP_REQ = Some (Inr st') \<and> arp_tabl st' demo_arp [] \<and>
     ae_timeout (arp_entries st' 8192) = 1000"
proof -
  have "ae_timeout (arp_entries (demo_slow demo_mgr) 8192) * 2 = 1000"
    by (simp add: demo_ae_def)
  with arp_timeout_spec [OF demo_arp_tabl [of demo_mgr], of "0x0A000002" 8192 "[64]" "\<lambda>_. None" demo_senv "[]" TO_ARP_REQ] show ?thesis
    using demo_timers demo_arp_timers demo_outbox by auto
qed

definition demo_request :: buf where
  "demo_request i = (if i < 42 then arp_bytes (arp_fill demo_senv (replicate 6 0xff) 0x0A000001 ARP_OPER_REQUEST) ! i else 0)"

theorem arp_request_answered_witness:
  "\<exists>st' m. arp_packet demo_senv (demo_slow demo_mgr) demo_request 42 = Some (Inr st') \<and> outbox demo_tenv (sp_tas st') [m]"
proof -
  have "has_bytes demo_request 0 (arp_bytes (arp_fill demo_senv (replicate 6 0xff) 0x0A000001 ARP_OPER_REQUEST))"
    by (simp add: has_bytes_def demo_request_def length_arp_fill)
  from arp_request_answered [OF this, of demo_senv "demo_slow demo_mgr" "[]" 42] show ?thesis
    using demo_outbox by auto
qed

end
