(* ===== verification/Routing.thy ===== *)
theory Routing
  imports Arp_Spec
begin

text \<open>
  The routing table, \<^verbatim>\<open>tas/slow/routing.c\<close>: the first entry is the network of the host, the others
  come from the configuration.  An address is followed from next hop to next hop until an
  entry without next hop matches; then it is resolved by ARP.
\<close>

unbundle bit_operations_syntax

section \<open>Model\<close>

text \<open>
  The mask is computed in 64 bits and cut to 32.  A length above 32 is not excluded by the
  code; C leaves the shift by a negative number open, x86 takes it modulo 64.
\<close>

definition prefix_len_mask :: "u8 \<Rightarrow> u32" where
  "prefix_len_mask len = ucast (NOT (push_bit (nat ((32 - int (unat len)) mod 64)) (1 :: u64) - 1))"

definition route_entry :: "u32 \<times> u8 \<times> u32 \<Rightarrow> routing_table_entry option" where
  "route_entry r = (case r of (dst, bits, hop) \<Rightarrow>
     let m = prefix_len_mask bits in
     if m AND dst \<noteq> dst then None else Some \<lparr>rt_dest_ip = dst, rt_dest_mask = m, rt_next_hop = hop\<rparr>)"

text \<open>The loop over the configured routes, which stops at the first bad one.\<close>

fun fill_routes :: "(u32 \<times> u8 \<times> u32) list \<Rightarrow> routing_table_entry list \<Rightarrow> bool \<times> routing_table_entry list" where
  "fill_routes [] tab = (True, tab)"
| "fill_routes (r # rs) tab = (case route_entry r of None \<Rightarrow> (False, tab) | Some rte \<Rightarrow> fill_routes rs (tab @ [rte]))"

text \<open>
  \<open>ok\<close> is the success of \<^verbatim>\<open>calloc\<close>; the entries that are not filled in are zero.  Without
  memory the code has the length set and no table; the slow path then does not start, and the model has an empty table.
\<close>

definition routing_init :: "bool \<Rightarrow> configuration \<Rightarrow> slowpath \<Rightarrow> int \<times> slowpath" where
  "routing_init ok cfg st =
    (if \<not> ok then (-1, st\<lparr>routing_table := []\<rparr>)
     else
       let m = prefix_len_mask (cfg_ip_prefix cfg);
           (good, tab) = fill_routes (cfg_routes cfg) [\<lparr>rt_dest_ip = cfg_ip cfg AND m, rt_dest_mask = m, rt_next_hop = 0\<rparr>];
           zero = \<lparr>rt_dest_ip = 0, rt_dest_mask = 0, rt_next_hop = 0\<rparr>;
           tab = tab @ replicate (Suc (length (cfg_routes cfg)) - length tab) zero in
       (if good then 0 else -1, st\<lparr>routing_table := tab\<rparr>))"

definition resolve :: "routing_table_entry list \<Rightarrow> u32 \<Rightarrow> routing_table_entry option" where
  "resolve tab dst = find (\<lambda>r. rt_dest_ip r = dst AND rt_dest_mask r) tab"

text \<open>The loop: the address to ask for, or nothing if no entry matches.\<close>

partial_function (option) route_walk :: "routing_table_entry list \<Rightarrow> u32 \<Rightarrow> u32 option option" where
  "route_walk tab dst =
    (case resolve tab dst of
       None \<Rightarrow> Some None
     | Some rte \<Rightarrow> if rt_next_hop rte = 0 then Some (Some dst) else route_walk tab (rt_next_hop rte))"

definition routing_resolve :: "slow_env \<Rightarrow> u64 \<Rightarrow> slowpath \<Rightarrow> u64 \<Rightarrow> u32 \<Rightarrow> u64 \<Rightarrow> (int \<times> slowpath) run" where
  "routing_resolve e new st cmp dst mac =
    (case route_walk (routing_table st) dst of
       None \<Rightarrow> None
     | Some None \<Rightarrow> Some (Inr (-1, st))
     | Some (Some hop) \<Rightarrow> arp_request e new st cmp hop mac)"

section \<open>Longest chains of next hops\<close>

text \<open>The hop an address is sent to, one step of the loop.\<close>

definition hop_of :: "routing_table_entry list \<Rightarrow> u32 \<Rightarrow> u32 option" where
  "hop_of tab dst = (case resolve tab dst of None \<Rightarrow> None | Some r \<Rightarrow> if rt_next_hop r = 0 then None else Some (rt_next_hop r))"

text \<open>After \<open>n\<close> hops.\<close>

fun hops :: "routing_table_entry list \<Rightarrow> nat \<Rightarrow> u32 \<Rightarrow> u32 option" where
  "hops tab 0 dst = Some dst"
| "hops tab (Suc n) dst = (case hop_of tab dst of None \<Rightarrow> None | Some h \<Rightarrow> hops tab n h)"

lemma route_walk_step:
  "route_walk tab dst = (case hop_of tab dst of None \<Rightarrow> Some (if resolve tab dst = None then None else Some dst) | Some h \<Rightarrow> route_walk tab h)"
  by (subst route_walk.simps) (simp add: hop_of_def split: option.splits)

lemma route_walk_hops: "hops tab n dst = Some h \<Longrightarrow> route_walk tab dst = route_walk tab h"
proof (induction n arbitrary: dst)
  case (Suc n)
  then show ?case
    by (subst route_walk_step) (auto split: option.splits)
qed simp

lemma hop_of_set: "hop_of tab dst = Some h \<Longrightarrow> h \<in> rt_next_hop ` set tab"
  by (auto simp: hop_of_def resolve_def find_Some_iff split: option.splits if_splits)

lemma hops_add: "hops tab (m + n) dst = (case hops tab m dst of None \<Rightarrow> None | Some h \<Rightarrow> hops tab n h)"
  by (induction m arbitrary: dst) (auto split: option.splits)

lemma hops_prefix: "hops tab (m + n) dst \<noteq> None \<Longrightarrow> hops tab m dst \<noteq> None"
  by (auto simp: hops_add split: option.splits)

text \<open>A walk that repeats an address goes round for ever; else it ends after at most as many hops as there are entries.\<close>

lemma route_walk_finite:
  assumes r: "route_walk tab dst = Some r"
  shows "\<exists>m. hops tab m dst = None"
proof (rule route_walk.raw_induct [where P = "\<lambda>t d r. \<exists>m. hops t m d = None", OF _ r], goal_cases)
  case (1 rw tab' dst' r')
  show ?case
  proof (cases "hop_of tab' dst'")
    case None
    then show ?thesis
      by (intro exI [of _ 1]) simp
  next
    case (Some x)
    then have "rw tab' x = Some r'"
      using 1(2) by (auto simp: hop_of_def split: option.splits if_splits)
    from 1(1) [OF this] obtain m where "hops tab' m x = None"
      by blast
    then show ?thesis
      using Some by (intro exI [of _ "Suc m"]) simp
  qed
qed

lemma route_walk_cycle:
  assumes c: "hops tab (Suc n) h = Some h"
  shows "route_walk tab h = None"
proof -
  have never: "hops tab (k * Suc n) h = Some h" for k
  proof (induction k)
    case (Suc k)
    then show ?case
      using hops_add [of tab "Suc n" "k * Suc n" h] unfolding mult_Suc c by simp
  qed simp
  have "hops tab m h \<noteq> None" for m
  proof -
    have "m \<le> m * Suc n"
      by simp
    then obtain d where "m * Suc n = m + d"
      using le_Suc_ex by blast
    then show ?thesis
      using never [of m] hops_prefix [of tab m d h] by simp
  qed
  then have all: "\<forall>m. hops tab m h \<noteq> None"
    by blast
  then show ?thesis
    using route_walk_finite [of tab h] by (cases "route_walk tab h") (simp_all, metis option.distinct(1))
qed

lemma hops_ends:
  assumes "hops tab n dst = None"
  shows "\<exists>k h. k < n \<and> hops tab k dst = Some h \<and> hop_of tab h = None \<and>
    route_walk tab dst = Some (if resolve tab h = None then None else Some h)"
  using assms
proof (induction n arbitrary: dst)
  case (Suc n)
  show ?case
  proof (cases "hop_of tab dst")
    case None
    then show ?thesis
      by (intro exI [of _ 0] exI [of _ dst]) (subst route_walk_step, simp)
  next
    case (Some x)
    with Suc.prems have "hops tab n x = None"
      by simp
    from Suc.IH [OF this] obtain k h where "k < n" "hops tab k x = Some h" "hop_of tab h = None"
      "route_walk tab x = Some (if resolve tab h = None then None else Some h)"
      by (elim exE conjE) (rule that)
    then show ?thesis
      using Some by (intro exI [of _ "Suc k"] exI [of _ h]) (subst route_walk_step, simp)
  qed
qed simp

lemma not_inj_less:
  assumes "\<not> inj_on f {1..n}"
  obtains a b :: nat where "a < b" "b \<le> n" "f a = f b"
proof -
  obtain x y where xy: "x \<in> {1..n}" "y \<in> {1..n}" "f x = f y" "x \<noteq> y"
    using assms unfolding inj_on_def by blast
  show ?thesis
  proof (cases "x < y")
    case True
    show ?thesis
      by (rule that [of x y]) (use xy True in simp_all)
  next
    case False
    show ?thesis
      by (rule that [of y x]) (use xy False in simp_all)
  qed
qed

lemma hops_some:
  assumes "hops tab n dst \<noteq> None" "m \<le> n"
  shows "hops tab m dst \<noteq> None"
  using hops_prefix [of tab m "n - m" dst] assms by simp

lemma hops_target:
  assumes "hops tab (Suc n) dst = Some x"
  shows "x \<in> rt_next_hop ` set tab"
  using assms
proof (induction n arbitrary: dst)
  case 0
  then show ?case
    using hop_of_set by (simp split: option.splits)
next
  case (Suc n)
  then obtain y where "hops tab (Suc n) y = Some x"
    unfolding hops.simps(2) [of tab "Suc n"] by (auto split: option.splits)
  then show ?case
    by (rule Suc.IH)
qed

lemma hops_repeat:
  assumes some: "hops tab (Suc (length tab)) dst \<noteq> None"
  shows "\<exists>m n h. hops tab m dst = Some h \<and> hops tab (Suc n) h = Some h"
proof -
  define f where "f m = the (hops tab m dst)" for m
  have f: "hops tab m dst = Some (f m)" if "m \<le> Suc (length tab)" for m
    using hops_some [OF some that] by (simp add: f_def)
  have "f ` {1..Suc (length tab)} \<subseteq> rt_next_hop ` set tab"
  proof
    fix x
    assume "x \<in> f ` {1..Suc (length tab)}"
    then obtain j where j: "x = f j" "1 \<le> j" "j \<le> Suc (length tab)"
      by auto
    then obtain m where "x = f (Suc m)" "Suc m \<le> Suc (length tab)"
      by (cases j) auto
    then show "x \<in> rt_next_hop ` set tab"
      using f [of "Suc m"] hops_target [of tab m dst x] by blast
  qed
  then have "card (f ` {1..Suc (length tab)}) \<le> card (rt_next_hop ` set tab)"
    by (intro card_mono) simp_all
  also have "\<dots> \<le> length tab"
    by (metis card_length length_map list.set_map)
  finally have "\<not> inj_on f {1..Suc (length tab)}"
    by (intro pigeonhole) simp
  then obtain a b where ab: "a < b" "b \<le> Suc (length tab)" "f a = f b"
    by (rule not_inj_less)
  then obtain n where b: "b = a + Suc n"
    using less_imp_Suc_add [OF ab(1)] by auto
  have a: "hops tab a dst = Some (f a)"
    using f ab by simp
  have "hops tab (a + Suc n) dst = Some (f a)"
    using f [of b] ab unfolding b by simp
  then have "hops tab (Suc n) (f a) = Some (f a)"
    unfolding hops_add [of tab a "Suc n"] a by simp
  with a show ?thesis
    by blast
qed

text \<open>
  C20: When the search for a route ends.  If the chain of next hops of an address comes back to
  an address it has passed, \<^verbatim>\<open>routing_resolve\<close> never returns.  Otherwise the loop ends after at most as
  many hops as the table has entries, at an address that is reached directly, or that has no route.
\<close>

theorem route_walk_ends:
  "if \<exists>m n h. hops tab m dst = Some h \<and> hops tab (Suc n) h = Some h
   then \<forall>e new st cmp mac. routing_table st = tab \<longrightarrow> routing_resolve e new st cmp dst mac = None
   else \<exists>k h. k \<le> length tab \<and> hops tab k dst = Some h \<and> hop_of tab h = None \<and>
     route_walk tab dst = Some (if resolve tab h = None then None else Some h)"
proof (cases "\<exists>m n h. hops tab m dst = Some h \<and> hops tab (Suc n) h = Some h")
  case True
  then obtain m n h where "hops tab m dst = Some h" "hops tab (Suc n) h = Some h"
    by blast
  then have "route_walk tab dst = None"
    using route_walk_hops route_walk_cycle by metis
  then show ?thesis
    using True by (simp add: routing_resolve_def)
next
  case False
  then have "hops tab (Suc (length tab)) dst = None"
    using hops_repeat by blast
  from hops_ends [OF this] show ?thesis
    using False by (auto simp: less_Suc_eq_le)
qed

section \<open>What the table contains\<close>

lemma prefix_mask_bit:
  assumes "len \<le> 32" "i < 32"
  shows "bit (prefix_len_mask len) i \<longleftrightarrow> 32 - unat len \<le> i"
proof -
  have l: "unat len \<le> 32"
    using assms(1) by (simp add: word_le_nat_alt)
  have "32 - int (unat len) = int (32 - unat len)"
    using l by linarith
  moreover have "int (32 - unat len) < 64"
    by linarith
  ultimately have "(32 - int (unat len)) mod 64 = int (32 - unat len)"
    by simp
  then have "nat ((32 - int (unat len)) mod 64) = 32 - unat len"
    by (simp only: nat_int)
  moreover have "push_bit k (1 :: u64) - 1 = mask k" for k
    by (simp add: mask_eq_decr_exp push_bit_eq_mult)
  ultimately show ?thesis
    using assms(2) l by (auto simp: prefix_len_mask_def bit_simps)
qed

text \<open>An address lies in a network if they agree in the first \<open>len\<close> bits.\<close>

definition in_network :: "u32 \<Rightarrow> u32 \<Rightarrow> u8 \<Rightarrow> bool" where
  "in_network dst net len \<longleftrightarrow> (\<forall>i < unat len. bit dst (31 - i) = bit net (31 - i))"

lemma in_network_mask:
  assumes "len \<le> 32"
  shows "net AND prefix_len_mask len = dst AND prefix_len_mask len \<longleftrightarrow> in_network dst net len"
proof
  assume eq: "net AND prefix_len_mask len = dst AND prefix_len_mask len"
  show "in_network dst net len"
    unfolding in_network_def
  proof (intro allI impI)
    fix i
    assume "i < unat len"
    moreover have "unat len \<le> 32"
      using assms by (simp add: word_le_nat_alt)
    ultimately have "bit (prefix_len_mask len) (31 - i)"
      using prefix_mask_bit [OF assms, of "31 - i"] by simp
    then show "bit dst (31 - i) = bit net (31 - i)"
      using arg_cong [OF eq, of "\<lambda>w. bit w (31 - i)"] by (simp add: bit_simps)
  qed
next
  assume n: "in_network dst net len"
  show "net AND prefix_len_mask len = dst AND prefix_len_mask len"
  proof (rule bit_word_eqI)
    fix i
    assume "i < LENGTH(32)"
    then have i: "i < 32"
      by simp
    show "bit (net AND prefix_len_mask len) i = bit (dst AND prefix_len_mask len) i"
    proof (cases "32 - unat len \<le> i")
      case True
      then have "31 - i < unat len" "31 - (31 - i) = i"
        using i by simp_all
      then show ?thesis
        using n unfolding in_network_def by (metis bit_and_iff)
    qed (use prefix_mask_bit [OF assms i] in \<open>simp add: bit_simps\<close>)
  qed
qed

lemma fill_routes_good:
  "fill_routes rs tab = (True, tab') \<longleftrightarrow>
    (\<forall>(d, l, h) \<in> set rs. prefix_len_mask l AND d = d) \<and>
    tab' = tab @ map (\<lambda>(d, l, h). \<lparr>rt_dest_ip = d, rt_dest_mask = prefix_len_mask l, rt_next_hop = h\<rparr>) rs"
  by (induction rs arbitrary: tab) (auto simp: route_entry_def Let_def split: option.splits if_splits)

lemma fill_routes_bad:
  "fill_routes rs tab = (False, tab') \<Longrightarrow> \<not> (\<forall>(d, l, h) \<in> set rs. prefix_len_mask l AND d = d)"
  using fill_routes_good [of rs tab] by auto

lemma prefix_mask_keeps:
  assumes "l \<le> 32"
  shows "prefix_len_mask l AND d = d \<longleftrightarrow> (\<forall>i < 32 - unat l. \<not> bit d i)"
proof
  assume keep: "prefix_len_mask l AND d = d"
  show "\<forall>i < 32 - unat l. \<not> bit d i"
  proof (intro allI impI)
    fix i
    assume "i < 32 - unat l"
    then have "\<not> bit (prefix_len_mask l) i"
      using prefix_mask_bit [OF assms, of i] by simp
    then show "\<not> bit d i"
      using arg_cong [OF keep, of "\<lambda>w. bit w i"] by (simp add: bit_and_iff)
  qed
next
  assume low: "\<forall>i < 32 - unat l. \<not> bit d i"
  show "prefix_len_mask l AND d = d"
  proof (rule bit_word_eqI)
    fix i
    assume "i < LENGTH(32)"
    then show "bit (prefix_len_mask l AND d) i = bit d i"
      using low prefix_mask_bit [OF assms, of i] by (cases "i < 32 - unat l") (simp_all add: bit_and_iff)
  qed
qed

lemma prefix_masks_keep:
  assumes "\<forall>(d, l, h) \<in> set rs. l \<le> 32"
  shows "(\<forall>(d, l, h) \<in> set rs. prefix_len_mask l AND d = d) \<longleftrightarrow> (\<forall>(d, l, h) \<in> set rs. \<forall>i < 32 - unat l. \<not> bit d i)"
proof (rule ball_cong [OF refl])
  fix x
  assume x: "x \<in> set rs"
  obtain d l h where [simp]: "x = (d, l, h)"
    by (rule prod_cases3)
  have "l \<le> 32"
    using assms x by auto
  then show "(case x of (d, l, h) \<Rightarrow> prefix_len_mask l AND d = d) \<longleftrightarrow> (case x of (d, l, h) \<Rightarrow> \<forall>i < 32 - unat l. \<not> bit d i)"
    by (simp add: prefix_mask_keeps)
qed

text \<open>The entry of the host's network, and of a configured route.\<close>

definition own_entry :: "configuration \<Rightarrow> routing_table_entry" where
  "own_entry cfg = (let m = prefix_len_mask (cfg_ip_prefix cfg) in
    \<lparr>rt_dest_ip = cfg_ip cfg AND m, rt_dest_mask = m, rt_next_hop = 0\<rparr>)"

definition row :: "u32 \<times> u8 \<times> u32 \<Rightarrow> routing_table_entry" where
  "row r = (case r of (d, l, h) \<Rightarrow> \<lparr>rt_dest_ip = d, rt_dest_mask = prefix_len_mask l, rt_next_hop = h\<rparr>)"

lemma routing_init_table:
  assumes init: "routing_init True cfg st = (r, st')"
  shows "r = 0 \<longleftrightarrow> (\<forall>(d, l, h) \<in> set (cfg_routes cfg). prefix_len_mask l AND d = d)"
    and "r = 0 \<Longrightarrow> routing_table st' = own_entry cfg # map row (cfg_routes cfg)"
proof -
  obtain good tab where f: "fill_routes (cfg_routes cfg) [own_entry cfg] = (good, tab)"
    by fastforce
  have r: "r = (if good then 0 else - 1)"
    and t: "routing_table st' = tab @ replicate (Suc (length (cfg_routes cfg)) - length tab) \<lparr>rt_dest_ip = 0, rt_dest_mask = 0, rt_next_hop = 0\<rparr>"
    using init f by (auto simp: routing_init_def own_entry_def Let_def)
  show "r = 0 \<longleftrightarrow> (\<forall>(d, l, h) \<in> set (cfg_routes cfg). prefix_len_mask l AND d = d)"
    using f r fill_routes_good [of "cfg_routes cfg" "[own_entry cfg]" tab] fill_routes_bad by (cases good) auto
  show "routing_table st' = own_entry cfg # map row (cfg_routes cfg)" if "r = 0"
  proof -
    have "good"
      using r that by (simp split: if_splits)
    then have "tab = own_entry cfg # map row (cfg_routes cfg)"
      using f fill_routes_good [of "cfg_routes cfg" "[own_entry cfg]" tab] by (simp add: row_def [abs_def])
    then show ?thesis
      by (simp add: t)
  qed
qed

lemma row_matches:
  assumes "l \<le> 32" "prefix_len_mask l AND d = d"
  shows "rt_dest_ip (row (d, l, h)) = dst AND rt_dest_mask (row (d, l, h)) \<longleftrightarrow> in_network dst d l"
  using in_network_mask [OF assms(1), of d dst] assms(2) by (simp add: row_def and.commute)

lemma find_row:
  assumes "\<forall>(d, l, h) \<in> set rs. l \<le> 32 \<and> prefix_len_mask l AND d = d"
  shows "resolve (map row rs) dst = map_option row (find (\<lambda>(d, l, h). in_network dst d l) rs)"
  using assms
proof (induction rs)
  case (Cons x rs)
  obtain d l h where x: "x = (d, l, h)"
    by (cases x)
  have "l \<le> 32 \<and> prefix_len_mask l AND d = d"
    using Cons.prems by (simp add: x)
  then have "rt_dest_ip (row x) = dst AND rt_dest_mask (row x) \<longleftrightarrow> in_network dst d l"
    unfolding x by (intro row_matches) simp_all
  moreover have "resolve (map row rs) dst = map_option row (find (\<lambda>(d, l, h). in_network dst d l) rs)"
    using Cons.IH Cons.prems by simp
  ultimately show ?case
    by (simp add: resolve_def x)
qed (simp add: resolve_def)

text \<open>
  C19: Initialisation accepts a configuration exactly if no configured route has bits behind its
  prefix.  With the table it builds, an address in the host's own network is asked for directly, and
  any other address is sent to the next hop of the first configured route it lies in.
\<close>

theorem routing_init_routes:
  assumes len: "cfg_ip_prefix cfg \<le> 32" "\<forall>(d, l, h) \<in> set (cfg_routes cfg). l \<le> 32"
    and init: "routing_init True cfg st = (r, st')"
  shows "(r = 0 \<longleftrightarrow> (\<forall>(d, l, h) \<in> set (cfg_routes cfg). \<forall>i < 32 - unat l. \<not> bit d i)) \<and>
    (r = 0 \<longrightarrow> (if in_network dst (cfg_ip cfg) (cfg_ip_prefix cfg)
       then routing_resolve e new st' cmp dst mac = arp_request e new st' cmp dst mac
       else resolve (routing_table st') dst = map_option row (find (\<lambda>(d, l, h). in_network dst d l) (cfg_routes cfg))))"
proof -
  let ?rs = "cfg_routes cfg"
  note tab = routing_init_table [OF init]
  have "if in_network dst (cfg_ip cfg) (cfg_ip_prefix cfg)
       then routing_resolve e new st' cmp dst mac = arp_request e new st' cmp dst mac
       else resolve (routing_table st') dst = map_option row (find (\<lambda>(d, l, h). in_network dst d l) ?rs)" if "r = 0"
  proof -
    have ok: "\<forall>(d, l, h) \<in> set ?rs. l \<le> 32 \<and> prefix_len_mask l AND d = d"
      using tab(1) \<open>r = 0\<close> len(2) by blast
    have st': "resolve (routing_table st') dst =
        (if in_network dst (cfg_ip cfg) (cfg_ip_prefix cfg) then Some (own_entry cfg)
         else map_option row (find (\<lambda>(d, l, h). in_network dst d l) ?rs))"
      using in_network_mask [OF len(1), of "cfg_ip cfg" dst] find_row [OF ok, of dst]
      by (simp add: tab(2) [OF that] resolve_def own_entry_def Let_def)
    show ?thesis
    proof (cases "in_network dst (cfg_ip cfg) (cfg_ip_prefix cfg)")
      case True
      then have "route_walk (routing_table st') dst = Some (Some dst)"
        by (subst route_walk.simps) (simp add: st' own_entry_def Let_def)
      then show ?thesis
        using True by (simp add: routing_resolve_def)
    qed (simp add: st')
  qed
  then show ?thesis
    using tab(1) prefix_masks_keep [OF len(2)] by blast
qed

section \<open>Examples\<close>

text \<open>The host 10.0.0.1/24 with a default route to a gateway.\<close>

definition demo_net :: "u32 \<Rightarrow> configuration" where
  "demo_net gw = demo_cfg\<lparr>cfg_ip := 0x0A000001, cfg_ip_prefix := 24, cfg_routes := [(0, 0, gw)]\<rparr>"

lemma demo_net_mask: "prefix_len_mask 24 = 0xFFFFFF00" "prefix_len_mask 0 = 0"
  by (simp_all add: prefix_len_mask_def push_bit_eq_mult)

theorem routing_init_routes_witness:
  "let (r, st) = routing_init True (demo_net 0x0A0000FE) (demo_slow demo_mgr) in
    r = 0 \<and> resolve (routing_table st) 0x08080808 = Some (row (0, 0, 0x0A0000FE))"
proof -
  let ?cfg = "demo_net 0x0A0000FE"
  obtain r st where init: "routing_init True ?cfg (demo_slow demo_mgr) = (r, st)"
    by fastforce
  have c: "cfg_ip_prefix ?cfg = 24" "cfg_ip ?cfg = 0x0A000001" "cfg_routes ?cfg = [(0, 0, 0x0A0000FE)]"
    by (simp_all add: demo_net_def)
  have far: "\<not> in_network 0x08080808 0x0A000001 24"
    by (simp add: in_network_mask [symmetric] demo_net_mask)
  have "in_network 0x08080808 0 0"
    by (simp add: in_network_def)
  moreover have "\<forall>(d, l, h) \<in> set (cfg_routes ?cfg). l \<le> 32" "cfg_ip_prefix ?cfg \<le> 32"
    by (simp_all add: c)
  ultimately show ?thesis
    using routing_init_routes [OF _ _ init, where dst = "0x08080808"] far by (simp add: c init)
qed

text \<open>A gateway that is outside the network is looked up by the default route again.\<close>

theorem route_walk_ends_witness:
  "routing_resolve demo_senv 0 ((demo_slow demo_mgr)\<lparr>routing_table := [own_entry (demo_net 0xC0A80001), row (0, 0, 0xC0A80001)]\<rparr>) 0 0x08080808 0 = None"
proof -
  let ?tab = "[own_entry (demo_net 0xC0A80001), row (0, 0, 0xC0A80001)]"
  have h: "hop_of ?tab 0x08080808 = Some 0xC0A80001" "hop_of ?tab 0xC0A80001 = Some 0xC0A80001"
    by (simp_all add: hop_of_def resolve_def own_entry_def row_def demo_net_def demo_net_mask Let_def)
  have "hops ?tab 1 0x08080808 = Some 0xC0A80001 \<and> hops ?tab (Suc 0) 0xC0A80001 = Some 0xC0A80001"
    using h by simp
  then have "\<exists>m n h. hops ?tab m 0x08080808 = Some h \<and> hops ?tab (Suc n) h = Some h"
    by blast
  then show ?thesis
    using route_walk_ends [of ?tab "0x08080808"] by simp
qed

end
