(* ===== verification/Tcp_Control.thy ===== *)
theory Tcp_Control
  imports Arp_Spec
begin

text \<open>
  Segments without payload that the slow path sends and receives, \<^verbatim>\<open>tas/slow/tcp.c\<close>: the parser of TCP
  options and the senders of handshake, acknowledgement and reset segments.
\<close>

unbundle bit_operations_syntax

section \<open>Model\<close>

text \<open>The options found, by the offsets they start at, like \<^verbatim>\<open>opts_ts\<close> of the fast path.\<close>

record sp_tcp_opts =
  so_mss :: "nat option"
  so_ts :: "nat option"
  so_ws :: "nat option"

abbreviation (input) TCP_OPT_MSS :: u8 where "TCP_OPT_MSS \<equiv> 2"
abbreviation (input) TCP_OPT_WSCALE :: u8 where "TCP_OPT_WSCALE \<equiv> 3"
abbreviation (input) TCP_MSS :: u16 where "TCP_MSS \<equiv> 1460"

text \<open>One option at \<open>off\<close> that carries a length; \<open>None\<close> is the error return.\<close>

definition parse_option :: "(nat \<Rightarrow> u8) \<Rightarrow> nat \<Rightarrow> sp_tcp_opts \<Rightarrow> sp_tcp_opts option" where
  "parse_option opt off opts =
    (let opt_len = unat (opt (off + 1)) in
     if opt off = TCP_OPT_MSS then if opt_len \<noteq> 4 then None else Some (opts\<lparr>so_mss := Some off\<rparr>)
     else if opt off = TCP_OPT_TIMESTAMP then if opt_len \<noteq> sizeof_timestamp_opt then None else Some (opts\<lparr>so_ts := Some off\<rparr>)
     else if opt off = TCP_OPT_WSCALE then if opt_len \<noteq> 3 then None else Some (opts\<lparr>so_ws := Some off\<rparr>)
     else Some opts)"

partial_function (option) parse_options_loop :: "(nat \<Rightarrow> u8) \<Rightarrow> nat \<Rightarrow> nat \<Rightarrow> sp_tcp_opts \<Rightarrow> (unit + sp_tcp_opts) option" where
  "parse_options_loop opt opts_len off opts =
    (if \<not> off < opts_len then Some (Inr opts)
     else if opt off = TCP_OPT_END_OF_OPTIONS then Some (Inr opts)
     else if opt off = TCP_OPT_NO_OP then parse_options_loop opt opts_len (off + 1) opts
     else if opts_len - off < 2 then Some (Inl ())
     else case parse_option opt off opts of
       None \<Rightarrow> Some (Inl ())
     | Some opts \<Rightarrow> parse_options_loop opt opts_len (off + unat (opt (off + 1))) opts)"

definition parse_options :: "pkt_tcp \<Rightarrow> u16 \<Rightarrow> (unit + sp_tcp_opts) option" where
  "parse_options p len =
    (let hl = unat (TCPH_HDRLEN (tcp p)); opts_len = hl * 4 - 20 in
     if hl < 5 \<or> (sizeof_pkt_tcp \<le> unat len \<and> opts_len > unat len - sizeof_pkt_tcp) then Some (Inl ())
     else parse_options_loop (rest p) opts_len 0 \<lparr>so_mss = None, so_ts = None, so_ws = None\<rparr>)"

definition opt_ts_val :: "pkt_tcp \<Rightarrow> nat \<Rightarrow> u32" where
  "opt_ts_val p off = f_beui32 (get_beui32 (rest p) (off + 2))"

definition opt_wscale :: "pkt_tcp \<Rightarrow> nat \<Rightarrow> u8" where
  "opt_wscale p off = rest p (off + 2)"

text \<open>
  The option area of a segment that is sent: its length and the writes to it, which clear
  more than the option after the timestamp has been placed.
\<close>

definition ctl_optlen :: "u16 \<Rightarrow> bool \<Rightarrow> u16 \<Rightarrow> nat" where
  "ctl_optlen flags ts_opt mss_opt =
    (let n = (if mss_opt \<noteq> 0 then 4 else 0) + (if ts_opt then 10 else 0) + (if flags AND TCP_SYN \<noteq> 0 then 4 else 0) in
     (n + 3) div 4 * 4)"

definition ctl_opt_writes :: "u16 \<Rightarrow> bool \<Rightarrow> u32 \<Rightarrow> u16 \<Rightarrow> writes" where
  "ctl_opt_writes flags ts_opt ts_echo mss_opt =
    (let off_ts = (if mss_opt \<noteq> 0 then 4 else 0);
         off_ws = off_ts + (if ts_opt then 10 else 0) in
     (if mss_opt \<noteq> 0 then [(0, [TCP_OPT_MSS, 4] @ u16_bytes (beui16_x (t_beui16 mss_opt)))] else []) @
     (if ts_opt then [(off_ts, replicate (ctl_optlen flags ts_opt mss_opt) 0),
                      (off_ts, [TCP_OPT_TIMESTAMP, 10] @ u32_bytes (beui32_x (t_beui32 0)) @ u32_bytes (beui32_x (t_beui32 ts_echo)))]
      else []) @
     (if flags AND TCP_SYN \<noteq> 0 then [(off_ws, replicate 4 0), (off_ws, [TCP_OPT_WSCALE, 3, 0])] else []))"

fun puts_buf :: "buf \<Rightarrow> writes \<Rightarrow> buf" where
  "puts_buf b [] = b"
| "puts_buf b ((k, bs) # ws) = puts_buf (\<lambda>i. if k \<le> i \<and> i < k + length bs then bs ! (i - k) else b i) ws"

text \<open>The addresses and numbers of a segment.\<close>

record ctl_params =
  ct_remote_mac :: u64
  ct_remote_ip :: u32
  ct_remote_port :: u16
  ct_local_port :: u16
  ct_local_seq :: u32
  ct_remote_seq :: u32

definition ctl_pkt :: "slow_env \<Rightarrow> ctl_params \<Rightarrow> u16 \<Rightarrow> bool \<Rightarrow> u32 \<Rightarrow> u16 \<Rightarrow> pkt_tcp" where
  "ctl_pkt e c flags ts_opt ts_echo mss_opt =
    (let env = fpe (se_tas e); optlen = ctl_optlen flags ts_opt mss_opt;
         iph = \<lparr>v_hl = 0x45, tos = 0, ip_len = t_beui16 (of_nat (40 + optlen)), ip_id = t_beui16 3, ip_offset = t_beui16 0,
                ttl = 0xff, proto = IP_PROTO_TCP, ip_chksum = 0, ip_src = t_beui32 (cfg_ip (se_cfg e)), ip_dest = t_beui32 (ct_remote_ip c)\<rparr>;
         tch = \<lparr>tcp_src = t_beui16 (ct_local_port c), tcp_dest = t_beui16 (ct_remote_port c), seqno = t_beui32 (ct_local_seq c),
                ackno = t_beui32 (ct_remote_seq c), hdrlen_rsvd_flags = 0, wnd = t_beui16 11680, tcp_chksum = 0, urgp = t_beui16 0\<rparr>;
         p = \<lparr>eth = \<lparr>eth_dest = map (\<lambda>i. ucast (drop_bit (8 * i) (ct_remote_mac c))) [0..<6], eth_src = eth_addr env, eth_type = t_beui16 ETH_TYPE_IP\<rparr>,
              ip = iph, tcp = TCPH_HDRLEN_FLAGS_SET tch (of_nat (5 + optlen div 4)) flags,
              rest = (\<lambda>i. if i < optlen then puts_buf (\<lambda>_. 0) (ctl_opt_writes flags ts_opt ts_echo mss_opt) i else 0)\<rparr>;
         p = p\<lparr>ip := (ip p)\<lparr>ip_chksum := ipv4_cksum env (ip p)\<rparr>\<rparr> in
     p\<lparr>tcp := (tcp p)\<lparr>tcp_chksum := ipv4_udptcp_cksum env (ip p) p\<rparr>\<rparr>)"

definition send_control_raw :: "slow_env \<Rightarrow> slowpath \<Rightarrow> ctl_params \<Rightarrow> u16 \<Rightarrow> bool \<Rightarrow> u32 \<Rightarrow> u16 \<Rightarrow> (int \<times> slowpath) result" where
  "send_control_raw e st c flags ts_opt ts_echo mss_opt =
    (let len = of_nat (sizeof_pkt_tcp + ctl_optlen flags ts_opt mss_opt);
         p = ctl_pkt e c flags ts_opt ts_echo mss_opt in
     bind_res (kernel_tx (se_tas e) (se_tsc e) (sp_tas st) len
         ((0, hdr_bytes p) # map (\<lambda>(k, bs). (sizeof_pkt_tcp + k, bs)) (ctl_opt_writes flags ts_opt ts_echo mss_opt)))
       (\<lambda>(r, t). Inr (r, st\<lparr>sp_tas := t\<rparr>)))"

definition send_control :: "slow_env \<Rightarrow> slowpath \<Rightarrow> u64 \<Rightarrow> u16 \<Rightarrow> bool \<Rightarrow> u32 \<Rightarrow> u16 \<Rightarrow> (int \<times> slowpath) result" where
  "send_control e st conn flags ts_opt ts_echo mss_opt =
    (let c = conns st conn in
     send_control_raw e st
       \<lparr>ct_remote_mac = cn_remote_mac c, ct_remote_ip = cn_remote_ip c, ct_remote_port = cn_remote_port c,
        ct_local_port = cn_local_port c, ct_local_seq = cn_local_seq c, ct_remote_seq = cn_remote_seq c\<rparr>
       flags ts_opt ts_echo mss_opt)"

text \<open>Without a timestamp option \<^verbatim>\<open>ts_val\<close> is not set, and not used.\<close>

definition send_reset :: "slow_env \<Rightarrow> slowpath \<Rightarrow> pkt_tcp \<Rightarrow> sp_tcp_opts \<Rightarrow> (int \<times> slowpath) result" where
  "send_reset e st p opts =
     send_control_raw e st
       \<lparr>ct_remote_mac = mac_u64 (eth_src (eth p)), ct_remote_ip = f_beui32 (ip_src (ip p)), ct_remote_port = f_beui16 (tcp_src (tcp p)),
        ct_local_port = f_beui16 (tcp_dest (tcp p)), ct_local_seq = f_beui32 (ackno (tcp p)), ct_remote_seq = f_beui32 (seqno (tcp p)) + 1\<rparr>
       (TCP_RST OR TCP_ACK) (so_ts opts \<noteq> None) (case so_ts opts of None \<Rightarrow> 0 | Some off \<Rightarrow> opt_ts_val p off) 0"

section \<open>The bytes that are sent\<close>

text \<open>The option area as a list of bytes.\<close>

definition ctl_opts :: "u16 \<Rightarrow> bool \<Rightarrow> u32 \<Rightarrow> u16 \<Rightarrow> u8 list" where
  "ctl_opts flags ts_opt ts_echo mss_opt =
     (if mss_opt \<noteq> 0 then [TCP_OPT_MSS, 4] @ u16_bytes (beui16_x (t_beui16 mss_opt)) else []) @
     (if ts_opt then [TCP_OPT_TIMESTAMP, 10, 0, 0, 0, 0] @ u32_bytes (beui32_x (t_beui32 ts_echo)) else []) @
     (if flags AND TCP_SYN \<noteq> 0 then [TCP_OPT_WSCALE, 3, 0, 0] else []) @
     (if ts_opt then [0, 0] else [])"

lemma ctl_optlen_cases:
  "ctl_optlen flags ts_opt mss_opt =
    (if mss_opt \<noteq> 0 then if ts_opt then if flags AND TCP_SYN \<noteq> 0 then 20 else 16 else if flags AND TCP_SYN \<noteq> 0 then 8 else 4
     else if ts_opt then if flags AND TCP_SYN \<noteq> 0 then 16 else 12 else if flags AND TCP_SYN \<noteq> 0 then 4 else 0)"
  by (simp add: ctl_optlen_def)

lemma length_ctl_opts [simp]: "length (ctl_opts flags ts_opt ts_echo mss_opt) = ctl_optlen flags ts_opt mss_opt"
  by (simp add: ctl_opts_def ctl_optlen_cases)

lemma u32_bytes_0: "u32_bytes (beui32_x (t_beui32 0)) = [0, 0, 0, 0]"
  by (simp add: u32_bytes_def t_beui32_def bswap32_def)

lemma ctl_opt_writes_bytes:
  "map (puts_buf b (ctl_opt_writes flags ts_opt ts_echo mss_opt)) [0..<ctl_optlen flags ts_opt mss_opt] = ctl_opts flags ts_opt ts_echo mss_opt"
  by (cases "mss_opt = 0"; cases ts_opt; cases "flags AND TCP_SYN = 0")
    (simp_all add: ctl_opt_writes_def ctl_opts_def ctl_optlen_cases Let_def u16_bytes_def u32_bytes_0 u32_bytes_def [of "beui32_x (t_beui32 ts_echo)"] nth_Cons' upt_rec)

lemma ctl_opt_writes_nth:
  "i < ctl_optlen flags ts_opt mss_opt \<Longrightarrow> puts_buf b (ctl_opt_writes flags ts_opt ts_echo mss_opt) i = ctl_opts flags ts_opt ts_echo mss_opt ! i"
  by (subst ctl_opt_writes_bytes [of b, symmetric]) simp

lemma ctl_opt_writes_within: "within 24 (ctl_opt_writes flags ts_opt ts_echo mss_opt)"
  by (simp add: ctl_opt_writes_def ctl_optlen_cases Let_def)

lemma puts_buf_at: "b i = b' i \<Longrightarrow> puts_buf b ws i = puts_buf b' ws i"
proof (induction ws arbitrary: b b')
  case (Cons w ws)
  obtain k bs where [simp]: "w = (k, bs)"
    by fastforce
  show ?case
    unfolding \<open>w = (k, bs)\<close> puts_buf.simps by (rule Cons.IH) (simp add: Cons.prems)
qed simp

lemma mem_view_puts: "i < 18446744073709551616 \<Longrightarrow> mem_view (mem_puts m a ws) a i = puts_buf (mem_view m a) ws i"
proof (induction ws arbitrary: m)
  case (Cons w ws)
  obtain k bs where [simp]: "w = (k, bs)"
    by fastforce
  have "puts_buf (mem_view (mem_put m a k bs) a) ws i =
      puts_buf (\<lambda>i. if k \<le> i \<and> i < k + length bs then bs ! (i - k) else mem_view m a i) ws i"
    by (rule puts_buf_at) (simp add: mem_view_put Cons.prems)
  then show ?case
    using Cons by simp
qed simp

lemma puts_buf_shift:
  "puts_buf b (map (\<lambda>(k, bs). (n + k, bs)) ws) i = (if i < n then b i else puts_buf (\<lambda>j. b (n + j)) ws (i - n))"
proof (induction ws arbitrary: b)
  case (Cons w ws)
  obtain k bs where [simp]: "w = (k, bs)"
    by fastforce
  show ?case
  proof (cases "i < n")
    case True
    then show ?thesis
      by (simp add: Cons.IH)
  next
    case False
    then show ?thesis
      by (simp add: Cons.IH, intro puts_buf_at) auto
  qed
qed simp

definition bytes_buf :: "u8 list \<Rightarrow> buf" where
  "bytes_buf bs i = (if i < length bs then bs ! i else 0)"

lemma ctl_pkt_eth [simp]: "eth (ctl_pkt e c flags ts_opt ts_echo mss_opt) =
    \<lparr>eth_dest = map (\<lambda>i. ucast (drop_bit (8 * i) (ct_remote_mac c))) [0..<6], eth_src = eth_addr (fpe (se_tas e)), eth_type = t_beui16 ETH_TYPE_IP\<rparr>"
  by (simp add: ctl_pkt_def Let_def)

lemma ctl_pkt_rest:
  "rest (ctl_pkt e c flags ts_opt ts_echo mss_opt) = bytes_buf (ctl_opts flags ts_opt ts_echo mss_opt)"
  by (rule ext) (simp add: ctl_pkt_def Let_def bytes_buf_def ctl_opt_writes_nth)

lemma length_hdr_bytes: "length (eth_dest (eth p)) = 6 \<Longrightarrow> length (eth_src (eth p)) = 6 \<Longrightarrow> length (hdr_bytes p) = 54"
  by (simp add: hdr_bytes_def eth_bytes_def)

definition ctl_bytes :: "slow_env \<Rightarrow> ctl_params \<Rightarrow> u16 \<Rightarrow> bool \<Rightarrow> u32 \<Rightarrow> u16 \<Rightarrow> u8 list" where
  "ctl_bytes e c flags ts_opt ts_echo mss_opt = hdr_bytes (ctl_pkt e c flags ts_opt ts_echo mss_opt) @ ctl_opts flags ts_opt ts_echo mss_opt"

lemma length_ctl_bytes:
  "length (eth_addr (fpe (se_tas e))) = 6 \<Longrightarrow> length (ctl_bytes e c flags ts_opt ts_echo mss_opt) = 54 + ctl_optlen flags ts_opt mss_opt"
  by (simp add: ctl_bytes_def length_hdr_bytes)

lemma pkt_of_ctl_bytes:
  assumes "length (eth_addr (fpe (se_tas e))) = 6"
  shows "pkt_of_bytes (bytes_buf (ctl_bytes e c flags ts_opt ts_echo mss_opt)) = ctl_pkt e c flags ts_opt ts_echo mss_opt"
proof (rule pkt_of_bytes_fields)
  let ?p = "ctl_pkt e c flags ts_opt ts_echo mss_opt"
  have l: "length (hdr_bytes ?p) = 54"
    by (rule length_hdr_bytes) (simp_all add: assms)
  show "has_bytes (bytes_buf (ctl_bytes e c flags ts_opt ts_echo mss_opt)) 0 (hdr_bytes ?p)"
    by (simp add: has_bytes_def bytes_buf_def ctl_bytes_def nth_append)
  show "bytes_buf (ctl_bytes e c flags ts_opt ts_echo mss_opt) (i + sizeof_pkt_tcp) = rest ?p i" for i
    using l by (simp add: ctl_pkt_rest bytes_buf_def ctl_bytes_def nth_append)
qed (simp_all add: assms)

lemma ctl_writes_bytes:
  fixes e :: slow_env and c :: ctl_params and flags :: u16 and ts_opt :: bool and ts_echo :: u32 and mss_opt :: u16
  assumes "length (eth_addr (fpe (se_tas e))) = 6"
  defines "ws \<equiv> (0, hdr_bytes (ctl_pkt e c flags ts_opt ts_echo mss_opt)) #
      map (\<lambda>(k, bs). (sizeof_pkt_tcp + k, bs)) (ctl_opt_writes flags ts_opt ts_echo mss_opt)"
  shows "map (mem_view (mem_puts m b ws) b) [0..<54 + ctl_optlen flags ts_opt mss_opt] = ctl_bytes e c flags ts_opt ts_echo mss_opt"
    and "within 1536 ws"
proof -
  let ?p = "ctl_pkt e c flags ts_opt ts_echo mss_opt" and ?n = "ctl_optlen flags ts_opt mss_opt"
  have l: "length (hdr_bytes ?p) = 54"
    by (rule length_hdr_bytes) (simp_all add: assms)
  have n: "?n \<le> 20"
    by (simp add: ctl_optlen_cases)
  have "mem_view (mem_puts m b ws) b i = ctl_bytes e c flags ts_opt ts_echo mss_opt ! i" if i: "i < 54 + ?n" for i
  proof -
    have "i < 18446744073709551616"
      using i n by linarith
    then have "mem_view (mem_puts m b ws) b i = puts_buf (mem_view m b) ws i"
      by (rule mem_view_puts)
    also have "\<dots> = (if i < 54 then hdr_bytes ?p ! i else ctl_opts flags ts_opt ts_echo mss_opt ! (i - 54))"
    proof (cases "i < 54")
      case True
      then show ?thesis
        by (simp add: ws_def puts_buf_shift l)
    next
      case False
      then have "i - 54 < ?n"
        using i by linarith
      then show ?thesis
        using False by (simp add: ws_def puts_buf_shift ctl_opt_writes_nth)
    qed
    finally show ?thesis
      by (simp add: ctl_bytes_def nth_append l)
  qed
  then show "map (mem_view (mem_puts m b ws) b) [0..<54 + ?n] = ctl_bytes e c flags ts_opt ts_echo mss_opt"
    by (intro nth_equalityI) (simp_all add: length_ctl_bytes assms)
  have "within 1482 (ctl_opt_writes flags ts_opt ts_echo mss_opt)"
    using ctl_opt_writes_within [of flags ts_opt ts_echo mss_opt] by (fastforce simp: within_def)
  then show "within 1536 ws"
    using l by (auto simp: ws_def within_def)
qed

text \<open>A control segment is appended to the outbox if there is room.\<close>

lemma send_control_raw_sends:
  assumes o: "outbox (se_tas e) (sp_tas st) ms" "evfd_write_ok (se_tas e)" "length (eth_addr (fpe (se_tas e))) = 6"
  obtains r st' where "send_control_raw e st c flags ts_opt ts_echo mss_opt = Inr (r, st')" "st' = st\<lparr>sp_tas := sp_tas st'\<rparr>"
    "sent e st ms st' (ctl_bytes e c flags ts_opt ts_echo mss_opt)" "r = (if length ms < unat (txq_len (sp_tas st)) then 0 else -1)"
proof (cases "length ms < unat (txq_len (sp_tas st))")
  case True
  let ?b = "txq_bufs (sp_tas st) 0 (txq_tail (sp_tas st) 0)" and ?n = "ctl_optlen flags ts_opt mss_opt"
  let ?len = "of_nat (54 + ?n) :: u16"
  let ?ws = "(0, hdr_bytes (ctl_pkt e c flags ts_opt ts_echo mss_opt)) #
      map (\<lambda>(k, bs). (sizeof_pkt_tcp + k, bs)) (ctl_opt_writes flags ts_opt ts_echo mss_opt)"
  have n: "?n \<le> 20"
    by (simp add: ctl_optlen_cases)
  then have len: "unat ?len = 54 + ?n"
    by (subst unat_of_nat) simp
  have le: "?len \<le> 1536"
    unfolding word_le_nat_alt len using n by simp
  obtain t' where t': "kernel_tx (se_tas e) (se_tsc e) (sp_tas st) ?len ?ws = Inr (0, t')"
    "outbox (se_tas e) t' (ms @ [Ktx_Packet ?b ?len])" "\<forall>x \<in> set ms. msg_bytes (shm t') x = msg_bytes (shm (sp_tas st)) x"
    "msg_bytes (shm t') (Ktx_Packet ?b ?len) = map (mem_view (mem_puts (shm (sp_tas st)) ?b ?ws) ?b) [0..<unat ?len]"
    by (rule kernel_tx_sends [OF o(1) True ctl_writes_bytes(2) [OF o(3)] o(2) le])
  have "msg_bytes (shm t') (Ktx_Packet ?b ?len) = ctl_bytes e c flags ts_opt ts_echo mss_opt"
    unfolding t'(4) len by (rule ctl_writes_bytes(1) [OF o(3)])
  then show thesis
    using t' True by (intro that [of 0 "st\<lparr>sp_tas := t'\<rparr>"]) (auto simp: send_control_raw_def sent_def Let_def)
next
  case False
  have q: "ktx_queue (se_tas e) (sp_tas st) 0 ms"
    using o by (simp add: outbox_def)
  then have "length ms = unat (txq_len (sp_tas st))"
    using False by (auto simp: ktx_queue_def ring_holds_def)
  from kernel_tx_full [OF q this] show thesis
    using False by (intro that [of "-1" st]) (simp_all add: send_control_raw_def sent_def Let_def)
qed

section \<open>Receiving a control segment\<close>

lemma hdrlen_flags:
  fixes flags len :: u16
  assumes "flags AND TCP_FLAGS = flags" "len < 16"
  shows "TCPH_FLAGS (TCPH_HDRLEN_FLAGS_SET h len flags) = flags" "TCPH_HDRLEN (TCPH_HDRLEN_FLAGS_SET h len flags) = len"
proof -
  have m: "(0x1ff :: u16) = mask 9"
    by (simp add: mask_eq_exp_minus_1)
  have "take_bit 9 flags = flags"
    using assms(1) unfolding m by (simp add: take_bit_eq_mask)
  then have f: "bit flags n \<longrightarrow> n < 9" for n
    by (metis bit_take_bit_iff)
  have l: "bit len n \<longrightarrow> n < 4" for n
  proof -
    have "take_bit 4 len = len"
      using assms(2) by (simp add: word_unat_eq_iff unsigned_take_bit_eq take_bit_nat_eq_self_iff word_less_nat_alt)
    then show ?thesis
      by (metis bit_take_bit_iff)
  qed
  have "(push_bit 12 len OR flags) AND TCP_FLAGS = flags"
  proof (rule bit_word_eqI)
    fix n
    assume "n < LENGTH(16)"
    then show "bit ((push_bit 12 len OR flags) AND TCP_FLAGS) n = bit flags n"
      unfolding m using f [of n] by (auto simp: bit_and_iff bit_or_iff bit_push_bit_iff bit_mask_iff)
  qed
  then show "TCPH_FLAGS (TCPH_HDRLEN_FLAGS_SET h len flags) = flags"
    by (simp add: TCPH_FLAGS_def TCPH_HDRLEN_FLAGS_SET_def)
  have "drop_bit 12 (push_bit 12 len OR flags) = len"
  proof (rule bit_word_eqI)
    fix n
    assume "n < LENGTH(16)"
    then show "bit (drop_bit 12 (push_bit 12 len OR flags)) n = bit len n"
      using f [of "12 + n"] l [of n] by (auto simp: bit_drop_bit_eq bit_or_iff bit_push_bit_iff)
  qed
  then show "TCPH_HDRLEN (TCPH_HDRLEN_FLAGS_SET h len flags) = len"
    by (simp add: TCPH_HDRLEN_def TCPH_HDRLEN_FLAGS_SET_def)
qed

definition sent_opts :: "u16 \<Rightarrow> bool \<Rightarrow> u16 \<Rightarrow> sp_tcp_opts" where
  "sent_opts flags ts_opt mss_opt =
    (let off_ts = if mss_opt \<noteq> 0 then 4 else 0; off_ws = off_ts + (if ts_opt then 10 else 0) in
     \<lparr>so_mss = if mss_opt \<noteq> 0 then Some 0 else None, so_ts = if ts_opt then Some off_ts else None,
      so_ws = if flags AND TCP_SYN \<noteq> 0 then Some off_ws else None\<rparr>)"

lemma parse_ctl_opts:
  "parse_options_loop (bytes_buf (ctl_opts flags ts_opt ts_echo mss_opt)) (ctl_optlen flags ts_opt mss_opt) 0 \<lparr>so_mss = None, so_ts = None, so_ws = None\<rparr> =
     Some (Inr (sent_opts flags ts_opt mss_opt))"
  by (cases "mss_opt = 0"; cases ts_opt; cases "flags AND TCP_SYN = 0")
    (simp_all add: ctl_opts_def ctl_optlen_cases u16_bytes_def u32_bytes_def bytes_buf_def nth_Cons' parse_option_def sent_opts_def parse_options_loop.simps)

lemma ctl_pkt_tcp:
  fixes e :: slow_env and c :: ctl_params and flags :: u16 and ts_opt :: bool and ts_echo :: u32 and mss_opt :: u16
  assumes "flags AND TCP_FLAGS = flags"
  defines "h \<equiv> tcp (ctl_pkt e c flags ts_opt ts_echo mss_opt)"
  shows "TCPH_FLAGS h = flags" "unat (TCPH_HDRLEN h) = 5 + ctl_optlen flags ts_opt mss_opt div 4"
    "f_beui16 (tcp_src h) = ct_local_port c" "f_beui16 (tcp_dest h) = ct_remote_port c"
    "f_beui32 (seqno h) = ct_local_seq c" "f_beui32 (ackno h) = ct_remote_seq c"
proof -
  let ?n = "5 + ctl_optlen flags ts_opt mss_opt div 4"
  have n: "?n \<le> 10"
    by (simp add: ctl_optlen_cases)
  then have u: "unat (of_nat ?n :: u16) = ?n"
    by (subst unat_of_nat) simp
  then have "(of_nat ?n :: u16) < 16"
    unfolding word_less_nat_alt u using n by simp
  note hf = hdrlen_flags [OF assms(1) this]
  have "TCPH_FLAGS h = TCPH_FLAGS (TCPH_HDRLEN_FLAGS_SET h (of_nat ?n) flags)" "TCPH_HDRLEN h = TCPH_HDRLEN (TCPH_HDRLEN_FLAGS_SET h (of_nat ?n) flags)"
    by (simp_all add: h_def ctl_pkt_def Let_def TCPH_FLAGS_def TCPH_HDRLEN_def TCPH_HDRLEN_FLAGS_SET_def)
  then show "TCPH_FLAGS h = flags" "unat (TCPH_HDRLEN h) = ?n"
    using hf u by simp_all
  show "f_beui16 (tcp_src h) = ct_local_port c" "f_beui16 (tcp_dest h) = ct_remote_port c"
    "f_beui32 (seqno h) = ct_local_seq c" "f_beui32 (ackno h) = ct_remote_seq c"
    by (simp_all add: h_def ctl_pkt_def Let_def TCPH_HDRLEN_FLAGS_SET_def)
qed

lemma ctl_pkt_ip:
  "f_beui32 (ip_src (ip (ctl_pkt e c flags ts_opt ts_echo mss_opt))) = cfg_ip (se_cfg e)"
  "f_beui32 (ip_dest (ip (ctl_pkt e c flags ts_opt ts_echo mss_opt))) = ct_remote_ip c"
  "ip_len (ip (ctl_pkt e c flags ts_opt ts_echo mss_opt)) = t_beui16 (of_nat (40 + ctl_optlen flags ts_opt mss_opt))"
  by (simp_all add: ctl_pkt_def Let_def)

lemma parse_ctl_pkt:
  assumes "flags AND TCP_FLAGS = flags"
  shows "parse_options (ctl_pkt e c flags ts_opt ts_echo mss_opt) (of_nat (54 + ctl_optlen flags ts_opt mss_opt)) =
    Some (Inr (sent_opts flags ts_opt mss_opt))"
proof -
  let ?n = "ctl_optlen flags ts_opt mss_opt"
  have n: "?n \<le> 20" "?n div 4 * 4 = ?n"
    by (simp_all add: ctl_optlen_cases)
  then have len: "unat (of_nat (54 + ?n) :: u16) = 54 + ?n"
    by (subst unat_of_nat) simp
  have hl: "(5 + ?n div 4) * 4 - 20 = ?n"
    using n(2) by simp
  show ?thesis
    unfolding parse_options_def Let_def ctl_pkt_tcp(2) [OF assms] len hl by (simp add: ctl_pkt_rest parse_ctl_opts)
qed

text \<open>The values in the options of a segment.\<close>

definition opt_ts_ecr :: "pkt_tcp \<Rightarrow> nat \<Rightarrow> u32" where
  "opt_ts_ecr p off = f_beui32 (get_beui32 (rest p) (off + 6))"

definition opt_mss :: "pkt_tcp \<Rightarrow> nat \<Rightarrow> u16" where
  "opt_mss p off = f_beui16 (Beui16 (get_u16 (rest p) (off + 2)))"

lemma ctl_opts_has:
  fixes flags :: u16 and ts_opt :: bool and ts_echo :: u32 and mss_opt :: u16
  defines "b \<equiv> bytes_buf (ctl_opts flags ts_opt ts_echo mss_opt)" and "off_ts \<equiv> (if mss_opt \<noteq> 0 then 4 else 0 :: nat)"
  shows "mss_opt \<noteq> 0 \<Longrightarrow> has_bytes b 2 (u16_bytes (beui16_x (t_beui16 mss_opt)))"
    "ts_opt \<Longrightarrow> has_bytes b (off_ts + 2) (u32_bytes (beui32_x (t_beui32 0)))"
    "ts_opt \<Longrightarrow> has_bytes b (off_ts + 6) (u32_bytes (beui32_x (t_beui32 ts_echo)))"
    "flags AND TCP_SYN \<noteq> 0 \<Longrightarrow> b (off_ts + (if ts_opt then 10 else 0) + 2) = 0"
  unfolding u32_bytes_0
  by (simp_all add: b_def off_ts_def bytes_buf_def ctl_opts_def has_bytes_Cons u16_bytes_def u32_bytes_def ctl_optlen_cases nth_Cons' nth_append)

text \<open>
  C14: A control segment reaches its receiver intact.  Unless the kernel transmit queue is full, in
  which case nothing changes and the sender is told, exactly one segment is appended to it; a
  receiver that reads its bytes finds ports, sequence numbers and flags as given, and its option
  parser finds exactly the options that were asked for, with their values.
\<close>

theorem send_control_received:
  assumes o: "outbox (se_tas e) (sp_tas st) ms" "evfd_write_ok (se_tas e)" "length (eth_addr (fpe (se_tas e))) = 6"
    and f: "flags AND TCP_FLAGS = flags"
  shows "\<exists>r st' bs p. send_control_raw e st c flags ts_opt ts_echo mss_opt = Inr (r, st') \<and> sent e st ms st' bs \<and>
    r = (if length ms < unat (txq_len (sp_tas st)) then 0 else -1) \<and>
    p = pkt_of_bytes (bytes_buf bs) \<and>
    f_beui32 (ip_src (ip p)) = cfg_ip (se_cfg e) \<and> f_beui32 (ip_dest (ip p)) = ct_remote_ip c \<and>
    f_beui16 (tcp_src (tcp p)) = ct_local_port c \<and> f_beui16 (tcp_dest (tcp p)) = ct_remote_port c \<and>
    f_beui32 (seqno (tcp p)) = ct_local_seq c \<and> f_beui32 (ackno (tcp p)) = ct_remote_seq c \<and> TCPH_FLAGS (tcp p) = flags \<and>
    (\<exists>opts. parse_options p (of_nat (length bs)) = Some (Inr opts) \<and>
       map_option (opt_mss p) (so_mss opts) = (if mss_opt \<noteq> 0 then Some mss_opt else None) \<and>
       map_option (\<lambda>k. (opt_ts_val p k, opt_ts_ecr p k)) (so_ts opts) = (if ts_opt then Some (0, ts_echo) else None) \<and>
       map_option (opt_wscale p) (so_ws opts) = (if flags AND TCP_SYN \<noteq> 0 then Some 0 else None))"
proof -
  let ?p = "ctl_pkt e c flags ts_opt ts_echo mss_opt" and ?bs = "ctl_bytes e c flags ts_opt ts_echo mss_opt"
  let ?o = "sent_opts flags ts_opt mss_opt"
  obtain r st' where s: "send_control_raw e st c flags ts_opt ts_echo mss_opt = Inr (r, st')" "sent e st ms st' ?bs"
    "r = (if length ms < unat (txq_len (sp_tas st)) then 0 else -1)"
    using send_control_raw_sends [OF o] by metis
  have p: "pkt_of_bytes (bytes_buf ?bs) = ?p"
    by (rule pkt_of_ctl_bytes [OF o(3)])
  have opts: "parse_options ?p (of_nat (length ?bs)) = Some (Inr ?o)"
    unfolding length_ctl_bytes [OF o(3)] by (rule parse_ctl_pkt [OF f])
  note has = ctl_opts_has [where flags = flags and ts_opt = ts_opt and ts_echo = ts_echo and mss_opt = mss_opt]
  have "map_option (opt_mss ?p) (so_mss ?o) = (if mss_opt \<noteq> 0 then Some mss_opt else None)"
    using get_u16_bytes [OF has(1)] by (simp add: sent_opts_def Let_def opt_mss_def ctl_pkt_rest f_beui16_def t_beui16_def numeral_2_eq_2)
  moreover have "map_option (\<lambda>k. (opt_ts_val ?p k, opt_ts_ecr ?p k)) (so_ts ?o) = (if ts_opt then Some (0, ts_echo) else None)"
    using get_beui32_bytes [OF has(2)] get_beui32_bytes [OF has(3)]
    by (simp add: sent_opts_def Let_def opt_ts_val_def opt_ts_ecr_def ctl_pkt_rest)
  moreover have "map_option (opt_wscale ?p) (so_ws ?o) = (if flags AND TCP_SYN \<noteq> 0 then Some 0 else None)"
    using has(4) by (simp add: sent_opts_def Let_def opt_wscale_def ctl_pkt_rest)
  ultimately show ?thesis
    using s opts ctl_pkt_tcp [OF f] by (intro exI [of _ r] exI [of _ st'] exI [of _ ?bs] exI [of _ ?p]) (auto simp: p ctl_pkt_ip)
qed

definition demo_ctl :: ctl_params where
  "demo_ctl = \<lparr>ct_remote_mac = 0, ct_remote_ip = 0x0A000002, ct_remote_port = 80, ct_local_port = 9000, ct_local_seq = 7, ct_remote_seq = 0\<rparr>"

theorem send_control_received_witness:
  "\<exists>st' bs opts. send_control_raw demo_senv (demo_slow demo_mgr) demo_ctl TCP_SYN True 5 1460 = Inr (0, st') \<and>
     sent demo_senv (demo_slow demo_mgr) [] st' bs \<and> f_beui16 (tcp_dest (tcp (pkt_of_bytes (bytes_buf bs)))) = 80 \<and>
     parse_options (pkt_of_bytes (bytes_buf bs)) (of_nat (length bs)) = Some (Inr opts) \<and> opt_mss (pkt_of_bytes (bytes_buf bs)) (the (so_mss opts)) = 1460"
proof -
  have "\<exists>r st' bs p. send_control_raw demo_senv (demo_slow demo_mgr) demo_ctl TCP_SYN True 5 1460 = Inr (r, st') \<and>
    sent demo_senv (demo_slow demo_mgr) [] st' bs \<and> r = (if length ([] :: ktx_msg list) < unat (txq_len (sp_tas (demo_slow demo_mgr))) then 0 else -1) \<and>
    p = pkt_of_bytes (bytes_buf bs) \<and>
    f_beui32 (ip_src (ip p)) = cfg_ip (se_cfg demo_senv) \<and> f_beui32 (ip_dest (ip p)) = ct_remote_ip demo_ctl \<and>
    f_beui16 (tcp_src (tcp p)) = ct_local_port demo_ctl \<and> f_beui16 (tcp_dest (tcp p)) = ct_remote_port demo_ctl \<and>
    f_beui32 (seqno (tcp p)) = ct_local_seq demo_ctl \<and> f_beui32 (ackno (tcp p)) = ct_remote_seq demo_ctl \<and> TCPH_FLAGS (tcp p) = TCP_SYN \<and>
    (\<exists>opts. parse_options p (of_nat (length bs)) = Some (Inr opts) \<and>
       map_option (opt_mss p) (so_mss opts) = (if 1460 \<noteq> (0 :: u16) then Some 1460 else None) \<and>
       map_option (\<lambda>k. (opt_ts_val p k, opt_ts_ecr p k)) (so_ts opts) = (if True then Some (0, 5) else None) \<and>
       map_option (opt_wscale p) (so_ws opts) = (if TCP_SYN AND TCP_SYN \<noteq> 0 then Some 0 else None))"
    by (rule send_control_received) (simp_all add: demo_outbox)
  then show ?thesis
    by (elim exE conjE) (auto simp: demo_ctl_def)
qed

end
