(* ===== verification/Tcp_Table.thy ===== *)
theory Tcp_Table
  imports Arp_Spec
begin

text \<open>
  The table of connections of the slow path, \<^verbatim>\<open>tas/slow/tcp.c\<close>: a hash table whose buckets are linked
  through \<^verbatim>\<open>ht_next\<close>.  It is a list of connections, the one registered last first: a packet
  belongs to the first connection with its addresses.
\<close>

unbundle bit_operations_syntax

section \<open>Model\<close>

definition conn_hash :: "fp_env \<Rightarrow> u32 \<Rightarrow> u32 \<Rightarrow> u16 \<Rightarrow> u16 \<Rightarrow> u32" where
  "conn_hash env l_ip r_ip l_po r_po =
     crc32c_u32 env (ucast l_po OR push_bit 16 (ucast r_po)) (crc32c_u64 env (ucast l_ip OR push_bit 32 (ucast r_ip)) 0)"

definition conn_bucket :: "slow_env \<Rightarrow> connection \<Rightarrow> u32" where
  "conn_bucket e c = conn_hash (fpe (se_tas e)) (cn_local_ip c) (cn_remote_ip c) (cn_local_port c) (cn_remote_port c) mod 4096"

definition conn_register :: "slow_env \<Rightarrow> slowpath \<Rightarrow> u64 \<Rightarrow> slowpath" where
  "conn_register e st conn =
    (let h = conn_bucket e (conns st conn);
         st = mod_conn st conn (ht_next_update (\<lambda>_. tcp_hashtable st h)) in
     st\<lparr>tcp_hashtable := (tcp_hashtable st)(h := conn)\<rparr>)"

text \<open>The search for the element before \<^verbatim>\<open>x\<close> in a list; 0 if there is none.\<close>

partial_function (option) prev_walk :: "(u64 \<Rightarrow> u64) \<Rightarrow> u64 \<Rightarrow> u64 \<Rightarrow> u64 option" where
  "prev_walk nxt x cp = (if cp \<noteq> 0 \<and> nxt cp \<noteq> x then prev_walk nxt x (nxt cp) else Some cp)"

definition conn_unregister :: "slow_env \<Rightarrow> slowpath \<Rightarrow> u64 \<Rightarrow> slowpath run" where
  "conn_unregister e st conn =
    (let h = conn_bucket e (conns st conn) in
     if tcp_hashtable st h = conn
     then Some (Inr (st\<lparr>tcp_hashtable := (tcp_hashtable st)(h := ht_next (conns st conn))\<rparr>))
     else case prev_walk (\<lambda>c. ht_next (conns st c)) conn (tcp_hashtable st h) of
       None \<Rightarrow> None
     | Some cp \<Rightarrow>
         if cp = 0 then Some (Inl Abort)
         else Some (Inr (mod_conn st cp (ht_next_update (\<lambda>_. ht_next (conns st conn))))))"

definition conn_matches :: "pkt_tcp \<Rightarrow> connection \<Rightarrow> bool" where
  "conn_matches p c \<longleftrightarrow> f_beui32 (ip_src (ip p)) = cn_remote_ip c \<and>
     f_beui16 (tcp_dest (tcp p)) = cn_local_port c \<and> f_beui16 (tcp_src (tcp p)) = cn_remote_port c"

partial_function (option) conn_lookup_loop :: "(u64 \<Rightarrow> connection) \<Rightarrow> pkt_tcp \<Rightarrow> u64 \<Rightarrow> u64 option" where
  "conn_lookup_loop cs p c =
    (if c = 0 then Some 0 else if conn_matches p (cs c) then Some c else conn_lookup_loop cs p (ht_next (cs c)))"

definition conn_lookup :: "slow_env \<Rightarrow> slowpath \<Rightarrow> pkt_tcp \<Rightarrow> u64 option" where
  "conn_lookup e st p =
    (let h = conn_hash (fpe (se_tas e)) (f_beui32 (ip_dest (ip p))) (f_beui32 (ip_src (ip p)))
               (f_beui16 (tcp_dest (tcp p))) (f_beui16 (tcp_src (tcp p))) mod 4096 in
     conn_lookup_loop (conns st) p (tcp_hashtable st h))"

section \<open>What users of the table rely on\<close>

text \<open>
  A registry holds a list of objects; \<open>find_in st k\<close> is the first one that \<open>k\<close> belongs to.
\<close>

locale registry =
  fixes holds :: "'s \<Rightarrow> 'c list \<Rightarrow> bool"
    and valid :: "'s \<Rightarrow> 'c \<Rightarrow> bool"
    and belongs :: "'s \<Rightarrow> 'k \<Rightarrow> 'c \<Rightarrow> bool"
    and register :: "'s \<Rightarrow> 'c \<Rightarrow> 's"
    and unregister :: "'s \<Rightarrow> 'c \<Rightarrow> 's run"
    and find_in :: "'s \<Rightarrow> 'k \<Rightarrow> 'c option option"
    and askable :: "'s \<Rightarrow> 'k \<Rightarrow> bool"
  assumes register_law: "holds st cs \<Longrightarrow> valid st c \<Longrightarrow> c \<notin> set cs \<Longrightarrow> holds (register st c) (c # cs)"
    and unregister_law: "holds st cs \<Longrightarrow> c \<in> set cs \<Longrightarrow> \<exists>st'. unregister st c = Some (Inr st') \<and> holds st' (remove1 c cs)"
    and find_law: "holds st cs \<Longrightarrow> askable st k \<Longrightarrow> find_in st k = Some (find (belongs st k) cs)"
    and holds_distinct: "holds st cs \<Longrightarrow> distinct cs"
    and register_keeps: "belongs (register st c) = belongs st" "askable (register st c) = askable st"
    and unregister_keeps: "unregister st c = Some (Inr st') \<Longrightarrow> belongs st' = belongs st"
      "unregister st c = Some (Inr st') \<Longrightarrow> askable st' = askable st"
begin

lemma find_registered:
  assumes "holds st cs" "valid st c" "c \<notin> set cs" "askable st k" "belongs st k c"
  shows "find_in (register st c) k = Some (Some c)"
  using find_law [OF register_law [OF assms(1-3)]] assms(4,5) by (simp add: register_keeps)

lemma find_other:
  assumes "holds st cs" "valid st c" "c \<notin> set cs" "askable st k" "\<not> belongs st k c"
  shows "find_in (register st c) k = find_in st k"
  using find_law [OF register_law [OF assms(1-3)]] find_law [OF assms(1,4)] assms(4,5) by (simp add: register_keeps)

lemma register_unregister:
  assumes "holds st cs" "valid st c" "c \<notin> set cs"
  obtains st' where "unregister (register st c) c = Some (Inr st')" "holds st' cs"
  using unregister_law [OF register_law [OF assms], of c] by auto

lemma find_unregistered:
  assumes "holds st cs" "c \<in> set cs" "unregister st c = Some (Inr st')" "askable st k"
  shows "find_in st' k = Some (find (\<lambda>d. d \<noteq> c \<and> belongs st k d) cs)"
proof -
  have "holds st' (remove1 c cs)"
    using unregister_law [OF assms(1,2)] assms(3) by auto
  moreover have "find P (filter (\<lambda>d. d \<noteq> c) xs) = find (\<lambda>d. d \<noteq> c \<and> P d) xs" for P xs
    by (induction xs) auto
  moreover have "remove1 c cs = filter (\<lambda>d. d \<noteq> c) cs"
    using holds_distinct [OF assms(1)] by (simp add: distinct_remove1_removeAll removeAll_filter_not_eq) (metis (mono_tags) filter_cong)
  ultimately show ?thesis
    using find_law [of st' "remove1 c cs" k] assms(4) unregister_keeps [OF assms(3)] by simp
qed

end

section \<open>The hash table is a registry\<close>

definition conn_table :: "slow_env \<Rightarrow> slowpath \<Rightarrow> u64 list \<Rightarrow> bool" where
  "conn_table e st cs \<longleftrightarrow> distinct cs \<and> 0 \<notin> set cs \<and>
     (\<forall>h. path 0 (\<lambda>c. ht_next (conns st c)) (tcp_hashtable st h) (filter (\<lambda>c. conn_bucket e (conns st c) = h) cs))"

lemma conn_tableI:
  assumes "distinct cs" "0 \<notin> set cs"
    "\<And>h. path 0 (\<lambda>c. ht_next (conns st c)) (tcp_hashtable st h) (filter (\<lambda>c. conn_bucket e (conns st c) = h) cs)"
  shows "conn_table e st cs"
  using assms by (simp add: conn_table_def)

lemma conn_table_path:
  "conn_table e st cs \<Longrightarrow> path 0 (\<lambda>c. ht_next (conns st c)) (tcp_hashtable st h) (filter (\<lambda>c. conn_bucket e (conns st c) = h) cs)"
  by (simp add: conn_table_def)

lemma conn_bucket_ht_next [simp]: "conn_bucket e (c\<lparr>ht_next := x\<rparr>) = conn_bucket e c"
  by (simp add: conn_bucket_def)

lemma conn_bucket_upd: "conn_bucket e (((conns st)(x := (conns st x)\<lparr>ht_next := v\<rparr>)) c) = conn_bucket e (conns st c)"
  by simp

lemma conn_register_table:
  assumes t: "conn_table e st cs" and c: "c \<noteq> 0" "c \<notin> set cs"
  shows "conn_table e (conn_register e st c) (c # cs)"
proof (rule conn_tableI)
  let ?h = "conn_bucket e (conns st c)"
  fix h
  let ?f = "filter (\<lambda>c. conn_bucket e (conns st c) = h) cs"
  have p: "path 0 (\<lambda>c. ht_next (conns st c)) (tcp_hashtable st h) ?f"
    by (rule conn_table_path [OF t])
  have "path 0 ((\<lambda>c. ht_next (conns st c))(c := tcp_hashtable st ?h)) (tcp_hashtable st h) ?f"
    using p c(2) by (subst path_upd_outside) auto
  moreover have n: "(\<lambda>d. ht_next (conns (conn_register e st c) d)) = (\<lambda>c. ht_next (conns st c))(c := tcp_hashtable st ?h)"
    by (auto simp: conn_register_def Let_def)
  moreover have b: "conn_bucket e (conns (conn_register e st c) d) = conn_bucket e (conns st d)" for d
    by (simp add: conn_register_def Let_def)
  moreover have "tcp_hashtable (conn_register e st c) h = (if h = ?h then c else tcp_hashtable st h)"
    by (simp add: conn_register_def Let_def)
  ultimately show "path 0 (\<lambda>d. ht_next (conns (conn_register e st c) d)) (tcp_hashtable (conn_register e st c) h)
      (filter (\<lambda>d. conn_bucket e (conns (conn_register e st c) d) = h) (c # cs))"
    unfolding n b using c by (cases "h = ?h") simp_all
qed (use t c in \<open>simp_all add: conn_table_def\<close>)

lemma prev_walk_path:
  assumes "path 0 nxt h (as @ x # p # bs)" "distinct (as @ x # p # bs)"
  shows "prev_walk nxt p h = Some x"
  using assms
proof (induction as arbitrary: h)
  case Nil
  then show ?case
    by (subst prev_walk.simps) simp
next
  case (Cons a as)
  moreover have "nxt a \<noteq> p"
    using Cons.prems by (cases as) auto
  ultimately show ?case
    by (subst prev_walk.simps) auto
qed

lemma prev_walk_absent:
  assumes "path 0 nxt h xs" "p \<notin> set xs" "p \<noteq> 0"
  shows "prev_walk nxt p h = Some 0"
  using assms
proof (induction xs arbitrary: h)
  case (Cons x xs)
  then have "nxt x \<noteq> p"
    by (cases xs) auto
  with Cons show ?case
    by (subst prev_walk.simps) auto
qed (subst prev_walk.simps, simp)

lemma conn_unregister_found:
  assumes t: "conn_table e st cs" and c: "c \<in> set cs"
  shows "\<exists>st'. conn_unregister e st c = Some (Inr st') \<and> conn_table e st' (remove1 c cs)"
proof -
  let ?h = "conn_bucket e (conns st c)" and ?n = "\<lambda>c. ht_next (conns st c)"
  let ?f = "\<lambda>h. filter (\<lambda>d. conn_bucket e (conns st d) = h)"
  have d: "distinct cs" "0 \<notin> set (remove1 c cs)"
    using t by (auto simp: conn_table_def)
  note p = conn_table_path [OF t]
  have df: "distinct (?f ?h cs)"
    using d by simp
  have "c \<in> set (?f ?h cs)"
    using c by simp
  then obtain as bs where l: "?f ?h cs = as @ c # bs"
    by (meson split_list)
  have rem: "?f h (remove1 c cs) = (if h = ?h then as @ bs else ?f h cs)" for h
  proof (cases "h = ?h")
    case True
    have "?f ?h (remove1 c cs) = remove1 c (?f ?h cs)"
      by (simp add: filter_remove1)
    then show ?thesis
      unfolding l True using df [unfolded l] by (simp add: remove1_append)
  qed (simp add: filter_remove1 remove1_idem)
  show ?thesis
  proof (cases "as = []")
    case True
    have "tcp_hashtable st ?h = c"
      using p [of ?h] unfolding l True by simp
    then have u: "conn_unregister e st c = Some (Inr (st\<lparr>tcp_hashtable := (tcp_hashtable st)(?h := ?n c)\<rparr>))"
      by (simp add: conn_unregister_def Let_def)
    have "conn_table e (st\<lparr>tcp_hashtable := (tcp_hashtable st)(?h := ?n c)\<rparr>) (remove1 c cs)"
    proof (rule conn_tableI)
      fix h
      show "path 0 (\<lambda>d. ht_next (conns (st\<lparr>tcp_hashtable := (tcp_hashtable st)(?h := ?n c)\<rparr>) d))
          (tcp_hashtable (st\<lparr>tcp_hashtable := (tcp_hashtable st)(?h := ?n c)\<rparr>) h)
          (filter (\<lambda>d. conn_bucket e (conns (st\<lparr>tcp_hashtable := (tcp_hashtable st)(?h := ?n c)\<rparr>) d) = h) (remove1 c cs))"
        using p [of ?h] p [of h] rem [of h] l True by (cases "h = ?h") simp_all
    qed (use d in simp_all)
    with u show ?thesis
      by blast
  next
    case False
    then obtain as' x where as: "as = as' @ [x]"
      by (metis rev_exhaust)
    have px: "path 0 ?n (tcp_hashtable st ?h) (as' @ x # c # bs)" "distinct (as' @ x # c # bs)"
      using p [of ?h] df unfolding l as by simp_all
    have ne: "tcp_hashtable st ?h \<noteq> c" "x \<noteq> 0"
      using px path_inval [OF px(1)] by (cases as'; auto)+
    let ?st = "mod_conn st x (ht_next_update (\<lambda>_. ?n c))"
    have u: "conn_unregister e st c = Some (Inr ?st)"
      using ne prev_walk_path [OF px] by (simp add: conn_unregister_def Let_def)
    have n': "(\<lambda>d. ht_next (conns ?st d)) = ?n(x := ?n c)"
      by auto
    have "conn_table e ?st (remove1 c cs)"
    proof (rule conn_tableI)
      fix h
      have b: "conn_bucket e (conns ?st d) = conn_bucket e (conns st d)" for d
        by simp
      show "path 0 (\<lambda>d. ht_next (conns ?st d)) (tcp_hashtable ?st h) (filter (\<lambda>d. conn_bucket e (conns ?st d) = h) (remove1 c cs))"
      proof (cases "h = ?h")
        case True
        then show ?thesis
          unfolding n' b rem using path_remove [OF px] by (simp add: as)
      next
        case False
        have "x \<in> set (?f ?h cs)"
          unfolding l as by simp
        then have "x \<notin> set (?f h cs)"
          using False by auto
        then have "path 0 (?n(x := ?n c)) (tcp_hashtable st h) (?f h cs)"
          using p [of h] by (subst path_upd_outside)
        then show ?thesis
          unfolding n' b rem using False by simp
      qed
    qed (use d in simp_all)
    with u show ?thesis
      by blast
  qed
qed

lemma conn_unregister_absent:
  assumes t: "conn_table e st cs" and c: "c \<notin> set cs" "c \<noteq> 0"
  shows "conn_unregister e st c = Some (Inl Abort)"
proof -
  let ?h = "conn_bucket e (conns st c)"
  note p = conn_table_path [OF t, of ?h]
  have n: "c \<notin> set (filter (\<lambda>d. conn_bucket e (conns st d) = ?h) cs)"
    using c by simp
  then have "tcp_hashtable st ?h \<noteq> c"
    using p c(2) path_head [OF p] by (metis hd_in_set)
  then show ?thesis
    using prev_walk_absent [OF p n c(2)] by (simp add: conn_unregister_def Let_def)
qed

text \<open>Packets to the address the registered connections have.\<close>

definition to_local :: "slow_env \<Rightarrow> slowpath \<Rightarrow> u64 list \<Rightarrow> bool" where
  "to_local e st cs \<longleftrightarrow> (\<forall>c \<in> set cs. cn_local_ip (conns st c) = cfg_ip (se_cfg e))"

lemma conn_lookup_loop_path:
  assumes "path 0 (\<lambda>c. ht_next (cs c)) h xs"
  shows "conn_lookup_loop cs p h = Some (case find (\<lambda>c. conn_matches p (cs c)) xs of None \<Rightarrow> 0 | Some c \<Rightarrow> c)"
  using assms
proof (induction xs arbitrary: h)
  case (Cons x xs)
  then show ?case
    by (subst conn_lookup_loop.simps) auto
qed (subst conn_lookup_loop.simps, simp)

lemma find_filter_implies:
  assumes "\<And>x. x \<in> set xs \<Longrightarrow> P x \<Longrightarrow> Q x"
  shows "find P (filter Q xs) = find P xs"
  using assms by (induction xs) auto

lemma conn_lookup_find:
  assumes t: "conn_table e st cs" and l: "to_local e st cs" and p: "f_beui32 (ip_dest (ip p)) = cfg_ip (se_cfg e)"
  shows "conn_lookup e st p = Some (case find (\<lambda>c. conn_matches p (conns st c)) cs of None \<Rightarrow> 0 | Some c \<Rightarrow> c)"
proof -
  let ?h = "conn_hash (fpe (se_tas e)) (f_beui32 (ip_dest (ip p))) (f_beui32 (ip_src (ip p)))
               (f_beui16 (tcp_dest (tcp p))) (f_beui16 (tcp_src (tcp p))) mod 4096"
  have "find (\<lambda>c. conn_matches p (conns st c)) (filter (\<lambda>c. conn_bucket e (conns st c) = ?h) cs) =
      find (\<lambda>c. conn_matches p (conns st c)) cs"
    using l p by (intro find_filter_implies) (simp add: conn_matches_def conn_bucket_def to_local_def)
  then show ?thesis
    unfolding conn_lookup_def Let_def conn_lookup_loop_path [OF conn_table_path [OF t]] by simp
qed

text \<open>The interface for a given configuration.\<close>

definition conns_hold :: "slow_env \<Rightarrow> slowpath \<Rightarrow> u64 list \<Rightarrow> bool" where
  "conns_hold e st cs \<longleftrightarrow> conn_table e st cs \<and> to_local e st cs"

definition lookup_conn :: "slow_env \<Rightarrow> slowpath \<Rightarrow> pkt_tcp \<Rightarrow> u64 option option" where
  "lookup_conn e st p = map_option (\<lambda>c. if c = 0 then None else Some c) (conn_lookup e st p)"

lemma conn_register_conns: "conns (conn_register e st c) = (conns st)(c := (conns st c)\<lparr>ht_next := tcp_hashtable st (conn_bucket e (conns st c))\<rparr>)"
  by (simp add: conn_register_def Let_def)

lemma conn_unregister_conns:
  assumes "conn_unregister e st c = Some (Inr st')"
  obtains "conns st' = conns st" | x v where "conns st' = (conns st)(x := (conns st x)\<lparr>ht_next := v\<rparr>)"
  using assms by (auto simp: conn_unregister_def Let_def split: if_splits option.splits)

lemma conn_unregister_fields:
  assumes "conn_unregister e st c = Some (Inr st')"
  shows "cn_local_ip (conns st' d) = cn_local_ip (conns st d)" "conn_matches p (conns st' d) = conn_matches p (conns st d)"
  using assms by (auto elim!: conn_unregister_conns simp: conn_matches_def)

interpretation conn_reg: registry "conns_hold e" "\<lambda>st c. c \<noteq> 0 \<and> cn_local_ip (conns st c) = cfg_ip (se_cfg e)"
  "\<lambda>st p c. conn_matches p (conns st c)" "conn_register e" "conn_unregister e" "lookup_conn e"
  "\<lambda>st p. f_beui32 (ip_dest (ip p)) = cfg_ip (se_cfg e)" for e
proof (unfold_locales, goal_cases)
  case (1 st cs c)
  then show ?case
    using conn_register_table [of e st cs c] by (auto simp: conns_hold_def to_local_def conn_register_conns)
next
  case (2 st cs c)
  then obtain st' where st': "conn_unregister e st c = Some (Inr st')" "conn_table e st' (remove1 c cs)"
    using conn_unregister_found [of e st cs c] by (auto simp: conns_hold_def)
  moreover have "to_local e st' (remove1 c cs)"
    using 2(1) conn_unregister_fields(1) [OF st'(1)] set_remove1_subset [of c cs] by (auto simp: conns_hold_def to_local_def)
  ultimately show ?case
    by (auto simp: conns_hold_def)
next
  case (3 st cs p)
  have "0 \<notin> set cs"
    using 3(1) by (simp add: conns_hold_def conn_table_def)
  then have "find P cs \<noteq> Some 0" for P
    using find_Some_iff nth_mem by metis
  then show ?case
    using conn_lookup_find [of e st cs p] 3 by (auto simp: conns_hold_def lookup_conn_def split: option.splits)
next
  case (4 st cs)
  then show ?case
    by (simp add: conns_hold_def conn_table_def)
next
  case (5 st c)
  show ?case
    by (auto simp: conn_register_conns conn_matches_def fun_eq_iff)
next
  case (7 st c st')
  then show ?case
    using conn_unregister_fields(2) by (simp add: fun_eq_iff)
qed simp_all

text \<open>
  C9: The hash table finds connections by the addresses and ports of a packet, whatever the hash
  function: a connection that has been registered receives the packets that match it, other packets
  go where they went before; a registered connection can be removed, whereupon every packet goes
  where it went before, and removing one that is not registered aborts.
\<close>

theorem conn_table_registry:
  assumes t: "conns_hold e st cs" and c: "c \<noteq> 0" "c \<notin> set cs" "cn_local_ip (conns st c) = cfg_ip (se_cfg e)"
    and p: "f_beui32 (ip_dest (ip p)) = cfg_ip (se_cfg e)"
  shows "lookup_conn e (conn_register e st c) p = (if conn_matches p (conns st c) then Some (Some c) else lookup_conn e st p) \<and>
    lookup_conn e st p = Some (find (\<lambda>d. conn_matches p (conns st d)) cs) \<and>
    (\<exists>st'. conn_unregister e (conn_register e st c) c = Some (Inr st') \<and> conns_hold e st' cs \<and> lookup_conn e st' p = lookup_conn e st p) \<and>
    conn_unregister e st c = Some (Inl Abort)"
proof -
  note reg = conn_reg.find_registered [OF t _ c(2) p] conn_reg.find_other [OF t _ c(2) p]
  obtain st' where st': "conn_unregister e (conn_register e st c) c = Some (Inr st')" "conns_hold e st' cs"
    using conn_reg.register_unregister [OF t _ c(2)] c by blast
  have "(\<lambda>d. conn_matches p (conns st' d)) = (\<lambda>d. conn_matches p (conns st d))"
    using conn_reg.unregister_keeps(1) [OF st'(1)] conn_reg.register_keeps(1) [of e st c] by metis
  then have "lookup_conn e st' p = lookup_conn e st p"
    using conn_reg.find_law [OF st'(2) p] conn_reg.find_law [OF t p] by simp
  moreover have "conn_unregister e st c = Some (Inl Abort)"
    using conn_unregister_absent [of e st cs c] t c by (simp add: conns_hold_def)
  ultimately show ?thesis
    using reg conn_reg.find_law [OF t p] c st' by auto
qed

definition demo_pkt :: "pkt_tcp" where
  "demo_pkt = \<lparr>eth = \<lparr>eth_dest = replicate 6 0, eth_src = replicate 6 0, eth_type = t_beui16 ETH_TYPE_IP\<rparr>,
     ip = \<lparr>v_hl = 0x45, tos = 0, ip_len = t_beui16 40, ip_id = t_beui16 3, ip_offset = t_beui16 0, ttl = 0xff, proto = IP_PROTO_TCP, ip_chksum = 0,
       ip_src = t_beui32 0x0A000002, ip_dest = t_beui32 0x0A000001\<rparr>,
     tcp = \<lparr>tcp_src = t_beui16 80, tcp_dest = t_beui16 9000, seqno = t_beui32 0, ackno = t_beui32 0, hdrlen_rsvd_flags = 0, wnd = t_beui16 0,
       tcp_chksum = 0, urgp = t_beui16 0\<rparr>, rest = (\<lambda>_. 0)\<rparr>"

theorem conn_table_registry_witness:
  "lookup_conn demo_senv (demo_slow demo_mgr) demo_pkt = Some None \<and>
   lookup_conn demo_senv (conn_register demo_senv (demo_slow demo_mgr) 64) demo_pkt = Some (Some 64) \<and>
   conn_unregister demo_senv (demo_slow demo_mgr) 64 = Some (Inl Abort)"
proof -
  have t: "conns_hold demo_senv (demo_slow demo_mgr) []"
    by (simp add: conns_hold_def conn_table_def to_local_def)
  have "conn_matches demo_pkt (conns (demo_slow demo_mgr) 64)"
    by (simp add: conn_matches_def demo_pkt_def demo_cn_def)
  with conn_table_registry [OF t, of 64 demo_pkt] show ?thesis
    by (simp add: demo_pkt_def demo_cn_def)
qed

end
