(* ===== verification/Tcp_Ports.thy ===== *)
theory Tcp_Ports
  imports Slow_State
begin

text \<open>
  Ports and initialisation of the slow path TCP code, \<^verbatim>\<open>tas/slow/tcp.c\<close>.  An entry of \<^verbatim>\<open>ports\<close> is a
  pointer whose low two bits tell what uses the port.
\<close>

unbundle bit_operations_syntax

section \<open>Model\<close>

abbreviation (input) TCP_HTSIZE :: u32 where "TCP_HTSIZE \<equiv> 4096"
abbreviation (input) PORT_FIRST_EPH :: u16 where "PORT_FIRST_EPH \<equiv> 8192"
abbreviation (input) PORT_TYPE_UNUSED :: u64 where "PORT_TYPE_UNUSED \<equiv> 0"
abbreviation (input) PORT_TYPE_LISTEN :: u64 where "PORT_TYPE_LISTEN \<equiv> 1"
abbreviation (input) PORT_TYPE_LMULTI :: u64 where "PORT_TYPE_LMULTI \<equiv> 2"
abbreviation (input) PORT_TYPE_CONN :: u64 where "PORT_TYPE_CONN \<equiv> 3"
abbreviation (input) PORT_TYPE_MASK :: u64 where "PORT_TYPE_MASK \<equiv> 3"

text \<open>\<open>ok\<close> is the success of \<^verbatim>\<open>calloc\<close>; the time seeds the random number generator.\<close>

definition tcp_init :: "slow_env \<Rightarrow> bool \<Rightarrow> slowpath \<Rightarrow> int \<times> slowpath" where
  "tcp_init e ok st =
    (let rng = utils_rng_init (ucast (timestamp_us_long (se_tsc e) (se_tsc_per_us e)));
         (r, rng) = utils_rng_gen32 rng;
         st = st\<lparr>conn_async_q := 0, tcp_rng := rng, port_eph_hint := ucast (r mod 57343)\<rparr> in
     if \<not> ok then (-1, st) else (0, st\<lparr>tcp_hashtable := (\<lambda>_. 0)\<rparr>))"

definition port_next :: "u16 \<Rightarrow> u16" where
  "port_next p = (if p + 1 < PORT_FIRST_EPH then PORT_FIRST_EPH else p + 1)"

text \<open>A free port and the new hint, or nothing once the search is back at its start.\<close>

partial_function (option) port_alloc_loop :: "(u16 \<Rightarrow> u64) \<Rightarrow> u16 \<Rightarrow> u16 \<Rightarrow> (u16 \<times> u16) option option" where
  "port_alloc_loop ps p_start p =
    (let p_next = port_next p in
     if ps p AND PORT_TYPE_MASK = PORT_TYPE_UNUSED then Some (Some (p, p_next))
     else if p_next \<noteq> p_start then port_alloc_loop ps p_start p_next
     else Some None)"

definition port_alloc :: "slowpath \<Rightarrow> (u16 \<times> slowpath) option" where
  "port_alloc st =
    (case port_alloc_loop (ports st) (port_eph_hint st) (port_eph_hint st) of
       None \<Rightarrow> None
     | Some None \<Rightarrow> Some (0, st)
     | Some (Some (p, p_next)) \<Rightarrow> Some (p, st\<lparr>port_eph_hint := p_next\<rparr>))"

section \<open>Which port is allocated\<close>

definition port_free :: "(u16 \<Rightarrow> u64) \<Rightarrow> u16 \<Rightarrow> bool" where
  "port_free ps p \<longleftrightarrow> ps p AND PORT_TYPE_MASK = PORT_TYPE_UNUSED"

text \<open>The ports in the order in which they are tried.\<close>

definition port_range :: "nat \<Rightarrow> nat \<Rightarrow> u16 list" where
  "port_range n m = map of_nat [n..<m]"

definition port_order :: "u16 \<Rightarrow> u16 list" where
  "port_order p = (if p < PORT_FIRST_EPH then p # port_range 8192 65536
                   else port_range (unat p) 65536 @ port_range 8192 (unat p))"

lemma of_nat_u16_inj: "a < 65536 \<Longrightarrow> b < 65536 \<Longrightarrow> (of_nat a :: u16) = of_nat b \<longleftrightarrow> a = b"
  by (simp add: word_unat_eq_iff unat_of_nat)

lemma port_range_Cons: "n < m \<Longrightarrow> port_range n m = of_nat n # port_range (Suc n) m"
  by (simp add: port_range_def upt_conv_Cons)

lemma port_range_Nil: "m \<le> n \<Longrightarrow> port_range n m = []"
  by (simp add: port_range_def)

lemma port_range_set: "set (port_range n m) = of_nat ` {n..<m}"
  unfolding port_range_def set_map set_upt ..

lemma port_range_eph:
  assumes "8192 \<le> q"
  shows "q \<in> set (port_range 8192 65536)"
proof -
  have "q = of_nat (unat q)"
    by simp
  moreover have "unat q \<in> {8192..<65536}"
    using assms unat_u16_bound [of q] by (simp add: word_le_nat_alt)
  ultimately show ?thesis
    unfolding port_range_set by (rule image_eqI)
qed

lemma unat_Suc_u16: "unat (p :: u16) < 65535 \<Longrightarrow> unat (p + 1) = Suc (unat p)"
  by (simp add: unat_plus_if')

lemma port_next_hi:
  assumes "8191 \<le> unat p" "unat p < 65535"
  shows "port_next p = p + 1"
proof -
  have "\<not> p + 1 < 8192"
    using unat_Suc_u16 [OF assms(2)] assms(1) by (simp add: word_less_nat_alt)
  then show ?thesis
    by (simp add: port_next_def)
qed

lemma port_next_of_nat: "8191 \<le> n \<Longrightarrow> n < 65535 \<Longrightarrow> port_next (of_nat n) = of_nat (Suc n)"
proof -
  assume n: "8191 \<le> n" "n < 65535"
  then have "unat (of_nat n :: u16) = n"
    by (subst unat_of_nat) simp
  with n show ?thesis
    using port_next_hi [of "of_nat n"] by (simp only: of_nat_Suc add.commute)
qed

lemma port_next_last: "port_next (of_nat 65535) = 8192"
  by (simp add: port_next_def)

lemma port_next_low: "p < 8192 \<Longrightarrow> port_next p = 8192"
proof -
  assume "p < 8192"
  then have p: "unat p < 8192"
    by (simp add: word_less_nat_alt)
  show ?thesis
  proof (cases "unat p = 8191")
    case True
    then have "p = 8191"
      by (simp add: word_unat_eq_iff)
    then show ?thesis
      by (simp add: port_next_def)
  next
    case False
    then have "p + 1 < 8192"
      using p unat_Suc_u16 [of p] by (simp add: word_less_nat_alt)
    then show ?thesis
      by (simp add: port_next_def)
  qed
qed

text \<open>A stretch of consecutive ports that does not pass the start.\<close>

lemma port_alloc_stretch:
  assumes "n \<le> l" "l < 65536" "8192 \<le> n" "\<And>k. n < k \<Longrightarrow> k \<le> l \<Longrightarrow> of_nat k \<noteq> s"
  shows "port_alloc_loop ps s (of_nat n) =
    (case find (port_free ps) (port_range n (Suc l)) of
       Some p \<Rightarrow> Some (Some (p, port_next p))
     | None \<Rightarrow> if port_next (of_nat l) \<noteq> s then port_alloc_loop ps s (port_next (of_nat l)) else Some None)"
  using assms
proof (induction "l - n" arbitrary: n)
  case 0
  then have n: "n = l"
    by simp
  have u: "port_range l (Suc l) = [of_nat l]"
    by (simp add: port_range_def)
  show ?case
    unfolding n u by (subst port_alloc_loop.simps) (simp add: port_free_def Let_def)
next
  case (Suc d)
  then have l: "n < l"
    by simp
  have nx: "port_next (of_nat n) = of_nat (Suc n)" "(of_nat (Suc n) :: u16) \<noteq> s"
    using l Suc.prems port_next_of_nat [of n] Suc.prems(4) [of "Suc n"] by simp_all
  have IH: "port_alloc_loop ps s (of_nat (Suc n)) =
    (case find (port_free ps) (port_range (Suc n) (Suc l)) of
       Some p \<Rightarrow> Some (Some (p, port_next p))
     | None \<Rightarrow> if port_next (of_nat l) \<noteq> s then port_alloc_loop ps s (port_next (of_nat l)) else Some None)"
    by (rule Suc.hyps(1)) (use Suc l in simp_all)
  have u: "port_range n (Suc l) = of_nat n # port_range (Suc n) (Suc l)"
    using l by (intro port_range_Cons) simp
  show ?case
  proof (cases "port_free ps (of_nat n)")
    case True
    then show ?thesis
      by (subst port_alloc_loop.simps) (simp add: u port_free_def)
  next
    case False
    then have "port_alloc_loop ps s (of_nat n) = port_alloc_loop ps s (of_nat (Suc n))"
      using nx by (subst port_alloc_loop.simps) (simp add: port_free_def Let_def del: of_nat_Suc)
    then show ?thesis
      unfolding IH u using False by simp
  qed
qed

lemma port_alloc_upto_last:
  assumes "8192 \<le> n" "n < 65536" "\<And>k. n < k \<Longrightarrow> k < 65536 \<Longrightarrow> of_nat k \<noteq> s"
  shows "port_alloc_loop ps s (of_nat n) =
    (case find (port_free ps) (port_range n 65536) of
       Some p \<Rightarrow> Some (Some (p, port_next p))
     | None \<Rightarrow> if 8192 \<noteq> s then port_alloc_loop ps s 8192 else Some None)"
proof -
  have "Suc 65535 = (65536 :: nat)"
    by simp
  then show ?thesis
    using port_alloc_stretch [of n 65535 s ps, unfolded port_next_last] assms by simp
qed

text \<open>Started below the ephemeral ports, the search does not come back to its start.\<close>

lemma port_alloc_hangs:
  assumes r: "port_alloc_loop ps s p = Some r" and s: "s < 8192" and used: "\<And>q. 8192 \<le> q \<Longrightarrow> \<not> port_free ps q" and p: "8192 \<le> p"
  shows False
proof -
  have "ps' = ps \<longrightarrow> s' < 8192 \<longrightarrow> 8192 \<le> q \<longrightarrow> False" if "port_alloc_loop ps' s' q = Some r" for ps' s' q r
  proof (rule port_alloc_loop.raw_induct [where P = "\<lambda>ps' s' q r. ps' = ps \<longrightarrow> s' < 8192 \<longrightarrow> 8192 \<le> q \<longrightarrow> False", OF _ that], goal_cases)
    case (1 f ps' s' q r')
    show ?case
    proof (intro impI)
      assume a: "ps' = ps" "s' < 8192" "8192 \<le> q"
      have n: "8192 \<le> port_next q"
        by (simp add: port_next_def not_less)
      have "f ps' s' (port_next q) = Some r'"
        using 1(2) a used [OF a(3)] n by (auto simp: port_free_def Let_def split: if_splits)
      from 1(1) [OF this] show False
        using a n by blast
    qed
  qed
  then show False
    using assms by blast
qed

lemma port_alloc_loop_low:
  assumes s: "s < 8192"
  shows "port_alloc_loop ps s s = (case find (port_free ps) (port_order s) of Some p \<Rightarrow> Some (Some (p, port_next p)) | None \<Rightarrow> None)"
proof (cases "port_free ps s")
  case True
  then show ?thesis
    using s by (subst port_alloc_loop.simps) (simp add: port_free_def port_order_def)
next
  case False
  have ne: "of_nat k \<noteq> s" if "8192 \<le> k" "k < 65536" for k
    using s that by (auto simp: word_less_nat_alt unat_of_nat)
  have ne0: "8192 \<noteq> s"
    using s by auto
  have "port_alloc_loop ps s s = port_alloc_loop ps s (of_nat 8192)"
    using False s ne0 port_next_low [OF s] by (subst port_alloc_loop.simps) (simp add: port_free_def Let_def)
  also have "\<dots> = (case find (port_free ps) (port_range 8192 65536) of
       Some p \<Rightarrow> Some (Some (p, port_next p)) | None \<Rightarrow> port_alloc_loop ps s 8192)"
    using port_alloc_upto_last [of 8192 s ps, OF _ _ ne] ne0 by (simp only: if_True not_False_eq_True)
  also have "\<dots> = (case find (port_free ps) (port_range 8192 65536) of
       Some p \<Rightarrow> Some (Some (p, port_next p)) | None \<Rightarrow> None)"
  proof (cases "find (port_free ps) (port_range 8192 65536)")
    case None
    have used: "\<not> port_free ps q" if "8192 \<le> q" for q
      using None port_range_eph [OF that] unfolding find_None_iff by blast
    have "port_alloc_loop ps s 8192 = None"
      using port_alloc_hangs [OF _ s used, of 8192] by (cases "port_alloc_loop ps s 8192") simp_all
    then show ?thesis
      using None by simp
  qed simp
  finally show ?thesis
    using False s by (simp add: port_order_def)
qed

lemma find_append_option: "find P (xs @ ys) = (case find P xs of None \<Rightarrow> find P ys | Some x \<Rightarrow> Some x)"
  by (induction xs) auto

lemma port_alloc_loop_eph:
  assumes s: "8192 \<le> s"
  shows "port_alloc_loop ps s s = Some (map_option (\<lambda>p. (p, port_next p)) (find (port_free ps) (port_order s)))"
proof -
  define n where "n = unat s"
  have n: "8192 \<le> n" "n < 65536" "s = of_nat n"
    using s unat_u16_bound [of s] by (simp_all add: n_def word_le_nat_alt)
  have ne: "of_nat k \<noteq> s" if "k < 65536" "k \<noteq> n" for k
    using that n of_nat_u16_inj by metis
  have hi: "port_alloc_loop ps s (of_nat n) = (case find (port_free ps) (port_range n 65536) of
       Some p \<Rightarrow> Some (Some (p, port_next p)) | None \<Rightarrow> if 8192 \<noteq> s then port_alloc_loop ps s 8192 else Some None)"
    using n(1,2) by (rule port_alloc_upto_last) (rule ne, simp_all)
  have lo: "port_alloc_loop ps s 8192 = (case find (port_free ps) (port_range 8192 n) of
       Some p \<Rightarrow> Some (Some (p, port_next p)) | None \<Rightarrow> Some None)" if "8192 \<noteq> s"
  proof -
    have l: "8192 < n"
      using that n by (cases "n = 8192") auto
    have "port_next (of_nat (n - 1)) = s"
      using port_next_of_nat [of "n - 1"] l n by simp
    then show ?thesis
      using port_alloc_stretch [of 8192 "n - 1" s ps] l n ne by simp
  qed
  have o: "port_order s = port_range n 65536 @ port_range 8192 n"
    using s by (simp add: port_order_def n_def not_less [symmetric])
  show ?thesis
  proof (cases "8192 = s")
    case True
    then have "n = 8192"
      using n_def by simp
    with hi True show ?thesis
      unfolding o n(3) [symmetric] by (simp add: port_range_Nil split: option.splits)
  next
    case False
    with hi lo show ?thesis
      unfolding o n(3) [symmetric] by (simp add: find_append_option split: option.splits)
  qed
qed

lemma port_alloc_find:
  "port_alloc st = (case find (port_free (ports st)) (port_order (port_eph_hint st)) of
     Some p \<Rightarrow> Some (p, st\<lparr>port_eph_hint := port_next p\<rparr>)
   | None \<Rightarrow> if port_eph_hint st < PORT_FIRST_EPH then None else Some (0, st))"
proof (cases "port_eph_hint st < 8192")
  case True
  from port_alloc_loop_low [OF True] True show ?thesis
    by (simp add: port_alloc_def split: option.splits)
next
  case False
  then have "8192 \<le> port_eph_hint st"
    by simp
  from port_alloc_loop_eph [OF this] False show ?thesis
    by (simp add: port_alloc_def split: option.splits)
qed

text \<open>
  C15: Allocating a port takes the first free port of the search order and moves the hint behind it.
  A hint among the ephemeral ports tries each of them once, and 0 is returned if all are in use.
  A hint below them is itself the first candidate, and if it and all ephemeral ports are
  in use the search never ends.
\<close>

theorem port_alloc_search:
  "port_alloc st = (case find (port_free (ports st)) (port_order (port_eph_hint st)) of
     Some p \<Rightarrow> Some (p, st\<lparr>port_eph_hint := port_next p\<rparr>)
   | None \<Rightarrow> if port_eph_hint st < PORT_FIRST_EPH then None else Some (0, st))"
  by (rule port_alloc_find)

end
