(* ===== verification/Conn_Events.thy ===== *)
theory Conn_Events
  imports Tcp_Control Tcp_Table Tcp_Ports
begin

text \<open>
  Allocation of connections, \<^verbatim>\<open>tas/slow/tcp.c\<close>, and the events through which the slow path tells an application
  about its connections, \<^verbatim>\<open>tas/slow/appif_ctx.c\<close>: entries of 64 bytes of a queue in shared memory, whose
  last byte is the type.  Freed objects keep their contents, nothing reads them again.
\<close>

unbundle bit_operations_syntax

section \<open>Connections\<close>

text \<open>The results of the allocations of one request: the connection, its two buffer handles, an ARP entry.\<close>

record conn_mallocs =
  ma_conn :: u64
  ma_rx :: bool
  ma_tx :: bool
  ma_arp :: u64

definition conn_alloc :: "slow_env \<Rightarrow> conn_mallocs \<Rightarrow> slowpath \<Rightarrow> u64 \<times> slowpath" where
  "conn_alloc e al st =
    (let cfg = se_cfg e; conn = ma_conn al in
     if conn = 0 then (0, st)
     else case packetmem_alloc (ma_rx al) (cfg_tcp_rxbuf_len cfg) (pm_free st) of
       None \<Rightarrow> (0, st)
     | Some (rxh, fl) \<Rightarrow>
         let st = st\<lparr>pm_free := fl\<rparr> in
         case packetmem_alloc (ma_tx al) (cfg_tcp_txbuf_len cfg) (pm_free st) of
           None \<Rightarrow> (0, st\<lparr>pm_free := packetmem_free rxh (pm_free st)\<rparr>)
         | Some (txh, fl) \<Rightarrow>
             let st = st\<lparr>pm_free := fl\<rparr> in
             (conn, mod_conn st conn (\<lambda>c. c\<lparr>cn_rx_handle := rxh, cn_tx_handle := txh,
                cn_rx_buf := ph_base rxh, cn_rx_len := ucast (cfg_tcp_rxbuf_len cfg),
                cn_tx_buf := ph_base txh, cn_tx_len := ucast (cfg_tcp_txbuf_len cfg), to_armed := False\<rparr>)))"

definition conn_free :: "slowpath \<Rightarrow> u64 \<Rightarrow> slowpath" where
  "conn_free st conn =
    st\<lparr>pm_free := packetmem_free (cn_rx_handle (conns st conn)) (packetmem_free (cn_tx_handle (conns st conn)) (pm_free st))\<rparr>"

definition tcp_destroy :: "slowpath \<Rightarrow> u64 \<Rightarrow> slowpath result" where
  "tcp_destroy st conn = (if cn_status (conns st conn) \<noteq> CONN_FAILED then Inl Assert_Failed else Inr (conn_free st conn))"

section \<open>Events\<close>

abbreviation (input) KERNEL_APPIN_INVALID :: u8 where "KERNEL_APPIN_INVALID \<equiv> 0"
abbreviation (input) KERNEL_APPIN_STATUS_CONN_CLOSE :: u8 where "KERNEL_APPIN_STATUS_CONN_CLOSE \<equiv> 1"
abbreviation (input) KERNEL_APPIN_STATUS_CONN_MOVE :: u8 where "KERNEL_APPIN_STATUS_CONN_MOVE \<equiv> 2"
abbreviation (input) KERNEL_APPIN_STATUS_LISTEN_OPEN :: u8 where "KERNEL_APPIN_STATUS_LISTEN_OPEN \<equiv> 3"
abbreviation (input) KERNEL_APPIN_CONN_OPENED :: u8 where "KERNEL_APPIN_CONN_OPENED \<equiv> 6"
abbreviation (input) KERNEL_APPIN_LISTEN_NEWCONN :: u8 where "KERNEL_APPIN_LISTEN_NEWCONN \<equiv> 7"
abbreviation (input) KERNEL_APPIN_ACCEPTED_CONN :: u8 where "KERNEL_APPIN_ACCEPTED_CONN \<equiv> 8"

definition mod_ctx :: "slowpath \<Rightarrow> u64 \<Rightarrow> (app_context \<Rightarrow> app_context) \<Rightarrow> slowpath" where
  "mod_ctx st p f = st\<lparr>ctx_objs := (ctx_objs st)(p := f (ctx_objs st p))\<rparr>"

definition mod_app :: "slowpath \<Rightarrow> u64 \<Rightarrow> (application \<Rightarrow> application) \<Rightarrow> slowpath" where
  "mod_app st p f = st\<lparr>app_objs := (app_objs st)(p := f (app_objs st p))\<rparr>"

definition appif_ctx_kick :: "slow_env \<Rightarrow> slowpath \<Rightarrow> u64 \<Rightarrow> slowpath result" where
  "appif_ctx_kick e st ctx =
    (let cx = ctx_objs st ctx; env = se_tas e in
     if cx_evfd cx = 0 then Inl Assert_Failed
     else bind_res (notify_core (evfd_write_ok env) (cx_evfd cx) (cx_last_ts cx) (se_tsc e) (poll_cycle_app env)) (\<lambda>(w, l).
       Inr ((mod_ctx st ctx (cx_last_ts_update (\<lambda>_. l)))
         \<lparr>sp_tas := (sp_tas st)\<lparr>evfd_writes := evfd_writes (sp_tas st) @ w\<rparr>\<rparr>)))"

text \<open>The entry that is written next.\<close>

definition kout_entry :: "slowpath \<Rightarrow> u64 \<Rightarrow> u64" where
  "kout_entry st ctx = entry_addr 64 (kout_base (ctx_objs st ctx)) (unat (kout_pos (ctx_objs st ctx)))"

definition kout_room :: "slowpath \<Rightarrow> u64 \<Rightarrow> bool" where
  "kout_room st ctx \<longleftrightarrow> mem_view (shm (sp_tas st)) (kout_entry st ctx) 63 = KERNEL_APPIN_INVALID"

definition kout_put :: "slowpath \<Rightarrow> u64 \<Rightarrow> nat \<Rightarrow> u8 list \<Rightarrow> slowpath" where
  "kout_put st ctx k bs = st\<lparr>sp_tas := set_shm (sp_tas st) (mem_put (shm (sp_tas st)) (kout_entry st ctx) k bs)\<rparr>"

definition kout_type :: "slow_env \<Rightarrow> slowpath \<Rightarrow> u64 \<Rightarrow> u8 \<Rightarrow> slowpath result" where
  "kout_type e st ctx type = appif_ctx_kick e (kout_put st ctx 63 [type]) ctx"

definition kout_advance :: "slowpath \<Rightarrow> u64 \<Rightarrow> slowpath" where
  "kout_advance st ctx = mod_ctx st ctx (\<lambda>cx.
     let p = kout_pos cx + 1 in cx\<lparr>kout_pos := if p \<ge> kout_len cx then 0 else p\<rparr>)"

definition appin_status_bytes :: "u64 \<Rightarrow> int \<Rightarrow> u8 list" where
  "appin_status_bytes op status = u64_bytes op @ u32_bytes (word_of_int status)"

text \<open>\<^verbatim>\<open>opaque\<close> and \<^verbatim>\<open>status\<close> stand at 0 and 32, and the rest is written only on success.\<close>

definition conn_buf_bytes :: "connection \<Rightarrow> u8 list" where
  "conn_buf_bytes c = u64_bytes (cn_rx_buf c) @ u64_bytes (cn_tx_buf c) @ u32_bytes (cn_rx_len c) @ u32_bytes (cn_tx_len c)"

definition conn_opened_bytes :: "slow_env \<Rightarrow> connection \<Rightarrow> u8 list" where
  "conn_opened_bytes e c = u32_bytes (cn_remote_seq c) @ u32_bytes (cn_local_seq c) @ u32_bytes (cn_flow_id c) @
     u32_bytes (cfg_ip (se_cfg e)) @ u16_bytes (cn_local_port c) @ u16_bytes (ucast (cn_fn_core c))"

definition appif_conn_opened :: "slow_env \<Rightarrow> slowpath \<Rightarrow> u64 \<Rightarrow> int \<Rightarrow> slowpath result" where
  "appif_conn_opened e st c status =
    (let conn = conns st c; ctx = cn_ctx conn in
     if \<not> kout_room st ctx then Inr st
     else
       let st = kout_put st ctx 0 (u64_bytes (cn_opaque conn));
           st = kout_put st ctx 32 (u32_bytes (word_of_int status)) in
       bind_res (if status = 0
                 then Inr (kout_put (kout_put st ctx 8 (conn_buf_bytes conn)) ctx 36 (conn_opened_bytes e conn))
                 else tcp_destroy st c) (\<lambda>st.
       bind_res (kout_type e st ctx KERNEL_APPIN_CONN_OPENED) (\<lambda>st.
       Inr (kout_advance st ctx))))"

text \<open>Removing a connection from the list of its application.\<close>

definition app_unlink :: "slowpath \<Rightarrow> u64 \<Rightarrow> u64 \<Rightarrow> slowpath run" where
  "app_unlink st app c =
    (if app_conns (app_objs st app) = c then Some (Inr (mod_app st app (app_conns_update (\<lambda>_. app_next (conns st c)))))
     else case prev_walk (\<lambda>c. app_next (conns st c)) c (app_conns (app_objs st app)) of
       None \<Rightarrow> None
     | Some c_i \<Rightarrow>
         if c_i = 0 then Some (Inl Abort)
         else Some (Inr (mod_conn st c_i (app_next_update (\<lambda>_. app_next (conns st c))))))"

definition appif_conn_closed :: "slow_env \<Rightarrow> slowpath \<Rightarrow> u64 \<Rightarrow> int \<Rightarrow> slowpath run" where
  "appif_conn_closed e st c status =
    (let conn = conns st c; ctx = cn_ctx conn; app = cx_app (ctx_objs st ctx) in
     if \<not> kout_room st ctx then Some (Inr st)
     else
       let st = kout_put st ctx 0 (appin_status_bytes (cn_opaque conn) status) in
       bind_run (Some (kout_type e st ctx KERNEL_APPIN_STATUS_CONN_CLOSE)) (\<lambda>st.
       app_unlink (kout_advance st ctx) app c))"

definition appif_listen_newconn :: "slow_env \<Rightarrow> slowpath \<Rightarrow> u64 \<Rightarrow> u32 \<Rightarrow> u16 \<Rightarrow> slowpath result" where
  "appif_listen_newconn e st l rem_ip rem_port =
    (let ctx = ls_ctx (listener_objs st l) in
     if \<not> kout_room st ctx then Inr st
     else
       let st = kout_put st ctx 0 (u64_bytes (ls_opaque (listener_objs st l)) @ u32_bytes rem_ip @ u16_bytes rem_port) in
       bind_res (kout_type e st ctx KERNEL_APPIN_LISTEN_NEWCONN) (\<lambda>st.
       Inr (kout_advance st ctx)))"

definition accept_conn_bytes :: "slow_env \<Rightarrow> connection \<Rightarrow> u8 list" where
  "accept_conn_bytes e c = u32_bytes (cn_remote_seq c) @ u32_bytes (cn_local_seq c) @ u32_bytes (cn_flow_id c) @
     u32_bytes (cfg_ip (se_cfg e)) @ u32_bytes (cn_remote_ip c) @ u16_bytes (cn_remote_port c) @ u16_bytes (ucast (cn_fn_core c))"

definition appif_accept_conn :: "slow_env \<Rightarrow> slowpath \<Rightarrow> u64 \<Rightarrow> int \<Rightarrow> slowpath result" where
  "appif_accept_conn e st c status =
    (let conn = conns st c; ctx = cn_ctx conn; app = cx_app (ctx_objs st ctx) in
     if \<not> kout_room st ctx then Inr st
     else
       let st = kout_put st ctx 0 (u64_bytes (cn_opaque conn));
           st = kout_put st ctx 32 (u32_bytes (word_of_int status)) in
       bind_res (if status = 0
                 then
                   let st = kout_put (kout_put st ctx 8 (conn_buf_bytes conn)) ctx 36 (accept_conn_bytes e conn);
                       st = mod_conn st c (app_next_update (\<lambda>_. app_conns (app_objs st app))) in
                   Inr (mod_app st app (app_conns_update (\<lambda>_. c)))
                 else tcp_destroy st c) (\<lambda>st.
       bind_res (kout_type e st ctx KERNEL_APPIN_ACCEPTED_CONN) (\<lambda>st.
       Inr (kout_advance st ctx))))"

end
