(* ===== verification/Tcp.thy ===== *)
theory Tcp
  imports Conn_Events Routing
begin

text \<open>
  The TCP code of the slow path, \<^verbatim>\<open>tas/slow/tcp.c\<close>: connection set-up in both directions, listeners with
  their backlogs, time-outs and closing.
\<close>

unbundle bit_operations_syntax

section \<open>Timers\<close>

text \<open>The argument \<^verbatim>\<open>type\<close> is not used by the code.\<close>

definition conn_timeout_arm :: "slow_env \<Rightarrow> slowpath \<Rightarrow> u64 \<Rightarrow> slowpath run" where
  "conn_timeout_arm e st c =
    (if to_armed (conns st c) then Some (Inl Assert_Failed)
     else
       let st = mod_conn st c (to_armed_update (\<lambda>_. True));
           t = cn_timeout (conns st c);
           (r, rng) = utils_rng_gen32 (tcp_rng st) in
       if t = 0 then Some (Inl Div_By_Zero)
       else to_arm e (st\<lparr>tcp_rng := rng\<rparr>) (conn_to c) (t div 2 + r mod t) TO_TCP_HANDSHAKE)"

definition conn_timeout_disarm :: "slowpath \<Rightarrow> u64 \<Rightarrow> slowpath result" where
  "conn_timeout_disarm st c =
    (if \<not> to_armed (conns st c) then Inl Assert_Failed
     else to_disarm (mod_conn st c (to_armed_update (\<lambda>_. False))) (conn_to c))"

section \<open>Connections\<close>

definition conn_failed :: "slow_env \<Rightarrow> slowpath \<Rightarrow> u64 \<Rightarrow> int \<Rightarrow> slowpath run" where
  "conn_failed e st c status =
    bind_run (conn_unregister e st c) (\<lambda>st.
    bind_run (Some (if to_armed (conns st c) then conn_timeout_disarm st c else Inr st)) (\<lambda>st.
    let st = mod_conn st c (cn_status_update (\<lambda>_. CONN_FAILED)) in
    Some (appif_conn_opened e st c status)))"

definition conn_arp_done :: "slow_env \<Rightarrow> slowpath \<Rightarrow> u64 \<Rightarrow> slowpath run" where
  "conn_arp_done e st conn =
    (let st = mod_conn st conn (\<lambda>c. c\<lparr>cn_status := CONN_SYN_SENT, to_attempts := 0, cn_timeout := tcp_handshake_to (se_cfg e)\<rparr>) in
     bind_run (conn_timeout_arm e st conn) (\<lambda>st.
     bind_run (Some (send_control e st conn (TCP_SYN OR TCP_ECE OR TCP_CWR) True 0 TCP_MSS)) (\<lambda>(_, st).
     Some (Inr st))))"

definition conn_reg_synack :: "slow_env \<Rightarrow> slowpath \<Rightarrow> u64 \<Rightarrow> slowpath result" where
  "conn_reg_synack e st c =
    (let st = mod_conn st c (cn_status_update (\<lambda>_. CONN_OPEN));
         ecn_flags = (if cn_flags (conns st c) AND NICIF_CONN_ECN = NICIF_CONN_ECN then TCP_ECE else 0) in
     bind_res (send_control e st c (TCP_SYN OR TCP_ACK OR ecn_flags) True (cn_syn_ts (conns st c)) TCP_MSS) (\<lambda>(_, st).
     appif_accept_conn e st c 0))"

text \<open>The parameters under which a connection is registered with the fast path.\<close>

definition conn_add_params :: "connection \<Rightarrow> u32 \<Rightarrow> u8 \<Rightarrow> conn_params" where
  "conn_add_params c loc_seq wscale =
    \<lparr>cp_db = cn_db_id c, cp_mac_remote = cn_remote_mac c, cp_ip_local = cn_local_ip c, cp_port_local = cn_local_port c,
     cp_ip_remote = cn_remote_ip c, cp_port_remote = cn_remote_port c, cp_rx_base = cn_rx_buf c, cp_rx_len = cn_rx_len c,
     cp_tx_base = cn_tx_buf c, cp_tx_len = cn_tx_len c, cp_remote_seq = cn_remote_seq c, cp_local_seq = loc_seq,
     cp_opaque = cn_opaque c, cp_flags = cn_flags c, cp_rate = cc_rate c, cp_flow_group = cn_flow_group c, cp_wscale = wscale\<rparr>"

definition conn_add :: "slow_env \<Rightarrow> slowpath \<Rightarrow> u64 \<Rightarrow> u32 \<Rightarrow> u8 \<Rightarrow> (bool \<times> slowpath) run" where
  "conn_add e st c loc_seq wscale =
    bind_run (nicif_connection_add (se_crc e) (fp (sp_tas st)) (flowids st) (conn_add_params (conns st c) loc_seq wscale)) (\<lambda>(r, f, ids).
    let st = st\<lparr>sp_tas := (sp_tas st)\<lparr>fp := f\<rparr>, flowids := ids\<rparr> in
    case r of
      None \<Rightarrow> Some (Inr (False, st))
    | Some f_id \<Rightarrow> Some (Inr (True, mod_conn st c (cn_flow_id_update (\<lambda>_. f_id)))))"

text \<open>A segment for a connection that has sent a SYN; 0 or an error.\<close>

definition conn_syn_sent_packet :: "slow_env \<Rightarrow> slowpath \<Rightarrow> u64 \<Rightarrow> pkt_tcp \<Rightarrow> sp_tcp_opts \<Rightarrow> (int \<times> slowpath) run" where
  "conn_syn_sent_packet e st c p opts =
    bind_run (Some (conn_timeout_disarm st c)) (\<lambda>st.
    if TCPH_FLAGS (tcp p) AND (TCP_SYN OR TCP_ACK) \<noteq> TCP_SYN OR TCP_ACK then Some (Inr (-1, st))
    else case so_ts opts of
      None \<Rightarrow> Some (Inr (-1, st))
    | Some ts \<Rightarrow>
        let ecn_flags = TCPH_FLAGS (tcp p) AND (TCP_ECE OR TCP_CWR);
            st = mod_conn st c (\<lambda>x. x\<lparr>cn_remote_seq := f_beui32 (seqno (tcp p)) + 1, cn_local_seq := f_beui32 (ackno (tcp p)),
                   cn_syn_ts := opt_ts_val p ts,
                   cn_flags := if ecn_flags = TCP_ECE then cn_flags x OR NICIF_CONN_ECN else cn_flags x\<rparr>);
            wscale = (case so_ws opts of None \<Rightarrow> 0 | Some ws \<Rightarrow> opt_wscale p ws) in
        bind_run (Some (cc_conn_init (se_cfg e) (se_cur_ts e) st c)) (\<lambda>st.
        let st = mod_conn st c (\<lambda>x. x\<lparr>comp_notify_fd := -1, comp_status := 0\<rparr>) in
        bind_run (conn_add e st c (cn_local_seq (conns st c)) wscale) (\<lambda>(ok, st).
        if \<not> ok then Some (Inr (-1, st))
        else
          let st = mod_conn st c (cn_status_update (\<lambda>_. CONN_OPEN)) in
          bind_run (Some (send_control e st c TCP_ACK True (cn_syn_ts (conns st c)) 0)) (\<lambda>(_, st).
          bind_run (Some (appif_conn_opened e st c 0)) (\<lambda>st.
          Some (Inr (0, st)))))))"

definition conn_packet :: "slow_env \<Rightarrow> slowpath \<Rightarrow> u64 \<Rightarrow> pkt_tcp \<Rightarrow> sp_tcp_opts \<Rightarrow> u32 \<Rightarrow> u16 \<Rightarrow> slowpath run" where
  "conn_packet e st c p opts fn_core grp =
    (let flags = TCPH_FLAGS (tcp p) in
     if cn_status (conns st c) = CONN_SYN_SENT then
       let st = mod_conn st c (\<lambda>x. x\<lparr>cn_fn_core := fn_core, cn_flow_group := grp\<rparr>) in
       bind_run (conn_syn_sent_packet e st c p opts) (\<lambda>(ret, st).
       if ret \<noteq> 0 then conn_failed e st c ret else Some (Inr st))
     else if cn_status (conns st c) = CONN_OPEN \<and> flags = TCP_SYN then
       case so_ts opts of
         None \<Rightarrow> conn_failed e st c (-1)
       | Some ts \<Rightarrow>
           let ecn_flags = (if cn_flags (conns st c) AND NICIF_CONN_ECN = NICIF_CONN_ECN then TCP_ECE else 0) in
           bind_run (Some (send_control e st c (TCP_SYN OR TCP_ACK OR ecn_flags) True (opt_ts_val p ts) TCP_MSS)) (\<lambda>(_, st). Some (Inr st))
     else if cn_status (conns st c) = CONN_OPEN \<and> flags AND TCP_SYN = TCP_SYN then Some (Inr st)
     else if cn_status (conns st c) = CONN_CLOSED \<and> flags AND TCP_FIN = TCP_FIN then
       bind_run (Some (send_control e st c TCP_ACK True 0 0)) (\<lambda>(_, st). Some (Inr st))
     else Some (Inr st))"

definition conn_close_timeout :: "slow_env \<Rightarrow> slowpath \<Rightarrow> u64 \<Rightarrow> slowpath run" where
  "conn_close_timeout e st c =
    (let lp = cn_local_port (conns st c);
         st = (if ports st lp AND PORT_TYPE_MASK = PORT_TYPE_CONN then st\<lparr>ports := (ports st)(lp := 0)\<rparr> else st) in
     bind_run (conn_unregister e st c) (\<lambda>st.
     let st = conn_free st c;
         st = st\<lparr>flowids := nicif_connection_free (flowids st) (cn_flow_id (conns st c))\<rparr>;
         st = (if ports st lp AND PORT_TYPE_MASK = PORT_TYPE_CONN then st\<lparr>ports := (ports st)(lp := PORT_TYPE_UNUSED)\<rparr> else st) in
     appif_conn_closed e st c 0))"

text \<open>\<open>to\<close> is the address of the timeout inside a connection.\<close>

definition tcp_timeout :: "slow_env \<Rightarrow> slowpath \<Rightarrow> u64 \<Rightarrow> u8 \<Rightarrow> slowpath run" where
  "tcp_timeout e st to type =
    (let c = to - 120 in
     if \<not> to_armed (conns st c) then Some (Inl Assert_Failed)
     else
       let st = mod_conn st c (to_armed_update (\<lambda>_. False)) in
       if type = TO_TCP_CLOSED then conn_close_timeout e st c
       else if type \<noteq> TO_TCP_HANDSHAKE then Some (Inl Abort)
       else if cn_status (conns st c) \<noteq> CONN_SYN_SENT then Some (Inl Abort)
       else
         let st = mod_conn st c (to_attempts_update (\<lambda>n. n + 1)) in
         if to_attempts (conns st c) > tcp_handshake_retries (se_cfg e) then conn_failed e st c (-1)
         else
           let st = mod_conn st c (cn_timeout_update (\<lambda>t. t * 2)) in
           bind_run (conn_timeout_arm e st c) (\<lambda>st.
           bind_run (Some (send_control e st c (TCP_SYN OR TCP_ECE OR TCP_CWR) True 0 TCP_MSS)) (\<lambda>(_, st).
           Some (Inr st))))"

text \<open>A new connection to a remote address; the connection is 0 where \<^verbatim>\<open>*pconn\<close> is not set.\<close>

definition tcp_open :: "slow_env \<Rightarrow> conn_mallocs \<Rightarrow> slowpath \<Rightarrow> u64 \<Rightarrow> u64 \<Rightarrow> u32 \<Rightarrow> u16 \<Rightarrow> u32 \<Rightarrow> (int \<times> u64 \<times> slowpath) run" where
  "tcp_open e al st ctx op rem_ip rem_port db =
    (case conn_alloc e al st of (conn, st) \<Rightarrow>
     if conn = 0 then Some (Inr (-1, 0, st))
     else case port_alloc st of
       None \<Rightarrow> None
     | Some (loc_port, st) \<Rightarrow>
       if loc_port = 0 then Some (Inr (-1, 0, conn_free st conn))
       else
         let st = mod_conn st conn (\<lambda>c. c\<lparr>cn_ctx := ctx, cn_opaque := op, cn_status := CONN_ARP_PENDING, cn_remote_ip := rem_ip,
                cn_local_ip := cfg_ip (se_cfg e), cn_remote_port := rem_port, cn_local_port := loc_port, cn_local_seq := 0,
                cn_remote_seq := 0, cnt_tx_pending := 0, cn_db_id := db, cn_flags := 0, comp_notify_fd := -1, comp_status := 0\<rparr>) in
         bind_run (routing_resolve e (ma_arp al) st conn rem_ip conn) (\<lambda>(ret, st).
         if ret < 0 then Some (Inr (-1, 0, conn_free st conn))
         else
           bind_run (if ret = 0 then conn_arp_done e (conn_register e st conn) conn else Some (Inr (conn_register e st conn))) (\<lambda>st.
           Some (Inr (0, conn, st\<lparr>ports := (ports st)(loc_port := conn OR PORT_TYPE_CONN)\<rparr>)))))"

definition tcp_close :: "slow_env \<Rightarrow> slowpath \<Rightarrow> u64 \<Rightarrow> (int \<times> slowpath) run" where
  "tcp_close e st conn =
    (if cn_status (conns st conn) \<noteq> CONN_OPEN then Some (Inr (-1, st))
     else
       let ((tx_seq, rx_seq, tx_c, rx_c), f) = nicif_connection_disable (se_crc e) (fp (sp_tas st)) (cn_flow_id (conns st conn));
           st = st\<lparr>sp_tas := (sp_tas st)\<lparr>fp := f\<rparr>\<rparr>;
           st = mod_conn st conn (\<lambda>c. c\<lparr>cn_remote_seq := rx_seq, cn_local_seq := tx_seq\<rparr>) in
       bind_run (Some (if \<not> tx_c \<or> \<not> rx_c then send_control e st conn TCP_RST False 0 0 else Inr (0, st))) (\<lambda>(_, st).
       bind_run (cc_conn_remove st conn) (\<lambda>st.
       let st = mod_conn st conn (cn_status_update (\<lambda>_. CONN_CLOSED)) in
       if to_armed (conns st conn) then Some (Inl Assert_Failed)
       else bind_run (to_arm e st (conn_to conn) 10000 TO_TCP_CLOSED) (\<lambda>st.
         Some (Inr (0, mod_conn st conn (to_armed_update (\<lambda>_. True))))))))"

section \<open>Listeners\<close>

abbreviation (input) LISTEN_MULTI_MAX :: u64 where "LISTEN_MULTI_MAX \<equiv> 32"

definition mod_listener :: "slowpath \<Rightarrow> u64 \<Rightarrow> (listener \<Rightarrow> listener) \<Rightarrow> slowpath" where
  "mod_listener st l f = st\<lparr>listener_objs := (listener_objs st)(l := f (listener_objs st l))\<rparr>"

text \<open>The results of the allocations of a listener.\<close>

record listen_mallocs =
  la_multi :: u64
  la_lst :: u64
  la_ptrs :: bool
  la_cores :: bool
  la_fgs :: bool
  la_bufs :: bool

text \<open>The multi listener of the port, 0 if none is needed; or an error.\<close>

definition listen_multi_get :: "u64 \<Rightarrow> slowpath \<Rightarrow> u16 \<Rightarrow> bool \<Rightarrow> (u64 \<times> bool \<times> slowpath) option" where
  "listen_multi_get new st port reuse =
    (let type = ports st port AND PORT_TYPE_MASK in
     if type \<noteq> PORT_TYPE_UNUSED \<and> \<not> reuse then None
     else if reuse \<and> type \<noteq> PORT_TYPE_UNUSED \<and> type \<noteq> PORT_TYPE_LMULTI then None
     else if reuse \<and> type = PORT_TYPE_UNUSED then
       if new = 0 then None
       else Some (new, True, st\<lparr>multi_objs := (multi_objs st)(new := \<lparr>lm_num = 0, lm_ls = (\<lambda>_. 0)\<rparr>)\<rparr>)
     else if reuse then
       let lm = ports st port AND NOT PORT_TYPE_MASK in
       if lm_num (multi_objs st lm) = LISTEN_MULTI_MAX then None else Some (lm, False, st)
     else Some (0, False, st))"

definition tcp_listen :: "listen_mallocs \<Rightarrow> slowpath \<Rightarrow> u64 \<Rightarrow> u64 \<Rightarrow> u16 \<Rightarrow> u32 \<Rightarrow> bool \<Rightarrow> int \<times> u64 \<times> slowpath" where
  "tcp_listen al st ctx op port backlog reuse =
    (case listen_multi_get (la_multi al) st port reuse of
       None \<Rightarrow> (-1, 0, st)
     | Some (lm, fresh, st') \<Rightarrow>
         let lst = la_lst al in
         if lst = 0 \<or> \<not> la_ptrs al \<or> \<not> la_cores al \<or> \<not> la_fgs al \<or> \<not> la_bufs al then (-1, 0, st')
         else
           let st = mod_listener st' lst (\<lambda>l. l\<lparr>ls_ctx := ctx, ls_opaque := op, ls_port := port, ls_app_next := 0, wait_conns := 0, backlog_len := backlog,
                       backlog_pos := 0, backlog_used := 0, backlog_cores := (\<lambda>_. 0), backlog_fgs := (\<lambda>_. 0), ls_flags := 0\<rparr>) in
           if \<not> reuse then (0, lst, st\<lparr>ports := (ports st)(port := lst OR PORT_TYPE_LISTEN)\<rparr>)
           else
             let m = multi_objs st lm;
                 st = st\<lparr>multi_objs := (multi_objs st)(lm := m\<lparr>lm_ls := (lm_ls m)(lm_num m := lst), lm_num := lm_num m + 1\<rparr>)\<rparr> in
             (0, lst, if fresh then st\<lparr>ports := (ports st)(port := lm OR PORT_TYPE_LMULTI)\<rparr> else st))"

definition hash_64_to_32 :: "u64 \<Rightarrow> u32" where
  "hash_64_to_32 key =
    (let key = NOT key + push_bit 18 key;
         key = key XOR drop_bit 31 key;
         key = key * 21;
         key = key XOR drop_bit 11 key;
         key = key + push_bit 6 key;
         key = key XOR drop_bit 22 key in
     ucast key)"

definition listener_lookup :: "slowpath \<Rightarrow> pkt_tcp \<Rightarrow> u64 result" where
  "listener_lookup st p =
    (let loc_port = f_beui16 (tcp_dest (tcp p)); pt = ports st loc_port; type = pt AND PORT_TYPE_MASK in
     if type = PORT_TYPE_LISTEN then Inr (pt AND NOT PORT_TYPE_MASK)
     else if type = PORT_TYPE_LMULTI then
       let lm = multi_objs st (pt AND NOT PORT_TYPE_MASK);
           hash = hash_64_to_32 (push_bit 32 (ucast (f_beui32 (ip_src (ip p)))) OR push_bit 16 (ucast (f_beui16 (tcp_src (tcp p)))) OR ucast loc_port) in
       if lm_num lm = 0 then Inl Div_By_Zero else Inr (lm_ls lm (ucast hash mod lm_num lm))
     else Inr 0)"

text \<open>The end of \<^verbatim>\<open>listener_accept\<close>: the first packet leaves the backlog.\<close>

definition backlog_pop :: "slowpath \<Rightarrow> u64 \<Rightarrow> slowpath" where
  "backlog_pop st l = mod_listener st l (\<lambda>x.
     let p = backlog_pos x + 1 in x\<lparr>backlog_used := backlog_used x - 1, backlog_pos := if p \<ge> backlog_len x then p - backlog_len x else p\<rparr>)"

definition listener_accept :: "slow_env \<Rightarrow> slowpath \<Rightarrow> u64 \<Rightarrow> slowpath run" where
  "listener_accept e st l =
    (let ls = listener_objs st l; c = wait_conns ls in
     if c = 0 \<or> backlog_used ls = 0 then Some (Inl Assert_Failed)
     else
       let bls = backlog_slots ls (backlog_pos ls); p = pkt_of_bytes (bl_buf bls) in
       case parse_options p (bl_len bls) of
         None \<Rightarrow> None
       | Some (Inl _) \<Rightarrow> Some (Inr (backlog_pop st l))
       | Some (Inr opts) \<Rightarrow>
         (case so_ts opts of
            None \<Rightarrow> Some (Inr (backlog_pop st l))
          | Some ts \<Rightarrow>
            let ecn_flags = TCPH_FLAGS (tcp p) AND (TCP_ECE OR TCP_CWR);
                st = mod_conn st c (\<lambda>x. x\<lparr>cn_fn_core := backlog_cores ls (backlog_pos ls), cn_flow_group := backlog_fgs ls (backlog_pos ls),
                       cn_remote_mac := mac_u64 (eth_src (eth p)), cn_remote_ip := f_beui32 (ip_src (ip p)), cn_local_ip := cfg_ip (se_cfg e),
                       cn_remote_port := f_beui16 (tcp_src (tcp p)), cn_local_port := ls_port ls, cn_remote_seq := f_beui32 (seqno (tcp p)) + 1,
                       cn_local_seq := 1, cn_syn_ts := opt_ts_val p ts,
                       cn_flags := if ecn_flags = TCP_ECE OR TCP_CWR then cn_flags x OR NICIF_CONN_ECN else cn_flags x\<rparr>);
                wscale = (case so_ws opts of None \<Rightarrow> 0 | Some ws \<Rightarrow> opt_wscale p ws) in
            bind_run (Some (cc_conn_init (se_cfg e) (se_cur_ts e) st c)) (\<lambda>st.
            let st = mod_conn st c (\<lambda>x. x\<lparr>cn_status := CONN_REG_SYNACK, comp_notify_fd := -1, comp_status := 0\<rparr>) in
            bind_run (conn_add e st c (cn_local_seq (conns st c) + 1) wscale) (\<lambda>(ok, st).
            if \<not> ok then Some (Inr (backlog_pop st l))
            else
              let st = mod_listener st l (wait_conns_update (\<lambda>_. ht_next (conns st c)));
                  st = nbqueue_enq (conn_register e st c) c in
              Some (Inr (backlog_pop st l))))))"

definition tcp_accept :: "slow_env \<Rightarrow> conn_mallocs \<Rightarrow> slowpath \<Rightarrow> u64 \<Rightarrow> u64 \<Rightarrow> u64 \<Rightarrow> u32 \<Rightarrow> (int \<times> slowpath) run" where
  "tcp_accept e al st ctx op l db =
    (case conn_alloc e al st of (conn, st) \<Rightarrow>
     if conn = 0 then Some (Inr (-1, st))
     else if l = 0 then Some (Inl Null_Pointer)
     else
       let ls = listener_objs st l;
           st = mod_conn st conn (\<lambda>c. c\<lparr>cn_ctx := ctx, cn_opaque := op, cn_status := CONN_SYN_WAIT, cn_local_port := ls_port ls, cn_db_id := db,
                  cn_flags := ls_flags ls, cnt_tx_pending := 0, ht_next := wait_conns ls\<rparr>);
           st = mod_listener st l (wait_conns_update (\<lambda>_. conn)) in
       bind_run (if backlog_used ls > 0 then listener_accept e st l else Some (Inr st)) (\<lambda>st.
       Some (Inr (0, st))))"

definition same_tuple :: "pkt_tcp \<Rightarrow> pkt_tcp \<Rightarrow> bool" where
  "same_tuple p q \<longleftrightarrow> f_beui32 (ip_src (ip p)) = f_beui32 (ip_src (ip q)) \<and> f_beui32 (ip_dest (ip p)) = f_beui32 (ip_dest (ip q)) \<and>
     f_beui16 (tcp_src (tcp p)) = f_beui16 (tcp_src (tcp q)) \<and> f_beui16 (tcp_dest (tcp p)) = f_beui16 (tcp_dest (tcp q))"

text \<open>Whether one of the next \<open>n\<close> packets of the backlog from position \<open>bp\<close> has the addresses of \<open>p\<close>.\<close>

fun backlog_has :: "listener \<Rightarrow> pkt_tcp \<Rightarrow> nat \<Rightarrow> u32 \<Rightarrow> bool" where
  "backlog_has ls p 0 bp = False"
| "backlog_has ls p (Suc n) bp =
    (if same_tuple p (pkt_of_bytes (bl_buf (backlog_slots ls bp))) then True
     else backlog_has ls p n ((bp + 1) mod backlog_len ls))"

definition listener_packet :: "slow_env \<Rightarrow> slowpath \<Rightarrow> u64 \<Rightarrow> pkt_tcp \<Rightarrow> sp_tcp_opts \<Rightarrow> u32 \<Rightarrow> u16 \<Rightarrow> slowpath run" where
  "listener_packet e st l p opts fn_core grp =
    (let ls = listener_objs st l; len = 14 + f_beui16 (ip_len (ip p)) in
     if TCPH_FLAGS (tcp p) AND NOT (TCP_ECE OR TCP_CWR) \<noteq> TCP_SYN then
       bind_run (Some (send_reset e st p opts)) (\<lambda>(_, st). Some (Inr st))
     else if len > 126 then Some (Inr st)
     else if backlog_has ls p (unat (backlog_used ls)) (backlog_pos ls) then Some (Inr st)
     else if backlog_len ls = backlog_used ls then Some (Inr st)
     else
       let bp = backlog_pos ls + backlog_used ls; bp = (if bp \<ge> backlog_len ls then bp - backlog_len ls else bp);
           old = bl_buf (backlog_slots ls bp);
           slot = \<lparr>bl_buf = (\<lambda>i. if i < unat len then bytes_of_pkt p i else old i), bl_len = len\<rparr>;
           st = mod_listener st l (\<lambda>x. x\<lparr>backlog_cores := (backlog_cores x)(bp := fn_core), backlog_fgs := (backlog_fgs x)(bp := grp),
                  backlog_slots := (backlog_slots x)(bp := slot), backlog_used := backlog_used x + 1\<rparr>) in
       bind_run (Some (appif_listen_newconn e st l (f_beui32 (ip_src (ip p))) (f_beui16 (tcp_src (tcp p))))) (\<lambda>st.
       if wait_conns (listener_objs st l) \<noteq> 0 then listener_accept e st l else Some (Inr st)))"

section \<open>Packets and completions\<close>

definition tcp_packet :: "slow_env \<Rightarrow> slowpath \<Rightarrow> pkt_tcp \<Rightarrow> u16 \<Rightarrow> u32 \<Rightarrow> u16 \<Rightarrow> (int \<times> slowpath) run" where
  "tcp_packet e st p len fn_core grp =
    (if unat len < sizeof_pkt_tcp then Some (Inr (-1, st))
     else if f_beui32 (ip_dest (ip p)) \<noteq> cfg_ip (se_cfg e) then Some (Inr (-1, st))
     else case parse_options p len of
       None \<Rightarrow> None
     | Some (Inl _) \<Rightarrow> Some (Inr (-1, st))
     | Some (Inr opts) \<Rightarrow>
       (case conn_lookup e st p of
          None \<Rightarrow> None
        | Some c \<Rightarrow>
          if c \<noteq> 0 then bind_run (conn_packet e st c p opts fn_core grp) (\<lambda>st. Some (Inr (0, st)))
          else bind_run (Some (listener_lookup st p)) (\<lambda>l.
            if l \<noteq> 0 then bind_run (listener_packet e st l p opts fn_core grp) (\<lambda>st. Some (Inr (0, st)))
            else if TCPH_FLAGS (tcp p) AND TCP_RST = 0 \<and> \<not> cfg_kni (se_cfg e) then
              bind_run (Some (send_reset e st p opts)) (\<lambda>(_, st). Some (Inr (-1, st)))
            else Some (Inr (-1, st)))))"

text \<open>One completed request.\<close>

definition tcp_completion :: "slow_env \<Rightarrow> slowpath \<Rightarrow> u64 \<Rightarrow> slowpath run" where
  "tcp_completion e st conn =
    (let c = conns st conn in
     if cn_status c = CONN_ARP_PENDING then
       if comp_status c \<noteq> 0 then conn_failed e st conn (comp_status c) else conn_arp_done e st conn
     else if cn_status c = CONN_REG_SYNACK then
       if comp_status c \<noteq> 0 then conn_failed e st conn (comp_status c) else Some (conn_reg_synack e st conn)
     else Some (Inr st))"

partial_function (option) tcp_poll :: "slow_env \<Rightarrow> slowpath \<Rightarrow> slowpath run" where
  "tcp_poll e st =
    (case nbqueue_deq st of
       None \<Rightarrow> None
     | Some (Inl f) \<Rightarrow> Some (Inl f)
     | Some (Inr (conn, st)) \<Rightarrow>
         if conn = 0 then Some (Inr st)
         else case tcp_completion e st conn of
           None \<Rightarrow> None
         | Some (Inl f) \<Rightarrow> Some (Inl f)
         | Some (Inr st) \<Rightarrow> tcp_poll e st)"

end
