(* ===== verification/Conn_Events_Spec.thy ===== *)
theory Conn_Events_Spec
  imports Conn_Events
begin

text \<open>
  What an event does: it fills in the next entry of the application's queue and changes nothing else
  but the position and the time of the last notification.
\<close>

unbundle bit_operations_syntax

lemma appif_ctx_kick_ok:
  assumes "cx_evfd (ctx_objs st ctx) \<noteq> 0" "evfd_write_ok (se_tas e)"
  obtains w l where "appif_ctx_kick e st ctx = Inr ((mod_ctx st ctx (cx_last_ts_update (\<lambda>_. l)))
    \<lparr>sp_tas := (sp_tas st)\<lparr>evfd_writes := evfd_writes (sp_tas st) @ w\<rparr>\<rparr>)"
proof -
  obtain w l where "notify_core (evfd_write_ok (se_tas e)) (cx_evfd (ctx_objs st ctx)) (cx_last_ts (ctx_objs st ctx)) (se_tsc e) (poll_cycle_app (se_tas e)) = Inr (w, l)"
    using notify_core_ok [of "cx_evfd (ctx_objs st ctx)" "cx_last_ts (ctx_objs st ctx)" "se_tsc e" "poll_cycle_app (se_tas e)"] assms(2) by auto
  then show thesis
    using assms(1) by (intro that) (simp add: appif_ctx_kick_def Let_def)
qed

text \<open>The writes of an event, then the type, then the position moves on.\<close>

fun kout_puts :: "slowpath \<Rightarrow> u64 \<Rightarrow> writes \<Rightarrow> slowpath" where
  "kout_puts st ctx [] = st"
| "kout_puts st ctx ((k, bs) # ws) = kout_puts (kout_put st ctx k bs) ctx ws"

lemma kout_put_simps [simp]:
  "ctx_objs (kout_put st ctx k bs) = ctx_objs st" "kout_entry (kout_put st ctx k bs) = kout_entry st" "conns (kout_put st ctx k bs) = conns st"
  "pm_free (kout_put st ctx k bs) = pm_free st" "app_objs (kout_put st ctx k bs) = app_objs st" "listener_objs (kout_put st ctx k bs) = listener_objs st"
  "shm (sp_tas (kout_put st ctx k bs)) = mem_put (shm (sp_tas st)) (kout_entry st ctx) k bs"
  by (simp_all add: kout_put_def kout_entry_def fun_eq_iff)

lemma kout_puts_state:
  "kout_puts st ctx ws = st\<lparr>sp_tas := set_shm (sp_tas st) (mem_puts (shm (sp_tas st)) (kout_entry st ctx) ws)\<rparr>"
proof (induction ws arbitrary: st)
  case Nil
  show ?case
    by (simp add: set_shm_def)
next
  case (Cons w ws)
  obtain k bs where [simp]: "w = (k, bs)"
    by fastforce
  show ?case
    by (simp add: Cons.IH) (simp add: kout_put_def set_shm_def)
qed

definition kout_next :: "app_context \<Rightarrow> u32" where
  "kout_next cx = (if kout_pos cx + 1 \<ge> kout_len cx then 0 else kout_pos cx + 1)"

lemma kout_event:
  assumes "cx_evfd (ctx_objs st ctx) \<noteq> 0" "evfd_write_ok (se_tas e)"
  obtains w l where "bind_res (kout_type e (kout_puts st ctx ws) ctx ty) (\<lambda>st. Inr (kout_advance st ctx)) =
    Inr (st\<lparr>sp_tas := (set_shm (sp_tas st) (mem_puts (shm (sp_tas st)) (kout_entry st ctx) (ws @ [(63, [ty])])))
              \<lparr>evfd_writes := evfd_writes (sp_tas st) @ w\<rparr>,
            ctx_objs := (ctx_objs st)(ctx := (ctx_objs st ctx)\<lparr>cx_last_ts := l, kout_pos := kout_next (ctx_objs st ctx)\<rparr>)\<rparr>)"
proof -
  have ap: "kout_put (kout_puts st ctx ws) ctx 63 [ty] = kout_puts st ctx (ws @ [(63, [ty])])"
    by (induction ws arbitrary: st) auto
  let ?st = "kout_puts st ctx (ws @ [(63, [ty])])"
  have c: "ctx_objs ?st = ctx_objs st"
    by (simp add: kout_puts_state)
  obtain w l where k: "appif_ctx_kick e ?st ctx = Inr ((mod_ctx ?st ctx (cx_last_ts_update (\<lambda>_. l)))
      \<lparr>sp_tas := (sp_tas ?st)\<lparr>evfd_writes := evfd_writes (sp_tas ?st) @ w\<rparr>\<rparr>)"
    by (rule appif_ctx_kick_ok [of ?st ctx e]) (use assms c in simp_all)
  show thesis
    by (rule that [where w = w and l = l])
      (simp only: kout_type_def ap k, simp add: kout_advance_def mod_ctx_def kout_puts_state kout_next_def Let_def set_shm_def)
qed

text \<open>A successful event about a new connection.\<close>

definition opened_writes :: "slow_env \<Rightarrow> connection \<Rightarrow> writes" where
  "opened_writes e c = [(0, u64_bytes (cn_opaque c)), (32, u32_bytes 0), (8, conn_buf_bytes c), (36, conn_opened_bytes e c),
     (63, [KERNEL_APPIN_CONN_OPENED])]"

definition failed_writes :: "connection \<Rightarrow> int \<Rightarrow> writes" where
  "failed_writes c status = [(0, u64_bytes (cn_opaque c)), (32, u32_bytes (word_of_int status)), (63, [KERNEL_APPIN_CONN_OPENED])]"

lemma appif_conn_opened_ok:
  assumes "cx_evfd (ctx_objs st (cn_ctx (conns st c))) \<noteq> 0" "evfd_write_ok (se_tas e)" "kout_room st (cn_ctx (conns st c))"
  defines "ctx \<equiv> cn_ctx (conns st c)"
  obtains w l where "appif_conn_opened e st c 0 =
    Inr (st\<lparr>sp_tas := (set_shm (sp_tas st) (mem_puts (shm (sp_tas st)) (kout_entry st ctx) (opened_writes e (conns st c))))
              \<lparr>evfd_writes := evfd_writes (sp_tas st) @ w\<rparr>,
            ctx_objs := (ctx_objs st)(ctx := (ctx_objs st ctx)\<lparr>cx_last_ts := l, kout_pos := kout_next (ctx_objs st ctx)\<rparr>)\<rparr>)"
proof -
  let ?c = "conns st c"
  let ?ws = "[(0, u64_bytes (cn_opaque ?c)), (32, u32_bytes 0), (8, conn_buf_bytes ?c), (36, conn_opened_bytes e ?c)]"
  obtain w l where k: "bind_res (kout_type e (kout_puts st ctx ?ws) ctx 6) (\<lambda>st. Inr (kout_advance st ctx)) =
    Inr (st\<lparr>sp_tas := (set_shm (sp_tas st) (mem_puts (shm (sp_tas st)) (kout_entry st ctx) (?ws @ [(63, [6])])))
              \<lparr>evfd_writes := evfd_writes (sp_tas st) @ w\<rparr>,
            ctx_objs := (ctx_objs st)(ctx := (ctx_objs st ctx)\<lparr>cx_last_ts := l, kout_pos := kout_next (ctx_objs st ctx)\<rparr>)\<rparr>)"
    by (rule kout_event [OF assms(1,2), folded ctx_def])
  have ws: "?ws @ [(63, [6])] = opened_writes e ?c"
    by (simp add: opened_writes_def)
  have "appif_conn_opened e st c 0 = bind_res (kout_type e (kout_puts st ctx ?ws) ctx 6) (\<lambda>st. Inr (kout_advance st ctx))"
    unfolding appif_conn_opened_def Let_def ctx_def using assms(3) by simp
  then show thesis
    unfolding k ws by (rule that)
qed

lemma appif_conn_opened_failed:
  assumes "cx_evfd (ctx_objs st (cn_ctx (conns st c))) \<noteq> 0" "evfd_write_ok (se_tas e)" "kout_room st (cn_ctx (conns st c))"
    and "status \<noteq> 0" "cn_status (conns st c) = CONN_FAILED"
  defines "ctx \<equiv> cn_ctx (conns st c)"
  obtains w l where "appif_conn_opened e st c status =
    Inr (st\<lparr>pm_free := packetmem_free (cn_rx_handle (conns st c)) (packetmem_free (cn_tx_handle (conns st c)) (pm_free st)),
            sp_tas := (set_shm (sp_tas st) (mem_puts (shm (sp_tas st)) (kout_entry st ctx) (failed_writes (conns st c) status)))
              \<lparr>evfd_writes := evfd_writes (sp_tas st) @ w\<rparr>,
            ctx_objs := (ctx_objs st)(ctx := (ctx_objs st ctx)\<lparr>cx_last_ts := l, kout_pos := kout_next (ctx_objs st ctx)\<rparr>)\<rparr>)"
proof -
  let ?c = "conns st c" and ?fl = "packetmem_free (cn_rx_handle (conns st c)) (packetmem_free (cn_tx_handle (conns st c)) (pm_free st))"
  let ?ws = "[(0, u64_bytes (cn_opaque ?c)), (32, u32_bytes (word_of_int status))]" and ?st = "st\<lparr>pm_free := ?fl\<rparr>"
  have f: "ctx_objs ?st = ctx_objs st" "sp_tas ?st = sp_tas st" "kout_entry ?st = kout_entry st"
    by (simp_all add: kout_entry_def fun_eq_iff)
  obtain w l where k: "bind_res (kout_type e (kout_puts ?st ctx ?ws) ctx 6) (\<lambda>st. Inr (kout_advance st ctx)) =
    Inr (?st\<lparr>sp_tas := (set_shm (sp_tas st) (mem_puts (shm (sp_tas st)) (kout_entry st ctx) (?ws @ [(63, [6])])))
              \<lparr>evfd_writes := evfd_writes (sp_tas st) @ w\<rparr>,
            ctx_objs := (ctx_objs st)(ctx := (ctx_objs st ctx)\<lparr>cx_last_ts := l, kout_pos := kout_next (ctx_objs st ctx)\<rparr>)\<rparr>)"
    using kout_event [of ?st ctx e ?ws 6] assms unfolding f ctx_def by blast
  have ws: "?ws @ [(63, [6])] = failed_writes ?c status"
    by (simp add: failed_writes_def)
  have pts: "kout_puts ?st ctx ?ws = (kout_puts st ctx ?ws)\<lparr>pm_free := ?fl\<rparr>"
    by (simp add: kout_puts_state f)
  have "appif_conn_opened e st c status = bind_res (kout_type e (kout_puts ?st ctx ?ws) ctx 6) (\<lambda>st. Inr (kout_advance st ctx))"
    unfolding appif_conn_opened_def Let_def ctx_def [symmetric] pts using assms(3-5) by (simp add: tcp_destroy_def conn_free_def ctx_def)
  then show thesis
    unfolding k ws by (intro that [where w = w and l = l]) simp
qed

end
