(* ===== verification/Tcp_Steps.thy ===== *)
theory Tcp_Steps
  imports Tcp Conn_Events_Spec
begin

text \<open>
  The steps of connection set-up.  What timers, transmit queue, connection table, flow table and
  events promise is put together here into lemmas about the parts that the handlers of
  \<^verbatim>\<open>tas/slow/tcp.c\<close> are built from.
\<close>

unbundle bit_operations_syntax

section \<open>Steps of the handlers\<close>

lemma mod_conn_conns: "mod_conn st c f = st\<lparr>conns := (conns st)(c := f (conns st c))\<rparr>"
  by (simp add: mod_conn_def upd_conn_def)

lemma random_timeout:
  fixes t r :: u32
  assumes "0 < t" "t \<le> 0x4000000"
  shows "t div 2 + r mod t < 0x8000000"
proof -
  have t: "unat t \<le> 67108864" "0 < unat t"
    using assms by (simp_all add: word_le_nat_alt word_less_nat_alt)
  have "unat (r mod t) < unat t"
    using t(2) by (simp add: unat_mod)
  moreover have "unat (t div 2) \<le> unat t"
    by (simp add: unat_div)
  ultimately show ?thesis
    using t(1) by (simp add: word_less_nat_alt unat_u32_add)
qed

text \<open>The timer of a connection becomes due after a random time around \<open>t\<close>; the other timers are due when they were.\<close>

definition due_around :: "slow_env \<Rightarrow> timeout_manager \<Rightarrow> u64 \<Rightarrow> u32 \<Rightarrow> timeout_manager \<Rightarrow> bool" where
  "due_around e m p t m' \<longleftrightarrow> (\<exists>us. unat t div 2 \<le> unat us \<and> unat us < unat t div 2 + unat t \<and>
     to_due m' = (to_due m)(p := us_from (se_tsc e) (se_tsc_per_us e) us))"

lemma random_timeout_bounds:
  fixes r t :: u32
  assumes "0 < t" "t \<le> 0x4000000"
  shows "unat t div 2 \<le> unat (t div 2 + r mod t) \<and> unat (t div 2 + r mod t) < unat t div 2 + unat t"
proof -
  have t: "unat t \<le> 67108864" "0 < unat t"
    using assms by (simp_all add: word_le_nat_alt word_less_nat_alt)
  then have "unat r mod unat t < unat t"
    by simp
  with t(1) show ?thesis
    by (simp add: unat_u32_add unat_div unat_mod)
qed

lemma conn_timeout_arm_ok:
  assumes A: "to_armed_map (timeout_mgr st) A" "A (conn_to c) = None" "conn_to c \<noteq> 0" "\<not> to_armed (conns st c)"
    and t: "0 < cn_timeout (conns st c)" "cn_timeout (conns st c) \<le> 0x4000000"
  obtains m g where "conn_timeout_arm e st c =
      Some (Inr (st\<lparr>conns := (conns st)(c := (conns st c)\<lparr>to_armed := True\<rparr>), tcp_rng := g, timeout_mgr := m\<rparr>))"
    "to_armed_map m (A(conn_to c \<mapsto> TO_TCP_HANDSHAKE))"
    "due_around e (timeout_mgr st) (conn_to c) (cn_timeout (conns st c)) m"
proof -
  obtain r g where rg: "utils_rng_gen32 (tcp_rng st) = (r, g)"
    by fastforce
  let ?t = "cn_timeout (conns st c)"
  obtain m where m: "util_timeout_arm (timeout_mgr st) (conn_to c) (?t div 2 + r mod ?t) TO_TCP_HANDSHAKE (se_tsc e) (se_tsc_per_us e) = Some (Inr m)"
    "to_armed_map m (A(conn_to c \<mapsto> TO_TCP_HANDSHAKE))"
    "to_due m = (to_due (timeout_mgr st))(conn_to c := us_from (se_tsc e) (se_tsc_per_us e) (?t div 2 + r mod ?t))"
    using util_timers.arm_law [OF A(1,2,3) random_timeout [OF t], where ty = TO_TCP_HANDSHAKE] by force
  have "due_around e (timeout_mgr st) (conn_to c) ?t m"
    using random_timeout_bounds [OF t] m(3) unfolding due_around_def by blast
  moreover
  have "?t \<noteq> 0"
    using t(1) by auto
  ultimately show thesis
    using A(4) rg m(1,2) by (intro that [of m g]) (simp_all add: conn_timeout_arm_def to_arm_def mod_conn_conns Let_def)
qed

lemma conn_timeout_disarm_ok:
  assumes "to_armed_map (timeout_mgr st) A" "A (conn_to c) \<noteq> None" "to_armed (conns st c)"
  obtains m where "conn_timeout_disarm st c = Inr (st\<lparr>conns := (conns st)(c := (conns st c)\<lparr>to_armed := False\<rparr>), timeout_mgr := m\<rparr>)"
    "to_armed_map m (A(conn_to c := None))"
proof -
  obtain m where "util_timeout_disarm (timeout_mgr st) (conn_to c) = Inr m" "to_armed_map m (A(conn_to c := None))"
    using util_timers.disarm_law [OF assms(1,2)] by blast
  then show thesis
    using assms(3) by (intro that [of m]) (simp_all add: conn_timeout_disarm_def to_disarm_def mod_conn_conns)
qed

definition ctl_of :: "connection \<Rightarrow> ctl_params" where
  "ctl_of c = \<lparr>ct_remote_mac = cn_remote_mac c, ct_remote_ip = cn_remote_ip c, ct_remote_port = cn_remote_port c,
     ct_local_port = cn_local_port c, ct_local_seq = cn_local_seq c, ct_remote_seq = cn_remote_seq c\<rparr>"

text \<open>Sending changes the queue, but not the flows of the fast path.\<close>

lemma nicif_tx_send_fp: "nicif_tx_send env tsc t opq b = Inr t' \<Longrightarrow> fp t' = (fp t)\<lparr>fp_shm := shm t'\<rparr>"
  by (auto simp: nicif_tx_send_def notify_fastpath_core_def Let_def bind_res_Inr set_shm_def)

lemma kernel_tx_fp: "kernel_tx env tsc t len ws = Inr (r, t') \<Longrightarrow> fp t' = (fp t)\<lparr>fp_shm := shm t'\<rparr>"
proof -
  assume k: "kernel_tx env tsc t len ws = Inr (r, t')"
  then obtain x t1 where a: "nicif_tx_alloc t len = Inr (x, t1)"
    by (auto simp: kernel_tx_def bind_res_Inr)
  then have t1: "fp t1 = (fp t)\<lparr>fp_shm := shm t1\<rparr>"
    by (auto simp: nicif_tx_alloc_def Let_def set_shm_def split: option.splits if_splits)
  show ?thesis
  proof (cases x)
    case None
    with k a t1 show ?thesis
      by (simp add: kernel_tx_def)
  next
    case (Some y)
    obtain addr nt where y: "y = (addr, nt)"
      by fastforce
    have "nicif_tx_send env tsc (set_shm t1 (mem_puts (shm t1) addr ws)) nt False = Inr t'"
      using k a Some y by (auto simp: kernel_tx_def bind_res_Inr)
    from nicif_tx_send_fp [OF this] have "fp t' = (fp t1)\<lparr>fp_shm := shm t'\<rparr>"
      by (simp add: set_shm_def)
    also have "\<dots> = (fp t)\<lparr>fp_shm := shm t'\<rparr>"
      by (subst t1) simp
    finally show ?thesis .
  qed
qed

text \<open>Memory that neither the transmit queue nor its buffers occupy.\<close>

definition off_queue :: "tas \<Rightarrow> u64 \<Rightarrow> bool" where
  "off_queue t x \<longleftrightarrow> 64 * unat (txq_len t) \<le> unat (x - txq_base t 0) \<and> (\<forall>i < txq_len t. 1536 \<le> unat (x - txq_bufs t 0 i))"

lemma kernel_tx_off_queue:
  assumes o: "outbox env t ms" and ok: "evfd_write_ok env" and ws: "within 1536 ws" and k: "kernel_tx env tsc t len ws = Inr (r, t')" and x: "off_queue t x"
  shows "shm t' x = shm t x" "txq_len t' = txq_len t \<and> txq_base t' = txq_base t \<and> txq_bufs t' = txq_bufs t"
proof -
  have q: "ktx_queue env t 0 ms" and a: "tx_bufs_apart t"
    using o by (auto simp: outbox_def)
  have "shm t' x = shm t x \<and> txq_len t' = txq_len t \<and> txq_base t' = txq_base t \<and> txq_bufs t' = txq_bufs t"
  proof (cases "length ms < unat (txq_len t)")
    case True
    let ?i = "txq_tail t 0"
    let ?e = "entry_addr 64 (txq_base t 0) (unat ?i)"
    obtain t2 where t2: "kernel_tx env tsc t len ws = Inr (0, t2)"
      "shm t2 = ktx_write (mem_puts (shm t) (txq_bufs t 0 ?i) ws) ?e (Ktx_Packet (txq_bufs t 0 ?i) len)"
      "txq_len t2 = txq_len t" "txq_bufs t2 = txq_bufs t" "txq_base t2 = txq_base t"
      by (rule kernel_tx_state [OF q a True ws ok])
    have i: "?i < txq_len t" and n: "64 * unat (txq_len t) < 4294967296"
      using kernel_tx_run(3) [OF q a True ws ok] q by (simp_all add: ktx_queue_def)
    have "64 \<le> unat (x - ?e)"
    proof (rule ccontr)
      assume "\<not> 64 \<le> unat (x - ?e)"
      then have "unat (x - txq_base t 0) < 64 * unat (txq_len t)"
        using entry_in_ring [of x "txq_base t 0" "unat ?i" "unat (txq_len t)"] i n by (simp add: word_less_nat_alt)
      with x show False
        by (simp add: off_queue_def)
    qed
    moreover have "1536 \<le> unat (x - txq_bufs t 0 ?i)"
      using x i by (simp add: off_queue_def)
    ultimately have "shm t2 x = shm t x"
      unfolding t2(2) by (simp add: ktx_write_outside mem_puts_outside [OF ws])
    with t2 k show ?thesis
      by simp
  next
    case False
    then have "length ms = unat (txq_len t)"
      using q by (auto simp: ktx_queue_def ring_holds_def)
    from kernel_tx_full [OF q this] k show ?thesis
      by simp
  qed
  then show "shm t' x = shm t x" "txq_len t' = txq_len t \<and> txq_base t' = txq_base t \<and> txq_bufs t' = txq_bufs t"
    by simp_all
qed

lemma off_queue_cong: "txq_len t' = txq_len t \<Longrightarrow> txq_base t' = txq_base t \<Longrightarrow> txq_bufs t' = txq_bufs t \<Longrightarrow> off_queue t' = off_queue t"
  by (simp add: off_queue_def fun_eq_iff)

lemma entry_on_queue:
  assumes "unat (x - entry_addr 64 (txq_base t 0) j) < 64" "j < unat (txq_len t)" "64 * unat (txq_len t) < 4294967296"
  shows "\<not> off_queue t x"
  using entry_in_ring [OF assms] by (simp add: off_queue_def)

text \<open>Writes to other memory leave the packets that wait as they are.\<close>

lemma outbox_frame:
  assumes o: "outbox env t ms" and t': "shm t' = m" "kctx t' = kctx t" "txq_len t' = txq_len t" "rxq_len t' = rxq_len t" "txq_base t' = txq_base t"
      "txq_bufs t' = txq_bufs t" "txq_tail t' = txq_tail t"
    and m: "\<And>x. \<not> off_queue t x \<Longrightarrow> m x = shm t x"
  shows "outbox env t' ms" "\<And>y. y \<in> set ms \<Longrightarrow> msg_bytes m y = msg_bytes (shm t) y"
proof -
  have q: "ktx_queue env t 0 ms" and a: "tx_bufs_apart t"
    and s: "\<And>k. k < length ms \<Longrightarrow> msg_in_buf (ms ! k) (txq_bufs t 0 (of_nat (msg_slot t ms k)))"
    using o by (auto simp: outbox_def)
  have n: "64 * unat (txq_len t) < 4294967296"
    using q by (simp add: ktx_queue_def)
  have "ktx_get (txq_base t 0) m j = ktx_get (txq_base t 0) (shm t) j" if j: "j < unat (txq_len t)" for j
  proof -
    have "mem_view m (entry_addr 64 (txq_base t 0) j) k = mem_view (shm t) (entry_addr 64 (txq_base t 0) j) k" if "k < 64" for k
      unfolding mem_view_def by (rule m, rule entry_on_queue [OF _ j n]) (use that in \<open>simp add: unat_of_nat\<close>)
    then show ?thesis
      unfolding ktx_get_def by (intro ktx_msg_cong) simp
  qed
  then have "ring_holds (unat (txq_len t)) (ktx_get (txq_base t 0)) m h u ms =
      ring_holds (unat (txq_len t)) (ktx_get (txq_base t 0)) (shm t) h u ms" for h u
    by (intro ring_holds_cong) blast
  then have "ktx_queue env t' 0 ms"
    using q unfolding ktx_queue_def t' by auto
  moreover have "tx_bufs_apart t'"
    using a unfolding tx_bufs_apart_def t' .
  moreover have "msg_slot t' ms k = msg_slot t ms k" for k
    by (simp add: msg_slot_def t')
  ultimately show "outbox env t' ms"
    using s by (simp add: outbox_def t')
  fix y
  assume "y \<in> set ms"
  then obtain k where k: "k < length ms" "y = ms ! k"
    by (auto simp: in_set_conv_nth)
  have "0 < txq_len t"
    using k(1) q by (auto simp: ktx_queue_def ring_holds_def word_less_nat_alt)
  then have lt: "(of_nat (msg_slot t ms k) :: u32) < txq_len t"
    using msg_slot_less [of t ms k] unat_u32_bound [of "txq_len t"] by (simp add: word_less_nat_alt unat_of_nat)
  show "msg_bytes m y = msg_bytes (shm t) y"
    by (rule msg_bytes_cong [OF s [OF k(1), folded k(2)]], rule m) (use lt in \<open>auto simp: off_queue_def not_le\<close>)
qed

lemma send_control_sends:
  assumes o: "outbox (se_tas e) (sp_tas st) ms" "evfd_write_ok (se_tas e)" "length (eth_addr (fpe (se_tas e))) = 6"
  obtains r t where "send_control e st c flags ts_opt ts_echo mss_opt = Inr (r, st\<lparr>sp_tas := t\<rparr>)" "fp t = (fp (sp_tas st))\<lparr>fp_shm := shm t\<rparr>"
    "sent e st ms (st\<lparr>sp_tas := t\<rparr>) (ctl_bytes e (ctl_of (conns st c)) flags ts_opt ts_echo mss_opt)"
    "\<And>x. off_queue (sp_tas st) x \<Longrightarrow> shm t x = shm (sp_tas st) x \<and> off_queue t x"
proof -
  obtain r st' where s: "send_control_raw e st (ctl_of (conns st c)) flags ts_opt ts_echo mss_opt = Inr (r, st')" "st' = st\<lparr>sp_tas := sp_tas st'\<rparr>"
    "sent e st ms st' (ctl_bytes e (ctl_of (conns st c)) flags ts_opt ts_echo mss_opt)"
    using send_control_raw_sends [OF o] by metis
  have "fp (sp_tas st') = (fp (sp_tas st))\<lparr>fp_shm := shm (sp_tas st')\<rparr>"
    using s(1) by (auto simp: send_control_raw_def Let_def bind_res_Inr dest: kernel_tx_fp)
  moreover have "shm (sp_tas st') x = shm (sp_tas st) x \<and> off_queue (sp_tas st') x" if "off_queue (sp_tas st) x" for x
  proof -
    let ?ws = "(0, hdr_bytes (ctl_pkt e (ctl_of (conns st c)) flags ts_opt ts_echo mss_opt)) #
      map (\<lambda>(k, bs). (sizeof_pkt_tcp + k, bs)) (ctl_opt_writes flags ts_opt ts_echo mss_opt)"
    obtain len where k: "kernel_tx (se_tas e) (se_tsc e) (sp_tas st) len ?ws = Inr (r, sp_tas st')"
      using s(1) by (auto simp: send_control_raw_def Let_def bind_res_Inr)
    from kernel_tx_off_queue [OF o(1,2) ctl_writes_bytes(2) [OF o(3)] k that] show ?thesis
      using that off_queue_cong [of "sp_tas st'" "sp_tas st"] by simp
  qed
  ultimately show thesis
    using s by (intro that [of r "sp_tas st'"]) (auto simp: send_control_def ctl_of_def)
qed

section \<open>Opening a connection\<close>

text \<open>What \<open>send_control\<close> needs.\<close>

definition can_send :: "slow_env \<Rightarrow> slowpath \<Rightarrow> ktx_msg list \<Rightarrow> bool" where
  "can_send e st ms \<longleftrightarrow> outbox (se_tas e) (sp_tas st) ms \<and> evfd_write_ok (se_tas e) \<and> length (eth_addr (fpe (se_tas e))) = 6"

abbreviation (input) SYN_FLAGS :: u16 where "SYN_FLAGS \<equiv> TCP_SYN OR TCP_ECE OR TCP_CWR"

lemma conn_arp_done_ok:
  assumes s: "can_send e st ms" and A: "to_armed_map (timeout_mgr st) A" "A (conn_to c) = None" "conn_to c \<noteq> 0" "\<not> to_armed (conns st c)"
    and to: "0 < tcp_handshake_to (se_cfg e)" "tcp_handshake_to (se_cfg e) \<le> 0x4000000"
  obtains st' m where "conn_arp_done e st c = Some (Inr st')"
    "conns st' = (conns st)(c := (conns st c)\<lparr>cn_status := CONN_SYN_SENT, to_attempts := 0, cn_timeout := tcp_handshake_to (se_cfg e), to_armed := True\<rparr>)"
    "to_armed_map (timeout_mgr st') (A(conn_to c \<mapsto> TO_TCP_HANDSHAKE))"
    "sent e st ms st' (ctl_bytes e (ctl_of (conns st c)) SYN_FLAGS True 0 TCP_MSS)"
    "st' = st\<lparr>conns := conns st', tcp_rng := tcp_rng st', timeout_mgr := timeout_mgr st', sp_tas := sp_tas st'\<rparr>"
    "due_around e (timeout_mgr st) (conn_to c) (tcp_handshake_to (se_cfg e)) (timeout_mgr st')"
proof -
  define st1 where "st1 = mod_conn st c (\<lambda>x. x\<lparr>cn_status := CONN_SYN_SENT, to_attempts := 0, cn_timeout := tcp_handshake_to (se_cfg e)\<rparr>)"
  obtain m g where m: "conn_timeout_arm e st1 c =
      Some (Inr (st1\<lparr>conns := (conns st1)(c := (conns st1 c)\<lparr>to_armed := True\<rparr>), tcp_rng := g, timeout_mgr := m\<rparr>))"
    "to_armed_map m (A(conn_to c \<mapsto> TO_TCP_HANDSHAKE))" "due_around e (timeout_mgr st) (conn_to c) (tcp_handshake_to (se_cfg e)) m"
    by (rule conn_timeout_arm_ok [of st1 A c e]) (use A to in \<open>simp_all add: st1_def\<close>)
  define st2 where "st2 = st1\<lparr>conns := (conns st1)(c := (conns st1 c)\<lparr>to_armed := True\<rparr>), tcp_rng := g, timeout_mgr := m\<rparr>"
  have t2: "sp_tas st2 = sp_tas st"
    by (simp add: st2_def st1_def)
  obtain r t where t: "send_control e st2 c SYN_FLAGS True 0 TCP_MSS = Inr (r, st2\<lparr>sp_tas := t\<rparr>)"
    "sent e st2 ms (st2\<lparr>sp_tas := t\<rparr>) (ctl_bytes e (ctl_of (conns st2 c)) SYN_FLAGS True 0 TCP_MSS)"
    using send_control_sends [of e st2 ms c SYN_FLAGS True 0 TCP_MSS] s t2 by (metis can_send_def)
  have "ctl_of (conns st2 c) = ctl_of (conns st c)"
    by (simp add: st2_def st1_def ctl_of_def)
  then have "sent e st ms (st2\<lparr>sp_tas := t\<rparr>) (ctl_bytes e (ctl_of (conns st c)) SYN_FLAGS True 0 TCP_MSS)"
    using sent_cong [OF t(2) t2, of "st2\<lparr>sp_tas := t\<rparr>"] by simp
  moreover have "conn_arp_done e st c = Some (Inr (st2\<lparr>sp_tas := t\<rparr>))"
    unfolding conn_arp_done_def Let_def st1_def [symmetric] using m(1) t(1) by (simp add: st2_def)
  ultimately show thesis
    using m(2,3) by (intro that [of "st2\<lparr>sp_tas := t\<rparr>"]) (simp_all add: st2_def st1_def mod_conn_conns)
qed

section \<open>Establishing a connection\<close>

definition cc_init_ok :: "configuration \<Rightarrow> bool" where
  "cc_init_ok cfg \<longleftrightarrow> (cc_algorithm cfg = CONFIG_CC_DCTCP_WIN \<longrightarrow> tcp_link_bw cfg \<noteq> 0 \<and> tcp_rtt_init cfg * 1000 \<noteq> 0)"

text \<open>Congestion control sets its own fields of a connection.\<close>

definition cc_part :: "connection \<Rightarrow> connection \<Rightarrow> bool" where
  "cc_part c c' \<longleftrightarrow> (\<exists>n a b x r w t d. c' = c\<lparr>cc_next := n, cc_last_ts := a, cc_rtt := b, cc_rexmits := x, cc_rate := r, cc_dctcp_win := w,
     cc_timely := t, cc_dctcp_rate := d\<rparr>)"

lemma window_to_rate_ok:
  assumes "tcp_link_bw cfg \<noteq> 0" "rt * 1000 \<noteq> 0"
  obtains r where "window_to_rate cfg w rt = Inr r"
proof -
  have "(ucast (rt * 1000) :: u64) \<noteq> 0"
    using assms(2) unat_ucast_u32_u64 [of "rt * 1000"] by (metis unat_0 word_unat_eq_iff)
  moreover have "\<not> t < ucast (rt * 1000) \<Longrightarrow> t \<noteq> 0" if "(ucast (rt * 1000) :: u64) \<noteq> 0" for t :: u64
    using that by (auto simp: word_gt_0)
  ultimately have "(if t < ucast (rt * 1000) then ucast (rt * 1000) else t) \<noteq> 0" for t :: u64
    by simp
  then show thesis
    using assms(1) by (intro that) (simp add: window_to_rate_def Let_def)
qed

lemma cc_part_init:
  "cc_part c (c\<lparr>cc_next := n, cc_last_ts := a, cc_rtt := b, cc_rexmits := x, cc_rate := r\<rparr>)"
  "cc_part c (c\<lparr>cc_next := n, cc_last_ts := a, cc_rtt := b, cc_rexmits := x, cc_rate := r, cc_dctcp_win := w\<rparr>)"
  "cc_part c (c\<lparr>cc_next := n, cc_last_ts := a, cc_rtt := b, cc_rexmits := x, cc_rate := r, cc_timely := t\<rparr>)"
  "cc_part c (c\<lparr>cc_next := n, cc_last_ts := a, cc_rtt := b, cc_rexmits := x, cc_rate := r, cc_dctcp_rate := d\<rparr>)"
  unfolding cc_part_def
  by (cases c; intro exI [of _ n] exI [of _ a] exI [of _ b] exI [of _ x] exI [of _ r]; simp)+

lemma cc_conn_init_ok:
  fixes st :: slowpath
  assumes "cc_init_ok cfg"
  obtains c' where "cc_conn_init cfg ts st p = Inr (st\<lparr>cc_conns := p, conns := (conns st)(p := c')\<rparr>)" "cc_part (conns st p) c'"
proof -
  let ?c = "(conns st p)\<lparr>cc_next := cc_conns st, cc_last_ts := ts, cc_rtt := tcp_rtt_init cfg, cc_rexmits := 0\<rparr>"
  note goal = that
  have run: "thesis" if "(case cc_algorithm cfg of CONFIG_CC_DCTCP_WIN \<Rightarrow> dctcp_win_init cfg ?c | CONFIG_CC_DCTCP_RATE \<Rightarrow> Inr (dctcp_rate_init cfg ?c)
      | CONFIG_CC_TIMELY \<Rightarrow> Inr (timely_init cfg ?c) | CONFIG_CC_CONST_RATE \<Rightarrow> Inr (const_rate_init cfg ?c)) = Inr c'" "cc_part (conns st p) c'" for c'
    by (rule goal [of c']) (use that in \<open>simp_all add: cc_conn_init_def Let_def upd_conn_def\<close>)
  show thesis
  proof (cases "cc_algorithm cfg")
    case CONFIG_CC_DCTCP_WIN
    then obtain r where r: "window_to_rate cfg (2 * CONF_MSS) (tcp_rtt_init cfg) = Inr r"
      using assms window_to_rate_ok by (metis cc_init_ok_def)
    then have "dctcp_win_init cfg ?c = Inr (?c\<lparr>cc_rate := r, cc_dctcp_win := \<lparr>dw_ecn_rate = 0, dw_window = 2 * CONF_MSS, dw_slowstart = True\<rparr>\<rparr>)"
      by (simp add: dctcp_win_init_def)
    then show thesis
      by (rule run [unfolded CONFIG_CC_DCTCP_WIN config_cc_algorithm.case]) (rule cc_part_init)
  next
    case CONFIG_CC_DCTCP_RATE
    show thesis
      by (rule run [unfolded CONFIG_CC_DCTCP_RATE config_cc_algorithm.case, OF refl]) (simp add: dctcp_rate_init_def cc_part_init)
  next
    case CONFIG_CC_TIMELY
    show thesis
      by (rule run [unfolded CONFIG_CC_TIMELY config_cc_algorithm.case, OF refl]) (simp add: timely_init_def cc_part_init)
  next
    case CONFIG_CC_CONST_RATE
    show thesis
      by (rule run [unfolded CONFIG_CC_CONST_RATE config_cc_algorithm.case, OF refl]) (simp add: const_rate_init_def cc_part_init)
  qed
qed

text \<open>Room for another flow: a free id \<open>f\<close>, a free slot, and addresses that are not in use.\<close>

definition flow_room :: "slow_env \<Rightarrow> slowpath \<Rightarrow> u32 \<Rightarrow> u32 list \<Rightarrow> conn_params \<Rightarrow> bool" where
  "flow_room e st f free cp \<longleftrightarrow> se_crc e = flow_hash (fpe (se_tas e)) \<and>
     table_ok (se_crc e) (fp (sp_tas st)) (flowids st) (f # free) \<and>
     (\<nexists>g. registered (se_crc e) (fp (sp_tas st)) g \<and> fs_tuple (flowst (fp (sp_tas st)) g) = conn_tuple cp) \<and>
     (\<exists>k<4. \<not> hte_valid (flowht (fp (sp_tas st)) (slot (tuple_hash (se_crc e) (conn_tuple cp)) k)))"

text \<open>The flow that the fast path finds for packets of a connection; all others are found as before.\<close>

definition flow_added :: "slow_env \<Rightarrow> fastpath \<Rightarrow> fastpath \<Rightarrow> u32 \<Rightarrow> conn_params \<Rightarrow> bool" where
  "flow_added e f0 f1 f cp \<longleftrightarrow> flowst f1 = (flowst f0)(f := conn_flowst cp (flowst f0 f)) \<and>
     (\<forall>nbh. fast_flows_packet_fss1 (fpe (se_tas e)) f1 nbh =
        (if pkt_tuple (nb_pkt nbh) = conn_tuple cp then Some f else fast_flows_packet_fss1 (fpe (se_tas e)) f0 nbh))"

lemma nicif_connection_add_frame:
  assumes "nicif_connection_add crc f0 ids cp = Some (Inr (r, f1, ids'))"
  shows "f1 = f0\<lparr>flowst := flowst f1, flowht := flowht f1\<rparr>"
proof (cases "flow_id_alloc ids")
  case None
  then show ?thesis
    using assms by (simp add: nicif_connection_add_def)
next
  case (Some x)
  let ?h = "nicif_flow_hash crc (t_beui32 (cp_ip_local cp)) (t_beui16 (cp_port_local cp)) (t_beui32 (cp_ip_remote cp)) (t_beui16 (cp_port_remote cp))"
  obtain f i ht ro where x: "x = (f, i)" "flow_slot_alloc (flowht f0) ?h = Some (Inr (ht, ro))"
    using assms Some by (cases x) (auto simp: nicif_connection_add_def Let_def bind_run_Inr)
  show ?thesis
    using assms Some x by (cases ro) (auto simp: nicif_connection_add_def Let_def upd_flow_def split: if_splits)
qed

lemma flow_lookup_cong:
  assumes "flowst f1 = flowst f0" "flowht f1 = flowht f0"
  shows "flow_lookup f1 h p n = flow_lookup f0 h p n"
  using assms by (induction n) (simp_all add: Let_def)

lemma fss1_cong: "flowst f1 = flowst f0 \<Longrightarrow> flowht f1 = flowht f0 \<Longrightarrow> fast_flows_packet_fss1 env f1 = fast_flows_packet_fss1 env f0"
  by (simp add: fun_eq_iff fast_flows_packet_fss1_def Let_def flow_lookup_cong)

lemma flow_added_cong:
  "flow_added e f0 f1 f cp \<Longrightarrow> flowst f2 = flowst f1 \<Longrightarrow> flowht f2 = flowht f1 \<Longrightarrow> flow_added e f0 f2 f cp"
  using fss1_cong [of f2 f1] by (simp add: flow_added_def)

lemma conn_add_ok:
  assumes r: "flow_room e st f free (conn_add_params (conns st c) sq ws)"
  obtains g ids' where "conn_add e st c sq ws = Some (Inr (True, st\<lparr>sp_tas := (sp_tas st)\<lparr>fp := g\<rparr>, flowids := ids',
      conns := (conns st)(c := (conns st c)\<lparr>cn_flow_id := f\<rparr>)\<rparr>))"
    "g = (fp (sp_tas st))\<lparr>flowst := flowst g, flowht := flowht g\<rparr>" "flow_added e (fp (sp_tas st)) g f (conn_add_params (conns st c) sq ws)"
    "table_ok (se_crc e) g ids' free"
proof -
  let ?cp = "conn_add_params (conns st c) sq ws"
  have a: "se_crc e = flow_hash (fpe (se_tas e))" "table_ok (se_crc e) (fp (sp_tas st)) (flowids st) (f # free)"
    "\<nexists>g. registered (se_crc e) (fp (sp_tas st)) g \<and> fs_tuple (flowst (fp (sp_tas st)) g) = conn_tuple ?cp"
    "\<exists>k<4. \<not> hte_valid (flowht (fp (sp_tas st)) (slot (tuple_hash (se_crc e) (conn_tuple ?cp)) k))"
    using r unfolding flow_room_def by blast+
  from nicif_connection_add_ok [OF a(1-3)] a(4) obtain g ids' where
    g: "nicif_connection_add (se_crc e) (fp (sp_tas st)) (flowids st) ?cp = Some (Inr (Some f, g, ids'))"
      "\<forall>nbh. fast_flows_packet_fss1 (fpe (se_tas e)) g nbh =
        (if pkt_tuple (nb_pkt nbh) = conn_tuple ?cp then Some f else fast_flows_packet_fss1 (fpe (se_tas e)) (fp (sp_tas st)) nbh)"
      "flowst g = (flowst (fp (sp_tas st)))(f := conn_flowst ?cp (flowst (fp (sp_tas st)) f))" "table_ok (se_crc e) g ids' free"
    by auto
  show thesis
    by (rule that [where g = g and ids' = ids']) (use g nicif_connection_add_frame [OF g(1)] in \<open>simp_all add: conn_add_def flow_added_def mod_conn_conns\<close>)
qed

text \<open>
  The event queue of a context: its next entry is free, it does not meet the transmit queue, and its
  application can be notified.
\<close>

definition kout_ready :: "slow_env \<Rightarrow> slowpath \<Rightarrow> u64 \<Rightarrow> bool" where
  "kout_ready e st ctx \<longleftrightarrow> kout_room st ctx \<and> cx_evfd (ctx_objs st ctx) \<noteq> 0 \<and> evfd_write_ok (se_tas e) \<and>
     (\<forall>x. unat (x - kout_entry st ctx) < 64 \<longrightarrow> off_queue (sp_tas st) x)"

definition synack_conn :: "connection \<Rightarrow> pkt_tcp \<Rightarrow> nat \<Rightarrow> u32 \<Rightarrow> u16 \<Rightarrow> connection" where
  "synack_conn c p ts core grp = c\<lparr>cn_fn_core := core, cn_flow_group := grp, to_armed := False, cn_remote_seq := f_beui32 (seqno (tcp p)) + 1,
     cn_local_seq := f_beui32 (ackno (tcp p)), cn_syn_ts := opt_ts_val p ts,
     cn_flags := if TCPH_FLAGS (tcp p) AND (TCP_ECE OR TCP_CWR) = TCP_ECE then cn_flags c OR NICIF_CONN_ECN else cn_flags c\<rparr>"

text \<open>The steps up to the registration of the flow.\<close>

lemma outbox_cong:
  "outbox env t ms \<Longrightarrow> shm t' = shm t \<Longrightarrow> kctx t' = kctx t \<Longrightarrow> txq_len t' = txq_len t \<Longrightarrow> rxq_len t' = rxq_len t \<Longrightarrow> txq_base t' = txq_base t \<Longrightarrow>
    txq_bufs t' = txq_bufs t \<Longrightarrow> txq_tail t' = txq_tail t \<Longrightarrow> outbox env t' ms"
  using outbox_frame(1) [of env t ms t' "shm t"] by simp

lemma kout_write_outbox:
  fixes t :: tas and a :: u64 and ws :: writes and w :: "int list"
  assumes o: "outbox env t ms" and k: "\<And>x. unat (x - a) < 64 \<Longrightarrow> off_queue t x" and ws: "within 64 ws"
  defines "t' \<equiv> (set_shm t (mem_puts (shm t) a ws))\<lparr>evfd_writes := w\<rparr>"
  shows "outbox env t' ms" "\<And>y. y \<in> set ms \<Longrightarrow> msg_bytes (shm t') y = msg_bytes (shm t) y"
proof -
  have m: "mem_puts (shm t) a ws x = shm t x" if "\<not> off_queue t x" for x
    by (rule mem_puts_outside [OF ws]) (use k [of x] that in \<open>metis not_less\<close>)
  show "outbox env t' ms" "\<And>y. y \<in> set ms \<Longrightarrow> msg_bytes (shm t') y = msg_bytes (shm t) y"
    using outbox_frame [OF o, of t' "mem_puts (shm t) a ws"] m by (simp_all add: t'_def set_shm_def)
qed

text \<open>A segment has been queued, unless the queue was full; the state may have changed elsewhere.\<close>

definition seg_queued :: "slow_env \<Rightarrow> slowpath \<Rightarrow> ktx_msg list \<Rightarrow> slowpath \<Rightarrow> u8 list \<Rightarrow> bool" where
  "seg_queued e st ms st' bs \<longleftrightarrow> (\<exists>new. outbox (se_tas e) (sp_tas st') (ms @ new) \<and>
     map (msg_bytes (shm (sp_tas st'))) new = (if length ms < unat (txq_len (sp_tas st)) then [bs] else []) \<and>
     (\<forall>x \<in> set ms. msg_bytes (shm (sp_tas st')) x = msg_bytes (shm (sp_tas st)) x))"

lemma sent_seg_queued:
  assumes "sent e st1 ms st2 bs" "outbox (se_tas e) (sp_tas st1) ms" "shm (sp_tas st1) = shm (sp_tas st)" "txq_len (sp_tas st1) = txq_len (sp_tas st)"
  shows "seg_queued e st ms st2 bs"
proof (cases "length ms < unat (txq_len (sp_tas st))")
  case True
  then obtain m where "outbox (se_tas e) (sp_tas st2) (ms @ [m])" "msg_bytes (shm (sp_tas st2)) m = bs"
    "\<forall>x \<in> set ms. msg_bytes (shm (sp_tas st2)) x = msg_bytes (shm (sp_tas st)) x"
    using assms by (auto simp: sent_def)
  then show ?thesis
    using True unfolding seg_queued_def by (intro exI [of _ "[m]"]) simp
next
  case False
  then show ?thesis
    using assms unfolding seg_queued_def sent_def by (intro exI [of _ "[]"]) simp
qed

lemma seg_queued_kout:
  fixes st2 :: slowpath and a :: u64 and ws :: writes and w :: "int list"
  assumes q: "seg_queued e st ms st2 bs" and k: "\<And>x. unat (x - a) < 64 \<Longrightarrow> off_queue (sp_tas st2) x" and ws: "within 64 ws"
    and s3: "sp_tas st3 = (set_shm (sp_tas st2) (mem_puts (shm (sp_tas st2)) a ws))\<lparr>evfd_writes := w\<rparr>"
  shows "seg_queued e st ms st3 bs"
proof -
  obtain new where n: "outbox (se_tas e) (sp_tas st2) (ms @ new)"
    "map (msg_bytes (shm (sp_tas st2))) new = (if length ms < unat (txq_len (sp_tas st)) then [bs] else [])"
    "\<forall>x \<in> set ms. msg_bytes (shm (sp_tas st2)) x = msg_bytes (shm (sp_tas st)) x"
    using q by (auto simp: seg_queued_def)
  have k': "outbox (se_tas e) (sp_tas st3) (ms @ new)"
    unfolding s3 by (rule kout_write_outbox(1) [OF n(1) k ws])
  have same: "msg_bytes (shm (sp_tas st3)) y = msg_bytes (shm (sp_tas st2)) y" if "y \<in> set (ms @ new)" for y
    unfolding s3 by (rule kout_write_outbox(2) [OF n(1) k ws that])
  have "map (msg_bytes (shm (sp_tas st3))) new = map (msg_bytes (shm (sp_tas st2))) new"
    using same by simp
  then show ?thesis
    using k' n same unfolding seg_queued_def by (intro exI [of _ new]) simp
qed

lemma opened_writes_within: "within 64 (opened_writes e c)"
  by (simp add: opened_writes_def conn_buf_bytes_def conn_opened_bytes_def)

text \<open>The event that a connection is open, read from its entry.\<close>

definition opened_event :: "mem \<Rightarrow> u64 \<Rightarrow> connection \<Rightarrow> bool" where
  "opened_event m a c \<longleftrightarrow> (let b = mem_view m a in
     b 63 = KERNEL_APPIN_CONN_OPENED \<and> get_u64 b 0 = cn_opaque c \<and> get_u32 b 32 = 0 \<and>
     get_u64 b 8 = cn_rx_buf c \<and> get_u64 b 16 = cn_tx_buf c \<and> get_u32 b 24 = cn_rx_len c \<and> get_u32 b 28 = cn_tx_len c \<and>
     get_u32 b 36 = cn_remote_seq c \<and> get_u32 b 40 = cn_local_seq c \<and> get_u32 b 44 = cn_flow_id c)"

lemma has_bytes_puts:
  assumes "has_bytes b k bs" "\<And>w. w \<in> set ws \<Longrightarrow> fst w + length (snd w) \<le> k \<or> k + length bs \<le> fst w"
  shows "has_bytes (puts_buf b ws) k bs"
  using assms
proof (induction ws arbitrary: b)
  case (Cons w ws)
  obtain j cs where [simp]: "w = (j, cs)"
    by fastforce
  have d: "j + length cs \<le> k \<or> k + length bs \<le> j"
    using Cons.prems(2) [of w] by simp
  show ?case
    unfolding \<open>w = (j, cs)\<close> puts_buf.simps
    by (rule Cons.IH) (use Cons.prems d in \<open>auto simp: has_bytes_def\<close>)
qed simp

lemma has_bytes_stored: "has_bytes (\<lambda>i. if k \<le> i \<and> i < k + length bs then bs ! (i - k) else b i) k bs"
  by (simp add: has_bytes_def)

text \<open>Writes that do not meet can all be read back.\<close>

definition disjoint_writes :: "writes \<Rightarrow> bool" where
  "disjoint_writes ws \<longleftrightarrow> sorted_wrt (\<lambda>v w. fst v + length (snd v) \<le> fst w \<or> fst w + length (snd w) \<le> fst v) ws"

lemma has_bytes_written:
  assumes "disjoint_writes ws" "(k, bs) \<in> set ws"
  shows "has_bytes (puts_buf b ws) k bs"
  using assms
proof (induction ws arbitrary: b)
  case (Cons w ws)
  obtain j cs where w: "w = (j, cs)"
    by fastforce
  show ?case
  proof (cases "(k, bs) \<in> set ws")
    case True
    then show ?thesis
      using Cons by (simp add: disjoint_writes_def w)
  next
    case False
    then have "w = (k, bs)"
      using Cons.prems(2) by simp
    then show ?thesis
      using Cons.prems(1) has_bytes_puts [OF has_bytes_stored [of k bs b], of ws] by (auto simp: disjoint_writes_def)
  qed
qed simp

lemma has_bytes_cong: "has_bytes b k bs \<Longrightarrow> (\<And>i. i < k + length bs \<Longrightarrow> b' i = b i) \<Longrightarrow> has_bytes b' k bs"
  by (simp add: has_bytes_def)

lemma opened_writes_event: "opened_event (mem_puts m a (opened_writes e c)) a c"
proof -
  let ?b = "puts_buf (mem_view m a) (opened_writes e c)" and ?v = "mem_view (mem_puts m a (opened_writes e c)) a"
  have v: "?v i = ?b i" if "i < 64" for i
    by (rule mem_view_puts) (use that in simp)
  have "disjoint_writes (opened_writes e c)"
    by (simp add: opened_writes_def disjoint_writes_def conn_buf_bytes_def conn_opened_bytes_def)
  note h = has_bytes_written [OF this]
  have cv: "has_bytes ?v k bs" if "has_bytes ?b k bs" "k + length bs \<le> 64" for k bs
    by (rule has_bytes_cong [OF that(1)]) (use that(2) v in simp)
  have "has_bytes ?v 0 (u64_bytes (cn_opaque c))" "has_bytes ?v 32 (u32_bytes 0)" "has_bytes ?v 8 (conn_buf_bytes c)" "has_bytes ?v 36 (conn_opened_bytes e c)"
    "has_bytes ?v 63 [6]"
    by (rule cv, rule h, simp add: opened_writes_def, simp add: conn_buf_bytes_def conn_opened_bytes_def)+
  then show ?thesis
    unfolding opened_event_def Let_def conn_buf_bytes_def conn_opened_bytes_def
    by (auto simp: has_bytes_append has_bytes_Cons dest: get_u64_bytes get_u32_bytes)
qed

lemma flow_room_cong:
  assumes "flow_room e st f free cp" "conn_tuple cp' = conn_tuple cp" "fp (sp_tas st') = fp (sp_tas st)" "flowids st' = flowids st"
  shows "flow_room e st' f free cp'"
  using assms(1) unfolding flow_room_def assms(2-4) .

lemma table_ok_cong:
  assumes "table_ok crc f1 ids free" "flowst f2 = flowst f1" "flowht f2 = flowht f1"
  shows "table_ok crc f2 ids free"
  using assms unfolding table_ok_def by simp

lemma kout_ready_cong:
  assumes k: "kout_ready e st ctx" and x: "ctx_objs st' = ctx_objs st"
    and m: "\<And>x. off_queue (sp_tas st) x \<Longrightarrow> shm (sp_tas st') x = shm (sp_tas st) x \<and> off_queue (sp_tas st') x"
  shows "kout_ready e st' ctx" "kout_entry st' ctx = kout_entry st ctx"
proof -
  show en: "kout_entry st' ctx = kout_entry st ctx"
    by (simp add: kout_entry_def x)
  have "mem_view (shm (sp_tas st')) (kout_entry st ctx) 63 = mem_view (shm (sp_tas st)) (kout_entry st ctx) 63"
    using k m unfolding kout_ready_def mem_view_def by simp
  then show "kout_ready e st' ctx"
    using k m unfolding kout_ready_def kout_room_def en x by auto
qed

lemma conn_tuple_params:
  "conn_tuple (conn_add_params c sq ws) = (t_beui32 (cn_local_ip c), t_beui32 (cn_remote_ip c), t_beui16 (cn_local_port c), t_beui16 (cn_remote_port c))"
  by (simp add: conn_tuple_def conn_add_params_def)

text \<open>The end of the handshake: an open connection is acknowledged and announced.\<close>

lemma conn_announce:
  assumes s: "can_send e st ms" and k: "kout_ready e st (cn_ctx (conns st c))"
  obtains st' where "bind_run (Some (send_control e st c TCP_ACK True (cn_syn_ts (conns st c)) 0)) (\<lambda>(_, st).
      bind_run (Some (appif_conn_opened e st c 0)) (\<lambda>st. Some (Inr (0, st)))) = Some (Inr (0 :: int, st'))"
    "conns st' = conns st" "timeout_mgr st' = timeout_mgr st" "flowids st' = flowids st"
    "flowst (fp (sp_tas st')) = flowst (fp (sp_tas st))" "flowht (fp (sp_tas st')) = flowht (fp (sp_tas st))"
    "seg_queued e st ms st' (ctl_bytes e (ctl_of (conns st c)) TCP_ACK True (cn_syn_ts (conns st c)) 0)"
    "opened_event (shm (sp_tas st')) (kout_entry st (cn_ctx (conns st c))) (conns st c)"
    "tcp_hashtable st' = tcp_hashtable st"
proof -
  let ?ctx = "cn_ctx (conns st c)"
  obtain r t where t: "send_control e st c TCP_ACK True (cn_syn_ts (conns st c)) 0 = Inr (r, st\<lparr>sp_tas := t\<rparr>)" "fp t = (fp (sp_tas st))\<lparr>fp_shm := shm t\<rparr>"
    "sent e st ms (st\<lparr>sp_tas := t\<rparr>) (ctl_bytes e (ctl_of (conns st c)) TCP_ACK True (cn_syn_ts (conns st c)) 0)"
    "\<And>x. off_queue (sp_tas st) x \<Longrightarrow> shm t x = shm (sp_tas st) x \<and> off_queue t x"
    using send_control_sends s unfolding can_send_def by metis
  define st1 where "st1 = st\<lparr>sp_tas := t\<rparr>"
  have k1: "kout_ready e st1 ?ctx" "kout_entry st1 ?ctx = kout_entry st ?ctx"
    using kout_ready_cong [OF k, of st1] t(4) by (simp_all add: st1_def)
  have c1: "cn_ctx (conns st1 c) = ?ctx" "conns st1 = conns st"
    by (simp_all add: st1_def)
  obtain w l where o: "appif_conn_opened e st1 c 0 =
      Inr (st1\<lparr>sp_tas := (set_shm (sp_tas st1) (mem_puts (shm (sp_tas st1)) (kout_entry st1 ?ctx) (opened_writes e (conns st1 c))))
              \<lparr>evfd_writes := evfd_writes (sp_tas st1) @ w\<rparr>,
            ctx_objs := (ctx_objs st1)(?ctx := (ctx_objs st1 ?ctx)\<lparr>cx_last_ts := l, kout_pos := kout_next (ctx_objs st1 ?ctx)\<rparr>)\<rparr>)"
    using appif_conn_opened_ok [of st1 c e] k1(1) unfolding c1 kout_ready_def by metis
  define st2 where "st2 = st1\<lparr>sp_tas := (set_shm (sp_tas st1) (mem_puts (shm (sp_tas st1)) (kout_entry st1 ?ctx) (opened_writes e (conns st1 c))))
              \<lparr>evfd_writes := evfd_writes (sp_tas st1) @ w\<rparr>,
            ctx_objs := (ctx_objs st1)(?ctx := (ctx_objs st1 ?ctx)\<lparr>cx_last_ts := l, kout_pos := kout_next (ctx_objs st1 ?ctx)\<rparr>)\<rparr>"
  have t2: "sp_tas st2 = (set_shm (sp_tas st1) (mem_puts (shm (sp_tas st1)) (kout_entry st1 ?ctx) (opened_writes e (conns st1 c))))
      \<lparr>evfd_writes := evfd_writes (sp_tas st1) @ w\<rparr>"
    by (simp add: st2_def)
  have "seg_queued e st ms st1 (ctl_bytes e (ctl_of (conns st c)) TCP_ACK True (cn_syn_ts (conns st c)) 0)"
    using sent_seg_queued [OF t(3) [folded st1_def], of st] s by (simp add: can_send_def)
  then have q: "seg_queued e st ms st2 (ctl_bytes e (ctl_of (conns st c)) TCP_ACK True (cn_syn_ts (conns st c)) 0)"
    by (rule seg_queued_kout [OF _ _ opened_writes_within t2]) (use k1(1) in \<open>simp add: kout_ready_def\<close>)
  have ev: "opened_event (shm (sp_tas st2)) (kout_entry st ?ctx) (conns st c)"
    unfolding t2 using opened_writes_event [of "shm (sp_tas st1)" "kout_entry st1 ?ctx" e "conns st1 c"] k1(2) c1(2) by (simp add: set_shm_def)
  have f: "flowst (fp (sp_tas st2)) = flowst (fp (sp_tas st))" "flowht (fp (sp_tas st2)) = flowht (fp (sp_tas st))"
    unfolding t2 by (simp_all add: set_shm_def st1_def, (subst t(2), simp)+)
  show thesis
  proof (rule that [of st2])
    show "bind_run (Some (send_control e st c TCP_ACK True (cn_syn_ts (conns st c)) 0)) (\<lambda>(_, st).
      bind_run (Some (appif_conn_opened e st c 0)) (\<lambda>st. Some (Inr (0, st)))) = Some (Inr (0 :: int, st2))"
      using t(1) o by (simp add: st1_def [symmetric] st2_def [symmetric])
  qed (use q ev f in \<open>simp_all add: st2_def st1_def\<close>)
qed

lemma conn_syn_sent_packet_ok:
  fixes e :: slow_env and st :: slowpath and opts :: sp_tcp_opts and p :: pkt_tcp
  assumes s: "can_send e st ms" and A: "to_armed_map (timeout_mgr st) A" "A (conn_to c) \<noteq> None" "to_armed (conns st c)"
    and k: "kout_ready e st (cn_ctx (conns st c))" and cc: "cc_init_ok (se_cfg e)"
    and p: "TCPH_FLAGS (tcp p) AND (TCP_SYN OR TCP_ACK) = TCP_SYN OR TCP_ACK" "so_ts opts = Some ts"
    and f: "flow_room e st f free (conn_add_params (conns st c) 0 0)"
  defines "ws \<equiv> (case so_ws opts of None \<Rightarrow> 0 | Some w \<Rightarrow> opt_wscale p w)"
  obtains st' where "conn_syn_sent_packet e st c p opts = Some (Inr (0, st'))"
    "to_armed_map (timeout_mgr st') (A(conn_to c := None))" "\<And>x. x \<noteq> c \<Longrightarrow> conns st' x = conns st x"
    "cn_status (conns st' c) = CONN_OPEN" "cn_flow_id (conns st' c) = f" "\<not> to_armed (conns st' c)"
    "cn_remote_seq (conns st' c) = f_beui32 (seqno (tcp p)) + 1" "cn_local_seq (conns st' c) = f_beui32 (ackno (tcp p))"
    "cn_flags (conns st' c) = (if TCPH_FLAGS (tcp p) AND (TCP_ECE OR TCP_CWR) = TCP_ECE then cn_flags (conns st c) OR NICIF_CONN_ECN else cn_flags (conns st c))"
    "flow_added e (fp (sp_tas st)) (fp (sp_tas st')) f (conn_add_params (conns st' c) (cn_local_seq (conns st' c)) ws)"
    "table_ok (se_crc e) (fp (sp_tas st')) (flowids st') free"
    "seg_queued e st ms st' (ctl_bytes e (ctl_of (conns st' c)) TCP_ACK True (opt_ts_val p ts) 0)"
    "opened_event (shm (sp_tas st')) (kout_entry st (cn_ctx (conns st c))) (conns st' c)"
    "ht_next (conns st' c) = ht_next (conns st c)" "tcp_hashtable st' = tcp_hashtable st" "conn_bucket e (conns st' c) = conn_bucket e (conns st c)"
    "cn_local_ip (conns st' c) = cn_local_ip (conns st c)"
proof -
  let ?ctx = "cn_ctx (conns st c)"
  obtain m where m: "conn_timeout_disarm st c = Inr (st\<lparr>conns := (conns st)(c := (conns st c)\<lparr>to_armed := False\<rparr>), timeout_mgr := m\<rparr>)"
    "to_armed_map m (A(conn_to c := None))"
    by (rule conn_timeout_disarm_ok [OF A])
  define st1 where "st1 = st\<lparr>conns := (conns st)(c := (conns st c)\<lparr>to_armed := False\<rparr>), timeout_mgr := m\<rparr>"
  define F where "F x = x\<lparr>cn_remote_seq := f_beui32 (seqno (tcp p)) + 1, cn_local_seq := f_beui32 (ackno (tcp p)), cn_syn_ts := opt_ts_val p ts,
      cn_flags := if TCPH_FLAGS (tcp p) AND (TCP_ECE OR TCP_CWR) = TCP_ECE then cn_flags x OR NICIF_CONN_ECN else cn_flags x\<rparr>" for x :: connection
  define st2 where "st2 = mod_conn st1 c F"
  obtain c3 where c3: "cc_conn_init (se_cfg e) (se_cur_ts e) st2 c = Inr (st2\<lparr>cc_conns := c, conns := (conns st2)(c := c3)\<rparr>)" "cc_part (conns st2 c) c3"
    by (rule cc_conn_init_ok [OF cc])
  define st4 where "st4 = mod_conn (st2\<lparr>cc_conns := c, conns := (conns st2)(c := c3)\<rparr>) c (\<lambda>x. x\<lparr>comp_notify_fd := -1, comp_status := 0\<rparr>)"
  have c4: "conns st4 c = c3\<lparr>comp_notify_fd := -1, comp_status := 0\<rparr>" "sp_tas st4 = sp_tas st" "flowids st4 = flowids st" "ctx_objs st4 = ctx_objs st"
      "timeout_mgr st4 = m" "tcp_hashtable st4 = tcp_hashtable st"
    by (simp_all add: st4_def st2_def st1_def)
  have o4: "conns st4 x = conns st x" if "x \<noteq> c" for x
    using that by (simp add: st4_def st2_def st1_def)
  obtain n a b x r w t d where c3': "c3 = (F ((conns st c)\<lparr>to_armed := False\<rparr>))\<lparr>cc_next := n, cc_last_ts := a, cc_rtt := b, cc_rexmits := x, cc_rate := r,
      cc_dctcp_win := w, cc_timely := t, cc_dctcp_rate := d\<rparr>"
    using c3(2) by (auto simp: cc_part_def st2_def st1_def)
  have "flow_room e st4 f free (conn_add_params (conns st4 c) (f_beui32 (ackno (tcp p))) ws)"
    by (rule flow_room_cong [OF f]) (simp_all add: c4 conn_tuple_params c3' F_def)
  then obtain g ids' where g: "conn_add e st4 c (f_beui32 (ackno (tcp p))) ws = Some (Inr (True, st4\<lparr>sp_tas := (sp_tas st4)\<lparr>fp := g\<rparr>, flowids := ids',
      conns := (conns st4)(c := (conns st4 c)\<lparr>cn_flow_id := f\<rparr>)\<rparr>))"
    "g = (fp (sp_tas st4))\<lparr>flowst := flowst g, flowht := flowht g\<rparr>" "flow_added e (fp (sp_tas st4)) g f (conn_add_params (conns st4 c) (f_beui32 (ackno (tcp p))) ws)"
    "table_ok (se_crc e) g ids' free"
    by (rule conn_add_ok)
  define st6 where "st6 = mod_conn (st4\<lparr>sp_tas := (sp_tas st4)\<lparr>fp := g\<rparr>, flowids := ids', conns := (conns st4)(c := (conns st4 c)\<lparr>cn_flow_id := f\<rparr>)\<rparr>) c
      (cn_status_update (\<lambda>_. CONN_OPEN))"
  have c6: "conns st6 c = (conns st4 c)\<lparr>cn_flow_id := f, cn_status := CONN_OPEN\<rparr>" "fp (sp_tas st6) = g" "flowids st6 = ids'" "timeout_mgr st6 = m"
      "ctx_objs st6 = ctx_objs st" "sp_tas st6 = (sp_tas st)\<lparr>fp := g\<rparr>" "tcp_hashtable st6 = tcp_hashtable st"
    using c4 by (simp_all add: st6_def)
  have o6: "conns st6 x = conns st x" if "x \<noteq> c" for x
    using that o4 by (simp add: st6_def)
  have sh: "shm (sp_tas st6) = shm (sp_tas st)"
    unfolding c6 by (simp, subst g(2), simp add: c4)
  have "can_send e st6 ms"
    using s sh unfolding can_send_def by (auto elim!: outbox_cong simp: c6)
  moreover have "off_queue (sp_tas st6) = off_queue (sp_tas st)"
    by (rule off_queue_cong) (simp_all add: c6)
  then have k6: "kout_ready e st6 ?ctx" "kout_entry st6 ?ctx = kout_entry st ?ctx"
    using kout_ready_cong [OF k, of st6] sh by (simp_all add: c6)
  moreover have ctx: "cn_ctx (conns st6 c) = ?ctx"
    by (simp add: c6 c4 c3' F_def)
  ultimately obtain st' where st': "bind_run (Some (send_control e st6 c TCP_ACK True (cn_syn_ts (conns st6 c)) 0)) (\<lambda>(_, st).
      bind_run (Some (appif_conn_opened e st c 0)) (\<lambda>st. Some (Inr (0, st)))) = Some (Inr (0 :: int, st'))"
    "conns st' = conns st6" "timeout_mgr st' = timeout_mgr st6" "flowids st' = flowids st6"
    "flowst (fp (sp_tas st')) = flowst (fp (sp_tas st6))" "flowht (fp (sp_tas st')) = flowht (fp (sp_tas st6))"
    "seg_queued e st6 ms st' (ctl_bytes e (ctl_of (conns st6 c)) TCP_ACK True (cn_syn_ts (conns st6 c)) 0)"
    "opened_event (shm (sp_tas st')) (kout_entry st6 (cn_ctx (conns st6 c))) (conns st6 c)" "tcp_hashtable st' = tcp_hashtable st6"
    using conn_announce [of e st6 ms c] by metis
  have run: "conn_syn_sent_packet e st c p opts = Some (Inr (0, st'))"
  proof -
    have "cn_local_seq (conns st4 c) = f_beui32 (ackno (tcp p))"
      by (simp add: c4 c3' F_def)
    then have "conn_syn_sent_packet e st c p opts = bind_run (Some (send_control e st6 c TCP_ACK True (cn_syn_ts (conns st6 c)) 0)) (\<lambda>(_, st).
      bind_run (Some (appif_conn_opened e st c 0)) (\<lambda>st. Some (Inr (0, st))))"
      by (simp only: conn_syn_sent_packet_def m(1) st1_def [symmetric] bind_run_simps p simp_thms if_False if_True option.case Let_def
          F_def [abs_def, symmetric] st2_def [symmetric] c3(1) st4_def [symmetric] ws_def [symmetric] g(1) prod.case st6_def [symmetric])
    with st'(1) show ?thesis
      by simp
  qed
  have fl: "flow_added e (fp (sp_tas st)) (fp (sp_tas st')) f (conn_add_params (conns st' c) (cn_local_seq (conns st' c)) ws)"
  proof -
    have "conn_add_params (conns st' c) (cn_local_seq (conns st' c)) ws = conn_add_params (conns st4 c) (f_beui32 (ackno (tcp p))) ws"
      by (simp add: st'(2) c6 c4 c3' F_def conn_add_params_def)
    then show ?thesis
      using flow_added_cong [OF g(3)] st'(5,6) by (simp add: c6 c4)
  qed
  have ts6: "cn_syn_ts (conns st6 c) = opt_ts_val p ts"
    by (simp add: c6 c4 c3' F_def)
  have q: "seg_queued e st ms st' (ctl_bytes e (ctl_of (conns st' c)) TCP_ACK True (opt_ts_val p ts) 0)"
    using st'(7) [unfolded seg_queued_def sh ts6] unfolding seg_queued_def st'(2) by (simp add: c6(6))
  have ev: "opened_event (shm (sp_tas st')) (kout_entry st ?ctx) (conns st' c)"
    using st'(8) k6(2) ctx st'(2) by simp
  have tab: "table_ok (se_crc e) (fp (sp_tas st')) (flowids st') free"
    unfolding st'(4) c6 by (rule table_ok_cong [OF g(4)]) (simp_all add: st'(5,6) c6)
  show thesis
    by (rule that [OF run _ _ _ _ _ _ _ _ fl tab q ev])
      (use m(2) o6 in \<open>simp_all add: st' c6 c4 c3' F_def conn_bucket_def\<close>)
qed

section \<open>The connection table\<close>

lemma conns_hold_cong:
  assumes h: "conns_hold e st cs" and t: "tcp_hashtable st' = tcp_hashtable st"
    and c: "\<And>x. x \<in> set cs \<Longrightarrow> ht_next (conns st' x) = ht_next (conns st x) \<and> conn_bucket e (conns st' x) = conn_bucket e (conns st x) \<and>
      cn_local_ip (conns st' x) = cn_local_ip (conns st x)"
  shows "conns_hold e st' cs"
proof -
  have d: "distinct cs" "0 \<notin> set cs" and l: "to_local e st cs"
    using h by (simp_all add: conns_hold_def conn_table_def)
  have "conn_table e st' cs"
  proof (rule conn_tableI [OF d])
    fix b
    have f: "filter (\<lambda>x. conn_bucket e (conns st' x) = b) cs = filter (\<lambda>x. conn_bucket e (conns st x) = b) cs"
      using c by (intro filter_cong) simp_all
    have p: "path 0 (\<lambda>x. ht_next (conns st x)) (tcp_hashtable st b) (filter (\<lambda>x. conn_bucket e (conns st x) = b) cs)"
      using h by (intro conn_table_path) (simp add: conns_hold_def)
    show "path 0 (\<lambda>x. ht_next (conns st' x)) (tcp_hashtable st' b) (filter (\<lambda>x. conn_bucket e (conns st' x) = b) cs)"
      unfolding f t by (rule path_frame [OF p]) (use c in simp)
  qed
  then show ?thesis
    using l c by (simp add: conns_hold_def to_local_def)
qed

text \<open>Everything but the links of the table stays when a connection is removed.\<close>

lemma conn_unregister_frame:
  assumes "conn_unregister e st c = Some (Inr st')"
  shows "st' = st\<lparr>conns := conns st', tcp_hashtable := tcp_hashtable st'\<rparr>" "(conns st' x)\<lparr>ht_next := 0\<rparr> = (conns st x)\<lparr>ht_next := 0\<rparr>"
  using assms by (auto simp: conn_unregister_def Let_def mod_conn_conns split: if_splits option.splits)

definition failed_event :: "mem \<Rightarrow> u64 \<Rightarrow> u64 \<Rightarrow> int \<Rightarrow> bool" where
  "failed_event m a op status \<longleftrightarrow> mem_view m a 63 = KERNEL_APPIN_CONN_OPENED \<and> get_u64 (mem_view m a) 0 = op \<and>
     get_u32 (mem_view m a) 32 = word_of_int status"

lemma failed_writes_event: "failed_event (mem_puts m a (failed_writes c status)) a (cn_opaque c) status"
proof -
  let ?b = "puts_buf (mem_view m a) (failed_writes c status)" and ?v = "mem_view (mem_puts m a (failed_writes c status)) a"
  have v: "?v i = ?b i" if "i < 64" for i
    by (rule mem_view_puts) (use that in simp)
  have "disjoint_writes (failed_writes c status)"
    by (simp add: failed_writes_def disjoint_writes_def)
  note h = has_bytes_written [OF this]
  have cv: "has_bytes ?v k bs" if "has_bytes ?b k bs" "k + length bs \<le> 64" for k bs
    by (rule has_bytes_cong [OF that(1)]) (use that(2) v in simp)
  have "has_bytes ?v 0 (u64_bytes (cn_opaque c))" "has_bytes ?v 32 (u32_bytes (word_of_int status))" "has_bytes ?v 63 [6]"
    by (rule cv, rule h, simp add: failed_writes_def, simp)+
  then show ?thesis
    unfolding failed_event_def by (auto simp: has_bytes_Cons dest: get_u64_bytes get_u32_bytes)
qed

lemma conn_failed_ok:
  assumes h: "conns_hold e st cs" "c \<in> set cs" and A: "to_armed_map (timeout_mgr st) A" "to_armed (conns st c) \<longleftrightarrow> A (conn_to c) \<noteq> None"
    and k: "kout_ready e st (cn_ctx (conns st c))" and s: "status \<noteq> 0"
  obtains st' where "conn_failed e st c status = Some (Inr st')" "conns_hold e st' (remove1 c cs)" "cn_status (conns st' c) = CONN_FAILED"
    "to_armed_map (timeout_mgr st') (A(conn_to c := None))" "\<And>x. x \<noteq> c \<Longrightarrow> (conns st' x)\<lparr>ht_next := 0\<rparr> = (conns st x)\<lparr>ht_next := 0\<rparr>"
    "failed_event (shm (sp_tas st')) (kout_entry st (cn_ctx (conns st c))) (cn_opaque (conns st c)) status"
    "pm_free st' = packetmem_free (cn_rx_handle (conns st c)) (packetmem_free (cn_tx_handle (conns st c)) (pm_free st))" "ports st' = ports st"
proof -
  let ?ctx = "cn_ctx (conns st c)"
  obtain st1 where st1: "conn_unregister e st c = Some (Inr st1)" "conns_hold e st1 (remove1 c cs)"
    using conn_reg.unregister_law [OF h] by blast
  note f1 = conn_unregister_frame [OF st1(1)]
  have g1: "timeout_mgr st1 = timeout_mgr st" "sp_tas st1 = sp_tas st" "ctx_objs st1 = ctx_objs st" "pm_free st1 = pm_free st" "ports st1 = ports st"
    by (subst f1(1), simp)+
  have c1: "to_armed (conns st1 c) = to_armed (conns st c)" "cn_ctx (conns st1 c) = ?ctx" "cn_opaque (conns st1 c) = cn_opaque (conns st c)"
    "cn_rx_handle (conns st1 c) = cn_rx_handle (conns st c)" "cn_tx_handle (conns st1 c) = cn_tx_handle (conns st c)"
    using arg_cong [OF f1(2) [of c], of to_armed] arg_cong [OF f1(2) [of c], of cn_ctx] arg_cong [OF f1(2) [of c], of cn_opaque]
      arg_cong [OF f1(2) [of c], of cn_rx_handle] arg_cong [OF f1(2) [of c], of cn_tx_handle] by simp_all
  obtain st2 m where st2: "(if to_armed (conns st1 c) then conn_timeout_disarm st1 c else Inr st1) = Inr st2"
    "st2 = st1\<lparr>conns := (conns st1)(c := (conns st1 c)\<lparr>to_armed := False\<rparr>), timeout_mgr := m\<rparr>" "to_armed_map m (A(conn_to c := None))"
  proof (cases "to_armed (conns st1 c)")
    case True
    then obtain m where "conn_timeout_disarm st1 c = Inr (st1\<lparr>conns := (conns st1)(c := (conns st1 c)\<lparr>to_armed := False\<rparr>), timeout_mgr := m\<rparr>)"
      "to_armed_map m (A(conn_to c := None))"
      using conn_timeout_disarm_ok [of st1 A c] A g1 c1 by metis
    with True show thesis
      by (intro that) simp_all
  next
    case False
    then have "A(conn_to c := None) = A" "(conns st1)(c := (conns st1 c)\<lparr>to_armed := False\<rparr>) = conns st1"
      using A(2) c1 by (auto intro!: ext)
    with False A(1) g1 show thesis
      by (intro that [of st1 "timeout_mgr st1"]) simp_all
  qed
  define st3 where "st3 = mod_conn st2 c (cn_status_update (\<lambda>_. CONN_FAILED))"
  have c3: "conns st3 = (conns st1)(c := (conns st1 c)\<lparr>to_armed := False, cn_status := CONN_FAILED\<rparr>)" "sp_tas st3 = sp_tas st" "ctx_objs st3 = ctx_objs st"
    "pm_free st3 = pm_free st" "timeout_mgr st3 = m" "tcp_hashtable st3 = tcp_hashtable st1" "ports st3 = ports st"
    using g1 by (simp_all add: st3_def st2(2))
  have d3: "cn_ctx (conns st3 c) = ?ctx" "cn_opaque (conns st3 c) = cn_opaque (conns st c)" "cn_status (conns st3 c) = CONN_FAILED"
    "cn_rx_handle (conns st3 c) = cn_rx_handle (conns st c)" "cn_tx_handle (conns st3 c) = cn_tx_handle (conns st c)"
    using c1 by (simp_all add: c3(1))
  have k3: "kout_ready e st3 ?ctx" "kout_entry st3 ?ctx = kout_entry st ?ctx"
    using kout_ready_cong [OF k, of st3] c3 by simp_all
  obtain w l where o: "appif_conn_opened e st3 c status =
      Inr (st3\<lparr>pm_free := packetmem_free (cn_rx_handle (conns st3 c)) (packetmem_free (cn_tx_handle (conns st3 c)) (pm_free st3)),
            sp_tas := (set_shm (sp_tas st3) (mem_puts (shm (sp_tas st3)) (kout_entry st3 ?ctx) (failed_writes (conns st3 c) status)))
              \<lparr>evfd_writes := evfd_writes (sp_tas st3) @ w\<rparr>,
            ctx_objs := (ctx_objs st3)(?ctx := (ctx_objs st3 ?ctx)\<lparr>cx_last_ts := l, kout_pos := kout_next (ctx_objs st3 ?ctx)\<rparr>)\<rparr>)"
    using appif_conn_opened_failed [of st3 c e status] k3(1) s d3 unfolding kout_ready_def by metis
  define st4 where "st4 = st3\<lparr>pm_free := packetmem_free (cn_rx_handle (conns st3 c)) (packetmem_free (cn_tx_handle (conns st3 c)) (pm_free st3)),
            sp_tas := (set_shm (sp_tas st3) (mem_puts (shm (sp_tas st3)) (kout_entry st3 ?ctx) (failed_writes (conns st3 c) status)))
              \<lparr>evfd_writes := evfd_writes (sp_tas st3) @ w\<rparr>,
            ctx_objs := (ctx_objs st3)(?ctx := (ctx_objs st3 ?ctx)\<lparr>cx_last_ts := l, kout_pos := kout_next (ctx_objs st3 ?ctx)\<rparr>)\<rparr>"
  have run: "conn_failed e st c status = Some (Inr st4)"
    by (simp add: conn_failed_def st1(1) st2(1) st3_def [symmetric] o st4_def [symmetric] Let_def)
  have "c \<notin> set (remove1 c cs)"
    using conn_reg.holds_distinct [OF h(1)] by simp
  then have hold: "conns_hold e st4 (remove1 c cs)"
    by (intro conns_hold_cong [OF st1(2)]) (auto simp: st4_def c3)
  have ev: "failed_event (shm (sp_tas st4)) (kout_entry st ?ctx) (cn_opaque (conns st c)) status"
    using failed_writes_event [of "shm (sp_tas st3)" "kout_entry st3 ?ctx" "conns st3 c" status] k3(2) d3(2) by (simp add: st4_def set_shm_def)
  show thesis
    by (rule that [OF run hold _ _ _ ev]) (use f1(2) st2(3) d3 c3 in \<open>simp_all add: st4_def\<close>)
qed

section \<open>Packets for a connection that is being opened\<close>

end
