(* ===== verification/Tcp_Conn.thy ===== *)
theory Tcp_Conn
  imports Tcp_Steps
begin

text \<open>
  Connection set-up and its time-outs, \<^verbatim>\<open>tcp_packet\<close> and \<^verbatim>\<open>tcp_timeout\<close> of \<^verbatim>\<open>tas/slow/tcp.c\<close>.
\<close>

unbundle bit_operations_syntax

section \<open>Packets for a connection\<close>

text \<open>A packet that is well formed and belongs to the connection \<open>c\<close>.\<close>

definition packet_for :: "slow_env \<Rightarrow> slowpath \<Rightarrow> u64 list \<Rightarrow> pkt_tcp \<Rightarrow> u16 \<Rightarrow> sp_tcp_opts \<Rightarrow> u64 \<Rightarrow> bool" where
  "packet_for e st cs p len opts c \<longleftrightarrow> conns_hold e st cs \<and> sizeof_pkt_tcp \<le> unat len \<and> f_beui32 (ip_dest (ip p)) = cfg_ip (se_cfg e) \<and>
     parse_options p len = Some (Inr opts) \<and> find (\<lambda>x. conn_matches p (conns st x)) cs = Some c"

lemma packet_for_conn:
  assumes "packet_for e st cs p len opts c"
  shows "tcp_packet e st p len core grp = bind_run (conn_packet e st c p opts core grp) (\<lambda>st. Some (Inr (0, st)))" "c \<in> set cs" "c \<noteq> 0"
proof -
  have h: "conn_table e st cs" "to_local e st cs"
    and p: "sizeof_pkt_tcp \<le> unat len" "f_beui32 (ip_dest (ip p)) = cfg_ip (se_cfg e)" "parse_options p len = Some (Inr opts)"
      "find (\<lambda>x. conn_matches p (conns st x)) cs = Some c"
    using assms by (auto simp: packet_for_def conns_hold_def)
  show c: "c \<in> set cs"
    using p(4) by (metis find_Some_iff nth_mem)
  then show "c \<noteq> 0"
    using h(1) by (auto simp: conn_table_def)
  then show "tcp_packet e st p len core grp = bind_run (conn_packet e st c p opts core grp) (\<lambda>st. Some (Inr (0, st)))"
    using conn_lookup_find [OF h p(2)] p by (simp add: tcp_packet_def)
qed

text \<open>
  C3: A connection is established by the SYN-ACK it waits for.  If there is a free flow, the
  packet puts the connection into the open state with the sequence numbers of the packet, its
  timer is disarmed, the fast path from then on finds its flow for the packets of the connection and
  all other flows as before, an acknowledgement that echoes the peer's timestamp is queued, and the
  application is told where its buffers are and which flow it has.
\<close>

theorem tcp_packet_synack:
  assumes p: "packet_for e st cs p len opts c" "TCPH_FLAGS (tcp p) AND (TCP_SYN OR TCP_ACK) = TCP_SYN OR TCP_ACK" "so_ts opts = Some ts"
    and c: "cn_status (conns st c) = CONN_SYN_SENT"
    and s: "can_send e st ms" and A: "to_armed_map (timeout_mgr st) A" "A (conn_to c) \<noteq> None" "to_armed (conns st c)"
    and k: "kout_ready e st (cn_ctx (conns st c))" and cc: "cc_init_ok (se_cfg e)"
    and f: "flow_room e st f free (conn_add_params (conns st c) 0 0)"
  shows "\<exists>st'. tcp_packet e st p len core grp = Some (Inr (0, st')) \<and> conns_hold e st' cs \<and>
    to_armed_map (timeout_mgr st') (A(conn_to c := None)) \<and> \<not> to_armed (conns st' c) \<and>
    cn_status (conns st' c) = CONN_OPEN \<and> cn_flow_id (conns st' c) = f \<and> (\<forall>x. x \<noteq> c \<longrightarrow> conns st' x = conns st x) \<and>
    cn_remote_seq (conns st' c) = f_beui32 (seqno (tcp p)) + 1 \<and> cn_local_seq (conns st' c) = f_beui32 (ackno (tcp p)) \<and>
    flow_added e (fp (sp_tas st)) (fp (sp_tas st')) f
      (conn_add_params (conns st' c) (cn_local_seq (conns st' c)) (case so_ws opts of None \<Rightarrow> 0 | Some w \<Rightarrow> opt_wscale p w)) \<and>
    table_ok (se_crc e) (fp (sp_tas st')) (flowids st') free \<and>
    seg_queued e st ms st' (ctl_bytes e (ctl_of (conns st' c)) TCP_ACK True (opt_ts_val p ts) 0) \<and>
    opened_event (shm (sp_tas st')) (kout_entry st (cn_ctx (conns st c))) (conns st' c)"
proof -
  note pf = packet_for_conn [OF p(1)]
  define st1 where "st1 = mod_conn st c (\<lambda>x. x\<lparr>cn_fn_core := core, cn_flow_group := grp\<rparr>)"
  have c1: "conns st1 c = (conns st c)\<lparr>cn_fn_core := core, cn_flow_group := grp\<rparr>" "sp_tas st1 = sp_tas st" "timeout_mgr st1 = timeout_mgr st"
    "ctx_objs st1 = ctx_objs st" "flowids st1 = flowids st" "tcp_hashtable st1 = tcp_hashtable st"
    by (simp_all add: st1_def)
  have ctx: "cn_ctx (conns st1 c) = cn_ctx (conns st c)"
    by (simp add: c1)
  have k1: "kout_ready e st1 (cn_ctx (conns st1 c))" "kout_entry st1 (cn_ctx (conns st1 c)) = kout_entry st (cn_ctx (conns st c))"
    unfolding ctx by (rule kout_ready_cong [OF k]; simp add: c1)+
  have f1: "flow_room e st1 f free (conn_add_params (conns st1 c) 0 0)"
    by (rule flow_room_cong [OF f]) (simp_all add: c1 conn_tuple_params)
  have s1: "can_send e st1 ms" and A1: "to_armed_map (timeout_mgr st1) A" "to_armed (conns st1 c)"
    using s A by (simp_all add: can_send_def c1)
  obtain st' where st': "conn_syn_sent_packet e st1 c p opts = Some (Inr (0, st'))"
    "to_armed_map (timeout_mgr st') (A(conn_to c := None))" "\<And>x. x \<noteq> c \<Longrightarrow> conns st' x = conns st1 x"
    "cn_status (conns st' c) = CONN_OPEN" "cn_flow_id (conns st' c) = f" "\<not> to_armed (conns st' c)"
    "cn_remote_seq (conns st' c) = f_beui32 (seqno (tcp p)) + 1" "cn_local_seq (conns st' c) = f_beui32 (ackno (tcp p))"
    "cn_flags (conns st' c) = (if TCPH_FLAGS (tcp p) AND (TCP_ECE OR TCP_CWR) = TCP_ECE then cn_flags (conns st1 c) OR NICIF_CONN_ECN else cn_flags (conns st1 c))"
    "flow_added e (fp (sp_tas st1)) (fp (sp_tas st')) f
      (conn_add_params (conns st' c) (cn_local_seq (conns st' c)) (case so_ws opts of None \<Rightarrow> 0 | Some w \<Rightarrow> opt_wscale p w))"
    "table_ok (se_crc e) (fp (sp_tas st')) (flowids st') free"
    "seg_queued e st1 ms st' (ctl_bytes e (ctl_of (conns st' c)) TCP_ACK True (opt_ts_val p ts) 0)"
    "opened_event (shm (sp_tas st')) (kout_entry st1 (cn_ctx (conns st1 c))) (conns st' c)"
    "ht_next (conns st' c) = ht_next (conns st1 c)" "tcp_hashtable st' = tcp_hashtable st1" "conn_bucket e (conns st' c) = conn_bucket e (conns st1 c)"
    "cn_local_ip (conns st' c) = cn_local_ip (conns st1 c)"
    by (rule conn_syn_sent_packet_ok [OF s1 A1(1) A(2) A1(2) k1(1) cc p(2,3) f1]) (rule that; assumption)
  have "conn_packet e st c p opts core grp = Some (Inr st')"
    using c st'(1) by (simp add: conn_packet_def st1_def [symmetric])
  then have run: "tcp_packet e st p len core grp = Some (Inr (0, st'))"
    unfolding pf(1) by simp
  have o: "conns st' x = conns st x" if "x \<noteq> c" for x
    using st'(3) [OF that] that by (simp add: st1_def)
  have "conns_hold e st' cs"
  proof (rule conns_hold_cong [of e st])
    have same: "conn_bucket e (conns st1 c) = conn_bucket e (conns st c)" "ht_next (conns st1 c) = ht_next (conns st c)"
      "cn_local_ip (conns st1 c) = cn_local_ip (conns st c)"
      by (simp_all add: c1 conn_bucket_def)
    show "ht_next (conns st' x) = ht_next (conns st x) \<and> conn_bucket e (conns st' x) = conn_bucket e (conns st x) \<and>
        cn_local_ip (conns st' x) = cn_local_ip (conns st x)" for x
      using st'(14,16,17) same o [of x] by (cases "x = c") simp_all
  qed (use p(1) st'(15) in \<open>simp_all add: packet_for_def c1\<close>)
  moreover have "seg_queued e st ms st' (ctl_bytes e (ctl_of (conns st' c)) TCP_ACK True (opt_ts_val p ts) 0)"
    using st'(12) by (simp add: seg_queued_def c1)
  ultimately show ?thesis
    using run st' o unfolding k1(2) c1(2) by (intro exI [of _ st']) simp
qed

text \<open>
  C13: Any other packet ends the attempt.  If a packet for a connection that waits for a SYN-ACK is
  not one, or lacks the timestamp option, the connection fails: its timer is disarmed, it is
  taken out of the table, its buffers are returned, and the application is told.  The port stays
  taken.
\<close>

theorem tcp_packet_refused:
  assumes p: "packet_for e st cs p len opts c"
      "TCPH_FLAGS (tcp p) AND (TCP_SYN OR TCP_ACK) \<noteq> TCP_SYN OR TCP_ACK \<or> so_ts opts = None"
    and c: "cn_status (conns st c) = CONN_SYN_SENT"
    and A: "to_armed_map (timeout_mgr st) A" "A (conn_to c) \<noteq> None" "to_armed (conns st c)"
    and k: "kout_ready e st (cn_ctx (conns st c))"
  shows "\<exists>st'. tcp_packet e st p len core grp = Some (Inr (0, st')) \<and> conns_hold e st' (remove1 c cs) \<and>
    cn_status (conns st' c) = CONN_FAILED \<and> to_armed_map (timeout_mgr st') (A(conn_to c := None)) \<and>
    failed_event (shm (sp_tas st')) (kout_entry st (cn_ctx (conns st c))) (cn_opaque (conns st c)) (-1) \<and>
    pm_free st' = packetmem_free (cn_rx_handle (conns st c)) (packetmem_free (cn_tx_handle (conns st c)) (pm_free st)) \<and> ports st' = ports st"
proof -
  note pf = packet_for_conn [OF p(1)]
  define st1 where "st1 = mod_conn st c (\<lambda>x. x\<lparr>cn_fn_core := core, cn_flow_group := grp\<rparr>)"
  have c1: "conns st1 = (conns st)(c := (conns st c)\<lparr>cn_fn_core := core, cn_flow_group := grp\<rparr>)" "timeout_mgr st1 = timeout_mgr st"
    by (simp_all add: st1_def)
  obtain m where m: "conn_timeout_disarm st1 c = Inr (st1\<lparr>conns := (conns st1)(c := (conns st1 c)\<lparr>to_armed := False\<rparr>), timeout_mgr := m\<rparr>)"
    "to_armed_map m (A(conn_to c := None))"
    by (rule conn_timeout_disarm_ok [of st1 A c]) (use A in \<open>simp_all add: c1\<close>)
  define st2 where "st2 = st1\<lparr>conns := (conns st1)(c := (conns st1 c)\<lparr>to_armed := False\<rparr>), timeout_mgr := m\<rparr>"
  have c2: "conns st2 = (conns st)(c := (conns st c)\<lparr>cn_fn_core := core, cn_flow_group := grp, to_armed := False\<rparr>)" "timeout_mgr st2 = m"
    "sp_tas st2 = sp_tas st" "ctx_objs st2 = ctx_objs st" "pm_free st2 = pm_free st" "ports st2 = ports st" "tcp_hashtable st2 = tcp_hashtable st"
    by (simp_all add: st2_def st1_def)
  have ctx: "cn_ctx (conns st2 c) = cn_ctx (conns st c)"
    by (simp add: c2)
  have r: "conn_syn_sent_packet e st1 c p opts = Some (Inr (-1, st2))"
    using m(1) p(2) by (auto simp: conn_syn_sent_packet_def st2_def split: option.splits)
  have h2: "conns_hold e st2 cs"
    by (rule conns_hold_cong [of e st]) (use p(1) in \<open>auto simp: packet_for_def c2 conn_bucket_def\<close>)
  have k2: "kout_ready e st2 (cn_ctx (conns st2 c))" "kout_entry st2 (cn_ctx (conns st2 c)) = kout_entry st (cn_ctx (conns st c))"
    unfolding ctx by (rule kout_ready_cong [OF k]; simp add: c2)+
  have A2: "to_armed_map (timeout_mgr st2) (A(conn_to c := None))" "to_armed (conns st2 c) \<longleftrightarrow> (A(conn_to c := None)) (conn_to c) \<noteq> None"
    using m(2) by (simp_all add: c2)
  obtain st' where st': "conn_failed e st2 c (-1) = Some (Inr st')" "conns_hold e st' (remove1 c cs)" "cn_status (conns st' c) = CONN_FAILED"
    "to_armed_map (timeout_mgr st') ((A(conn_to c := None))(conn_to c := None))"
    "failed_event (shm (sp_tas st')) (kout_entry st2 (cn_ctx (conns st2 c))) (cn_opaque (conns st2 c)) (-1)"
    "pm_free st' = packetmem_free (cn_rx_handle (conns st2 c)) (packetmem_free (cn_tx_handle (conns st2 c)) (pm_free st2))" "ports st' = ports st2"
    by (rule conn_failed_ok [OF h2 pf(2) A2 k2(1), of "-1"]) simp
  have "conn_packet e st c p opts core grp = Some (Inr st')"
    using c r st'(1) by (simp add: conn_packet_def st1_def [symmetric])
  then show ?thesis
    using st' unfolding pf(1) k2(2) by (intro exI [of _ st']) (simp add: c2)
qed

section \<open>Time-outs\<close>

lemma conn_update_value:
  "to_attempts_update f r = r\<lparr>to_attempts := f (to_attempts r)\<rparr>" "cn_timeout_update g r = r\<lparr>cn_timeout := g (cn_timeout r)\<rparr>" for r :: connection
  by (cases r; simp)+

text \<open>The timer has fired and the connection has attempts left.\<close>

lemma handshake_again:
  fixes e :: slow_env and st :: slowpath and c :: u64 and n :: u32
  assumes h: "conns_hold e st cs" and A: "to_armed_map (timeout_mgr st) A" "A (conn_to c) = None" "conn_to c \<noteq> 0" and a: "to_armed (conns st c)"
    and t: "0 < cn_timeout (conns st c) * 2" "cn_timeout (conns st c) * 2 \<le> 0x4000000" and s: "can_send e st ms"
  defines "st2 \<equiv> mod_conn st c (\<lambda>x. x\<lparr>to_armed := False, to_attempts := n, cn_timeout := cn_timeout x * 2\<rparr>)"
  obtains st' where "bind_run (conn_timeout_arm e st2 c) (\<lambda>st.
      bind_run (Some (send_control e st c SYN_FLAGS True 0 TCP_MSS)) (\<lambda>(_, st). Some (Inr st))) = Some (Inr st')"
    "conns_hold e st' cs" "to_armed_map (timeout_mgr st') (A(conn_to c \<mapsto> TO_TCP_HANDSHAKE))"
    "conns st' = (conns st)(c := (conns st c)\<lparr>to_attempts := n, cn_timeout := cn_timeout (conns st c) * 2\<rparr>)"
    "sent e st ms st' (ctl_bytes e (ctl_of (conns st c)) SYN_FLAGS True 0 TCP_MSS)"
    "due_around e (timeout_mgr st) (conn_to c) (cn_timeout (conns st c) * 2) (timeout_mgr st')"
proof -
  have c2: "conns st2 = (conns st)(c := (conns st c)\<lparr>to_armed := False, to_attempts := n, cn_timeout := cn_timeout (conns st c) * 2\<rparr>)"
    "sp_tas st2 = sp_tas st" "timeout_mgr st2 = timeout_mgr st" "tcp_hashtable st2 = tcp_hashtable st"
    by (simp_all add: st2_def)
  obtain m g where m: "conn_timeout_arm e st2 c =
      Some (Inr (st2\<lparr>conns := (conns st2)(c := (conns st2 c)\<lparr>to_armed := True\<rparr>), tcp_rng := g, timeout_mgr := m\<rparr>))"
    "to_armed_map m (A(conn_to c \<mapsto> TO_TCP_HANDSHAKE))" "due_around e (timeout_mgr st) (conn_to c) (cn_timeout (conns st c) * 2) m"
    by (rule conn_timeout_arm_ok [of st2 A c e]) (use A t in \<open>simp_all add: c2\<close>)
  define st3 where "st3 = st2\<lparr>conns := (conns st2)(c := (conns st2 c)\<lparr>to_armed := True\<rparr>), tcp_rng := g, timeout_mgr := m\<rparr>"
  have c3: "conns st3 = (conns st)(c := (conns st c)\<lparr>to_attempts := n, cn_timeout := cn_timeout (conns st c) * 2\<rparr>)"
    "sp_tas st3 = sp_tas st" "timeout_mgr st3 = m" "tcp_hashtable st3 = tcp_hashtable st"
    using a by (cases "conns st c", simp_all add: st3_def c2)
  obtain r u where u: "send_control e st3 c SYN_FLAGS True 0 TCP_MSS = Inr (r, st3\<lparr>sp_tas := u\<rparr>)"
    "sent e st3 ms (st3\<lparr>sp_tas := u\<rparr>) (ctl_bytes e (ctl_of (conns st3 c)) SYN_FLAGS True 0 TCP_MSS)"
    using send_control_sends [of e st3 ms c SYN_FLAGS True 0 TCP_MSS] s c3(2) by (metis can_send_def)
  define st4 where "st4 = st3\<lparr>sp_tas := u\<rparr>"
  have "conns_hold e st4 cs"
    by (rule conns_hold_cong [OF h]) (auto simp: st4_def c3 conn_bucket_def)
  moreover have "ctl_of (conns st3 c) = ctl_of (conns st c)"
    by (simp add: c3 ctl_of_def)
  then have "sent e st ms st4 (ctl_bytes e (ctl_of (conns st c)) SYN_FLAGS True 0 TCP_MSS)"
    using sent_cong [OF u(2) c3(2), of st4] by (simp add: st4_def)
  ultimately show thesis
    using m u(1) by (intro that [of st4]) (simp_all add: st3_def [symmetric] st4_def c3)
qed

text \<open>
  C6: The handshake timer.  When it fires before the connection is established, the SYN is sent again
  and the time-out doubled: the timer is armed again and becomes due after a random time between one half
  and three halves of the doubled time, while no other timer moves.  This goes on until the configured
  number of attempts is used up; then the connection fails, is taken out of the table, and the application
  is told.  The doubled time must stay within the range of the timers, \<open>2\<^sup>26\<close> microseconds.
\<close>

theorem tcp_timeout_handshake:
  assumes h: "conns_hold e st cs" "c \<in> set cs" and c: "cn_status (conns st c) = CONN_SYN_SENT" "to_armed (conns st c)"
    and A: "to_armed_map (timeout_mgr st) A" "A (conn_to c) = None" "conn_to c \<noteq> 0"
    and t: "0 < cn_timeout (conns st c) * 2" "cn_timeout (conns st c) * 2 \<le> 0x4000000"
    and s: "can_send e st ms" and k: "kout_ready e st (cn_ctx (conns st c))"
  shows "\<exists>st'. tcp_timeout e st (conn_to c) TO_TCP_HANDSHAKE = Some (Inr st') \<and>
    (if to_attempts (conns st c) + 1 > tcp_handshake_retries (se_cfg e)
     then conns_hold e st' (remove1 c cs) \<and> cn_status (conns st' c) = CONN_FAILED \<and> to_armed_map (timeout_mgr st') A \<and>
       failed_event (shm (sp_tas st')) (kout_entry st (cn_ctx (conns st c))) (cn_opaque (conns st c)) (-1)
     else conns_hold e st' cs \<and> to_armed_map (timeout_mgr st') (A(conn_to c \<mapsto> TO_TCP_HANDSHAKE)) \<and>
       conns st' = (conns st)(c := (conns st c)\<lparr>to_attempts := to_attempts (conns st c) + 1, cn_timeout := cn_timeout (conns st c) * 2\<rparr>) \<and>
       due_around e (timeout_mgr st) (conn_to c) (cn_timeout (conns st c) * 2) (timeout_mgr st') \<and>
       sent e st ms st' (ctl_bytes e (ctl_of (conns st c)) SYN_FLAGS True 0 TCP_MSS))"
proof -
  define st1 where "st1 = mod_conn (mod_conn st c (to_armed_update (\<lambda>_. False))) c (to_attempts_update (\<lambda>n. n + 1))"
  have c1: "conns st1 = (conns st)(c := (conns st c)\<lparr>to_armed := False, to_attempts := to_attempts (conns st c) + 1\<rparr>)" "sp_tas st1 = sp_tas st"
    "timeout_mgr st1 = timeout_mgr st" "ctx_objs st1 = ctx_objs st" "tcp_hashtable st1 = tcp_hashtable st"
    by (simp_all add: st1_def conn_update_value(1) [of "\<lambda>n. n + 1"])
  let ?st2 = "mod_conn st c (\<lambda>x. x\<lparr>to_armed := False, to_attempts := to_attempts (conns st c) + 1, cn_timeout := cn_timeout x * 2\<rparr>)"
  have "mod_conn st1 c (cn_timeout_update (\<lambda>t. t * 2)) = ?st2"
    by (simp add: st1_def mod_conn_conns conn_update_value(1) [of "\<lambda>n. n + 1"] conn_update_value(2) [of "\<lambda>t. t * 2"])
  then have run: "tcp_timeout e st (conn_to c) TO_TCP_HANDSHAKE =
      (if to_attempts (conns st c) + 1 > tcp_handshake_retries (se_cfg e) then conn_failed e st1 c (-1)
       else bind_run (conn_timeout_arm e ?st2 c) (\<lambda>st.
         bind_run (Some (send_control e st c SYN_FLAGS True 0 TCP_MSS)) (\<lambda>(_, st). Some (Inr st))))"
    unfolding tcp_timeout_def Let_def st1_def [symmetric] using c c1(1) by (simp add: st1_def [symmetric])
  show ?thesis
  proof (cases "to_attempts (conns st c) + 1 > tcp_handshake_retries (se_cfg e)")
    case True
    have h1: "conns_hold e st1 cs"
      by (rule conns_hold_cong [OF h(1)]) (auto simp: c1 conn_bucket_def)
    have ctx: "cn_ctx (conns st1 c) = cn_ctx (conns st c)"
      by (simp add: c1)
    have k1: "kout_ready e st1 (cn_ctx (conns st1 c))" "kout_entry st1 (cn_ctx (conns st1 c)) = kout_entry st (cn_ctx (conns st c))"
      unfolding ctx by (rule kout_ready_cong [OF k]; simp add: c1)+
    have A1: "to_armed_map (timeout_mgr st1) A" "to_armed (conns st1 c) \<longleftrightarrow> A (conn_to c) \<noteq> None"
      using A by (simp_all add: c1)
    obtain st' where st': "conn_failed e st1 c (-1) = Some (Inr st')" "conns_hold e st' (remove1 c cs)" "cn_status (conns st' c) = CONN_FAILED"
      "to_armed_map (timeout_mgr st') (A(conn_to c := None))"
      "failed_event (shm (sp_tas st')) (kout_entry st1 (cn_ctx (conns st1 c))) (cn_opaque (conns st1 c)) (-1)"
      by (rule conn_failed_ok [OF h1 h(2) A1 k1(1), of "-1"]) simp
    moreover have "A(conn_to c := None) = A"
      using A(2) by auto
    ultimately show ?thesis
      using True run unfolding k1(2) by (simp add: c1)
  next
    case False
    then show ?thesis
      using handshake_again [OF h(1) A c(2) t s, of "to_attempts (conns st c) + 1"] unfolding run by (metis (no_types, lifting))
  qed
qed

section \<open>A connection in the middle of its handshake\<close>

definition demo_syn_conn :: connection where
  "demo_syn_conn = demo_cn\<lparr>cn_opaque := 77, cn_status := CONN_SYN_SENT, cn_timeout := 10000, to_armed := True\<rparr>"

definition demo_tcp :: "timeout_manager \<Rightarrow> slowpath" where
  "demo_tcp m = (demo_slow m)\<lparr>conns := (\<lambda>_. demo_syn_conn), tcp_hashtable := (\<lambda>_. 0)(0 := 64),
     ctx_objs := (\<lambda>_. \<lparr>cx_app = 0, kin_base = 0, kin_len = 0, kin_pos = 0, kout_base = 61440, kout_len = 64, kout_pos = 0, doorbell_id = 0,
       cx_evfd = 9, cx_last_ts = 0, cx_next = 0\<rparr>),
     app_objs := (\<lambda>_. \<lparr>app_contexts = 0, app_conns = 64, app_listeners = 0\<rparr>)\<rparr>"

lemma demo_tcp_simps [simp]:
  "conns (demo_tcp m) c = demo_syn_conn" "sp_tas (demo_tcp m) = demo_tas" "timeout_mgr (demo_tcp m) = m" "tcp_hashtable (demo_tcp m) = (\<lambda>_. 0)(0 := 64)"
  "flowids (demo_tcp m) = demo_ids" "app_conns (app_objs (demo_tcp m) a) = 64" "ports (demo_tcp m) = (\<lambda>_. 0)"
  "pm_free (demo_tcp m) = [\<lparr>ph_base = 0, ph_len = 65536\<rparr>]"
  by (simp_all add: demo_tcp_def) (simp_all add: demo_slow_def cc_state.defs slowpath.defs demo_cc_def)

lemma demo_tcp_conn [simp]:
  "cn_status demo_syn_conn = CONN_SYN_SENT" "to_armed demo_syn_conn" "cn_opaque demo_syn_conn = 77" "ht_next demo_syn_conn = 0" "app_next demo_syn_conn = 0"
  "cn_timeout demo_syn_conn = 10000" "to_attempts demo_syn_conn = 0" "cn_ctx demo_syn_conn = 0" "cn_local_ip demo_syn_conn = 0x0A000001"
  "cn_rx_handle demo_syn_conn = \<lparr>ph_base = 0, ph_len = 0\<rparr>" "cn_tx_handle demo_syn_conn = \<lparr>ph_base = 0, ph_len = 0\<rparr>"
  "cn_flow_id demo_syn_conn = 0" "cn_local_port demo_syn_conn = 9000"
  by (simp_all add: demo_syn_conn_def demo_cn_def)

lemma demo_bucket: "conn_bucket demo_senv c = 0"
  by (simp add: conn_bucket_def conn_hash_def demo_env_def)

lemma demo_conns_hold: "conns_hold demo_senv (demo_tcp m) [64]"
  by (simp add: conns_hold_def conn_table_def to_local_def demo_bucket)

lemma demo_can_send: "can_send demo_senv (demo_tcp m) []"
  by (simp add: can_send_def demo_outbox)

lemma demo_entry: "kout_entry (demo_tcp m) ctx = 61440"
  by (simp add: kout_entry_def demo_tcp_def entry_addr_def)

lemma demo_entry_apart:
  assumes "unat (x - 61440) < 128"
  shows "off_queue demo_tas x"
proof -
  define d where "d = unat (x - 61440)"
  have d: "d < 128" and x: "x = of_nat (61440 + d)"
    using assms by (simp_all add: d_def)
  have "unat (x - 32768) = 28672 + d"
  proof -
    have "x - 32768 = of_nat (28672 + d)"
      by (simp add: x)
    then show ?thesis
      using d by (simp only:) (subst unat_of_nat, simp)
  qed
  moreover have "1536 \<le> unat (x - (47104 + 1536 * ucast i))" if "i < 4" for i :: u32
  proof -
    have i: "unat i < 4"
      using that by (simp add: word_less_nat_alt)
    have "47104 + 1536 * ucast i = (of_nat (47104 + 1536 * unat i) :: u64)"
      by simp
    then have "x - (47104 + 1536 * ucast i) = of_nat (61440 + d - (47104 + 1536 * unat i))"
      using i unfolding x by (subst of_nat_diff) simp_all
    also have "61440 + d - (47104 + 1536 * unat i) = 14336 + d - 1536 * unat i"
      by simp
    finally have "unat (x - (47104 + 1536 * ucast i)) = 14336 + d - 1536 * unat i"
      using d by (simp only:) (subst unat_of_nat, simp)
    then show ?thesis
      using i by simp
  qed
  ultimately show ?thesis
    by (simp add: off_queue_def)
qed

lemma demo_kout: "kout_ready demo_senv (demo_tcp m) ctx"
  using demo_entry_apart by (simp add: kout_ready_def kout_room_def demo_entry mem_view_def) (simp add: demo_tcp_def)

lemma demo_handshake: "\<exists>m. to_armed_map m ((\<lambda>_. None)(conn_to 64 \<mapsto> TO_TCP_HANDSHAKE))"
  using util_timers.arm_law [OF demo_timers, of "conn_to 64" 500 TO_TCP_HANDSHAKE 0 1] by auto

lemma demo_flow_room: "flow_room demo_senv (demo_tcp m) 0 (map of_nat [1..<FLEXNIC_PL_FLOWST_NUM]) cp"
proof -
  have h: "se_crc demo_senv = flow_hash demo_env"
    by (simp add: demo_senv_def flow_hash_def demo_env_def fun_eq_iff)
  have f: "flowht (fp demo_tas) = flowht demo_st" "flowst (fp demo_tas) = flowst demo_st"
    by (simp_all add: demo_tas_def)
  have "table_ok (se_crc demo_senv) (fp demo_tas) demo_ids (0 # map of_nat [1..<FLEXNIC_PL_FLOWST_NUM])"
    using table_ok_cong [OF demo_st_ok f(2,1)] by blast
  moreover have "\<not> registered (se_crc demo_senv) (fp demo_tas) g" for g
    by (simp add: registered_def has_entry_def f demo_st_empty)
  moreover have "\<exists>k<4. \<not> hte_valid (flowht (fp demo_tas) (slot (tuple_hash (se_crc demo_senv) (conn_tuple cp)) k))"
    by (rule exI [of _ 0]) (simp add: f demo_st_empty)
  ultimately show ?thesis
    by (simp only: flow_room_def h demo_tcp_simps demo_senv_simps demo_tas_simps) simp
qed

text \<open>A segment of the peer.\<close>

definition demo_seg :: "u16 \<Rightarrow> pkt_tcp" where
  "demo_seg flags = ctl_pkt (demo_senv\<lparr>se_cfg := demo_cfg\<lparr>cfg_ip := 0x0A000002\<rparr>\<rparr>)
     \<lparr>ct_remote_mac = 0, ct_remote_ip = 0x0A000001, ct_remote_port = 9000, ct_local_port = 80, ct_local_seq = 500, ct_remote_seq = 1\<rparr> flags True 0 0"

lemma demo_packet_for:
  assumes "flags AND TCP_FLAGS = flags"
  shows "packet_for demo_senv (demo_tcp m) [64] (demo_seg flags) (of_nat (54 + ctl_optlen flags True 0)) (sent_opts flags True 0) 64"
proof -
  have "sizeof_pkt_tcp \<le> unat (of_nat (54 + ctl_optlen flags True 0) :: u16)"
    by (simp add: ctl_optlen_cases)
  moreover have "conn_matches (demo_seg flags) demo_syn_conn"
    by (simp add: conn_matches_def demo_seg_def ctl_pkt_ip ctl_pkt_tcp [OF assms]) (simp add: demo_syn_conn_def demo_cn_def)
  ultimately show ?thesis
    using parse_ctl_pkt [OF assms] demo_conns_hold by (simp add: packet_for_def demo_seg_def ctl_pkt_ip)
qed

theorem tcp_packet_synack_witness:
  "\<exists>m st'. tcp_packet demo_senv (demo_tcp m) (demo_seg (TCP_SYN OR TCP_ACK)) (of_nat (54 + ctl_optlen (TCP_SYN OR TCP_ACK) True 0)) 0 0 = Some (Inr (0, st')) \<and>
     cn_status (conns st' 64) = CONN_OPEN \<and> cn_remote_seq (conns st' 64) = 501 \<and> opened_event (shm (sp_tas st')) 61440 (conns st' 64)"
proof -
  let ?fl = "TCP_SYN OR TCP_ACK :: u16"
  have fl: "?fl AND TCP_FLAGS = ?fl"
    by simp
  obtain m where m: "to_armed_map m ((\<lambda>_. None)(conn_to 64 \<mapsto> TO_TCP_HANDSHAKE))"
    using demo_handshake by blast
  have p: "TCPH_FLAGS (tcp (demo_seg ?fl)) = ?fl" "f_beui32 (seqno (tcp (demo_seg ?fl))) = 500"
    unfolding demo_seg_def ctl_pkt_tcp [OF fl] by simp_all
  have ts: "so_ts (sent_opts ?fl True 0) = Some 0"
    by (simp add: sent_opts_def)
  have A: "to_armed_map (timeout_mgr (demo_tcp m)) ((\<lambda>_. None)(conn_to 64 \<mapsto> TO_TCP_HANDSHAKE))" "((\<lambda>_. None)(conn_to 64 \<mapsto> TO_TCP_HANDSHAKE)) (conn_to 64) \<noteq> None"
    "to_armed (conns (demo_tcp m) 64)" "cn_status (conns (demo_tcp m) 64) = CONN_SYN_SENT" "cc_init_ok (se_cfg demo_senv)"
    using m by (simp_all add: cc_init_ok_def demo_cfg_def)
  obtain st' where st': "tcp_packet demo_senv (demo_tcp m) (demo_seg ?fl) (of_nat (54 + ctl_optlen ?fl True 0)) 0 0 = Some (Inr (0, st'))"
    "cn_status (conns st' 64) = CONN_OPEN" "cn_remote_seq (conns st' 64) = f_beui32 (seqno (tcp (demo_seg ?fl))) + 1"
    "opened_event (shm (sp_tas st')) (kout_entry (demo_tcp m) (cn_ctx (conns (demo_tcp m) 64))) (conns st' 64)"
    using tcp_packet_synack [OF demo_packet_for [OF fl] _ ts A(4) demo_can_send A(1-3) demo_kout A(5) demo_flow_room, of 0 0] p(1) by auto
  then show ?thesis
    unfolding p(2) demo_entry by auto
qed

theorem tcp_packet_refused_witness:
  "\<exists>m st'. tcp_packet demo_senv (demo_tcp m) (demo_seg TCP_RST) (of_nat (54 + ctl_optlen TCP_RST True 0)) 0 0 = Some (Inr (0, st')) \<and>
     cn_status (conns st' 64) = CONN_FAILED \<and> conns_hold demo_senv st' [] \<and> failed_event (shm (sp_tas st')) 61440 77 (-1)"
proof -
  obtain m where m: "to_armed_map m ((\<lambda>_. None)(conn_to 64 \<mapsto> TO_TCP_HANDSHAKE))"
    using demo_handshake by blast
  have fl: "TCP_RST AND TCP_FLAGS = TCP_RST"
    by simp
  have p: "TCPH_FLAGS (tcp (demo_seg TCP_RST)) = TCP_RST"
    unfolding demo_seg_def ctl_pkt_tcp [OF fl] by simp
  have A: "to_armed_map (timeout_mgr (demo_tcp m)) ((\<lambda>_. None)(conn_to 64 \<mapsto> TO_TCP_HANDSHAKE))" "((\<lambda>_. None)(conn_to 64 \<mapsto> TO_TCP_HANDSHAKE)) (conn_to 64) \<noteq> None"
    "to_armed (conns (demo_tcp m) 64)" "cn_status (conns (demo_tcp m) 64) = CONN_SYN_SENT"
    using m by simp_all
  show ?thesis
    using tcp_packet_refused [OF demo_packet_for [OF fl] _ A(4,1-3) demo_kout, of 0 0] p unfolding demo_entry by auto
qed

theorem tcp_timeout_handshake_witness:
  "\<exists>st'. tcp_timeout demo_senv (demo_tcp demo_mgr) (conn_to 64) TO_TCP_HANDSHAKE = Some (Inr st') \<and>
     conns_hold demo_senv st' [64] \<and> cn_timeout (conns st' 64) = 20000 \<and> to_armed_map (timeout_mgr st') ((\<lambda>_. None)(conn_to 64 \<mapsto> TO_TCP_HANDSHAKE))"
proof -
  have A: "to_armed_map (timeout_mgr (demo_tcp demo_mgr)) (\<lambda>_. None)" "64 \<in> set [64 :: u64]"
    using demo_timers by simp_all
  have r: "\<not> to_attempts (conns (demo_tcp demo_mgr) 64) + 1 > tcp_handshake_retries (se_cfg demo_senv)"
    by (simp add: demo_cfg_def)
  from tcp_timeout_handshake [OF demo_conns_hold A(2) _ _ A(1) _ _ _ _ demo_can_send demo_kout] r show ?thesis
    by auto
qed

end
