(* ===== verification/Tcp_Close.thy ===== *)
theory Tcp_Close
  imports Tcp_Conn
begin

text \<open>
  The end of a connection: closing takes it off the fast path, and when the time in which segments may
  still arrive is over everything it has is given back.
\<close>

unbundle bit_operations_syntax

section \<open>The connections of an application\<close>

definition app_list :: "slowpath \<Rightarrow> u64 \<Rightarrow> u64 list \<Rightarrow> bool" where
  "app_list st app xs \<longleftrightarrow> path 0 (\<lambda>c. app_next (conns st c)) (app_conns (app_objs st app)) xs \<and> distinct xs"

lemma app_unlink_ok:
  assumes l: "app_list st app xs" and c: "c \<in> set xs"
  obtains st' where "app_unlink st app c = Some (Inr st')" "app_list st' app (remove1 c xs)"
    "st' = st\<lparr>conns := conns st', app_objs := app_objs st'\<rparr>" "\<And>x. (conns st' x)\<lparr>app_next := 0\<rparr> = (conns st x)\<lparr>app_next := 0\<rparr>"
proof -
  let ?n = "\<lambda>c. app_next (conns st c)" and ?h = "app_conns (app_objs st app)"
  have p: "path 0 ?n ?h xs" "distinct xs"
    using l by (simp_all add: app_list_def)
  obtain as bs where xs: "xs = as @ c # bs"
    using split_list [OF c] by blast
  have r: "remove1 c xs = as @ bs"
    using p(2) by (simp add: xs remove1_append)
  show thesis
  proof (cases "as = []")
    case True
    let ?st = "mod_app st app (app_conns_update (\<lambda>_. ?n c))"
    have "app_unlink st app c = Some (Inr ?st)"
      using p(1) by (simp add: app_unlink_def xs True)
    moreover have "app_list ?st app (remove1 c xs)"
      using p unfolding r by (simp add: app_list_def mod_app_def xs True)
    moreover have "?st = st\<lparr>conns := conns ?st, app_objs := app_objs ?st\<rparr>"
      by (cases st) (simp add: mod_app_def)
    moreover have "conns ?st = conns st"
      by (simp add: mod_app_def)
    ultimately show thesis
      using that [of ?st] by simp
  next
    case False
    then obtain as' y where as: "as = as' @ [y]"
      by (metis rev_exhaust)
    have px: "path 0 ?n ?h (as' @ y # c # bs)" "distinct (as' @ y # c # bs)"
      using p by (simp_all add: xs as)
    have ne: "?h \<noteq> c" "y \<noteq> 0"
      using px path_inval [OF px(1)] by (cases as'; auto)+
    let ?st = "mod_conn st y (app_next_update (\<lambda>_. ?n c))"
    have "app_unlink st app c = Some (Inr ?st)"
      using ne prev_walk_path [OF px] by (simp add: app_unlink_def)
    moreover have n': "(\<lambda>d. app_next (conns ?st d)) = ?n(y := ?n c)"
      by auto
    have "app_list ?st app (remove1 c xs)"
      using path_remove [OF px] px(2) unfolding app_list_def n' r as by simp
    moreover have "?st = st\<lparr>conns := conns ?st, app_objs := app_objs ?st\<rparr>"
      by (cases st) (simp add: mod_conn_conns)
    ultimately show thesis
      using that [of ?st] by simp
  qed
qed

lemma app_list_cong:
  assumes "app_list st app xs" "app_conns (app_objs st' app) = app_conns (app_objs st app)" "\<And>x. app_next (conns st' x) = app_next (conns st x)"
  shows "app_list st' app xs"
  using assms by (simp add: app_list_def)

section \<open>The event\<close>

definition closed_writes :: "connection \<Rightarrow> writes" where
  "closed_writes c = [(0, appin_status_bytes (cn_opaque c) 0), (63, [KERNEL_APPIN_STATUS_CONN_CLOSE])]"

definition closed_event :: "mem \<Rightarrow> u64 \<Rightarrow> u64 \<Rightarrow> bool" where
  "closed_event m a op \<longleftrightarrow> mem_view m a 63 = KERNEL_APPIN_STATUS_CONN_CLOSE \<and> get_u64 (mem_view m a) 0 = op \<and> get_u32 (mem_view m a) 8 = 0"

lemma closed_writes_event: "closed_event (mem_puts m a (closed_writes c)) a (cn_opaque c)"
proof -
  let ?b = "puts_buf (mem_view m a) (closed_writes c)" and ?v = "mem_view (mem_puts m a (closed_writes c)) a"
  have v: "?v i = ?b i" if "i < 64" for i
    by (rule mem_view_puts) (use that in simp)
  have "disjoint_writes (closed_writes c)"
    by (simp add: closed_writes_def disjoint_writes_def appin_status_bytes_def)
  note h = has_bytes_written [OF this]
  have cv: "has_bytes ?v k bs" if "has_bytes ?b k bs" "k + length bs \<le> 64" for k bs
    by (rule has_bytes_cong [OF that(1)]) (use that(2) v in simp)
  have "has_bytes ?v 0 (appin_status_bytes (cn_opaque c) 0)" "has_bytes ?v 63 [1]"
    by (rule cv, rule h, simp add: closed_writes_def, simp add: appin_status_bytes_def)+
  then show ?thesis
    unfolding closed_event_def appin_status_bytes_def by (auto simp: has_bytes_append has_bytes_Cons dest: get_u64_bytes get_u32_bytes)
qed

lemma appif_conn_closed_ok:
  assumes k: "kout_ready e st (cn_ctx (conns st c))" and l: "app_list st (cx_app (ctx_objs st (cn_ctx (conns st c)))) xs" "c \<in> set xs"
  defines "app \<equiv> cx_app (ctx_objs st (cn_ctx (conns st c)))"
  obtains st' where "appif_conn_closed e st c 0 = Some (Inr st')" "app_list st' app (remove1 c xs)"
    "closed_event (shm (sp_tas st')) (kout_entry st (cn_ctx (conns st c))) (cn_opaque (conns st c))"
    "\<And>x. (conns st' x)\<lparr>app_next := 0\<rparr> = (conns st x)\<lparr>app_next := 0\<rparr>"
    "tcp_hashtable st' = tcp_hashtable st" "ports st' = ports st" "pm_free st' = pm_free st" "flowids st' = flowids st" "timeout_mgr st' = timeout_mgr st"
    "fp (sp_tas st') = (fp (sp_tas st))\<lparr>fp_shm := shm (sp_tas st')\<rparr>" "cc_conns st' = cc_conns st" "next_conn st' = next_conn st"
proof -
  let ?ctx = "cn_ctx (conns st c)"
  let ?ws = "[(0, appin_status_bytes (cn_opaque (conns st c)) 0)]"
  obtain w l where kv: "bind_res (kout_type e (kout_puts st ?ctx ?ws) ?ctx KERNEL_APPIN_STATUS_CONN_CLOSE) (\<lambda>st. Inr (kout_advance st ?ctx)) =
    Inr (st\<lparr>sp_tas := (set_shm (sp_tas st) (mem_puts (shm (sp_tas st)) (kout_entry st ?ctx) (?ws @ [(63, [KERNEL_APPIN_STATUS_CONN_CLOSE])])))
              \<lparr>evfd_writes := evfd_writes (sp_tas st) @ w\<rparr>,
            ctx_objs := (ctx_objs st)(?ctx := (ctx_objs st ?ctx)\<lparr>cx_last_ts := l, kout_pos := kout_next (ctx_objs st ?ctx)\<rparr>)\<rparr>)"
    using kout_event [of st ?ctx e ?ws KERNEL_APPIN_STATUS_CONN_CLOSE] k unfolding kout_ready_def by blast
  define st1 where "st1 = st\<lparr>sp_tas := (set_shm (sp_tas st) (mem_puts (shm (sp_tas st)) (kout_entry st ?ctx) (?ws @ [(63, [KERNEL_APPIN_STATUS_CONN_CLOSE])])))
              \<lparr>evfd_writes := evfd_writes (sp_tas st) @ w\<rparr>,
            ctx_objs := (ctx_objs st)(?ctx := (ctx_objs st ?ctx)\<lparr>cx_last_ts := l, kout_pos := kout_next (ctx_objs st ?ctx)\<rparr>)\<rparr>"
  obtain y where y: "kout_type e (kout_puts st ?ctx ?ws) ?ctx KERNEL_APPIN_STATUS_CONN_CLOSE = Inr y" "kout_advance y ?ctx = st1"
    using kv unfolding st1_def by (auto simp: bind_res_Inr)
  have "app_list st1 app xs"
    by (rule app_list_cong [OF assms(2) [folded app_def]]) (simp_all add: st1_def)
  then obtain st' where st': "app_unlink st1 app c = Some (Inr st')" "app_list st' app (remove1 c xs)"
    "st' = st1\<lparr>conns := conns st', app_objs := app_objs st'\<rparr>" "\<And>x. (conns st' x)\<lparr>app_next := 0\<rparr> = (conns st1 x)\<lparr>app_next := 0\<rparr>"
    using app_unlink_ok assms(3) by metis
  have "appif_conn_closed e st c 0 = app_unlink st1 app c"
    using k y unfolding appif_conn_closed_def Let_def app_def kout_ready_def by simp
  then have run: "appif_conn_closed e st c 0 = Some (Inr st')"
    using st'(1) by simp
  have f: "sp_tas st' = sp_tas st1" "tcp_hashtable st' = tcp_hashtable st" "ports st' = ports st" "pm_free st' = pm_free st" "flowids st' = flowids st"
    "timeout_mgr st' = timeout_mgr st" "cc_conns st' = cc_conns st" "next_conn st' = next_conn st"
    by (subst st'(3), simp add: st1_def)+
  have fpt: "fp (sp_tas st') = (fp (sp_tas st))\<lparr>fp_shm := shm (sp_tas st')\<rparr>"
    unfolding f(1) by (simp add: st1_def set_shm_def)
  have "closed_event (shm (sp_tas st')) (kout_entry st ?ctx) (cn_opaque (conns st c))"
    using closed_writes_event [of "shm (sp_tas st)" "kout_entry st ?ctx" "conns st c"] unfolding f(1) by (simp add: st1_def closed_writes_def set_shm_def)
  then show thesis
    using that [OF run st'(2)] st'(4) f fpt by (simp add: st1_def)
qed

section \<open>Giving back what a connection has\<close>

definition port_released :: "(u16 \<Rightarrow> u64) \<Rightarrow> u16 \<Rightarrow> u16 \<Rightarrow> u64" where
  "port_released ps lp = (if ps lp AND PORT_TYPE_MASK = PORT_TYPE_CONN then ps(lp := PORT_TYPE_UNUSED) else ps)"

lemma conn_close_timeout_run:
  fixes e :: slow_env and st st2 :: slowpath and c :: u64
  assumes u: "conn_unregister e (st\<lparr>ports := port_released (ports st) (cn_local_port (conns st c))\<rparr>) c = Some (Inr st2)"
  defines "st3 \<equiv> (conn_free st2 c)\<lparr>flowids := flow_id_free (flowids st2) (cn_flow_id (conns st2 c))\<rparr>"
  shows "conn_close_timeout e st c = appif_conn_closed e st3 c 0"
proof -
  let ?lp = "cn_local_port (conns st c)"
  have "st\<lparr>ports := ports st\<rparr> = st"
    by simp
  then have s: "(if ports st ?lp AND PORT_TYPE_MASK = PORT_TYPE_CONN then st\<lparr>ports := (ports st)(?lp := 0)\<rparr> else st) =
      st\<lparr>ports := port_released (ports st) ?lp\<rparr>"
    by (simp add: port_released_def)
  have "ports st2 = port_released (ports st) ?lp"
    by (subst conn_unregister_frame(1) [OF u]) simp
  then have "ports st2 ?lp AND PORT_TYPE_MASK \<noteq> PORT_TYPE_CONN"
    by (simp add: port_released_def)
  then show ?thesis
    unfolding conn_close_timeout_def Let_def s u bind_run_simps by (simp add: st3_def conn_free_def nicif_connection_free_def)
qed

text \<open>What is left of a connection after the time for late segments.\<close>

lemma conn_close_timeout_ok:
  assumes h: "conns_hold e st cs" "c \<in> set cs"
    and k: "kout_ready e st (cn_ctx (conns st c))" and l: "app_list st (cx_app (ctx_objs st (cn_ctx (conns st c)))) xs" "c \<in> set xs"
  obtains st' where "conn_close_timeout e st c = Some (Inr st')"
    "conns_hold e st' (remove1 c cs)" "app_list st' (cx_app (ctx_objs st (cn_ctx (conns st c)))) (remove1 c xs)"
    "pm_free st' = packetmem_free (cn_rx_handle (conns st c)) (packetmem_free (cn_tx_handle (conns st c)) (pm_free st))"
    "flowids st' = flow_id_free (flowids st) (cn_flow_id (conns st c))" "ports st' = port_released (ports st) (cn_local_port (conns st c))"
    "closed_event (shm (sp_tas st')) (kout_entry st (cn_ctx (conns st c))) (cn_opaque (conns st c))"
    "fp (sp_tas st') = (fp (sp_tas st))\<lparr>fp_shm := shm (sp_tas st')\<rparr>" "cc_conns st' = cc_conns st" "next_conn st' = next_conn st"
    "\<And>x. cc_next (conns st' x) = cc_next (conns st x)" "timeout_mgr st' = timeout_mgr st"
proof -
  let ?lp = "cn_local_port (conns st c)" and ?ctx = "cn_ctx (conns st c)"
  define st1 where "st1 = st\<lparr>ports := port_released (ports st) ?lp\<rparr>"
  have "conns_hold e st1 cs"
    by (rule conns_hold_cong [OF h(1)]) (simp_all add: st1_def)
  then obtain st2 where st2: "conn_unregister e st1 c = Some (Inr st2)" "conns_hold e st2 (remove1 c cs)"
    using conn_reg.unregister_law h(2) by blast
  note f2 = conn_unregister_frame [OF st2(1)]
  have g2: "sp_tas st2 = sp_tas st" "ctx_objs st2 = ctx_objs st" "app_objs st2 = app_objs st" "pm_free st2 = pm_free st" "flowids st2 = flowids st"
    "ports st2 = port_released (ports st) ?lp" "cc_conns st2 = cc_conns st" "next_conn st2 = next_conn st" "timeout_mgr st2 = timeout_mgr st"
    by (subst f2(1), simp add: st1_def)+
  have d2: "app_next (conns st2 x) = app_next (conns st x)" "cc_next (conns st2 x) = cc_next (conns st x)" "cn_ctx (conns st2 x) = cn_ctx (conns st x)"
    "cn_opaque (conns st2 x) = cn_opaque (conns st x)" "cn_flow_id (conns st2 x) = cn_flow_id (conns st x)"
    "cn_rx_handle (conns st2 x) = cn_rx_handle (conns st x)" "cn_tx_handle (conns st2 x) = cn_tx_handle (conns st x)" for x
    using arg_cong [OF f2(2) [of x], of app_next] arg_cong [OF f2(2) [of x], of cc_next] arg_cong [OF f2(2) [of x], of cn_ctx]
      arg_cong [OF f2(2) [of x], of cn_opaque] arg_cong [OF f2(2) [of x], of cn_flow_id]
      arg_cong [OF f2(2) [of x], of cn_rx_handle] arg_cong [OF f2(2) [of x], of cn_tx_handle] by (simp_all add: st1_def)
  define st3 where "st3 = (conn_free st2 c)\<lparr>flowids := flow_id_free (flowids st2) (cn_flow_id (conns st2 c))\<rparr>"
  have c3: "conns st3 = conns st2" "sp_tas st3 = sp_tas st" "ctx_objs st3 = ctx_objs st" "app_objs st3 = app_objs st"
    "tcp_hashtable st3 = tcp_hashtable st2" "cc_conns st3 = cc_conns st" "next_conn st3 = next_conn st" "timeout_mgr st3 = timeout_mgr st"
    using g2 by (simp_all add: st3_def conn_free_def)
  have ctx: "cn_ctx (conns st3 c) = ?ctx"
    using d2 c3 by simp
  have k3: "kout_ready e st3 (cn_ctx (conns st3 c))" "kout_entry st3 (cn_ctx (conns st3 c)) = kout_entry st ?ctx"
    unfolding ctx by (rule kout_ready_cong [OF k]; simp add: c3)+
  have l3: "app_list st3 (cx_app (ctx_objs st3 (cn_ctx (conns st3 c)))) xs"
    unfolding ctx c3(3) by (rule app_list_cong [OF l(1)]) (simp_all add: c3 d2)
  obtain st' where st': "appif_conn_closed e st3 c 0 = Some (Inr st')" "app_list st' (cx_app (ctx_objs st3 (cn_ctx (conns st3 c)))) (remove1 c xs)"
    "closed_event (shm (sp_tas st')) (kout_entry st3 (cn_ctx (conns st3 c))) (cn_opaque (conns st3 c))"
    "\<And>x. (conns st' x)\<lparr>app_next := 0\<rparr> = (conns st3 x)\<lparr>app_next := 0\<rparr>"
    "tcp_hashtable st' = tcp_hashtable st3" "ports st' = ports st3" "pm_free st' = pm_free st3" "flowids st' = flowids st3"
    "fp (sp_tas st') = (fp (sp_tas st3))\<lparr>fp_shm := shm (sp_tas st')\<rparr>" "cc_conns st' = cc_conns st3" "next_conn st' = next_conn st3"
    "timeout_mgr st' = timeout_mgr st3"
    by (rule appif_conn_closed_ok [OF k3(1) l3 l(2)]) (rule that; assumption)
  have x: "ht_next (conns st' x) = ht_next (conns st2 x)" "cc_next (conns st' x) = cc_next (conns st x)" "cn_local_ip (conns st' x) = cn_local_ip (conns st2 x)"
    "conn_bucket e (conns st' x) = conn_bucket e (conns st2 x)" for x
    using arg_cong [OF st'(4) [of x], of ht_next] arg_cong [OF st'(4) [of x], of cc_next] arg_cong [OF st'(4) [of x], of cn_local_ip]
      arg_cong [OF st'(4) [of x], of "conn_bucket e"] by (simp_all add: c3 d2 conn_bucket_def)
  have "conns_hold e st' (remove1 c cs)"
    by (rule conns_hold_cong [OF st2(2)]) (simp_all add: x st'(5) c3)
  moreover have "conn_close_timeout e st c = Some (Inr st')"
    using conn_close_timeout_run [OF st2(1) [unfolded st1_def]] st'(1) by (simp add: st3_def)
  ultimately show thesis
    using st' x unfolding k3(2) [unfolded ctx] ctx
    by (intro that [of st']) (simp_all add: c3 d2, simp_all add: st3_def conn_free_def g2 d2)
qed

lemma tcp_closed_ok:
  assumes h: "conns_hold e st cs" "c \<in> set cs" and a: "to_armed (conns st c)"
    and k: "kout_ready e st (cn_ctx (conns st c))" and l: "app_list st (cx_app (ctx_objs st (cn_ctx (conns st c)))) xs" "c \<in> set xs"
  obtains st' where "tcp_timeout e st (conn_to c) TO_TCP_CLOSED = Some (Inr st')"
    "conns_hold e st' (remove1 c cs)" "app_list st' (cx_app (ctx_objs st (cn_ctx (conns st c)))) (remove1 c xs)"
    "pm_free st' = packetmem_free (cn_rx_handle (conns st c)) (packetmem_free (cn_tx_handle (conns st c)) (pm_free st))"
    "flowids st' = flow_id_free (flowids st) (cn_flow_id (conns st c))" "ports st' = port_released (ports st) (cn_local_port (conns st c))"
    "closed_event (shm (sp_tas st')) (kout_entry st (cn_ctx (conns st c))) (cn_opaque (conns st c))"
    "fp (sp_tas st') = (fp (sp_tas st))\<lparr>fp_shm := shm (sp_tas st')\<rparr>" "cc_conns st' = cc_conns st" "next_conn st' = next_conn st"
    "\<And>x. cc_next (conns st' x) = cc_next (conns st x)" "timeout_mgr st' = timeout_mgr st"
proof -
  define st1 where "st1 = mod_conn st c (to_armed_update (\<lambda>_. False))"
  have c1: "conns st1 = (conns st)(c := (conns st c)\<lparr>to_armed := False\<rparr>)" "sp_tas st1 = sp_tas st" "ctx_objs st1 = ctx_objs st" "app_objs st1 = app_objs st"
    "tcp_hashtable st1 = tcp_hashtable st" "pm_free st1 = pm_free st" "flowids st1 = flowids st" "ports st1 = ports st"
    "cc_conns st1 = cc_conns st" "next_conn st1 = next_conn st" "timeout_mgr st1 = timeout_mgr st"
    by (simp_all add: st1_def)
  have run: "tcp_timeout e st (conn_to c) TO_TCP_CLOSED = conn_close_timeout e st1 c"
    using a by (simp add: tcp_timeout_def st1_def)
  have ctx: "cn_ctx (conns st1 c) = cn_ctx (conns st c)"
    by (simp add: c1)
  have h1: "conns_hold e st1 cs"
    by (rule conns_hold_cong [OF h(1)]) (auto simp: c1 conn_bucket_def)
  have k1: "kout_ready e st1 (cn_ctx (conns st1 c))" "kout_entry st1 (cn_ctx (conns st1 c)) = kout_entry st (cn_ctx (conns st c))"
    unfolding ctx by (rule kout_ready_cong [OF k]; simp add: c1)+
  have l1: "app_list st1 (cx_app (ctx_objs st1 (cn_ctx (conns st1 c)))) xs"
    unfolding ctx c1(3) by (rule app_list_cong [OF l(1)]) (simp_all add: c1)
  show thesis
  proof (rule conn_close_timeout_ok [OF h1 h(2) k1(1) l1 l(2), unfolded k1(2) c1(3)], goal_cases)
    case (1 st')
    then show thesis
      by (intro that [of st']) (simp_all add: run c1)
  qed
qed

text \<open>
  When the time after closing is over, everything the connection has is given back: it
  is taken out of the table and out of the list of its application, its buffers and its flow id are
  free again, its port is free if it was taken for this connection, and the application is told.
\<close>

theorem tcp_closed_released:
  assumes h: "conns_hold e st cs" "c \<in> set cs" and a: "to_armed (conns st c)"
    and k: "kout_ready e st (cn_ctx (conns st c))" and l: "app_list st (cx_app (ctx_objs st (cn_ctx (conns st c)))) xs" "c \<in> set xs"
  shows "\<exists>st'. tcp_timeout e st (conn_to c) TO_TCP_CLOSED = Some (Inr st') \<and>
    conns_hold e st' (remove1 c cs) \<and> app_list st' (cx_app (ctx_objs st (cn_ctx (conns st c)))) (remove1 c xs) \<and>
    pm_free st' = packetmem_free (cn_rx_handle (conns st c)) (packetmem_free (cn_tx_handle (conns st c)) (pm_free st)) \<and>
    flowids st' = flow_id_free (flowids st) (cn_flow_id (conns st c)) \<and>
    ports st' = port_released (ports st) (cn_local_port (conns st c)) \<and>
    closed_event (shm (sp_tas st')) (kout_entry st (cn_ctx (conns st c))) (cn_opaque (conns st c))"
  by (rule tcp_closed_ok [OF assms]) blast

theorem tcp_closed_released_witness:
  "\<exists>st'. tcp_timeout demo_senv (demo_tcp demo_mgr) (conn_to 64) TO_TCP_CLOSED = Some (Inr st') \<and>
     conns_hold demo_senv st' [] \<and> app_list st' 0 [] \<and> closed_event (shm (sp_tas st')) 61440 77"
proof -
  have app: "cx_app (ctx_objs (demo_tcp demo_mgr) 0) = 0"
    by (simp add: demo_tcp_def)
  have l: "app_list (demo_tcp demo_mgr) (cx_app (ctx_objs (demo_tcp demo_mgr) (cn_ctx (conns (demo_tcp demo_mgr) 64)))) [64]" "64 \<in> set [64 :: u64]"
    by (simp_all add: app_list_def)
  from tcp_closed_released [OF demo_conns_hold l(2) _ demo_kout l] show ?thesis
    unfolding demo_entry by (auto simp: app)
qed

end
