(* ===== verification/Appif_Ctx.thy ===== *)
theory Appif_Ctx
  imports Tcp_Close
begin

text \<open>
  Requests of applications, \<^verbatim>\<open>tas/slow/appif_ctx.c\<close>.  An application writes entries of 64 bytes into a
  queue of its context; the slow path serves one of them in each poll, if there is room for a
  response.
\<close>

unbundle bit_operations_syntax

section \<open>Model\<close>

abbreviation (input) KERNEL_APPOUT_INVALID :: u8 where "KERNEL_APPOUT_INVALID \<equiv> 0"
abbreviation (input) KERNEL_APPOUT_CONN_OPEN :: u8 where "KERNEL_APPOUT_CONN_OPEN \<equiv> 1"
abbreviation (input) KERNEL_APPOUT_CONN_CLOSE :: u8 where "KERNEL_APPOUT_CONN_CLOSE \<equiv> 2"
abbreviation (input) KERNEL_APPOUT_CONN_MOVE :: u8 where "KERNEL_APPOUT_CONN_MOVE \<equiv> 3"
abbreviation (input) KERNEL_APPOUT_LISTEN_OPEN :: u8 where "KERNEL_APPOUT_LISTEN_OPEN \<equiv> 4"
abbreviation (input) KERNEL_APPOUT_ACCEPT_CONN :: u8 where "KERNEL_APPOUT_ACCEPT_CONN \<equiv> 6"
abbreviation (input) KERNEL_APPOUT_REQ_SCALE :: u8 where "KERNEL_APPOUT_REQ_SCALE \<equiv> 7"
abbreviation (input) KERNEL_APPOUT_LISTEN_REUSEPORT :: u8 where "KERNEL_APPOUT_LISTEN_REUSEPORT \<equiv> 1"

text \<open>Reading and writing an entry.\<close>

definition entry_at :: "slowpath \<Rightarrow> u64 \<Rightarrow> buf" where
  "entry_at st a = mem_view (shm (sp_tas st)) a"

definition entry_put :: "slowpath \<Rightarrow> u64 \<Rightarrow> nat \<Rightarrow> u8 list \<Rightarrow> slowpath" where
  "entry_put st a k bs = st\<lparr>sp_tas := set_shm (sp_tas st) (mem_put (shm (sp_tas st)) a k bs)\<rparr>"

text \<open>A response with its status at offset \<open>off\<close>; it uses one entry.\<close>

definition kout_reply :: "slow_env \<Rightarrow> slowpath \<Rightarrow> u64 \<Rightarrow> u64 \<Rightarrow> nat \<Rightarrow> u64 \<Rightarrow> int \<Rightarrow> u8 \<Rightarrow> (nat \<times> slowpath) run" where
  "kout_reply e st ctx kout off op status type =
    (let st = entry_put st kout 0 (u64_bytes op);
         st = entry_put st kout off (u32_bytes (word_of_int status));
         st = entry_put st kout 63 [type] in
     bind_run (Some (appif_ctx_kick e st ctx)) (\<lambda>st. Some (Inr (1, st))))"

text \<open>The search through a list of an application: its connections, contexts or listeners.\<close>

partial_function (option) app_find :: "(u64 \<Rightarrow> u64) \<Rightarrow> (u64 \<Rightarrow> bool) \<Rightarrow> u64 \<Rightarrow> u64 option" where
  "app_find nxt ok x = (if x = 0 then Some 0 else if ok x then Some x else app_find nxt ok (nxt x))"

text \<open>Whether a connection is the one a request to move or close it names.\<close>

definition kin_names :: "buf \<Rightarrow> connection \<Rightarrow> bool" where
  "kin_names b c \<longleftrightarrow> cn_local_ip c = get_u32 b 12 \<and> cn_remote_ip c = get_u32 b 8 \<and> cn_local_port c = get_u16 b 18 \<and>
     cn_remote_port c = get_u16 b 16 \<and> cn_opaque c = get_u64 b 0"

definition kin_conn_open :: "slow_env \<Rightarrow> conn_mallocs \<Rightarrow> slowpath \<Rightarrow> u64 \<Rightarrow> u64 \<Rightarrow> u64 \<Rightarrow> u64 \<Rightarrow> (nat \<times> slowpath) run" where
  "kin_conn_open e al st app ctx kin kout =
    (let b = entry_at st kin in
     bind_run (tcp_open e al st ctx (get_u64 b 0) (get_u32 b 8) (get_u16 b 16) (doorbell_id (ctx_objs st ctx))) (\<lambda>(ret, conn, st).
     if ret \<noteq> 0 then kout_reply e st ctx kout 32 (get_u64 (entry_at st kin) 0) (-1) KERNEL_APPIN_CONN_OPENED
     else
       let st = mod_conn st conn (app_next_update (\<lambda>_. app_conns (app_objs st app))) in
       Some (Inr (0, mod_app st app (app_conns_update (\<lambda>_. conn))))))"

definition kin_conn_move :: "slow_env \<Rightarrow> slowpath \<Rightarrow> u64 \<Rightarrow> u64 \<Rightarrow> u64 \<Rightarrow> u64 \<Rightarrow> (nat \<times> slowpath) run" where
  "kin_conn_move e st app ctx kin kout =
    (let b = entry_at st kin;
         failed = kout_reply e st ctx kout 8 (get_u64 b 0) (-1) KERNEL_APPIN_STATUS_CONN_MOVE in
     case app_find (\<lambda>c. app_next (conns st c)) (\<lambda>c. kin_names b (conns st c)) (app_conns (app_objs st app)) of
       None \<Rightarrow> None
     | Some conn \<Rightarrow>
         if conn = 0 then failed
         else case app_find (\<lambda>x. cx_next (ctx_objs st x)) (\<lambda>x. doorbell_id (ctx_objs st x) = ucast (get_u16 b 20)) (app_contexts (app_objs st app)) of
           None \<Rightarrow> None
         | Some new_ctx \<Rightarrow>
             if new_ctx = 0 then failed
             else if cn_status (conns st conn) \<noteq> CONN_OPEN then failed
             else
               let st = st\<lparr>sp_tas := (sp_tas st)\<lparr>fp := nicif_connection_move (fp (sp_tas st)) (doorbell_id (ctx_objs st new_ctx)) (cn_flow_id (conns st conn))\<rparr>\<rparr> in
               kout_reply e st ctx kout 8 (get_u64 b 0) 0 KERNEL_APPIN_STATUS_CONN_MOVE)"

definition kin_conn_close :: "slow_env \<Rightarrow> slowpath \<Rightarrow> u64 \<Rightarrow> u64 \<Rightarrow> u64 \<Rightarrow> u64 \<Rightarrow> (nat \<times> slowpath) run" where
  "kin_conn_close e st app ctx kin kout =
    (let b = entry_at st kin in
     case app_find (\<lambda>c. app_next (conns st c)) (\<lambda>c. kin_names b (conns st c)) (app_conns (app_objs st app)) of
       None \<Rightarrow> None
     | Some conn \<Rightarrow>
         if conn = 0 then kout_reply e st ctx kout 8 (get_u64 b 0) (-1) KERNEL_APPIN_STATUS_CONN_CLOSE
         else bind_run (tcp_close e st conn) (\<lambda>(ret, st).
           if ret \<noteq> 0 then kout_reply e st ctx kout 8 (get_u64 (entry_at st kin) 0) (-1) KERNEL_APPIN_STATUS_CONN_CLOSE
           else Some (Inr (0, st))))"

definition kin_listen_open :: "slow_env \<Rightarrow> listen_mallocs \<Rightarrow> slowpath \<Rightarrow> u64 \<Rightarrow> u64 \<Rightarrow> u64 \<Rightarrow> u64 \<Rightarrow> (nat \<times> slowpath) run" where
  "kin_listen_open e al st app ctx kin kout =
    (let b = entry_at st kin;
         (ret, listen, st) = tcp_listen al st ctx (get_u64 b 0) (get_u16 b 12) (get_u32 b 8) (b 14 AND KERNEL_APPOUT_LISTEN_REUSEPORT \<noteq> 0) in
     if ret \<noteq> 0 then kout_reply e st ctx kout 8 (get_u64 b 0) (-1) KERNEL_APPIN_STATUS_LISTEN_OPEN
     else
       let st = mod_listener st listen (ls_app_next_update (\<lambda>_. app_listeners (app_objs st app)));
           st = mod_app st app (app_listeners_update (\<lambda>_. listen)) in
       kout_reply e st ctx kout 8 (get_u64 b 0) 0 KERNEL_APPIN_STATUS_LISTEN_OPEN)"

definition kin_accept_conn :: "slow_env \<Rightarrow> conn_mallocs \<Rightarrow> slowpath \<Rightarrow> u64 \<Rightarrow> u64 \<Rightarrow> u64 \<Rightarrow> u64 \<Rightarrow> (nat \<times> slowpath) run" where
  "kin_accept_conn e al st app ctx kin kout =
    (let b = entry_at st kin in
     case app_find (\<lambda>l. ls_app_next (listener_objs st l))
            (\<lambda>l. ls_port (listener_objs st l) = get_u16 b 16 \<and> ls_opaque (listener_objs st l) = get_u64 b 0) (app_listeners (app_objs st app)) of
       None \<Rightarrow> None
     | Some listen \<Rightarrow>
         bind_run (tcp_accept e al st ctx (get_u64 b 8) listen (doorbell_id (ctx_objs st ctx))) (\<lambda>(ret, st).
         if ret \<noteq> 0 then kout_reply e st ctx kout 32 (get_u64 (entry_at st kin) 8) (-1) KERNEL_APPIN_ACCEPTED_CONN
         else Some (Inr (0, st))))"

text \<open>\<open>scale_to\<close> is the variable \<^verbatim>\<open>fp_scale_to\<close> of \<^verbatim>\<open>tas/tas.c\<close>, 0 unless a change of the number of cores is under way.\<close>

definition flexnic_scale_to :: "slow_env \<Rightarrow> u32 \<Rightarrow> slowpath \<Rightarrow> u32 \<Rightarrow> (int \<times> slowpath \<times> u32) result" where
  "flexnic_scale_to e cores st scale_to =
    (if scale_to \<noteq> 0 then Inr (-1, st, scale_to)
     else bind_res (notify_fastpath_core (se_tas e) (se_tsc e) (sp_tas st) 0) (\<lambda>t. Inr (0, st\<lparr>sp_tas := t\<rparr>, cores)))"

definition kin_req_scale :: "slow_env \<Rightarrow> slowpath \<Rightarrow> u32 \<Rightarrow> u64 \<Rightarrow> (nat \<times> slowpath \<times> u32) run" where
  "kin_req_scale e st scale_to kin =
    bind_run (Some (flexnic_scale_to e (get_u32 (entry_at st kin) 0) st scale_to)) (\<lambda>(_, st, scale_to). Some (Inr (0, st, scale_to)))"

text \<open>The handler of a request of a type; the number of response entries it has used.\<close>

definition kin_handle :: "slow_env \<Rightarrow> conn_mallocs \<Rightarrow> listen_mallocs \<Rightarrow> slowpath \<Rightarrow> u32 \<Rightarrow> u8 \<Rightarrow> u64 \<Rightarrow> u64 \<Rightarrow> u64 \<Rightarrow> u64 \<Rightarrow>
    (nat \<times> slowpath \<times> u32) run" where
  "kin_handle e al la st scale_to type app ctx kin kout =
    (let keep = (\<lambda>r. bind_run r (\<lambda>(n, st). Some (Inr (n, st, scale_to)))) in
     if type = KERNEL_APPOUT_CONN_OPEN then keep (kin_conn_open e al st app ctx kin kout)
     else if type = KERNEL_APPOUT_CONN_MOVE then keep (kin_conn_move e st app ctx kin kout)
     else if type = KERNEL_APPOUT_CONN_CLOSE then keep (kin_conn_close e st app ctx kin kout)
     else if type = KERNEL_APPOUT_LISTEN_OPEN then keep (kin_listen_open e la st app ctx kin kout)
     else if type = KERNEL_APPOUT_ACCEPT_CONN then keep (kin_accept_conn e al st app ctx kin kout)
     else if type = KERNEL_APPOUT_REQ_SCALE then kin_req_scale e st scale_to kin
     else Some (Inr (0, st, scale_to)))"

definition ring_next :: "u32 \<Rightarrow> u32 \<Rightarrow> u32 \<Rightarrow> u32" where
  "ring_next pos n len = (if pos + n \<ge> len then 0 else pos + n)"

definition kin_entry :: "slowpath \<Rightarrow> u64 \<Rightarrow> u64" where
  "kin_entry st ctx = entry_addr 64 (kin_base (ctx_objs st ctx)) (unat (kin_pos (ctx_objs st ctx)))"

definition appif_ctx_poll :: "slow_env \<Rightarrow> conn_mallocs \<Rightarrow> listen_mallocs \<Rightarrow> slowpath \<Rightarrow> u32 \<Rightarrow> u64 \<Rightarrow> u64 \<Rightarrow> (u32 \<times> slowpath \<times> u32) run" where
  "appif_ctx_poll e al la st scale_to app ctx =
    (let cx = ctx_objs st ctx;
         kin = kin_entry st ctx; kout = kout_entry st ctx;
         type = entry_at st kin 63 in
     if \<not> kout_room st ctx then Some (Inr (0, st, scale_to))
     else if type = KERNEL_APPOUT_INVALID then Some (Inr (0, st, scale_to))
     else
       bind_run (kin_handle e al la st scale_to type app ctx kin kout) (\<lambda>(inc, st, scale_to).
       let st = entry_put st kin 63 [0];
           st = mod_ctx st ctx (\<lambda>x. x\<lparr>kin_pos := ring_next (kin_pos cx) 1 (kin_len x)\<rparr>);
           st = (if inc > 0 then mod_ctx st ctx (\<lambda>x. x\<lparr>kout_pos := ring_next (kout_pos cx) (of_nat inc) (kout_len x)\<rparr>) else st) in
       Some (Inr (1, st, scale_to))))"

end
