(* ===== verification/Conn_Lifecycle.thy ===== *)
theory Conn_Lifecycle
  imports Tcp_Close
begin

text \<open>
  Operations of an application on its connections, \<^verbatim>\<open>tcp_open\<close> and \<^verbatim>\<open>tcp_close\<close> of \<^verbatim>\<open>tas/slow/tcp.c\<close>, and
  the whole way from closing a connection to the release of all it has.
\<close>

unbundle bit_operations_syntax

section \<open>Closing\<close>

text \<open>Both directions of a flow are finished and everything that was sent is acknowledged.\<close>

definition flow_finished :: "flextcp_pl_flowst \<Rightarrow> bool" where
  "flow_finished fs \<longleftrightarrow> fs_flag fs FLEXNIC_PL_FLOWST_RXFIN \<and> fs_flag fs FLEXNIC_PL_FLOWST_TXFIN \<and> tx_sent fs = 0"

text \<open>The fast path no longer finds the flow of \<open>fs\<close>, and all others as before.\<close>

definition flow_removed :: "fp_env \<Rightarrow> fastpath \<Rightarrow> fastpath \<Rightarrow> flextcp_pl_flowst \<Rightarrow> bool" where
  "flow_removed env f0 f1 fs \<longleftrightarrow> (\<forall>nbh. fast_flows_packet_fss1 env f1 nbh =
     (if pkt_tuple (nb_pkt nbh) = fs_tuple fs then None else fast_flows_packet_fss1 env f0 nbh))"

lemma sp_flag_other: "((b :: u64) OR 1) AND 16 = b AND 16" "(b OR 1) AND 32 = b AND 32"
  by (simp_all add: bit.conj_disj_distrib2)

lemma single_bit: "(b :: u64) AND push_bit n 1 = (if bit b n then push_bit n 1 else 0)"
  by (rule bit_word_eqI) (auto simp: bit_simps)

lemma flag_set: "(b :: u64) AND 16 \<noteq> 0 \<longleftrightarrow> b AND 16 = 16" "b AND 32 \<noteq> 0 \<longleftrightarrow> b AND 32 = 32"
  using single_bit [of b 4] single_bit [of b 5] by (simp_all add: push_bit_eq_mult)

lemma disable_results:
  obtains f1 where "nicif_connection_disable crc f0 f =
      ((tx_next_seq (flowst f0 f), rx_next_seq (flowst f0 f),
        fs_flag (flowst f0 f) FLEXNIC_PL_FLOWST_TXFIN \<and> tx_sent (flowst f0 f) = 0, fs_flag (flowst f0 f) FLEXNIC_PL_FLOWST_RXFIN), f1)"
    "fp_shm f1 = fp_shm f0"
  by (rule that [of "snd (nicif_connection_disable crc f0 f)"])
    (simp_all add: nicif_connection_disable_def Let_def fs_flag_def sp_flag_other flag_set upd_flow_def del: not_gr_zero)

lemma cc_conn_remove_frame:
  assumes "cc_conn_remove st p = Some (Inr st')"
  shows "st' = st\<lparr>conns := conns st', cc_conns := cc_conns st', next_conn := next_conn st'\<rparr>" "(conns st' x)\<lparr>cc_next := 0\<rparr> = (conns st x)\<lparr>cc_next := 0\<rparr>"
  using assms by (auto simp: cc_conn_remove_def Let_def upd_conn_def split: if_splits option.splits)

text \<open>The segment that tells the peer, unless both sides have finished.\<close>

lemma close_reset:
  assumes s: "can_send e st ms"
  obtains r t where "(if fin then Inr (0, st) else send_control e st c TCP_RST False 0 0) = Inr (r, st\<lparr>sp_tas := t\<rparr>)"
    "fp t = (fp (sp_tas st))\<lparr>fp_shm := shm t\<rparr>" "\<And>x. off_queue (sp_tas st) x \<Longrightarrow> shm t x = shm (sp_tas st) x \<and> off_queue t x"
    "if fin then t = sp_tas st else seg_queued e st ms (st\<lparr>sp_tas := t\<rparr>) (ctl_bytes e (ctl_of (conns st c)) TCP_RST False 0 0)"
proof (cases fin)
  case True
  then show thesis
    by (intro that [of 0 "sp_tas st"]) simp_all
next
  case False
  have o: "outbox (se_tas e) (sp_tas st) ms" "evfd_write_ok (se_tas e)" "length (eth_addr (fpe (se_tas e))) = 6"
    using s by (simp_all add: can_send_def)
  obtain r t where t: "send_control e st c TCP_RST False 0 0 = Inr (r, st\<lparr>sp_tas := t\<rparr>)" "fp t = (fp (sp_tas st))\<lparr>fp_shm := shm t\<rparr>"
    "sent e st ms (st\<lparr>sp_tas := t\<rparr>) (ctl_bytes e (ctl_of (conns st c)) TCP_RST False 0 0)"
    "\<And>x. off_queue (sp_tas st) x \<Longrightarrow> shm t x = shm (sp_tas st) x \<and> off_queue t x"
    by (rule send_control_sends [OF o, where c = c and flags = TCP_RST and ts_opt = False and ts_echo = 0 and mss_opt = 0]) (rule that; assumption)
  then show thesis
    using False sent_seg_queued [OF t(3) o(1)] by (intro that [of r t]) simp_all
qed

text \<open>The first half of \<^verbatim>\<open>tcp_close\<close>: the flow is taken from the fast path and the connection gets its sequence numbers.\<close>

definition off_fast_path :: "slowpath \<Rightarrow> u64 \<Rightarrow> fastpath \<Rightarrow> flextcp_pl_flowst \<Rightarrow> slowpath" where
  "off_fast_path st c f1 fs = mod_conn (st\<lparr>sp_tas := (sp_tas st)\<lparr>fp := f1\<rparr>\<rparr>) c (\<lambda>x. x\<lparr>cn_remote_seq := rx_next_seq fs, cn_local_seq := tx_next_seq fs\<rparr>)"

lemma close_flow_ok:
  fixes e :: slow_env and st :: slowpath and c :: u64 and f :: u32
  defines "fs \<equiv> flowst (fp (sp_tas st)) f"
  assumes T: "se_crc e = flow_hash (fpe (se_tas e))" "table_ok (se_crc e) (fp (sp_tas st)) (flowids st) free" "registered (se_crc e) (fp (sp_tas st)) f"
      "unat f < FLEXNIC_PL_FLOWST_NUM" and s: "can_send e st ms"
  obtains f1 r u where "nicif_connection_disable (se_crc e) (fp (sp_tas st)) f =
      ((tx_next_seq fs, rx_next_seq fs, fs_flag fs FLEXNIC_PL_FLOWST_TXFIN \<and> tx_sent fs = 0, fs_flag fs FLEXNIC_PL_FLOWST_RXFIN), f1)"
    "(if \<not> (fs_flag fs FLEXNIC_PL_FLOWST_TXFIN \<and> tx_sent fs = 0) \<or> \<not> fs_flag fs FLEXNIC_PL_FLOWST_RXFIN
      then send_control e (off_fast_path st c f1 fs) c TCP_RST False 0 0 else Inr (0, off_fast_path st c f1 fs)) = Inr (r, (off_fast_path st c f1 fs)\<lparr>sp_tas := u\<rparr>)"
    "flow_removed (fpe (se_tas e)) (fp (sp_tas st)) (fp u) fs" "table_ok (se_crc e) (fp u) (flow_id_free (flowids st) f) (f # free)"
    "\<And>st'. sp_tas st' = u \<Longrightarrow> if flow_finished fs then outbox (se_tas e) (sp_tas st') ms
     else seg_queued e st ms st' (ctl_bytes e (ctl_of ((conns st c)\<lparr>cn_remote_seq := rx_next_seq fs, cn_local_seq := tx_next_seq fs\<rparr>)) TCP_RST False 0 0)"
    "\<And>x. off_queue (sp_tas st) x \<Longrightarrow> shm u x = shm (sp_tas st) x \<and> off_queue u x"
proof -
  obtain f1 where f1: "nicif_connection_disable (se_crc e) (fp (sp_tas st)) f =
      ((tx_next_seq fs, rx_next_seq fs, fs_flag fs FLEXNIC_PL_FLOWST_TXFIN \<and> tx_sent fs = 0, fs_flag fs FLEXNIC_PL_FLOWST_RXFIN), f1)" "fp_shm f1 = shm (sp_tas st)"
    unfolding fs_def by (rule disable_results)
  have d: "flow_removed (fpe (se_tas e)) (fp (sp_tas st)) f1 fs" "table_ok (se_crc e) f1 (flow_id_free (flowids st) f) (f # free)"
    using nicif_connection_disable_ok [OF T] unfolding f1(1) by (simp_all add: flow_removed_def nicif_connection_free_def fs_def)
  let ?st1 = "off_fast_path st c f1 fs"
  have c1: "sp_tas ?st1 = (sp_tas st)\<lparr>fp := f1\<rparr>" "conns ?st1 c = (conns st c)\<lparr>cn_remote_seq := rx_next_seq fs, cn_local_seq := tx_next_seq fs\<rparr>"
    by (simp_all add: off_fast_path_def)
  have o1: "can_send e ?st1 ms"
    using s outbox_cong [of "se_tas e" "sp_tas st" ms "sp_tas ?st1"] f1(2) by (simp add: can_send_def c1)
  obtain r u where u: "(if flow_finished fs then Inr (0, ?st1) else send_control e ?st1 c TCP_RST False 0 0) = Inr (r, ?st1\<lparr>sp_tas := u\<rparr>)"
    "fp u = (fp (sp_tas ?st1))\<lparr>fp_shm := shm u\<rparr>" "\<And>x. off_queue (sp_tas ?st1) x \<Longrightarrow> shm u x = shm (sp_tas ?st1) x \<and> off_queue u x"
    "if flow_finished fs then u = sp_tas ?st1 else seg_queued e ?st1 ms (?st1\<lparr>sp_tas := u\<rparr>) (ctl_bytes e (ctl_of (conns ?st1 c)) TCP_RST False 0 0)"
    by (rule close_reset [OF o1]) (rule that; assumption)
  have fu: "flowst (fp u) = flowst f1" "flowht (fp u) = flowht f1"
    by (subst u(2), simp add: c1)+
  show thesis
  proof (rule that [OF f1(1), of r u])
    show "flow_removed (fpe (se_tas e)) (fp (sp_tas st)) (fp u) fs" "table_ok (se_crc e) (fp u) (flow_id_free (flowids st) f) (f # free)"
      using d(1) fss1_cong [OF fu] table_ok_cong [OF d(2) fu] by (simp_all add: flow_removed_def)
  qed (use u o1 f1(2) off_queue_cong [of "sp_tas ?st1" "sp_tas st"] in
      \<open>auto simp: flow_finished_def can_send_def seg_queued_def c1 split: if_splits\<close>)
qed

lemma tcp_close_ok:
  fixes e :: slow_env and st :: slowpath and c :: u64
  defines "f \<equiv> cn_flow_id (conns st c)"
  defines "fs \<equiv> flowst (fp (sp_tas st)) f"
  assumes c: "cn_status (conns st c) = CONN_OPEN" "\<not> to_armed (conns st c)"
    and T: "se_crc e = flow_hash (fpe (se_tas e))" "table_ok (se_crc e) (fp (sp_tas st)) (flowids st) free" "registered (se_crc e) (fp (sp_tas st)) f"
      "unat f < FLEXNIC_PL_FLOWST_NUM"
    and s: "can_send e st ms" and l: "cc_list st xs" "next_conn st = 0 \<or> next_conn st \<in> set xs" "c \<in> set xs"
    and A: "to_armed_map (timeout_mgr st) A" "A (conn_to c) = None" "conn_to c \<noteq> 0"
  obtains st' where "tcp_close e st c = Some (Inr (0, st'))" "to_armed_map (timeout_mgr st') (A(conn_to c \<mapsto> TO_TCP_CLOSED))"
    "cc_list st' (removeAll c xs)" "next_conn st' = 0 \<or> next_conn st' \<in> set (removeAll c xs)"
    "flow_removed (fpe (se_tas e)) (fp (sp_tas st)) (fp (sp_tas st')) fs" "table_ok (se_crc e) (fp (sp_tas st')) (flow_id_free (flowids st) f) (f # free)"
    "if flow_finished fs then outbox (se_tas e) (sp_tas st') ms
     else seg_queued e st ms st' (ctl_bytes e (ctl_of ((conns st c)\<lparr>cn_remote_seq := rx_next_seq fs, cn_local_seq := tx_next_seq fs\<rparr>)) TCP_RST False 0 0)"
    "\<And>x. (conns st' x)\<lparr>cc_next := 0\<rparr> = (if x = c then (conns st c)\<lparr>cn_remote_seq := rx_next_seq fs, cn_local_seq := tx_next_seq fs,
       cn_status := CONN_CLOSED, to_armed := True, cc_next := 0\<rparr> else (conns st x)\<lparr>cc_next := 0\<rparr>)"
    "st' = st\<lparr>conns := conns st', timeout_mgr := timeout_mgr st', sp_tas := sp_tas st', cc_conns := cc_conns st', next_conn := next_conn st'\<rparr>"
    "\<And>x. off_queue (sp_tas st) x \<Longrightarrow> shm (sp_tas st') x = shm (sp_tas st) x \<and> off_queue (sp_tas st') x"
    "to_due (timeout_mgr st') = (to_due (timeout_mgr st))(conn_to c := us_from (se_tsc e) (se_tsc_per_us e) 10000)"
proof -
  obtain f1 r u where d: "nicif_connection_disable (se_crc e) (fp (sp_tas st)) f =
      ((tx_next_seq fs, rx_next_seq fs, fs_flag fs FLEXNIC_PL_FLOWST_TXFIN \<and> tx_sent fs = 0, fs_flag fs FLEXNIC_PL_FLOWST_RXFIN), f1)"
    "(if \<not> (fs_flag fs FLEXNIC_PL_FLOWST_TXFIN \<and> tx_sent fs = 0) \<or> \<not> fs_flag fs FLEXNIC_PL_FLOWST_RXFIN
      then send_control e (off_fast_path st c f1 fs) c TCP_RST False 0 0 else Inr (0, off_fast_path st c f1 fs)) = Inr (r, (off_fast_path st c f1 fs)\<lparr>sp_tas := u\<rparr>)"
    and fu: "flow_removed (fpe (se_tas e)) (fp (sp_tas st)) (fp u) fs" "table_ok (se_crc e) (fp u) (flow_id_free (flowids st) f) (f # free)"
    "\<And>st'. sp_tas st' = u \<Longrightarrow> if flow_finished fs then outbox (se_tas e) (sp_tas st') ms
     else seg_queued e st ms st' (ctl_bytes e (ctl_of ((conns st c)\<lparr>cn_remote_seq := rx_next_seq fs, cn_local_seq := tx_next_seq fs\<rparr>)) TCP_RST False 0 0)"
    "\<And>x. off_queue (sp_tas st) x \<Longrightarrow> shm u x = shm (sp_tas st) x \<and> off_queue u x"
    by (rule close_flow_ok [OF T s, folded fs_def]) (rule that; assumption)
  define st2 where "st2 = (off_fast_path st c f1 fs)\<lparr>sp_tas := u\<rparr>"
  have c2: "conns st2 = (conns st)(c := (conns st c)\<lparr>cn_remote_seq := rx_next_seq fs, cn_local_seq := tx_next_seq fs\<rparr>)" "cc_conns st2 = cc_conns st"
    "next_conn st2 = next_conn st" "timeout_mgr st2 = timeout_mgr st"
    by (simp_all add: st2_def off_fast_path_def)
  have "(\<lambda>q. cc_next (conns st2 q)) = (\<lambda>q. cc_next (conns st q))"
    by (simp add: fun_eq_iff c2)
  then have "cc_list st2 xs" "next_conn st2 = 0 \<or> next_conn st2 \<in> set xs"
    using l(1,2) by (simp_all add: cc_list_def c2)
  then obtain st3 where st3: "cc_conn_remove st2 c = Some (Inr st3)" "cc_list st3 (removeAll c xs)" "next_conn st3 = 0 \<or> next_conn st3 \<in> set (removeAll c xs)"
    using cc_conn_remove_ok l(3) by blast
  note r3 = cc_conn_remove_frame [OF st3(1)]
  have t3: "timeout_mgr st3 = timeout_mgr st" "sp_tas st3 = u"
    by (subst r3(1), simp add: st2_def off_fast_path_def)+
  have a3: "\<not> to_armed (conns st3 c)"
    using c(2) arg_cong [OF r3(2) [of c], of to_armed] by (simp add: c2)
  obtain m where m: "util_timeout_arm (timeout_mgr st) (conn_to c) 10000 TO_TCP_CLOSED (se_tsc e) (se_tsc_per_us e) = Some (Inr m)"
    "to_armed_map m (A(conn_to c \<mapsto> TO_TCP_CLOSED))"
    "to_due m = (to_due (timeout_mgr st))(conn_to c := us_from (se_tsc e) (se_tsc_per_us e) 10000)"
    using util_timers.arm_law [OF A, of 10000 TO_TCP_CLOSED "se_tsc e" "se_tsc_per_us e"] by auto
  define st' where "st' = mod_conn ((mod_conn st3 c (cn_status_update (\<lambda>_. CONN_CLOSED)))\<lparr>timeout_mgr := m\<rparr>) c (to_armed_update (\<lambda>_. True))"
  have t': "sp_tas st' = u" "timeout_mgr st' = m"
    using t3 by (simp_all add: st'_def)
  have "bind_run (cc_conn_remove st2 c) (\<lambda>st. let st = mod_conn st c (cn_status_update (\<lambda>_. CONN_CLOSED)) in
        if to_armed (conns st c) then Some (Inl Assert_Failed)
        else bind_run (to_arm e st (conn_to c) 10000 TO_TCP_CLOSED) (\<lambda>st. Some (Inr (0 :: int, mod_conn st c (to_armed_update (\<lambda>_. True)))))) =
      Some (Inr (0, st'))"
    using st3(1) a3 m(1) by (simp add: to_arm_def t3 st'_def)
  then have "tcp_close e st c = Some (Inr (0, st'))"
    using c(1) d(2) unfolding tcp_close_def f_def [symmetric] d(1) Let_def prod.case off_fast_path_def [symmetric] st2_def [symmetric]
    by (simp only: if_False not_True_eq_False simp_thms bind_run_simps prod.case)
  moreover have "(\<lambda>q. cc_next (conns st' q)) = (\<lambda>q. cc_next (conns st3 q))"
    by (simp add: fun_eq_iff st'_def)
  then have "cc_list st' (removeAll c xs)" "next_conn st' = 0 \<or> next_conn st' \<in> set (removeAll c xs)"
    using st3(2,3) by (simp_all add: cc_list_def st'_def)
  moreover have "(conns st' x)\<lparr>cc_next := 0\<rparr> = (if x = c then (conns st c)\<lparr>cn_remote_seq := rx_next_seq fs, cn_local_seq := tx_next_seq fs,
       cn_status := CONN_CLOSED, to_armed := True, cc_next := 0\<rparr> else (conns st x)\<lparr>cc_next := 0\<rparr>)" for x
    using r3(2) [of x] by (cases "conns st3 x"; cases "conns st x") (simp add: st'_def c2 split: if_splits)
  moreover have "st' = st\<lparr>conns := conns st', timeout_mgr := timeout_mgr st', sp_tas := sp_tas st', cc_conns := cc_conns st', next_conn := next_conn st'\<rparr>"
    unfolding st'_def by (subst (1) r3(1), cases st) (simp add: st2_def off_fast_path_def mod_conn_conns t3)
  ultimately show thesis
    using m(2,3) fu(1,2,4) fu(3) [OF t'(1)] t' by (intro that [of st']) simp_all
qed


lemma closed_keeps:
  assumes "\<And>x. (conns st1 x)\<lparr>cc_next := 0\<rparr> = (if x = c then (conns st c)\<lparr>cn_remote_seq := r, cn_local_seq := l,
       cn_status := CONN_CLOSED, to_armed := True, cc_next := 0\<rparr> else (conns st x)\<lparr>cc_next := 0\<rparr>)"
  shows "cn_status (conns st1 c) = CONN_CLOSED" "to_armed (conns st1 c)"
    "ht_next (conns st1 x) = ht_next (conns st x)" "conn_bucket e (conns st1 x) = conn_bucket e (conns st x)" "cn_local_ip (conns st1 x) = cn_local_ip (conns st x)"
    "app_next (conns st1 x) = app_next (conns st x)" "cn_ctx (conns st1 x) = cn_ctx (conns st x)" "cn_opaque (conns st1 x) = cn_opaque (conns st x)"
    "cn_flow_id (conns st1 x) = cn_flow_id (conns st x)" "cn_rx_handle (conns st1 x) = cn_rx_handle (conns st x)"
    "cn_tx_handle (conns st1 x) = cn_tx_handle (conns st x)" "cn_local_port (conns st1 x) = cn_local_port (conns st x)"
  using arg_cong [OF assms [of c], of cn_status] arg_cong [OF assms [of c], of to_armed] arg_cong [OF assms [of x], of ht_next]
    arg_cong [OF assms [of x], of "conn_bucket e"] arg_cong [OF assms [of x], of cn_local_ip] arg_cong [OF assms [of x], of app_next]
    arg_cong [OF assms [of x], of cn_ctx] arg_cong [OF assms [of x], of cn_opaque] arg_cong [OF assms [of x], of cn_flow_id]
    arg_cong [OF assms [of x], of cn_rx_handle] arg_cong [OF assms [of x], of cn_tx_handle] arg_cong [OF assms [of x], of cn_local_port]
  by (simp_all add: conn_bucket_def split: if_splits)

lemma release_after_close:
  assumes st1: "cc_list st1 ys" "table_ok (se_crc e) (fp (sp_tas st1)) (flow_id_free (flowids st) (cn_flow_id (conns st c))) fl"
    and f1: "\<And>x. (conns st1 x)\<lparr>cc_next := 0\<rparr> = (if x = c then (conns st c)\<lparr>cn_remote_seq := r, cn_local_seq := q,
       cn_status := CONN_CLOSED, to_armed := True, cc_next := 0\<rparr> else (conns st x)\<lparr>cc_next := 0\<rparr>)"
    "st1 = st\<lparr>conns := conns st1, timeout_mgr := timeout_mgr st1, sp_tas := sp_tas st1, cc_conns := cc_conns st1, next_conn := next_conn st1\<rparr>"
    "\<And>x. off_queue (sp_tas st) x \<Longrightarrow> shm (sp_tas st1) x = shm (sp_tas st) x \<and> off_queue (sp_tas st1) x"
    and h: "conns_hold e st cs" "c \<in> set cs" and k: "kout_ready e st (cn_ctx (conns st c))"
    and l: "app_list st (cx_app (ctx_objs st (cn_ctx (conns st c)))) as" "c \<in> set as"
  shows "\<exists>st2. tcp_timeout e (st1\<lparr>timeout_mgr := m\<rparr>) (conn_to c) TO_TCP_CLOSED = Some (Inr st2) \<and>
    conns_hold e st2 (remove1 c cs) \<and> app_list st2 (cx_app (ctx_objs st (cn_ctx (conns st c)))) (remove1 c as) \<and> cc_list st2 ys \<and>
    table_ok (se_crc e) (fp (sp_tas st2)) (flowids st2) fl \<and>
    pm_free st2 = packetmem_free (cn_rx_handle (conns st c)) (packetmem_free (cn_tx_handle (conns st c)) (pm_free st)) \<and>
    ports st2 = port_released (ports st) (cn_local_port (conns st c)) \<and>
    closed_event (shm (sp_tas st2)) (kout_entry st (cn_ctx (conns st c))) (cn_opaque (conns st c))"
proof -
  note k1 = closed_keeps [OF f1(1)]
  have g1: "tcp_hashtable st1 = tcp_hashtable st" "ctx_objs st1 = ctx_objs st" "app_objs st1 = app_objs st" "pm_free st1 = pm_free st"
    "flowids st1 = flowids st" "ports st1 = ports st"
    by (subst f1(2), simp)+
  let ?st = "st1\<lparr>timeout_mgr := m\<rparr>"
  have h1: "conns_hold e ?st cs"
    by (rule conns_hold_cong [OF h(1)]) (simp_all add: k1 g1)
  have ctx: "cn_ctx (conns ?st c) = cn_ctx (conns st c)" "ctx_objs ?st = ctx_objs st"
    by (simp_all add: k1 g1)
  have ko: "kout_ready e ?st (cn_ctx (conns ?st c))" "kout_entry ?st (cn_ctx (conns ?st c)) = kout_entry st (cn_ctx (conns st c))"
    unfolding ctx(1) by (rule kout_ready_cong [OF k]; simp add: g1 f1(3))+
  have al: "app_list ?st (cx_app (ctx_objs ?st (cn_ctx (conns ?st c)))) as"
    unfolding ctx by (rule app_list_cong [OF l(1)]) (simp_all add: k1 g1)
  have a: "to_armed (conns ?st c)"
    by (simp add: k1)
  show ?thesis
  proof (rule tcp_closed_ok [OF h1 h(2) a ko(1) al l(2), unfolded ko(2) ctx], goal_cases)
    case (1 st2)
    have "flowst (fp (sp_tas st2)) = flowst (fp (sp_tas st1))" "flowht (fp (sp_tas st2)) = flowht (fp (sp_tas st1))"
      by (subst 1(8), simp)+
    then have "table_ok (se_crc e) (fp (sp_tas st2)) (flowids st2) fl"
      using table_ok_cong [OF st1(2)] 1(5) by (simp add: k1 g1)
    moreover have "cc_list st2 ys"
      using st1(1) 1(9,11) by (simp add: cc_list_def)
    ultimately show ?thesis
      using 1 ko(2) by (intro exI [of _ st2]) (simp add: k1 g1)
  qed
qed

text \<open>
  C4: Closing a connection, from the request to the release.  The close takes the flow from the fast
  path, which finds all other flows as before, tells the peer with a reset unless both sides have finished,
  takes the connection from congestion control and arms a timer of ten milliseconds.  When that timer fires, whatever the
  timers in between have done, the connection leaves the table and the list of its application,
  and its flow id, buffers and port can be used again.
\<close>

theorem connection_closes:
  assumes c: "cn_status (conns st c) = CONN_OPEN" "\<not> to_armed (conns st c)" "cn_flow_id (conns st c) = f" "flowst (fp (sp_tas st)) f = fs"
    and T: "se_crc e = flow_hash (fpe (se_tas e))" "table_ok (se_crc e) (fp (sp_tas st)) (flowids st) free" "registered (se_crc e) (fp (sp_tas st)) f"
      "unat f < FLEXNIC_PL_FLOWST_NUM"
    and s: "can_send e st ms" and x: "cc_list st xs" "next_conn st = 0 \<or> next_conn st \<in> set xs" "c \<in> set xs"
    and A: "to_armed_map (timeout_mgr st) A" "A (conn_to c) = None" "conn_to c \<noteq> 0"
    and h: "conns_hold e st cs" "c \<in> set cs" and k: "kout_ready e st (cn_ctx (conns st c))"
    and l: "app_list st (cx_app (ctx_objs st (cn_ctx (conns st c)))) as" "c \<in> set as"
  shows "\<exists>st1. tcp_close e st c = Some (Inr (0, st1)) \<and> cn_status (conns st1 c) = CONN_CLOSED \<and>
    to_armed_map (timeout_mgr st1) (A(conn_to c \<mapsto> TO_TCP_CLOSED)) \<and>
    to_due (timeout_mgr st1) = (to_due (timeout_mgr st))(conn_to c := us_from (se_tsc e) (se_tsc_per_us e) 10000) \<and>
    flow_removed (fpe (se_tas e)) (fp (sp_tas st)) (fp (sp_tas st1)) fs \<and>
    (if flow_finished fs then outbox (se_tas e) (sp_tas st1) ms
     else seg_queued e st ms st1 (ctl_bytes e (ctl_of ((conns st c)\<lparr>cn_remote_seq := rx_next_seq fs, cn_local_seq := tx_next_seq fs\<rparr>)) TCP_RST False 0 0)) \<and>
    (\<forall>m. \<exists>st2. tcp_timeout e (st1\<lparr>timeout_mgr := m\<rparr>) (conn_to c) TO_TCP_CLOSED = Some (Inr st2) \<and>
       conns_hold e st2 (remove1 c cs) \<and> app_list st2 (cx_app (ctx_objs st (cn_ctx (conns st c)))) (remove1 c as) \<and> cc_list st2 (removeAll c xs) \<and>
       table_ok (se_crc e) (fp (sp_tas st2)) (flowids st2) (f # free) \<and>
       pm_free st2 = packetmem_free (cn_rx_handle (conns st c)) (packetmem_free (cn_tx_handle (conns st c)) (pm_free st)) \<and>
       ports st2 = port_released (ports st) (cn_local_port (conns st c)) \<and>
       closed_event (shm (sp_tas st2)) (kout_entry st (cn_ctx (conns st c))) (cn_opaque (conns st c)))"
proof -
  obtain st1 where st1: "tcp_close e st c = Some (Inr (0, st1))" "to_armed_map (timeout_mgr st1) (A(conn_to c \<mapsto> TO_TCP_CLOSED))"
    "cc_list st1 (removeAll c xs)" "flow_removed (fpe (se_tas e)) (fp (sp_tas st)) (fp (sp_tas st1)) fs"
    "table_ok (se_crc e) (fp (sp_tas st1)) (flow_id_free (flowids st) f) (f # free)"
    "if flow_finished fs then outbox (se_tas e) (sp_tas st1) ms
     else seg_queued e st ms st1 (ctl_bytes e (ctl_of ((conns st c)\<lparr>cn_remote_seq := rx_next_seq fs, cn_local_seq := tx_next_seq fs\<rparr>)) TCP_RST False 0 0)"
    and f1: "\<And>x. (conns st1 x)\<lparr>cc_next := 0\<rparr> = (if x = c then (conns st c)\<lparr>cn_remote_seq := rx_next_seq fs, cn_local_seq := tx_next_seq fs,
       cn_status := CONN_CLOSED, to_armed := True, cc_next := 0\<rparr> else (conns st x)\<lparr>cc_next := 0\<rparr>)"
    "st1 = st\<lparr>conns := conns st1, timeout_mgr := timeout_mgr st1, sp_tas := sp_tas st1, cc_conns := cc_conns st1, next_conn := next_conn st1\<rparr>"
    "\<And>x. off_queue (sp_tas st) x \<Longrightarrow> shm (sp_tas st1) x = shm (sp_tas st) x \<and> off_queue (sp_tas st1) x"
    and d: "to_due (timeout_mgr st1) = (to_due (timeout_mgr st))(conn_to c := us_from (se_tsc e) (se_tsc_per_us e) 10000)"
    by (rule tcp_close_ok [where st = st and c = c, unfolded c(3,4), OF c(1,2) T s x A]) (rule that; assumption)
  show ?thesis
    using st1 d closed_keeps(1) [OF f1(1)] release_after_close [OF st1(3) _ f1 h k l, unfolded c(3), OF st1(5)]
    by (intro exI [of _ st1]) simp
qed


definition demo_open :: slowpath where
  "demo_open = (demo_tcp demo_mgr)\<lparr>conns := (\<lambda>_. demo_syn_conn\<lparr>cn_status := CONN_OPEN, to_armed := False\<rparr>),
     sp_tas := demo_tas\<lparr>fp := demo_table\<lparr>fp_shm := (\<lambda>_. 0)\<rparr>\<rparr>, flowids := demo_ids\<lparr>freelist := items_next demo_ids 0\<rparr>,
     cc_conns := 64, next_conn := 0\<rparr>"

lemma demo_open_simps [simp]:
  "conns demo_open c = demo_syn_conn\<lparr>cn_status := CONN_OPEN, to_armed := False\<rparr>" "sp_tas demo_open = demo_tas\<lparr>fp := demo_table\<lparr>fp_shm := (\<lambda>_. 0)\<rparr>\<rparr>"
  "flowids demo_open = demo_ids\<lparr>freelist := items_next demo_ids 0\<rparr>" "cc_conns demo_open = 64" "next_conn demo_open = 0"
  "timeout_mgr demo_open = demo_mgr" "tcp_hashtable demo_open = (\<lambda>_. 0)(0 := 64)" "ctx_objs demo_open = ctx_objs (demo_tcp demo_mgr)"
  "app_conns (app_objs demo_open a) = 64"
  by (simp_all add: demo_open_def)

lemma demo_open_ready: "can_send demo_senv demo_open []" "kout_ready demo_senv demo_open 0" "kout_entry demo_open 0 = 61440"
proof -
  let ?t = "demo_tas\<lparr>fp := demo_table\<lparr>fp_shm := (\<lambda>_. 0)\<rparr>\<rparr>"
  have m: "shm ?t = shm demo_tas"
    by simp
  show "can_send demo_senv demo_open []"
    using outbox_cong [OF demo_outbox m] by (simp add: can_send_def)
  have "off_queue ?t = off_queue demo_tas"
    by (rule off_queue_cong) simp_all
  then show "kout_ready demo_senv demo_open 0" "kout_entry demo_open 0 = 61440"
    using kout_ready_cong [OF demo_kout [of demo_mgr 0], of demo_open] m demo_entry by simp_all
qed

lemma demo_open_table:
  "se_crc demo_senv = flow_hash (fpe (se_tas demo_senv))"
  "table_ok (se_crc demo_senv) (fp (sp_tas demo_open)) (flowids demo_open) (map of_nat [1..<FLEXNIC_PL_FLOWST_NUM])"
  "registered (se_crc demo_senv) (fp (sp_tas demo_open)) 0"
proof -
  show h: "se_crc demo_senv = flow_hash (fpe (se_tas demo_senv))"
    by (simp add: demo_senv_def flow_hash_def demo_env_def fun_eq_iff)
  show "table_ok (se_crc demo_senv) (fp (sp_tas demo_open)) (flowids demo_open) (map of_nat [1..<FLEXNIC_PL_FLOWST_NUM])"
    unfolding h demo_open_simps demo_senv_simps demo_tas_simps by (rule table_ok_cong [OF demo_table_ok]) simp_all
  show "registered (se_crc demo_senv) (fp (sp_tas demo_open)) 0"
    using demo_table_registered unfolding h by (simp add: registered_def)
qed

theorem connection_closes_witness:
  "\<exists>st1 st2. tcp_close demo_senv demo_open 64 = Some (Inr (0, st1)) \<and>
     tcp_timeout demo_senv (st1\<lparr>timeout_mgr := demo_mgr\<rparr>) (conn_to 64) TO_TCP_CLOSED = Some (Inr st2) \<and>
     conns_hold demo_senv st2 [] \<and> cc_list st2 [] \<and> closed_event (shm (sp_tas st2)) 61440 77"
proof -
  have c: "cn_status (conns demo_open 64) = CONN_OPEN" "\<not> to_armed (conns demo_open 64)" "cn_flow_id (conns demo_open 64) = 0"
    "unat (0 :: u32) < FLEXNIC_PL_FLOWST_NUM" "to_armed_map (timeout_mgr demo_open) (\<lambda>_. None)" "64 \<in> set [64 :: u64]"
    using demo_timers by simp_all
  have n: "cc_next demo_syn_conn = 0"
    by (simp add: demo_syn_conn_def demo_cn_def)
  have l: "cc_list demo_open [64]" "next_conn demo_open = 0 \<or> next_conn demo_open \<in> set [64]"
    using n by (simp_all add: cc_list_def)
  have h: "conns_hold demo_senv demo_open [64]"
    by (simp add: conns_hold_def conn_table_def to_local_def demo_bucket)
  have k: "kout_ready demo_senv demo_open (cn_ctx (conns demo_open 64))" "app_list demo_open (cx_app (ctx_objs demo_open (cn_ctx (conns demo_open 64)))) [64]"
    using demo_open_ready(2) by (simp_all add: app_list_def)
  show ?thesis
    using connection_closes [OF c(1-3) refl demo_open_table c(4) demo_open_ready(1) l c(6) c(5) _ _ h c(6) k c(6)] demo_open_ready(3)
    by (auto; metis)
qed

end
