(* ===== verification/Tcp_Open.thy ===== *)
theory Tcp_Open
  imports Tcp_Close
begin

text \<open>Opening a connection, \<^verbatim>\<open>tcp_open\<close> of \<^verbatim>\<open>tas/slow/tcp.c\<close>.\<close>

unbundle bit_operations_syntax

text \<open>What a new connection gets: its buffers, and the fields that \<^verbatim>\<open>tcp_open\<close> sets.\<close>

definition with_bufs :: "slow_env \<Rightarrow> packetmem_handle \<Rightarrow> packetmem_handle \<Rightarrow> connection \<Rightarrow> connection" where
  "with_bufs e rxh txh c = c\<lparr>cn_rx_handle := rxh, cn_tx_handle := txh, cn_rx_buf := ph_base rxh, cn_rx_len := ucast (cfg_tcp_rxbuf_len (se_cfg e)),
     cn_tx_buf := ph_base txh, cn_tx_len := ucast (cfg_tcp_txbuf_len (se_cfg e)), to_armed := False\<rparr>"

definition with_peer :: "slow_env \<Rightarrow> u64 \<Rightarrow> u64 \<Rightarrow> u32 \<Rightarrow> u16 \<Rightarrow> u16 \<Rightarrow> u32 \<Rightarrow> connection \<Rightarrow> connection" where
  "with_peer e ctx op rip rport p db c = c\<lparr>cn_ctx := ctx, cn_opaque := op, cn_status := CONN_ARP_PENDING, cn_remote_ip := rip,
     cn_local_ip := cfg_ip (se_cfg e), cn_remote_port := rport, cn_local_port := p, cn_local_seq := 0,
     cn_remote_seq := 0, cnt_tx_pending := 0, cn_db_id := db, cn_flags := 0, comp_notify_fd := -1, comp_status := 0\<rparr>"

lemma conn_alloc_ok:
  assumes "ma_conn al = c" "c \<noteq> 0" "packetmem_alloc (ma_rx al) (cfg_tcp_rxbuf_len (se_cfg e)) (pm_free st) = Some (rxh, fl)"
    "packetmem_alloc (ma_tx al) (cfg_tcp_txbuf_len (se_cfg e)) fl = Some (txh, fl')"
  shows "conn_alloc e al st = (c, mod_conn (st\<lparr>pm_free := fl'\<rparr>) c (with_bufs e rxh txh))"
proof -
  have pf: "pm_free (st\<lparr>pm_free := fl\<rparr>) = fl" "st\<lparr>pm_free := fl, pm_free := fl'\<rparr> = st\<lparr>pm_free := fl'\<rparr>"
    by simp_all
  show ?thesis
    unfolding conn_alloc_def Let_def assms(1) assms(3) option.case prod.case pf assms(4) with_bufs_def [abs_def]
    using assms(2) by (simp only: if_False)
qed

text \<open>The new connection up to the search for the address of the next hop.\<close>

definition new_conn :: "slow_env \<Rightarrow> slowpath \<Rightarrow> u64 \<Rightarrow> packetmem_handle \<Rightarrow> packetmem_handle \<Rightarrow> packetmem_handle list \<Rightarrow> u16 \<Rightarrow> u64 \<Rightarrow> u64 \<Rightarrow> u32 \<Rightarrow> u16 \<Rightarrow> u32 \<Rightarrow> slowpath" where
  "new_conn e st c rxh txh fl p ctx op rip rport db =
     mod_conn (st\<lparr>pm_free := fl, port_eph_hint := port_next p\<rparr>) c (\<lambda>x. with_peer e ctx op rip rport p db (with_bufs e rxh txh x))"

lemma mod_conn_hint: "mod_conn ((mod_conn st c f)\<lparr>port_eph_hint := h\<rparr>) c g = mod_conn (st\<lparr>port_eph_hint := h\<rparr>) c (\<lambda>x. g (f x))"
  by (cases st) (simp add: mod_conn_conns)

lemma tcp_open_run:
  assumes al: "ma_conn al = c" "c \<noteq> 0" "packetmem_alloc (ma_rx al) (cfg_tcp_rxbuf_len (se_cfg e)) (pm_free st) = Some (rxh, fl)"
      "packetmem_alloc (ma_tx al) (cfg_tcp_txbuf_len (se_cfg e)) fl = Some (txh, fl')"
    and p: "find (port_free (ports st)) (port_order (port_eph_hint st)) = Some p" "p \<noteq> 0"
  shows "tcp_open e al st ctx op rip rport db =
    bind_run (routing_resolve e (ma_arp al) (new_conn e st c rxh txh fl' p ctx op rip rport db) c rip c) (\<lambda>(ret, st).
      if ret < 0 then Some (Inr (-1, 0, conn_free st c))
      else bind_run (if ret = 0 then conn_arp_done e (conn_register e st c) c else Some (Inr (conn_register e st c))) (\<lambda>st.
        Some (Inr (0, c, st\<lparr>ports := (ports st)(p := c OR PORT_TYPE_CONN)\<rparr>))))"
proof -
  let ?st1 = "mod_conn (st\<lparr>pm_free := fl'\<rparr>) c (with_bufs e rxh txh)"
  have "port_alloc ?st1 = Some (p, ?st1\<lparr>port_eph_hint := port_next p\<rparr>)"
    using p(1) by (simp add: port_alloc_find)
  then show ?thesis
    unfolding tcp_open_def conn_alloc_ok [OF al] prod.case with_peer_def [symmetric] Let_def mod_conn_hint new_conn_def
    using al(2) p(2) by (simp only: if_False option.case prod.case mod_conn_hint)
qed

lemma conn_register_sends:
  assumes h: "conns_hold e st cs" "c \<notin> set cs" "c \<noteq> 0" "cn_local_ip (conns st c) = cfg_ip (se_cfg e)" and s: "can_send e st ms"
    and A: "to_armed_map (timeout_mgr st) A" "A (conn_to c) = None" "conn_to c \<noteq> 0" "\<not> to_armed (conns st c)"
    and to: "0 < tcp_handshake_to (se_cfg e)" "tcp_handshake_to (se_cfg e) \<le> 0x4000000"
  obtains st' b where "conn_arp_done e (conn_register e st c) c = Some (Inr st')" "conns_hold e st' (c # cs)"
    "conns st' = (conns st)(c := (conns st c)\<lparr>ht_next := b, cn_status := CONN_SYN_SENT, to_attempts := 0, cn_timeout := tcp_handshake_to (se_cfg e), to_armed := True\<rparr>)"
    "to_armed_map (timeout_mgr st') (A(conn_to c \<mapsto> TO_TCP_HANDSHAKE))" "sent e st ms st' (ctl_bytes e (ctl_of (conns st c)) SYN_FLAGS True 0 TCP_MSS)"
    "pm_free st' = pm_free st" "ports st' = ports st" "arp_entries st' = arp_entries st" "arp_table st' = arp_table st" "conn_async_q st' = conn_async_q st"
    "due_around e (timeout_mgr st) (conn_to c) (tcp_handshake_to (se_cfg e)) (timeout_mgr st')"
proof -
  define st5 where "st5 = conn_register e st c"
  have h5: "conns_hold e st5 (c # cs)"
    unfolding st5_def using conn_reg.register_law [OF h(1) _ h(2)] h(3,4) by blast
  have c5: "conns st5 = (conns st)(c := (conns st c)\<lparr>ht_next := tcp_hashtable st (conn_bucket e (conns st c))\<rparr>)" "sp_tas st5 = sp_tas st"
    "timeout_mgr st5 = timeout_mgr st" "pm_free st5 = pm_free st" "ports st5 = ports st" "arp_entries st5 = arp_entries st" "arp_table st5 = arp_table st"
    "conn_async_q st5 = conn_async_q st"
    by (simp_all add: st5_def conn_register_def Let_def)
  have s5: "can_send e st5 ms" "to_armed_map (timeout_mgr st5) A" "\<not> to_armed (conns st5 c)"
    using s A(1,4) by (simp_all add: can_send_def c5)
  obtain st' where st': "conn_arp_done e st5 c = Some (Inr st')"
    "conns st' = (conns st5)(c := (conns st5 c)\<lparr>cn_status := CONN_SYN_SENT, to_attempts := 0, cn_timeout := tcp_handshake_to (se_cfg e), to_armed := True\<rparr>)"
    "to_armed_map (timeout_mgr st') (A(conn_to c \<mapsto> TO_TCP_HANDSHAKE))"
    "sent e st5 ms st' (ctl_bytes e (ctl_of (conns st5 c)) SYN_FLAGS True 0 TCP_MSS)"
    "st' = st5\<lparr>conns := conns st', tcp_rng := tcp_rng st', timeout_mgr := timeout_mgr st', sp_tas := sp_tas st'\<rparr>"
    "due_around e (timeout_mgr st5) (conn_to c) (tcp_handshake_to (se_cfg e)) (timeout_mgr st')"
    by (rule conn_arp_done_ok [OF s5(1,2) A(2,3) s5(3) to]) (rule that; assumption)
  have c6: "tcp_hashtable st' = tcp_hashtable st5" "pm_free st' = pm_free st" "ports st' = ports st" "arp_entries st' = arp_entries st" "arp_table st' = arp_table st"
    "conn_async_q st' = conn_async_q st"
    by (subst st'(5), simp add: c5)+
  have "conns_hold e st' (c # cs)"
    by (rule conns_hold_cong [OF h5 c6(1)]) (auto simp: st'(2) conn_bucket_def)
  moreover have "ctl_of (conns st5 c) = ctl_of (conns st c)"
    by (simp add: ctl_of_def c5)
  ultimately show thesis
    using st'(1-3,6) c6(2-) sent_cong [OF st'(4) c5(2) refl] by (intro that [of st']) (simp_all add: st5_def [symmetric] c5)
qed

text \<open>
  C5: Opening a connection.  With memory for its buffers, a free port and a resolved next hop, the
  connection gets the first free port of the search order, is registered for the packets of its
  peer, and a SYN to the address of the next hop is queued.  The handshake timer is armed to fire after
  a random time between one half and three halves of the configured time; other connections, the ARP cache
  and the other timers stay as they are.
\<close>

theorem tcp_open_sends_syn:
  assumes al: "ma_conn al = c" "c \<noteq> 0" "packetmem_alloc (ma_rx al) (cfg_tcp_rxbuf_len (se_cfg e)) (pm_free st) = Some (rxh, fl)"
      "packetmem_alloc (ma_tx al) (cfg_tcp_txbuf_len (se_cfg e)) fl = Some (txh, fl')"
    and p: "find (port_free (ports st)) (port_order (port_eph_hint st)) = Some p" "p \<noteq> 0"
    and r: "route_walk (routing_table st) rip = Some (Some hop)" and t: "arp_tabl st M q" "M hop = Some (x, Resolved m)"
    and h: "conns_hold e st cs" "c \<notin> set cs" and s: "can_send e st ms"
    and A: "to_armed_map (timeout_mgr st) A" "A (conn_to c) = None" "conn_to c \<noteq> 0"
    and to: "0 < tcp_handshake_to (se_cfg e)" "tcp_handshake_to (se_cfg e) \<le> 0x4000000"
  shows "\<exists>st'. tcp_open e al st ctx op rip rport db = Some (Inr (0, c, st')) \<and> conns_hold e st' (c # cs) \<and>
    cn_status (conns st' c) = CONN_SYN_SENT \<and> cn_ctx (conns st' c) = ctx \<and> cn_opaque (conns st' c) = op \<and> (\<forall>y. y \<noteq> c \<longrightarrow> conns st' y = conns st y) \<and>
    (\<forall>pkt. conn_matches pkt (conns st' c) \<longleftrightarrow>
       f_beui32 (ip_src (ip pkt)) = rip \<and> f_beui16 (tcp_src (tcp pkt)) = rport \<and> f_beui16 (tcp_dest (tcp pkt)) = p) \<and>
    ports st' = (ports st)(p := c OR PORT_TYPE_CONN) \<and> pm_free st' = fl' \<and> arp_tabl st' M q \<and>
    to_armed_map (timeout_mgr st') (A(conn_to c \<mapsto> TO_TCP_HANDSHAKE)) \<and>
    due_around e (timeout_mgr st) (conn_to c) (tcp_handshake_to (se_cfg e)) (timeout_mgr st') \<and>
    sent e st ms st' (ctl_bytes e \<lparr>ct_remote_mac = mac_u64 m, ct_remote_ip = rip, ct_remote_port = rport, ct_local_port = p, ct_local_seq = 0,
      ct_remote_seq = 0\<rparr> SYN_FLAGS True 0 TCP_MSS)"
proof -
  define st3 where "st3 = new_conn e st c rxh txh fl' p ctx op rip rport db"
  have t3: "arp_tabl st3 M q"
    by (rule arp_tabl_cong [OF t(1)]) (simp_all add: st3_def new_conn_def with_peer_def with_bufs_def)
  obtain st4 where st4: "arp_request e (ma_arp al) st3 c hop c = Some (Inr (0, st4))" "st4 = mod_conn (mod_conn st3 c (cn_remote_mac_update (\<lambda>_. 0))) c (put_mac m)"
    "arp_tabl st4 M q" "cn_remote_mac (conns st4 c) = mac_u64 m"
    by (rule arp_request_hit [OF t3 t(2)])
  have c4: "\<And>y. y \<noteq> c \<Longrightarrow> conns st4 y = conns st y" "cn_local_ip (conns st4 c) = cfg_ip (se_cfg e)" "cn_remote_ip (conns st4 c) = rip"
    "cn_remote_port (conns st4 c) = rport" "cn_local_port (conns st4 c) = p" "cn_local_seq (conns st4 c) = 0" "cn_remote_seq (conns st4 c) = 0"
    "\<not> to_armed (conns st4 c)" "tcp_hashtable st4 = tcp_hashtable st" "sp_tas st4 = sp_tas st" "timeout_mgr st4 = timeout_mgr st"
    "pm_free st4 = fl'" "ports st4 = ports st" "cn_ctx (conns st4 c) = ctx" "cn_opaque (conns st4 c) = op"
    unfolding st4(2) st3_def new_conn_def by (simp_all add: put_mac_def with_peer_def with_bufs_def)
  have h4: "conns_hold e st4 cs"
    by (rule conns_hold_cong [OF h(1) c4(9)]) (use h(2) c4(1) in \<open>metis\<close>)
  have s4: "can_send e st4 ms" "to_armed_map (timeout_mgr st4) A"
    using s A(1) by (simp_all add: can_send_def c4)
  obtain st6 b where st6: "conn_arp_done e (conn_register e st4 c) c = Some (Inr st6)" "conns_hold e st6 (c # cs)"
    "conns st6 = (conns st4)(c := (conns st4 c)\<lparr>ht_next := b, cn_status := CONN_SYN_SENT, to_attempts := 0, cn_timeout := tcp_handshake_to (se_cfg e), to_armed := True\<rparr>)"
    "to_armed_map (timeout_mgr st6) (A(conn_to c \<mapsto> TO_TCP_HANDSHAKE))" "sent e st4 ms st6 (ctl_bytes e (ctl_of (conns st4 c)) SYN_FLAGS True 0 TCP_MSS)"
    "pm_free st6 = pm_free st4" "ports st6 = ports st4" "arp_entries st6 = arp_entries st4" "arp_table st6 = arp_table st4" "conn_async_q st6 = conn_async_q st4"
    "due_around e (timeout_mgr st4) (conn_to c) (tcp_handshake_to (se_cfg e)) (timeout_mgr st6)"
    by (rule conn_register_sends [OF h4 h(2) al(2) c4(2) s4 A(2,3) c4(8) to])
  define st' where "st' = st6\<lparr>ports := (ports st6)(p := c OR PORT_TYPE_CONN)\<rparr>"
  have "tcp_open e al st ctx op rip rport db = Some (Inr (0, c, st'))"
  proof -
    have "routing_table st3 = routing_table st"
      by (simp add: st3_def new_conn_def)
    then have "routing_resolve e (ma_arp al) st3 c rip c = Some (Inr (0, st4))"
      using r st4(1) by (simp add: routing_resolve_def)
    then show ?thesis
      unfolding tcp_open_run [OF al p] st3_def [symmetric] using st6(1) by (simp add: st'_def)
  qed
  moreover have "conns_hold e st' (c # cs)" "arp_tabl st' M q"
    by (rule conns_hold_cong [OF st6(2)], simp_all add: st'_def)
      (rule arp_tabl_cong [OF st4(3)], simp_all add: st6)
  moreover have "ctl_of (conns st4 c) = \<lparr>ct_remote_mac = mac_u64 m, ct_remote_ip = rip, ct_remote_port = rport, ct_local_port = p, ct_local_seq = 0, ct_remote_seq = 0\<rparr>"
    by (simp add: ctl_of_def c4 st4(4))
  then have "sent e st ms st' (ctl_bytes e \<lparr>ct_remote_mac = mac_u64 m, ct_remote_ip = rip, ct_remote_port = rport, ct_local_port = p, ct_local_seq = 0,
      ct_remote_seq = 0\<rparr> SYN_FLAGS True 0 TCP_MSS)"
    using sent_cong [OF st6(5) c4(10), of st'] by (simp add: st'_def)
  ultimately show ?thesis
    using st6 by (intro exI [of _ st']) (auto simp: st'_def c4 conn_matches_def)
qed

definition demo_net_up :: slowpath where
  "demo_net_up = (demo_slow demo_mgr)\<lparr>routing_table := [row (0, 0, 0)]\<rparr>"

lemma demo_net_up_ready:
  "packetmem_alloc True (cfg_tcp_rxbuf_len (se_cfg demo_senv)) (pm_free demo_net_up) = Some (\<lparr>ph_base = 0, ph_len = 8192\<rparr>, [\<lparr>ph_base = 8192, ph_len = 57344\<rparr>])"
  "packetmem_alloc True (cfg_tcp_txbuf_len (se_cfg demo_senv)) [\<lparr>ph_base = 8192, ph_len = 57344\<rparr>] =
     Some (\<lparr>ph_base = 8192, ph_len = 8192\<rparr>, [\<lparr>ph_base = 16384, ph_len = 49152\<rparr>])"
  "find (port_free (ports demo_net_up)) (port_order (port_eph_hint demo_net_up)) = Some 8192"
  "route_walk (routing_table demo_net_up) 0x0A000001 = Some (Some 0x0A000001)"
  "arp_tabl demo_net_up demo_arp []" "conns_hold demo_senv demo_net_up []" "can_send demo_senv demo_net_up []"
  "to_armed_map (timeout_mgr demo_net_up) (\<lambda>_. None)" "tcp_handshake_to (se_cfg demo_senv) = 10000"
proof -
  show "packetmem_alloc True (cfg_tcp_rxbuf_len (se_cfg demo_senv)) (pm_free demo_net_up) = Some (\<lparr>ph_base = 0, ph_len = 8192\<rparr>, [\<lparr>ph_base = 8192, ph_len = 57344\<rparr>])"
    by (simp add: demo_net_up_def demo_slow_def cc_state.defs slowpath.defs demo_cc_def demo_cfg_def)
  show "packetmem_alloc True (cfg_tcp_txbuf_len (se_cfg demo_senv)) [\<lparr>ph_base = 8192, ph_len = 57344\<rparr>] =
     Some (\<lparr>ph_base = 8192, ph_len = 8192\<rparr>, [\<lparr>ph_base = 16384, ph_len = 49152\<rparr>])"
    by (simp add: demo_cfg_def)
  show "find (port_free (ports demo_net_up)) (port_order (port_eph_hint demo_net_up)) = Some 8192"
    by (simp add: demo_net_up_def port_order_def) (subst port_range_Cons, simp_all add: port_free_def)
  show "route_walk (routing_table demo_net_up) 0x0A000001 = Some (Some 0x0A000001)"
    by (subst route_walk.simps) (simp add: demo_net_up_def resolve_def row_def demo_net_mask)
  show "arp_tabl demo_net_up demo_arp []"
    by (rule arp_tabl_cong [OF demo_arp_tabl [of demo_mgr]]) (simp_all add: demo_net_up_def)
  show "conns_hold demo_senv demo_net_up []" "can_send demo_senv demo_net_up []" "to_armed_map (timeout_mgr demo_net_up) (\<lambda>_. None)"
    using demo_outbox demo_timers by (simp_all add: demo_net_up_def conns_hold_def conn_table_def can_send_def to_local_def)
  show "tcp_handshake_to (se_cfg demo_senv) = 10000"
    by (simp add: demo_cfg_def)
qed

theorem tcp_open_sends_syn_witness:
  "\<exists>st'. tcp_open demo_senv \<lparr>ma_conn = 128, ma_rx = True, ma_tx = True, ma_arp = 0\<rparr> demo_net_up 0 77 0x0A000001 80 0 = Some (Inr (0, 128, st')) \<and>
     cn_status (conns st' 128) = CONN_SYN_SENT \<and> ports st' 8192 = 128 OR PORT_TYPE_CONN \<and> pm_free st' = [\<lparr>ph_base = 16384, ph_len = 49152\<rparr>]"
proof -
  have m: "demo_arp 0x0A000001 = Some (4096, Resolved (replicate 6 0))" "128 \<notin> set []" "conn_to 128 \<noteq> 0"
    by (simp_all add: demo_arp_def)
  show ?thesis
    using tcp_open_sends_syn [of "\<lparr>ma_conn = 128, ma_rx = True, ma_tx = True, ma_arp = 0\<rparr>" 128, simplified conn_mallocs.select_convs,
        OF refl _ demo_net_up_ready(1,2,3) _ demo_net_up_ready(4,5) m(1) demo_net_up_ready(6) m(2) demo_net_up_ready(7,8) refl m(3),
        of 0 77 80 0] demo_net_up_ready(9)
    by (simp; elim exE) auto
qed

end
