(* ===== verification/Appif_Spec.thy ===== *)
theory Appif_Spec
  imports Appif_Ctx Conn_Lifecycle Tcp_Open
begin

text \<open>
  What the slow path does with the requests of an application to close or move a connection and to accept one.
\<close>

unbundle bit_operations_syntax

lemma app_find_path: "path 0 nxt h xs \<Longrightarrow> app_find nxt ok h = Some (case find ok xs of None \<Rightarrow> 0 | Some c \<Rightarrow> c)"
proof (induction xs arbitrary: h)
  case (Cons x xs)
  then show ?case
    by (subst app_find.simps) simp
qed (subst app_find.simps, simp)

section \<open>Responses\<close>

text \<open>A response as the application reads it.\<close>

definition reply_event :: "mem \<Rightarrow> u64 \<Rightarrow> u8 \<Rightarrow> nat \<Rightarrow> u64 \<Rightarrow> int \<Rightarrow> bool" where
  "reply_event m a ty off op status \<longleftrightarrow> mem_view m a 63 = ty \<and> get_u64 (mem_view m a) 0 = op \<and> get_u32 (mem_view m a) off = word_of_int status"

definition reply_writes :: "u8 \<Rightarrow> nat \<Rightarrow> u64 \<Rightarrow> int \<Rightarrow> writes" where
  "reply_writes ty off op status = [(0, u64_bytes op), (off, u32_bytes (word_of_int status)), (63, [ty])]"

lemma reply_writes_event:
  assumes "8 \<le> off" "off \<le> 59"
  shows "reply_event (mem_puts m a (reply_writes ty off op status)) a ty off op status"
proof -
  let ?b = "puts_buf (mem_view m a) (reply_writes ty off op status)" and ?v = "mem_view (mem_puts m a (reply_writes ty off op status)) a"
  have v: "?v i = ?b i" if "i < 64" for i
    by (rule mem_view_puts) (use that in simp)
  have "disjoint_writes (reply_writes ty off op status)"
    using assms by (simp add: reply_writes_def disjoint_writes_def)
  note h = has_bytes_written [OF this]
  have cv: "has_bytes ?v k bs" if "has_bytes ?b k bs" "k + length bs \<le> 64" for k bs
    by (rule has_bytes_cong [OF that(1)]) (use that(2) v in simp)
  have "has_bytes ?v 0 (u64_bytes op)" "has_bytes ?v off (u32_bytes (word_of_int status))" "has_bytes ?v 63 [ty]"
    by (rule cv, rule h, simp add: reply_writes_def, use assms in simp)+
  then show ?thesis
    unfolding reply_event_def by (auto simp: has_bytes_Cons dest: get_u64_bytes get_u32_bytes)
qed

lemma kout_reply_ok:
  assumes "cx_evfd (ctx_objs st ctx) \<noteq> 0" "evfd_write_ok (se_tas e)"
  obtains w l where "kout_reply e st ctx kout off op status ty =
    Some (Inr (1, st\<lparr>ctx_objs := (ctx_objs st)(ctx := (ctx_objs st ctx)\<lparr>cx_last_ts := l\<rparr>),
      sp_tas := (set_shm (sp_tas st) (mem_puts (shm (sp_tas st)) kout (reply_writes ty off op status)))\<lparr>evfd_writes := w\<rparr>\<rparr>))"
proof -
  let ?st = "st\<lparr>sp_tas := set_shm (sp_tas st) (mem_puts (shm (sp_tas st)) kout (reply_writes ty off op status))\<rparr>"
  have put: "entry_put (entry_put (entry_put st kout 0 (u64_bytes op)) kout off (u32_bytes (word_of_int status))) kout 63 [ty] = ?st"
    by (simp add: entry_put_def reply_writes_def set_shm_def)
  obtain w l where "appif_ctx_kick e ?st ctx = Inr ((mod_ctx ?st ctx (cx_last_ts_update (\<lambda>_. l)))
      \<lparr>sp_tas := (sp_tas ?st)\<lparr>evfd_writes := evfd_writes (sp_tas ?st) @ w\<rparr>\<rparr>)"
    by (rule appif_ctx_kick_ok [of ?st ctx e]) (use assms in simp_all)
  then show thesis
    by (intro that) (simp add: kout_reply_def Let_def put mod_ctx_def)
qed

section \<open>Serving a request\<close>

text \<open>There is a request of a type at the queue's position, and room for the response; the two entries do not meet.\<close>

definition request :: "slow_env \<Rightarrow> slowpath \<Rightarrow> u64 \<Rightarrow> u8 \<Rightarrow> bool" where
  "request e st ctx ty \<longleftrightarrow> kout_ready e st ctx \<and> mem_view (shm (sp_tas st)) (kin_entry st ctx) 63 = ty \<and>
     (\<forall>x. unat (x - kin_entry st ctx) < 64 \<longrightarrow> 64 \<le> unat (x - kout_entry st ctx) \<and> off_queue (sp_tas st) x)"

text \<open>
  A poll has taken the request; the fast path is now in state \<open>f\<close>, and the other entries of the shared memory and all
  the slow path's objects are as they were.
\<close>

definition answered :: "slowpath \<Rightarrow> fastpath \<Rightarrow> slowpath \<Rightarrow> u64 \<Rightarrow> bool" where
  "answered st f st' ctx \<longleftrightarrow>
     kin_pos (ctx_objs st' ctx) = ring_next (kin_pos (ctx_objs st ctx)) 1 (kin_len (ctx_objs st ctx)) \<and>
     kout_pos (ctx_objs st' ctx) = ring_next (kout_pos (ctx_objs st ctx)) 1 (kout_len (ctx_objs st ctx)) \<and>
     mem_view (shm (sp_tas st')) (kin_entry st ctx) 63 = KERNEL_APPOUT_INVALID \<and>
     (\<forall>x. 64 \<le> unat (x - kin_entry st ctx) \<and> 64 \<le> unat (x - kout_entry st ctx) \<longrightarrow> shm (sp_tas st') x = shm (sp_tas st) x) \<and>
     fp (sp_tas st') = f\<lparr>fp_shm := shm (sp_tas st')\<rparr> \<and> st'\<lparr>sp_tas := sp_tas st, ctx_objs := ctx_objs st\<rparr> = st"

lemma mem_put_type: "mem_put m a 63 [v] x = (if unat (x - a) = 63 then v else m x)"
  by (auto simp: mem_put_def Let_def)

lemma reply_within: "8 \<le> off \<Longrightarrow> off \<le> 59 \<Longrightarrow> within 64 (reply_writes ty off op status)"
  by (simp add: reply_writes_def)

text \<open>The memory after a response and the removal of the request.\<close>

lemma replied_memory:
  fixes m :: mem and a k op :: u64 and ty :: u8 and status :: int
  assumes off: "8 \<le> off" "off \<le> 59" and ak: "\<And>x. unat (x - k) < 64 \<Longrightarrow> 64 \<le> unat (x - a)"
  defines "m' \<equiv> mem_put (mem_puts m a (reply_writes ty off op status)) k 63 [0]"
  shows "mem_view m' k 63 = 0" "reply_event m' a ty off op status" "64 \<le> unat (x - k) \<and> 64 \<le> unat (x - a) \<Longrightarrow> m' x = m x"
proof -
  show "mem_view m' k 63 = 0"
    by (simp add: m'_def mem_view_def mem_put_type)
  have "m' x = mem_puts m a (reply_writes ty off op status) x" if "unat (x - a) < 64" for x
    using ak [of x] that by (auto simp: m'_def mem_put_type)
  then have "mem_view m' a i = mem_view (mem_puts m a (reply_writes ty off op status)) a i" if "i < 64" for i
    using that by (simp add: mem_view_def unat_of_nat)
  then show "reply_event m' a ty off op status"
    using reply_writes_event [OF off, of m a ty op status] off by (simp add: reply_event_def get_u64_def get_u32_def get_beui32_def)
  show "64 \<le> unat (x - k) \<and> 64 \<le> unat (x - a) \<Longrightarrow> m' x = m x"
    by (auto simp: m'_def mem_put_type mem_puts_outside [OF reply_within [OF off]])
qed

lemma poll_replied:
  assumes r: "request e st ctx ty" and ty: "ty \<noteq> KERNEL_APPOUT_INVALID" and off: "8 \<le> off" "off \<le> 59" and f: "fp_shm f = shm (sp_tas st)"
    and h: "kin_handle e al la st sc ty app ctx (kin_entry st ctx) (kout_entry st ctx) =
      bind_run (kout_reply e (st\<lparr>sp_tas := (sp_tas st)\<lparr>fp := f\<rparr>\<rparr>) ctx (kout_entry st ctx) off op status rt) (\<lambda>(n, st). Some (Inr (n, st, sc)))"
  shows "\<exists>st'. appif_ctx_poll e al la st sc app ctx = Some (Inr (1, st', sc)) \<and> answered st f st' ctx \<and>
    reply_event (shm (sp_tas st')) (kout_entry st ctx) rt off op status"
proof -
  let ?st = "st\<lparr>sp_tas := (sp_tas st)\<lparr>fp := f\<rparr>\<rparr>" and ?m = "mem_puts (shm (sp_tas st)) (kout_entry st ctx) (reply_writes rt off op status)"
  have k: "kout_room st ctx" "cx_evfd (ctx_objs ?st ctx) \<noteq> 0" "evfd_write_ok (se_tas e)" "entry_at st (kin_entry st ctx) 63 = ty"
    using r by (simp_all add: request_def kout_ready_def entry_at_def)
  obtain w l where w: "kout_reply e ?st ctx (kout_entry st ctx) off op status rt =
    Some (Inr (1, ?st\<lparr>ctx_objs := (ctx_objs ?st)(ctx := (ctx_objs ?st ctx)\<lparr>cx_last_ts := l\<rparr>),
      sp_tas := (set_shm (sp_tas ?st) (mem_puts (shm (sp_tas ?st)) (kout_entry st ctx) (reply_writes rt off op status)))\<lparr>evfd_writes := w\<rparr>\<rparr>))"
    using kout_reply_ok [OF k(2,3)] by blast
  define st' where "st' = st\<lparr>sp_tas := (sp_tas st)\<lparr>fp := f\<lparr>fp_shm := mem_put ?m (kin_entry st ctx) 63 [0]\<rparr>, evfd_writes := w\<rparr>,
    ctx_objs := (ctx_objs st)(ctx := (ctx_objs st ctx)\<lparr>cx_last_ts := l, kin_pos := ring_next (kin_pos (ctx_objs st ctx)) 1 (kin_len (ctx_objs st ctx)),
      kout_pos := ring_next (kout_pos (ctx_objs st ctx)) 1 (kout_len (ctx_objs st ctx))\<rparr>)\<rparr>"
  have "appif_ctx_poll e al la st sc app ctx = Some (Inr (1, st', sc))"
    using k(1,4) ty h w f by (simp add: appif_ctx_poll_def Let_def st'_def entry_put_def mod_ctx_def set_shm_def)
  moreover have "answered st f st' ctx" "reply_event (shm (sp_tas st')) (kout_entry st ctx) rt off op status"
    using replied_memory [OF off, of "kin_entry st ctx" "kout_entry st ctx"] r by (simp_all add: answered_def st'_def request_def)
  ultimately show ?thesis
    by blast
qed

section \<open>Requests about a connection\<close>

text \<open>The connection that a request names, the first of the application's list that fits.\<close>

definition named_conn :: "slowpath \<Rightarrow> u64 \<Rightarrow> u64 list \<Rightarrow> u64 option" where
  "named_conn st ctx as = find (\<lambda>c. kin_names (entry_at st (kin_entry st ctx)) (conns st c)) as"

lemma named_conn_find:
  "app_list st app as \<Longrightarrow>
    app_find (\<lambda>c. app_next (conns st c)) (\<lambda>c. kin_names (entry_at st (kin_entry st ctx)) (conns st c)) (app_conns (app_objs st app)) =
      Some (case named_conn st ctx as of None \<Rightarrow> 0 | Some c \<Rightarrow> c)"
  unfolding app_list_def named_conn_def by (elim conjE) (rule app_find_path)

lemma named_conn_nz:
  assumes "app_list st app as" "named_conn st ctx as = Some c"
  shows "c \<in> set as" "c \<noteq> 0"
proof -
  show "c \<in> set as"
    using assms(2) by (auto simp: named_conn_def find_Some_iff)
  then show "c \<noteq> 0"
    using assms(1) path_inval [of 0 _ _ as] by (auto simp: app_list_def)
qed

abbreviation (input) with_fp :: "slowpath \<Rightarrow> fastpath \<Rightarrow> slowpath" where
  "with_fp st f \<equiv> st\<lparr>sp_tas := (sp_tas st)\<lparr>fp := f\<rparr>\<rparr>"

lemma with_fp_same: "with_fp st (fp (sp_tas st)) = st"
  by simp

lemma close_unknown:
  assumes "app_list st app as" "named_conn st ctx as = None"
  shows "kin_conn_close e st app ctx (kin_entry st ctx) kout =
    kout_reply e st ctx kout 8 (get_u64 (entry_at st (kin_entry st ctx)) 0) (-1) KERNEL_APPIN_STATUS_CONN_CLOSE"
  unfolding kin_conn_close_def Let_def named_conn_find [OF assms(1)] assms(2) option.case by (simp only: simp_thms if_True)

lemma move_unknown:
  assumes "app_list st app as" "named_conn st ctx as = None"
  shows "kin_conn_move e st app ctx (kin_entry st ctx) kout =
    kout_reply e st ctx kout 8 (get_u64 (entry_at st (kin_entry st ctx)) 0) (-1) KERNEL_APPIN_STATUS_CONN_MOVE"
  unfolding kin_conn_move_def Let_def named_conn_find [OF assms(1)] assms(2) option.case by (simp only: simp_thms if_True)

lemma handle_close: "kin_handle e al la st sc KERNEL_APPOUT_CONN_CLOSE app ctx kin kout = bind_run (kin_conn_close e st app ctx kin kout) (\<lambda>(n, st). Some (Inr (n, st, sc)))"
  and handle_move: "kin_handle e al la st sc KERNEL_APPOUT_CONN_MOVE app ctx kin kout = bind_run (kin_conn_move e st app ctx kin kout) (\<lambda>(n, st). Some (Inr (n, st, sc)))"
  by (simp_all add: kin_handle_def Let_def)

text \<open>
  C12: A request to close or to move a connection that the application does not have, by its
  addresses, ports and opaque value, is refused: the poll takes the request and answers it with
  status -1 and the request's opaque value; the fast path, the connections and all other memory stay as they are.
\<close>

theorem request_unknown_refused:
  assumes r: "request e st ctx ty" and ty: "ty = KERNEL_APPOUT_CONN_CLOSE \<or> ty = KERNEL_APPOUT_CONN_MOVE"
    and l: "app_list st app as" "named_conn st ctx as = None"
  shows "\<exists>st'. appif_ctx_poll e al la st sc app ctx = Some (Inr (1, st', sc)) \<and> answered st (fp (sp_tas st)) st' ctx \<and>
    reply_event (shm (sp_tas st')) (kout_entry st ctx)
      (if ty = KERNEL_APPOUT_CONN_CLOSE then KERNEL_APPIN_STATUS_CONN_CLOSE else KERNEL_APPIN_STATUS_CONN_MOVE) 8 (get_u64 (entry_at st (kin_entry st ctx)) 0) (-1)"
proof -
  let ?rt = "if ty = KERNEL_APPOUT_CONN_CLOSE then KERNEL_APPIN_STATUS_CONN_CLOSE else KERNEL_APPIN_STATUS_CONN_MOVE"
  have "kin_handle e al la st sc ty app ctx (kin_entry st ctx) (kout_entry st ctx) =
    bind_run (kout_reply e (with_fp st (fp (sp_tas st))) ctx (kout_entry st ctx) 8 (get_u64 (entry_at st (kin_entry st ctx)) 0) (-1) ?rt) (\<lambda>(n, st). Some (Inr (n, st, sc)))"
    unfolding with_fp_same using ty by (elim disjE) (simp_all only: handle_close handle_move close_unknown [OF l] move_unknown [OF l], simp_all)
  then show ?thesis
    by (intro poll_replied [OF r]) (use ty in auto)
qed

text \<open>Moving a flow to another context.\<close>

lemma ucast_up_down: "ucast (ucast (x :: u16) :: u32) = x"
  by (rule bit_word_eqI) (simp add: bit_simps)

definition app_ctxs :: "slowpath \<Rightarrow> u64 \<Rightarrow> u64 list \<Rightarrow> bool" where
  "app_ctxs st app xs \<longleftrightarrow> path 0 (\<lambda>x. cx_next (ctx_objs st x)) (app_contexts (app_objs st app)) xs"

lemma move_known:
  assumes l: "app_list st app as" "named_conn st ctx as = Some c" "cn_status (conns st c) = CONN_OPEN"
    and x: "app_ctxs st app cxs" "find (\<lambda>x. doorbell_id (ctx_objs st x) = ucast (get_u16 (entry_at st (kin_entry st ctx)) 20)) cxs = Some n"
  shows "kin_conn_move e st app ctx (kin_entry st ctx) kout =
    kout_reply e (with_fp st (nicif_connection_move (fp (sp_tas st)) (ucast (get_u16 (entry_at st (kin_entry st ctx)) 20)) (cn_flow_id (conns st c)))) ctx kout
      8 (get_u64 (entry_at st (kin_entry st ctx)) 0) 0 KERNEL_APPIN_STATUS_CONN_MOVE"
proof -
  have c: "c \<noteq> 0"
    by (rule named_conn_nz(2) [OF l(1,2)])
  have "n \<in> set cxs" and d: "doorbell_id (ctx_objs st n) = ucast (get_u16 (entry_at st (kin_entry st ctx)) 20)"
    using x(2) by (auto simp: find_Some_iff)
  then have n: "n \<noteq> 0"
    using x(1) path_inval [of 0 _ _ cxs] by (auto simp: app_ctxs_def)
  show ?thesis
    unfolding kin_conn_move_def Let_def named_conn_find [OF l(1)] l(2) option.case app_find_path [OF x(1) [unfolded app_ctxs_def]] x(2) d
    using c n l(3) by (simp only: simp_thms if_False)
qed

text \<open>
  C11: A request to move an open connection to another context of its application, named by the
  number of its doorbell, is answered with status 0, and the flow's notifications go to that
  context from then on; nothing else in the flow, no other flow, no connection and no other memory changes.
\<close>

theorem move_request_moves:
  assumes r: "request e st ctx KERNEL_APPOUT_CONN_MOVE"
    and l: "app_list st app as" "named_conn st ctx as = Some c" "cn_status (conns st c) = CONN_OPEN"
    and x: "app_ctxs st app cxs" "find (\<lambda>x. doorbell_id (ctx_objs st x) = ucast (get_u16 (entry_at st (kin_entry st ctx)) 20)) cxs = Some n"
  shows "\<exists>st' f. appif_ctx_poll e al la st sc app ctx = Some (Inr (1, st', sc)) \<and> answered st f st' ctx \<and>
    reply_event (shm (sp_tas st')) (kout_entry st ctx) KERNEL_APPIN_STATUS_CONN_MOVE 8 (get_u64 (entry_at st (kin_entry st ctx)) 0) 0 \<and>
    f = (fp (sp_tas st))\<lparr>flowst := (flowst (fp (sp_tas st)))(cn_flow_id (conns st c) :=
      (flowst (fp (sp_tas st)) (cn_flow_id (conns st c)))\<lparr>db_id := get_u16 (entry_at st (kin_entry st ctx)) 20\<rparr>)\<rparr>"
proof -
  let ?f = "nicif_connection_move (fp (sp_tas st)) (ucast (get_u16 (entry_at st (kin_entry st ctx)) 20)) (cn_flow_id (conns st c))"
  have f: "?f = (fp (sp_tas st))\<lparr>flowst := (flowst (fp (sp_tas st)))(cn_flow_id (conns st c) :=
      (flowst (fp (sp_tas st)) (cn_flow_id (conns st c)))\<lparr>db_id := get_u16 (entry_at st (kin_entry st ctx)) 20\<rparr>)\<rparr>"
    by (simp add: nicif_connection_move_def upd_flow_def ucast_up_down)
  have "\<exists>st'. appif_ctx_poll e al la st sc app ctx = Some (Inr (1, st', sc)) \<and> answered st ?f st' ctx \<and>
    reply_event (shm (sp_tas st')) (kout_entry st ctx) KERNEL_APPIN_STATUS_CONN_MOVE 8 (get_u64 (entry_at st (kin_entry st ctx)) 0) 0"
    by (rule poll_replied [OF r]) (simp_all only: handle_move move_known [OF l x], simp_all add: f)
  then show ?thesis
    unfolding f by blast
qed

text \<open>
  C39: An application can make the slow path follow a null pointer: a request to accept a connection on
  a port where it does not listen, served when there is memory for a new connection.
\<close>

theorem accept_unknown_faults:
  assumes r: "request e st ctx KERNEL_APPOUT_ACCEPT_CONN"
    and l: "path 0 (\<lambda>l. ls_app_next (listener_objs st l)) (app_listeners (app_objs st app)) ls"
      "\<forall>l\<in>set ls. ls_port (listener_objs st l) \<noteq> get_u16 (entry_at st (kin_entry st ctx)) 16"
    and al: "ma_conn al = c" "c \<noteq> 0" "packetmem_alloc (ma_rx al) (cfg_tcp_rxbuf_len (se_cfg e)) (pm_free st) = Some (rxh, fl)"
      "packetmem_alloc (ma_tx al) (cfg_tcp_txbuf_len (se_cfg e)) fl = Some (txh, fl')"
  shows "appif_ctx_poll e al la st sc app ctx = Some (Inl Null_Pointer)"
proof -
  let ?b = "entry_at st (kin_entry st ctx)"
  have "find (\<lambda>l. ls_port (listener_objs st l) = get_u16 ?b 16 \<and> ls_opaque (listener_objs st l) = get_u64 ?b 0) ls = None"
    using l(2) by (auto simp: find_None_iff)
  then have "kin_accept_conn e al st app ctx (kin_entry st ctx) (kout_entry st ctx) = Some (Inl Null_Pointer)"
    unfolding kin_accept_conn_def Let_def app_find_path [OF l(1)] by (simp add: tcp_accept_def conn_alloc_ok [OF al] al(2))
  moreover have "kout_room st ctx" "entry_at st (kin_entry st ctx) 63 = KERNEL_APPOUT_ACCEPT_CONN"
    using r by (simp_all add: request_def kout_ready_def entry_at_def)
  ultimately show ?thesis
    by (simp add: appif_ctx_poll_def kin_handle_def Let_def)
qed

section \<open>Closing\<close>

text \<open>A poll that has taken the request and left the answer to later: the other entries of shared memory off the transmit queue are as they were.\<close>

definition taken :: "slowpath \<Rightarrow> slowpath \<Rightarrow> u64 \<Rightarrow> bool" where
  "taken st st' ctx \<longleftrightarrow>
     ctx_objs st' = (ctx_objs st)(ctx := (ctx_objs st ctx)\<lparr>kin_pos := ring_next (kin_pos (ctx_objs st ctx)) 1 (kin_len (ctx_objs st ctx))\<rparr>) \<and>
     mem_view (shm (sp_tas st')) (kin_entry st ctx) 63 = KERNEL_APPOUT_INVALID \<and>
     (\<forall>x. off_queue (sp_tas st) x \<and> 64 \<le> unat (x - kin_entry st ctx) \<longrightarrow> shm (sp_tas st') x = shm (sp_tas st) x)"

definition cleared :: "slowpath \<Rightarrow> u64 \<Rightarrow> slowpath" where
  "cleared st ctx = st\<lparr>sp_tas := set_shm (sp_tas st) (mem_put (shm (sp_tas st)) (kin_entry st ctx) 63 [0]),
     ctx_objs := (ctx_objs st)(ctx := (ctx_objs st ctx)\<lparr>kin_pos := ring_next (kin_pos (ctx_objs st ctx)) 1 (kin_len (ctx_objs st ctx))\<rparr>)\<rparr>"

lemma poll_close:
  assumes r: "request e st ctx KERNEL_APPOUT_CONN_CLOSE" and l: "app_list st app as" "named_conn st ctx as = Some c"
    and c: "tcp_close e st c = Some (Inr (0, st1))" "ctx_objs st1 = ctx_objs st"
  shows "appif_ctx_poll e al la st sc app ctx = Some (Inr (1, cleared st1 ctx, sc))"
proof -
  have c0: "c \<noteq> 0"
    by (rule named_conn_nz(2) [OF l])
  have h: "kin_conn_close e st app ctx (kin_entry st ctx) (kout_entry st ctx) = Some (Inr (0, st1))"
    unfolding kin_conn_close_def Let_def named_conn_find [OF l(1)] l(2) option.case c(1) using c0 by simp
  have k: "kout_room st ctx" "entry_at st (kin_entry st ctx) 63 = KERNEL_APPOUT_CONN_CLOSE" "kin_entry st1 ctx = kin_entry st ctx"
    using r c(2) by (simp_all add: request_def kout_ready_def entry_at_def kin_entry_def)
  show ?thesis
    unfolding appif_ctx_poll_def Let_def k(2) handle_close h bind_run_simps prod.case cleared_def k(3)
    using k(1) c(2) by (simp add: entry_put_def mod_ctx_def set_shm_def)
qed

lemma cleared_taken:
  assumes "ctx_objs st1 = ctx_objs st" "\<And>x. off_queue (sp_tas st) x \<Longrightarrow> shm (sp_tas st1) x = shm (sp_tas st) x"
  shows "taken st (cleared st1 ctx) ctx"
proof -
  have "kin_entry st1 ctx = kin_entry st ctx"
    by (simp add: kin_entry_def assms(1))
  then show ?thesis
    using assms by (auto simp: taken_def cleared_def mem_view_def mem_put_type)
qed

text \<open>
  C10: A request to close an open connection: the poll takes it, the fast path finds the flow no longer
  and all others as before, congestion control leaves the connection out, and the timer that will
  answer the request and release the connection is armed; there is no answer yet and no other connection is touched.
\<close>

theorem close_request_closes:
  assumes r: "request e st ctx KERNEL_APPOUT_CONN_CLOSE" and as: "app_list st app as" "named_conn st ctx as = Some c"
    and c: "cn_status (conns st c) = CONN_OPEN" "\<not> to_armed (conns st c)" "flowst (fp (sp_tas st)) (cn_flow_id (conns st c)) = fs"
    and T: "se_crc e = flow_hash (fpe (se_tas e))" "table_ok (se_crc e) (fp (sp_tas st)) (flowids st) free"
      "registered (se_crc e) (fp (sp_tas st)) (cn_flow_id (conns st c))" "unat (cn_flow_id (conns st c)) < FLEXNIC_PL_FLOWST_NUM"
    and s: "can_send e st ms" and x: "cc_list st xs" "next_conn st = 0 \<or> next_conn st \<in> set xs" "c \<in> set xs"
    and A: "to_armed_map (timeout_mgr st) A" "A (conn_to c) = None" "conn_to c \<noteq> 0"
  shows "\<exists>st'. appif_ctx_poll e al la st sc app ctx = Some (Inr (1, st', sc)) \<and> taken st st' ctx \<and> cn_status (conns st' c) = CONN_CLOSED \<and>
    (\<forall>y. y \<noteq> c \<longrightarrow> (conns st' y)\<lparr>cc_next := 0\<rparr> = (conns st y)\<lparr>cc_next := 0\<rparr>) \<and> flow_removed (fpe (se_tas e)) (fp (sp_tas st)) (fp (sp_tas st')) fs \<and>
    cc_list st' (removeAll c xs) \<and> to_armed_map (timeout_mgr st') (A(conn_to c \<mapsto> TO_TCP_CLOSED)) \<and>
    app_list st' app as \<and> pm_free st' = pm_free st \<and> ports st' = ports st"
proof -
  obtain st1 where st1: "tcp_close e st c = Some (Inr (0, st1))" "to_armed_map (timeout_mgr st1) (A(conn_to c \<mapsto> TO_TCP_CLOSED))"
    "cc_list st1 (removeAll c xs)" "flow_removed (fpe (se_tas e)) (fp (sp_tas st)) (fp (sp_tas st1)) fs"
    and f1: "\<And>y. (conns st1 y)\<lparr>cc_next := 0\<rparr> = (if y = c then (conns st c)\<lparr>cn_remote_seq := rx_next_seq fs, cn_local_seq := tx_next_seq fs,
       cn_status := CONN_CLOSED, to_armed := True, cc_next := 0\<rparr> else (conns st y)\<lparr>cc_next := 0\<rparr>)"
    "st1 = st\<lparr>conns := conns st1, timeout_mgr := timeout_mgr st1, sp_tas := sp_tas st1, cc_conns := cc_conns st1, next_conn := next_conn st1\<rparr>"
    "\<And>y. off_queue (sp_tas st) y \<Longrightarrow> shm (sp_tas st1) y = shm (sp_tas st) y \<and> off_queue (sp_tas st1) y"
    by (rule tcp_close_ok [where st = st and c = c, unfolded c(3), OF c(1,2) T s x A]) (rule that; assumption)
  let ?st = "cleared st1 ctx"
  have g: "ctx_objs st1 = ctx_objs st" "app_objs st1 = app_objs st" "pm_free st1 = pm_free st" "ports st1 = ports st"
    by (subst f1(2), simp)+
  have k: "conns ?st = conns st1" "timeout_mgr ?st = timeout_mgr st1" "app_objs ?st = app_objs st" "pm_free ?st = pm_free st" "ports ?st = ports st"
    "cc_conns ?st = cc_conns st1" "flowst (fp (sp_tas ?st)) = flowst (fp (sp_tas st1))" "flowht (fp (sp_tas ?st)) = flowht (fp (sp_tas st1))"
    by (simp_all add: cleared_def set_shm_def g)
  have "app_next (conns st1 y) = app_next (conns st y)" for y
    using arg_cong [OF f1(1) [of y], of app_next] by (simp split: if_splits)
  then have "app_list ?st app as"
    by (intro app_list_cong [OF as(1)]) (simp_all add: k)
  moreover have "cc_list ?st (removeAll c xs)" "flow_removed (fpe (se_tas e)) (fp (sp_tas st)) (fp (sp_tas ?st)) fs"
    using st1(3,4) fss1_cong [OF k(7,8)] by (simp_all add: cc_list_def k flow_removed_def)
  moreover have "taken st ?st ctx"
    by (rule cleared_taken [OF g(1)]) (use f1(3) in blast)
  moreover have "(conns st1 y)\<lparr>cc_next := 0\<rparr> = (conns st y)\<lparr>cc_next := 0\<rparr>" if "y \<noteq> c" for y
    using f1(1) [of y] that by simp
  ultimately show ?thesis
    using poll_close [OF r as st1(1) g(1)] st1(2) closed_keeps(1) [OF f1(1)] by (intro exI [of _ ?st]) (simp add: k)
qed

section \<open>An open connection whose application asks\<close>

definition demo_writes :: "u8 \<Rightarrow> u16 \<Rightarrow> writes" where
  "demo_writes ty port = [(0, u64_bytes 77), (8, u32_bytes 0x0A000002), (12, u32_bytes 0x0A000001), (16, u16_bytes 80), (18, u16_bytes port),
     (20, u16_bytes 5), (63, [ty])]"

definition demo_asked :: "u8 \<Rightarrow> u16 \<Rightarrow> slowpath" where
  "demo_asked ty port = demo_open\<lparr>sp_tas := (set_shm (sp_tas demo_open) (mem_puts (shm (sp_tas demo_open)) 61504 (demo_writes ty port)))\<lparr>evfd_writes := []\<rparr>,
     ctx_objs := (\<lambda>x. (ctx_objs demo_open x)\<lparr>kin_base := 61504, kin_len := 64, doorbell_id := if x = 128 then 5 else 0\<rparr>),
     app_objs := (\<lambda>_. \<lparr>app_contexts = 128, app_conns = 64, app_listeners = 0\<rparr>)\<rparr>"

lemma demo_asked_simps [simp]:
  "conns (demo_asked ty port) c = conns demo_open c" "timeout_mgr (demo_asked ty port) = demo_mgr" "next_conn (demo_asked ty port) = 0"
  "cc_conns (demo_asked ty port) = 64" "app_objs (demo_asked ty port) = (\<lambda>_. \<lparr>app_contexts = 128, app_conns = 64, app_listeners = 0\<rparr>)"
  "pm_free (demo_asked ty port) = [\<lparr>ph_base = 0, ph_len = 65536\<rparr>]" "flowids (demo_asked ty port) = flowids demo_open"
  "ctx_objs (demo_asked ty port) x = (ctx_objs demo_open x)\<lparr>kin_base := 61504, kin_len := 64, doorbell_id := if x = 128 then 5 else 0\<rparr>"
  "shm (sp_tas (demo_asked ty port)) = mem_puts (\<lambda>_. 0) 61504 (demo_writes ty port)"
  "flowst (fp (sp_tas (demo_asked ty port))) = flowst (fp (sp_tas demo_open))" "flowht (fp (sp_tas (demo_asked ty port))) = flowht (fp (sp_tas demo_open))"
  by (simp_all add: demo_asked_def set_shm_def) (simp_all add: demo_open_def)

lemma demo_asked_entries: "kin_entry (demo_asked ty port) 0 = 61504" "kout_entry (demo_asked ty port) 0 = 61440"
  by (simp_all add: kin_entry_def kout_entry_def entry_addr_def) (simp_all add: demo_tcp_def)

lemma demo_writes_within: "within 64 (demo_writes ty port)"
  by (simp add: demo_writes_def)

lemma demo_asked_bytes:
  fixes ty :: u8 and port :: u16
  defines "v \<equiv> mem_view (mem_puts (\<lambda>_. 0) 61504 (demo_writes ty port)) 61504"
  shows "v 63 = ty" "get_u64 v 0 = 77" "get_u32 v 8 = 0x0A000002" "get_u32 v 12 = 0x0A000001" "get_u16 v 16 = 80" "get_u16 v 18 = port" "get_u16 v 20 = 5"
proof -
  have d: "disjoint_writes (demo_writes ty port)"
    by (simp add: demo_writes_def disjoint_writes_def)
  have v: "has_bytes v k bs" if "(k, bs) \<in> set (demo_writes ty port)" for k bs
  proof (rule has_bytes_cong [OF has_bytes_written [OF d that]])
    fix i
    assume "i < k + length bs"
    then have "i < 64"
      using that by (auto simp: demo_writes_def)
    then show "v i = puts_buf (mem_view (\<lambda>_. 0) 61504) (demo_writes ty port) i"
      unfolding v_def by (intro mem_view_puts) simp
  qed
  show "v 63 = ty"
    using v [of 63 "[ty]"] by (simp add: demo_writes_def has_bytes_Cons)
  show "get_u64 v 0 = 77" "get_u32 v 8 = 0x0A000002" "get_u32 v 12 = 0x0A000001" "get_u16 v 16 = 80" "get_u16 v 18 = port" "get_u16 v 20 = 5"
    by (rule get_u64_bytes get_u32_bytes get_u16_bytes, rule v, simp add: demo_writes_def)+
qed

lemma demo_apart: "unat (x - 61504) < 64 \<Longrightarrow> 64 \<le> unat (x - 61440) \<and> unat (x - 61440) < 128" for x :: u64
proof -
  assume a: "unat (x - 61504) < 64"
  have "x - 61440 = of_nat (unat (x - 61504) + 64)"
    by simp
  then show ?thesis
    using a by (simp only:) (simp only: unat_of_nat, simp)
qed

lemma demo_asked_off: "off_queue (sp_tas (demo_asked ty port)) = off_queue demo_tas"
  by (rule off_queue_cong) (simp_all add: demo_asked_def set_shm_def)

lemma demo_asked_request: "request demo_senv (demo_asked ty port) 0 ty"
proof -
  have o: "off_queue demo_tas x" if "unat (x - 61440) < 128" for x
    by (rule demo_entry_apart [OF that])
  have "mem_view (mem_puts (\<lambda>_. 0) 61504 (demo_writes ty port)) 61440 63 = 0"
    unfolding mem_view_def
  proof (subst mem_puts_outside [OF demo_writes_within])
    show "64 \<le> unat (61440 + of_nat 63 - 61504 :: u64)"
      by (simp add: unsigned_minus_1_eq_mask mask_eq_exp_minus_1)
  qed simp
  then have "kout_ready demo_senv (demo_asked ty port) 0"
    using o by (simp add: kout_ready_def kout_room_def demo_asked_entries demo_asked_off) (simp add: demo_tcp_def)
  then show ?thesis
    using demo_asked_bytes(1) demo_apart o unfolding request_def demo_asked_entries demo_asked_off by auto
qed

lemma demo_asked_list: "app_list (demo_asked ty port) 0 [64]"
  by (simp add: app_list_def)

lemma demo_named: "named_conn (demo_asked ty port) 0 [64] = (if port = 9000 then Some 64 else None)"
  unfolding named_conn_def entry_at_def demo_asked_entries demo_asked_simps kin_names_def demo_asked_bytes
  by (simp add: demo_syn_conn_def demo_cn_def)

theorem request_unknown_refused_witness:
  "\<forall>al la. \<exists>st'. appif_ctx_poll demo_senv al la (demo_asked 2 1234) 0 0 0 = Some (Inr (1, st', 0)) \<and> reply_event (shm (sp_tas st')) 61440 1 8 77 (-1)"
proof (intro allI)
  fix al la
  have n: "named_conn (demo_asked 2 1234) 0 [64] = None"
    by (simp add: demo_named)
  have o: "get_u64 (entry_at (demo_asked 2 1234) 61504) 0 = 77"
    by (simp add: entry_at_def demo_asked_bytes)
  show "\<exists>st'. appif_ctx_poll demo_senv al la (demo_asked 2 1234) 0 0 0 = Some (Inr (1, st', 0)) \<and> reply_event (shm (sp_tas st')) 61440 1 8 77 (-1)"
    using request_unknown_refused [OF demo_asked_request [of 2 1234] disjI1 [OF refl] demo_asked_list n, of al la 0]
    unfolding demo_asked_entries o by auto
qed

theorem move_request_moves_witness:
  "\<forall>al la. \<exists>st'. appif_ctx_poll demo_senv al la (demo_asked 3 9000) 0 0 0 = Some (Inr (1, st', 0)) \<and> reply_event (shm (sp_tas st')) 61440 2 8 77 0"
proof (intro allI)
  fix al la
  have n: "named_conn (demo_asked 3 9000) 0 [64] = Some 64" "cn_status (conns (demo_asked 3 9000) 64) = CONN_OPEN"
    by (simp_all add: demo_named)
  have b: "get_u64 (entry_at (demo_asked 3 9000) 61504) 0 = 77" "get_u16 (entry_at (demo_asked 3 9000) 61504) 20 = 5"
    by (simp_all add: entry_at_def demo_asked_bytes)
  have x: "app_ctxs (demo_asked 3 9000) 0 [128]"
    "find (\<lambda>x. doorbell_id (ctx_objs (demo_asked 3 9000) x) = ucast (get_u16 (entry_at (demo_asked 3 9000) (kin_entry (demo_asked 3 9000) 0)) 20)) [128] = Some 128"
    unfolding demo_asked_entries b by (simp_all add: app_ctxs_def) (simp_all add: demo_tcp_def)
  show "\<exists>st'. appif_ctx_poll demo_senv al la (demo_asked 3 9000) 0 0 0 = Some (Inr (1, st', 0)) \<and> reply_event (shm (sp_tas st')) 61440 2 8 77 0"
    using move_request_moves [OF demo_asked_request [of 3 9000] demo_asked_list n x, of al la 0]
    unfolding demo_asked_entries b by auto
qed

theorem accept_unknown_faults_witness:
  "\<forall>la. appif_ctx_poll demo_senv \<lparr>ma_conn = 128, ma_rx = True, ma_tx = True, ma_arp = 0\<rparr> la (demo_asked 6 9000) 0 0 0 = Some (Inl Null_Pointer)"
proof
  fix la
  have f: "pm_free (demo_asked 6 9000) = pm_free demo_net_up"
    by (simp add: demo_net_up_def demo_slow_def cc_state.defs slowpath.defs demo_cc_def)
  show "appif_ctx_poll demo_senv \<lparr>ma_conn = 128, ma_rx = True, ma_tx = True, ma_arp = 0\<rparr> la (demo_asked 6 9000) 0 0 0 = Some (Inl Null_Pointer)"
    by (rule accept_unknown_faults [OF demo_asked_request, where ls = "[]" and c = 128 and rxh = "\<lparr>ph_base = 0, ph_len = 8192\<rparr>" and fl = "[\<lparr>ph_base = 8192, ph_len = 57344\<rparr>]"])
      (simp_all only: f conn_mallocs.select_convs demo_net_up_ready(1,2), simp_all)
qed

theorem close_request_closes_witness:
  "\<forall>al la. \<exists>st'. appif_ctx_poll demo_senv al la (demo_asked 2 9000) 0 0 0 = Some (Inr (1, st', 0)) \<and> taken (demo_asked 2 9000) st' 0 \<and>
     cn_status (conns st' 64) = CONN_CLOSED"
proof (intro allI)
  fix al la
  let ?st = "demo_asked 2 9000"
  have n: "named_conn ?st 0 [64] = Some 64" "cn_status (conns ?st 64) = CONN_OPEN" "\<not> to_armed (conns ?st 64)"
    "unat (cn_flow_id (conns ?st 64)) < FLEXNIC_PL_FLOWST_NUM" "to_armed_map (timeout_mgr ?st) (\<lambda>_. None)" "64 \<in> set [64 :: u64]"
    using demo_timers by (simp_all add: demo_named)
  have T: "table_ok (se_crc demo_senv) (fp (sp_tas ?st)) (flowids ?st) (map of_nat [1..<FLEXNIC_PL_FLOWST_NUM])"
    "registered (se_crc demo_senv) (fp (sp_tas ?st)) (cn_flow_id (conns ?st 64))"
    using table_ok_cong [OF demo_open_table(2), of "fp (sp_tas ?st)"] demo_open_table(3) by (simp_all add: registered_def has_entry_def)
  have l: "cc_list ?st [64]" "next_conn ?st = 0 \<or> next_conn ?st \<in> set [64]"
    by (simp_all add: cc_list_def) (simp add: demo_syn_conn_def demo_cn_def)
  have o: "unat (x - 61504) < 64 \<Longrightarrow> off_queue (sp_tas demo_open) x" for x
    using demo_entry_apart [of x] demo_apart [of x] off_queue_cong [of "sp_tas demo_open" demo_tas] by simp
  have "outbox demo_tenv (sp_tas demo_open) []" "outbox demo_tenv (sp_tas demo_open) [] \<Longrightarrow> can_send demo_senv ?st []"
    using demo_open_ready(1) kout_write_outbox(1) [OF _ o demo_writes_within [of 2 9000], where env = demo_tenv and ms = "[]" and w = "[]"]
    by (simp_all add: can_send_def demo_asked_def del: demo_open_simps)
  then show "\<exists>st'. appif_ctx_poll demo_senv al la ?st 0 0 0 = Some (Inr (1, st', 0)) \<and> taken ?st st' 0 \<and> cn_status (conns st' 64) = CONN_CLOSED"
    using close_request_closes [OF demo_asked_request demo_asked_list n(1-3) refl demo_open_table(1) T n(4) _ l n(6,5), where ms = "[]" and al = al and la = la and sc = 0] by auto
qed

end
