(* ===== verification/Slow_Main.thy ===== *)
theory Slow_Main
  imports Conn_Lifecycle
begin

text \<open>
  The timers in the main loop of the slow path, \<^verbatim>\<open>tas/slow/kernel.c\<close>: which handler a timer is for, the poll of the timers, and
  how long the loop sleeps.
\<close>

unbundle bit_operations_syntax

section \<open>Model\<close>

definition timeout_trigger :: "slow_env \<Rightarrow> slowpath \<Rightarrow> u64 \<Rightarrow> u8 \<Rightarrow> slowpath run" where
  "timeout_trigger e st to ty =
    (if ty = TO_ARP_REQ then arp_timeout e st to ty
     else if ty = TO_TCP_HANDSHAKE \<or> ty = TO_TCP_RETRANSMIT \<or> ty = TO_TCP_CLOSED then tcp_timeout e st to ty
     else Some (Inl Abort))"

text \<open>The poll hands the manager and the rest of the state to the handler; both are in one record here.\<close>

definition trigger_handler :: "slow_env \<Rightarrow> slowpath timeout_handler" where
  "trigger_handler e to ty = (\<lambda>(m, st).
     bind_run (timeout_trigger e (st\<lparr>timeout_mgr := m\<rparr>) to ty) (\<lambda>st. Some (Inr (timeout_mgr st, st))))"

definition slow_timers_poll :: "slow_env \<Rightarrow> slowpath \<Rightarrow> u32 \<Rightarrow> slowpath run" where
  "slow_timers_poll e st cur_ts =
    bind_run (util_timeout_poll_ts (trigger_handler e) (timeout_mgr st, st) cur_ts) (\<lambda>(m, st). Some (Inr (st\<lparr>timeout_mgr := m\<rparr>)))"

text \<open>The time to sleep in milliseconds, from the times in microseconds until congestion control and a timer need the loop, or \<open>-1\<close>.\<close>

definition block_timeout_ms :: "u32 \<Rightarrow> u32 \<Rightarrow> int" where
  "block_timeout_ms cc_timeout util_timeout =
    (let timeout_us = (if cc_timeout \<noteq> -1 \<and> util_timeout \<noteq> -1 then min cc_timeout util_timeout
                       else if cc_timeout \<noteq> -1 then util_timeout else cc_timeout);
         timeout_ms = (if timeout_us \<noteq> -1 then uint (timeout_us div 1000) else -1) in
     if timeout_ms = -1 \<or> timeout_ms > 1000 then 10 else timeout_ms)"

section \<open>Sleeping\<close>

text \<open>
  C40: The loop sleeps at most a second.  If both congestion control and a timer wait, it
  wakes up before either is due; if only one of them waits, it sleeps for ten milliseconds however early that one is due.
\<close>

theorem block_timeout_bounds:
  "0 \<le> block_timeout_ms cc util \<and> block_timeout_ms cc util \<le> 1000 \<and>
   (if cc \<noteq> -1 \<and> util \<noteq> -1 then block_timeout_ms cc util * 1000 \<le> min (uint cc) (uint util) else block_timeout_ms cc util = 10)"
proof -
  have d: "uint (x div 1000) = uint x div 1000" for x :: u32
    by (simp add: uint_div)
  have m: "uint (min cc util) = min (uint cc) (uint util)"
    by (simp add: min_def word_le_def)
  have "min cc util \<noteq> -1" if "cc \<noteq> -1" "util \<noteq> -1"
    using that by (simp add: min_def)
  moreover have "0 \<le> min (uint cc) (uint util) div 1000"
    by (simp add: min_def div_int_pos_iff)
  ultimately show ?thesis
    by (auto simp: block_timeout_ms_def Let_def d m)
qed

section \<open>A timer that releases a connection\<close>

lemma distinct_singleton: "distinct xs \<Longrightarrow> set xs = {x} \<Longrightarrow> xs = [x]"
  by (cases xs; cases "tl xs") auto

text \<open>A poll with one due timer.\<close>

lemma poll_one_due:
  assumes r: "timeouts_reach now dl ty A m" "now \<le> now'" "\<forall>p \<in> A. now' - dl p < 134217728" and d: "{p \<in> A. dl p \<le> now'} = {to}"
    and h: "\<And>m. \<exists>s'. handler to (ty to) (m, s) = Some (Inr (m, s')) \<and> P m s'"
  shows "\<exists>m' s'. util_timeout_poll_ts handler (m, s) (word_of_int now') = Some (Inr (m', s')) \<and> P m' s' \<and>
    to_armed_map m' (\<lambda>p. if p \<in> A \<and> p \<noteq> to then Some (ty p) else None)"
proof -
  obtain xs ys where xy: "to_rep now dl ty m xs ys" "set (xs @ ys) = A"
    using timeouts_reach_rep [OF r(1)] by blast
  define Y where "Y = ys @ filter (\<lambda>p. dl p \<le> now') xs"
  have adv: "to_rep now' dl ty m xs ys"
    by (rule to_rep_advance [OF xy(1) r(2)]) (use r(3) xy(2) in auto)
  then obtain m1 where m1: "move_due_timeouts m (word_of_int now' AND TIMEOUT_MASK) = Some m1" "to_rep now' dl ty m1 (filter (\<lambda>p. now' < dl p) xs) Y"
    unfolding Y_def using to_rep_move by blast
  have "\<forall>p \<in> set ys. dl p \<le> now'"
    using adv by (simp add: to_rep_def)
  then have "set Y = {p \<in> A. dl p \<le> now'}"
    using xy(2) by (auto simp: Y_def)
  moreover have "distinct Y"
    using m1(2) by (simp add: to_rep_def to_lists_def)
  ultimately have Y: "Y = [to]"
    using d by (intro distinct_singleton) simp_all
  note l = to_rep_lists [OF m1(2), unfolded Y]
  note pop = due_pop_lists [OF l]
  have ty: "ucast (drop_bit 28 (ttype m1 p)) = ty p" if "p \<in> set (filter (\<lambda>p. now' < dl p) xs @ [to])" for p
    using m1(2) that by (auto simp: to_rep_def Y)
  have e: "due_first (due_pop m1) = 0"
    using pop(1) by (simp add: to_lists_def dlist_empty)
  obtain s' where s': "handler to (ty to) (due_pop m1, s) = Some (Inr (due_pop m1, s'))" "P (due_pop m1) s'"
    using h by blast
  then have "timeout_poll_loop handler (Suc (Suc n)) (m1, s) = Some (Inr (due_pop m1, s'))" for n
    using e pop ty [of to] by (simp add: Let_def pop(2) [THEN fun_cong])
  then have "util_timeout_poll_ts handler (m, s) (word_of_int now') = Some (Inr (due_pop m1, s'))"
    using m1(1) by (simp add: util_timeout_poll_ts_def numeral_eq_Suc)
  moreover have "p \<in> A \<and> p \<noteq> to \<longleftrightarrow> p \<in> set (filter (\<lambda>p. now' < dl p) xs)" for p
    using d xy(2) \<open>\<forall>p \<in> set ys. dl p \<le> now'\<close> by fastforce
  then have "to_armed_map (due_pop m1) (\<lambda>p. if p \<in> A \<and> p \<noteq> to then Some (ty p) else None)"
    using ty pop(2) [THEN fun_cong] by (intro to_armed_mapI [OF pop(1)]) auto
  ultimately show ?thesis
    using s'(2) by blast
qed

text \<open>
  C7: From the clock to the release.  When the time set at the closing of a connection has passed and no other timer is due, the
  poll of the timers in the main loop takes the connection from the table and the list of its application,
  gives back its buffers, flow id and port, tells the application, and leaves every other timer armed.
\<close>

theorem closed_timer_releases:
  assumes r: "timeouts_reach now dl ty A (timeout_mgr st)" "now \<le> now'" "\<forall>p \<in> A. now' - dl p < 134217728"
    and d: "{p \<in> A. dl p \<le> now'} = {conn_to c}" "ty (conn_to c) = TO_TCP_CLOSED"
    and h: "conns_hold e st cs" "c \<in> set cs" and a: "to_armed (conns st c)"
    and k: "kout_ready e st (cn_ctx (conns st c))" and l: "app_list st (cx_app (ctx_objs st (cn_ctx (conns st c)))) xs" "c \<in> set xs"
  shows "\<exists>st'. slow_timers_poll e st (word_of_int now') = Some (Inr st') \<and>
    conns_hold e st' (remove1 c cs) \<and> app_list st' (cx_app (ctx_objs st (cn_ctx (conns st c)))) (remove1 c xs) \<and>
    pm_free st' = packetmem_free (cn_rx_handle (conns st c)) (packetmem_free (cn_tx_handle (conns st c)) (pm_free st)) \<and>
    flowids st' = flow_id_free (flowids st) (cn_flow_id (conns st c)) \<and> ports st' = port_released (ports st) (cn_local_port (conns st c)) \<and>
    closed_event (shm (sp_tas st')) (kout_entry st (cn_ctx (conns st c))) (cn_opaque (conns st c)) \<and>
    to_armed_map (timeout_mgr st') (\<lambda>p. if p \<in> A \<and> p \<noteq> conn_to c then Some (ty p) else None)"
proof -
  let ?P = "\<lambda>m st'. timeout_mgr st' = m \<and> conns_hold e st' (remove1 c cs) \<and> app_list st' (cx_app (ctx_objs st (cn_ctx (conns st c)))) (remove1 c xs) \<and>
    pm_free st' = packetmem_free (cn_rx_handle (conns st c)) (packetmem_free (cn_tx_handle (conns st c)) (pm_free st)) \<and>
    flowids st' = flow_id_free (flowids st) (cn_flow_id (conns st c)) \<and> ports st' = port_released (ports st) (cn_local_port (conns st c)) \<and>
    closed_event (shm (sp_tas st')) (kout_entry st (cn_ctx (conns st c))) (cn_opaque (conns st c))"
  have "\<exists>s'. trigger_handler e (conn_to c) (ty (conn_to c)) (m, st) = Some (Inr (m, s')) \<and> ?P m s'" for m
  proof -
    let ?st = "st\<lparr>timeout_mgr := m\<rparr>"
    have h1: "conns_hold e ?st cs" "to_armed (conns ?st c)" "app_list ?st (cx_app (ctx_objs ?st (cn_ctx (conns ?st c)))) xs"
      using h(1) a l(1) by (simp_all add: conns_hold_def conn_table_def app_list_def to_local_def)
    have k1: "kout_ready e ?st (cn_ctx (conns ?st c))"
      using kout_ready_cong(1) [OF k, of ?st] by simp
    have en: "kout_entry ?st = kout_entry st"
      by (simp add: kout_entry_def fun_eq_iff)
    show ?thesis
    proof (rule tcp_closed_ok [OF h1(1) h(2) h1(2) k1 h1(3) l(2)], goal_cases)
      case (1 st')
      then have "trigger_handler e (conn_to c) (ty (conn_to c)) (m, st) = Some (Inr (m, st'))"
        by (simp add: trigger_handler_def timeout_trigger_def d(2))
      with 1 show ?thesis
        by (intro exI [of _ st']) (simp add: en)
    qed
  qed
  from poll_one_due [OF r d(1), of "trigger_handler e" st ?P, OF this] obtain m' st' where
    p: "util_timeout_poll_ts (trigger_handler e) (timeout_mgr st, st) (word_of_int now') = Some (Inr (m', st'))" "?P m' st'"
      "to_armed_map m' (\<lambda>p. if p \<in> A \<and> p \<noteq> conn_to c then Some (ty p) else None)"
    by (elim exE conjE) blast
  then have "slow_timers_poll e st (word_of_int now') = Some (Inr st')"
    by (auto simp: slow_timers_poll_def)
  then show ?thesis
    using p(2,3) by (intro exI [of _ st']) simp
qed

theorem closed_timer_releases_witness:
  "\<exists>m st'. slow_timers_poll demo_senv (demo_tcp m) 10000 = Some (Inr st') \<and> conns_hold demo_senv st' [] \<and>
     closed_event (shm (sp_tas st')) 61440 77 \<and> to_armed_map (timeout_mgr st') (\<lambda>_. None)"
proof -
  let ?dl = "(\<lambda>_. 0)(conn_to 64 := 10000) :: u64 \<Rightarrow> int" and ?ty = "(\<lambda>_. 0)(conn_to 64 := TO_TCP_CLOSED) :: u64 \<Rightarrow> u8"
  obtain m where m: "timeouts_reach 0 ?dl ?ty {conn_to 64} m"
    using timeouts_reach_arm [OF timeouts_reach.init, where now = 0 and now' = 0 and dl = "\<lambda>_. 0" and ty = "\<lambda>_. 0" and to = "conn_to 64" and us = 10000 and type = 3]
    by auto
  have l: "app_list (demo_tcp m) (cx_app (ctx_objs (demo_tcp m) (cn_ctx (conns (demo_tcp m) 64)))) [64]" "64 \<in> set [64 :: u64]"
    by (simp_all add: app_list_def)
  have d: "{p \<in> {conn_to 64}. ?dl p \<le> 10000} = {conn_to 64}" "?ty (conn_to 64) = TO_TCP_CLOSED" "\<forall>p \<in> {conn_to 64}. 10000 - ?dl p < 134217728"
    by auto
  have "timeouts_reach 0 ?dl ?ty {conn_to 64} (timeout_mgr (demo_tcp m))" "(0 :: int) \<le> 10000" "to_armed (conns (demo_tcp m) 64)"
    using m by simp_all
  from closed_timer_releases [OF this(1,2) d(3,1,2) demo_conns_hold l(2) this(3) demo_kout l] show ?thesis
    unfolding demo_entry by (intro exI [of _ m]) auto
qed

end
