(* ===== verification/Spec2Isabelle.thy ===== *)
theory Spec2Isabelle
  imports Arx_Queue Timeouts_Spec Cc_Spec Routing Appif_Spec Slow_Main
begin

text \<open>
  A verification library of TAS, the TCP acceleration service under \<^verbatim>\<open>src/stack/tas\<close>.

  \<^bold>\<open>The program.\<close>  TAS runs TCP in a process of its own.  \<^emph>\<open>Fast path\<close> cores
  (\<^verbatim>\<open>tas/fast\<close>) move the data of established connections between the network card and circular
  payload buffers in a memory that is shared with the applications.  The \<^emph>\<open>slow path\<close>
  (\<^verbatim>\<open>tas/slow\<close>), one thread, opens and closes connections, runs congestion control and
  timeouts, and hands out the shared memory.  The parts talk through arrays of fixed-size entries in the
  shared memory, whose last byte says who owns the entry, and through registers of the flows
  (\<^verbatim>\<open>include/tas_memif.h\<close>); a blocked reader is woken through an event descriptor.

  \<^bold>\<open>Modelling.\<close>  A C integer is a word of its width and wraps where the code does.  A
  \<^verbatim>\<open>struct\<close> is a record, a pointer an address with 0 for \<^verbatim>\<open>NULL\<close>, an array or a heap a function
  from indexes or addresses.  The shared memory is a function from 64-bit offsets to bytes, and
  queue entries and packets are bytes in it.  Stateful code takes and returns its state.  Code that can abort,
  fail an assertion, divide by zero or leave an array has the type \<open>'a result\<close>, a loop that may
  not end is a partial function in \<open>'a option\<close>, where \<open>None\<close> is a run that does not return, and
  \<open>'a run\<close> combines both.  No fuel is used; the bounded loops have the
  bounds of the code: 512 polls in \<^verbatim>\<open>nicif_poll\<close>, 128 connections in \<^verbatim>\<open>cc_poll\<close>, 64 timeouts in
  \<^verbatim>\<open>util_timeout_poll\<close>, 32 entries in \<^verbatim>\<open>fast_actx_rxq_probe\<close>.  Code outside the repository is an argument: the
  CRC of the card, the checksums, the cycle counter, the success of \<^verbatim>\<open>malloc\<close>, \<^verbatim>\<open>calloc\<close> and
  \<^verbatim>\<open>write\<close>, the transmit ring of DPDK.  The handler of a timeout is a parameter of the timeout manager.  Freed memory keeps its
  contents, since no modelled code reads it again.

  \<^bold>\<open>Foundations.\<close>  \<^verbatim>\<open>Tas_Prelude\<close> has the integer and result types and the arithmetic lemmas;
  \<^verbatim>\<open>Linked_List\<close>, \<^verbatim>\<open>Dlinked_List\<close> have lists linked through next and previous functions;
  \<^verbatim>\<open>Wrap_Clock\<close> is an interface of clocks that wrap, interpreted for the clocks of the queue
  manager and of the timeout manager; \<^verbatim>\<open>Packet_Defs\<close>, \<^verbatim>\<open>Wire\<close> have the packet headers of
  \<^verbatim>\<open>include/packet_defs.h\<close> and their layout in memory, with the round trip between both;
  \<^verbatim>\<open>Utils_Rng\<close> is \<^verbatim>\<open>lib/utils/rng.c\<close>; \<^verbatim>\<open>Dma\<close> is \<^verbatim>\<open>tas/fast/dma.h\<close>; \<^verbatim>\<open>Shm_Queues\<close> has the
  interface \<open>flag_ring\<close> of the rings with ownership bytes, interpreted for each kind of queue.

  \<^bold>\<open>Fast path.\<close>  \<^verbatim>\<open>Tas_Memif\<close> has the registers of a flow.  \<^verbatim>\<open>Tcp_Common\<close> models
  \<^verbatim>\<open>tas/fast/tcp_common.h\<close> and compares the window arithmetic modulo \<open>2^32\<close> with intervals of
  natural numbers.  \<^verbatim>\<open>Fast_Ctx\<close>, \<^verbatim>\<open>Fast_Flows\<close> model \<^verbatim>\<open>tas/fast/fast_flows.c\<close> and the buffer code
  it uses; \<^verbatim>\<open>Flow_Buffers\<close>, \<^verbatim>\<open>Flow_Rx\<close>, \<^verbatim>\<open>Flow_Recv\<close> show that the receiver delivers exactly
  the bytes of the sender's stream, in order, for buffers shorter than 64 KiB and segments the trimming handles; \<^verbatim>\<open>Flow_Tx\<close> shows what a
  segment carries, that acknowledgements slide the window, and what an update by the
  application changes.  \<^verbatim>\<open>Qman\<close>, \<^verbatim>\<open>Tx_Queues\<close>, \<^verbatim>\<open>Qman_Inv\<close>, \<^verbatim>\<open>Qman_Poll\<close> model
  \<^verbatim>\<open>tas/fast/qman.c\<close>: the skip list and the list of unlimited queues stay well formed, polling conserves the
  bytes to send, keeps the rates and serves unlimited queues in turn, as long as less than \<open>2^30\<close> ns pass between polls.  \<^verbatim>\<open>App_Queues\<close>, \<^verbatim>\<open>Arx_Queue\<close>
  model \<^verbatim>\<open>tas/fast/fast_appctx.c\<close> and \<^verbatim>\<open>arx_cache_flush\<close> and refine the receive queue of an application to
  a list of notifications.

  \<^bold>\<open>Slow path.\<close>  \<^verbatim>\<open>Packetmem\<close> models \<^verbatim>\<open>tas/slow/packetmem.c\<close>: the interface
  \<open>region_allocator\<close> gives disjoint regions in every reachable state.  \<^verbatim>\<open>Flow_Table\<close>, \<^verbatim>\<open>Nicif\<close>
  model the flow table, flow ids and registration of \<^verbatim>\<open>tas/slow/nicif.c\<close> and refine them to a map from
  4-tuples to flows, as the lookup of the fast path sees it, as long as no entry has been moved.  \<^verbatim>\<open>Kernel_Queues\<close>, \<^verbatim>\<open>Ktx_Queue\<close>,
  \<^verbatim>\<open>Krx_Queue\<close>, \<^verbatim>\<open>Adminq_Init\<close> model both ends of the queues between slow and fast path
  (\<^verbatim>\<open>nicif.c\<close>, \<^verbatim>\<open>fast_kernel.c\<close>) and their initialisation, refined to lists of messages (the queue to the fast path if both queues are configured with the same length); \<^verbatim>\<open>Notify\<close> models
  \<^verbatim>\<open>tas/blocking.c\<close>.  \<^verbatim>\<open>Timeouts\<close>, \<^verbatim>\<open>Timeouts_Spec\<close> model \<^verbatim>\<open>lib/utils/timeout.c\<close>: every armed
  timeout fires when it is due and not before.  \<^verbatim>\<open>Slow_Defs\<close>, \<^verbatim>\<open>Cc\<close>, \<^verbatim>\<open>Cc_Spec\<close> model
  \<^verbatim>\<open>tas/slow/cc.c\<close>: the DCTCP window against a reference on natural numbers, and the round-robin control loop.

  \<^bold>\<open>Connections.\<close>  \<^verbatim>\<open>Slow_State\<close> is the state of the slow path as one record, with the queue of
  completed requests (\<^verbatim>\<open>include/utils_nbqueue.h\<close>).  \<^verbatim>\<open>Timers\<close> is the interface \<open>timers\<close>, a map
  from armed timeouts to their types and the times they are due, interpreted for the timeout manager; \<^verbatim>\<open>Kernel_Tx\<close> has what a sender of
  packets needs of the kernel queue.  \<^verbatim>\<open>Arp\<close>, \<^verbatim>\<open>Arp_Spec\<close> model \<^verbatim>\<open>tas/slow/arp.c\<close> and refine the cache
  to a map from addresses to answers; \<^verbatim>\<open>Routing\<close> models \<^verbatim>\<open>tas/slow/routing.c\<close> and decides when its
  loop ends.  \<^verbatim>\<open>tas/slow/tcp.c\<close> is in \<^verbatim>\<open>Tcp_Ports\<close> (port allocation), \<^verbatim>\<open>Tcp_Table\<close> (the hash
  table, an instance of the interface \<open>registry\<close>), \<^verbatim>\<open>Tcp_Control\<close> (control segments and options, with the
  round trip between sender and receiver) and \<^verbatim>\<open>Tcp\<close> (all handlers); \<^verbatim>\<open>Conn_Events\<close>,
  \<^verbatim>\<open>Conn_Events_Spec\<close> have the events for applications of \<^verbatim>\<open>tas/slow/appif_ctx.c\<close>.  \<^verbatim>\<open>Tcp_Steps\<close>,
  \<^verbatim>\<open>Tcp_Conn\<close>, \<^verbatim>\<open>Tcp_Close\<close> put these parts and the parts of the slow path together: a SYN-ACK opens a connection, any other
  packet or too many time-outs fail it, and a closed connection gives back all it has.  \<^verbatim>\<open>Tcp_Open\<close> follows an
  active opening from the request to the SYN in the queue of the fast path, \<^verbatim>\<open>Conn_Lifecycle\<close> a connection from
  \<^verbatim>\<open>tcp_close\<close> to its release, across the fast path's flow table, congestion control, timers and events.

  \<^bold>\<open>Requests and timers.\<close>  \<^verbatim>\<open>Appif_Ctx\<close> models the requests of applications in
  \<^verbatim>\<open>tas/slow/appif_ctx.c\<close>, one definition for each handler, and \<^verbatim>\<open>Appif_Spec\<close> shows what a poll does with a request to close, move or
  accept a connection, with its response as bytes of the shared memory.  \<^verbatim>\<open>Slow_Main\<close> has the timers of the
  main loop in \<^verbatim>\<open>tas/slow/kernel.c\<close>: a connection that was closed is released by the first poll after its time, and
  the loop sleeps at most a second.

  \<^bold>\<open>Not modelled.\<close>  The rest of the main loops of both paths and the start-up code, which order the
  calls of the parts above and of the operating system; the calls into DPDK; the Unix socket on which
  applications register; libtas and its socket layer; tracing and prefetching.  The mutex of the queue of completed
  requests is not modelled, the slow path is one thread.  The other
  programs of the repository (mTCP, the HTTP servers, wrk) are not part of TAS.

  \<^bold>\<open>Where the code goes wrong.\<close>  Conditions that come from a defect of the code stand in the statements and are
  named in the text before them: segments whose end wraps when the window does not (\<open>trim_wrap_gap\<close>), receive buffers of
  64 KiB and more, flow ids above 65535, displacements after an entry of the flow table has moved, jumps of the
  nanosecond clock, and queue lengths that differ.
\<close>

end
